(* ===== verification/Prelude.thy ===== *)
theory Prelude
  imports Main "HOL-Library.Word"
begin

text \<open>
  Shared vocabulary of the development: the machine integers of the kernel, byte slices with
  Rust's range checks, the outcome of a Rust computation (a value, an error value, or a panic),
  a small state monad over that outcome, and the generic lemmas the components use.

  Conventions of the translation.
  \<^item> \<open>usize\<close> is 64 bits wide on the only target (\<open>x86_64-unknown-none\<close>). Offsets and
    lengths are \<open>nat\<close>; a sum of an offset into a live slice and a \<open>u32\<close> cannot reach
    \<open>2^64\<close>, and where a \<open>usize\<close> comes from a sign-extended integer the overflow test is
    written out (the default build is the debug profile, where overflow panics).
  \<^item> A fixed-size array \<open>[T; N]\<close> is a function \<open>nat \<Rightarrow> T\<close>; every access that the
    source makes with an index that is not masked is guarded by \<open>i < N\<close>, the failure being
    \<open>Panic\<close>.
  \<^item> A slice that is only read is a list; \<open>&b[i..]\<close>, \<open>&b[i..j]\<close> and \<open>b[i]\<close> are
    \<open>slice_from\<close>, \<open>slice\<close> and \<open>index\<close>, which panic out of range.
\<close>

unbundle bit_operations_syntax

section \<open>Machine integers and bytes\<close>

type_synonym u8 = "8 word"
type_synonym u16 = "16 word"
type_synonym u32 = "32 word"
type_synonym u64 = "64 word"
type_synonym i32 = "32 word"
type_synonym i64 = "64 word"
type_synonym bytes = "u8 list"

named_theorems res_simps \<open>rewrite rules of the outcome type\<close>
named_theorems pres \<open>rules showing that a state computation keeps an invariant\<close>

text \<open>The bytes of a string literal (the names in the sources are ASCII).\<close>

definition str_bytes :: "string \<Rightarrow> bytes" where
  "str_bytes s = map of_char s"

lemma unat_word_of_nat: "n < 2 ^ LENGTH('a) \<Longrightarrow> unat (word_of_nat n :: 'a::len word) = n"
  by (simp add: unat_of_nat take_bit_nat_eq_self)

section \<open>Outcomes\<close>

text \<open>
  \<open>Ok v\<close> and \<open>Err e\<close> are Rust's \<open>Result\<close>; \<open>Panic\<close> is a kernel panic (an index or
  a slice out of range, an arithmetic overflow); \<open>Hang\<close> is a computation that never returns
  (a loop whose exit is unreachable, a blocking read with no more input). A function that returns \<open>Option\<close> and may
  panic has the error type \<open>unit\<close>: \<open>Err ()\<close> is \<open>None\<close>.
\<close>

datatype ('e, 'a) result = Ok 'a | Err 'e | Panic | Hang

primrec rbind :: "('e, 'a) result \<Rightarrow> ('a \<Rightarrow> ('e, 'b) result) \<Rightarrow> ('e, 'b) result" where
  "rbind (Ok x) f = f x"
| "rbind (Err e) f = Err e"
| "rbind Panic f = Panic"
| "rbind Hang f = Hang"

primrec ok_or :: "'a option \<Rightarrow> 'e \<Rightarrow> ('e, 'a) result" where
  "ok_or None e = Err e"
| "ok_or (Some x) e = Ok x"

primrec map_err :: "('e \<Rightarrow> 'f) \<Rightarrow> ('e, 'a) result \<Rightarrow> ('f, 'a) result" where
  "map_err f (Ok x) = Ok x"
| "map_err f (Err e) = Err (f e)"
| "map_err f Panic = Panic"
| "map_err f Hang = Hang"

primrec is_panic :: "('e, 'a) result \<Rightarrow> bool" where
  "is_panic (Ok x) = False"
| "is_panic (Err e) = False"
| "is_panic Panic = True"
| "is_panic Hang = False"

lemma is_panic_iff [simp]: "is_panic r \<longleftrightarrow> r = Panic"
  by (cases r) auto

lemma rbind_eq_Ok [res_simps]: "rbind r f = Ok y \<longleftrightarrow> (\<exists>x. r = Ok x \<and> f x = Ok y)"
  by (cases r) auto

lemma rbind_eq_Panic [res_simps]: "rbind r f = Panic \<longleftrightarrow> r = Panic \<or> (\<exists>x. r = Ok x \<and> f x = Panic)"
  by (cases r) auto

lemma rbind_no_Panic: "r \<noteq> Panic \<Longrightarrow> (\<And>x. r = Ok x \<Longrightarrow> f x \<noteq> Panic) \<Longrightarrow> rbind r f \<noteq> Panic"
  by (cases r) auto

lemma ok_or_eq_Ok [res_simps]: "ok_or x e = Ok y \<longleftrightarrow> x = Some y"
  by (cases x) auto

lemma ok_or_not_Panic [simp]: "ok_or x e \<noteq> Panic"
  by (cases x) auto

lemma rbind_eq_Hang [res_simps]: "rbind r f = Hang \<longleftrightarrow> r = Hang \<or> (\<exists>x. r = Ok x \<and> f x = Hang)"
  by (cases r) auto

lemma ok_or_not_Hang [simp]: "ok_or x e \<noteq> Hang"
  by (cases x) auto

lemma map_err_eq_Ok [res_simps]: "map_err f r = Ok y \<longleftrightarrow> r = Ok y"
  by (cases r) auto

lemma map_err_eq_Panic [res_simps]: "map_err f r = Panic \<longleftrightarrow> r = Panic"
  by (cases r) auto

section \<open>Byte slices\<close>

definition slice_from :: "'a list \<Rightarrow> nat \<Rightarrow> ('e, 'a list) result" where
  "slice_from bs i = (if i \<le> length bs then Ok (drop i bs) else Panic)"

definition slice :: "'a list \<Rightarrow> nat \<Rightarrow> nat \<Rightarrow> ('e, 'a list) result" where
  "slice bs i j = (if i \<le> j \<and> j \<le> length bs then Ok (take (j - i) (drop i bs)) else Panic)"

definition index :: "'a list \<Rightarrow> nat \<Rightarrow> ('e, 'a) result" where
  "index bs i = (if i < length bs then Ok (bs ! i) else Panic)"

text \<open>\<open>b.get(i..j)\<close> and \<open>b.get(i)\<close> return \<open>None\<close> instead of panicking.\<close>

definition get_range :: "'a list \<Rightarrow> nat \<Rightarrow> nat \<Rightarrow> 'a list option" where
  "get_range bs i j = (if i \<le> j \<and> j \<le> length bs then Some (take (j - i) (drop i bs)) else None)"

definition get_at :: "'a list \<Rightarrow> nat \<Rightarrow> 'a option" where
  "get_at bs i = (if i < length bs then Some (bs ! i) else None)"

lemma slice_from_eq_Ok [res_simps]: "slice_from bs i = Ok r \<longleftrightarrow> i \<le> length bs \<and> r = drop i bs"
  by (auto simp: slice_from_def)

lemma slice_from_ok [simp]: "i \<le> length bs \<Longrightarrow> slice_from bs i = Ok (drop i bs)"
  by (simp add: slice_from_def)

lemma slice_from_append [simp]: "slice_from (a @ b) (length a) = Ok b"
  by (simp add: slice_from_def)

lemma slice_eq_Ok [res_simps]:
  "slice bs i j = Ok r \<longleftrightarrow> i \<le> j \<and> j \<le> length bs \<and> r = take (j - i) (drop i bs)"
  by (auto simp: slice_def)

lemma index_eq_Ok [res_simps]: "index bs i = Ok b \<longleftrightarrow> i < length bs \<and> b = bs ! i"
  by (auto simp: index_def)

lemma index_ok [simp]: "i < length bs \<Longrightarrow> index bs i = Ok (bs ! i)"
  by (simp add: index_def)

lemma get_range_Some [res_simps]:
  "get_range bs i j = Some r \<longleftrightarrow> i \<le> j \<and> j \<le> length bs \<and> r = take (j - i) (drop i bs)"
  by (auto simp: get_range_def)

lemma get_at_Some [res_simps]: "get_at bs i = Some b \<longleftrightarrow> i < length bs \<and> b = bs ! i"
  by (auto simp: get_at_def)

text \<open>Where an error value comes from.\<close>

lemma rbind_eq_Err: "rbind r f = Err e \<longleftrightarrow> r = Err e \<or> (\<exists>x. r = Ok x \<and> f x = Err e)"
  by (cases r) auto

lemma ok_or_eq_Err: "ok_or x e = Err e' \<longleftrightarrow> x = None \<and> e' = e"
  by (cases x) auto

lemma slice_from_not_Err: "slice_from bs i \<noteq> Err e"
  by (simp add: slice_from_def)

lemmas err_simps = rbind_eq_Err ok_or_eq_Err slice_from_not_Err

section \<open>UTF-8 validity\<close>

text \<open>
  \<open>core::str::from_utf8\<close> accepts exactly the well-formed sequences of the Unicode standard
  (table 3-7): no overlong form, no surrogate, nothing above U+10FFFF. A \<open>&str\<close> is its bytes.
\<close>

definition utf8_cont :: "u8 \<Rightarrow> bool" where
  "utf8_cont b \<longleftrightarrow> 0x80 \<le> b \<and> b \<le> 0xBF"

fun utf8_valid :: "bytes \<Rightarrow> bool" where
  "utf8_valid [] = True"
| "utf8_valid (b # bs) =
     (if b < 0x80 then utf8_valid bs
      else if 0xC2 \<le> b \<and> b \<le> 0xDF then
        (case bs of c # cs \<Rightarrow> utf8_cont c \<and> utf8_valid cs | _ \<Rightarrow> False)
      else if 0xE0 \<le> b \<and> b \<le> 0xEF then
        (case bs of c # d # ds \<Rightarrow>
           utf8_cont c \<and> utf8_cont d \<and> (b = 0xE0 \<longrightarrow> 0xA0 \<le> c) \<and> (b = 0xED \<longrightarrow> c \<le> 0x9F) \<and> utf8_valid ds
         | _ \<Rightarrow> False)
      else if 0xF0 \<le> b \<and> b \<le> 0xF4 then
        (case bs of c # d # e # es \<Rightarrow>
           utf8_cont c \<and> utf8_cont d \<and> utf8_cont e \<and> (b = 0xF0 \<longrightarrow> 0x90 \<le> c) \<and> (b = 0xF4 \<longrightarrow> c \<le> 0x8F)
           \<and> utf8_valid es
         | _ \<Rightarrow> False)
      else False)"

declare utf8_valid.simps(2) [simp del]

definition from_utf8 :: "bytes \<Rightarrow> bytes option" where
  "from_utf8 bs = (if utf8_valid bs then Some bs else None)"

lemma utf8_valid_ascii: "(\<And>b. b \<in> set bs \<Longrightarrow> b < 0x80) \<Longrightarrow> utf8_valid bs"
  by (induction bs) (simp_all add: utf8_valid.simps(2))

lemma from_utf8_Some [res_simps]: "from_utf8 bs = Some s \<longleftrightarrow> utf8_valid bs \<and> s = bs"
  by (auto simp: from_utf8_def)

section \<open>Computations with state\<close>

text \<open>
  A method with a \<open>&mut self\<close> receiver that returns a \<open>Result\<close>: the state is returned in
  every case, since an error leaves behind the writes made before it (a suspended task depends
  on that).
\<close>

type_synonym ('s, 'e, 'a) sm = "'s \<Rightarrow> ('e, 'a) result \<times> 's"

definition ret :: "'a \<Rightarrow> ('s, 'e, 'a) sm" where
  "ret x = (\<lambda>s. (Ok x, s))"

definition throw :: "'e \<Rightarrow> ('s, 'e, 'a) sm" where
  "throw e = (\<lambda>s. (Err e, s))"

definition panic :: "('s, 'e, 'a) sm" where
  "panic = (\<lambda>s. (Panic, s))"

definition lift :: "('e, 'a) result \<Rightarrow> ('s, 'e, 'a) sm" where
  "lift r = (\<lambda>s. (r, s))"

definition gets :: "('s \<Rightarrow> 'a) \<Rightarrow> ('s, 'e, 'a) sm" where
  "gets f = (\<lambda>s. (Ok (f s), s))"

definition modify :: "('s \<Rightarrow> 's) \<Rightarrow> ('s, 'e, unit) sm" where
  "modify f = (\<lambda>s. (Ok (), f s))"

definition sbind :: "('s, 'e, 'a) sm \<Rightarrow> ('a \<Rightarrow> ('s, 'e, 'b) sm) \<Rightarrow> ('s, 'e, 'b) sm" where
  "sbind m f = (\<lambda>s. case m s of
       (Ok x, s') \<Rightarrow> f x s'
     | (Err e, s') \<Rightarrow> (Err e, s')
     | (Panic, s') \<Rightarrow> (Panic, s')
     | (Hang, s') \<Rightarrow> (Hang, s'))"

definition sthen :: "('s, 'e, 'a) sm \<Rightarrow> ('s, 'e, 'b) sm \<Rightarrow> ('s, 'e, 'b) sm" where
  "sthen m k = sbind m (\<lambda>_. k)"

definition guard_err :: "bool \<Rightarrow> 'e \<Rightarrow> ('s, 'e, unit) sm" where
  "guard_err b e = (if b then throw e else ret ())"

definition guard_panic :: "bool \<Rightarrow> ('s, 'e, unit) sm" where
  "guard_panic b = (if b then panic else ret ())"

lemmas sm_defs = ret_def throw_def panic_def lift_def gets_def modify_def sbind_def sthen_def
  guard_err_def guard_panic_def

lemma sbind_assoc: "sbind (sbind m f) g = sbind m (\<lambda>x. sbind (f x) g)"
  by (rule ext) (simp add: sbind_def split: prod.split result.split)

lemma sbind_ret [simp]: "sbind (ret x) f = f x"
  by (rule ext) (simp add: sbind_def ret_def)

lemma sbind_ret_right [simp]: "sbind m ret = m"
  by (rule ext) (simp add: sbind_def ret_def split: prod.split result.split)

text \<open>Steps of a computation whose first action is known.\<close>

lemma run_gets: "sbind (gets f) k s = k (f s) s"
  by (simp add: sbind_def gets_def)

lemma run_modify: "sthen (modify f) k s = k (f s)"
  by (simp add: sthen_def sbind_def modify_def)

lemma run_throw: "throw e s = (Err e, s)"
  by (simp add: throw_def)

lemma run_panic: "panic s = (Panic, s)"
  by (simp add: panic_def)

lemma run_ret: "ret x s = (Ok x, s)"
  by (simp add: ret_def)

lemma run_lift: "sbind (lift r) f s = (case r of Ok x \<Rightarrow> f x s | Err x \<Rightarrow> (Err x, s) | Panic \<Rightarrow> (Panic, s) | Hang \<Rightarrow> (Hang, s))"
  by (cases r) (simp_all add: sbind_def lift_def)

lemma run_step: "m s = (Ok x, t) \<Longrightarrow> sbind m f s = f x t" "m s = (Ok x, t) \<Longrightarrow> sthen m k s = k t"
  by (simp_all add: sthen_def sbind_def)

lemmas run_first = run_gets run_modify run_throw run_panic run_ret

text \<open>When a computation succeeds.\<close>

lemma sbind_eq_Ok: "sbind m f s = (Ok y, t) \<longleftrightarrow> (\<exists>x s'. m s = (Ok x, s') \<and> f x s' = (Ok y, t))"
  by (auto simp: sbind_def split: prod.splits result.splits)

lemma sthen_eq_Ok: "sthen m k s = (Ok y, t) \<longleftrightarrow> (\<exists>x s'. m s = (Ok x, s') \<and> k s' = (Ok y, t))"
  by (simp add: sthen_def sbind_eq_Ok)

lemma prim_eq_Ok:
  "lift r s = (Ok x, t) \<longleftrightarrow> r = Ok x \<and> t = s" "gets f s = (Ok x, t) \<longleftrightarrow> x = f s \<and> t = s"
  "modify g s = (Ok u, t) \<longleftrightarrow> t = g s" "ret z s = (Ok x, t) \<longleftrightarrow> x = z \<and> t = s"
  "throw e s \<noteq> (Ok x, t)" "panic s \<noteq> (Ok x, t)"
  by (auto simp: lift_def gets_def modify_def ret_def throw_def panic_def)

lemmas run_Ok = sbind_eq_Ok sthen_eq_Ok prim_eq_Ok

text \<open>
  Invariants of state computations: \<open>keeps P m\<close> says that \<open>m\<close> leaves \<open>P\<close> true whatever
  its outcome. The rules below reduce a composed computation to its parts.
\<close>

definition keeps :: "('s \<Rightarrow> bool) \<Rightarrow> ('s, 'e, 'a) sm \<Rightarrow> bool" where
  "keeps P m \<longleftrightarrow> (\<forall>s. P s \<longrightarrow> P (snd (m s)))"

lemma keepsI: "(\<And>s. P s \<Longrightarrow> P (snd (m s))) \<Longrightarrow> keeps P m"
  by (simp add: keeps_def)

lemma keepsD: "keeps P m \<Longrightarrow> P s \<Longrightarrow> P (snd (m s))"
  by (simp add: keeps_def)

lemma keeps_ret [pres, intro]: "keeps P (ret x)"
  by (simp add: keeps_def ret_def)

lemma keeps_throw [pres, intro]: "keeps P (throw e)"
  by (simp add: keeps_def throw_def)

lemma keeps_panic [pres, intro]: "keeps P panic"
  by (simp add: keeps_def panic_def)

lemma keeps_lift [pres, intro]: "keeps P (lift r)"
  by (simp add: keeps_def lift_def)

lemma keeps_gets [pres, intro]: "keeps P (gets f)"
  by (simp add: keeps_def gets_def)

lemma keeps_modify: "(\<And>s. P s \<Longrightarrow> P (f s)) \<Longrightarrow> keeps P (modify f)"
  by (simp add: keeps_def modify_def)

lemma keeps_sbind [pres, intro]:
  assumes "keeps P m" and "\<And>x. keeps P (f x)"
  shows "keeps P (sbind m f)"
proof (rule keepsI)
  fix s assume "P s"
  with assms(1) have "P (snd (m s))" by (rule keepsD)
  with assms(2) show "P (snd (sbind m f s))"
    by (auto simp: sbind_def keeps_def split: prod.split result.split)
qed

lemma keeps_read: "(\<And>s. P s \<Longrightarrow> P (snd (f s s))) \<Longrightarrow> keeps P (sbind (gets id) f)"
  by (rule keepsI) (simp add: sbind_def gets_def)

lemma keeps_sthen [pres, intro]: "keeps P m \<Longrightarrow> keeps P k \<Longrightarrow> keeps P (sthen m k)"
  by (simp add: sthen_def keeps_sbind)

lemma keeps_guard_err [pres, intro]: "keeps P (guard_err b e)"
  by (simp add: guard_err_def keeps_ret keeps_throw)

lemma keeps_guard_panic [pres, intro]: "keeps P (guard_panic b)"
  by (simp add: guard_panic_def keeps_ret keeps_panic)

lemma keeps_if [pres, intro]:
  "(c \<Longrightarrow> keeps P a) \<Longrightarrow> (\<not> c \<Longrightarrow> keeps P b) \<Longrightarrow> keeps P (if c then a else b)"
  by simp

lemma keeps_Let [pres, intro]: "keeps P (f y) \<Longrightarrow> keeps P (Let y f)"
  by simp

lemma keeps_case_prod [pres, intro]: "(\<And>a b. keeps P (f a b)) \<Longrightarrow> keeps P (case_prod f p)"
  by (cases p) simp

lemma keeps_case_option [pres, intro]:
  "keeps P a \<Longrightarrow> (\<And>x. keeps P (f x)) \<Longrightarrow> keeps P (case_option a f x)"
  by (cases x) simp_all

lemma keeps_conj: "keeps P m \<Longrightarrow> keeps Q m \<Longrightarrow> keeps (\<lambda>s. P s \<and> Q s) m"
  by (simp add: keeps_def)

text \<open>\<open>undone P m\<close>: \<open>m\<close> keeps \<open>P\<close> when it does not succeed.\<close>

definition undone :: "('s \<Rightarrow> bool) \<Rightarrow> ('s, 'e, 'a) sm \<Rightarrow> bool" where
  "undone P m \<longleftrightarrow> (\<forall>s. P s \<longrightarrow> (\<forall>y. fst (m s) \<noteq> Ok y) \<longrightarrow> P (snd (m s)))"

lemma undone_keeps: "keeps P m \<Longrightarrow> undone P m"
  by (simp add: undone_def keeps_def)

lemma undone_sbind: "keeps P m \<Longrightarrow> (\<And>x. undone P (f x)) \<Longrightarrow> undone P (sbind m f)"
  unfolding undone_def sbind_def keeps_def
  by (intro allI impI, drule_tac x = s in spec) (auto split: prod.splits result.splits)

lemma undone_sthen: "keeps P m \<Longrightarrow> undone P k \<Longrightarrow> undone P (sthen m k)"
  by (simp add: sthen_def undone_sbind)

lemma undone_commit: "undone P (sthen (modify g) (ret x))"
  by (simp add: undone_def sthen_def sbind_def modify_def ret_def)

lemma undone_if: "(c \<Longrightarrow> undone P a) \<Longrightarrow> (\<not> c \<Longrightarrow> undone P b) \<Longrightarrow> undone P (if c then a else b)"
  by simp

lemma undone_case_prod: "(\<And>a b. undone P (f a b)) \<Longrightarrow> undone P (case_prod f p)"
  by (cases p) simp

lemmas undone_rules = undone_commit undone_sbind undone_sthen undone_if undone_case_prod

text \<open>
  \<open>good P m s\<close>: \<open>m\<close> run from \<open>s\<close> returns (with a value or an error, never a panic) and leaves \<open>P\<close> true.
  \<open>safe P m\<close>: from a state with \<open>P\<close>, \<open>m\<close> returns (with a value or an error, never a panic) and leaves \<open>P\<close> true.
\<close>

definition good :: "('s \<Rightarrow> bool) \<Rightarrow> ('s, 'e, 'a) sm \<Rightarrow> 's \<Rightarrow> bool" where
  "good P m s \<longleftrightarrow> P (snd (m s)) \<and> fst (m s) \<noteq> Panic \<and> fst (m s) \<noteq> Hang"

definition safe :: "('s \<Rightarrow> bool) \<Rightarrow> ('s, 'e, 'a) sm \<Rightarrow> bool" where
  "safe P m \<longleftrightarrow> (\<forall>s. P s \<longrightarrow> P (snd (m s)) \<and> fst (m s) \<noteq> Panic \<and> fst (m s) \<noteq> Hang)"

lemma safe_iff_good: "safe P m \<longleftrightarrow> (\<forall>s. P s \<longrightarrow> good P m s)"
  by (simp add: safe_def good_def)

lemma safeI: "(\<And>s. P s \<Longrightarrow> good P m s) \<Longrightarrow> safe P m"
  by (simp add: safe_iff_good)

lemma safeD: "safe P m \<Longrightarrow> P s \<Longrightarrow> good P m s"
  by (simp add: safe_iff_good)

lemma good_sbind: "good P m s \<Longrightarrow> (\<And>x t. m s = (Ok x, t) \<Longrightarrow> P t \<Longrightarrow> good P (f x) t) \<Longrightarrow> good P (sbind m f) s"
  by (cases "m s"; cases "fst (m s)") (auto simp: good_def sbind_def)

lemma good_sthen: "good P m s \<Longrightarrow> (\<And>x t. m s = (Ok x, t) \<Longrightarrow> P t \<Longrightarrow> good P k t) \<Longrightarrow> good P (sthen m k) s"
  unfolding sthen_def by (rule good_sbind)

lemma good_ret: "P s \<Longrightarrow> good P (ret x) s"
  by (simp add: good_def ret_def)

lemma good_throw: "P s \<Longrightarrow> good P (throw e) s"
  by (simp add: good_def throw_def)

lemma good_if: "(c \<Longrightarrow> good P a s) \<Longrightarrow> (\<not> c \<Longrightarrow> good P b s) \<Longrightarrow> good P (if c then a else b) s"
  by simp

lemma safe_keeps: "safe P m \<Longrightarrow> keeps P m"
  by (simp add: safe_def keeps_def)

lemma safe_ret [intro]: "safe P (ret x)"
  by (simp add: safe_def ret_def)

lemma safe_throw [intro]: "safe P (throw e)"
  by (simp add: safe_def throw_def)

lemma safe_gets [intro]: "safe P (gets f)"
  by (simp add: safe_def gets_def)

lemma safe_modify: "(\<And>s. P s \<Longrightarrow> P (f s)) \<Longrightarrow> safe P (modify f)"
  by (simp add: safe_def modify_def)

lemma safe_sbind [intro]: "safe P m \<Longrightarrow> (\<And>x. safe P (f x)) \<Longrightarrow> safe P (sbind m f)"
  unfolding safe_def sbind_def
  by (intro allI impI, drule_tac x = s in spec) (auto split: prod.splits result.splits)

lemma safe_sthen [intro]: "safe P m \<Longrightarrow> safe P k \<Longrightarrow> safe P (sthen m k)"
  by (simp add: sthen_def safe_sbind)

lemma safe_bind_gets: "(\<And>s. P s \<Longrightarrow> safe P (f (g s))) \<Longrightarrow> safe P (sbind (gets g) f)"
  by (simp add: safe_def sbind_def gets_def)

lemma safe_bind_lift: "r = Ok x \<Longrightarrow> safe P (f x) \<Longrightarrow> safe P (sbind (lift r) f)"
  by (simp add: safe_def sbind_def lift_def)

lemma safe_if [intro]: "(c \<Longrightarrow> safe P a) \<Longrightarrow> (\<not> c \<Longrightarrow> safe P b) \<Longrightarrow> safe P (if c then a else b)"
  by simp

lemma safe_case_option [intro]:
  "(x = None \<Longrightarrow> safe P a) \<Longrightarrow> (\<And>y. x = Some y \<Longrightarrow> safe P (f y)) \<Longrightarrow> safe P (case_option a f x)"
  by (cases x) simp_all

section \<open>Fixed-size arrays and linear memory\<close>

type_synonym 'a arr = "nat \<Rightarrow> 'a"

text \<open>\<open>m[a..a+k].copy_from_slice(bs)\<close> once the range is known to be inside, and reading back.\<close>

definition mem_write :: "'a arr \<Rightarrow> nat \<Rightarrow> 'a list \<Rightarrow> 'a arr" where
  "mem_write m a bs = (\<lambda>k. if a \<le> k \<and> k < a + length bs then bs ! (k - a) else m k)"

definition mem_read :: "'a arr \<Rightarrow> nat \<Rightarrow> nat \<Rightarrow> 'a list" where
  "mem_read m a n = map m [a..<a + n]"

definition mem_fill :: "'a arr \<Rightarrow> nat \<Rightarrow> nat \<Rightarrow> 'a \<Rightarrow> 'a arr" where
  "mem_fill m a n v = (\<lambda>k. if a \<le> k \<and> k < a + n then v else m k)"

lemma length_mem_read [simp]: "length (mem_read m a n) = n"
  by (simp add: mem_read_def)

lemma nth_mem_read [simp]: "i < n \<Longrightarrow> mem_read m a n ! i = m (a + i)"
  by (simp add: mem_read_def)

lemma mem_read_write_same [simp]: "length bs = n \<Longrightarrow> mem_read (mem_write m a bs) a n = bs"
  by (rule nth_equalityI) (auto simp: mem_write_def)

lemma mem_write_outside: "k < a \<or> a + length bs \<le> k \<Longrightarrow> mem_write m a bs k = m k"
  by (auto simp: mem_write_def)

lemma mem_read_write_disjoint:
  assumes "a + n \<le> b \<or> b + length bs \<le> a"
  shows "mem_read (mem_write m b bs) a n = mem_read m a n"
  using assms by (auto simp: mem_read_def mem_write_def)

lemma mem_fill_outside: "k < a \<or> a + n \<le> k \<Longrightarrow> mem_fill m a n v k = m k"
  by (auto simp: mem_fill_def)

end
