(* ===== verification/Leb128.thy ===== *)
theory Leb128
  imports Prelude
begin

text \<open>
  LEB-128 integers: the three decoders (\<open>read_u32_leb128\<close> of \<open>loader.rs\<close>,
  \<open>read_i32_leb128\<close> and \<open>read_i64_leb128\<close> of \<open>interp.rs\<close>), the skipper
  \<open>skip_leb128\<close>, the memory immediate \<open>read_memarg\<close>, and the two encoders of the
  assembler (\<open>write_leb128_u32\<close> and \<open>write_leb128_i32\<close> of \<open>asm.rs\<close>). The lemmas give the
  bounds of every decoder and the round trips encoder/decoder.
\<close>

section \<open>Decoders\<close>

text \<open>The \<open>for (i, &byte) in bytes.iter().enumerate()\<close> loop with its accumulators.\<close>

fun read_u32_loop :: "bytes \<Rightarrow> u32 \<Rightarrow> nat \<Rightarrow> nat \<Rightarrow> (u32 \<times> nat) option" where
  "read_u32_loop [] result shift i = None"
| "read_u32_loop (byte # rest) result shift i =
     (if 35 \<le> shift then None
      else
        let result = result OR push_bit shift (ucast (byte AND 0x7F)) in
        if byte AND 0x80 = 0 then Some (result, i + 1)
        else read_u32_loop rest result (shift + 7) (i + 1))"

definition read_u32_leb128 :: "bytes \<Rightarrow> (u32 \<times> nat) option" where
  "read_u32_leb128 bs = read_u32_loop bs 0 0 0"

fun read_i64_loop :: "bytes \<Rightarrow> i64 \<Rightarrow> nat \<Rightarrow> nat \<Rightarrow> (i64 \<times> nat) option" where
  "read_i64_loop [] result shift i = None"
| "read_i64_loop (byte # rest) result shift i =
     (if 70 \<le> shift then None
      else
        let result = result OR push_bit shift (ucast (byte AND 0x7F)); shift = shift + 7 in
        if byte AND 0x80 = 0 then
          Some (if shift < 64 \<and> byte AND 0x40 \<noteq> 0 then result OR push_bit shift (NOT 0) else result, i + 1)
        else read_i64_loop rest result shift (i + 1))"

definition read_i64_leb128 :: "bytes \<Rightarrow> (i64 \<times> nat) option" where
  "read_i64_leb128 bs = read_i64_loop bs 0 0 0"

fun read_i32_loop :: "bytes \<Rightarrow> i32 \<Rightarrow> nat \<Rightarrow> nat \<Rightarrow> (i32 \<times> nat) option" where
  "read_i32_loop [] result shift i = None"
| "read_i32_loop (byte # rest) result shift i =
     (if 35 \<le> shift then None
      else
        let result = result OR push_bit shift (ucast (byte AND 0x7F)); shift = shift + 7 in
        if byte AND 0x80 = 0 then
          Some (if shift < 32 \<and> byte AND 0x40 \<noteq> 0 then result OR push_bit shift (NOT 0) else result, i + 1)
        else read_i32_loop rest result shift (i + 1))"

definition read_i32_leb128 :: "bytes \<Rightarrow> (i32 \<times> nat) option" where
  "read_i32_leb128 bs = read_i32_loop bs 0 0 0"

text \<open>\<open>skip_leb128(bytes, start)\<close>: the number of bytes up to the first one without bit 7.\<close>

fun skip_loop :: "bytes \<Rightarrow> nat \<Rightarrow> nat option" where
  "skip_loop [] n = None"
| "skip_loop (b # rest) n = (if b AND 0x80 = 0 then Some (n + 1) else skip_loop rest (n + 1))"

definition skip_leb128 :: "bytes \<Rightarrow> nat \<Rightarrow> nat option" where
  "skip_leb128 bs start = skip_loop (drop start bs) 0"

definition read_memarg :: "bytes \<Rightarrow> (u32 \<times> nat) option" where
  "read_memarg bs =
     (case read_u32_leb128 bs of
        None \<Rightarrow> None
      | Some (_, n1) \<Rightarrow>
          (case read_u32_leb128 (drop n1 bs) of
             None \<Rightarrow> None
           | Some (offset, n2) \<Rightarrow> Some (offset, n1 + n2)))"

text \<open>
  The idiom \<open>read_u32_leb128(&bytes[cur..])\<close> followed by \<open>?\<close> or \<open>ok_or(e)?\<close>: a panic
  when the cursor is past the end, the error when the encoding is not accepted.
\<close>

definition read_u32_at :: "bytes \<Rightarrow> nat \<Rightarrow> 'e \<Rightarrow> ('e, u32 \<times> nat) result" where
  "read_u32_at bs cur e = rbind (slice_from bs cur) (\<lambda>r. ok_or (read_u32_leb128 r) e)"

definition read_i32_at :: "bytes \<Rightarrow> nat \<Rightarrow> 'e \<Rightarrow> ('e, i32 \<times> nat) result" where
  "read_i32_at bs cur e = rbind (slice_from bs cur) (\<lambda>r. ok_or (read_i32_leb128 r) e)"

definition read_i64_at :: "bytes \<Rightarrow> nat \<Rightarrow> 'e \<Rightarrow> ('e, i64 \<times> nat) result" where
  "read_i64_at bs cur e = rbind (slice_from bs cur) (\<lambda>r. ok_or (read_i64_leb128 r) e)"

section \<open>Encoders\<close>

function write_leb128_u32 :: "u32 \<Rightarrow> bytes" where
  "write_leb128_u32 val =
     (let byte = ucast (val AND 0x7F); val = drop_bit 7 val in
      if val = 0 then [byte] else (byte OR 0x80) # write_leb128_u32 val)"
  by pat_completeness auto

lemma unat_drop_bit: "unat (drop_bit n (v :: 'a::len word)) = unat v div 2 ^ n"
proof -
  have "unat (drop_bit n v) = drop_bit n (unat v)"
    by (simp add: unsigned_drop_bit_eq take_bit_nat_eq_self [OF unsigned_less])
  then show ?thesis by (simp only: drop_bit_eq_div)
qed

lemma unat_drop_bit_less:
  fixes v :: "'a::len word"
  assumes "drop_bit n v \<noteq> 0" and "0 < n"
  shows "unat (drop_bit n v) < unat v"
proof -
  from assms(1) have "0 < unat v"
    by (metis drop_bit_of_0 neq0_conv unat_eq_zero)
  moreover have "(1::nat) < 2 ^ n" using assms(2) by (rule one_less_power [rotated]) simp
  ultimately show ?thesis by (simp add: unat_drop_bit)
qed

termination write_leb128_u32
  by (relation "measure unat") (simp_all add: unat_drop_bit_less)

declare write_leb128_u32.simps [simp del]

text \<open>
  The signed encoder shifts by six, tests whether the rest is a sign extension, and shifts once
  more. \<open>i32\<close> shifts are arithmetic.
\<close>

function write_leb128_i32 :: "i32 \<Rightarrow> bytes" where
  "write_leb128_i32 val =
     (let byte = ucast (val AND 0x7F); val = signed_drop_bit 6 val;
          more = (val \<noteq> 0 \<and> val \<noteq> - 1) in
      if \<not> more then [byte AND 0x7F] else (byte OR 0x80) # write_leb128_i32 (signed_drop_bit 1 val))"
  by pat_completeness auto

lemma abs_sint_signed_drop_bit_less:
  fixes v :: "'a::len word"
  assumes "signed_drop_bit 6 v \<noteq> 0" and "signed_drop_bit 6 v \<noteq> - 1"
  shows "nat \<bar>sint (signed_drop_bit 7 v)\<bar> < nat \<bar>sint v\<bar>"
proof -
  have a: "sint (signed_drop_bit 7 v) = sint v div 128"
    and b: "sint (signed_drop_bit 6 v) = sint v div 64"
    by (simp_all add: sint_signed_drop_bit_eq drop_bit_eq_div)
  have "sint (signed_drop_bit 6 v) \<noteq> 0" "sint (signed_drop_bit 6 v) \<noteq> - 1"
    using assms by (metis signed_eq_0_iff) (metis assms(2) signed_minus_1 signed_word_eqI)
  with a b show ?thesis by auto
qed

termination write_leb128_i32
  by (relation "measure (\<lambda>v. nat \<bar>sint v\<bar>)") (auto dest: abs_sint_signed_drop_bit_less)

declare write_leb128_i32.simps [simp del]

section \<open>Bits of one group\<close>

lemma leb_mask7: "(0x7F :: 'a::len word) = mask 7"
  by (simp add: mask_eq_exp_minus_1)

lemma leb_bit7: "(0x80 :: 'a::len word) = push_bit 7 1"
  by simp

lemmas leb_bits = leb_mask7 leb_bit7 bit_simps

lemma leb_last_byte [simp]: "(ucast ((v :: 'a::len word) AND 0x7F) :: u8) AND 0x80 = 0"
  by (rule bit_eqI) (auto simp: leb_bits simp del: push_bit_of_1)

lemma leb_more_byte [simp]: "((b :: u8) OR 0x80) AND 0x80 \<noteq> 0"
proof -
  have "(b OR 0x80) AND 0x80 = 0x80"
    by (rule bit_eqI) (auto simp: leb_bits simp del: push_bit_of_1)
  then show ?thesis by simp
qed

lemma leb_payload_last [simp]:
  "7 < LENGTH('a) \<Longrightarrow> ucast ((ucast ((v :: 'a::len word) AND 0x7F) :: u8) AND 0x7F) = v AND 0x7F"
  by (rule bit_eqI) (auto simp: leb_bits simp del: push_bit_of_1)

lemma leb_payload_more [simp]:
  "7 < LENGTH('a) \<Longrightarrow> ucast (((ucast ((v :: 'a::len word) AND 0x7F) :: u8) OR 0x80) AND 0x7F) = v AND 0x7F"
  by (rule bit_eqI) (auto simp: leb_bits simp del: push_bit_of_1)

lemma leb_group_join:
  "push_bit sh ((v :: 'a::len word) AND 0x7F) OR push_bit (sh + 7) (drop_bit 7 v) = push_bit sh v"
proof (rule bit_word_eqI)
  fix n assume "n < LENGTH('a)"
  show "bit (push_bit sh (v AND 0x7F) OR push_bit (sh + 7) (drop_bit 7 v)) n = bit (push_bit sh v) n"
  proof (cases "n < sh + 7")
    case True
    then show ?thesis by (auto simp: leb_mask7 bit_simps)
  next
    case False
    then have "7 + (n - (sh + 7)) = n - sh" by simp
    with False show ?thesis by (auto simp: leb_mask7 bit_simps)
  qed
qed

section \<open>Bounds of the decoders\<close>

lemma read_u32_loop_bounds:
  "read_u32_loop bs r sh i = Some (v, n) \<Longrightarrow> i < n \<and> n \<le> i + length bs \<and> sh + 7 * (n - i - 1) < 35"
  by (induction bs r sh i rule: read_u32_loop.induct) (fastforce simp: Let_def split: if_splits)+

lemma read_u32_bounds: "read_u32_leb128 bs = Some (v, n) \<Longrightarrow> 0 < n \<and> n \<le> length bs \<and> n \<le> 5"
  using read_u32_loop_bounds [of bs 0 0 0 v n] by (auto simp: read_u32_leb128_def)

lemma read_i32_loop_bounds:
  "read_i32_loop bs r sh i = Some (v, n) \<Longrightarrow> i < n \<and> n \<le> i + length bs \<and> sh + 7 * (n - i - 1) < 35"
  by (induction bs r sh i rule: read_i32_loop.induct) (fastforce simp: Let_def split: if_splits)+

lemma read_i32_bounds: "read_i32_leb128 bs = Some (v, n) \<Longrightarrow> 0 < n \<and> n \<le> length bs \<and> n \<le> 5"
  using read_i32_loop_bounds [of bs 0 0 0 v n] by (auto simp: read_i32_leb128_def)

lemma read_i64_loop_bounds:
  "read_i64_loop bs r sh i = Some (v, n) \<Longrightarrow> i < n \<and> n \<le> i + length bs \<and> sh + 7 * (n - i - 1) < 70"
  by (induction bs r sh i rule: read_i64_loop.induct) (fastforce simp: Let_def split: if_splits)+

lemma read_i64_bounds: "read_i64_leb128 bs = Some (v, n) \<Longrightarrow> 0 < n \<and> n \<le> length bs \<and> n \<le> 10"
  using read_i64_loop_bounds [of bs 0 0 0 v n] by (auto simp: read_i64_leb128_def)

lemma skip_loop_bounds: "skip_loop bs k = Some n \<Longrightarrow> k < n \<and> n \<le> k + length bs"
  by (induction bs k rule: skip_loop.induct) (auto split: if_splits)

lemma skip_leb128_bounds: "skip_leb128 bs i = Some n \<Longrightarrow> 0 < n \<and> i + n \<le> length bs"
  using skip_loop_bounds [of "drop i bs" 0 n] by (auto simp: skip_leb128_def)

lemma read_memarg_bounds: "read_memarg bs = Some (v, n) \<Longrightarrow> 1 < n \<and> n \<le> length bs"
  by (auto simp: read_memarg_def split: option.splits prod.splits dest!: read_u32_bounds)

text \<open>What the reading decoders consume is what the skipper skips.\<close>

lemma read_u32_loop_skip: "read_u32_loop bs r sh i = Some (v, n) \<Longrightarrow> skip_loop bs i = Some n"
  by (induction bs r sh i rule: read_u32_loop.induct) (fastforce simp: Let_def split: if_splits)+

lemma read_i32_loop_skip: "read_i32_loop bs r sh i = Some (v, n) \<Longrightarrow> skip_loop bs i = Some n"
  by (induction bs r sh i rule: read_i32_loop.induct) (fastforce simp: Let_def split: if_splits)+

lemma read_i64_loop_skip: "read_i64_loop bs r sh i = Some (v, n) \<Longrightarrow> skip_loop bs i = Some n"
  by (induction bs r sh i rule: read_i64_loop.induct) (fastforce simp: Let_def split: if_splits)+

section \<open>Round trips\<close>

lemma read_write_u32_loop:
  assumes "unat v < 2 ^ (35 - sh)" and "sh < 35"
  shows "read_u32_loop (write_leb128_u32 v @ rest) r sh i
           = Some (r OR push_bit sh v, i + length (write_leb128_u32 v))"
  using assms
proof (induction v arbitrary: sh r i rule: write_leb128_u32.induct)
  case (1 v)
  show ?case
  proof (cases "drop_bit 7 v = 0")
    case True
    then have "push_bit sh (v AND 0x7F) = push_bit sh v"
      using leb_group_join [of sh v] by simp
    with True 1 show ?thesis
      by (simp add: write_leb128_u32.simps [of v] Let_def del: push_bit_and)
  next
    case False
    have dv: "unat (drop_bit 7 v) = unat v div 128"
      by (simp add: unat_drop_bit)
    have sh: "sh \<le> 28"
    proof (rule ccontr)
      assume "\<not> sh \<le> 28"
      then have "(2::nat) ^ (35 - sh) \<le> 2 ^ 7" by (intro power_increasing) auto
      with 1 dv False show False by (simp add: unat_eq_zero)
    qed
    then have "35 - sh = (35 - (sh + 7)) + 7" by simp
    then have "(2::nat) ^ (35 - sh) = 2 ^ (35 - (sh + 7)) * 2 ^ 7"
      by (simp only: power_add)
    with 1(2) dv have "unat (drop_bit 7 v) < 2 ^ (35 - (sh + 7))"
      by (simp add: less_mult_imp_div_less)
    moreover have "sh + 7 < 35"
      using calculation False sh by (cases "sh = 28") (auto simp: unat_eq_zero)
    ultimately show ?thesis
      using False 1(1) [of _ _ "sh + 7" "r OR push_bit sh (v AND 0x7F)" "i + 1"]
      using \<open>sh \<le> 28\<close>
      by (simp add: write_leb128_u32.simps [of v] or.assoc leb_group_join Let_def del: push_bit_and)
  qed
qed

lemma read_write_u32 [simp]:
  "read_u32_leb128 (write_leb128_u32 v @ rest) = Some (v, length (write_leb128_u32 v))"
proof -
  have "unat v < 2 ^ 35" by (rule less_trans [OF unsigned_less]) simp
  then show ?thesis by (simp add: read_u32_leb128_def read_write_u32_loop)
qed

lemma leb_bit6: "(0x40 :: 'a::len word) = push_bit 6 1"
  by simp

lemma leb_sign_bit: "((ucast ((v :: i32) AND 0x7F) :: u8) AND 0x7F) AND 0x40 \<noteq> 0 \<longleftrightarrow> bit v 6"
proof -
  have "((ucast (v AND 0x7F) :: u8) AND 0x7F) AND 0x40 = (if bit v 6 then 0x40 else 0)"
  proof (rule bit_word_eqI)
    fix n assume "n < LENGTH(8)"
    then show "bit (((ucast (v AND 0x7F) :: u8) AND 0x7F) AND 0x40) n = bit (if bit v 6 then 0x40 else (0 :: u8)) n"
      by (cases "n = 6") (auto simp: leb_bits leb_bit6 simp del: push_bit_of_1)
  qed
  then show ?thesis by simp
qed

lemma signed_small_bits:
  fixes v :: "'a::len word"
  assumes "signed_drop_bit 6 v = 0 \<or> signed_drop_bit 6 v = - 1" and "6 \<le> n" and "n < LENGTH('a)"
  shows "bit v n = bit v 6"
proof -
  have "\<not> LENGTH('a) - 6 \<le> n - 6" "\<not> LENGTH('a) - 6 \<le> 0"
    using assms(2,3) by arith+
  then have "bit (signed_drop_bit 6 v) (n - 6) = bit v n" "bit (signed_drop_bit 6 v) 0 = bit v 6"
    using assms(2) by (simp_all add: bit_signed_drop_bit_iff)
  then show ?thesis using assms by (elim disjE) auto
qed

lemma leb_signed_last:
  fixes v :: i32
  assumes "signed_drop_bit 6 v = 0 \<or> signed_drop_bit 6 v = - 1"
  shows "push_bit sh (v AND 0x7F) OR (if bit v 6 then push_bit (sh + 7) (NOT 0) else 0) = push_bit sh v"
proof (rule bit_word_eqI)
  fix n assume n: "n < LENGTH(32)"
  have "bit v (n - sh) = bit v 6" if "sh + 6 \<le> n"
    using signed_small_bits [OF assms, of "n - sh"] that n by simp
  then show "bit (push_bit sh (v AND 0x7F) OR (if bit v 6 then push_bit (sh + 7) (NOT 0) else 0)) n
      = bit (push_bit sh v) n"
    using n by (cases "sh + 7 \<le> n") (auto simp: leb_mask7 bit_simps)
qed

lemma leb_signed_join:
  "push_bit sh ((v :: i32) AND 0x7F) OR push_bit (sh + 7) (signed_drop_bit 7 v) = push_bit sh v"
proof (rule bit_word_eqI)
  fix n assume "n < LENGTH(32)"
  moreover have "7 + (n - (sh + 7)) = n - sh" if "sh + 7 \<le> n" using that by simp
  ultimately show "bit (push_bit sh (v AND 0x7F) OR push_bit (sh + 7) (signed_drop_bit 7 v)) n
      = bit (push_bit sh v) n"
    by (cases "sh + 7 \<le> n") (auto simp: leb_mask7 bit_simps min_def)
qed

lemma read_i32_loop_last:
  "sh < 35 \<Longrightarrow> b AND 0x80 = 0 \<Longrightarrow> read_i32_loop (b # rest) r sh i =
     Some (if sh + 7 < 32 \<and> b AND 0x40 \<noteq> 0
           then (r OR push_bit sh (ucast (b AND 0x7F))) OR push_bit (sh + 7) (NOT 0)
           else r OR push_bit sh (ucast (b AND 0x7F)), i + 1)"
  by (simp add: Let_def)

lemma leb_last_signed:
  fixes v :: i32
  shows "((ucast (v AND 0x7F) :: u8) AND 0x7F) AND 0x80 = 0"
    and "ucast (((ucast (v AND 0x7F) :: u8) AND 0x7F) AND 0x7F) = v AND 0x7F"
  by (rule bit_word_eqI; auto simp: leb_bits simp del: push_bit_of_1)+

lemma read_write_i32_loop:
  assumes "- (2 ^ (34 - sh)) \<le> sint v" and "sint v < 2 ^ (34 - sh)" and "sh < 35"
  shows "read_i32_loop (write_leb128_i32 v @ rest) r sh i
           = Some (r OR push_bit sh v, i + length (write_leb128_i32 v))"
  using assms
proof (induction v arbitrary: sh r i rule: write_leb128_i32.induct)
  case (1 v)
  define d where "d = signed_drop_bit 6 v"
  have s6: "sint d = sint v div 64" and s7: "sint (signed_drop_bit 7 v) = sint v div 128"
    by (simp_all add: d_def sint_signed_drop_bit_eq drop_bit_eq_div)
  show ?case
  proof (cases "d = 0 \<or> d = - 1")
    case True
    note last = leb_signed_last [of v sh, folded d_def, OF True]
    have "push_bit (sh + 7) (NOT 0 :: i32) = 0" if "32 \<le> sh + 7"
      using that by (auto intro!: bit_word_eqI simp: bit_simps)
    then have "(if sh + 7 < 32 \<and> bit v 6 then (r OR push_bit sh (v AND 0x7F)) OR push_bit (sh + 7) (NOT 0)
         else r OR push_bit sh (v AND 0x7F)) = r OR push_bit sh v"
      using last by (auto simp: or.assoc simp del: push_bit_and split: if_splits)
    moreover have "write_leb128_i32 v = [(ucast (v AND 0x7F) :: u8) AND 0x7F]"
      using True by (simp add: write_leb128_i32.simps [of v] Let_def flip: d_def)
    ultimately show ?thesis
      using \<open>sh < 35\<close>
      by (simp only: append_Cons append_Nil read_i32_loop_last leb_last_signed leb_sign_bit list.size) simp
  next
    case False
    have nz: "sint d \<noteq> 0" "sint d \<noteq> - 1"
      using False by (metis signed_eq_0_iff) (metis False signed_minus_1 signed_word_eqI)
    have sh: "sh < 28"
    proof (rule ccontr)
      assume "\<not> sh < 28"
      then have "(2::int) ^ (34 - sh) \<le> 2 ^ 6" by (intro power_increasing) auto
      with 1(2,3) nz s6 show False by simp
    qed
    then have "34 - sh = (34 - (sh + 7)) + 7" by simp
    then have p: "(2::int) ^ (34 - sh) = 2 ^ (34 - (sh + 7)) * 2 ^ 7"
      by (simp only: power_add)
    have "- (2 ^ (34 - (sh + 7))) \<le> sint (signed_drop_bit 7 v)"
      "sint (signed_drop_bit 7 v) < 2 ^ (34 - (sh + 7))"
      using 1(2,3) s7 p by auto
    with False sh 1(1) [of _ d _ "sh + 7" "r OR push_bit sh (v AND 0x7F)" "i + 1"]
    show ?thesis
      by (simp add: write_leb128_i32.simps [of v] Let_def or.assoc leb_signed_join del: push_bit_and flip: d_def)
         (simp add: d_def or.assoc leb_signed_join del: push_bit_and)
  qed
qed

lemma read_write_i32 [simp]:
  "read_i32_leb128 (write_leb128_i32 v @ rest) = Some (v, length (write_leb128_i32 v))"
proof -
  have "- (2 ^ 34) \<le> sint v" "sint v < 2 ^ 34"
    using sint_greater_eq [of v] sint_less [of v] by simp_all
  then show ?thesis by (simp add: read_i32_leb128_def read_write_i32_loop)
qed


section \<open>Interfaces\<close>

text \<open>
  What a parser relies on in a decoder: it consumes at least one byte and never more than there
  are. From that, a cursor that starts inside a slice stays inside it.
\<close>

locale leb_reader =
  fixes read :: "bytes \<Rightarrow> ('v \<times> nat) option"
  assumes read_bounds: "read bs = Some (v, n) \<Longrightarrow> 0 < n \<and> n \<le> length bs"
begin

lemma at_Ok:
  assumes "rbind (slice_from bs cur) (\<lambda>r. ok_or (read r) e) = Ok (v, n)"
  shows "0 < n \<and> cur + n \<le> length bs"
proof -
  from assms have "cur \<le> length bs" and "read (drop cur bs) = Some (v, n)"
    by (auto simp: res_simps)
  with read_bounds show ?thesis by fastforce
qed

lemma at_Panic: "rbind (slice_from bs cur) (\<lambda>r. ok_or (read r) e) = Panic \<longleftrightarrow> length bs < cur"
  by (auto simp: slice_from_def)

lemma at_Err: "rbind (slice_from bs cur) (\<lambda>r. ok_or (read r) e) = Err e' \<Longrightarrow> e' = e"
  by (cases "read (drop cur bs)") (auto simp: slice_from_def split: if_splits)

lemma read_Nil: "read [] = None"
  using read_bounds [of "[]"] by (cases "read []") auto

end

text \<open>A decoder with its encoder; the encoding is prefix-free.\<close>

locale leb_codec = leb_reader +
  fixes enc :: "'v \<Rightarrow> bytes"
  assumes read_enc: "read (enc v @ rest) = Some (v, length (enc v))"
begin

lemma enc_not_Nil: "enc v \<noteq> []"
  using read_enc [of v "[]"] read_bounds [of "enc v"] by auto

lemma enc_prefix_free:
  assumes "enc v @ a = enc w @ b"
  shows "v = w \<and> a = b"
proof -
  have "read (enc v @ a) = read (enc w @ b)" using assms by simp
  then have "v = w" by (simp add: read_enc)
  with assms show ?thesis by simp
qed

lemma at_written:
  "rbind (slice_from (pre @ enc v @ post) (length pre)) (\<lambda>r. ok_or (read r) e) = Ok (v, length (enc v))"
  by (simp add: read_enc)

end

interpretation u32_leb: leb_codec read_u32_leb128 write_leb128_u32
  by unfold_locales (use read_u32_bounds in auto)

interpretation i32_leb: leb_codec read_i32_leb128 write_leb128_i32
  by unfold_locales (use read_i32_bounds in auto)

interpretation i64_leb: leb_reader read_i64_leb128
  by unfold_locales (use read_i64_bounds in auto)

interpretation memarg: leb_reader read_memarg
  by unfold_locales (use read_memarg_bounds in fastforce)

lemmas read_u32_at_Ok = u32_leb.at_Ok [folded read_u32_at_def]
  and read_u32_at_Panic [res_simps] = u32_leb.at_Panic [folded read_u32_at_def]
  and read_u32_at_written [simp] = u32_leb.at_written [folded read_u32_at_def]
  and read_i32_at_Ok = i32_leb.at_Ok [folded read_i32_at_def]
  and read_i32_at_Panic [res_simps] = i32_leb.at_Panic [folded read_i32_at_def]
  and read_i32_at_written [simp] = i32_leb.at_written [folded read_i32_at_def]
  and read_i64_at_Ok = i64_leb.at_Ok [folded read_i64_at_def]
  and read_i64_at_Panic [res_simps] = i64_leb.at_Panic [folded read_i64_at_def]

end
