(* ===== verification/Loader.thy ===== *)
theory Loader
  imports Leb128
begin

text \<open>
  The binary loader, \<open>kernel/src/wasm/loader.rs\<close>: header check and section table
  (\<open>load\<close>), export lookup (\<open>find_export\<close>), iteration over function imports
  (\<open>for_each_func_import\<close>) and the memory section (\<open>read_memory_min_pages\<close>).
\<close>

section \<open>Data\<close>

datatype load_error = TooShort | BadMagic | BadVersion | InvalidLeb128 | UnexpectedEof

primrec load_error_as_str :: "load_error \<Rightarrow> string" where
  "load_error_as_str TooShort = ''binary too short''"
| "load_error_as_str BadMagic = ''bad magic (not a WASM file)''"
| "load_error_as_str BadVersion = ''unsupported WASM version''"
| "load_error_as_str InvalidLeb128 = ''malformed LEB-128 integer''"
| "load_error_as_str UnexpectedEof = ''unexpected end of section data''"

record module =
  type_section :: "bytes option"
  import_section :: "bytes option"
  function_section :: "bytes option"
  table_section :: "bytes option"
  memory_section :: "bytes option"
  global_section :: "bytes option"
  export_section :: "bytes option"
  element_section :: "bytes option"
  code_section :: "bytes option"
  data_section :: "bytes option"

definition empty_module :: module where
  "empty_module = \<lparr>type_section = None, import_section = None, function_section = None,
     table_section = None, memory_section = None, global_section = None, export_section = None,
     element_section = None, code_section = None, data_section = None\<rparr>"

definition MAGIC :: bytes where "MAGIC = [0x00, 0x61, 0x73, 0x6D]"
definition VERSION :: bytes where "VERSION = [0x01, 0x00, 0x00, 0x00]"

section \<open>Loading\<close>

text \<open>The \<open>match section_id\<close> of \<open>load\<close>: later sections with the same id overwrite.\<close>

definition set_section :: "u8 \<Rightarrow> bytes \<Rightarrow> module \<Rightarrow> module" where
  "set_section section_id d m =
     (if section_id = 1 then m\<lparr>type_section := Some d\<rparr>
      else if section_id = 2 then m\<lparr>import_section := Some d\<rparr>
      else if section_id = 3 then m\<lparr>function_section := Some d\<rparr>
      else if section_id = 4 then m\<lparr>table_section := Some d\<rparr>
      else if section_id = 5 then m\<lparr>memory_section := Some d\<rparr>
      else if section_id = 6 then m\<lparr>global_section := Some d\<rparr>
      else if section_id = 7 then m\<lparr>export_section := Some d\<rparr>
      else if section_id = 9 then m\<lparr>element_section := Some d\<rparr>
      else if section_id = 10 then m\<lparr>code_section := Some d\<rparr>
      else if section_id = 11 then m\<lparr>data_section := Some d\<rparr>
      else m)"

function load_sections :: "bytes \<Rightarrow> nat \<Rightarrow> module \<Rightarrow> (load_error, module) result" where
  "load_sections bs cursor m =
     (if cursor < length bs then
        rbind (index bs cursor) (\<lambda>section_id.
        rbind (slice_from bs (cursor + 1)) (\<lambda>rest.
        case read_u32_leb128 rest of
          None \<Rightarrow> Err InvalidLeb128
        | Some (sz, consumed) \<Rightarrow>
            if cursor + 1 + consumed + unat sz > length bs then Err UnexpectedEof
            else rbind (slice bs (cursor + 1 + consumed) (cursor + 1 + consumed + unat sz)) (\<lambda>data.
              load_sections bs (cursor + 1 + consumed + unat sz) (set_section section_id data m))))
      else Ok m)"
  by pat_completeness auto
termination load_sections
  by (relation "measure (\<lambda>(bs, cursor, m). length bs - cursor)") auto

declare load_sections.simps [simp del]

definition load :: "bytes \<Rightarrow> (load_error, module) result" where
  "load bs =
     (if length bs < 8 then Err TooShort
      else if take 4 bs \<noteq> MAGIC then Err BadMagic
      else if take 4 (drop 4 bs) \<noteq> VERSION then Err BadVersion
      else load_sections bs 8 empty_module)"

section \<open>Exports\<close>

text \<open>
  \<open>find_export\<close>; the outcome \<open>Err ()\<close> is \<open>None\<close>. The loop runs over the declared number of
  exports from the cursor \<open>cur\<close>.
\<close>

fun find_export_loop :: "bytes \<Rightarrow> bytes \<Rightarrow> nat \<Rightarrow> nat \<Rightarrow> (unit, u32) result" where
  "find_export_loop bs name 0 cur = Err ()"
| "find_export_loop bs name (Suc k) cur =
     rbind (read_u32_at bs cur ()) (\<lambda>(name_len, n).
     let cur = cur + n; name_end = cur + unat name_len in
     if name_end > length bs then Err ()
     else rbind (slice bs cur name_end) (\<lambda>nm.
     rbind (ok_or (from_utf8 nm) ()) (\<lambda>export_name.
     if name_end \<ge> length bs then Err ()
     else rbind (index bs name_end) (\<lambda>kind.
     rbind (read_u32_at bs (name_end + 1) ()) (\<lambda>(idx, n2).
     if kind = 0 \<and> export_name = name then Ok idx
     else find_export_loop bs name k (name_end + 1 + n2))))))"

definition find_export :: "module \<Rightarrow> bytes \<Rightarrow> (unit, u32) result" where
  "find_export m name =
     (case export_section m of
        None \<Rightarrow> Err ()
      | Some bs \<Rightarrow>
          rbind (read_u32_at bs 0 ()) (\<lambda>(count, n). find_export_loop bs name (unat count) n))"

section \<open>Function imports\<close>

text \<open>
  The limits of a table or memory import: a flag, a minimum, and a maximum when the flag is set.
\<close>

definition skip_limits :: "bytes \<Rightarrow> nat \<Rightarrow> (unit, nat) result" where
  "skip_limits sec cur =
     rbind (ok_or (get_at sec cur) ()) (\<lambda>flag.
     rbind (read_u32_at sec (cur + 1) ()) (\<lambda>(_, n).
     let cur = cur + 1 + n in
     if flag \<noteq> 0 then rbind (read_u32_at sec cur ()) (\<lambda>(_, n). Ok (cur + n))
     else Ok cur))"

text \<open>A length-prefixed name read with \<open>get\<close>: the name and the cursor behind it.\<close>

definition read_name :: "bytes \<Rightarrow> nat \<Rightarrow> (unit, bytes \<times> nat) result" where
  "read_name sec cur =
     rbind (read_u32_at sec cur ()) (\<lambda>(l, n).
     let cur = cur + n in
     rbind (ok_or (get_range sec cur (cur + unat l)) ()) (\<lambda>nm.
     rbind (ok_or (from_utf8 nm) ()) (\<lambda>s. Ok (s, cur + unat l))))"

text \<open>
  \<open>for_each_func_import\<close> calls its closure once per function import; the closure's state is
  threaded as \<open>acc\<close>. A parse error ends the iteration early and is not reported, a panic is.
\<close>

fun import_loop :: "bytes \<Rightarrow> (bytes \<Rightarrow> bytes \<Rightarrow> 'c \<Rightarrow> 'c) \<Rightarrow> nat \<Rightarrow> nat \<Rightarrow> 'c \<Rightarrow> (unit, unit) result \<times> 'c" where
  "import_loop sec f 0 cur acc = (Ok (), acc)"
| "import_loop sec f (Suc k) cur acc =
     (case rbind (read_name sec cur) (\<lambda>(mod_name, cur).
           rbind (read_name sec cur) (\<lambda>(func_name, cur).
           rbind (ok_or (get_at sec cur) ()) (\<lambda>kind.
           let cur = cur + 1 in
           if kind = 0 then
             rbind (read_u32_at sec cur ()) (\<lambda>(_, n). Ok (cur + n, Some (mod_name, func_name)))
           else if kind = 1 then rbind (skip_limits sec (cur + 1)) (\<lambda>cur. Ok (cur, None))
           else if kind = 2 then rbind (skip_limits sec cur) (\<lambda>cur. Ok (cur, None))
           else if kind = 3 then Ok (cur + 2, None)
           else Err ()))) of
        Ok (cur, imp) \<Rightarrow>
          import_loop sec f k cur (case imp of None \<Rightarrow> acc | Some (m, n) \<Rightarrow> f m n acc)
      | Err e \<Rightarrow> (Err e, acc)
      | Panic \<Rightarrow> (Panic, acc)
      | Hang \<Rightarrow> (Hang, acc))"

definition for_each_func_import ::
  "bytes \<Rightarrow> (bytes \<Rightarrow> bytes \<Rightarrow> 'c \<Rightarrow> 'c) \<Rightarrow> 'c \<Rightarrow> ('e, 'c) result" where
  "for_each_func_import sec f acc =
     (case read_u32_leb128 sec of
        None \<Rightarrow> Ok acc
      | Some (count, n) \<Rightarrow>
          (case import_loop sec f (unat count) n acc of
             (Panic, _) \<Rightarrow> Panic
           | (Hang, _) \<Rightarrow> Hang
           | (_, acc) \<Rightarrow> Ok acc))"

section \<open>Memory section\<close>

definition read_memory_min_pages :: "bytes \<Rightarrow> ('e, u32) result" where
  "read_memory_min_pages sec =
     (case read_u32_leb128 sec of
        None \<Rightarrow> Ok 0
      | Some (count, n) \<Rightarrow>
          if count = 0 then Ok 0
          else if n \<ge> length sec then Ok 0
          else rbind (slice_from sec (n + 1)) (\<lambda>r.
            case read_u32_leb128 r of None \<Rightarrow> Ok 0 | Some (minp, _) \<Rightarrow> Ok minp))"

section \<open>No input makes the loader panic\<close>

lemma load_sections_no_panic: "load_sections bs cursor m \<noteq> Panic"
proof (induction bs cursor m rule: load_sections.induct)
  case (1 bs cursor m)
  show ?case
  proof (cases "cursor < length bs")
    case False
    then show ?thesis by (simp add: load_sections.simps [of bs cursor])
  next
    case True
    then show ?thesis
      using 1 by (auto simp: load_sections.simps [of bs cursor] slice_def split: option.split)
  qed
qed

lemma load_no_panic: "load bs \<noteq> Panic"
  by (simp add: load_def load_sections_no_panic)

lemma find_export_loop_no_panic: "cur \<le> length bs \<Longrightarrow> find_export_loop bs name k cur \<noteq> Panic"
proof (induction k arbitrary: cur)
  case 0
  then show ?case by simp
next
  case (Suc k)
  then show ?case
    by (auto simp: res_simps slice_def index_def Let_def split: if_splits dest!: read_u32_at_Ok)
qed

lemma find_export_no_panic: "find_export m name \<noteq> Panic"
  by (auto simp: find_export_def res_simps find_export_loop_no_panic split: option.split dest!: read_u32_at_Ok)

lemma read_memory_min_pages_no_panic: "read_memory_min_pages sec \<noteq> Panic"
  by (auto simp: read_memory_min_pages_def split: option.split)

section \<open>Reading back a sequence of sections\<close>

definition section_bytes :: "u8 \<times> bytes \<Rightarrow> bytes" where
  "section_bytes = (\<lambda>(i, d). i # write_leb128_u32 (word_of_nat (length d)) @ d)"

lemma load_sections_at:
  assumes "length d < 2 ^ 32"
  shows "load_sections (pre @ section_bytes (i, d) @ post) (length pre) m
       = load_sections (pre @ section_bytes (i, d) @ post)
           (length pre + length (section_bytes (i, d))) (set_section i d m)"
proof -
  let ?w = "write_leb128_u32 (word_of_nat (length d))"
  have ud: "unat (word_of_nat (length d) :: u32) = length d"
    using assms by (simp add: unat_of_nat take_bit_nat_eq_self)
  show ?thesis
    by (subst load_sections.simps)
       (simp add: section_bytes_def nth_append slice_from_def slice_def ud algebra_simps)
qed

lemma load_sections_concat:
  assumes "\<forall>(i, d) \<in> set secs. length d < 2 ^ 32"
  shows "load_sections (pre @ concat (map section_bytes secs)) (length pre) m
       = Ok (fold (\<lambda>(i, d). set_section i d) secs m)"
  using assms
proof (induction secs arbitrary: pre m)
  case Nil
  then show ?case by (simp add: load_sections.simps)
next
  case (Cons sd secs)
  obtain i d where sd: "sd = (i, d)" by force
  have "load_sections (pre @ concat (map section_bytes (sd # secs))) (length pre) m
      = load_sections ((pre @ section_bytes sd) @ concat (map section_bytes secs))
          (length (pre @ section_bytes sd)) (set_section i d m)"
    using load_sections_at [of d pre i "concat (map section_bytes secs)" m] Cons.prems
    by (simp add: sd)
  also have "\<dots> = Ok (fold (\<lambda>(i, d). set_section i d) secs (set_section i d m))"
    using Cons.prems by (intro Cons.IH) simp
  finally show ?case by (simp add: sd)
qed

lemma load_concat:
  assumes "\<forall>(i, d) \<in> set secs. length d < 2 ^ 32"
  shows "load (MAGIC @ VERSION @ concat (map section_bytes secs))
       = Ok (fold (\<lambda>(i, d). set_section i d) secs empty_module)"
proof -
  let ?bs = "MAGIC @ VERSION @ concat (map section_bytes secs)"
  have "length (MAGIC @ VERSION) = 8" by (simp add: MAGIC_def VERSION_def)
  then have "load_sections ?bs 8 empty_module = Ok (fold (\<lambda>(i, d). set_section i d) secs empty_module)"
    using load_sections_concat [OF assms, of "MAGIC @ VERSION" empty_module] by simp
  then show ?thesis by (simp add: load_def MAGIC_def VERSION_def)
qed

section \<open>Every section is a slice of the file\<close>

definition slice_of :: "bytes \<Rightarrow> bytes \<Rightarrow> bool" where
  "slice_of bs d \<longleftrightarrow> (\<exists>pre post. bs = pre @ d @ post)"

definition module_sections :: "module \<Rightarrow> bytes option list" where
  "module_sections m = [type_section m, import_section m, function_section m, table_section m,
     memory_section m, global_section m, export_section m, element_section m, code_section m,
     data_section m]"

lemma take_drop_slice_of: "slice_of bs (take n (drop k bs))"
  unfolding slice_of_def by (metis append_take_drop_id)

lemma set_section_slices:
  assumes "\<And>s. Some s \<in> set (module_sections m) \<Longrightarrow> slice_of bs s" and "slice_of bs d"
    and "Some s \<in> set (module_sections (set_section i d m))"
  shows "slice_of bs s"
proof -
  have "Some s \<in> set (module_sections m) \<or> s = d"
    using assms(3) by (auto simp: module_sections_def set_section_def split: if_splits)
  with assms(1,2) show ?thesis by auto
qed

lemma load_sections_slices:
  assumes "load_sections bs cursor m = Ok m'"
    and "\<And>s. Some s \<in> set (module_sections m) \<Longrightarrow> slice_of bs s"
    and "Some s \<in> set (module_sections m')"
  shows "slice_of bs s"
  using assms
proof (induction bs cursor m rule: load_sections.induct)
  case (1 bs cursor m)
  show ?case
  proof (cases "cursor < length bs")
    case False
    with 1 show ?thesis by (simp add: load_sections.simps [of bs cursor])
  next
    case True
    with "1.prems"(1) obtain sz n d where
      r: "read_u32_leb128 (drop (Suc cursor) bs) = Some (sz, n)" and
      le: "cursor + 1 + n + unat sz \<le> length bs" and
      rest: "load_sections bs (cursor + 1 + n + unat sz) (set_section (bs ! cursor) d m) = Ok m'" and
      d: "slice bs (cursor + 1 + n) (cursor + 1 + n + unat sz) = (Ok d :: (load_error, bytes) result)"
      by (auto simp: load_sections.simps [of bs cursor] res_simps split: option.splits prod.splits if_splits)
    have "slice_of bs d" using d by (auto simp: res_simps take_drop_slice_of)
    then have sl: "slice_of bs t" if "Some t \<in> set (module_sections (set_section (bs ! cursor) d m))" for t
      using set_section_slices "1.prems"(2) that by blast
    show ?thesis
      by (rule "1.IH" [OF True r refl _ rest sl "1.prems"(3)]) (use le in auto)
  qed
qed

section \<open>Looking an export up\<close>

definition export_bytes :: "bytes \<times> u8 \<times> u32 \<Rightarrow> bytes" where
  "export_bytes = (\<lambda>(nm, kind, idx).
     write_leb128_u32 (word_of_nat (length nm)) @ nm @ [kind] @ write_leb128_u32 idx)"

lemma unat_of_length [simp]: "length d < 2 ^ 32 \<Longrightarrow> unat (word_of_nat (length d) :: u32) = length d"
  by (simp add: unat_of_nat take_bit_nat_eq_self)

lemma find_export_step:
  assumes "length nm < 2 ^ 32" and "utf8_valid nm"
  shows "find_export_loop (pre @ export_bytes (nm, kind, idx) @ post) name (Suc j) (length pre)
       = (if kind = 0 \<and> nm = name then Ok idx
          else find_export_loop (pre @ export_bytes (nm, kind, idx) @ post) name j
                 (length pre + length (export_bytes (nm, kind, idx))))"
proof -
  define w where "w = write_leb128_u32 (word_of_nat (length nm))"
  define bs where "bs = pre @ export_bytes (nm, kind, idx) @ post"
  define e where "e = length pre + length w + length nm"
  have bs1: "bs = pre @ w @ (nm @ kind # write_leb128_u32 idx @ post)"
    and bs2: "bs = (pre @ w @ nm @ [kind]) @ write_leb128_u32 idx @ post"
    by (simp_all add: bs_def w_def export_bytes_def)
  have r1: "read_u32_at bs (length pre) () = Ok (word_of_nat (length nm), length w)"
    unfolding bs1 w_def by (rule read_u32_at_written)
  have r2: "read_u32_at bs (e + 1) () = Ok (idx, length (write_leb128_u32 idx))"
    unfolding bs2 e_def using read_u32_at_written [of "pre @ w @ nm @ [kind]" idx post]
    by (simp add: add.assoc)
  have nm: "slice bs (length pre + length w) e = (Ok nm :: (unit, bytes) result)"
    and k: "index bs e = (Ok kind :: (unit, u8) result)"
    and len: "e < length bs"
    by (simp_all add: bs1 e_def slice_def index_def nth_append)
  have u: "length pre + length w + unat (word_of_nat (length nm) :: u32) = e"
    using assms by (simp add: e_def)
  have "find_export_loop bs name (Suc j) (length pre)
      = (if kind = 0 \<and> nm = name then Ok idx
         else find_export_loop bs name j (e + 1 + length (write_leb128_u32 idx)))"
    using assms(2) len r2 by (simp add: r1 nm k u from_utf8_def Let_def)
  then show ?thesis
    by (simp add: bs_def e_def w_def export_bytes_def add.assoc)
qed

lemma find_export_concat:
  assumes "\<forall>(nm, kind, idx) \<in> set es. length nm < 2 ^ 32 \<and> utf8_valid nm"
  shows "find_export_loop (pre @ concat (map export_bytes es) @ post) name (length es) (length pre)
       = (case find (\<lambda>(nm, kind, idx). kind = 0 \<and> nm = name) es of
            None \<Rightarrow> Err () | Some (_, _, idx) \<Rightarrow> Ok idx)"
  using assms
proof (induction es arbitrary: pre)
  case Nil
  then show ?case by simp
next
  case (Cons e es)
  obtain nm kind idx where e: "e = (nm, kind, idx)" by (cases e)
  have "length nm < 2 ^ 32" "utf8_valid nm" using Cons.prems e by auto
  then have st: "find_export_loop (pre @ concat (map export_bytes (e # es)) @ post) name (length (e # es)) (length pre)
     = (if kind = 0 \<and> nm = name then Ok idx
        else find_export_loop ((pre @ export_bytes e) @ concat (map export_bytes es) @ post) name (length es)
               (length (pre @ export_bytes e)))"
    using find_export_step [of nm pre kind idx "concat (map export_bytes es) @ post" name "length es"]
    by (simp add: e)
  show ?case
    unfolding st using Cons.IH [of "pre @ export_bytes e"] Cons.prems by (simp add: e)
qed

section \<open>Properties\<close>

text \<open>
  No byte string makes the loader panic: loading a file, looking up an export of any module and
  reading the memory section all return a value or an error, whatever the input.
\<close>
theorem loader_total:
  "load bs \<noteq> Panic \<and> find_export m name \<noteq> Panic \<and> (read_memory_min_pages sec :: ('e, u32) result) \<noteq> Panic"
  by (simp add: load_no_panic find_export_no_panic read_memory_min_pages_no_panic)

text \<open>
  The loaded module is a view of the file: every section it records is a contiguous slice of
  the bytes that were loaded.
\<close>
theorem load_sections_are_slices:
  assumes "load bs = Ok m" and "Some s \<in> set (module_sections m)"
  shows "slice_of bs s"
proof -
  have "load_sections bs 8 empty_module = Ok m"
    using assms(1) by (simp add: load_def split: if_splits)
  then show ?thesis
    by (rule load_sections_slices) (use assms(2) in \<open>simp_all add: module_sections_def empty_module_def\<close>)
qed

theorem load_sections_are_slices_witness:
  "slice_of (MAGIC @ VERSION @ [1, 2, 7, 9]) [7, 9]"
proof (rule load_sections_are_slices)
  have "write_leb128_u32 2 = [2]" by (subst write_leb128_u32.simps) simp
  then show "load (MAGIC @ VERSION @ [1, 2, 7, 9]) = Ok (set_section 1 [7, 9] empty_module)"
    using load_concat [of "[(1, [7, 9])]"] by (simp add: section_bytes_def)
  show "Some [7, 9] \<in> set (module_sections (set_section 1 [7, 9] empty_module))"
    by (simp add: module_sections_def set_section_def)
qed

text \<open>
  Export lookup is first-match search: on an export section that encodes a list of exports (names
  valid UTF-8, lengths below 2^32) \<open>find_export\<close> returns the index of the first function export
  with the requested name, and \<open>None\<close> when there is none.
\<close>
theorem find_export_first_match:
  assumes "\<forall>(nm, kind, idx) \<in> set es. length nm < 2 ^ 32 \<and> utf8_valid nm"
    and "length es < 2 ^ 32"
    and "export_section m = Some (write_leb128_u32 (word_of_nat (length es)) @ concat (map export_bytes es))"
  shows "find_export m name
       = (case find (\<lambda>(nm, kind, idx). kind = 0 \<and> nm = name) es of
            None \<Rightarrow> Err () | Some (_, _, idx) \<Rightarrow> Ok idx)"
proof -
  let ?w = "write_leb128_u32 (word_of_nat (length es))"
  have "read_u32_at (?w @ concat (map export_bytes es)) 0 () = Ok (word_of_nat (length es), length ?w)"
    using read_u32_at_written [of "[]" "word_of_nat (length es)"] by simp
  moreover have "unat (word_of_nat (length es) :: u32) = length es"
    using assms(2) by (simp add: unat_of_nat take_bit_nat_eq_self)
  ultimately show ?thesis
    using assms(3) find_export_concat [OF assms(1), of ?w "[]" name] by (simp add: find_export_def)
qed

theorem find_export_first_match_witness:
  "find_export (empty_module\<lparr>export_section := Some [2, 1, 0x66, 3, 4, 1, 0x66, 0, 5]\<rparr>) [0x66] = Ok 5"
proof -
  let ?es = "[([0x66], 3, 4), ([0x66], 0, 5)] :: (bytes \<times> u8 \<times> u32) list"
  have w: "write_leb128_u32 1 = [1]" "write_leb128_u32 2 = [2]" "write_leb128_u32 4 = [4]" "write_leb128_u32 5 = [5]"
    by (subst write_leb128_u32.simps, simp)+
  show ?thesis
    using find_export_first_match [of ?es "empty_module\<lparr>export_section := Some [2, 1, 0x66, 3, 4, 1, 0x66, 0, 5]\<rparr>" "[0x66]"]
    by (simp add: export_bytes_def w utf8_valid.simps)
qed

text \<open>
  The import iterator does panic on a malformed section: a global import cut short before its
  two type bytes moves the cursor past the end, and the next entry slices there.
\<close>
theorem for_each_func_import_truncated_global_panics:
  "(for_each_func_import [2, 0, 0, 3] f acc :: ('e, 'c) result) = Panic"
proof -
  have "read_u32_leb128 [2, 0, 0, 3] = Some (2, 1)" by (simp add: read_u32_leb128_def)
  moreover have "fst (import_loop [2, 0, 0, 3] f 2 1 acc) = Panic"
    by code_simp
  ultimately show ?thesis by (simp add: for_each_func_import_def case_prod_beta)
qed

end
