(* ===== verification/Sections.thy ===== *)
theory Sections
  imports Leb128
begin

text \<open>
  The section parsers of \<open>kernel/src/wasm/interp.rs\<close> that fill the interpreter's tables, and the
  error type of the interpreter. Each parser keeps a cursor; a cursor that a length field moves past
  the end of the section makes the next slice panic, and the model keeps that outcome.
\<close>

section \<open>Errors and limits\<close>

datatype interp_error =
    NoCodeSection | MalformedCode | TooManyFuncs | TooManyTypes | TooManyLocals | TooManyGlobals
  | CtrlStackOverflow | FuncIndexOutOfRange | LocalIndexOutOfRange | GlobalIndexOutOfRange
  | GlobalImmutable | IndirectCallNull | IndirectCallTypeMismatch | ImportNotFound | Unreachable
  | StackOverflow | StackUnderflow | CallStackOverflow | MemOutOfBounds | DivisionByZero
  | InvalidConversion | UnknownOpcode u8 | Yielded | Exited

primrec interp_error_as_str :: "interp_error \<Rightarrow> string" where
  "interp_error_as_str NoCodeSection = ''no code section''"
| "interp_error_as_str MalformedCode = ''malformed bytecode''"
| "interp_error_as_str TooManyFuncs = ''too many functions (increase MAX_FUNCS)''"
| "interp_error_as_str TooManyTypes = ''too many types (increase MAX_TYPES)''"
| "interp_error_as_str TooManyLocals = ''too many locals (increase MAX_LOCALS)''"
| "interp_error_as_str TooManyGlobals = ''too many globals (increase MAX_GLOBALS)''"
| "interp_error_as_str CtrlStackOverflow = ''control stack overflow (increase MAX_CTRL_DEPTH)''"
| "interp_error_as_str FuncIndexOutOfRange = ''function index out of range''"
| "interp_error_as_str LocalIndexOutOfRange = ''local variable index out of range''"
| "interp_error_as_str GlobalIndexOutOfRange = ''global variable index out of range''"
| "interp_error_as_str GlobalImmutable = ''write to immutable global''"
| "interp_error_as_str IndirectCallNull = ''call_indirect: null table entry''"
| "interp_error_as_str IndirectCallTypeMismatch = ''call_indirect: type mismatch''"
| "interp_error_as_str ImportNotFound = ''call to unresolved import''"
| "interp_error_as_str Unreachable = ''unreachable executed''"
| "interp_error_as_str StackOverflow = ''value stack overflow''"
| "interp_error_as_str StackUnderflow = ''value stack underflow''"
| "interp_error_as_str CallStackOverflow = ''call stack overflow''"
| "interp_error_as_str MemOutOfBounds = ''memory access out of bounds''"
| "interp_error_as_str DivisionByZero = ''integer divide by zero''"
| "interp_error_as_str InvalidConversion = ''invalid float-to-integer conversion''"
| "interp_error_as_str (UnknownOpcode b) = ''unknown opcode''"
| "interp_error_as_str Yielded = ''task yielded''"
| "interp_error_as_str Exited = ''module exited''"

definition MAX_FUNCS :: nat where "MAX_FUNCS = 512"
definition MAX_TYPES :: nat where "MAX_TYPES = 128"
definition MAX_LOCALS :: nat where "MAX_LOCALS = 64"
definition MAX_GLOBALS :: nat where "MAX_GLOBALS = 64"
definition MAX_TABLE :: nat where "MAX_TABLE = 512"
definition MAX_CTRL_DEPTH :: nat where "MAX_CTRL_DEPTH = 128"
definition STACK_DEPTH :: nat where "STACK_DEPTH = 256"
definition CALL_DEPTH :: nat where "CALL_DEPTH = 128"
definition PAGE_SIZE :: nat where "PAGE_SIZE = 65536"
definition NULL_FUNC :: u32 where "NULL_FUNC = - 1"

lemmas limits = MAX_FUNCS_def MAX_TYPES_def MAX_LOCALS_def MAX_GLOBALS_def MAX_TABLE_def
  MAX_CTRL_DEPTH_def STACK_DEPTH_def CALL_DEPTH_def PAGE_SIZE_def

section \<open>Type section\<close>

fun type_loop :: "bytes \<Rightarrow> nat \<Rightarrow> nat \<Rightarrow> nat \<Rightarrow> nat arr \<Rightarrow> nat arr
    \<Rightarrow> (interp_error, nat arr \<times> nat arr) result" where
  "type_loop bs 0 i cur p r = Ok (p, r)"
| "type_loop bs (Suc k) i cur p r =
     (if cur \<ge> length bs then Err MalformedCode
      else rbind (read_u32_at bs (cur + 1) MalformedCode) (\<lambda>(param_count, n).
        let cur = cur + 1 + n + unat param_count in
        rbind (read_u32_at bs cur MalformedCode) (\<lambda>(result_count, n).
        type_loop bs k (i + 1) (cur + n + unat result_count)
          (p(i := unat param_count)) (r(i := unat result_count)))))"

definition parse_type_section :: "bytes \<Rightarrow> nat arr \<Rightarrow> nat arr
    \<Rightarrow> (interp_error, nat \<times> nat arr \<times> nat arr) result" where
  "parse_type_section bs param_out result_out =
     rbind (ok_or (read_u32_leb128 bs) MalformedCode) (\<lambda>(count, n).
     if unat count > MAX_TYPES then Err TooManyTypes
     else rbind (type_loop bs (unat count) 0 n param_out result_out) (\<lambda>(p, r).
       Ok (unat count, p, r)))"

section \<open>Function section\<close>

fun function_loop :: "bytes \<Rightarrow> nat \<Rightarrow> nat \<Rightarrow> nat \<Rightarrow> nat arr \<Rightarrow> (interp_error, nat arr) result" where
  "function_loop bs 0 i cur out = Ok out"
| "function_loop bs (Suc k) i cur out =
     rbind (read_u32_at bs cur MalformedCode) (\<lambda>(type_idx, n).
     function_loop bs k (i + 1) (cur + n) (out(i := unat type_idx)))"

definition parse_function_section :: "bytes \<Rightarrow> nat arr \<Rightarrow> (interp_error, nat arr) result" where
  "parse_function_section bs out =
     rbind (ok_or (read_u32_leb128 bs) MalformedCode) (\<lambda>(count, n).
     if unat count > MAX_FUNCS then Err TooManyFuncs
     else function_loop bs (unat count) 0 n out)"

section \<open>Code section\<close>

text \<open>The run-length coded local declarations at the head of one code entry.\<close>

fun locals_loop :: "bytes \<Rightarrow> nat \<Rightarrow> nat \<Rightarrow> nat \<Rightarrow> (interp_error, nat \<times> nat) result" where
  "locals_loop entry 0 lc tot = Ok (lc, tot)"
| "locals_loop entry (Suc k) lc tot =
     rbind (read_u32_at entry lc MalformedCode) (\<lambda>(group_count, n).
     locals_loop entry k (lc + n + 1) (tot + unat group_count))"

fun code_loop :: "bytes \<Rightarrow> nat \<Rightarrow> nat \<Rightarrow> nat \<Rightarrow> bytes arr \<Rightarrow> nat arr
    \<Rightarrow> (interp_error, bytes arr \<times> nat arr) result" where
  "code_loop bs 0 i cur bodies lcs = Ok (bodies, lcs)"
| "code_loop bs (Suc k) i cur bodies lcs =
     rbind (read_u32_at bs cur MalformedCode) (\<lambda>(body_size, n).
     let entry_start = cur + n; entry_end = entry_start + unat body_size in
     if entry_end > length bs then Err MalformedCode
     else rbind (slice bs entry_start entry_end) (\<lambda>entry.
       rbind (ok_or (read_u32_leb128 entry) MalformedCode) (\<lambda>(local_groups, n).
       rbind (locals_loop entry (unat local_groups) n 0) (\<lambda>(lc, total_declared).
       if lc > length entry then Err MalformedCode
       else rbind (slice_from entry lc) (\<lambda>body.
         code_loop bs k (i + 1) entry_end (bodies(i := body)) (lcs(i := total_declared)))))))"

definition parse_code_section :: "bytes \<Rightarrow> bytes arr \<Rightarrow> nat arr
    \<Rightarrow> (interp_error, nat \<times> bytes arr \<times> nat arr) result" where
  "parse_code_section bs bodies local_counts =
     rbind (read_u32_at bs 0 MalformedCode) (\<lambda>(count, n).
     if unat count > MAX_FUNCS then Err TooManyFuncs
     else rbind (code_loop bs (unat count) 0 n bodies local_counts) (\<lambda>(b, l).
       Ok (unat count, b, l)))"

section \<open>Import section\<close>

text \<open>Limits of a table or memory import, with the range test of this parser.\<close>

definition import_limits :: "bytes \<Rightarrow> nat \<Rightarrow> (interp_error, nat) result" where
  "import_limits bs cur =
     (if cur \<ge> length bs then Err MalformedCode
      else rbind (index bs cur) (\<lambda>flag.
        rbind (read_u32_at bs (cur + 1) MalformedCode) (\<lambda>(_, n).
        let cur = cur + 1 + n in
        if flag \<noteq> 0 then rbind (read_u32_at bs cur MalformedCode) (\<lambda>(_, n). Ok (cur + n))
        else Ok cur)))"

fun import_types_loop :: "bytes \<Rightarrow> nat \<Rightarrow> nat \<Rightarrow> nat \<Rightarrow> nat arr \<Rightarrow> (interp_error, nat \<times> nat arr) result" where
  "import_types_loop bs 0 cur func_count out = Ok (func_count, out)"
| "import_types_loop bs (Suc k) cur func_count out =
     rbind (read_u32_at bs cur MalformedCode) (\<lambda>(mod_len, n).
     let cur = cur + n + unat mod_len in
     rbind (read_u32_at bs cur MalformedCode) (\<lambda>(name_len, n).
     let cur = cur + n + unat name_len in
     if cur \<ge> length bs then Err MalformedCode
     else rbind (index bs cur) (\<lambda>kind.
       let cur = cur + 1 in
       if kind = 0 then
         rbind (read_u32_at bs cur MalformedCode) (\<lambda>(type_idx, n).
         import_types_loop bs k (cur + n) (func_count + 1)
           (if func_count < MAX_FUNCS then out(func_count := unat type_idx) else out))
       else if kind = 1 then
         rbind (import_limits bs (cur + 1)) (\<lambda>cur. import_types_loop bs k cur func_count out)
       else if kind = 2 then
         rbind (import_limits bs cur) (\<lambda>cur. import_types_loop bs k cur func_count out)
       else if kind = 3 then import_types_loop bs k (cur + 2) func_count out
       else Err MalformedCode)))"

definition parse_import_func_types :: "bytes \<Rightarrow> nat arr \<Rightarrow> (interp_error, nat \<times> nat arr) result" where
  "parse_import_func_types bs out =
     rbind (ok_or (read_u32_leb128 bs) MalformedCode) (\<lambda>(count, n).
     import_types_loop bs (unat count) n 0 out)"

section \<open>Element section\<close>

text \<open>
  The entries of one active segment. \<open>base\<close> is \<open>offset as usize\<close>, the sign-extended \<open>i32\<close>;
  \<open>base + j\<close> is checked \<open>usize\<close> addition.
\<close>

fun elem_loop :: "bytes \<Rightarrow> nat \<Rightarrow> nat \<Rightarrow> nat \<Rightarrow> nat \<Rightarrow> u32 arr \<Rightarrow> nat
    \<Rightarrow> (interp_error, nat \<times> u32 arr \<times> nat) result" where
  "elem_loop bs 0 j base cur table table_size = Ok (cur, table, table_size)"
| "elem_loop bs (Suc k) j base cur table table_size =
     rbind (read_u32_at bs cur MalformedCode) (\<lambda>(func_idx, n).
     let ti = base + j in
     if ti \<ge> 2 ^ 64 then Panic
     else if ti < MAX_TABLE then
       elem_loop bs k (j + 1) base (cur + n) (table(ti := func_idx))
         (if ti + 1 > table_size then ti + 1 else table_size)
     else elem_loop bs k (j + 1) base (cur + n) table table_size)"

fun element_loop :: "bytes \<Rightarrow> nat \<Rightarrow> nat \<Rightarrow> u32 arr \<Rightarrow> nat \<Rightarrow> (interp_error, u32 arr \<times> nat) result" where
  "element_loop bs 0 cur table table_size = Ok (table, table_size)"
| "element_loop bs (Suc k) cur table table_size =
     rbind (read_u32_at bs cur MalformedCode) (\<lambda>(kind, n).
     let cur = cur + n in
     if kind = 0 then
       if cur \<ge> length bs \<or> bs ! cur \<noteq> 0x41 then Err MalformedCode
       else rbind (read_i32_at bs (cur + 1) MalformedCode) (\<lambda>(offset, n).
         let cur = cur + 1 + n in
         if cur \<ge> length bs \<or> bs ! cur \<noteq> 0x0B then Err MalformedCode
         else rbind (read_u32_at bs (cur + 1) MalformedCode) (\<lambda>(elem_count, n).
           rbind (elem_loop bs (unat elem_count) 0 (unat (scast offset :: u64)) (cur + 1 + n) table table_size)
             (\<lambda>(cur, table, table_size). element_loop bs k cur table table_size)))
     else Ok (table, table_size))"

definition parse_element_section :: "bytes \<Rightarrow> u32 arr \<Rightarrow> nat \<Rightarrow> (interp_error, u32 arr \<times> nat) result" where
  "parse_element_section bs table table_size =
     rbind (ok_or (read_u32_leb128 bs) MalformedCode) (\<lambda>(seg_count, n).
     element_loop bs (unat seg_count) n table table_size)"

section \<open>Global section\<close>

fun global_loop :: "bytes \<Rightarrow> nat \<Rightarrow> nat \<Rightarrow> nat \<Rightarrow> i64 arr \<Rightarrow> bool arr
    \<Rightarrow> (interp_error, i64 arr \<times> bool arr) result" where
  "global_loop bs 0 i cur vals mut = Ok (vals, mut)"
| "global_loop bs (Suc k) i cur vals mut =
     (if cur + 2 > length bs then Err MalformedCode
      else
        let mut = mut(i := (bs ! (cur + 1) = 0x01)); cur = cur + 2 in
        if cur \<ge> length bs then Err MalformedCode
        else
          let init_op = bs ! cur; cur = cur + 1 in
          rbind (if init_op = 0x41 then
                   rbind (read_i32_at bs cur MalformedCode) (\<lambda>(v, n). Ok (scast v, cur + n))
                 else if init_op = 0x42 then
                   rbind (read_i64_at bs cur MalformedCode) (\<lambda>(v, n). Ok (v, cur + n))
                 else Err MalformedCode) (\<lambda>(val, cur).
          if cur \<ge> length bs \<or> bs ! cur \<noteq> 0x0B then Err MalformedCode
          else global_loop bs k (i + 1) (cur + 1) (vals(i := val)) mut))"

definition parse_global_section :: "bytes \<Rightarrow> i64 arr \<Rightarrow> bool arr
    \<Rightarrow> (interp_error, nat \<times> i64 arr \<times> bool arr) result" where
  "parse_global_section bs vals mut =
     rbind (ok_or (read_u32_leb128 bs) MalformedCode) (\<lambda>(count, n).
     if unat count > MAX_GLOBALS then Err TooManyGlobals
     else rbind (global_loop bs (unat count) 0 n vals mut) (\<lambda>(v, m). Ok (unat count, v, m)))"

section \<open>Capacities\<close>

lemma parse_type_section_count: "parse_type_section bs p r = Ok (c, p', r') \<Longrightarrow> c \<le> MAX_TYPES"
  by (auto simp: parse_type_section_def res_simps split: if_splits)

lemma parse_code_section_count: "parse_code_section bs b l = Ok (c, b', l') \<Longrightarrow> c \<le> MAX_FUNCS"
  by (auto simp: parse_code_section_def res_simps split: if_splits)

lemma parse_global_section_count: "parse_global_section bs v m = Ok (c, v', m') \<Longrightarrow> c \<le> MAX_GLOBALS"
  by (auto simp: parse_global_section_def res_simps split: if_splits)

lemma elem_loop_size:
  "elem_loop bs k j base cur t sz = Ok (cur', t', sz') \<Longrightarrow> sz \<le> MAX_TABLE \<Longrightarrow> sz' \<le> MAX_TABLE"
  by (induction bs k j base cur t sz rule: elem_loop.induct)
     (auto simp: res_simps Let_def split: if_splits)

lemma element_loop_size:
  "element_loop bs k cur t sz = Ok (t', sz') \<Longrightarrow> sz \<le> MAX_TABLE \<Longrightarrow> sz' \<le> MAX_TABLE"
proof (induction k arbitrary: cur t sz)
  case 0
  then show ?case by simp
next
  case (Suc k)
  then show ?case
    by (auto simp: res_simps Let_def split: if_splits dest: elem_loop_size)
qed

lemma parse_element_section_size:
  "parse_element_section bs t sz = Ok (t', sz') \<Longrightarrow> sz \<le> MAX_TABLE \<Longrightarrow> sz' \<le> MAX_TABLE"
  by (auto simp: parse_element_section_def res_simps dest: element_loop_size)

section \<open>Which parsers stay inside their section\<close>

lemma function_loop_no_panic: "cur \<le> length bs \<Longrightarrow> function_loop bs k i cur out \<noteq> Panic"
  by (induction bs k i cur out rule: function_loop.induct) (auto simp: res_simps dest!: read_u32_at_Ok)

lemma parse_function_section_no_panic: "parse_function_section bs out \<noteq> Panic"
  by (auto simp: parse_function_section_def res_simps dest!: read_u32_bounds function_loop_no_panic)

lemma global_loop_no_panic: "cur \<le> length bs \<Longrightarrow> global_loop bs k i cur v m \<noteq> Panic"
proof (induction k arbitrary: i cur v m)
  case 0
  then show ?case by simp
next
  case (Suc k)
  then show ?case
    by (auto simp: res_simps Let_def split: if_splits dest!: read_i32_at_Ok read_i64_at_Ok)
qed

lemma parse_global_section_no_panic: "parse_global_section bs v m \<noteq> Panic"
  by (auto simp: parse_global_section_def res_simps dest!: read_u32_bounds global_loop_no_panic)

section \<open>Function bodies are slices of the code section\<close>

lemma code_loop_bodies:
  assumes "code_loop bs k i cur b l = Ok (b', l')"
  shows "b' j = b j \<or> (\<exists>pre post. bs = pre @ b' j @ post)"
  using assms
proof (induction k arbitrary: i cur b l)
  case 0
  then show ?case by simp
next
  case (Suc k)
  then obtain a sz e n lc body where
    body: "body = drop lc (take sz (drop a bs))" and
    rest: "code_loop bs k (i + 1) e (b(i := body)) (l(i := n)) = Ok (b', l')"
    by (fastforce simp: res_simps Let_def split: if_splits)
  have "\<exists>pre post. bs = pre @ body @ post"
    unfolding body by (metis append_take_drop_id append.assoc)
  with Suc.IH [OF rest] show ?case by (auto split: if_splits)
qed

section \<open>Properties\<close>

text \<open>
  The function section and global section parsers test every cursor before they slice: no input
  makes them panic.
\<close>
theorem function_and_global_parsers_total:
  "parse_function_section bs out \<noteq> Panic \<and> parse_global_section bs v m \<noteq> Panic"
  by (simp add: parse_function_section_no_panic parse_global_section_no_panic)

text \<open>
  The type and code section parsers do panic on malformed input: a parameter count that runs
  past the type section, and a local group that ends inside its own type byte.
\<close>
theorem type_and_code_parsers_panic:
  "parse_type_section [1, 0x60, 5] p r = Panic \<and> parse_code_section [1, 2, 2, 5] b l = Panic"
proof -
  have "is_panic (parse_type_section [1, 0x60, 5] p r)" by code_simp
  moreover have "is_panic (parse_code_section [1, 2, 2, 5] b l)" by code_simp
  ultimately show ?thesis by simp
qed

end
