(* ===== verification/Jump_Table.thy ===== *)
theory Jump_Table
  imports Leb128
begin

text \<open>
  Structured control flow in \<open>kernel/src/wasm/interp.rs\<close>: the reference scan for the matching
  \<open>end\<close> and \<open>else\<close> (\<open>scan_block_end\<close>) and the hash table of precomputed answers that
  replaces it on the hot path (\<open>jump_hash\<close>, \<open>jump_insert\<close>, \<open>pre_scan_body_jumps\<close>,
  \<open>jump_lookup\<close>). The lemmas show that the table answers exactly as the scan does, when the lookup
  returns, and when it never does.
\<close>

definition JUMP_SLOTS :: nat where "JUMP_SLOTS = 4096"

definition NO_ELSE :: nat where "NO_ELSE = 2 ^ 64 - 1"

record jump_slot =
  key_body :: u16
  pad :: u16
  key_pc :: u32
  slot_end_pc :: u32
  slot_else_pc :: u32

type_synonym jump_table = "jump_slot arr"

definition EMPTY_JUMP_SLOT :: jump_slot where
  "EMPTY_JUMP_SLOT = \<lparr>key_body = - 1, pad = 0, key_pc = 0, slot_end_pc = 0, slot_else_pc = - 1\<rparr>"

section \<open>The reference scan\<close>

text \<open>\<open>for _ in 0..=count { i += skip_leb128(body, i)?; }\<close>\<close>

fun skip_labels :: "bytes \<Rightarrow> nat \<Rightarrow> nat \<Rightarrow> nat option" where
  "skip_labels body 0 i = Some i"
| "skip_labels body (Suc k) i =
     (case skip_leb128 body i of None \<Rightarrow> None | Some n \<Rightarrow> skip_labels body k (i + n))"

definition is_leb1_op :: "u8 \<Rightarrow> bool" where
  "is_leb1_op op \<longleftrightarrow> op \<in> {0x0C, 0x0D, 0x10, 0x20, 0x21, 0x22, 0x23, 0x24, 0x41, 0x42}"

text \<open>
  The arms of \<open>scan_block_end\<close> that consume immediates: the position behind them, or \<open>None\<close>
  for the \<open>?\<close> of the source. \<open>i\<close> is the position behind the opcode, at most the body's length.
\<close>

definition skip2 :: "bytes \<Rightarrow> nat \<Rightarrow> nat option" where
  "skip2 body i =
     (case skip_leb128 body i of
        None \<Rightarrow> None
      | Some n \<Rightarrow> (case skip_leb128 body (i + n) of None \<Rightarrow> None | Some n2 \<Rightarrow> Some (i + n + n2)))"

definition scan_imm :: "bytes \<Rightarrow> u8 \<Rightarrow> nat \<Rightarrow> nat option" where
  "scan_imm body op i =
     (if is_leb1_op op then map_option (\<lambda>n. i + n) (skip_leb128 body i)
      else if op = 0x11 then skip2 body i
      else if op = 0x0E then
        (case read_u32_leb128 (drop i body) of
           None \<Rightarrow> None
         | Some (count, n) \<Rightarrow> skip_labels body (unat count + 1) (i + n))
      else if 0x28 \<le> op \<and> op \<le> 0x3E then skip2 body i
      else if op = 0x3F \<or> op = 0x40 then Some (i + 1)
      else if op = 0x43 then Some (i + 4)
      else if op = 0x44 then Some (i + 8)
      else if op = 0xFC then map_option (\<lambda>n. i + n) (skip_leb128 body i)
      else Some i)"

lemma skip_labels_mono: "skip_labels body k i = Some j \<Longrightarrow> i \<le> j"
  by (induction body k i rule: skip_labels.induct) (auto split: option.splits)

lemma scan_imm_mono: "scan_imm body op i = Some j \<Longrightarrow> i \<le> j"
  by (auto simp: scan_imm_def skip2_def dest!: skip_labels_mono split: if_splits option.splits)

function scan_loop :: "bytes \<Rightarrow> nat \<Rightarrow> nat \<Rightarrow> nat \<Rightarrow> (nat \<times> nat) option" where
  "scan_loop body i depth else_pc =
     (if i < length body then
        let op = body ! i; i = i + 1 in
        if op = 0x02 \<or> op = 0x03 \<or> op = 0x04 then scan_loop body (i + 1) (depth + 1) else_pc
        else if op = 0x05 then scan_loop body i depth (if depth = 1 then i - 1 else else_pc)
        else if op = 0x0B then
          (if depth - 1 = 0 then Some (i - 1, else_pc) else scan_loop body i (depth - 1) else_pc)
        else
          (case scan_imm body op i of
             None \<Rightarrow> None
           | Some i \<Rightarrow> scan_loop body i depth else_pc)
      else None)"
  by pat_completeness auto
termination scan_loop
  by (relation "measure (\<lambda>(body, i, depth, else_pc). length body - i)") (auto dest!: scan_imm_mono)

declare scan_loop.simps [simp del]

definition scan_block_end :: "bytes \<Rightarrow> nat \<Rightarrow> (nat \<times> nat) option" where
  "scan_block_end body start = scan_loop body start 1 NO_ELSE"

section \<open>The hash table\<close>

definition jump_hash :: "nat \<Rightarrow> nat \<Rightarrow> nat" where
  "jump_hash body_idx scan_start =
     (let h = ((word_of_nat body_idx :: u64) * 2654435761) XOR (word_of_nat scan_start * 2246822519)
      in unat ((h XOR drop_bit 16 h) AND word_of_nat (JUMP_SLOTS - 1)))"

text \<open>\<open>(i + 1) & (JUMP_SLOTS - 1)\<close>\<close>

definition next_slot :: "nat \<Rightarrow> nat" where
  "next_slot i = (i + 1) AND (JUMP_SLOTS - 1)"

fun insert_probe :: "nat \<Rightarrow> jump_table \<Rightarrow> nat \<Rightarrow> jump_slot \<Rightarrow> jump_table" where
  "insert_probe 0 table i slot = table"
| "insert_probe (Suc k) table i slot =
     (if key_body (table i) = - 1 then table(i := slot) else insert_probe k table (next_slot i) slot)"

definition jump_insert :: "jump_table \<Rightarrow> nat \<Rightarrow> nat \<Rightarrow> nat \<Rightarrow> nat \<Rightarrow> jump_table" where
  "jump_insert table body_idx scan_start end_pc else_pc =
     (if body_idx \<ge> 65535 then table
      else insert_probe JUMP_SLOTS table (jump_hash body_idx scan_start)
        \<lparr>key_body = word_of_nat body_idx, pad = 0, key_pc = word_of_nat scan_start,
         slot_end_pc = word_of_nat end_pc,
         slot_else_pc = (if else_pc = NO_ELSE then - 1 else word_of_nat else_pc)\<rparr>)"

text \<open>The same immediates as seen by the pre-scan, which goes on after a truncated one.\<close>

fun skip_labels_lax :: "bytes \<Rightarrow> nat \<Rightarrow> nat \<Rightarrow> nat" where
  "skip_labels_lax body 0 i = i"
| "skip_labels_lax body (Suc k) i =
     skip_labels_lax body k (i + (case skip_leb128 body i of None \<Rightarrow> 1 | Some n \<Rightarrow> n))"

definition skip_lax :: "bytes \<Rightarrow> nat \<Rightarrow> nat" where
  "skip_lax body i = i + (case skip_leb128 body i of None \<Rightarrow> 0 | Some n \<Rightarrow> n)"

definition pre_imm :: "bytes \<Rightarrow> u8 \<Rightarrow> nat \<Rightarrow> nat option" where
  "pre_imm body op i =
     (if is_leb1_op op then Some (skip_lax body i)
      else if op = 0x11 then Some (skip_lax body (skip_lax body i))
      else if op = 0x0E then
        (case read_u32_leb128 (drop i body) of
           None \<Rightarrow> None
         | Some (count, n) \<Rightarrow> Some (skip_labels_lax body (unat count + 1) (i + n)))
      else if 0x28 \<le> op \<and> op \<le> 0x3E then Some (skip_lax body (skip_lax body i))
      else if op = 0x3F \<or> op = 0x40 then Some (i + 1)
      else if op = 0x43 then Some (i + 4)
      else if op = 0x44 then Some (i + 8)
      else if op = 0xFC then Some (skip_lax body i)
      else Some i)"

lemma skip_lax_mono: "i \<le> skip_lax body i"
  by (simp add: skip_lax_def)

lemma skip_labels_lax_mono: "i \<le> skip_labels_lax body k i"
  by (induction body k i rule: skip_labels_lax.induct) (auto intro: order_trans)

lemma pre_imm_mono: "pre_imm body op i = Some j \<Longrightarrow> i \<le> j"
  using skip_lax_mono [of i body] skip_lax_mono [of "skip_lax body i" body]
  by (auto simp: pre_imm_def split: if_splits option.splits
      intro: order_trans [OF _ skip_labels_lax_mono] order_trans)

function pre_scan_loop :: "bytes \<Rightarrow> nat \<Rightarrow> nat \<Rightarrow> jump_table \<Rightarrow> jump_table" where
  "pre_scan_loop body body_idx i table =
     (if i < length body then
        let op = body ! i; i = i + 1 in
        if op = 0x02 \<or> op = 0x03 \<or> op = 0x04 then
          if i \<ge> length body then table
          else
            let scan_start = i + 1 in
            pre_scan_loop body body_idx (i + 1)
              (case scan_block_end body scan_start of
                 None \<Rightarrow> table
               | Some (end_pc, else_pc) \<Rightarrow> jump_insert table body_idx scan_start end_pc else_pc)
        else
          (case pre_imm body op i of
             None \<Rightarrow> table
           | Some i \<Rightarrow> pre_scan_loop body body_idx i table)
      else table)"
  by pat_completeness auto
termination pre_scan_loop
  by (relation "measure (\<lambda>(body, body_idx, i, table). length body - i)") (auto dest!: pre_imm_mono)

declare pre_scan_loop.simps [simp del]

definition pre_scan_body_jumps :: "bytes \<Rightarrow> nat \<Rightarrow> jump_table \<Rightarrow> jump_table" where
  "pre_scan_body_jumps body body_idx table = pre_scan_loop body body_idx 0 table"

section \<open>Lookup\<close>

text \<open>
  The source's loop has no bound. \<open>jump_lookup_loop\<close> is that loop, \<open>None\<close> meaning that it never
  leaves it; \<open>jump_probe\<close> is the same loop cut off after \<open>JUMP_SLOTS\<close> probes, when every slot has
  been seen. \<open>jump_lookup\<close>, built on the second, is the executable model.
\<close>

definition slot_answer :: "jump_slot \<Rightarrow> nat \<times> nat" where
  "slot_answer s = (unat (slot_end_pc s), if slot_else_pc s = - 1 then NO_ELSE else unat (slot_else_pc s))"

partial_function (option) jump_lookup_loop ::
    "jump_table \<Rightarrow> nat \<Rightarrow> nat \<Rightarrow> nat \<Rightarrow> (nat \<times> nat) option option" where
  "jump_lookup_loop table body_idx scan_start i =
     (if key_body (table i) = - 1 then Some None
      else if unat (key_body (table i)) = body_idx \<and> unat (key_pc (table i)) = scan_start
      then Some (Some (slot_answer (table i)))
      else jump_lookup_loop table body_idx scan_start (next_slot i))"

fun jump_probe :: "nat \<Rightarrow> jump_table \<Rightarrow> nat \<Rightarrow> nat \<Rightarrow> nat \<Rightarrow> ('e, (nat \<times> nat) option) result" where
  "jump_probe 0 table body_idx scan_start i = Hang"
| "jump_probe (Suc k) table body_idx scan_start i =
     (if key_body (table i) = - 1 then Ok None
      else if unat (key_body (table i)) = body_idx \<and> unat (key_pc (table i)) = scan_start
      then Ok (Some (slot_answer (table i)))
      else jump_probe k table body_idx scan_start (next_slot i))"

definition jump_lookup :: "jump_table \<Rightarrow> nat \<Rightarrow> nat \<Rightarrow> ('e, (nat \<times> nat) option) result" where
  "jump_lookup table body_idx scan_start =
     jump_probe JUMP_SLOTS table body_idx scan_start (jump_hash body_idx scan_start)"

section \<open>Building the table\<close>

text \<open>The loop of \<open>Interpreter::new\<close> over all function bodies.\<close>

definition build_jump_table :: "bytes arr \<Rightarrow> nat \<Rightarrow> jump_table" where
  "build_jump_table bodies body_count =
     fold (\<lambda>bi table. pre_scan_body_jumps (bodies bi) bi table) [0..<body_count] (\<lambda>_. EMPTY_JUMP_SLOT)"

section \<open>Ranges of the scan\<close>

lemma scan_loop_range:
  "scan_loop body i depth l = Some (e, l') \<Longrightarrow> e < length body \<and> (l' = l \<or> l' < length body)"
proof (induction body i depth l rule: scan_loop.induct)
  case (1 body i depth l)
  show ?case
  proof (cases "i < length body")
    case False
    with "1.prems" show ?thesis by (simp add: scan_loop.simps [of body i])
  next
    case True
    have "scan_loop body (i + 1) depth (if depth = 1 then i else l) = Some (e, l') \<Longrightarrow>
        e < length body \<and> (l' = l \<or> l' < length body)" if "body ! i = 5"
      using "1.IH"(2) [OF True refl refl] that True by (auto split: if_splits)
    then show ?thesis
      using "1.prems" True "1.IH"(1,3,4) [OF True refl refl]
      by (auto simp: scan_loop.simps [of body i] Let_def split: if_splits option.splits)
  qed
qed

lemma scan_block_end_range:
  assumes "scan_block_end body start = Some (e, l)"
  shows "e < length body \<and> (l = NO_ELSE \<or> l < length body)"
  using scan_loop_range [OF assms [unfolded scan_block_end_def]] by simp

section \<open>Every entry is an answer of the scan\<close>

definition faithful :: "bytes arr \<Rightarrow> jump_table \<Rightarrow> bool" where
  "faithful bodies table \<longleftrightarrow>
     (\<forall>i. key_body (table i) \<noteq> - 1 \<longrightarrow>
        scan_block_end (bodies (unat (key_body (table i)))) (unat (key_pc (table i)))
          = Some (slot_answer (table i)))"

lemma insert_probe_cases: "insert_probe k table i slot j = table j \<or> insert_probe k table i slot j = slot"
  by (induction k table i slot rule: insert_probe.induct) auto

lemma jump_insert_faithful:
  assumes "faithful bodies table" and "length (bodies b) < 2 ^ 32" and "pc \<le> length (bodies b)"
    and "scan_block_end (bodies b) pc = Some (e, l)"
  shows "faithful bodies (jump_insert table b pc e l)"
proof (cases "b \<ge> 65535")
  case True
  with assms(1) show ?thesis by (simp add: jump_insert_def)
next
  case False
  let ?slot = "\<lparr>key_body = word_of_nat b, pad = 0, key_pc = word_of_nat pc, slot_end_pc = word_of_nat e,
         slot_else_pc = (if l = NO_ELSE then - 1 else word_of_nat l)\<rparr> :: jump_slot"
  have b: "unat (word_of_nat b :: u16) = b"
    using False by (intro unat_word_of_nat) simp
  have pc: "unat (word_of_nat pc :: u32) = pc"
    using assms(2,3) by (intro unat_word_of_nat) simp
  have e: "unat (word_of_nat e :: u32) = e" and l: "l = NO_ELSE \<or> l < 2 ^ 32 - 1"
    using scan_block_end_range [OF assms(4)] assms(2) by (auto intro!: unat_word_of_nat)
  have umax: "unat (- 1 :: u32) = 4294967295"
    by (simp add: unsigned_minus_1_eq_mask mask_eq_exp_minus_1)
  have l2: "l \<noteq> NO_ELSE \<Longrightarrow> unat (word_of_nat l :: u32) = l \<and> (word_of_nat l :: u32) \<noteq> - 1"
    using l umax by (auto simp: unat_word_of_nat word_unat_eq_iff)
  then have "slot_answer ?slot = (e, l)"
    by (auto simp: slot_answer_def e)
  then have "scan_block_end (bodies (unat (key_body ?slot))) (unat (key_pc ?slot)) = Some (slot_answer ?slot)"
    using assms(4) by (simp add: b pc)
  then show ?thesis
    using assms(1) insert_probe_cases [of JUMP_SLOTS table "jump_hash b pc" ?slot] False
    unfolding faithful_def jump_insert_def by (smt (verit))
qed

lemma pre_scan_loop_faithful:
  "faithful bodies table \<Longrightarrow> length (bodies b) < 2 ^ 32 \<Longrightarrow> faithful bodies (pre_scan_loop (bodies b) b i table)"
proof (induction "bodies b" b i table rule: pre_scan_loop.induct)
  case (1 b i table)
  show ?case
  proof (cases "i < length (bodies b)")
    case False
    with "1.prems" show ?thesis by (simp add: pre_scan_loop.simps [of _ _ i])
  next
    case True
    have "faithful bodies (case scan_block_end (bodies b) (i + 2) of None \<Rightarrow> table
        | Some (end_pc, else_pc) \<Rightarrow> jump_insert table b (i + 2) end_pc else_pc)" if "i + 1 < length (bodies b)"
      using "1.prems" that by (auto intro: jump_insert_faithful split: option.split)
    with True "1.prems" "1.hyps" show ?thesis
      by (auto simp: pre_scan_loop.simps [of _ _ i] Let_def split: option.split)
  qed
qed

lemma faithful_empty: "faithful bodies (\<lambda>_. EMPTY_JUMP_SLOT)"
  by (simp add: faithful_def EMPTY_JUMP_SLOT_def)

lemma build_jump_table_faithful:
  assumes "\<And>b. b < n \<Longrightarrow> length (bodies b) < 2 ^ 32"
  shows "faithful bodies (build_jump_table bodies n)"
proof -
  have "faithful bodies (fold (\<lambda>bi table. pre_scan_body_jumps (bodies bi) bi table) bs t)"
    if "faithful bodies t" "set bs \<subseteq> {..<n}" for bs t
    using that assms
    by (induction bs arbitrary: t) (auto simp: pre_scan_body_jumps_def pre_scan_loop_faithful)
  moreover have "set [0..<n] \<subseteq> {..<n}" by auto
  ultimately show ?thesis
    using faithful_empty unfolding build_jump_table_def by blast
qed

section \<open>Probing\<close>

lemma next_slot_eq: "next_slot i = (i + 1) mod JUMP_SLOTS"
proof -
  have "(i + 1) AND mask 12 = take_bit 12 (i + 1)" by (simp only: take_bit_eq_mask)
  then show ?thesis by (simp add: next_slot_def JUMP_SLOTS_def mask_eq_exp_minus_1 take_bit_eq_mod)
qed

lemma jump_hash_less: "jump_hash b pc < JUMP_SLOTS"
proof -
  have "unat ((w :: u64) AND 4095) < 4096" for w
    using word_and_le1 [THEN word_le_nat_alt [THEN iffD1], of w 4095] by simp
  then show ?thesis
    by (simp add: jump_hash_def Let_def JUMP_SLOTS_def)
qed

definition slot_stops :: "jump_table \<Rightarrow> nat \<Rightarrow> nat \<Rightarrow> nat \<Rightarrow> bool" where
  "slot_stops table b pc i \<longleftrightarrow> key_body (table i) = - 1
     \<or> unat (key_body (table i)) = b \<and> unat (key_pc (table i)) = pc"

lemma jump_probe_Some:
  "jump_probe k table b pc i = Ok (Some r) \<Longrightarrow>
     \<exists>j. key_body (table j) \<noteq> - 1 \<and> unat (key_body (table j)) = b \<and> unat (key_pc (table j)) = pc
         \<and> r = slot_answer (table j)"
  by (induction k table b pc i rule: jump_probe.induct) (auto split: if_splits)

lemma jump_probe_Hang:
  assumes "i < JUMP_SLOTS"
  shows "(jump_probe k table b pc i :: ('e, (nat \<times> nat) option) result) = Hang \<longleftrightarrow> (\<forall>j < k. \<not> slot_stops table b pc ((i + j) mod JUMP_SLOTS))"
  using assms
proof (induction k arbitrary: i)
  case 0
  then show ?case by simp
next
  case (Suc k)
  have "next_slot i < JUMP_SLOTS" by (simp add: next_slot_eq JUMP_SLOTS_def)
  note IH = Suc.IH [OF this]
  have "(next_slot i + j) mod JUMP_SLOTS = (i + Suc j) mod JUMP_SLOTS" for j
    by (simp add: next_slot_eq mod_simps)
  then have "(jump_probe k table b pc (next_slot i) :: ('e, (nat \<times> nat) option) result) = Hang
      \<longleftrightarrow> (\<forall>j < k. \<not> slot_stops table b pc ((i + Suc j) mod JUMP_SLOTS))"
    using IH by simp
  then show ?case
    using Suc.prems by (auto simp: slot_stops_def All_less_Suc2)
qed

lemma jump_lookup_Hang_iff:
  "jump_lookup table b pc = Hang \<longleftrightarrow> (\<forall>i < JUMP_SLOTS. \<not> slot_stops table b pc i)"
proof -
  let ?h = "jump_hash b pc"
  have "\<exists>j < JUMP_SLOTS. (?h + j) mod JUMP_SLOTS = i" if "i < JUMP_SLOTS" for i
  proof (cases "?h \<le> i")
    case True
    with that jump_hash_less [of b pc] show ?thesis by (intro exI [of _ "i - ?h"]) auto
  next
    case False
    with that jump_hash_less [of b pc] show ?thesis by (intro exI [of _ "JUMP_SLOTS + i - ?h"]) auto
  qed
  moreover have "(?h + j) mod JUMP_SLOTS < JUMP_SLOTS" for j by (simp add: JUMP_SLOTS_def)
  ultimately show ?thesis
    unfolding jump_lookup_def jump_probe_Hang [OF jump_hash_less] by metis
qed

lemma jump_probe_loop: "jump_probe k table b pc i = Ok r \<Longrightarrow> jump_lookup_loop table b pc i = Some r"
  by (induction k table b pc i rule: jump_probe.induct)
     (subst jump_lookup_loop.simps, auto split: if_splits)+

lemma jump_lookup_loop_stops:
  assumes "jump_lookup_loop table b pc i = Some r" and "i < JUMP_SLOTS"
  shows "\<exists>j < JUMP_SLOTS. slot_stops table b pc j"
proof -
  have "i < JUMP_SLOTS \<longrightarrow> (\<exists>j < JUMP_SLOTS. slot_stops table b pc j)"
  proof (rule jump_lookup_loop.raw_induct
      [where P = "\<lambda>table b pc i r. i < JUMP_SLOTS \<longrightarrow> (\<exists>j < JUMP_SLOTS. slot_stops table b pc j)", OF _ assms(1)])
    fix f table b pc i r
    assume "\<And>table b pc i r. f table b pc i = Some r \<Longrightarrow>
        i < JUMP_SLOTS \<longrightarrow> (\<exists>j < JUMP_SLOTS. slot_stops table b pc j)"
      and "(if key_body (table i) = - 1 then Some None
        else if unat (key_body (table i)) = b \<and> unat (key_pc (table i)) = pc then Some (Some (slot_answer (table i)))
        else f table b pc (next_slot i)) = Some r"
    moreover have "next_slot i < JUMP_SLOTS" by (simp add: next_slot_eq JUMP_SLOTS_def)
    ultimately show "i < JUMP_SLOTS \<longrightarrow> (\<exists>j < JUMP_SLOTS. slot_stops table b pc j)"
      by (auto simp: slot_stops_def split: if_splits)
  qed
  with assms(2) show ?thesis by simp
qed

lemma jump_probe_cases: "(\<exists>r. jump_probe k table b pc i = Ok r) \<or> jump_probe k table b pc i = Hang"
  by (induction k table b pc i rule: jump_probe.induct) auto

section \<open>How full the table gets\<close>

definition occupied :: "jump_table \<Rightarrow> nat" where
  "occupied table = card {i. i < JUMP_SLOTS \<and> key_body (table i) \<noteq> - 1}"

lemma insert_probe_occupied: "occupied (insert_probe k table i slot) \<le> Suc (occupied table)"
proof (induction k table i slot rule: insert_probe.induct)
  case (1 table i slot)
  then show ?case by simp
next
  case (2 k table i slot)
  have "{j. j < JUMP_SLOTS \<and> key_body ((table(i := slot)) j) \<noteq> - 1}
      \<subseteq> insert i {j. j < JUMP_SLOTS \<and> key_body (table j) \<noteq> - 1}" by auto
  then have "occupied (table(i := slot)) \<le> card (insert i {j. j < JUMP_SLOTS \<and> key_body (table j) \<noteq> - 1})"
    unfolding occupied_def by (intro card_mono) auto
  also have "\<dots> \<le> Suc (occupied table)"
    by (simp add: occupied_def card_insert_if)
  finally show ?case using 2 by simp
qed

lemma jump_insert_occupied: "occupied (jump_insert table b pc e l) \<le> Suc (occupied table)"
  by (simp add: jump_insert_def insert_probe_occupied)

lemma pre_scan_loop_occupied:
  "occupied (pre_scan_loop body b i table) \<le> occupied table + (length body - i) div 2"
proof (induction body b i table rule: pre_scan_loop.induct)
  case (1 body b i table)
  show ?case
  proof (cases "i < length body")
    case False
    then show ?thesis by (simp add: pre_scan_loop.simps [of _ _ i])
  next
    case True
    define t where "t = (case scan_block_end body (Suc (Suc i)) of None \<Rightarrow> table
        | Some (end_pc, else_pc) \<Rightarrow> jump_insert table b (Suc (Suc i)) end_pc else_pc)"
    have t: "occupied t \<le> occupied table + 1"
      by (auto simp: t_def jump_insert_occupied split: option.split)
    have ih: "occupied (pre_scan_loop body b (Suc (Suc i)) t) \<le> occupied t + (length body - Suc (Suc i)) div 2"
      if "body ! i \<in> {2, 3, 4}" "i + 1 < length body"
      using "1.IH"(1) [OF True refl refl] that by (auto simp: t_def)
    have "occupied (pre_scan_loop body b j table) \<le> occupied table + (length body - i) div 2"
      if "body ! i \<notin> {2, 3, 4}" "pre_imm body (body ! i) (i + 1) = Some j" for j
    proof -
      have "occupied (pre_scan_loop body b j table) \<le> occupied table + (length body - j) div 2"
        using "1.IH"(2) [OF True refl refl] that by auto
      also have "(length body - j) div 2 \<le> (length body - i) div 2"
        using pre_imm_mono [OF that(2)] by (intro div_le_mono) simp
      finally show ?thesis by simp
    qed
    moreover have "occupied (pre_scan_loop body b (Suc (Suc i)) t) \<le> occupied table + (length body - i) div 2"
      if "body ! i \<in> {2, 3, 4}" "i + 1 < length body"
      using ih [OF that] t that(2) by linarith
    ultimately show ?thesis
      using True by (auto simp: pre_scan_loop.simps [of _ _ i] Let_def t_def split: option.split)
  qed
qed

lemma build_jump_table_occupied:
  "occupied (build_jump_table bodies n) \<le> (\<Sum>b < n. length (bodies b) div 2)"
proof (induction n)
  case 0
  then show ?case by (simp add: build_jump_table_def occupied_def EMPTY_JUMP_SLOT_def)
next
  case (Suc n)
  have "build_jump_table bodies (Suc n) = pre_scan_loop (bodies n) n 0 (build_jump_table bodies n)"
    by (simp add: build_jump_table_def pre_scan_body_jumps_def)
  with Suc pre_scan_loop_occupied [of "bodies n" n 0 "build_jump_table bodies n"] show ?case by simp
qed

lemma jump_lookup_returns_if_room:
  assumes "occupied table < JUMP_SLOTS"
  shows "\<exists>r. jump_lookup table b pc = Ok r"
proof -
  have "\<exists>i < JUMP_SLOTS. key_body (table i) = - 1"
  proof (rule ccontr)
    assume "\<not> ?thesis"
    then have "{i. i < JUMP_SLOTS \<and> key_body (table i) \<noteq> - 1} = {..<JUMP_SLOTS}" by auto
    with assms show False by (simp add: occupied_def)
  qed
  then have "jump_lookup table b pc \<noteq> Hang"
    by (auto simp: jump_lookup_Hang_iff slot_stops_def)
  with jump_probe_cases show ?thesis unfolding jump_lookup_def by metis
qed

section \<open>Resolving a block\<close>

text \<open>
  \<open>self.jump_lookup(body_idx, pc_body).or_else(|| scan_block_end(body, pc_body)).ok_or(e)?\<close>, as in
  the \<open>block\<close>, \<open>loop\<close> and \<open>if\<close> arms of the dispatch loop.
\<close>

definition block_target :: "jump_table \<Rightarrow> bytes \<Rightarrow> nat \<Rightarrow> nat \<Rightarrow> 'e \<Rightarrow> ('e, nat \<times> nat) result" where
  "block_target table body body_idx pc_body e =
     rbind (jump_lookup table body_idx pc_body) (\<lambda>r.
       case r of Some x \<Rightarrow> Ok x | None \<Rightarrow> ok_or (scan_block_end body pc_body) e)"

lemma jump_lookup_sound:
  assumes "faithful bodies table" and "jump_lookup table b pc = Ok (Some r)"
  shows "scan_block_end (bodies b) pc = Some r"
  using assms jump_probe_Some [of JUMP_SLOTS table b pc "jump_hash b pc" r]
  unfolding jump_lookup_def faithful_def by metis

lemma block_target_eq_scan:
  assumes "\<forall>i < n. length (bodies i) < 2 ^ 32"
    and "(\<Sum>i < n. length (bodies i) div 2) < JUMP_SLOTS"
  shows "block_target (build_jump_table bodies n) (bodies b) b pc e = ok_or (scan_block_end (bodies b) pc) e"
proof -
  let ?t = "build_jump_table bodies n"
  have "occupied ?t < JUMP_SLOTS"
    using build_jump_table_occupied [of bodies n] assms(2) by simp
  then obtain r where r: "jump_lookup ?t b pc = (Ok r :: ('a, (nat \<times> nat) option) result)"
    using jump_lookup_returns_if_room by blast
  have "faithful bodies ?t" using assms(1) by (intro build_jump_table_faithful) simp
  with r show ?thesis
    by (cases r) (auto simp: block_target_def dest: jump_lookup_sound)
qed

section \<open>Properties\<close>



text \<open>
  The lookup loop fails to terminate exactly when the table is full and holds no entry for the
  key: then no probe ever meets an empty slot or a match. In every other state the loop returns what
  the bounded probe of the model returns.
\<close>
theorem jump_lookup_never_returns_iff_full:
  "(jump_lookup_loop table b pc (jump_hash b pc) = None \<longleftrightarrow>
      (\<forall>i < JUMP_SLOTS. key_body (table i) \<noteq> - 1 \<and>
         \<not> (unat (key_body (table i)) = b \<and> unat (key_pc (table i)) = pc)))
   \<and> ((jump_lookup table b pc :: ('e, (nat \<times> nat) option) result) = (case jump_lookup_loop table b pc (jump_hash b pc) of
        None \<Rightarrow> Hang | Some r \<Rightarrow> Ok r))"
proof -
  let ?h = "jump_hash b pc" and ?full = "\<forall>i < JUMP_SLOTS. \<not> slot_stops table b pc i"
  have none: "jump_lookup_loop table b pc ?h = None" if ?full
    using that jump_lookup_loop_stops [of table b pc ?h] jump_hash_less by (cases "jump_lookup_loop table b pc ?h") auto
  have some: "jump_lookup table b pc = (Ok r :: ('e, (nat \<times> nat) option) result) \<Longrightarrow> jump_lookup_loop table b pc ?h = Some r" for r
    unfolding jump_lookup_def by (rule jump_probe_loop)
  have cases: "(\<exists>r. jump_lookup table b pc = (Ok r :: ('e, (nat \<times> nat) option) result)) \<or> jump_lookup table b pc = (Hang :: ('e, (nat \<times> nat) option) result)"
    unfolding jump_lookup_def by (rule jump_probe_cases)
  from none some cases have "jump_lookup_loop table b pc ?h = None \<longleftrightarrow> ?full"
    and "(jump_lookup table b pc :: ('e, (nat \<times> nat) option) result) = (case jump_lookup_loop table b pc ?h of None \<Rightarrow> Hang | Some r \<Rightarrow> Ok r)"
    using jump_lookup_Hang_iff [of table b pc, where 'a = 'e] by auto
  then show ?thesis by (auto simp: slot_stops_def)
qed

theorem jump_lookup_never_returns_iff_full_witness:
  "jump_lookup_loop (\<lambda>_. EMPTY_JUMP_SLOT\<lparr>key_body := 7\<rparr>) 3 0 (jump_hash 3 0) = None
   \<and> (jump_lookup (\<lambda>_. EMPTY_JUMP_SLOT) 3 0 :: (unit, (nat \<times> nat) option) result) \<noteq> Hang"
  using jump_lookup_never_returns_iff_full [of "\<lambda>_. EMPTY_JUMP_SLOT\<lparr>key_body := 7\<rparr>" 3 0, where 'e = unit]
    jump_lookup_never_returns_iff_full [of "\<lambda>_. EMPTY_JUMP_SLOT" 3 0, where 'e = unit]
  by (auto simp: EMPTY_JUMP_SLOT_def JUMP_SLOTS_def split: option.splits dest!: spec [of _ 0])

text \<open>
  The scan does not skip the operands of the bulk-memory opcodes: in the body
  \<open>block (data.drop 11) end\<close> it takes the segment index at position 4 for the \<open>end\<close> of the block,
  which is at position 5.
\<close>
theorem scan_block_end_misreads_data_drop:
  "scan_block_end [0x02, 0x40, 0xFC, 0x09, 0x0B, 0x0B] 2 = Some (4, NO_ELSE)"
  by (simp add: scan_block_end_def scan_loop.simps scan_imm_def is_leb1_op_def skip_leb128_def word_le_nat_alt)

end
