(* ===== verification/Machine.thy ===== *)
theory Machine
  imports Loader Sections Jump_Table
begin

text \<open>
  The interpreter's state (\<open>struct Interpreter\<close>, \<open>Frame\<close>, \<open>CtrlFrame\<close> of
  \<open>kernel/src/wasm/interp.rs\<close>), its construction from a parsed module (\<open>Interpreter::new\<close>), and
  the operations on the value stack, the control stack and the call stack. The kernel statics that
  the interpreter and the host functions touch are threaded with it in the field \<open>world\<close>.
\<close>

section \<open>State\<close>

datatype block_kind = Block | Loop | If

record ctrl_frame =
  kind :: block_kind
  pc_start :: nat
  end_pc :: nat

definition BLANK_CTRL :: ctrl_frame where
  "BLANK_CTRL = \<lparr>kind = Block, pc_start = 0, end_pc = 0\<rparr>"

record frame =
  body_idx :: nat
  pc :: nat
  locals :: "i64 arr"
  local_count :: nat
  ctrl_base :: nat
  vsp_base :: nat
  result_count :: nat

definition BLANK_FRAME :: frame where
  "BLANK_FRAME = \<lparr>body_idx = 0, pc = 0, locals = (\<lambda>_. 0), local_count = 0, ctrl_base = 0, vsp_base = 0,
     result_count = 0\<rparr>"

text \<open>
  The statics of \<open>interp.rs\<close> (\<open>OPCODE_COUNT\<close>, \<open>FUNC_CALL_COUNT\<close>) and the rest of the kernel's
  state, of any type \<open>'k\<close>.
\<close>

record 'k world =
  opcode_count :: u64
  func_call_count :: "u32 arr"
  kernel :: 'k

text \<open>
  A host function sees the value stack, the stack pointer, the linear memory (with its length) and
  the kernel, and may change them.
\<close>

record 'k host_state =
  h_vstack :: "i64 arr"
  h_vsp :: nat
  h_mem :: "u8 arr"
  h_mem_len :: nat
  h_world :: "'k world"

type_synonym 'k host_fn = "('k host_state, interp_error, unit) sm"

text \<open>Native code: memory, globals and locals in; a value, memory and globals out.\<close>

type_synonym jit_fn = "u8 arr \<Rightarrow> i64 arr \<Rightarrow> i64 arr \<Rightarrow> i64 \<times> u8 arr \<times> i64 arr"

record 'k interp =
  bodies :: "bytes arr"
  body_count :: nat
  local_counts :: "nat arr"
  type_param_counts :: "nat arr"
  type_result_counts :: "nat arr"
  type_count :: nat
  func_type_indices :: "nat arr"
  all_func_types :: "nat arr"
  import_count :: nat
  table :: "u32 arr"
  table_size :: nat
  vstack :: "i64 arr"
  vsp :: nat
  frames :: "frame arr"
  fdepth :: nat
  ctrl :: "ctrl_frame arr"
  ctrl_depth :: nat
  globals :: "i64 arr"
  global_mutable :: "bool arr"
  global_count :: nat
  mem :: "u8 arr"
  mem_len :: nat
  host_fns :: "'k host_fn option arr"
  jit_fns :: "jit_fn option arr"
  jump_table :: Jump_Table.jump_table
  current_pages :: u32
  max_pages :: u32
  yield_requested :: bool
  shadow_stop_fdepth :: nat
  world :: "'k world"

type_synonym ('k, 'a) im = "('k interp, interp_error, 'a) sm"

section \<open>Construction\<close>

text \<open>
  \<open>if let Some(sec) = section { parse(sec)? } else { default }\<close>.
\<close>

primrec opt_section :: "bytes option \<Rightarrow> (bytes \<Rightarrow> (interp_error, 'a) result) \<Rightarrow> 'a \<Rightarrow> (interp_error, 'a) result" where
  "opt_section None f d = Ok d"
| "opt_section (Some sec) f d = f sec"

lemma opt_section_eq_Ok:
  "opt_section x f d = Ok v \<longleftrightarrow> x = None \<and> v = d \<or> (\<exists>sec. x = Some sec \<and> f sec = Ok v)"
  by (cases x) auto

text \<open>\<open>for i in 0..body_count { all_func_types[import_count + i] = func_type_indices[i] }\<close>\<close>

definition fill_func_types :: "nat \<Rightarrow> nat \<Rightarrow> nat arr \<Rightarrow> nat arr \<Rightarrow> nat arr" where
  "fill_func_types n_imports n_bodies fti aft =
     fold (\<lambda>i aft. if n_imports + i < MAX_FUNCS then aft(n_imports + i := fti i) else aft)
       [0..<n_bodies] aft"

definition interp_new :: "module \<Rightarrow> nat \<Rightarrow> u8 arr \<Rightarrow> nat \<Rightarrow> 'k host_fn option arr \<Rightarrow> u32 \<Rightarrow> 'k world
    \<Rightarrow> (interp_error, 'k interp) result" where
  "interp_new m n_imports memory memory_len hosts initial_pages w =
     rbind (opt_section (type_section m)
        (\<lambda>tb. parse_type_section tb (\<lambda>_. 0) (\<lambda>_. 0)) (0, \<lambda>_. 0, \<lambda>_. 0))
        (\<lambda>(type_count, type_param_counts, type_result_counts).
     rbind (opt_section (function_section m) (\<lambda>fb. parse_function_section fb (\<lambda>_. 0)) (\<lambda>_. 0))
        (\<lambda>func_type_indices.
     rbind (ok_or (code_section m) NoCodeSection) (\<lambda>code_bytes.
     rbind (parse_code_section code_bytes (\<lambda>_. []) (\<lambda>_. 0)) (\<lambda>(body_count, bodies, local_counts).
     rbind (opt_section (global_section m)
        (\<lambda>gb. parse_global_section gb (\<lambda>_. 0) (\<lambda>_. False)) (0, \<lambda>_. 0, \<lambda>_. False))
        (\<lambda>(global_count, globals, global_mutable).
     rbind (opt_section (import_section m)
        (\<lambda>ib. rbind (parse_import_func_types ib (\<lambda>_. 0)) (\<lambda>(_, out). Ok out)) (\<lambda>_. 0)) (\<lambda>aft.
     rbind (opt_section (element_section m)
        (\<lambda>eb. parse_element_section eb (\<lambda>_. NULL_FUNC) 0) (\<lambda>_. NULL_FUNC, 0)) (\<lambda>(table, table_size).
     Ok \<lparr>bodies = bodies, body_count = body_count, local_counts = local_counts,
        type_param_counts = type_param_counts, type_result_counts = type_result_counts,
        type_count = type_count, func_type_indices = func_type_indices,
        all_func_types = fill_func_types n_imports body_count func_type_indices aft,
        import_count = n_imports, table = table, table_size = table_size,
        vstack = (\<lambda>_. 0), vsp = 0, frames = (\<lambda>_. BLANK_FRAME), fdepth = 0,
        ctrl = (\<lambda>_. BLANK_CTRL), ctrl_depth = 0,
        globals = globals, global_mutable = global_mutable, global_count = global_count,
        mem = memory, mem_len = memory_len, host_fns = hosts, jit_fns = (\<lambda>_. None),
        jump_table = build_jump_table bodies body_count,
        current_pages = initial_pages, max_pages = word_of_nat (memory_len div PAGE_SIZE),
        yield_requested = False, shadow_stop_fdepth = 0, world = w\<rparr>)))))))"

definition reset_for_call :: "'k interp \<Rightarrow> 'k interp" where
  "reset_for_call s = s\<lparr>vsp := 0, fdepth := 0, ctrl_depth := 0, yield_requested := False\<rparr>"

definition top :: "'k interp \<Rightarrow> i64 option" where
  "top s = (if vsp s > 0 then Some (vstack s (vsp s - 1)) else None)"

definition top_i32 :: "'k interp \<Rightarrow> i32 option" where
  "top_i32 s = (if vsp s > 0 then Some (ucast (vstack s (vsp s - 1))) else None)"

definition active_mem_bytes :: "'k interp \<Rightarrow> nat" where
  "active_mem_bytes s = unat (current_pages s) * PAGE_SIZE"

section \<open>Value stack\<close>

definition v_push :: "i64 \<Rightarrow> ('k, unit) im" where
  "v_push v = (\<lambda>s.
     if vsp s \<ge> STACK_DEPTH then (Err StackOverflow, s)
     else (Ok (), s\<lparr>vstack := (vstack s)(vsp s := v), vsp := vsp s + 1\<rparr>))"

definition v_pop :: "('k, i64) im" where
  "v_pop = (\<lambda>s.
     if vsp s = 0 then (Err StackUnderflow, s)
     else if vsp s - 1 \<ge> STACK_DEPTH then (Panic, s\<lparr>vsp := vsp s - 1\<rparr>)
     else (Ok (vstack s (vsp s - 1)), s\<lparr>vsp := vsp s - 1\<rparr>))"

section \<open>Calls, returns and branches\<close>

definition ctrl_push :: "ctrl_frame \<Rightarrow> ('k, unit) im" where
  "ctrl_push cf = (\<lambda>s.
     if ctrl_depth s \<ge> MAX_CTRL_DEPTH then (Err CtrlStackOverflow, s)
     else (Ok (), s\<lparr>ctrl := (ctrl s)(ctrl_depth s := cf), ctrl_depth := ctrl_depth s + 1\<rparr>))"

text \<open>\<open>for i in (0..param_count).rev() { locals[i] = self.v_pop()?; }\<close>\<close>

fun pop_params :: "nat \<Rightarrow> i64 arr \<Rightarrow> ('k, i64 arr) im" where
  "pop_params 0 l = ret l"
| "pop_params (Suc i) l = sbind v_pop (\<lambda>v. pop_params i (l(i := v)))"

definition type_arity :: "nat arr \<Rightarrow> nat \<Rightarrow> nat \<Rightarrow> nat" where
  "type_arity counts n_types type_idx = (if type_idx < n_types then counts type_idx else 0)"

definition push_frame :: "nat \<Rightarrow> ('k, unit) im" where
  "push_frame b =
     sbind (gets id) (\<lambda>s.
     if fdepth s \<ge> CALL_DEPTH then throw CallStackOverflow
     else if b \<ge> MAX_FUNCS then panic
     else
       let type_idx = func_type_indices s b;
           param_count = type_arity (type_param_counts s) (type_count s) type_idx;
           result_cnt = type_arity (type_result_counts s) (type_count s) type_idx;
           total_locals = param_count + local_counts s b in
       if total_locals > MAX_LOCALS then throw TooManyLocals
       else
         sbind (pop_params param_count (\<lambda>_. 0)) (\<lambda>ls.
         modify (\<lambda>s. s\<lparr>
           frames := (frames s)(fdepth s := \<lparr>body_idx = b, pc = 0, locals = ls,
             local_count = total_locals, ctrl_base = ctrl_depth s, vsp_base = vsp s,
             result_count = result_cnt\<rparr>),
           fdepth := fdepth s + 1\<rparr>)))"

text \<open>\<open>for i in 0..result_count { vstack[vsp_base + i] = vstack[src + i]; }\<close>, in that order.\<close>

fun copy_results :: "nat \<Rightarrow> nat \<Rightarrow> nat \<Rightarrow> nat \<Rightarrow> i64 arr \<Rightarrow> (interp_error, i64 arr) result" where
  "copy_results 0 i src base vs = Ok vs"
| "copy_results (Suc k) i src base vs =
     (if src + i \<ge> STACK_DEPTH \<or> base + i \<ge> STACK_DEPTH then Panic
      else copy_results k (i + 1) src base (vs(base + i := vs (src + i))))"

definition do_return :: "('k, unit) im" where
  "do_return = (\<lambda>s.
     if fdepth s = 0 \<or> fdepth s > CALL_DEPTH then (Panic, s)
     else
       let f = frames s (fdepth s - 1); src = vsp s - result_count f in
       case copy_results (result_count f) 0 src (vsp_base f) (vstack s) of
         Ok vs \<Rightarrow> (Ok (), s\<lparr>vstack := vs, vsp := vsp_base f + result_count f,
                   ctrl_depth := ctrl_base f, fdepth := fdepth s - 1\<rparr>)
       | _ \<Rightarrow> (Panic, s))"

definition set_pc :: "nat \<Rightarrow> nat \<Rightarrow> ('k, unit) im" where
  "set_pc fi p = modify (\<lambda>s. s\<lparr>frames := (frames s)(fi := (frames s fi)\<lparr>pc := p\<rparr>)\<rparr>)"

definition do_br :: "nat \<Rightarrow> ('k, unit) im" where
  "do_br n =
     sbind (gets id) (\<lambda>s.
     if fdepth s = 0 \<or> fdepth s > CALL_DEPTH then panic
     else
       let fi = fdepth s - 1; base = ctrl_base (frames s fi) in
       if ctrl_depth s < base then panic
       else if n \<ge> ctrl_depth s - base then do_return
       else
         let target_abs = ctrl_depth s - 1 - n in
         if target_abs \<ge> MAX_CTRL_DEPTH then panic
         else
           let cf = ctrl s target_abs in
           if kind cf = Loop then
             sthen (modify (\<lambda>s. s\<lparr>ctrl_depth := target_abs + 1\<rparr>)) (set_pc fi (pc_start cf))
           else
             sthen (modify (\<lambda>s. s\<lparr>ctrl_depth := target_abs\<rparr>)) (set_pc fi (end_pc cf + 1)))"

end
