(* ===== verification/Floats.thy ===== *)
theory Floats
  imports Prelude
begin

text \<open>
  The floating-point operations that the interpreter's opcodes use, on bit patterns. Rust's \<open>f32\<close>
  and \<open>f64\<close> are IEEE 754 binary32 and binary64: the basic operations are the exact result rounded to
  nearest, ties to even. Two things are not fixed by the language: the payload of a NaN result and the
  functions of the \<open>libm\<close> crate. Both are fields of the parameter \<open>float_env\<close>.
\<close>

section \<open>Formats and values\<close>

record fformat =
  man_bits :: nat
  exp_bits :: nat

definition F32 :: fformat where "F32 = \<lparr>man_bits = 23, exp_bits = 8\<rparr>"
definition F64 :: fformat where "F64 = \<lparr>man_bits = 52, exp_bits = 11\<rparr>"

text \<open>A decoded value: \<open>FFin s m e\<close> is \<open>(-1)^s * m * 2^e\<close> with \<open>m \<ge> 0\<close>.\<close>

datatype fval = FNaN | FInf bool | FFin bool int int

definition bias :: "fformat \<Rightarrow> int" where
  "bias f = 2 ^ (exp_bits f - 1) - 1"

definition emin :: "fformat \<Rightarrow> int" where
  "emin f = 1 - bias f - int (man_bits f)"

definition decode :: "fformat \<Rightarrow> int \<Rightarrow> fval" where
  "decode f n =
     (let man = n mod 2 ^ man_bits f;
          ex = (n div 2 ^ man_bits f) mod 2 ^ exp_bits f;
          s = odd (n div 2 ^ (man_bits f + exp_bits f)) in
      if ex = 2 ^ exp_bits f - 1 then (if man = 0 then FInf s else FNaN)
      else if ex = 0 then FFin s man (emin f)
      else FFin s (2 ^ man_bits f + man) (ex - bias f - int (man_bits f)))"

section \<open>Rounding\<close>

text \<open>\<open>m * 2^e\<close> as a fraction of integers.\<close>

definition scale :: "int \<Rightarrow> int \<Rightarrow> int" where
  "scale m e = (if 0 \<le> e then m * 2 ^ nat e else m)"

fun log2_int :: "int \<Rightarrow> int" where
  "log2_int n = (if n \<le> 1 then 0 else 1 + log2_int (n div 2))"

declare log2_int.simps [simp del]

text \<open>Round \<open>num / (den * 2^e)\<close> to the nearest integer, ties to even.\<close>

definition round_at :: "int \<Rightarrow> int \<Rightarrow> int \<Rightarrow> int" where
  "round_at num den e =
     (let n = scale num (- e); d = scale den e; q = n div d; r = n mod d in
      if 2 * r > d \<or> (2 * r = d \<and> odd q) then q + 1 else q)"

definition floor_at :: "int \<Rightarrow> int \<Rightarrow> int \<Rightarrow> int" where
  "floor_at num den e = scale num (- e) div scale den e"

text \<open>The bits of the positive number \<open>num/den\<close>, rounded; the sign is added by \<open>encode\<close>.\<close>

definition round_bits :: "fformat \<Rightarrow> int \<Rightarrow> int \<Rightarrow> int" where
  "round_bits f num den =
     (let e0 = log2_int num - log2_int den - int (man_bits f);
          e1 = (if floor_at num den e0 < 2 ^ man_bits f then e0 - 1 else e0);
          e = max e1 (emin f);
          m = round_at num den e;
          (m, e) = (if m = 2 ^ (man_bits f + 1) then (2 ^ man_bits f, e + 1) else (m, e)) in
      if m < 2 ^ man_bits f then m
      else
        let ex = e + bias f + int (man_bits f) in
        if ex \<ge> 2 ^ exp_bits f - 1 then (2 ^ exp_bits f - 1) * 2 ^ man_bits f
        else ex * 2 ^ man_bits f + (m - 2 ^ man_bits f))"

definition sign_bits :: "fformat \<Rightarrow> bool \<Rightarrow> int" where
  "sign_bits f s = (if s then 2 ^ (man_bits f + exp_bits f) else 0)"

definition inf_bits :: "fformat \<Rightarrow> bool \<Rightarrow> int" where
  "inf_bits f s = sign_bits f s + (2 ^ exp_bits f - 1) * 2 ^ man_bits f"

definition encode :: "fformat \<Rightarrow> bool \<Rightarrow> int \<Rightarrow> int \<Rightarrow> int" where
  "encode f s num den = sign_bits f s + (if num = 0 then 0 else round_bits f num den)"

text \<open>Encode \<open>(-1)^s * m * 2^e\<close>.\<close>

definition encode_scaled :: "fformat \<Rightarrow> bool \<Rightarrow> int \<Rightarrow> int \<Rightarrow> int" where
  "encode_scaled f s m e = encode f s (scale m e) (scale 1 (- e))"

section \<open>Arithmetic\<close>

text \<open>
  The arguments and results are bit patterns; \<open>nan\<close> is the NaN that the machine produces for these
  two operands.
\<close>

definition signed_man :: "bool \<Rightarrow> int \<Rightarrow> int" where
  "signed_man s m = (if s then - m else m)"

definition f_add :: "fformat \<Rightarrow> int \<Rightarrow> int \<Rightarrow> int \<Rightarrow> int" where
  "f_add f nan a b =
     (case (decode f a, decode f b) of
        (FNaN, _) \<Rightarrow> nan
      | (_, FNaN) \<Rightarrow> nan
      | (FInf s, FInf t) \<Rightarrow> if s = t then inf_bits f s else nan
      | (FInf s, _) \<Rightarrow> inf_bits f s
      | (_, FInf t) \<Rightarrow> inf_bits f t
      | (FFin s m e, FFin t n g) \<Rightarrow>
          let h = min e g;
              v = scale (signed_man s m) (e - h) + scale (signed_man t n) (g - h) in
          if v = 0 then sign_bits f (s \<and> t) else encode_scaled f (v < 0) \<bar>v\<bar> h)"

definition f_neg :: "fformat \<Rightarrow> int \<Rightarrow> int" where
  "f_neg f a = (let t = 2 ^ (man_bits f + exp_bits f) in if odd (a div t) then a - t else a + t)"

definition f_abs :: "fformat \<Rightarrow> int \<Rightarrow> int" where
  "f_abs f a = a mod 2 ^ (man_bits f + exp_bits f)"

definition f_sub :: "fformat \<Rightarrow> int \<Rightarrow> int \<Rightarrow> int \<Rightarrow> int" where
  "f_sub f nan a b = (if decode f b = FNaN then nan else f_add f nan a (f_neg f b))"

definition f_mul :: "fformat \<Rightarrow> int \<Rightarrow> int \<Rightarrow> int \<Rightarrow> int" where
  "f_mul f nan a b =
     (case (decode f a, decode f b) of
        (FNaN, _) \<Rightarrow> nan
      | (_, FNaN) \<Rightarrow> nan
      | (FInf s, FInf t) \<Rightarrow> inf_bits f (s \<noteq> t)
      | (FInf s, FFin t n g) \<Rightarrow> if n = 0 then nan else inf_bits f (s \<noteq> t)
      | (FFin s m e, FInf t) \<Rightarrow> if m = 0 then nan else inf_bits f (s \<noteq> t)
      | (FFin s m e, FFin t n g) \<Rightarrow> encode_scaled f (s \<noteq> t) (m * n) (e + g))"

definition f_div :: "fformat \<Rightarrow> int \<Rightarrow> int \<Rightarrow> int \<Rightarrow> int" where
  "f_div f nan a b =
     (case (decode f a, decode f b) of
        (FNaN, _) \<Rightarrow> nan
      | (_, FNaN) \<Rightarrow> nan
      | (FInf s, FInf t) \<Rightarrow> nan
      | (FInf s, FFin t n g) \<Rightarrow> inf_bits f (s \<noteq> t)
      | (FFin s m e, FInf t) \<Rightarrow> sign_bits f (s \<noteq> t)
      | (FFin s m e, FFin t n g) \<Rightarrow>
          if n = 0 then (if m = 0 then nan else inf_bits f (s \<noteq> t))
          else encode f (s \<noteq> t) (scale m (e - g)) (scale n (g - e)))"

section \<open>Comparison\<close>

text \<open>\<open>None\<close> when an operand is NaN; otherwise the sign of \<open>a - b\<close>.\<close>

definition f_cmp :: "fval \<Rightarrow> fval \<Rightarrow> int option" where
  "f_cmp x y =
     (case (x, y) of
        (FNaN, _) \<Rightarrow> None
      | (_, FNaN) \<Rightarrow> None
      | (FInf s, FInf t) \<Rightarrow> Some (if s = t then 0 else if s then - 1 else 1)
      | (FInf s, _) \<Rightarrow> Some (if s then - 1 else 1)
      | (_, FInf t) \<Rightarrow> Some (if t then 1 else - 1)
      | (FFin s m e, FFin t n g) \<Rightarrow>
          let h = min e g in
          Some (sgn (scale (signed_man s m) (e - h) - scale (signed_man t n) (g - h))))"

definition f_eq :: "fformat \<Rightarrow> int \<Rightarrow> int \<Rightarrow> bool" where
  "f_eq f a b \<longleftrightarrow> f_cmp (decode f a) (decode f b) = Some 0"

definition f_lt :: "fformat \<Rightarrow> int \<Rightarrow> int \<Rightarrow> bool" where
  "f_lt f a b \<longleftrightarrow> f_cmp (decode f a) (decode f b) = Some (- 1)"

definition f_le :: "fformat \<Rightarrow> int \<Rightarrow> int \<Rightarrow> bool" where
  "f_le f a b \<longleftrightarrow> f_lt f a b \<or> f_eq f a b"

section \<open>Conversions\<close>

definition int_to_float :: "fformat \<Rightarrow> int \<Rightarrow> int" where
  "int_to_float f n = encode f (n < 0) \<bar>n\<bar> 1"

text \<open>\<open>f as f32\<close> and \<open>f as f64\<close>.\<close>

definition float_to_float :: "fformat \<Rightarrow> fformat \<Rightarrow> int \<Rightarrow> int \<Rightarrow> int" where
  "float_to_float f g nan a =
     (case decode f a of
        FNaN \<Rightarrow> nan
      | FInf s \<Rightarrow> inf_bits g s
      | FFin s m e \<Rightarrow> encode_scaled g s m e)"

text \<open>Truncation towards zero of a finite value.\<close>

definition trunc_val :: "bool \<Rightarrow> int \<Rightarrow> int \<Rightarrow> int" where
  "trunc_val s m e = signed_man s (if 0 \<le> e then m * 2 ^ nat e else m div 2 ^ nat (- e))"

text \<open>
  The checked conversions of the interpreter: NaN, \<open>a >= hi\<close> and \<open>a < lo\<close> are refused, everything
  else is truncated. \<open>lo\<close> and \<open>hi\<close> are powers of two (or zero), exact in both formats.
\<close>

definition f_in_range :: "fformat \<Rightarrow> int \<Rightarrow> int \<Rightarrow> int \<Rightarrow> bool" where
  "f_in_range f a lo hi \<longleftrightarrow>
     (case (f_cmp (decode f a) (FFin (lo < 0) \<bar>lo\<bar> 0), f_cmp (decode f a) (FFin (hi < 0) \<bar>hi\<bar> 0)) of
        (Some x, Some y) \<Rightarrow> \<not> x < 0 \<and> y < 0
      | _ \<Rightarrow> False)"

definition float_to_int :: "fformat \<Rightarrow> int \<Rightarrow> int" where
  "float_to_int f a = (case decode f a of FFin s m e \<Rightarrow> trunc_val s m e | _ \<Rightarrow> 0)"

text \<open>\<open>trunc_sat\<close>: NaN gives 0, out of range gives the nearest bound.\<close>

definition float_to_int_sat :: "fformat \<Rightarrow> int \<Rightarrow> int \<Rightarrow> int \<Rightarrow> int" where
  "float_to_int_sat f a lo hi =
     (case f_cmp (decode f a) (FFin (hi < 0) \<bar>hi\<bar> 0) of
        None \<Rightarrow> 0
      | Some y \<Rightarrow>
          if \<not> y < 0 then hi - 1
          else if f_cmp (decode f a) (FFin (lo < 0) \<bar>lo\<bar> 0) = Some (- 1) then lo
          else float_to_int f a)"

section \<open>What the source takes from outside\<close>

record float_env =
  nan32 :: "int \<Rightarrow> int \<Rightarrow> int"
  nan64 :: "int \<Rightarrow> int \<Rightarrow> int"
  libm32_1 :: "u8 \<Rightarrow> u32 \<Rightarrow> u32"
  libm32_2 :: "u8 \<Rightarrow> u32 \<Rightarrow> u32 \<Rightarrow> u32"
  libm64_1 :: "u8 \<Rightarrow> u64 \<Rightarrow> u64"
  libm64_2 :: "u8 \<Rightarrow> u64 \<Rightarrow> u64 \<Rightarrow> u64"

end
