(* ===== verification/Byte_Order.thy ===== *)
theory Byte_Order
  imports Prelude
begin

text \<open>
  Integers and their bytes: Rust's \<open>to_le_bytes\<close>, \<open>from_le_bytes\<close> (guest memory, IP addresses as numbers) and
  \<open>to_be_bytes\<close>, \<open>from_be_bytes\<close> (network packets), with the round trips.
\<close>

section \<open>Little-endian integers\<close>

definition le_bytes32 :: "u32 \<Rightarrow> bytes" where
  "le_bytes32 w = map (\<lambda>i. ucast (drop_bit (8 * i) w)) [0, 1, 2, 3]"

definition le_bytes64 :: "u64 \<Rightarrow> bytes" where
  "le_bytes64 w = map (\<lambda>i. ucast (drop_bit (8 * i) w)) [0, 1, 2, 3, 4, 5, 6, 7]"

definition le_bytes16 :: "u16 \<Rightarrow> bytes" where
  "le_bytes16 w = map (\<lambda>i. ucast (drop_bit (8 * i) w)) [0, 1]"

primrec from_le :: "bytes \<Rightarrow> 'a::len word" where
  "from_le [] = 0"
| "from_le (b # bs) = ucast b OR push_bit 8 (from_le bs)"

lemma bit_from_le:
  "bit (from_le bs :: 'a::len word) n \<longleftrightarrow> n < LENGTH('a) \<and> n div 8 < length bs \<and> bit (bs ! (n div 8)) (n mod 8)"
proof (induction bs arbitrary: n)
  case Nil
  then show ?case by simp
next
  case (Cons b bs)
  show ?case
  proof (cases "n < 8")
    case True
    then show ?thesis by (auto simp: bit_simps dest: bit_imp_le_length)
  next
    case False
    then obtain m where m: "n = m + 8" by (metis add.commute le_Suc_ex linorder_not_less)
    have "(m + 8) div 8 = Suc (m div 8)" by simp
    moreover have "\<not> bit b (m + 8)" by (auto dest: bit_imp_le_length)
    ultimately show ?thesis unfolding m using Cons.IH [of m] by (auto simp: bit_simps dest: bit_imp_le_length)
  qed
qed

lemma le_bytes_upt:
  "le_bytes16 a = map (\<lambda>i. ucast (drop_bit (8 * i) a)) [0..<2]"
  "le_bytes32 b = map (\<lambda>i. ucast (drop_bit (8 * i) b)) [0..<4]"
  "le_bytes64 c = map (\<lambda>i. ucast (drop_bit (8 * i) c)) [0..<8]"
  by (simp_all add: le_bytes16_def le_bytes32_def le_bytes64_def upt_rec)

lemma length_le_bytes [simp]: "length (le_bytes16 a) = 2" "length (le_bytes32 b) = 4" "length (le_bytes64 c) = 8"
  by (simp_all add: le_bytes16_def le_bytes32_def le_bytes64_def)

lemma from_le_bytes:
  "LENGTH('a) \<le> 8 * n \<Longrightarrow> from_le (map (\<lambda>i. ucast (drop_bit (8 * i) (w :: 'a::len word)) :: u8) [0..<n]) = w"
  by (rule bit_word_eqI) (auto simp: bit_from_le bit_simps dest: bit_imp_le_length)

lemma from_le_le_bytes [simp]:
  "from_le (le_bytes16 a) = a" "from_le (le_bytes32 b) = b" "from_le (le_bytes64 c) = c" "from_le [d :: u8] = d"
  by (simp_all add: le_bytes_upt from_le_bytes del: upt.simps)

lemma le_bytes32_from_le:
  assumes "length bs = 4" shows "le_bytes32 (from_le bs) = bs"
proof (rule nth_equalityI)
  fix i assume "i < length (le_bytes32 (from_le bs))"
  then have "i < 4" by (simp add: le_bytes32_def)
  then have "ucast (drop_bit (8 * i) (from_le bs :: u32)) = bs ! i"
    using assms by (intro bit_word_eqI) (auto simp: bit_simps bit_from_le)
  with \<open>i < 4\<close> show "le_bytes32 (from_le bs) ! i = bs ! i" by (simp add: le_bytes_upt del: upt.simps)
qed (simp add: assms le_bytes32_def)

section \<open>Big-endian integers\<close>

definition be_bytes16 :: "u16 \<Rightarrow> bytes" where
  "be_bytes16 w = [ucast (drop_bit 8 w), ucast w]"

definition be_bytes32 :: "u32 \<Rightarrow> bytes" where
  "be_bytes32 w = [ucast (drop_bit 24 w), ucast (drop_bit 16 w), ucast (drop_bit 8 w), ucast w]"

definition from_be16 :: "u8 \<Rightarrow> u8 \<Rightarrow> u16" where
  "from_be16 a b = push_bit 8 (ucast a) OR ucast b"

definition from_be32 :: "u8 \<Rightarrow> u8 \<Rightarrow> u8 \<Rightarrow> u8 \<Rightarrow> u32" where
  "from_be32 a b c d = push_bit 24 (ucast a) OR push_bit 16 (ucast b) OR push_bit 8 (ucast c) OR ucast d"

lemma from_be16_bytes [simp]: "from_be16 (ucast (drop_bit 8 w)) (ucast w) = w"
  by (rule bit_word_eqI) (auto simp: from_be16_def bit_simps)

lemma from_be32_bytes [simp]:
  "from_be32 (ucast (drop_bit 24 w)) (ucast (drop_bit 16 w)) (ucast (drop_bit 8 w)) (ucast w) = w"
  by (rule bit_word_eqI) (auto simp: from_be32_def bit_simps, (rule ccontr, simp add: not_less)+)

lemma length_be_bytes [simp]: "length (be_bytes16 w) = 2" "length (be_bytes32 v) = 4"
  by (simp_all add: be_bytes16_def be_bytes32_def)

lemma unat_u8_less: "unat (b :: u8) < 256"
  by (rule order_less_le_trans [OF unsigned_less]) simp

lemma unat_u8_scaled: "256 * unat (b :: u8) \<le> 65280"
  using unat_u8_less [of b] by simp

lemma unat_ucast_u8: "unat (ucast (b :: u8) :: u32) = unat b"
  by (simp add: unsigned_ucast_eq take_bit_nat_eq_self order_less_trans [OF unat_u8_less])

end
