(* ===== verification/Numeric.thy ===== *)
theory Numeric
  imports Sections Floats Byte_Order
begin

text \<open>
  The value-level semantics of the numeric opcodes of \<open>Interpreter::run\<close>: what each opcode computes
  from the popped operands. Operands and results are 64-bit stack cells; \<open>v as i32\<close> and \<open>v as u32\<close>
  both take the low 32 bits, \<open>x as i64\<close> sign-extends an \<open>i32\<close> and zero-extends a \<open>u32\<close>. The
  tables are partial functions of the opcode byte, one per group of the source.
\<close>

section \<open>Rust's integer operations\<close>

definition low32 :: "i64 \<Rightarrow> u32" where "low32 v = ucast v"
definition of_i32 :: "u32 \<Rightarrow> i64" where "of_i32 v = scast v"
definition of_u32 :: "u32 \<Rightarrow> i64" where "of_u32 v = ucast v"
definition of_bool :: "bool \<Rightarrow> i64" where "of_bool b = (if b then 1 else 0)"

text \<open>Truncating signed division and remainder, wrapping at the minimum by minus one.\<close>

definition tdiv :: "int \<Rightarrow> int \<Rightarrow> int" where
  "tdiv a b = sgn a * sgn b * (\<bar>a\<bar> div \<bar>b\<bar>)"

definition wrapping_div :: "'a::len word \<Rightarrow> 'a word \<Rightarrow> 'a word" where
  "wrapping_div a b = word_of_int (tdiv (sint a) (sint b))"

definition wrapping_rem :: "'a::len word \<Rightarrow> 'a word \<Rightarrow> 'a word" where
  "wrapping_rem a b = word_of_int (sint a - tdiv (sint a) (sint b) * sint b)"

definition leading_zeros :: "'a::len word \<Rightarrow> nat" where
  "leading_zeros w = length (takeWhile (\<lambda>i. \<not> bit w i) (rev [0..<LENGTH('a)]))"

definition trailing_zeros :: "'a::len word \<Rightarrow> nat" where
  "trailing_zeros w = length (takeWhile (\<lambda>i. \<not> bit w i) [0..<LENGTH('a)])"

definition count_ones :: "'a::len word \<Rightarrow> nat" where
  "count_ones w = length (filter (bit w) [0..<LENGTH('a)])"

definition shamt32 :: "u32 \<Rightarrow> nat" where "shamt32 b = unat (b AND 31)"
definition shamt64 :: "u64 \<Rightarrow> nat" where "shamt64 b = unat (b AND 63)"

section \<open>i32\<close>

definition i32_compare :: "u8 \<Rightarrow> (u32 \<Rightarrow> u32 \<Rightarrow> bool) option" where
  "i32_compare op =
     (if op = 0x46 then Some (\<lambda>a b. a = b)
      else if op = 0x47 then Some (\<lambda>a b. a \<noteq> b)
      else if op = 0x48 then Some (\<lambda>a b. a <s b)
      else if op = 0x49 then Some (\<lambda>a b. a < b)
      else if op = 0x4A then Some (\<lambda>a b. b <s a)
      else if op = 0x4B then Some (\<lambda>a b. b < a)
      else if op = 0x4C then Some (\<lambda>a b. a \<le>s b)
      else if op = 0x4D then Some (\<lambda>a b. a \<le> b)
      else if op = 0x4E then Some (\<lambda>a b. b \<le>s a)
      else if op = 0x4F then Some (\<lambda>a b. b \<le> a)
      else None)"

definition i32_unary :: "u8 \<Rightarrow> (u32 \<Rightarrow> i64) option" where
  "i32_unary op =
     (if op = 0x45 then Some (\<lambda>a. of_bool (a = 0))
      else if op = 0x67 then Some (\<lambda>a. word_of_nat (leading_zeros a))
      else if op = 0x68 then Some (\<lambda>a. word_of_nat (trailing_zeros a))
      else if op = 0x69 then Some (\<lambda>a. word_of_nat (count_ones a))
      else if op = 0xC0 then Some (\<lambda>a. of_i32 (scast (ucast a :: u8)))
      else if op = 0xC1 then Some (\<lambda>a. of_i32 (scast (ucast a :: u16)))
      else None)"

definition i32_binary :: "u8 \<Rightarrow> (u32 \<Rightarrow> u32 \<Rightarrow> (interp_error, i64) result) option" where
  "i32_binary op =
     (if op = 0x6A then Some (\<lambda>a b. Ok (of_i32 (a + b)))
      else if op = 0x6B then Some (\<lambda>a b. Ok (of_i32 (a - b)))
      else if op = 0x6C then Some (\<lambda>a b. Ok (of_i32 (a * b)))
      else if op = 0x6D then Some (\<lambda>a b. if b = 0 then Err DivisionByZero else Ok (of_i32 (wrapping_div a b)))
      else if op = 0x6E then Some (\<lambda>a b. if b = 0 then Err DivisionByZero else Ok (of_u32 (a div b)))
      else if op = 0x6F then Some (\<lambda>a b. if b = 0 then Err DivisionByZero else Ok (of_i32 (wrapping_rem a b)))
      else if op = 0x70 then Some (\<lambda>a b. if b = 0 then Err DivisionByZero else Ok (of_u32 (a mod b)))
      else if op = 0x71 then Some (\<lambda>a b. Ok (of_i32 (a AND b)))
      else if op = 0x72 then Some (\<lambda>a b. Ok (of_i32 (a OR b)))
      else if op = 0x73 then Some (\<lambda>a b. Ok (of_i32 (a XOR b)))
      else if op = 0x74 then Some (\<lambda>a b. Ok (of_i32 (push_bit (shamt32 b) a)))
      else if op = 0x75 then Some (\<lambda>a b. Ok (of_i32 (signed_drop_bit (shamt32 b) a)))
      else if op = 0x76 then Some (\<lambda>a b. Ok (of_u32 (drop_bit (shamt32 b) a)))
      else if op = 0x77 then Some (\<lambda>a b. Ok (of_i32 (word_rotl (shamt32 b) a)))
      else if op = 0x78 then Some (\<lambda>a b. Ok (of_i32 (word_rotr (shamt32 b) a)))
      else None)"

section \<open>i64\<close>

definition i64_compare :: "u8 \<Rightarrow> (i64 \<Rightarrow> i64 \<Rightarrow> bool) option" where
  "i64_compare op =
     (if op = 0x51 then Some (\<lambda>a b. a = b)
      else if op = 0x52 then Some (\<lambda>a b. a \<noteq> b)
      else if op = 0x53 then Some (\<lambda>a b. a <s b)
      else if op = 0x54 then Some (\<lambda>a b. a < b)
      else if op = 0x55 then Some (\<lambda>a b. b <s a)
      else if op = 0x56 then Some (\<lambda>a b. b < a)
      else if op = 0x57 then Some (\<lambda>a b. a \<le>s b)
      else if op = 0x58 then Some (\<lambda>a b. a \<le> b)
      else if op = 0x59 then Some (\<lambda>a b. b \<le>s a)
      else if op = 0x5A then Some (\<lambda>a b. b \<le> a)
      else None)"

definition i64_unary :: "u8 \<Rightarrow> (i64 \<Rightarrow> i64) option" where
  "i64_unary op =
     (if op = 0x50 then Some (\<lambda>a. of_bool (a = 0))
      else if op = 0x79 then Some (\<lambda>a. word_of_nat (leading_zeros a))
      else if op = 0x7A then Some (\<lambda>a. word_of_nat (trailing_zeros a))
      else if op = 0x7B then Some (\<lambda>a. word_of_nat (count_ones a))
      else if op = 0xA7 then Some (\<lambda>a. of_i32 (low32 a))
      else if op = 0xAC then Some (\<lambda>a. of_i32 (low32 a))
      else if op = 0xAD then Some (\<lambda>a. of_u32 (low32 a))
      else if op = 0xC2 then Some (\<lambda>a. scast (ucast a :: u8))
      else if op = 0xC3 then Some (\<lambda>a. scast (ucast a :: u16))
      else if op = 0xC4 then Some (\<lambda>a. scast (ucast a :: u32))
      else None)"

definition i64_binary :: "u8 \<Rightarrow> (i64 \<Rightarrow> i64 \<Rightarrow> (interp_error, i64) result) option" where
  "i64_binary op =
     (if op = 0x7C then Some (\<lambda>a b. Ok (a + b))
      else if op = 0x7D then Some (\<lambda>a b. Ok (a - b))
      else if op = 0x7E then Some (\<lambda>a b. Ok (a * b))
      else if op = 0x7F then Some (\<lambda>a b.
        if b = 0 then Err DivisionByZero
        else if a = push_bit 63 1 \<and> b = - 1 then Err DivisionByZero
        else Ok (wrapping_div a b))
      else if op = 0x80 then Some (\<lambda>a b. if b = 0 then Err DivisionByZero else Ok (a div b))
      else if op = 0x81 then Some (\<lambda>a b. if b = 0 then Err DivisionByZero else Ok (wrapping_rem a b))
      else if op = 0x82 then Some (\<lambda>a b. if b = 0 then Err DivisionByZero else Ok (a mod b))
      else if op = 0x83 then Some (\<lambda>a b. Ok (a AND b))
      else if op = 0x84 then Some (\<lambda>a b. Ok (a OR b))
      else if op = 0x85 then Some (\<lambda>a b. Ok (a XOR b))
      else if op = 0x86 then Some (\<lambda>a b. Ok (push_bit (shamt64 b) a))
      else if op = 0x87 then Some (\<lambda>a b. Ok (signed_drop_bit (shamt64 b) a))
      else if op = 0x88 then Some (\<lambda>a b. Ok (drop_bit (shamt64 b) a))
      else if op = 0x89 then Some (\<lambda>a b. Ok (word_rotl (shamt64 b) a))
      else if op = 0x8A then Some (\<lambda>a b. Ok (word_rotr (shamt64 b) a))
      else None)"

section \<open>f32 and f64\<close>

definition bits32 :: "int \<Rightarrow> i64" where "bits32 n = of_u32 (word_of_int n)"
definition bits64 :: "int \<Rightarrow> i64" where "bits64 n = word_of_int n"

text \<open>Both comparison groups list \<open>==, !=, <, >, <=, >=\<close> in this order.\<close>

definition float_compare :: "fformat \<Rightarrow> u8 \<Rightarrow> int \<Rightarrow> int \<Rightarrow> bool" where
  "float_compare f k a b =
     (if k = 0 then f_eq f a b
      else if k = 1 then \<not> f_eq f a b
      else if k = 2 then f_lt f a b
      else if k = 3 then f_lt f b a
      else if k = 4 then f_le f a b
      else f_le f b a)"

definition f32_unary :: "float_env \<Rightarrow> u8 \<Rightarrow> (u32 \<Rightarrow> i64) option" where
  "f32_unary fe op =
     (if op = 0x8B then Some (\<lambda>a. bits32 (f_abs F32 (uint a)))
      else if op = 0x8C then Some (\<lambda>a. bits32 (f_neg F32 (uint a)))
      else if 0x8D \<le> op \<and> op \<le> 0x91 then Some (\<lambda>a. of_u32 (libm32_1 fe op a))
      else None)"

definition f32_binary :: "float_env \<Rightarrow> u8 \<Rightarrow> (u32 \<Rightarrow> u32 \<Rightarrow> i64) option" where
  "f32_binary fe op =
     (if 0x5B \<le> op \<and> op \<le> 0x60 then Some (\<lambda>a b. of_bool (float_compare F32 (op - 0x5B) (uint a) (uint b)))
      else if op = 0x92 then Some (\<lambda>a b. bits32 (f_add F32 (nan32 fe (uint a) (uint b)) (uint a) (uint b)))
      else if op = 0x93 then Some (\<lambda>a b. bits32 (f_sub F32 (nan32 fe (uint a) (uint b)) (uint a) (uint b)))
      else if op = 0x94 then Some (\<lambda>a b. bits32 (f_mul F32 (nan32 fe (uint a) (uint b)) (uint a) (uint b)))
      else if op = 0x95 then Some (\<lambda>a b. bits32 (f_div F32 (nan32 fe (uint a) (uint b)) (uint a) (uint b)))
      else if 0x96 \<le> op \<and> op \<le> 0x98 then Some (\<lambda>a b. of_u32 (libm32_2 fe op a b))
      else None)"

definition f64_unary :: "float_env \<Rightarrow> u8 \<Rightarrow> (u64 \<Rightarrow> i64) option" where
  "f64_unary fe op =
     (if op = 0x99 then Some (\<lambda>a. bits64 (f_abs F64 (uint a)))
      else if op = 0x9A then Some (\<lambda>a. bits64 (f_neg F64 (uint a)))
      else if 0x9B \<le> op \<and> op \<le> 0x9F then Some (\<lambda>a. libm64_1 fe op a)
      else None)"

definition f64_binary :: "float_env \<Rightarrow> u8 \<Rightarrow> (u64 \<Rightarrow> u64 \<Rightarrow> i64) option" where
  "f64_binary fe op =
     (if 0x61 \<le> op \<and> op \<le> 0x66 then Some (\<lambda>a b. of_bool (float_compare F64 (op - 0x61) (uint a) (uint b)))
      else if op = 0xA0 then Some (\<lambda>a b. bits64 (f_add F64 (nan64 fe (uint a) (uint b)) (uint a) (uint b)))
      else if op = 0xA1 then Some (\<lambda>a b. bits64 (f_sub F64 (nan64 fe (uint a) (uint b)) (uint a) (uint b)))
      else if op = 0xA2 then Some (\<lambda>a b. bits64 (f_mul F64 (nan64 fe (uint a) (uint b)) (uint a) (uint b)))
      else if op = 0xA3 then Some (\<lambda>a b. bits64 (f_div F64 (nan64 fe (uint a) (uint b)) (uint a) (uint b)))
      else if 0xA4 \<le> op \<and> op \<le> 0xA6 then Some (\<lambda>a b. libm64_2 fe op a b)
      else None)"

section \<open>Conversions\<close>

text \<open>\<open>if a.is_nan() || a >= hi || a < lo { InvalidConversion } else { a as _ }\<close>\<close>

definition checked_trunc :: "fformat \<Rightarrow> int \<Rightarrow> int \<Rightarrow> (int \<Rightarrow> i64) \<Rightarrow> int \<Rightarrow> (interp_error, i64) result" where
  "checked_trunc f lo hi wrap a =
     (if f_in_range f a lo hi then Ok (wrap (float_to_int f a)) else Err InvalidConversion)"

definition trunc_op :: "u8 \<Rightarrow> (i64 \<Rightarrow> (interp_error, i64) result) option" where
  "trunc_op op =
     (if op = 0xA8 then Some (\<lambda>v. checked_trunc F32 (- (2 ^ 31)) (2 ^ 31) (\<lambda>n. of_i32 (word_of_int n)) (uint (low32 v)))
      else if op = 0xA9 then Some (\<lambda>v. checked_trunc F32 0 (2 ^ 32) (\<lambda>n. of_u32 (word_of_int n)) (uint (low32 v)))
      else if op = 0xAA then Some (\<lambda>v. checked_trunc F64 (- (2 ^ 31)) (2 ^ 31) (\<lambda>n. of_i32 (word_of_int n)) (uint v))
      else if op = 0xAB then Some (\<lambda>v. checked_trunc F64 0 (2 ^ 32) (\<lambda>n. of_u32 (word_of_int n)) (uint v))
      else if op = 0xAE then Some (\<lambda>v. checked_trunc F32 (- (2 ^ 63)) (2 ^ 63) word_of_int (uint (low32 v)))
      else if op = 0xAF then Some (\<lambda>v. checked_trunc F32 0 (2 ^ 64) word_of_int (uint (low32 v)))
      else if op = 0xB0 then Some (\<lambda>v. checked_trunc F64 (- (2 ^ 63)) (2 ^ 63) word_of_int (uint v))
      else if op = 0xB1 then Some (\<lambda>v. checked_trunc F64 0 (2 ^ 64) word_of_int (uint v))
      else None)"

definition convert_op :: "float_env \<Rightarrow> u8 \<Rightarrow> (i64 \<Rightarrow> i64) option" where
  "convert_op fe op =
     (if op = 0xB2 then Some (\<lambda>v. bits32 (int_to_float F32 (sint (low32 v))))
      else if op = 0xB3 then Some (\<lambda>v. bits32 (int_to_float F32 (uint (low32 v))))
      else if op = 0xB4 then Some (\<lambda>v. bits32 (int_to_float F32 (sint v)))
      else if op = 0xB5 then Some (\<lambda>v. bits32 (int_to_float F32 (uint v)))
      else if op = 0xB6 then Some (\<lambda>v. bits32 (float_to_float F64 F32 (nan32 fe (uint v) (uint v)) (uint v)))
      else if op = 0xB7 then Some (\<lambda>v. bits64 (int_to_float F64 (sint (low32 v))))
      else if op = 0xB8 then Some (\<lambda>v. bits64 (int_to_float F64 (uint (low32 v))))
      else if op = 0xB9 then Some (\<lambda>v. bits64 (int_to_float F64 (sint v)))
      else if op = 0xBA then Some (\<lambda>v. bits64 (int_to_float F64 (uint v)))
      else if op = 0xBB then Some (\<lambda>v. bits64 (float_to_float F32 F64 (nan64 fe (uint (low32 v)) (uint (low32 v))) (uint (low32 v))))
      else None)"

text \<open>
  \<open>i32.reinterpret_f32\<close>: the bytes of the low half, little-endian, folded big-endian into a
  \<open>u32\<close> and byte-swapped.
\<close>

definition be_fold32 :: "bytes \<Rightarrow> u32" where
  "be_fold32 bs = fold (\<lambda>b acc. push_bit 8 acc OR ucast b) bs 0"

definition swap_bytes32 :: "u32 \<Rightarrow> u32" where
  "swap_bytes32 w = be_fold32 (le_bytes32 w)"

definition reinterpret_i32 :: "i64 \<Rightarrow> i64" where
  "reinterpret_i32 v = of_u32 (swap_bytes32 (be_fold32 (le_bytes32 (low32 v))))"

text \<open>The saturating conversions behind the \<open>0xFC\<close> prefix, sub-opcodes 0 to 7.\<close>

definition trunc_sat_op :: "u32 \<Rightarrow> (i64 \<Rightarrow> i64) option" where
  "trunc_sat_op sub =
     (if sub = 0 then Some (\<lambda>v. of_i32 (word_of_int (float_to_int_sat F32 (uint (low32 v)) (- (2 ^ 31)) (2 ^ 31))))
      else if sub = 1 then Some (\<lambda>v. of_u32 (word_of_int (float_to_int_sat F32 (uint (low32 v)) 0 (2 ^ 32))))
      else if sub = 2 then Some (\<lambda>v. of_i32 (word_of_int (float_to_int_sat F64 (uint v) (- (2 ^ 31)) (2 ^ 31))))
      else if sub = 3 then Some (\<lambda>v. of_u32 (word_of_int (float_to_int_sat F64 (uint v) 0 (2 ^ 32))))
      else if sub = 4 then Some (\<lambda>v. word_of_int (float_to_int_sat F32 (uint (low32 v)) (- (2 ^ 63)) (2 ^ 63)))
      else if sub = 5 then Some (\<lambda>v. word_of_int (float_to_int_sat F32 (uint (low32 v)) 0 (2 ^ 64)))
      else if sub = 6 then Some (\<lambda>v. word_of_int (float_to_int_sat F64 (uint v) (- (2 ^ 63)) (2 ^ 63)))
      else if sub = 7 then Some (\<lambda>v. word_of_int (float_to_int_sat F64 (uint v) 0 (2 ^ 64)))
      else None)"

section \<open>Byte order\<close>

lemma be_fold32_eq: "be_fold32 bs = from_le (rev bs)"
  by (induction bs rule: rev_induct) (simp_all add: be_fold32_def or.commute)

lemma swap_bytes_be_fold: "swap_bytes32 (be_fold32 (le_bytes32 v)) = v"
  by (simp add: swap_bytes32_def be_fold32_eq le_bytes32_from_le)

lemma low32_of [simp]: "low32 (of_i32 v) = v" "low32 (of_u32 v) = v"
  by (rule bit_word_eqI; simp add: low32_def of_i32_def of_u32_def bit_simps)+

section \<open>Properties\<close>

text \<open>
  The byte-by-byte \<open>i32.reinterpret_f32\<close> is a no-op on the low half of the cell: it pushes the
  32 bits zero-extended, the canonical representation of \<open>f32\<close> bits.
\<close>
theorem reinterpret_is_identity: "reinterpret_i32 v = of_u32 (low32 v)"
  by (simp add: reinterpret_i32_def swap_bytes_be_fold)

lemma sint_word_of_int_small:
  "- (2 ^ (LENGTH('a) - 1)) \<le> n \<Longrightarrow> n < 2 ^ (LENGTH('a) - 1) \<Longrightarrow> sint (word_of_int n :: 'a::len word) = n"
  by (simp add: signed_of_int signed_take_bit_int_eq_self)

lemma sint_bounds: "- (2 ^ (LENGTH('a) - 1)) \<le> sint (a :: 'a::len word)" "sint (a :: 'a::len word) < 2 ^ (LENGTH('a) - 1)"
  using sint_greater_eq [of a] sint_less [of a] by simp_all

lemma tdiv_mult: "b \<noteq> 0 \<Longrightarrow> tdiv a b * b = sgn a * (\<bar>b\<bar> * (\<bar>a\<bar> div \<bar>b\<bar>))"
  by (simp add: tdiv_def abs_sgn [of b] algebra_simps)

lemma tdiv_rem: "b \<noteq> 0 \<Longrightarrow> a - tdiv a b * b = sgn a * (\<bar>a\<bar> mod \<bar>b\<bar>)"
  by (simp add: tdiv_mult minus_mult_div_eq_mod [symmetric] right_diff_distrib sgn_mult_abs)

lemma tdiv_abs: "\<bar>tdiv a b\<bar> = (if b = 0 then 0 else \<bar>a\<bar> div \<bar>b\<bar>)"
  by (cases "a = 0") (simp_all add: tdiv_def abs_mult abs_sgn_eq pos_imp_zdiv_nonneg_iff)

text \<open>The quotient fits unless it is the negation of the minimum.\<close>

lemma sint_wrapping_div:
  fixes a b :: "'a::len word"
  assumes "b \<noteq> 0" and "\<not> (sint a = - (2 ^ (LENGTH('a) - 1)) \<and> sint b = - 1)"
  shows "sint (wrapping_div a b) = tdiv (sint a) (sint b)"
proof -
  let ?M = "2 ^ (LENGTH('a) - 1) :: int"
  note range = sint_bounds [of a]
  have "sint b \<noteq> 0" using assms(1) by (simp add: signed_eq_0_iff)
  then consider "sint b = 1" | "sint b = - 1" | "2 \<le> \<bar>sint b\<bar>" by linarith
  then have "- ?M \<le> tdiv (sint a) (sint b) \<and> tdiv (sint a) (sint b) < ?M"
  proof cases
    case 1
    with range show ?thesis by (simp add: tdiv_def sgn_mult_abs)
  next
    case 2
    then have "tdiv (sint a) (sint b) = - sint a" by (simp add: tdiv_def sgn_mult_abs)
    with range assms(2) 2 show ?thesis by linarith
  next
    case 3
    have "\<bar>sint a\<bar> div \<bar>sint b\<bar> \<le> \<bar>sint a\<bar> div 2" using 3 by (intro zdiv_mono2) auto
    also have "\<dots> < ?M" using range zero_less_power [of "2 :: int" "LENGTH('a) - 1"] by linarith
    finally have "\<bar>tdiv (sint a) (sint b)\<bar> < ?M" by (simp add: tdiv_abs)
    then show ?thesis by linarith
  qed
  then show ?thesis by (simp add: wrapping_div_def sint_word_of_int_small)
qed

lemma sint_wrapping_rem:
  fixes a b :: "'a::len word"
  assumes "b \<noteq> 0"
  shows "sint (wrapping_rem a b) = sgn (sint a) * (\<bar>sint a\<bar> mod \<bar>sint b\<bar>)"
proof -
  let ?r = "sgn (sint a) * (\<bar>sint a\<bar> mod \<bar>sint b\<bar>)" and ?M = "2 ^ (LENGTH('a) - 1) :: int"
  have b: "sint b \<noteq> 0" using assms by (simp add: signed_eq_0_iff)
  have "\<bar>?r\<bar> \<le> \<bar>sint a\<bar> mod \<bar>sint b\<bar>" using b by (simp add: abs_mult abs_sgn_eq)
  also have "\<dots> < \<bar>sint b\<bar>" using b by simp
  also have "\<dots> \<le> ?M" using sint_bounds [of b] by linarith
  finally have "- ?M \<le> ?r" "?r < ?M" by linarith+
  then have "sint (word_of_int ?r :: 'a word) = ?r" by (rule sint_word_of_int_small)
  then show ?thesis unfolding wrapping_rem_def tdiv_rem [OF b] .
qed

text \<open>
  \<open>i32.div_s\<close> and \<open>i32.rem_s\<close> compute truncated division: for a non-zero divisor (and but for
  the one quotient that does not fit) the pushed quotient and remainder recompose the dividend, the
  remainder is smaller than the divisor and has the sign of the dividend.
\<close>
theorem i32_div_rem_spec:
  assumes "b \<noteq> 0" and "\<not> (a = 0x80000000 \<and> b = - 1)"
  shows "\<exists>q r. map_option (\<lambda>f. f a b) (i32_binary 0x6D) = Some (Ok (of_i32 q))
     \<and> map_option (\<lambda>f. f a b) (i32_binary 0x6F) = Some (Ok (of_i32 r))
     \<and> sint a = sint q * sint b + sint r \<and> \<bar>sint r\<bar> < \<bar>sint b\<bar> \<and> (sint r \<noteq> 0 \<longrightarrow> sgn (sint r) = sgn (sint a))"
proof -
  have "sint a = - (2 ^ 31) \<Longrightarrow> a = 0x80000000" by (rule signed_word_eqI) simp
  moreover have "sint b = - 1 \<Longrightarrow> b = - 1" by (rule signed_word_eqI) simp
  ultimately have q: "sint (wrapping_div a b) = tdiv (sint a) (sint b)"
    using assms by (intro sint_wrapping_div) auto
  have r: "sint (wrapping_rem a b) = sgn (sint a) * (\<bar>sint a\<bar> mod \<bar>sint b\<bar>)"
    using assms(1) by (rule sint_wrapping_rem)
  have b: "sint b \<noteq> 0" using assms(1) by (simp add: signed_eq_0_iff)
  have "sint a = sint (wrapping_div a b) * sint b + sint (wrapping_rem a b)"
    unfolding q r using tdiv_rem [OF b, of "sint a"] by simp
  moreover have "\<bar>sint (wrapping_rem a b)\<bar> < \<bar>sint b\<bar>" using b by (simp add: r abs_mult abs_sgn_eq)
  moreover have "sgn (sint (wrapping_rem a b)) = sgn (sint a)" if "sint (wrapping_rem a b) \<noteq> 0"
    using that b unfolding r by (auto simp: sgn_mult sgn_1_pos less_le)
  ultimately show ?thesis
    using assms(1) by (intro exI [of _ "wrapping_div a b"] exI [of _ "wrapping_rem a b"]) (simp add: i32_binary_def)
qed

theorem i32_div_rem_spec_witness:
  "\<exists>q r. map_option (\<lambda>f. f (- 7) 2) (i32_binary 0x6D) = Some (Ok (of_i32 q))
     \<and> map_option (\<lambda>f. f (- 7) 2) (i32_binary 0x6F) = Some (Ok (of_i32 r))
     \<and> sint (- 7 :: i32) = sint q * sint (2 :: i32) + sint r \<and> \<bar>sint r\<bar> < \<bar>sint (2 :: i32)\<bar>"
proof -
  have "(2 :: i32) \<noteq> 0" and "\<not> ((- 7 :: i32) = 0x80000000 \<and> (2 :: i32) = - 1)" by simp_all
  from i32_div_rem_spec [OF this] show ?thesis by blast
qed

text \<open>
  The one quotient that does not fit: \<open>i64.div_s\<close> reports it as an error, \<open>i32.div_s\<close> wraps
  around to the minimum instead.
\<close>
theorem i32_div_s_overflow_wraps:
  "map_option (\<lambda>f. f 0x80000000 (- 1)) (i32_binary 0x6D) = Some (Ok (of_i32 0x80000000))
   \<and> map_option (\<lambda>f. f 0x8000000000000000 (- 1)) (i64_binary 0x7F) = Some (Err DivisionByZero)"
  by (simp add: i32_binary_def i64_binary_def wrapping_div_def tdiv_def)

text \<open>
  The unsigned \<open>i32\<close> operations leave a cell that is not the sign extension of its \<open>i32\<close>
  result: \<open>i32.div_u\<close> of \<open>0xFFFFFFFF\<close> by one pushes \<open>0x00000000FFFFFFFF\<close>, while \<open>i32.add\<close> pushes all
  ones for the same 32 bits.
\<close>
theorem i32_cells_not_canonical:
  "map_option (\<lambda>f. f 0xFFFFFFFF 1) (i32_binary 0x6E) = Some (Ok 0xFFFFFFFF)
   \<and> map_option (\<lambda>f. f 0xFFFFFFFF 0) (i32_binary 0x6A) = Some (Ok (- 1))"
  by (simp add: i32_binary_def of_u32_def of_i32_def)

end
