(* ===== verification/Dispatch.thy ===== *)
theory Dispatch
  imports Machine Numeric
begin

text \<open>
  The dispatch loop \<open>Interpreter::run\<close> of \<open>kernel/src/wasm/interp.rs\<close>. One iteration is \<open>step\<close>; each
  group of match arms is a handler. A handler gets the frame index \<open>fi\<close>, the hoisted body and the
  \<open>pc\<close> just past the opcode byte, and returns \<open>Some pc\<close> when control falls out of the match (the
  loop then writes the \<open>pc\<close> back to the frame) and \<open>None\<close> where the source says \<open>continue 'outer\<close>.
  The local \<open>active_mem\<close>, which caches \<open>current_pages * PAGE_SIZE\<close> and is refreshed by
  \<open>memory.grow\<close>, the only writer of \<open>current_pages\<close>, is \<open>active_mem_bytes\<close> here. The build modelled
  has the feature \<open>kernel_jit\<close> and not \<open>jit_shadow\<close>, the production configuration.
\<close>

section \<open>Building blocks\<close>

type_synonym 'k handler = "nat \<Rightarrow> bytes \<Rightarrow> nat \<Rightarrow> ('k, nat option) im"

definition next_pc :: "nat \<Rightarrow> ('k, nat option) im" where
  "next_pc p = ret (Some p)"

definition continue_outer :: "('k, nat option) im" where
  "continue_outer = ret None"

text \<open>An immediate read at \<open>&body[pc..]\<close>; the result carries the position after it.\<close>

definition imm_u32 :: "bytes \<Rightarrow> nat \<Rightarrow> ('k, u32 \<times> nat) im" where
  "imm_u32 body p = sbind (lift (read_u32_at body p MalformedCode)) (\<lambda>(v, n). ret (v, p + n))"

definition imm_memarg :: "bytes \<Rightarrow> nat \<Rightarrow> ('k, u32 \<times> nat) im" where
  "imm_memarg body p =
     sbind (lift (rbind (slice_from body p) (\<lambda>r. ok_or (read_memarg r) MalformedCode)))
       (\<lambda>(v, n). ret (v, p + n))"

section \<open>Structured control\<close>

definition op_block :: "block_kind \<Rightarrow> 'k handler" where
  "op_block k fi body p =
     (let pc_body = p + 1 in
      sbind (gets (\<lambda>s. block_target (jump_table s) body (body_idx (frames s fi)) pc_body MalformedCode)) (\<lambda>r.
      sbind (lift r) (\<lambda>(e, _).
      sthen (ctrl_push \<lparr>kind = k, pc_start = pc_body, end_pc = e\<rparr>)
      (next_pc pc_body))))"

definition op_if :: "'k handler" where
  "op_if fi body p =
     (let pc_body = p + 1 in
      sbind (gets (\<lambda>s. block_target (jump_table s) body (body_idx (frames s fi)) pc_body MalformedCode)) (\<lambda>r.
      sbind (lift r) (\<lambda>(e, else_at).
      sbind v_pop (\<lambda>cond.
      if cond \<noteq> 0 then
        sthen (ctrl_push \<lparr>kind = If, pc_start = pc_body, end_pc = e\<rparr>) (next_pc pc_body)
      else if else_at \<noteq> NO_ELSE then
        sthen (ctrl_push \<lparr>kind = If, pc_start = pc_body, end_pc = e\<rparr>) (next_pc (else_at + 1))
      else next_pc (e + 1)))))"

definition op_else :: "'k handler" where
  "op_else fi body p =
     sbind (gets id) (\<lambda>s.
     if ctrl_depth s = 0 \<or> ctrl_depth s > MAX_CTRL_DEPTH then panic
     else
       sthen (modify (\<lambda>s. s\<lparr>ctrl_depth := ctrl_depth s - 1\<rparr>))
       (next_pc (end_pc (ctrl s (ctrl_depth s - 1)) + 1)))"

definition op_end :: "'k handler" where
  "op_end fi body p =
     sbind (gets id) (\<lambda>s.
     if ctrl_depth s > ctrl_base (frames s fi) then
       sthen (modify (\<lambda>s. s\<lparr>ctrl_depth := ctrl_depth s - 1\<rparr>)) (next_pc p)
     else sthen do_return continue_outer)"

definition op_br :: "'k handler" where
  "op_br fi body p =
     sbind (imm_u32 body p) (\<lambda>(n, p').
     sthen (set_pc fi p') (sthen (do_br (unat n)) continue_outer))"

definition op_br_if :: "'k handler" where
  "op_br_if fi body p =
     sbind (imm_u32 body p) (\<lambda>(n, p').
     sbind v_pop (\<lambda>cond.
     if cond \<noteq> 0 then sthen (set_pc fi p') (sthen (do_br (unat n)) continue_outer)
     else next_pc p'))"

text \<open>
  \<open>for k in 0..=count { ... }\<close> of \<open>br_table\<close>: \<open>todo\<close> labels are left, the next has index
  \<open>k\<close>, and the label at index \<open>sel\<close> is kept.
\<close>

fun br_table_labels :: "bytes \<Rightarrow> nat \<Rightarrow> nat \<Rightarrow> nat \<Rightarrow> nat \<Rightarrow> u32 \<Rightarrow> (interp_error, u32 \<times> nat) result" where
  "br_table_labels body 0 k sel pos target = Ok (target, pos)"
| "br_table_labels body (Suc todo) k sel pos target =
     rbind (read_u32_at body pos MalformedCode) (\<lambda>(label, ln).
     br_table_labels body todo (k + 1) sel (pos + ln) (if k = sel then label else target))"

definition op_br_table :: "'k handler" where
  "op_br_table fi body p =
     sbind (imm_u32 body p) (\<lambda>(count, pos).
     sbind v_pop (\<lambda>v.
     let i = low32 v; sel = unat (if i < count then i else count) in
     sbind (lift (br_table_labels body (unat count + 1) 0 sel pos 0)) (\<lambda>(target, pos').
     sthen (set_pc fi pos') (sthen (do_br (unat target)) continue_outer))))"

definition op_return :: "'k handler" where
  "op_return fi body p = sthen do_return continue_outer"

section \<open>Parametric and variable instructions\<close>

definition op_drop :: "'k handler" where
  "op_drop fi body p = sthen v_pop (next_pc p)"

definition op_select :: "'k handler" where
  "op_select fi body p =
     sbind v_pop (\<lambda>cond. sbind v_pop (\<lambda>b. sbind v_pop (\<lambda>a.
     sthen (v_push (if cond \<noteq> 0 then a else b)) (next_pc p))))"

definition set_local :: "nat \<Rightarrow> nat \<Rightarrow> i64 \<Rightarrow> ('k, unit) im" where
  "set_local fi idx v = modify (\<lambda>s. s\<lparr>frames :=
     (frames s)(fi := (frames s fi)\<lparr>locals := (locals (frames s fi))(idx := v)\<rparr>)\<rparr>)"

definition op_local_get :: "'k handler" where
  "op_local_get fi body p =
     sbind (imm_u32 body p) (\<lambda>(idx, p').
     sbind (gets (\<lambda>s. frames s fi)) (\<lambda>f.
     if unat idx \<ge> local_count f then throw LocalIndexOutOfRange
     else if unat idx \<ge> MAX_LOCALS then panic
     else sthen (v_push (locals f (unat idx))) (next_pc p')))"

definition op_local_set :: "'k handler" where
  "op_local_set fi body p =
     sbind (imm_u32 body p) (\<lambda>(idx, p').
     sbind (gets (\<lambda>s. frames s fi)) (\<lambda>f.
     if unat idx \<ge> local_count f then throw LocalIndexOutOfRange
     else sbind v_pop (\<lambda>v.
       if unat idx \<ge> MAX_LOCALS then panic
       else sthen (set_local fi (unat idx) v) (next_pc p'))))"

definition op_local_tee :: "'k handler" where
  "op_local_tee fi body p =
     sbind (imm_u32 body p) (\<lambda>(idx, p').
     sbind (gets id) (\<lambda>s.
     if unat idx \<ge> local_count (frames s fi) then throw LocalIndexOutOfRange
     else if vsp s = 0 then throw StackUnderflow
     else if vsp s - 1 \<ge> STACK_DEPTH \<or> unat idx \<ge> MAX_LOCALS then panic
     else sthen (set_local fi (unat idx) (vstack s (vsp s - 1))) (next_pc p')))"

definition op_global_get :: "'k handler" where
  "op_global_get fi body p =
     sbind (imm_u32 body p) (\<lambda>(idx, p').
     sbind (gets id) (\<lambda>s.
     if unat idx \<ge> global_count s then throw GlobalIndexOutOfRange
     else if unat idx \<ge> MAX_GLOBALS then panic
     else sthen (v_push (globals s (unat idx))) (next_pc p')))"

definition op_global_set :: "'k handler" where
  "op_global_set fi body p =
     sbind (imm_u32 body p) (\<lambda>(idx, p').
     sbind (gets id) (\<lambda>s.
     if unat idx \<ge> global_count s then throw GlobalIndexOutOfRange
     else if unat idx \<ge> MAX_GLOBALS then panic
     else if \<not> global_mutable s (unat idx) then throw GlobalImmutable
     else sbind v_pop (\<lambda>v.
       sthen (modify (\<lambda>s. s\<lparr>globals := (globals s)(unat idx := v)\<rparr>)) (next_pc p'))))"

section \<open>Memory instructions\<close>

text \<open>What each load reads (its width) and how it widens it to a stack cell.\<close>

definition load_op :: "u8 \<Rightarrow> (nat \<times> (bytes \<Rightarrow> i64)) option" where
  "load_op op =
     (if op = 0x28 then Some (4, \<lambda>bs. of_i32 (from_le bs))
      else if op = 0x2D then Some (1, from_le)
      else if op = 0x29 then Some (8, from_le)
      else if op = 0x2A then Some (4, \<lambda>bs. of_u32 (from_le bs))
      else if op = 0x2B then Some (8, from_le)
      else if op = 0x2C then Some (1, \<lambda>bs. of_i32 (scast (from_le bs :: u8)))
      else if op = 0x2E then Some (2, \<lambda>bs. of_i32 (scast (from_le bs :: u16)))
      else if op = 0x2F then Some (2, \<lambda>bs. ucast (from_le bs :: u16))
      else if op = 0x30 then Some (1, \<lambda>bs. scast (from_le bs :: u8))
      else if op = 0x31 then Some (1, from_le)
      else if op = 0x32 then Some (2, \<lambda>bs. scast (from_le bs :: u16))
      else if op = 0x33 then Some (2, \<lambda>bs. ucast (from_le bs :: u16))
      else if op = 0x34 then Some (4, \<lambda>bs. of_i32 (from_le bs))
      else if op = 0x35 then Some (4, \<lambda>bs. of_u32 (from_le bs))
      else None)"

definition op_load :: "nat \<Rightarrow> (bytes \<Rightarrow> i64) \<Rightarrow> 'k handler" where
  "op_load n widen fi body p =
     sbind (imm_memarg body p) (\<lambda>(offset, p').
     sbind v_pop (\<lambda>a.
     let ea = unat (low32 a) + unat offset in
     sbind (gets id) (\<lambda>s.
     if ea + n > active_mem_bytes s then throw MemOutOfBounds
     else if ea + n > mem_len s then panic
     else sthen (v_push (widen (mem_read (mem s) ea n))) (next_pc p'))))"

text \<open>The bytes each store writes.\<close>

definition store_op :: "u8 \<Rightarrow> (nat \<times> (i64 \<Rightarrow> bytes)) option" where
  "store_op op =
     (if op = 0x36 then Some (4, \<lambda>v. le_bytes32 (low32 v))
      else if op = 0x3A then Some (1, \<lambda>v. [ucast v])
      else if op = 0x37 then Some (8, le_bytes64)
      else if op = 0x38 then Some (4, \<lambda>v. le_bytes32 (low32 v))
      else if op = 0x39 then Some (8, le_bytes64)
      else if op = 0x3B then Some (2, \<lambda>v. le_bytes16 (ucast v))
      else if op = 0x3C then Some (1, \<lambda>v. [ucast v])
      else if op = 0x3D then Some (2, \<lambda>v. le_bytes16 (ucast v))
      else if op = 0x3E then Some (4, \<lambda>v. le_bytes32 (low32 v))
      else None)"

definition op_store :: "nat \<Rightarrow> (i64 \<Rightarrow> bytes) \<Rightarrow> 'k handler" where
  "op_store n narrow fi body p =
     sbind (imm_memarg body p) (\<lambda>(offset, p').
     sbind v_pop (\<lambda>v.
     sbind v_pop (\<lambda>a.
     let ea = unat (low32 a) + unat offset in
     sbind (gets id) (\<lambda>s.
     if ea + n > active_mem_bytes s then throw MemOutOfBounds
     else if ea + n > mem_len s then panic
     else sthen (modify (\<lambda>s. s\<lparr>mem := mem_write (mem s) ea (narrow v)\<rparr>)) (next_pc p')))))"

definition op_memory_size :: "'k handler" where
  "op_memory_size fi body p =
     sbind (gets current_pages) (\<lambda>n. sthen (v_push (of_u32 n)) (next_pc (p + 1)))"

definition saturating_add_u32 :: "u32 \<Rightarrow> u32 \<Rightarrow> u32" where
  "saturating_add_u32 a b = (if unat a + unat b < 2 ^ 32 then a + b else - 1)"

definition op_memory_grow :: "'k handler" where
  "op_memory_grow fi body p =
     sbind v_pop (\<lambda>d.
     sbind (gets id) (\<lambda>s.
     let delta = low32 d; old = current_pages s in
     if saturating_add_u32 old delta \<le> max_pages s then
       if unat old + unat delta \<ge> 2 ^ 32 then panic
       else
         let old_bytes = unat old * PAGE_SIZE; new_bytes = unat (old + delta) * PAGE_SIZE in
         if new_bytes > mem_len s then panic
         else
           sthen (modify (\<lambda>s. s\<lparr>mem := mem_fill (mem s) old_bytes (new_bytes - old_bytes) 0,
                              current_pages := old + delta\<rparr>))
           (sthen (v_push (of_u32 old)) (next_pc (p + 1)))
     else sthen (v_push (- 1)) (next_pc (p + 1))))"

section \<open>Numeric instructions\<close>

definition op_i32_const :: "'k handler" where
  "op_i32_const fi body p =
     sbind (lift (read_i32_at body p MalformedCode)) (\<lambda>(v, n).
     sthen (v_push (of_i32 v)) (next_pc (p + n)))"

definition op_i64_const :: "'k handler" where
  "op_i64_const fi body p =
     sbind (lift (read_i64_at body p MalformedCode)) (\<lambda>(v, n).
     sthen (v_push v) (next_pc (p + n)))"

definition op_f32_const :: "'k handler" where
  "op_f32_const fi body p =
     (if p + 4 > length body then throw MalformedCode
      else sthen (v_push (of_u32 (from_le (take 4 (drop p body))))) (next_pc (p + 4)))"

definition op_f64_const :: "'k handler" where
  "op_f64_const fi body p =
     (if p + 8 > length body then throw MalformedCode
      else sthen (v_push (from_le (take 8 (drop p body)))) (next_pc (p + 8)))"

text \<open>
  Every other numeric opcode pops one or two cells and pushes one. \<open>numeric_unary\<close> and
  \<open>numeric_binary\<close> collect the tables of \<open>Numeric\<close>.
\<close>

definition or_else :: "'a option \<Rightarrow> 'a option \<Rightarrow> 'a option" where
  "or_else x y = (case x of None \<Rightarrow> y | Some _ \<Rightarrow> x)"

definition numeric_unary :: "float_env \<Rightarrow> u8 \<Rightarrow> (i64 \<Rightarrow> (interp_error, i64) result) option" where
  "numeric_unary fe op =
     or_else (map_option (\<lambda>f v. Ok (f (low32 v))) (i32_unary op))
    (or_else (map_option (\<lambda>f v. Ok (f v)) (i64_unary op))
    (or_else (map_option (\<lambda>f v. Ok (f (low32 v))) (f32_unary fe op))
    (or_else (map_option (\<lambda>f v. Ok (f v)) (f64_unary fe op))
    (or_else (trunc_op op)
    (or_else (map_option (\<lambda>f v. Ok (f v)) (convert_op fe op))
      (if op = 0xBC then Some (\<lambda>v. Ok (reinterpret_i32 v)) else None))))))"

definition numeric_binary :: "float_env \<Rightarrow> u8 \<Rightarrow> (i64 \<Rightarrow> i64 \<Rightarrow> (interp_error, i64) result) option" where
  "numeric_binary fe op =
     or_else (map_option (\<lambda>f a b. Ok (of_bool (f (low32 a) (low32 b)))) (i32_compare op))
    (or_else (map_option (\<lambda>f a b. Ok (of_bool (f a b))) (i64_compare op))
    (or_else (map_option (\<lambda>f a b. f (low32 a) (low32 b)) (i32_binary op))
    (or_else (i64_binary op)
    (or_else (map_option (\<lambda>f a b. Ok (f (low32 a) (low32 b))) (f32_binary fe op))
      (map_option (\<lambda>f a b. Ok (f a b)) (f64_binary fe op))))))"

definition op_unary :: "(i64 \<Rightarrow> (interp_error, i64) result) \<Rightarrow> 'k handler" where
  "op_unary f fi body p =
     sbind v_pop (\<lambda>a. sbind (lift (f a)) (\<lambda>v. sthen (v_push v) (next_pc p)))"

definition op_binary :: "(i64 \<Rightarrow> i64 \<Rightarrow> (interp_error, i64) result) \<Rightarrow> 'k handler" where
  "op_binary f fi body p =
     sbind v_pop (\<lambda>b. sbind v_pop (\<lambda>a. sbind (lift (f a b)) (\<lambda>v. sthen (v_push v) (next_pc p))))"

section \<open>The 0xFC prefix\<close>

definition saturating_add_usize :: "nat \<Rightarrow> nat \<Rightarrow> nat" where
  "saturating_add_usize a b = min (a + b) (2 ^ 64 - 1)"

definition op_memory_init :: "'k handler" where
  "op_memory_init fi body p =
     sbind (imm_u32 body p) (\<lambda>(_, p').
     sbind v_pop (\<lambda>count. sthen v_pop (sthen v_pop
     (if unat count \<noteq> 0 then throw (UnknownOpcode 0xFC) else next_pc (p' + 1)))))"

definition op_data_drop :: "'k handler" where
  "op_data_drop fi body p = sbind (imm_u32 body p) (\<lambda>(_, p'). next_pc p')"

definition op_memory_copy :: "'k handler" where
  "op_memory_copy fi body p =
     sbind v_pop (\<lambda>n. sbind v_pop (\<lambda>src. sbind v_pop (\<lambda>dst.
     sbind (gets id) (\<lambda>s.
     if saturating_add_usize (unat src) (unat n) > active_mem_bytes s
        \<or> saturating_add_usize (unat dst) (unat n) > active_mem_bytes s then throw MemOutOfBounds
     else if unat src + unat n > mem_len s \<or> unat dst + unat n > mem_len s then panic
     else
       sthen (modify (\<lambda>s. s\<lparr>mem := mem_write (mem s) (unat dst) (mem_read (mem s) (unat src) (unat n))\<rparr>))
       (next_pc (p + 2))))))"

definition op_memory_fill :: "'k handler" where
  "op_memory_fill fi body p =
     sbind v_pop (\<lambda>n. sbind v_pop (\<lambda>v. sbind v_pop (\<lambda>dst.
     sbind (gets id) (\<lambda>s.
     if saturating_add_usize (unat dst) (unat n) > active_mem_bytes s then throw MemOutOfBounds
     else if unat dst + unat n > mem_len s then panic
     else
       sthen (modify (\<lambda>s. s\<lparr>mem := mem_fill (mem s) (unat dst) (unat n) (ucast v)\<rparr>))
       (next_pc (p + 1))))))"

definition op_prefix_fc :: "'k handler" where
  "op_prefix_fc fi body p =
     sbind (imm_u32 body p) (\<lambda>(sub, p').
     case trunc_sat_op sub of
       Some f \<Rightarrow> op_unary (\<lambda>v. Ok (f v)) fi body p'
     | None \<Rightarrow>
         if sub = 8 then op_memory_init fi body p'
         else if sub = 9 then op_data_drop fi body p'
         else if sub = 10 then op_memory_copy fi body p'
         else if sub = 11 then op_memory_fill fi body p'
         else throw (UnknownOpcode 0xFC))"

section \<open>Calls\<close>

definition count_call :: "nat \<Rightarrow> ('k, unit) im" where
  "count_call callee =
     (if callee < MAX_FUNCS then
        modify (\<lambda>s. s\<lparr>world := (world s)\<lparr>func_call_count :=
          (func_call_count (world s))(callee := saturating_add_u32 (func_call_count (world s) callee) 1)\<rparr>\<rparr>)
      else ret ())"

text \<open>
  \<open>host(&mut self.vstack, &mut self.vsp, &mut *self.mem)\<close>: the memory slice keeps its length.
\<close>

definition run_host :: "'k host_fn \<Rightarrow> ('k, unit) im" where
  "run_host h = (\<lambda>s.
     case h \<lparr>h_vstack = vstack s, h_vsp = vsp s, h_mem = mem s, h_mem_len = mem_len s, h_world = world s\<rparr> of
       (r, st) \<Rightarrow> (r, s\<lparr>vstack := h_vstack st, vsp := h_vsp st, mem := h_mem st, world := h_world st\<rparr>))"

definition call_host :: "nat \<Rightarrow> ('k, unit) im" where
  "call_host callee =
     sbind (gets (\<lambda>s. host_fns s)) (\<lambda>hosts.
     if callee \<ge> MAX_FUNCS then panic
     else case hosts callee of None \<Rightarrow> throw ImportNotFound | Some h \<Rightarrow> run_host h)"

text \<open>\<open>for i in (0..n_params).rev() { locals[i] = self.v_pop()?; }\<close> into a buffer of \<open>MAX_LOCALS\<close> cells.\<close>

fun pop_jit_params :: "nat \<Rightarrow> i64 arr \<Rightarrow> ('k, i64 arr) im" where
  "pop_jit_params 0 l = ret l"
| "pop_jit_params (Suc i) l =
     sbind v_pop (\<lambda>v. if i \<ge> MAX_LOCALS then panic else pop_jit_params i (l(i := v)))"

definition call_jit :: "jit_fn \<Rightarrow> nat \<Rightarrow> ('k, unit) im" where
  "call_jit f callee =
     sbind (gets id) (\<lambda>s.
     let type_idx = all_func_types s callee;
         n_params = type_arity (type_param_counts s) (type_count s) type_idx;
         n_results = type_arity (type_result_counts s) (type_count s) type_idx in
     if vsp s < n_params then throw StackUnderflow
     else
       sbind (pop_jit_params n_params (\<lambda>_. 0)) (\<lambda>ls.
       sbind (gets id) (\<lambda>s.
       case f (mem s) (globals s) ls of (r, m, g) \<Rightarrow>
         sthen (modify (\<lambda>s. s\<lparr>mem := m, globals := g\<rparr>))
         (if n_results > 0 then v_push r else ret ()))))"

text \<open>The part of \<open>call\<close> after the return address is saved, and the same part of \<open>call_indirect\<close>.\<close>

definition enter_callee :: "nat \<Rightarrow> ('k, nat option) im" where
  "enter_callee callee =
     sbind (gets id) (\<lambda>s.
     if callee < import_count s then sthen (call_host callee) continue_outer
     else
       let callee_body = callee - import_count s in
       if callee_body \<ge> body_count s then throw FuncIndexOutOfRange
       else if callee \<ge> MAX_FUNCS then panic
       else case jit_fns s callee of
         Some f \<Rightarrow> sthen (call_jit f callee) continue_outer
       | None \<Rightarrow> sthen (push_frame callee_body) continue_outer)"

definition enter_indirect :: "nat \<Rightarrow> ('k, nat option) im" where
  "enter_indirect callee =
     sbind (gets id) (\<lambda>s.
     if callee < import_count s then sthen (call_host callee) continue_outer
     else
       let callee_body = callee - import_count s in
       if callee_body \<ge> body_count s then throw FuncIndexOutOfRange
       else sthen (push_frame callee_body) continue_outer)"

definition op_call :: "'k handler" where
  "op_call fi body p =
     sbind (imm_u32 body p) (\<lambda>(c, p').
     sthen (count_call (unat c)) (sthen (set_pc fi p') (enter_callee (unat c))))"

definition op_call_indirect :: "'k handler" where
  "op_call_indirect fi body p =
     sbind (imm_u32 body p) (\<lambda>(expected_type, p1).
     sbind (imm_u32 body p1) (\<lambda>(_, p').
     sbind v_pop (\<lambda>v.
     let i = unat (low32 v) in
     sbind (gets id) (\<lambda>s.
     if i \<ge> table_size s then throw IndirectCallNull
     else if i \<ge> MAX_TABLE then panic
     else if table s i = NULL_FUNC then throw IndirectCallNull
     else
       let callee = unat (table s i);
           actual_type = (if callee < MAX_FUNCS then all_func_types s callee else 2 ^ 64 - 1) in
       sthen (count_call callee)
       (if actual_type \<noteq> unat expected_type then throw IndirectCallTypeMismatch
        else sthen (set_pc fi p') (enter_indirect callee))))))"

section \<open>The loop\<close>

definition control_op :: "u8 \<Rightarrow> 'k handler option" where
  "control_op op =
     (if op = 0x01 then Some (\<lambda>fi body p. next_pc p)
      else if op = 0x00 then Some (\<lambda>fi body p. throw Unreachable)
      else if op = 0x02 then Some (op_block Block)
      else if op = 0x03 then Some (op_block Loop)
      else if op = 0x04 then Some op_if
      else if op = 0x05 then Some op_else
      else if op = 0x0B then Some op_end
      else if op = 0x0C then Some op_br
      else if op = 0x0D then Some op_br_if
      else if op = 0x0E then Some op_br_table
      else if op = 0x0F then Some op_return
      else if op = 0x10 then Some op_call
      else if op = 0x11 then Some op_call_indirect
      else None)"

definition variable_op :: "u8 \<Rightarrow> 'k handler option" where
  "variable_op op =
     (if op = 0x1A then Some op_drop
      else if op = 0x1B then Some op_select
      else if op = 0x20 then Some op_local_get
      else if op = 0x21 then Some op_local_set
      else if op = 0x22 then Some op_local_tee
      else if op = 0x23 then Some op_global_get
      else if op = 0x24 then Some op_global_set
      else None)"

definition memory_op :: "u8 \<Rightarrow> 'k handler option" where
  "memory_op op =
     or_else (map_option (\<lambda>(n, w). op_load n w) (load_op op))
    (or_else (map_option (\<lambda>(n, w). op_store n w) (store_op op))
      (if op = 0x3F then Some op_memory_size
       else if op = 0x40 then Some op_memory_grow
       else if op = 0xFC then Some op_prefix_fc
       else None))"

definition numeric_op :: "float_env \<Rightarrow> u8 \<Rightarrow> 'k handler option" where
  "numeric_op fe op =
     or_else
      (if op = 0x41 then Some op_i32_const
       else if op = 0x42 then Some op_i64_const
       else if op = 0x43 then Some op_f32_const
       else if op = 0x44 then Some op_f64_const
       else if 0xBD \<le> op \<and> op \<le> 0xBF then Some (\<lambda>fi body p. next_pc p)
       else None)
    (or_else (map_option op_unary (numeric_unary fe op))
      (map_option op_binary (numeric_binary fe op)))"

definition dispatch :: "float_env \<Rightarrow> u8 \<Rightarrow> 'k handler" where
  "dispatch fe op =
     (case or_else (control_op op) (or_else (variable_op op) (or_else (memory_op op) (numeric_op fe op))) of
        Some h \<Rightarrow> h
      | None \<Rightarrow> (\<lambda>fi body p. throw (UnknownOpcode op)))"

definition count_opcode :: "'k interp \<Rightarrow> 'k interp" where
  "count_opcode s = s\<lparr>world := (world s)\<lparr>opcode_count := opcode_count (world s) + 1\<rparr>\<rparr>"

text \<open>One iteration of \<open>'outer\<close>, with a frame on the call stack.\<close>

definition step :: "float_env \<Rightarrow> ('k, unit) im" where
  "step fe =
     sbind (gets id) (\<lambda>s.
     if yield_requested s then
       sthen (modify (\<lambda>s. s\<lparr>yield_requested := False\<rparr>)) (throw Yielded)
     else if fdepth s = 0 \<or> fdepth s > CALL_DEPTH then panic
     else
       let fi = fdepth s - 1; b = body_idx (frames s fi); p = pc (frames s fi) in
       if b \<ge> MAX_FUNCS then panic
       else
         let body = bodies s b in
         if p \<ge> length body then do_return
         else
           sthen (modify count_opcode)
           (sbind (dispatch fe (body ! p) fi body (p + 1)) (\<lambda>next.
            case next of Some p' \<Rightarrow> set_pc fi p' | None \<Rightarrow> ret ())))"

text \<open>
  \<open>run\<close> executes at most \<open>fuel\<close> iterations; \<open>Hang\<close> says that it has not returned by then. A program
  may loop forever, so no bound serves all programs: the outcome is the same for all larger \<open>fuel\<close>
  once it is not \<open>Hang\<close>.
\<close>

fun run :: "nat \<Rightarrow> float_env \<Rightarrow> ('k, unit) im" where
  "run 0 fe s = (if fdepth s > shadow_stop_fdepth s then (Hang, s) else (Ok (), s))"
| "run (Suc fuel) fe s =
     (if fdepth s > shadow_stop_fdepth s then sthen (step fe) (run fuel fe) s else (Ok (), s))"

definition call :: "nat \<Rightarrow> float_env \<Rightarrow> nat \<Rightarrow> ('k, unit) im" where
  "call fuel fe func_idx =
     sbind (gets id) (\<lambda>s.
     if func_idx < import_count s then throw ImportNotFound
     else if func_idx - import_count s \<ge> body_count s then throw FuncIndexOutOfRange
     else sthen (push_frame (func_idx - import_count s)) (run fuel fe))"

definition resume :: "nat \<Rightarrow> float_env \<Rightarrow> ('k, unit) im" where
  "resume fuel fe = run fuel fe"

end
