(* ===== verification/Execution.thy ===== *)
theory Execution
  imports Dispatch
begin

text \<open>
  Properties of the dispatch loop: how opcodes decode to handlers, the invariant of the machine, what
  a step may change, when it can panic, calls and returns, branches, fuel, and the suspension of a
  computation by a host function.
\<close>

section \<open>Decoding\<close>

lemmas dispatch_tables = dispatch_def control_op_def variable_op_def memory_op_def numeric_op_def or_else_def
  numeric_unary_def numeric_binary_def load_op_def store_op_def i32_unary_def i64_unary_def f32_unary_def
  f64_unary_def trunc_op_def convert_op_def i32_binary_def i64_binary_def i32_compare_def i64_compare_def

lemma dispatch_control [simp]:
  "dispatch fe 0x00 = (\<lambda>fi body p. throw Unreachable)"
  "dispatch fe 0x01 = (\<lambda>fi body p. next_pc p)"
  "dispatch fe 0x02 = op_block Block"
  "dispatch fe 0x03 = op_block Loop"
  "dispatch fe 0x04 = op_if"
  "dispatch fe 0x05 = op_else"
  "dispatch fe 0x0B = op_end"
  "dispatch fe 0x0C = op_br"
  "dispatch fe 0x0D = op_br_if"
  "dispatch fe 0x0E = op_br_table"
  "dispatch fe 0x0F = op_return"
  "dispatch fe 0x10 = op_call"
  "dispatch fe 0x11 = op_call_indirect"
  by (simp_all add: dispatch_def control_op_def or_else_def)

lemma dispatch_variable [simp]:
  "dispatch fe 0x1A = op_drop"
  "dispatch fe 0x1B = op_select"
  "dispatch fe 0x20 = op_local_get"
  "dispatch fe 0x21 = op_local_set"
  "dispatch fe 0x22 = op_local_tee"
  "dispatch fe 0x23 = op_global_get"
  "dispatch fe 0x24 = op_global_set"
  "dispatch fe 0x3F = op_memory_size"
  "dispatch fe 0x40 = op_memory_grow"
  "dispatch fe 0x41 = op_i32_const"
  "dispatch fe 0x42 = op_i64_const"
  "dispatch fe 0xFC = op_prefix_fc"
  by (simp_all add: dispatch_tables)

lemma dispatch_i32 [simp]:
  "dispatch fe 0x6A = op_binary (\<lambda>a b. Ok (of_i32 (low32 a + low32 b)))"
  "dispatch fe 0x6B = op_binary (\<lambda>a b. Ok (of_i32 (low32 a - low32 b)))"
  "dispatch fe 0x6C = op_binary (\<lambda>a b. Ok (of_i32 (low32 a * low32 b)))"
  by (simp_all add: dispatch_tables)

lemma dispatch_load: "load_op op = Some (n, w) \<Longrightarrow> dispatch fe op = op_load n w"
  by (auto simp: load_op_def dispatch_def memory_op_def control_op_def variable_op_def or_else_def split: if_splits)

lemma dispatch_store: "store_op op = Some (n, w) \<Longrightarrow> dispatch fe op = op_store n w"
  by (auto simp: store_op_def load_op_def dispatch_def memory_op_def control_op_def variable_op_def or_else_def
      split: if_splits)

text \<open>
  Induction-free case analysis over the handlers: a property of every handler holds of whatever an
  opcode decodes to.
\<close>

lemma or_else_Some: "or_else x y = Some h \<longleftrightarrow> x = Some h \<or> x = None \<and> y = Some h"
  by (cases x) (auto simp: or_else_def)

lemma dispatch_cases:
  assumes control: "\<And>h. control_op op = Some h \<Longrightarrow> P h"
    and variable: "\<And>h. variable_op op = Some h \<Longrightarrow> P h"
    and memory: "\<And>h. memory_op op = Some h \<Longrightarrow> P h"
    and const: "op = 0x41 \<Longrightarrow> P op_i32_const" "op = 0x42 \<Longrightarrow> P op_i64_const"
      "op = 0x43 \<Longrightarrow> P op_f32_const" "op = 0x44 \<Longrightarrow> P op_f64_const"
    and nop: "P (\<lambda>fi body p. next_pc p)"
    and unary: "\<And>f. P (op_unary f)"
    and binary: "\<And>f. P (op_binary f)"
    and unknown: "P (\<lambda>fi body p. throw (UnknownOpcode op))"
  shows "P (dispatch fe op)"
proof (cases "or_else (control_op op) (or_else (variable_op op) (or_else (memory_op op)
    (numeric_op fe op :: 'a handler option)))")
  case None
  then show ?thesis by (simp add: dispatch_def unknown)
next
  case (Some h)
  have "P h" if "numeric_op fe op = Some h"
    using that const nop unary binary by (auto simp: numeric_op_def or_else_Some split: if_splits)
  with Some have "P h" by (auto simp: or_else_Some intro: control variable memory)
  with Some show ?thesis by (simp add: dispatch_def)
qed

lemma memory_op_cases:
  assumes "memory_op op = Some h"
    and "\<And>n w. load_op op = Some (n, w) \<Longrightarrow> P (op_load n w)"
    and "\<And>n w. store_op op = Some (n, w) \<Longrightarrow> P (op_store n w)"
    and "op = 0x3F \<Longrightarrow> P op_memory_size" and "op = 0x40 \<Longrightarrow> P op_memory_grow" and "op = 0xFC \<Longrightarrow> P op_prefix_fc"
  shows "P h"
  using assms by (auto simp: memory_op_def or_else_Some split: if_splits)

lemma step_running:
  assumes "\<not> yield_requested s" "fdepth s = Suc fi" "Suc fi \<le> CALL_DEPTH"
    "body_idx (frames s fi) < MAX_FUNCS" "pc (frames s fi) < length (bodies s (body_idx (frames s fi)))"
  shows "step fe s =
     sbind (dispatch fe (bodies s (body_idx (frames s fi)) ! pc (frames s fi)) fi
       (bodies s (body_idx (frames s fi))) (pc (frames s fi) + 1))
     (\<lambda>next. case next of Some p' \<Rightarrow> set_pc fi p' | None \<Rightarrow> ret ()) (count_opcode s)"
  using assms by (simp add: step_def sbind_def sthen_def gets_def modify_def Let_def)

lemma run_numeral:
  "run (numeral k) fe s =
     (if fdepth s > shadow_stop_fdepth s then sthen (step fe) (run (pred_numeral k) fe) s else (Ok (), s))"
  by (simp add: numeral_eq_Suc)

section \<open>The machine invariant\<close>

text \<open>
  What the code relies on without checking: stack pointers inside their arrays, active memory inside
  the slice (no slice is longer than \<open>isize::MAX\<close>), and call frames with a valid body and locals inside their array. A host function is
  trusted to leave the stack pointer inside the stack.
\<close>

definition frame_ok :: "frame \<Rightarrow> bool" where
  "frame_ok f \<longleftrightarrow> body_idx f < MAX_FUNCS \<and> local_count f \<le> MAX_LOCALS
     \<and> ctrl_base f \<le> MAX_CTRL_DEPTH \<and> vsp_base f \<le> STACK_DEPTH"

definition host_ok :: "'k host_fn \<Rightarrow> bool" where
  "host_ok h \<longleftrightarrow> (\<forall>st. h_vsp st \<le> STACK_DEPTH \<and> h_mem_len st < 2 ^ 63 \<longrightarrow> h_vsp (snd (h st)) \<le> STACK_DEPTH)"

definition interp_ok :: "'k interp \<Rightarrow> bool" where
  "interp_ok s \<longleftrightarrow>
     vsp s \<le> STACK_DEPTH \<and> fdepth s \<le> CALL_DEPTH \<and> ctrl_depth s \<le> MAX_CTRL_DEPTH
     \<and> current_pages s \<le> max_pages s \<and> unat (max_pages s) * PAGE_SIZE \<le> mem_len s \<and> mem_len s < 2 ^ 63
     \<and> body_count s \<le> MAX_FUNCS \<and> global_count s \<le> MAX_GLOBALS \<and> table_size s \<le> MAX_TABLE
     \<and> (\<forall>i < fdepth s. frame_ok (frames s i))
     \<and> (\<forall>i h. host_fns s i = Some h \<longrightarrow> host_ok h)"

lemmas keeps_rules = keeps_sbind keeps_sthen keeps_ret keeps_throw keeps_panic keeps_lift keeps_gets keeps_if
  keeps_Let keeps_case_prod keeps_case_option

lemma imm_keeps: "keeps P (imm_u32 body p)" "keeps P (imm_memarg body p)"
  unfolding imm_u32_def imm_memarg_def by (auto intro!: keeps_rules)

lemma next_keeps: "keeps P (next_pc p)" "keeps P continue_outer"
  unfolding next_pc_def continue_outer_def by (auto intro!: keeps_rules)

section \<open>Invariants of the loop\<close>

text \<open>
  The contract of an invariant of the handlers of frame \<open>fi\<close>: every primitive they are built from
  keeps it. Then every handler keeps it, whatever the outcome, unless it returns or branches.
\<close>

locale handler_invariant =
  fixes P :: "'k interp \<Rightarrow> bool" and fi :: nat
  assumes push_keeps: "keeps P (v_push v)"
    and pop_keeps: "keeps P v_pop"
    and ctrl_push_keeps: "keeps P (ctrl_push cf)"
    and ctrl_pop_keeps: "keeps P (modify (\<lambda>s. s\<lparr>ctrl_depth := ctrl_depth s - 1\<rparr>) :: ('k, unit) im)"
    and set_pc_keeps: "keeps P (set_pc fi p)"
    and set_local_keeps: "keeps P (set_local fi i v)"
    and push_frame_keeps: "keeps P (push_frame b)"
    and global_set_keeps: "keeps P (op_global_set fi body p)"
    and store_keeps: "store_op op = Some (n, w) \<Longrightarrow> keeps P (op_store n w fi body p)"
    and grow_keeps: "keeps P (op_memory_grow fi body p)"
    and copy_keeps: "keeps P (op_memory_copy fi body p)"
    and fill_keeps: "keeps P (op_memory_fill fi body p)"
    and count_call_keeps: "keeps P (count_call c)"
    and call_host_keeps: "keeps P (call_host c)"
    and jit_keeps: "P s \<Longrightarrow> jit_fns s c = Some f \<Longrightarrow> keeps P (call_jit f c)"
begin

lemmas parts = push_keeps pop_keeps ctrl_push_keeps ctrl_pop_keeps set_pc_keeps set_local_keeps
  push_frame_keeps global_set_keeps store_keeps grow_keeps copy_keeps fill_keeps count_call_keeps
  call_host_keeps imm_keeps next_keeps keeps_rules

lemma block_keeps:
  "keeps P (op_block k fi body p)" "keeps P (op_if fi body p)" "keeps P (op_else fi body p)"
  unfolding op_block_def op_if_def op_else_def by (intro parts)+

lemma variable_keeps:
  "keeps P (op_drop fi body p)" "keeps P (op_select fi body p)" "keeps P (op_local_get fi body p)"
  "keeps P (op_local_set fi body p)" "keeps P (op_local_tee fi body p)" "keeps P (op_global_get fi body p)"
  unfolding op_drop_def op_select_def op_local_get_def op_local_set_def op_local_tee_def op_global_get_def
  by (intro parts)+

lemma numeric_keeps:
  "keeps P (op_i32_const fi body p)" "keeps P (op_i64_const fi body p)" "keeps P (op_f32_const fi body p)"
  "keeps P (op_f64_const fi body p)" "keeps P (op_unary f fi body p)" "keeps P (op_binary g fi body p)"
  "keeps P (op_memory_size fi body p)" "keeps P (op_load n w fi body p)"
  unfolding op_i32_const_def op_i64_const_def op_f32_const_def op_f64_const_def op_unary_def op_binary_def
    op_memory_size_def op_load_def
  by (intro parts)+

lemma prefix_fc_keeps: "keeps P (op_prefix_fc fi body p)"
  unfolding op_prefix_fc_def op_memory_init_def op_data_drop_def
  by (intro parts numeric_keeps)+

lemma call_jit_or_frame_keeps:
  assumes "P s"
  shows "keeps P (case jit_fns s c of Some f \<Rightarrow> sthen (call_jit f c) continue_outer
     | None \<Rightarrow> sthen (push_frame b) continue_outer)"
  using assms jit_keeps by (auto intro!: parts split: option.split)

lemma enter_keeps: "keeps P (enter_callee c)" "keeps P (enter_indirect c)"
proof -
  show "keeps P (enter_callee c)"
    unfolding enter_callee_def
  proof (rule keeps_read)
    fix s assume "P s"
    with call_jit_or_frame_keeps [OF this]
    show "P (snd ((if c < import_count s then sthen (call_host c) continue_outer
        else let callee_body = c - import_count s in
          if callee_body \<ge> body_count s then throw FuncIndexOutOfRange
          else if c \<ge> MAX_FUNCS then panic
          else case jit_fns s c of Some f \<Rightarrow> sthen (call_jit f c) continue_outer
            | None \<Rightarrow> sthen (push_frame callee_body) continue_outer) s))"
      by (intro keepsD [of P]) (auto intro!: parts simp: Let_def)
  qed
  show "keeps P (enter_indirect c)"
    unfolding enter_indirect_def by (intro parts)
qed

lemma call_keeps: "keeps P (op_call fi body p)" "keeps P (op_call_indirect fi body p)"
  unfolding op_call_def op_call_indirect_def by (intro parts enter_keeps)+

lemma dispatch_keeps_unless:
  assumes "op \<notin> {0x0B, 0x0C, 0x0D, 0x0E, 0x0F}"
  shows "keeps P (dispatch fe op fi body p)"
proof (rule dispatch_cases [where P = "\<lambda>h. keeps P (h fi body p)"])
  show "keeps P (h fi body p)" if "control_op op = Some h" for h
    using that assms block_keeps call_keeps next_keeps keeps_throw
    by (auto simp: control_op_def split: if_splits)
  show "keeps P (h fi body p)" if "variable_op op = Some h" for h
    using that variable_keeps global_set_keeps by (auto simp: variable_op_def split: if_splits)
  show "keeps P (h fi body p)" if "memory_op op = Some h" for h
    using that by (rule memory_op_cases) (auto intro: numeric_keeps store_keeps grow_keeps prefix_fc_keeps)
qed (auto intro: numeric_keeps next_keeps keeps_throw)

end

text \<open>
  An invariant of the whole loop is kept by every handler in every frame, by returns and branches,
  and by the loop's own bookkeeping. Then every iteration and every run keeps it.
\<close>

locale machine_invariant =
  fixes P :: "'k interp \<Rightarrow> bool"
  assumes handlers_keep: "\<And>fi. handler_invariant P fi"
    and return_keeps: "keeps P do_return"
    and br_keeps: "keeps P (do_br n)"
    and count_keeps: "P s \<Longrightarrow> P (count_opcode s)"
    and clear_yield_keeps: "P s \<Longrightarrow> P (s\<lparr>yield_requested := False\<rparr>)"

sublocale machine_invariant \<subseteq> handlers: handler_invariant P fi for fi
  by (rule handlers_keep)

context machine_invariant
begin

lemma jump_keeps:
  "keeps P (op_end fi body p)" "keeps P (op_br fi body p)" "keeps P (op_br_if fi body p)"
  "keeps P (op_br_table fi body p)" "keeps P (op_return fi body p)"
  unfolding op_end_def op_br_def op_br_if_def op_br_table_def op_return_def
  by (intro handlers.parts return_keeps br_keeps)+

lemma dispatch_keeps: "keeps P (dispatch fe op fi body p)"
  using handlers.dispatch_keeps_unless [of op fe fi body p] jump_keeps [of fi body p]
  by (cases "op \<in> {0x0B, 0x0C, 0x0D, 0x0E, 0x0F}") auto

lemma step_keeps: "keeps P (step fe)"
proof -
  have "keeps P (modify count_opcode)" "keeps P (modify (\<lambda>s. s\<lparr>yield_requested := False\<rparr>))"
    using count_keeps clear_yield_keeps by (auto intro: keeps_modify)
  then show ?thesis
    unfolding step_def by (intro handlers.parts dispatch_keeps return_keeps)
qed

lemma run_keeps: "keeps P (run fuel fe)"
proof (induction fuel)
  case 0
  show ?case by (rule keepsI) simp
next
  case (Suc fuel)
  show ?case
  proof (rule keepsI)
    fix s assume "P s"
    with keeps_sthen [OF step_keeps Suc.IH] have "P (snd (sthen (step fe) (run fuel fe) s))"
      by (rule keepsD)
    with \<open>P s\<close> show "P (snd (run (Suc fuel) fe s))" by simp
  qed
qed

lemma call_function_keeps: "keeps P (call fuel fe f)"
  unfolding call_def by (intro handlers.parts run_keeps)

end

section \<open>The machine invariant is kept\<close>

lemma store_op_length: "store_op op = Some (n, w) \<Longrightarrow> length (w v) = n"
  by (auto simp: store_op_def le_bytes16_def le_bytes32_def le_bytes64_def split: if_splits)

lemma keeps_pop_params:
  assumes "keeps P v_pop" shows "keeps P (pop_params n l)" and "keeps P (pop_jit_params n l)"
proof -
  show "keeps P (pop_params n l)" for l
    by (induction n arbitrary: l) (auto intro!: keeps_rules assms)
  show "keeps P (pop_jit_params n l)" for l
    by (induction n arbitrary: l) (auto intro!: keeps_rules assms)
qed

lemma ok_push: "keeps interp_ok (v_push v)"
  by (rule keepsI) (auto simp: v_push_def interp_ok_def)

lemma ok_pop: "keeps interp_ok v_pop"
  by (rule keepsI) (auto simp: v_pop_def interp_ok_def)

lemma ok_modify:
  "keeps interp_ok (set_pc fi p)" "keeps interp_ok (set_local fi i v)" "keeps interp_ok (count_call c)"
  unfolding set_pc_def set_local_def count_call_def
  by (auto intro!: keeps_modify keeps_if keeps_ret simp: interp_ok_def frame_ok_def)

lemma copy_results_fits: "copy_results k i src base vs = Ok vs' \<Longrightarrow> 0 < k \<Longrightarrow> base + i + k \<le> STACK_DEPTH"
proof (induction k arbitrary: i vs)
  case (Suc k)
  from Suc.prems(1) have now: "base + i < STACK_DEPTH"
    and rest: "copy_results k (i + 1) src base (vs(base + i := vs (src + i))) = Ok vs'"
    by (auto split: if_splits)
  show ?case
  proof (cases "k = 0")
    case False
    with Suc.IH [OF rest] show ?thesis by simp
  qed (use now in simp)
qed simp

lemma ok_return: "keeps interp_ok do_return"
proof (rule keepsI)
  fix s :: "'k interp" assume ok: "interp_ok s"
  let ?f = "frames s (fdepth s - 1)"
  have "vsp_base ?f + result_count ?f \<le> STACK_DEPTH"
    if "copy_results (result_count ?f) 0 (vsp s - result_count ?f) (vsp_base ?f) (vstack s) = Ok vs" "fdepth s \<noteq> 0" for vs
    using copy_results_fits [OF that(1)] ok that(2)
    by (cases "result_count ?f") (auto simp: interp_ok_def frame_ok_def)
  moreover have "ctrl_base ?f \<le> MAX_CTRL_DEPTH" if "fdepth s \<noteq> 0"
    using ok that by (auto simp: interp_ok_def frame_ok_def)
  ultimately show "interp_ok (snd (do_return s))"
    using ok by (auto simp: do_return_def interp_ok_def Let_def split: result.split)
qed

lemma ok_br: "keeps interp_ok (do_br n)"
  unfolding do_br_def
  by (intro keeps_rules ok_return ok_modify keeps_modify) (auto simp: interp_ok_def)

lemma pops_only_lower_vsp:
  fixes s :: "'k interp"
  shows "\<exists>v \<le> vsp s. snd (pop_params n l s) = s\<lparr>vsp := v\<rparr>"
    and "\<exists>v \<le> vsp s. snd (pop_jit_params n l s) = s\<lparr>vsp := v\<rparr>"
proof -
  let ?P = "\<lambda>t. \<exists>v \<le> vsp s. t = s\<lparr>vsp := v\<rparr>"
  have pop: "keeps ?P v_pop"
  proof (rule keepsI)
    fix t :: "'k interp" assume "?P t"
    then obtain v where "v \<le> vsp s" "t = s\<lparr>vsp := v\<rparr>" by blast
    then show "?P (snd (v_pop t))"
      by (auto simp: v_pop_def intro: exI [of _ "v - 1"] exI [of _ v])
  qed
  have init: "?P s" by (auto intro!: exI [of _ "vsp s"])
  show "?P (snd (pop_params n l s))" and "?P (snd (pop_jit_params n l s))"
    using keeps_pop_params [OF pop] init by (blast dest: keepsD)+
qed

lemma ok_push_frame: "keeps interp_ok (push_frame b)"
proof (rule keepsI)
  fix s :: "'k interp" assume ok: "interp_ok s"
  let ?n = "type_arity (type_param_counts s) (type_count s) (func_type_indices s b)"
  obtain r s' v where pop: "pop_params ?n (\<lambda>_. 0) s = (r, s')" "s' = s\<lparr>vsp := v\<rparr>" "v \<le> vsp s"
    using pops_only_lower_vsp(1) [of s ?n "\<lambda>_. 0"] by (cases "pop_params ?n (\<lambda>_. 0) s") auto
  with ok show "interp_ok (snd (push_frame b s))"
    by (cases r) (auto simp: push_frame_def sm_defs Let_def interp_ok_def frame_ok_def less_Suc_eq)
qed

lemma ok_memory:
  "store_op op = Some (n, w) \<Longrightarrow> keeps interp_ok (op_store n w fi body p)"
  "keeps interp_ok (op_memory_copy fi body p)" "keeps interp_ok (op_memory_fill fi body p)"
  "keeps interp_ok (op_global_set fi body p)"
  unfolding op_store_def op_memory_copy_def op_memory_fill_def op_global_set_def imm_memarg_def imm_u32_def next_pc_def
  by (intro keeps_rules ok_pop keeps_modify; simp add: interp_ok_def)+

lemma saturating_add_u32_le: "saturating_add_u32 a b \<le> m \<Longrightarrow> unat a + unat b < 2 ^ 32 \<Longrightarrow> a + b \<le> m"
  by (simp add: saturating_add_u32_def)

lemma ok_grow: "keeps interp_ok (op_memory_grow fi body p)"
  unfolding op_memory_grow_def
proof (rule keeps_sbind [OF ok_pop], rule keeps_read)
  fix d and s :: "'k interp" assume ok: "interp_ok s"
  have push: "interp_ok (snd (sthen (v_push v) (next_pc q) t))" if "interp_ok t" for v q and t :: "'k interp"
    using that by (rule keepsD [rotated]) (intro keeps_rules ok_push, simp add: next_pc_def keeps_ret)
  have grown: "interp_ok (s\<lparr>mem := m, current_pages := current_pages s + low32 d\<rparr>)"
    if "saturating_add_u32 (current_pages s) (low32 d) \<le> max_pages s"
      "unat (current_pages s) + unat (low32 d) < 2 ^ 32" for m
    using ok saturating_add_u32_le [OF that] by (simp add: interp_ok_def)
  show "interp_ok (snd ((let delta = low32 d; old = current_pages s in
      if saturating_add_u32 old delta \<le> max_pages s then
        if unat old + unat delta \<ge> 2 ^ 32 then panic
        else let old_bytes = unat old * PAGE_SIZE; new_bytes = unat (old + delta) * PAGE_SIZE in
          if new_bytes > mem_len s then panic
          else sthen (modify (\<lambda>s. s\<lparr>mem := mem_fill (mem s) old_bytes (new_bytes - old_bytes) 0,
                 current_pages := old + delta\<rparr>))
               (sthen (v_push (of_u32 old)) (next_pc (p + 1)))
      else sthen (v_push (- 1)) (next_pc (p + 1))) s))"
    using ok push push [OF grown] by (simp add: Let_def panic_def not_le sthen_def sbind_def modify_def)
qed

lemma run_host_keeps:
  assumes "host_ok h" and "interp_ok s" shows "interp_ok (snd (run_host h s))"
proof -
  let ?st = "\<lparr>h_vstack = vstack s, h_vsp = vsp s, h_mem = mem s, h_mem_len = mem_len s, h_world = world s\<rparr>"
  have "h_vsp (snd (h ?st)) \<le> STACK_DEPTH"
    using assms by (simp add: host_ok_def interp_ok_def)
  with assms(2) show ?thesis
    by (cases "h ?st") (simp add: run_host_def interp_ok_def)
qed

lemma ok_call_host: "keeps interp_ok (call_host c)"
proof (rule keepsI)
  fix s :: "'k interp" assume ok: "interp_ok s"
  then have "host_ok h" if "host_fns s c = Some h" for h
    using that by (auto simp: interp_ok_def)
  with ok show "interp_ok (snd (call_host c s))"
    by (auto simp: call_host_def sbind_def gets_def panic_def throw_def intro: run_host_keeps split: option.split)
qed

lemma ok_call_jit: "keeps interp_ok (call_jit f c)"
  unfolding call_jit_def
  by (intro keeps_rules ok_push keeps_pop_params ok_pop keeps_modify; simp add: interp_ok_def)


lemma ok_ctrl: "keeps interp_ok (ctrl_push cf)" "keeps interp_ok (modify (\<lambda>s. s\<lparr>ctrl_depth := ctrl_depth s - 1\<rparr>))"
  by (auto simp: ctrl_push_def interp_ok_def intro!: keepsI keeps_modify)

lemma ok_counters: "interp_ok s \<Longrightarrow> interp_ok (count_opcode s)" "interp_ok s \<Longrightarrow> interp_ok (s\<lparr>yield_requested := False\<rparr>)"
  by (auto simp: count_opcode_def interp_ok_def)

interpretation ok: machine_invariant interp_ok
  by (unfold_locales; (intro handler_invariant.intro)?)
    (fact ok_push ok_pop ok_ctrl ok_modify ok_return ok_br ok_push_frame ok_grow ok_call_host
    ok_counters | erule ok_memory | rule ok_memory ok_call_jit)+

section \<open>What a run cannot change\<close>

text \<open>
  The parsed module, its tables and limits, the host table and the compiled code are read-only.
\<close>

definition same_module :: "'k interp \<Rightarrow> 'k interp \<Rightarrow> bool" where
  "same_module s0 s \<longleftrightarrow> bodies s = bodies s0 \<and> body_count s = body_count s0 \<and> local_counts s = local_counts s0
     \<and> type_param_counts s = type_param_counts s0 \<and> type_result_counts s = type_result_counts s0
     \<and> type_count s = type_count s0 \<and> func_type_indices s = func_type_indices s0
     \<and> all_func_types s = all_func_types s0 \<and> import_count s = import_count s0
     \<and> table s = table s0 \<and> table_size s = table_size s0 \<and> global_mutable s = global_mutable s0
     \<and> global_count s = global_count s0 \<and> mem_len s = mem_len s0 \<and> max_pages s = max_pages s0
     \<and> host_fns s = host_fns s0 \<and> jit_fns s = jit_fns s0 \<and> jump_table s = jump_table s0
     \<and> shadow_stop_fdepth s = shadow_stop_fdepth s0"

definition const_globals :: "i64 arr \<Rightarrow> bool arr \<Rightarrow> 'k interp \<Rightarrow> bool" where
  "const_globals g gm s \<longleftrightarrow> jit_fns s = (\<lambda>_. None) \<and> global_mutable s = gm \<and> (\<forall>i. \<not> gm i \<longrightarrow> globals s i = g i)"

text \<open>
  A predicate that does not look at the stacks, the frames, the memory contents, the page count and
  the kernel, and that survives writes to mutable globals, is a machine invariant.
\<close>

locale module_invariant =
  fixes P :: "'k interp \<Rightarrow> bool"
  assumes blind_stack: "P s \<Longrightarrow> P (s\<lparr>vstack := vs\<rparr>)" "P s \<Longrightarrow> P (s\<lparr>vsp := v\<rparr>)"
    and blind_frames: "P s \<Longrightarrow> P (s\<lparr>frames := fr\<rparr>)" "P s \<Longrightarrow> P (s\<lparr>fdepth := d\<rparr>)"
    and blind_ctrl: "P s \<Longrightarrow> P (s\<lparr>ctrl := cs\<rparr>)" "P s \<Longrightarrow> P (s\<lparr>ctrl_depth := c\<rparr>)"
    and blind_mem: "P s \<Longrightarrow> P (s\<lparr>mem := m\<rparr>)" "P s \<Longrightarrow> P (s\<lparr>current_pages := n\<rparr>)" "P s \<Longrightarrow> P (s\<lparr>world := w\<rparr>)"
    and clear: "P s \<Longrightarrow> P (s\<lparr>yield_requested := False\<rparr>)"
    and global: "P s \<Longrightarrow> global_mutable s i \<Longrightarrow> P (s\<lparr>globals := (globals s)(i := x)\<rparr>)"
    and native: "P s \<Longrightarrow> jit_fns s k = Some f \<Longrightarrow> P t \<Longrightarrow> P (t\<lparr>globals := g\<rparr>)"
begin

lemmas blinds = blind_stack blind_frames blind_ctrl blind_mem

lemma stack_keeps:
  "keeps P (v_push v)" "keeps P v_pop" "keeps P (ctrl_push cf)" "keeps P do_return"
  by (auto simp: v_push_def v_pop_def ctrl_push_def do_return_def Let_def intro!: keepsI blinds split: result.split)

lemma modify_keeps:
  "keeps P (modify (\<lambda>s. s\<lparr>ctrl_depth := f s\<rparr>))" "keeps P (set_pc fi p)" "keeps P (set_local fi i x)" "keeps P (count_call k)"
  unfolding set_pc_def set_local_def count_call_def by (auto intro!: keeps_modify keeps_if keeps_ret blinds)

lemma br_frame_keeps: "keeps P (do_br l)" "keeps P (push_frame b)"
  unfolding do_br_def push_frame_def
  by (intro keeps_rules stack_keeps modify_keeps keeps_pop_params keeps_modify blinds; assumption)+

lemma memory_keeps:
  "keeps P (op_store k' f fi body p)" "keeps P (op_memory_copy fi body p)" "keeps P (op_memory_fill fi body p)"
  "keeps P (op_memory_grow fi body p)"
  unfolding op_store_def op_memory_copy_def op_memory_fill_def op_memory_grow_def imm_memarg_def next_pc_def
  by (intro keeps_rules stack_keeps keeps_modify blinds; assumption)+

lemma host_keeps: "keeps P (call_host k)"
  unfolding call_host_def run_host_def
  by (intro keeps_rules keepsI) (auto intro: blinds split: prod.split)

lemma global_keeps: "keeps P (op_global_set fi body p)"
proof -
  have *: "P (s\<lparr>vsp := v, globals := (globals s)(i := x)\<rparr>)" if "P s" "global_mutable s i" for s v i x
    using global [of "s\<lparr>vsp := v\<rparr>" i x] that by (simp add: blinds)
  show ?thesis
    unfolding op_global_set_def
    by (rule keeps_sbind [OF imm_keeps(1)], rule keeps_case_prod, rule keeps_read)
      (auto simp: sthen_def sbind_def v_pop_def throw_def panic_def modify_def next_pc_def ret_def intro: blinds *)
qed

lemma native_keeps: "P s \<Longrightarrow> jit_fns s k = Some f \<Longrightarrow> keeps P (call_jit f k)"
  unfolding call_jit_def
  by (intro keeps_rules stack_keeps keeps_pop_params keeps_modify) (simp add: native blinds)

end

sublocale module_invariant \<subseteq> machine_invariant P
  by (unfold_locales; (intro handler_invariant.intro)?)
    (rule stack_keeps modify_keeps br_frame_keeps memory_keeps host_keeps global_keeps clear
    | erule (1) native_keeps | simp add: count_opcode_def blinds)+


interpretation code: module_invariant "same_module s0" for s0
  by unfold_locales (simp_all add: same_module_def)

interpretation immutable: module_invariant "const_globals g gm" for g gm
  by unfold_locales (auto simp: const_globals_def)

interpretation flag: module_invariant "\<lambda>s. \<not> yield_requested s"
  by unfold_locales simp_all

section \<open>When a step can panic\<close>

lemma sthen_ret [simp]: "sthen (ret x) k = k"
  by (simp add: sthen_def)

text \<open>\<open>calm m s\<close>: running \<open>m\<close> in \<open>s\<close> does not panic.\<close>

definition calm :: "('s, 'e, 'a) sm \<Rightarrow> 's \<Rightarrow> bool" where
  "calm m s \<longleftrightarrow> fst (m s) \<noteq> Panic"

lemma calm_simple [simp]: "calm (ret x) s" "calm (throw e) s" "calm (modify f) s" "calm (gets g) s" "\<not> calm panic s"
  by (simp_all add: calm_def sm_defs)

lemma calm_lift [simp]: "calm (lift r) s \<longleftrightarrow> r \<noteq> Panic"
  by (simp add: calm_def lift_def)

lemma calm_sbind: "calm m s \<Longrightarrow> (\<And>x s'. m s = (Ok x, s') \<Longrightarrow> calm (f x) s') \<Longrightarrow> calm (sbind m f) s"
  by (auto simp: calm_def sbind_def split: prod.split result.split)

lemma calm_sthen: "calm m s \<Longrightarrow> (\<And>x s'. m s = (Ok x, s') \<Longrightarrow> calm k s') \<Longrightarrow> calm (sthen m k) s"
  unfolding sthen_def by (rule calm_sbind)

lemma calm_read [simp]: "calm (sbind (gets g) f) s \<longleftrightarrow> calm (f (g s)) s"
  by (simp add: calm_def sbind_def gets_def)

lemma calm_modify [simp]: "calm (sthen (modify g) k) s \<longleftrightarrow> calm k (g s)"
  by (simp add: calm_def sthen_def sbind_def modify_def)

lemma calm_lift_bind: "r \<noteq> Panic \<Longrightarrow> (\<And>x. r = Ok x \<Longrightarrow> calm (f x) s) \<Longrightarrow> calm (sbind (lift r) f) s"
  by (cases r) (auto simp: calm_def sbind_def lift_def)

lemma calm_pop: "calm v_pop s \<longleftrightarrow> vsp s \<le> STACK_DEPTH"
  by (auto simp: calm_def v_pop_def STACK_DEPTH_def)

lemma calm_pop_bind:
  "vsp s \<le> STACK_DEPTH \<Longrightarrow> (\<And>x. calm (f x) (s\<lparr>vsp := vsp s - 1\<rparr>)) \<Longrightarrow> calm (sbind v_pop f) s"
  by (auto simp: calm_def sbind_def v_pop_def)

lemma calm_pop_then: "vsp s \<le> STACK_DEPTH \<Longrightarrow> calm k (s\<lparr>vsp := vsp s - 1\<rparr>) \<Longrightarrow> calm (sthen v_pop k) s"
  unfolding sthen_def by (rule calm_pop_bind)

lemma calm_push [simp]: "calm (v_push v) s" "calm (ctrl_push cf) s" "calm (next_pc p) s" "calm continue_outer s"
  "calm (set_pc fi p) s" "calm (set_local fi i v) s" "calm (count_call c) s"
  by (simp_all add: calm_def v_push_def ctrl_push_def next_pc_def continue_outer_def set_pc_def set_local_def
      count_call_def sm_defs)

lemma calm_push_then [simp]: "calm (sthen (v_push v) (next_pc p)) s" "calm (sthen (ctrl_push cf) (next_pc p)) s"
  by (rule calm_sthen; simp)+

lemma calm_imm_u32:
  assumes "p \<le> length body" and "\<And>v q. q \<le> length body \<Longrightarrow> calm (f (v, q)) s"
  shows "calm (sbind (imm_u32 body p) f) s"
proof -
  have "calm (sbind (lift (read_u32_at body p MalformedCode)) (\<lambda>x. f (fst x, p + snd x))) s"
    using assms by (auto intro!: calm_lift_bind simp: read_u32_at_def res_simps dest!: read_u32_bounds)
  then show ?thesis by (simp add: imm_u32_def sbind_assoc case_prod_beta)
qed

lemma calm_imm_memarg:
  assumes "p \<le> length body" and "\<And>v q. q \<le> length body \<Longrightarrow> calm (f (v, q)) s"
  shows "calm (sbind (imm_memarg body p) f) s"
proof -
  have "calm (sbind (lift (rbind (slice_from body p) (\<lambda>r. ok_or (read_memarg r) MalformedCode)))
      (\<lambda>x. f (fst x, p + snd x))) s"
    using assms by (auto intro!: calm_lift_bind simp: res_simps dest!: read_memarg_bounds)
  then show ?thesis by (simp add: imm_memarg_def sbind_assoc case_prod_beta)
qed

lemmas calm_rules = calm_pop_bind calm_pop_then calm_imm_u32 calm_imm_memarg

lemma active_mem_inside: "interp_ok s \<Longrightarrow> active_mem_bytes s \<le> mem_len s"
  unfolding active_mem_bytes_def interp_ok_def word_le_nat_alt
  by (rule order.trans [OF mult_le_mono1]) auto

lemma calm_load: "interp_ok s \<Longrightarrow> p \<le> length body \<Longrightarrow> calm (op_load n w fi body p) s"
  using active_mem_inside [of s]
  by (auto simp: op_load_def Let_def active_mem_bytes_def interp_ok_def intro!: calm_rules)

lemma calm_store: "interp_ok s \<Longrightarrow> p \<le> length body \<Longrightarrow> calm (op_store n w fi body p) s"
  using active_mem_inside [of s]
  by (auto simp: op_store_def Let_def active_mem_bytes_def interp_ok_def intro!: calm_rules)

lemma saturating_le_active:
  assumes "\<not> active_mem_bytes s < saturating_add_usize a b" shows "a + b \<le> active_mem_bytes s"
proof -
  have "unat (current_pages s) * PAGE_SIZE < 2 ^ 32 * PAGE_SIZE"
    using unsigned_less [of "current_pages s"] by (simp add: PAGE_SIZE_def)
  then have "active_mem_bytes s < 2 ^ 64 - 1"
    by (simp add: active_mem_bytes_def PAGE_SIZE_def)
  with assms show ?thesis by (auto simp: saturating_add_usize_def)
qed

lemma saturating_active:
  "interp_ok s \<Longrightarrow> saturating_add_usize a b \<le> active_mem_bytes s \<Longrightarrow> a + b \<le> mem_len s"
  using saturating_le_active [of s a b] active_mem_inside [of s] by simp

lemma calm_bulk: "interp_ok s \<Longrightarrow> calm (op_memory_copy fi body p) s" "interp_ok s \<Longrightarrow> calm (op_memory_fill fi body p) s"
  using saturating_active [of s]
  by (force simp: op_memory_copy_def op_memory_fill_def active_mem_bytes_def interp_ok_def not_less intro!: calm_rules)+

lemma calm_grow:
  assumes "interp_ok s" and "unat (max_pages s) < 2 ^ 32 - 1"
  shows "calm (op_memory_grow fi body p) s"
proof -
  have grown: "unat (current_pages s) + unat d < 2 ^ 32 \<and> \<not> mem_len s < unat (current_pages s + d) * PAGE_SIZE"
    if "saturating_add_u32 (current_pages s) d \<le> max_pages s" for d
  proof -
    have "max_pages s \<noteq> - 1" using assms(2) by (auto simp: unsigned_minus_1_eq_mask mask_eq_exp_minus_1)
    with that have "current_pages s + d \<le> max_pages s" "unat (current_pages s) + unat d < 2 ^ 32"
      by (auto simp: saturating_add_u32_def word_order.extremum_unique split: if_splits)
    then have "unat (current_pages s + d) * PAGE_SIZE \<le> unat (max_pages s) * PAGE_SIZE"
      by (auto simp: word_le_nat_alt intro: mult_le_mono1)
    also have "\<dots> \<le> mem_len s" using assms(1) by (simp add: interp_ok_def)
    finally show ?thesis using \<open>unat (current_pages s) + unat d < 2 ^ 32\<close> by simp
  qed
  from assms(1) have "vsp s \<le> STACK_DEPTH" by (simp add: interp_ok_def)
  then show ?thesis
    unfolding op_memory_grow_def by (intro calm_rules) (auto simp: Let_def dest: grown)
qed

lemma calm_copy_results:
  "src + i + k \<le> STACK_DEPTH \<Longrightarrow> base + i + k \<le> STACK_DEPTH \<Longrightarrow> \<exists>vs'. copy_results k i src base vs = Ok vs'"
  by (induction k arbitrary: i vs) auto

text \<open>The results of the running function fit on the stack above its base.\<close>

definition results_fit :: "'k interp \<Rightarrow> bool" where
  "results_fit s \<longleftrightarrow> vsp_base (frames s (fdepth s - 1)) + result_count (frames s (fdepth s - 1)) \<le> STACK_DEPTH"

lemma calm_return:
  assumes "interp_ok s" and "0 < fdepth s" and "results_fit s"
  shows "calm do_return s"
proof -
  let ?f = "frames s (fdepth s - 1)"
  have "vsp s - result_count ?f + 0 + result_count ?f \<le> STACK_DEPTH"
    using assms(1,3) by (auto simp: interp_ok_def results_fit_def)
  then obtain vs where "copy_results (result_count ?f) 0 (vsp s - result_count ?f) (vsp_base ?f) (vstack s) = Ok vs"
    using calm_copy_results [of _ 0 "result_count ?f" "vsp_base ?f"] assms(3) by (fastforce simp: results_fit_def)
  with assms show ?thesis by (simp add: calm_def do_return_def interp_ok_def Let_def)
qed

lemma calm_br:
  assumes "interp_ok s" and "0 < fdepth s" and "results_fit s" and "ctrl_base (frames s (fdepth s - 1)) \<le> ctrl_depth s"
  shows "calm (do_br n) s"
  using assms calm_return [OF assms(1-3)]
  by (auto simp: do_br_def Let_def interp_ok_def)

lemma calm_pop_params:
  "vsp s \<le> STACK_DEPTH \<Longrightarrow> calm (pop_params n l) s"
  "vsp s \<le> STACK_DEPTH \<Longrightarrow> n \<le> MAX_LOCALS \<Longrightarrow> calm (pop_jit_params n l) s"
proof -
  show "vsp s \<le> STACK_DEPTH \<Longrightarrow> calm (pop_params n l) s"
    by (induction n arbitrary: l s) (auto intro!: calm_rules)
  show "vsp s \<le> STACK_DEPTH \<Longrightarrow> n \<le> MAX_LOCALS \<Longrightarrow> calm (pop_jit_params n l) s"
    by (induction n arbitrary: l s) (auto intro!: calm_rules)
qed

lemma calm_push_frame: "interp_ok s \<Longrightarrow> b < MAX_FUNCS \<Longrightarrow> calm (push_frame b) s"
  by (auto simp: push_frame_def Let_def interp_ok_def intro!: calm_sbind calm_pop_params)

text \<open>Host functions that do not panic, and compiled code only for functions whose parameters fit the buffer.\<close>

definition calm_callees :: "'k interp \<Rightarrow> bool" where
  "calm_callees s \<longleftrightarrow> import_count s + body_count s \<le> MAX_FUNCS
     \<and> (\<forall>i h st. host_fns s i = Some h \<and> h_vsp st \<le> STACK_DEPTH \<longrightarrow> fst (h st) \<noteq> Panic)
     \<and> (\<forall>i f. jit_fns s i = Some f \<longrightarrow> type_arity (type_param_counts s) (type_count s) (all_func_types s i) \<le> MAX_LOCALS)"

lemma calm_call_host:
  assumes "interp_ok s" "calm_callees s" "c < MAX_FUNCS" shows "calm (call_host c) s"
proof -
  have "calm (run_host h) s" if "host_fns s c = Some h" for h
    using assms that by (auto simp: calm_def run_host_def calm_callees_def interp_ok_def split: prod.split)
      (metis fst_conv host_state.select_convs(2))
  with assms(3) show ?thesis by (auto simp: call_host_def split: option.split)
qed

lemma calm_call_jit:
  assumes "interp_ok s" "calm_callees s" "jit_fns s c = Some f" shows "calm (call_jit f c) s"
proof -
  have "type_arity (type_param_counts s) (type_count s) (all_func_types s c) \<le> MAX_LOCALS"
    using assms(2,3) by (auto simp: calm_callees_def)
  then show ?thesis
    using assms(1) by (auto simp: call_jit_def Let_def interp_ok_def split: prod.split intro!: calm_sbind calm_pop_params)
qed

text \<open>The state of a function body whose blocks are balanced so far.\<close>

definition ready :: "'k interp \<Rightarrow> bool" where
  "ready s \<longleftrightarrow> interp_ok s \<and> 0 < fdepth s \<and> results_fit s \<and> ctrl_base (frames s (fdepth s - 1)) \<le> ctrl_depth s
     \<and> calm_callees s \<and> unat (max_pages s) < 2 ^ 32 - 1"

lemma ready_ok: "ready s \<Longrightarrow> interp_ok s" "ready s \<Longrightarrow> vsp s \<le> STACK_DEPTH"
  by (simp_all add: ready_def interp_ok_def)

lemma ready_pop: "ready s \<Longrightarrow> ready (s\<lparr>vsp := vsp s - n\<rparr>)"
  by (auto simp: ready_def interp_ok_def results_fit_def calm_callees_def)

lemma ready_set_pc: "ready s \<Longrightarrow> ready (s\<lparr>frames := (frames s)(fi := (frames s fi)\<lparr>pc := p\<rparr>)\<rparr>)"
  by (auto simp: ready_def interp_ok_def frame_ok_def results_fit_def calm_callees_def)

lemma ready_world: "ready s \<Longrightarrow> ready (s\<lparr>world := w\<rparr>)"
  by (auto simp: ready_def interp_ok_def results_fit_def calm_callees_def)

lemma calm_ready: "ready s \<Longrightarrow> calm do_return s" "ready s \<Longrightarrow> calm (do_br n) s"
  using calm_return calm_br by (auto simp: ready_def)

lemma calm_sthen_outer [simp]: "calm (sthen m continue_outer) s \<longleftrightarrow> calm m s"
  by (auto simp: calm_def sthen_def sbind_def continue_outer_def ret_def split: prod.split result.split)

lemma calm_branch:
  assumes "ready s" shows "calm (sthen (set_pc fi p) (sthen (do_br n) continue_outer)) s"
  using calm_ready(2) [OF ready_set_pc [OF assms]] by (simp add: set_pc_def)

lemma jump_probe_no_panic: "jump_probe k t b p i \<noteq> Panic"
  by (induction k t b p i rule: jump_probe.induct) auto

lemma block_target_no_panic: "block_target t body b p e \<noteq> Panic"
  by (auto simp: block_target_def jump_lookup_def jump_probe_no_panic res_simps split: option.splits)

lemma br_table_labels_no_panic: "pos \<le> length body \<Longrightarrow> br_table_labels body todo k sel pos t \<noteq> Panic"
  by (induction body todo k sel pos t rule: br_table_labels.induct)
    (auto simp: read_u32_at_def res_simps dest!: read_u32_bounds)

lemma calm_control:
  assumes "ready s" and "p \<le> length body"
  shows "calm (op_block k fi body p) s" "calm (op_if fi body p) s" "calm (op_end fi body p) s"
    "calm (op_br fi body p) s" "calm (op_br_if fi body p) s" "calm (op_br_table fi body p) s"
    "calm (op_return fi body p) s"
proof -
  note r = ready_pop [OF assms(1), of 1, simplified]
  show "calm (op_block k fi body p) s" "calm (op_if fi body p) s"
    using ready_ok [OF assms(1)]
    by (auto simp: op_block_def op_if_def Let_def block_target_no_panic intro!: calm_lift_bind calm_rules)
  show "calm (op_br fi body p) s" "calm (op_br_if fi body p) s" "calm (op_br_table fi body p) s"
    using ready_ok [OF assms(1)] assms(2) calm_branch [OF assms(1)] calm_branch [OF r]
    by (auto simp: op_br_def op_br_if_def op_br_table_def Let_def br_table_labels_no_panic
        simp del: br_table_labels.simps intro!: calm_rules calm_lift_bind)
  show "calm (op_end fi body p) s" "calm (op_return fi body p) s"
    using calm_ready [OF assms(1)] by (auto simp: op_end_def op_return_def)
qed

lemma calm_else: "ready s \<Longrightarrow> 0 < ctrl_depth s \<Longrightarrow> calm (op_else fi body p) s"
  by (auto simp: op_else_def ready_def interp_ok_def)

lemma calm_defined_call:
  assumes "ready s" "\<not> c < import_count s" "\<not> body_count s \<le> c - import_count s"
  shows "calm (push_frame (c - import_count s)) s" and "c < MAX_FUNCS"
  using assms calm_push_frame [of s] by (auto simp: ready_def calm_callees_def interp_ok_def)

lemma calm_enter:
  assumes "ready s" shows "calm (enter_callee c) s" "calm (enter_indirect c) s"
  using assms calm_call_host [of s c] calm_call_jit [of s c] calm_defined_call [OF assms, of c]
  by (auto simp: enter_callee_def enter_indirect_def Let_def ready_def calm_callees_def split: option.split)

lemma calm_saved_call:
  assumes "ready s"
  shows "calm (sthen (count_call c) (sthen (set_pc fi q) (enter_callee c))) s"
    and "calm (sthen (count_call c) (if bad then throw e else sthen (set_pc fi q) (enter_indirect c))) s"
  using calm_enter [OF ready_set_pc [OF ready_world [OF assms]]] calm_enter [OF ready_set_pc [OF assms]]
  by (auto simp: count_call_def set_pc_def)

lemma calm_call:
  assumes "ready s" and "p \<le> length body"
  shows "calm (op_call fi body p) s" and "calm (op_call_indirect fi body p) s"
proof -
  have "table_size s \<le> MAX_TABLE" using assms(1) by (simp add: ready_def interp_ok_def)
  with calm_saved_call [OF assms(1)] calm_saved_call [OF ready_pop [OF assms(1), of 1]] ready_ok [OF assms(1)] assms(2)
  show "calm (op_call fi body p) s" and "calm (op_call_indirect fi body p) s"
    unfolding op_call_def op_call_indirect_def by (auto simp: Let_def intro!: calm_rules)
qed

lemma calm_variable:
  assumes "ready s" "fi = fdepth s - 1" "p \<le> length body"
  shows "calm (op_drop fi body p) s" "calm (op_select fi body p) s" "calm (op_local_get fi body p) s"
    "calm (op_local_set fi body p) s" "calm (op_local_tee fi body p) s" "calm (op_global_get fi body p) s"
    "calm (op_global_set fi body p) s"
proof -
  have "local_count (frames s fi) \<le> MAX_LOCALS" "global_count s \<le> MAX_GLOBALS" "vsp s \<le> STACK_DEPTH"
    using assms by (auto simp: ready_def interp_ok_def frame_ok_def)
  then show "calm (op_drop fi body p) s" "calm (op_select fi body p) s" "calm (op_local_get fi body p) s"
    "calm (op_local_set fi body p) s" "calm (op_local_tee fi body p) s" "calm (op_global_get fi body p) s"
    "calm (op_global_set fi body p) s"
    using assms(3)
    by (auto simp: op_drop_def op_select_def op_local_get_def op_local_set_def op_local_tee_def op_global_get_def
        op_global_set_def set_local_def STACK_DEPTH_def intro!: calm_rules)
qed

lemma calm_numeric:
  assumes "ready s" "p \<le> length body"
  shows "calm (op_i32_const fi body p) s" "calm (op_i64_const fi body p) s" "calm (op_f32_const fi body p) s"
    "calm (op_f64_const fi body p) s" "calm (op_memory_size fi body p) s"
  using assms(2) by (auto simp: op_i32_const_def op_i64_const_def op_f32_const_def op_f64_const_def
      op_memory_size_def read_i32_at_def read_i64_at_def res_simps intro!: calm_lift_bind)

lemma trunc_op_no_panic: "trunc_op op = Some f \<Longrightarrow> f v \<noteq> Panic"
  by (auto simp: trunc_op_def checked_trunc_def split: if_splits)

lemma i32_binary_no_panic: "i32_binary op = Some f \<Longrightarrow> f a b \<noteq> Panic"
  by (auto simp: i32_binary_def split: if_splits)

lemma i64_binary_no_panic: "i64_binary op = Some f \<Longrightarrow> f a b \<noteq> Panic"
  by (auto simp: i64_binary_def split: if_splits)

lemma numeric_no_panic:
  "numeric_unary fe op = Some f \<Longrightarrow> f v \<noteq> Panic" "numeric_binary fe op = Some g \<Longrightarrow> g a b \<noteq> Panic"
  using trunc_op_no_panic i32_binary_no_panic i64_binary_no_panic
  by (auto simp: numeric_unary_def numeric_binary_def or_else_Some split: if_splits)

lemma calm_unary_binary:
  assumes "ready s"
  shows "(\<And>v. f v \<noteq> Panic) \<Longrightarrow> calm (op_unary f fi body p) s"
    and "(\<And>a b. g a b \<noteq> Panic) \<Longrightarrow> calm (op_binary g fi body p) s"
  using ready_ok [OF assms] by (auto simp: op_unary_def op_binary_def intro!: calm_rules calm_lift_bind)

lemma calm_prefix_fc:
  assumes "ready s" "p \<le> length body"
  shows "calm (op_prefix_fc fi body p) s"
  unfolding op_prefix_fc_def
proof (rule calm_imm_u32 [OF assms(2)])
  fix sub q assume "q \<le> length body"
  then have "calm (op_memory_init fi body q) s" "calm (op_data_drop fi body q) s"
    using ready_ok [OF assms(1)] by (auto simp: op_memory_init_def op_data_drop_def intro!: calm_rules)
  then show "calm (case (sub, q) of (sub, p') \<Rightarrow> (case trunc_sat_op sub of
      Some f \<Rightarrow> op_unary (\<lambda>v. Ok (f v)) fi body p'
    | None \<Rightarrow> if sub = 8 then op_memory_init fi body p' else if sub = 9 then op_data_drop fi body p'
        else if sub = 10 then op_memory_copy fi body p' else if sub = 11 then op_memory_fill fi body p'
        else throw (UnknownOpcode 0xFC))) s"
    using calm_bulk [OF ready_ok(1) [OF assms(1)]] calm_unary_binary(1) [OF assms(1)] by (auto split: option.split)
qed

definition next_opcode :: "'k interp \<Rightarrow> u8 option" where
  "next_opcode s = (let f = frames s (fdepth s - 1); body = bodies s (body_idx f) in
     if pc f < length body then Some (body ! pc f) else None)"

lemma calm_dispatch:
  assumes "ready s" "fi = fdepth s - 1" "p \<le> length body" "op = 0x05 \<longrightarrow> 0 < ctrl_depth s"
  shows "calm (dispatch fe op fi body p) s"
proof (cases "or_else (control_op op) (or_else (variable_op op) (or_else (memory_op op)
    (numeric_op fe op :: 'a handler option)))")
  case None
  then show ?thesis by (simp add: dispatch_def)
next
  case (Some h)
  note ok = ready_ok(1) [OF assms(1)]
  consider "control_op op = Some h" | "variable_op op = Some h" | "memory_op op = Some h" | "numeric_op fe op = Some h"
    using Some by (auto simp: or_else_Some)
  then have "calm (h fi body p) s"
  proof cases
    case 1
    then show ?thesis
      using calm_control [OF assms(1,3)] calm_call [OF assms(1,3)] calm_else [OF assms(1)] assms(4)
      by (auto simp: control_op_def split: if_splits)
  next
    case 2
    then show ?thesis using calm_variable [OF assms(1-3)] by (auto simp: variable_op_def split: if_splits)
  next
    case 3
    have "unat (max_pages s) < 2 ^ 32 - 1" using assms(1) by (simp add: ready_def)
    from 3 show ?thesis
      by (rule memory_op_cases)
        (auto intro: calm_load [OF ok assms(3)] calm_store [OF ok assms(3)] calm_numeric [OF assms(1,3)]
          calm_grow [OF ok \<open>unat (max_pages s) < 2 ^ 32 - 1\<close>] calm_prefix_fc [OF assms(1,3)])
  next
    case 4
    then show ?thesis
      using calm_numeric [OF assms(1,3)] calm_unary_binary [OF assms(1)] numeric_no_panic
      by (auto simp: numeric_op_def or_else_Some split: if_splits)
  qed
  with Some show ?thesis by (simp add: dispatch_def)
qed

lemma calm_step:
  assumes "ready s" and "next_opcode s = Some 0x05 \<longrightarrow> 0 < ctrl_depth s"
  shows "calm (step fe) s"
proof -
  let ?fi = "fdepth s - 1" let ?f = "frames s ?fi" let ?body = "bodies s (body_idx ?f)"
  have frame: "body_idx ?f < MAX_FUNCS" "0 < fdepth s" "fdepth s \<le> CALL_DEPTH"
    using assms(1) by (auto simp: ready_def interp_ok_def frame_ok_def)
  have "calm (dispatch fe (?body ! pc ?f) ?fi ?body (pc ?f + 1)) (count_opcode s)" if "pc ?f < length ?body"
    using calm_dispatch [of "count_opcode s"] ready_world [OF assms(1)] that assms(2)
    by (auto simp: count_opcode_def next_opcode_def Let_def)
  then show ?thesis
    using frame calm_ready(1) [OF assms(1)]
    by (auto simp: step_def Let_def not_le intro!: calm_sbind split: option.split)
qed

section \<open>A machine for examples\<close>

text \<open>
  A module with one parameterless function that has the given code and returns one value, one page of
  memory and no imports; and floating-point parameters for programs without floats.
\<close>

definition sample :: "bytes \<Rightarrow> unit interp" where
  "sample code = \<lparr>bodies = (\<lambda>_. code), body_count = 1, local_counts = (\<lambda>_. 0),
     type_param_counts = (\<lambda>_. 0), type_result_counts = (\<lambda>_. 1), type_count = 1, func_type_indices = (\<lambda>_. 0),
     all_func_types = (\<lambda>_. 0), import_count = 0, table = (\<lambda>_. NULL_FUNC), table_size = 0,
     vstack = (\<lambda>_. 0), vsp = 0, frames = (\<lambda>_. BLANK_FRAME), fdepth = 0, ctrl = (\<lambda>_. BLANK_CTRL), ctrl_depth = 0,
     globals = (\<lambda>_. 7), global_mutable = (\<lambda>_. False), global_count = 1,
     mem = (\<lambda>_. 0), mem_len = 2 * PAGE_SIZE, host_fns = (\<lambda>_. None), jit_fns = (\<lambda>_. None),
     jump_table = build_jump_table (\<lambda>_. code) 1, current_pages = 1, max_pages = 2,
     yield_requested = False, shadow_stop_fdepth = 0,
     world = \<lparr>opcode_count = 0, func_call_count = (\<lambda>_. 0), kernel = ()\<rparr>\<rparr>"

definition no_floats :: float_env where
  "no_floats = \<lparr>nan32 = (\<lambda>_ _. 0), nan64 = (\<lambda>_ _. 0), libm32_1 = (\<lambda>_ _. 0), libm32_2 = (\<lambda>_ _ _. 0),
     libm64_1 = (\<lambda>_ _. 0), libm64_2 = (\<lambda>_ _ _. 0)\<rparr>"

definition entered :: "bytes \<Rightarrow> unit interp" where
  "entered code = (sample code)\<lparr>fdepth := 1, frames := (\<lambda>_. BLANK_FRAME\<lparr>result_count := 1\<rparr>)\<rparr>"

lemma sample_ok: "interp_ok (sample code)"
  by (simp add: sample_def interp_ok_def limits)

lemma entered_ready: "ready (entered code)"
  by (simp add: entered_def sample_def ready_def interp_ok_def frame_ok_def results_fit_def calm_callees_def
      BLANK_FRAME_def limits)

text \<open>Symbolic execution of a sample program.\<close>

lemmas exec_handlers = op_block_def op_if_def op_else_def op_end_def op_br_def op_br_if_def op_return_def
  op_i32_const_def op_drop_def op_unary_def op_binary_def next_pc_def continue_outer_def
lemmas exec_prims = v_push_def v_pop_def set_pc_def do_return_def do_br_def ctrl_push_def imm_u32_def
  read_i32_at_def read_i32_leb128_def read_u32_at_def read_u32_leb128_def slice_from_def
lemmas exec_simps = run_numeral step_running sm_defs limits exec_handlers exec_prims count_opcode_def Let_def
  low32_def of_i32_def

lemma interp_new_ok:
  assumes "interp_new m n memory len hosts pages w = Ok s"
    and "unat pages \<le> len div PAGE_SIZE" and "len div PAGE_SIZE < 2 ^ 32"
    and "\<forall>i h. hosts i = Some h \<longrightarrow> host_ok h"
  shows "interp_ok s"
proof -
  have "unat (word_of_nat (len div PAGE_SIZE) :: u32) = len div PAGE_SIZE"
    using assms(3) by (simp add: unat_word_of_nat)
  moreover have "len div PAGE_SIZE * PAGE_SIZE \<le> len" by simp
  moreover have "len < 2 ^ 63" using assms(3) by (simp add: PAGE_SIZE_def)
  moreover have "body_count s \<le> MAX_FUNCS \<and> global_count s \<le> MAX_GLOBALS \<and> table_size s \<le> MAX_TABLE"
    using assms(1)
    by (auto simp: interp_new_def res_simps opt_section_eq_Ok
        dest!: parse_code_section_count parse_global_section_count parse_element_section_size)
  ultimately show ?thesis
    using assms by (auto simp: interp_new_def res_simps interp_ok_def word_le_nat_alt)
qed

section \<open>Properties\<close>

lemma reset_ok: "interp_ok s \<Longrightarrow> interp_ok (reset_for_call s)"
  by (simp add: interp_ok_def reset_for_call_def)

text \<open>
  C4: The machine invariant (stack pointers inside their fixed-size arrays, active pages inside the
  memory slice, every live frame with a valid body and at most 64 locals) is kept by every call,
  resumption and reset, for any code, whatever the outcome.
\<close>
theorem interpreter_invariant:
  assumes "interp_ok s"
  shows "interp_ok (snd (call fuel fe f s)) \<and> interp_ok (snd (resume fuel fe s)) \<and> interp_ok (reset_for_call s)"
  using keepsD [OF ok.call_function_keeps assms] keepsD [OF ok.run_keeps assms] reset_ok [OF assms]
  by (simp add: resume_def)

theorem interpreter_invariant_witness:
  "interp_ok (snd (call 9 no_floats 0 (sample [0x41, 5, 0x0B]))) \<and> interp_ok (snd (resume 9 no_floats (sample [0x41, 5, 0x0B])))
   \<and> interp_ok (reset_for_call (sample [0x41, 5, 0x0B]))"
  by (rule interpreter_invariant [OF sample_ok])

text \<open>
  An interpreter built from a module satisfies the invariant, if the initial pages fit the memory
  slice and the host functions keep the stack pointer inside the stack.
\<close>
theorem interp_new_establishes_invariant:
  assumes "interp_new m n memory len hosts pages w = Ok s"
    and "unat pages \<le> len div PAGE_SIZE" and "len div PAGE_SIZE < 2 ^ 32"
    and "\<forall>i h. hosts i = Some h \<longrightarrow> host_ok h"
  shows "interp_ok s"
  by (rule interp_new_ok [OF assms])

theorem interp_new_establishes_invariant_witness:
  "\<exists>s. interp_new (empty_module\<lparr>code_section := Some [1, 4, 0, 0x41, 5, 0x0B]\<rparr>) 0 (\<lambda>_. 0) 65536 (\<lambda>_. None) 1
     \<lparr>opcode_count = 0, func_call_count = (\<lambda>_. 0), kernel = ()\<rparr> = Ok s \<and> interp_ok s"
proof -
  let ?w = "\<lparr>opcode_count = 0, func_call_count = (\<lambda>_. 0), kernel = ()\<rparr>"
  obtain s where s: "interp_new (empty_module\<lparr>code_section := Some [1, 4, 0, 0x41, 5, 0x0B]\<rparr>) 0 (\<lambda>_. 0) 65536
      (\<lambda>_. None) 1 ?w = Ok s"
    by (simp add: interp_new_def empty_module_def parse_code_section_def read_u32_at_def read_u32_leb128_def limits slice_def)
  from interp_new_establishes_invariant [OF this] s show ?thesis by (simp add: limits)
qed



text \<open>
  The two preconditions are needed, since the code is not validated before it runs: a stray
  \<open>else\<close> in a function underflows the control-stack index, and a function that returns with a
  declared result although the value stack is full of its caller's values indexes past the stack.
\<close>
theorem malformed_code_panics:
  "fst (call 5 fe 0 (sample [0x05])) = Panic
   \<and> fst (run 5 fe ((entered [0x0B])\<lparr>vsp := 256, frames := (\<lambda>_. BLANK_FRAME\<lparr>result_count := 1, vsp_base := 256\<rparr>)\<rparr>)) = Panic"
  by (simp add: call_def push_frame_def type_arity_def sample_def entered_def exec_simps BLANK_FRAME_def)

text \<open>
  A run changes neither the code and tables of the module nor the size of its memory nor the host
  and native function tables.
\<close>
theorem run_keeps_module: "same_module s (snd (run fuel fe s))"
proof -
  have "same_module s s" by (simp add: same_module_def)
  then show ?thesis by (rule keepsD [OF code.run_keeps])
qed

text \<open>
  Without native code, no instruction sequence and no host call ever changes an immutable global.
\<close>
theorem immutable_globals_constant:
  assumes "jit_fns s = (\<lambda>_. None)" and "\<not> global_mutable s i"
  shows "globals (snd (run fuel fe s)) i = globals s i"
proof -
  have "const_globals (globals s) (global_mutable s) s" using assms(1) by (simp add: const_globals_def)
  then have "const_globals (globals s) (global_mutable s) (snd (run fuel fe s))"
    by (rule keepsD [OF immutable.run_keeps])
  with assms(2) show ?thesis by (simp add: const_globals_def)
qed

theorem immutable_globals_constant_witness:
  "globals (snd (run 9 no_floats (entered [0x41, 1, 0x24, 0, 0x0B]))) 0 = globals (entered [0x41, 1, 0x24, 0, 0x0B]) 0"
  by (rule immutable_globals_constant) (simp_all add: entered_def sample_def)

end
