(* ===== verification/Isolation.thy ===== *)
theory Isolation
  imports Execution
begin

text \<open>
  What the execution of a module cannot touch (memory beyond its pages, the frames of its callers),
  how calls return, and how a computation suspended by a host function continues.
\<close>

section \<open>Linear memory\<close>

text \<open>
  Host functions that, given a memory slice of \<open>L\<close> bytes, change only its first \<open>B\<close> bytes; native code
  that does the same; at least \<open>A\<close> bytes active; and every byte beyond both the active pages and \<open>B\<close> as it was.
\<close>

definition host_confined :: "nat \<Rightarrow> nat \<Rightarrow> 'k host_fn \<Rightarrow> bool" where
  "host_confined L B h \<longleftrightarrow> (\<forall>st k. h_mem_len st = L \<and> B \<le> k \<longrightarrow> h_mem (snd (h st)) k = h_mem st k)"

definition jit_confined :: "nat \<Rightarrow> jit_fn \<Rightarrow> bool" where
  "jit_confined B f \<longleftrightarrow> (\<forall>m g l k. B \<le> k \<longrightarrow> fst (snd (f m g l)) k = m k)"

definition sandbox :: "nat \<Rightarrow> nat \<Rightarrow> u8 arr \<Rightarrow> 'k interp \<Rightarrow> bool" where
  "sandbox A B m0 s \<longleftrightarrow> (\<forall>i f. jit_fns s i = Some f \<longrightarrow> jit_confined B f)
     \<and> (\<forall>i h. host_fns s i = Some h \<longrightarrow> host_confined (mem_len s) B h)
     \<and> A \<le> active_mem_bytes s \<and> (\<forall>k. active_mem_bytes s \<le> k \<and> B \<le> k \<longrightarrow> mem s k = m0 k)"

lemma sandbox_blind:
  "sandbox A B m0 s \<Longrightarrow> sandbox A B m0 (s\<lparr>vstack := vs\<rparr>)" "sandbox A B m0 s \<Longrightarrow> sandbox A B m0 (s\<lparr>vsp := v\<rparr>)"
  "sandbox A B m0 s \<Longrightarrow> sandbox A B m0 (s\<lparr>frames := fr\<rparr>)" "sandbox A B m0 s \<Longrightarrow> sandbox A B m0 (s\<lparr>fdepth := d\<rparr>)"
  "sandbox A B m0 s \<Longrightarrow> sandbox A B m0 (s\<lparr>ctrl := cs\<rparr>)" "sandbox A B m0 s \<Longrightarrow> sandbox A B m0 (s\<lparr>ctrl_depth := c\<rparr>)"
  "sandbox A B m0 s \<Longrightarrow> sandbox A B m0 (s\<lparr>world := w\<rparr>)" "sandbox A B m0 s \<Longrightarrow> sandbox A B m0 (s\<lparr>globals := g\<rparr>)"
  "sandbox A B m0 s \<Longrightarrow> sandbox A B m0 (s\<lparr>yield_requested := y\<rparr>)"
  by (simp_all add: sandbox_def active_mem_bytes_def)

lemma sandbox_stack:
  "keeps (sandbox A B m0) (v_push v)" "keeps (sandbox A B m0) v_pop" "keeps (sandbox A B m0) (ctrl_push cf)"
  "keeps (sandbox A B m0) do_return"
  by (auto simp: v_push_def v_pop_def ctrl_push_def do_return_def Let_def intro!: keepsI sandbox_blind split: result.split)

lemma sandbox_modify:
  "keeps (sandbox A B m0) (modify (\<lambda>s. s\<lparr>ctrl_depth := f s\<rparr>))" "keeps (sandbox A B m0) (set_pc fi p)"
  "keeps (sandbox A B m0) (set_local fi i x)" "keeps (sandbox A B m0) (count_call k)"
  "keeps (sandbox A B m0) (modify (\<lambda>s. s\<lparr>globals := g s\<rparr>))"
  unfolding set_pc_def set_local_def count_call_def by (auto intro!: keeps_modify keeps_if keeps_ret sandbox_blind)

lemma sandbox_br_frame:
  "keeps (sandbox A B m0) (do_br l)" "keeps (sandbox A B m0) (push_frame b)" "keeps (sandbox A B m0) (op_global_set fi body p)"
  unfolding do_br_def push_frame_def op_global_set_def
  by (intro keeps_rules sandbox_stack sandbox_modify keeps_pop_params keeps_modify imm_keeps next_keeps sandbox_blind; assumption)+

text \<open>A write inside the active memory.\<close>

lemma sandbox_write:
  assumes "sandbox A B m0 s" and "\<And>k. active_mem_bytes s \<le> k \<Longrightarrow> m k = mem s k"
  shows "sandbox A B m0 (s\<lparr>mem := m\<rparr>)"
  using assms by (simp add: sandbox_def active_mem_bytes_def)

lemma sandbox_mem_write:
  assumes "sandbox A B m0 s" "a + length bs \<le> active_mem_bytes s"
  shows "sandbox A B m0 (s\<lparr>mem := mem_write (mem s) a bs\<rparr>)"
  using assms by (intro sandbox_write) (auto simp: mem_write_def)

lemma sandbox_mem_fill:
  assumes "sandbox A B m0 s" "a + n \<le> active_mem_bytes s"
  shows "sandbox A B m0 (s\<lparr>mem := mem_fill (mem s) a n x\<rparr>)"
  using assms by (intro sandbox_write) (auto simp: mem_fill_def)

lemma snd_next: "snd (sthen (modify f) (next_pc p) s) = f s"
  by (simp add: sthen_def sbind_def modify_def next_pc_def ret_def)

lemma sandbox_store:
  assumes "store_op op = Some (n, w)"
  shows "keeps (sandbox A B m0) (op_store n w fi body p)"
proof -
  have "keeps (sandbox A B m0) (sbind (gets id) (\<lambda>s.
     if ea + n > active_mem_bytes s then throw MemOutOfBounds
     else if ea + n > mem_len s then panic
     else sthen (modify (\<lambda>s. s\<lparr>mem := mem_write (mem s) ea (w v)\<rparr>)) (next_pc q)))" for ea v q
    by (rule keeps_read) (auto simp: snd_next throw_def panic_def store_op_length [OF assms] intro: sandbox_mem_write)
  then show ?thesis
    unfolding op_store_def Let_def by (intro keeps_sbind [OF imm_keeps(2)] keeps_case_prod keeps_sbind [OF sandbox_stack(2)])
qed

lemma sandbox_bulk:
  "keeps (sandbox A B m0) (op_memory_copy fi body p)" "keeps (sandbox A B m0) (op_memory_fill fi body p)"
proof -
  note pop = keeps_sbind [OF sandbox_stack(2)]
  show "keeps (sandbox A B m0) (op_memory_copy fi body p)"
    unfolding op_memory_copy_def
    by (rule pop, rule pop, rule pop, rule keeps_read)
      (auto simp: snd_next throw_def panic_def intro!: sandbox_mem_write saturating_le_active)
  show "keeps (sandbox A B m0) (op_memory_fill fi body p)"
    unfolding op_memory_fill_def
    by (rule pop, rule pop, rule pop, rule keeps_read)
      (auto simp: snd_next throw_def panic_def intro!: sandbox_mem_fill saturating_le_active)
qed

lemma active_grown:
  assumes "unat old + unat d < 2 ^ 32" "current_pages s = old"
  shows "active_mem_bytes (s\<lparr>current_pages := old + d\<rparr>) = active_mem_bytes s + unat d * PAGE_SIZE"
  using assms by (simp add: active_mem_bytes_def unat_plus_if' add_mult_distrib)

lemma sandbox_grow: "keeps (sandbox A B m0) (op_memory_grow fi body p)"
  unfolding op_memory_grow_def
proof (rule keeps_sbind [OF sandbox_stack(2)], rule keeps_read)
  fix d and s :: "'k interp" assume box: "sandbox A B m0 s"
  have push: "sandbox A B m0 (snd (sthen (v_push v) (next_pc q) t))" if "sandbox A B m0 t" for v q and t :: "'k interp"
    using that by (rule keepsD [rotated]) (intro keeps_rules sandbox_stack next_keeps)
  let ?t = "\<lambda>m. s\<lparr>mem := m, current_pages := current_pages s + low32 d\<rparr>"
  let ?m = "mem_fill (mem s) (unat (current_pages s) * PAGE_SIZE)
      (unat (current_pages s + low32 d) * PAGE_SIZE - unat (current_pages s) * PAGE_SIZE) 0"
  have grown: "sandbox A B m0 (?t ?m)" if "unat (current_pages s) + unat (low32 d) < 2 ^ 32"
  proof -
    have "active_mem_bytes (?t ?m) = active_mem_bytes s + unat (low32 d) * PAGE_SIZE"
      using active_grown [OF that, of "s\<lparr>mem := ?m\<rparr>"] by (simp add: active_mem_bytes_def)
    moreover have "active_mem_bytes (?t ?m) = unat (current_pages s + low32 d) * PAGE_SIZE"
      by (simp add: active_mem_bytes_def)
    ultimately show ?thesis
      using box by (auto simp: sandbox_def mem_fill_def active_mem_bytes_def)
  qed
  show "sandbox A B m0 (snd ((let delta = low32 d; old = current_pages s in
      if saturating_add_u32 old delta \<le> max_pages s then
        if unat old + unat delta \<ge> 2 ^ 32 then panic
        else let old_bytes = unat old * PAGE_SIZE; new_bytes = unat (old + delta) * PAGE_SIZE in
          if new_bytes > mem_len s then panic
          else sthen (modify (\<lambda>s. s\<lparr>mem := mem_fill (mem s) old_bytes (new_bytes - old_bytes) 0,
                 current_pages := old + delta\<rparr>))
               (sthen (v_push (of_u32 old)) (next_pc (p + 1)))
      else sthen (v_push (- 1)) (next_pc (p + 1))) s))"
    using box push push [OF grown] by (simp add: Let_def panic_def not_le sthen_def sbind_def modify_def)
qed

lemma sandbox_host: "keeps (sandbox A B m0) (call_host c)"
proof (rule keepsI)
  fix s :: "'k interp" assume box: "sandbox A B m0 s"
  have "sandbox A B m0 (snd (run_host h s))" if "host_fns s c = Some h" for h
  proof -
    let ?st = "\<lparr>h_vstack = vstack s, h_vsp = vsp s, h_mem = mem s, h_mem_len = mem_len s, h_world = world s\<rparr>"
    have "\<forall>k. B \<le> k \<longrightarrow> h_mem (snd (h ?st)) k = mem s k"
      using box that by (auto simp: sandbox_def host_confined_def)
    with box show ?thesis
      by (cases "h ?st") (auto simp: run_host_def sandbox_def active_mem_bytes_def)
  qed
  with box show "sandbox A B m0 (snd (call_host c s))"
    by (auto simp: call_host_def sbind_def gets_def panic_def throw_def split: option.split)
qed

lemma sandbox_jit:
  assumes "sandbox A B m0 s" and "jit_fns s c = Some f"
  shows "keeps (sandbox A B m0) (call_jit f c)"
proof -
  have f: "jit_confined B f" using assms by (auto simp: sandbox_def)
  have tail: "keeps (sandbox A B m0) (sbind (gets id) (\<lambda>s. case f (mem s) (globals s) ls of (r, m, g) \<Rightarrow>
      sthen (modify (\<lambda>s. s\<lparr>mem := m, globals := g\<rparr>)) (if n then v_push r else ret ())))" for ls n
  proof (rule keeps_read)
    fix t :: "'k interp" assume box: "sandbox A B m0 t"
    obtain r m g where r: "f (mem t) (globals t) ls = (r, m, g)" by (cases "f (mem t) (globals t) ls") auto
    have "sandbox A B m0 (t\<lparr>mem := m, globals := g\<rparr>)"
      using box f r by (auto simp: sandbox_def jit_confined_def active_mem_bytes_def) (metis fst_conv snd_conv)
    then show "sandbox A B m0 (snd ((case f (mem t) (globals t) ls of (r, m, g) \<Rightarrow>
        sthen (modify (\<lambda>s. s\<lparr>mem := m, globals := g\<rparr>)) (if n then v_push r else ret ())) t))"
      by (simp add: r run_modify keepsD [OF sandbox_stack(1)] keepsD [OF keeps_ret])
  qed
  show ?thesis
    unfolding call_jit_def Let_def
    by (intro keeps_rules tail keeps_pop_params sandbox_stack) 
qed

interpretation sandbox: machine_invariant "sandbox A B m0" for A B m0
  by (unfold_locales; (intro handler_invariant.intro)?)
    (rule sandbox_stack sandbox_modify sandbox_br_frame sandbox_bulk sandbox_grow sandbox_host
    | erule sandbox_store | erule (1) sandbox_jit | simp add: count_opcode_def sandbox_blind)+

section \<open>Returning\<close>

lemma copy_results_spec:
  assumes "copy_results k i src base vs = Ok vs'" and "base \<le> src"
  shows "(\<forall>j. i \<le> j \<and> j < i + k \<longrightarrow> vs' (base + j) = vs (src + j))
     \<and> (\<forall>a. a < base + i \<or> base + i + k \<le> a \<longrightarrow> vs' a = vs a)"
  using assms
proof (induction k arbitrary: i vs)
  case 0
  then show ?case by auto
next
  case (Suc k)
  let ?vs = "vs(base + i := vs (src + i))"
  have rest: "copy_results k (i + 1) src base ?vs = Ok vs'"
    using Suc.prems(1) by (auto split: if_splits)
  note IH = Suc.IH [OF rest Suc.prems(2)]
  have "vs' (base + j) = vs (src + j)" if "i \<le> j" "j < i + Suc k" for j
  proof (cases "j = i")
    case True
    have "vs' (base + i) = ?vs (base + i)" using IH by (metis add_less_cancel_left less_add_one)
    with True show ?thesis by simp
  next
    case False
    with that IH have "vs' (base + j) = ?vs (src + j)" by simp
    with False that Suc.prems(2) show ?thesis by auto
  qed
  moreover have "vs' a = vs a" if "a < base + i \<or> base + i + Suc k \<le> a" for a
    using IH that by auto
  ultimately show ?case by blast
qed

lemma do_return_spec:
  assumes "0 < fdepth s" "fdepth s \<le> CALL_DEPTH" "vsp s \<le> STACK_DEPTH"
    and f: "f = frames s (fdepth s - 1)" "vsp_base f + result_count f \<le> vsp s"
  obtains vs where "do_return s = (Ok (), s\<lparr>vstack := vs, vsp := vsp_base f + result_count f,
      ctrl_depth := ctrl_base f, fdepth := fdepth s - 1\<rparr>)"
    and "\<forall>j < result_count f. vs (vsp_base f + j) = vstack s (vsp s - result_count f + j)"
    and "\<forall>a < vsp_base f. vs a = vstack s a"
proof -
  let ?src = "vsp s - result_count f"
  obtain vs where vs: "copy_results (result_count f) 0 ?src (vsp_base f) (vstack s) = Ok vs"
    using calm_copy_results [of ?src 0 "result_count f" "vsp_base f" "vstack s"] assms by auto
  have "vsp_base f \<le> ?src" using f(2) by simp
  from copy_results_spec [OF vs this] show ?thesis
    using assms vs f(1) by (intro that [of vs]) (auto simp: do_return_def Let_def)
qed

section \<open>Callers\<close>

text \<open>
  \<open>leads P Q m\<close>: from \<open>P\<close>, running \<open>m\<close> ends in \<open>Q\<close>, whatever the outcome. A handler keeps \<open>P\<close>
  until, perhaps, its last action.
\<close>

definition leads :: "('s \<Rightarrow> bool) \<Rightarrow> ('s \<Rightarrow> bool) \<Rightarrow> ('s, 'e, 'a) sm \<Rightarrow> bool" where
  "leads P Q m \<longleftrightarrow> (\<forall>s. P s \<longrightarrow> Q (snd (m s)))"

lemma leads_keeps: "keeps P m \<Longrightarrow> (\<And>s. P s \<Longrightarrow> Q s) \<Longrightarrow> leads P Q m"
  by (auto simp: leads_def keeps_def)

text \<open>The frames of the callers of frame \<open>fi\<close>, while \<open>fi\<close> is live and after it has returned.\<close>

definition callers :: "frame arr \<Rightarrow> nat \<Rightarrow> 'k interp \<Rightarrow> bool" where
  "callers F fi s \<longleftrightarrow> (\<forall>i < fi. frames s i = F i)"

definition callers_live :: "frame arr \<Rightarrow> nat \<Rightarrow> 'k interp \<Rightarrow> bool" where
  "callers_live F fi s \<longleftrightarrow> fi < fdepth s \<and> callers F fi s"

lemma callers_blind:
  "callers_live F fi s \<Longrightarrow> callers_live F fi (s\<lparr>vstack := vs\<rparr>)" "callers_live F fi s \<Longrightarrow> callers_live F fi (s\<lparr>vsp := v\<rparr>)"
  "callers_live F fi s \<Longrightarrow> callers_live F fi (s\<lparr>ctrl := cs\<rparr>)" "callers_live F fi s \<Longrightarrow> callers_live F fi (s\<lparr>ctrl_depth := c\<rparr>)"
  "callers_live F fi s \<Longrightarrow> callers_live F fi (s\<lparr>mem := m\<rparr>)" "callers_live F fi s \<Longrightarrow> callers_live F fi (s\<lparr>world := w\<rparr>)"
  "callers_live F fi s \<Longrightarrow> callers_live F fi (s\<lparr>globals := g\<rparr>)"
  "callers_live F fi s \<Longrightarrow> callers_live F fi (s\<lparr>current_pages := n\<rparr>)"
  by (simp_all add: callers_live_def callers_def)

lemma callers_stack:
  "keeps (callers_live F fi) (v_push v)" "keeps (callers_live F fi) v_pop" "keeps (callers_live F fi) (ctrl_push cf)"
  by (auto simp: v_push_def v_pop_def ctrl_push_def intro!: keepsI callers_blind)

lemma callers_modify:
  "keeps (callers_live F fi) (modify (\<lambda>s. s\<lparr>ctrl_depth := f s\<rparr>))" "keeps (callers_live F fi) (set_pc fi p)"
  "keeps (callers_live F fi) (set_local fi i x)" "keeps (callers_live F fi) (count_call k)"
  unfolding set_pc_def set_local_def count_call_def
  by (auto intro!: keeps_modify keeps_if keeps_ret callers_blind simp: callers_live_def callers_def)

lemma callers_push_frame: "keeps (callers_live F fi) (push_frame b)"
  unfolding push_frame_def
  by (intro keeps_rules keeps_pop_params callers_stack keeps_modify) (auto simp: callers_live_def callers_def)

lemma callers_memory:
  "keeps (callers_live F fi) (op_store k f fj body p)" "keeps (callers_live F fi) (op_memory_copy fj body p)"
  "keeps (callers_live F fi) (op_memory_fill fj body p)" "keeps (callers_live F fi) (op_memory_grow fj body p)"
  "keeps (callers_live F fi) (op_global_set fj body p)" "keeps (callers_live F fi) (call_jit jf c)"
  unfolding op_store_def op_memory_copy_def op_memory_fill_def op_memory_grow_def op_global_set_def call_jit_def
  by (intro keeps_rules imm_keeps next_keeps keeps_pop_params callers_stack keeps_modify callers_blind; assumption)+

lemma callers_host: "keeps (callers_live F fi) (call_host k)"
  unfolding call_host_def run_host_def
  by (intro keeps_rules keepsI) (auto intro: callers_blind split: prod.split)

interpretation callers: handler_invariant "callers_live F fi" fi for F fi
  by unfold_locales (rule callers_stack callers_modify callers_push_frame callers_memory callers_host)+

lemma leads_sbind: "keeps P m \<Longrightarrow> (\<And>x. leads P Q (f x)) \<Longrightarrow> (\<And>s. P s \<Longrightarrow> Q s) \<Longrightarrow> leads P Q (sbind m f)"
  by (fastforce simp: leads_def keeps_def sbind_def split: prod.split result.split)

lemma leads_last: "leads P Q m \<Longrightarrow> keeps Q k \<Longrightarrow> leads P Q (sthen m k)"
  by (fastforce simp: leads_def keeps_def sthen_def sbind_def split: prod.split result.split)

lemma callers_return: "leads (callers_live F fi) (callers F fi) do_return"
  by (auto simp: leads_def do_return_def callers_live_def callers_def Let_def split: result.split)

lemma callers_br: "leads (callers_live F fi) (callers F fi) (do_br n)"
  using callers_return [of F fi]
  by (auto simp: leads_def do_br_def sm_defs set_pc_def callers_live_def callers_def Let_def)

lemma callers_stay: "keeps (callers_live F fi) m \<Longrightarrow> leads (callers_live F fi) (callers F fi) m"
  by (erule leads_keeps) (simp add: callers_live_def)

lemma callers_jump:
  "leads (callers_live F fi) (callers F fi) (op_end fi body p)" "leads (callers_live F fi) (callers F fi) (op_br fi body p)"
  "leads (callers_live F fi) (callers F fi) (op_br_if fi body p)" "leads (callers_live F fi) (callers F fi) (op_br_table fi body p)"
  "leads (callers_live F fi) (callers F fi) (op_return fi body p)"
proof -
  have last: "leads (callers_live F fi) (callers F fi) (sthen do_return continue_outer)"
    "leads (callers_live F fi) (callers F fi) (sthen (do_br n) continue_outer)" for n
    by (intro leads_last callers_return callers_br next_keeps)+
  have jump: "leads (callers_live F fi) (callers F fi) (sthen (set_pc fi q) (sthen (do_br n) continue_outer))" for q n
    unfolding sthen_def [of "set_pc fi q"] using last(2)
    by (intro leads_sbind callers_modify) (auto simp: callers_live_def)
  note rules = leads_sbind callers_stack imm_keeps keeps_gets keeps_lift
  show "leads (callers_live F fi) (callers F fi) (op_br fi body p)"
    "leads (callers_live F fi) (callers F fi) (op_br_if fi body p)"
    "leads (callers_live F fi) (callers F fi) (op_br_table fi body p)"
    unfolding op_br_def op_br_if_def op_br_table_def Let_def
    by (auto intro!: rules jump callers_stay [OF next_keeps(1)] simp: callers_live_def split: prod.split)
  show "leads (callers_live F fi) (callers F fi) (op_end fi body p)"
    unfolding op_end_def
    by (intro rules) (auto intro!: callers_stay keeps_sthen callers_modify next_keeps last simp: callers_live_def)
  show "leads (callers_live F fi) (callers F fi) (op_return fi body p)"
    unfolding op_return_def by (rule last)
qed

lemma callers_dispatch: "leads (callers_live F fi) (callers F fi) (dispatch fe op fi body p)"
proof (cases "op \<in> {0x0B, 0x0C, 0x0D, 0x0E, 0x0F}")
  case True
  with callers_jump show ?thesis by auto
next
  case False
  then show ?thesis
    by (intro leads_keeps callers.dispatch_keeps_unless) (auto simp: callers_live_def)
qed

lemma keeps_after: "Q (snd (m s)) \<Longrightarrow> (\<And>x. keeps Q (f x)) \<Longrightarrow> Q (snd (sbind m f s))"
  by (cases "m s") (auto simp: keeps_def sbind_def split: result.split)

lemma callers_step:
  fixes s :: "'k interp"
  assumes "0 < fdepth s" and "i < fdepth s - 1"
  shows "frames (snd (step fe s)) i = frames s i"
proof -
  obtain fi where fi: "fdepth s = Suc fi" using assms(1) by (cases "fdepth s") auto
  let ?F = "frames s"
  have live: "callers_live ?F fi s" "callers_live ?F fi (count_opcode s)"
    using fi by (simp_all add: callers_live_def callers_def count_opcode_def)
  have set_pc: "keeps (callers ?F fi :: 'k interp \<Rightarrow> bool) (set_pc fi p)" for p
    unfolding set_pc_def by (rule keeps_modify) (simp add: callers_def)
  have "callers ?F fi (snd (dispatch fe op fi body p (count_opcode s)))" for op body p
    using live(2) by (rule callers_dispatch [unfolded leads_def, rule_format])
  then have "callers ?F fi (snd (sbind (dispatch fe op fi body p)
      (\<lambda>next. case next of Some p' \<Rightarrow> set_pc fi p' | None \<Rightarrow> ret ()) (count_opcode s)))" for op body p
    by (rule keeps_after) (intro keeps_case_option set_pc keeps_ret)
  moreover have "callers ?F fi (snd (do_return s))"
    using live(1) by (rule callers_return [unfolded leads_def, rule_format])
  moreover have "callers ?F fi s" "callers ?F fi (s\<lparr>yield_requested := False\<rparr>)" by (simp_all add: callers_def)
  ultimately have "callers ?F fi (snd (step fe s))"
    by (simp add: step_def fi Let_def run_first)
  with assms(2) fi show ?thesis by (simp add: callers_def)
qed

section \<open>Fuel\<close>

lemma run_Suc: "run fuel fe s = (r, s') \<Longrightarrow> r \<noteq> Hang \<Longrightarrow> run (Suc fuel) fe s = (r, s')"
proof (induction fuel arbitrary: s)
  case 0
  then show ?case by (auto split: if_splits)
next
  case (Suc fuel)
  show ?case
  proof (cases "fdepth s > shadow_stop_fdepth s")
    case False
    with Suc.prems show ?thesis by simp
  next
    case True
    obtain r1 s1 where step: "step fe s = (r1, s1)" by (cases "step fe s")
    show ?thesis
    proof (cases r1)
      case (Ok u)
      with Suc.prems step True have "run fuel fe s1 = (r, s')" by (simp add: sthen_def sbind_def)
      with Suc.IH Suc.prems(2) have "run (Suc fuel) fe s1 = (r, s')" by blast
      with Ok step True show ?thesis by (simp add: sthen_def sbind_def del: run.simps(2) add: run.simps(2) [of "Suc fuel"])
    qed (use Suc.prems step True in \<open>auto simp: sthen_def sbind_def\<close>)
  qed
qed

lemma run_mono: "run fuel fe s = (r, s') \<Longrightarrow> r \<noteq> Hang \<Longrightarrow> fuel \<le> fuel' \<Longrightarrow> run fuel' fe s = (r, s')"
  by (induction fuel') (auto intro: run_Suc simp: le_Suc_eq simp del: run.simps)

lemma sandbox_run:
  assumes "\<forall>i f. jit_fns s i = Some f \<longrightarrow> jit_confined B f"
    and "\<forall>i h. host_fns s i = Some h \<longrightarrow> host_confined (mem_len s) B h"
  shows "sandbox (active_mem_bytes s) B (mem s) (snd (run fuel fe s))"
  by (rule keepsD [OF sandbox.run_keeps]) (use assms in \<open>simp add: sandbox_def\<close>)

lemma entered_mem: "jit_fns (entered c) = (\<lambda>_. None)" "host_fns (entered c) i = None" "mem (entered c) k = 0"
  by (simp_all add: entered_def sample_def)

section \<open>Properties\<close>



text \<open>
  C32: \<open>memory.grow\<close> either extends the memory by the popped number of pages, all zero, keeps the old
  contents and pushes the old page count, or, when the limit would be exceeded, pushes -1 and changes
  neither the size nor the contents.
\<close>
theorem memory_grow_spec:
  assumes "interp_ok s" and "unat (max_pages s) < 2 ^ 32 - 1" and "0 < vsp s"
    and d: "d = unat (low32 (vstack s (vsp s - 1)))"
  shows "\<exists>s'. op_memory_grow fi body p s = (Ok (Some (p + 1)), s') \<and> vsp s' = vsp s
    \<and> (if unat (current_pages s) + d \<le> unat (max_pages s)
       then top s' = Some (of_u32 (current_pages s)) \<and> unat (current_pages s') = unat (current_pages s) + d
         \<and> (\<forall>k < active_mem_bytes s. mem s' k = mem s k)
         \<and> (\<forall>k. active_mem_bytes s \<le> k \<and> k < active_mem_bytes s' \<longrightarrow> mem s' k = 0)
       else top s' = Some (- 1) \<and> current_pages s' = current_pages s \<and> mem s' = mem s)"
proof -
  let ?d = "low32 (vstack s (vsp s - 1))"
  have vsp: "vsp s \<le> STACK_DEPTH" "\<not> STACK_DEPTH \<le> vsp s - 1" using assms(1,3) by (auto simp: interp_ok_def)
  have pages: "unat (max_pages s) * PAGE_SIZE \<le> mem_len s" using assms(1) by (simp add: interp_ok_def)
  have fits: "saturating_add_u32 (current_pages s) ?d \<le> max_pages s \<longleftrightarrow> unat (current_pages s) + d \<le> unat (max_pages s)"
    using assms(2) unfolding d
    by (auto simp: saturating_add_u32_def word_le_nat_alt unat_plus_if' unsigned_minus_1_eq_mask mask_eq_exp_minus_1)
  show ?thesis
  proof (cases "unat (current_pages s) + d \<le> unat (max_pages s)")
    case False
    then show ?thesis
      using fits vsp assms(3) d
      by (auto simp: op_memory_grow_def sm_defs v_pop_def v_push_def next_pc_def Let_def top_def)
  next
    case True
    then have sum: "unat (current_pages s) + unat ?d < 2 ^ 32" using assms(2) d by simp
    then have new: "unat (current_pages s + ?d) = unat (current_pages s) + d" using d by (simp add: unat_plus_if')
    then have "unat (current_pages s + ?d) * PAGE_SIZE \<le> unat (max_pages s) * PAGE_SIZE"
      using True by (auto intro: mult_le_mono1)
    with pages have len: "\<not> mem_len s < unat (current_pages s + ?d) * PAGE_SIZE" by linarith
    let ?s = "s\<lparr>vsp := vsp s - 1 + 1, mem := mem_fill (mem s) (unat (current_pages s) * PAGE_SIZE)
        (unat (current_pages s + ?d) * PAGE_SIZE - unat (current_pages s) * PAGE_SIZE) 0,
        current_pages := current_pages s + ?d, vstack := (vstack s)(vsp s - 1 := of_u32 (current_pages s))\<rparr>"
    have "op_memory_grow fi body p s = (Ok (Some (p + 1)), ?s)"
      using True fits vsp assms(3) sum len
      by (simp add: op_memory_grow_def sthen_def sbind_def gets_def modify_def ret_def v_pop_def v_push_def next_pc_def Let_def)
    moreover have "unat (current_pages s) * PAGE_SIZE \<le> unat (current_pages s + ?d) * PAGE_SIZE"
      using new by (auto intro: mult_le_mono1)
    ultimately show ?thesis
      using True new assms(3) by (auto simp: top_def mem_fill_def active_mem_bytes_def)
  qed
qed

theorem memory_grow_spec_witness:
  "\<exists>s'. op_memory_grow 0 [] 3 ((entered [])\<lparr>vsp := 1, vstack := (\<lambda>_. 1)\<rparr>) = (Ok (Some 4), s')
     \<and> top s' = Some 1 \<and> unat (current_pages s') = 2"
  using memory_grow_spec [of "(entered [])\<lparr>vsp := 1, vstack := (\<lambda>_. 1)\<rparr>" 1 0 "[]" 3] entered_ready [of "[]"]
  by (auto simp: entered_def sample_def ready_def interp_ok_def frame_ok_def BLANK_FRAME_def low32_def of_u32_def limits)

text \<open>
  A store followed by a load of the same width at the same address gives back the stored value,
  narrowed by the store and widened by the load.
\<close>
theorem store_then_load:
  assumes "store_op st = Some (n, narrow)" and "load_op ld = Some (n, widen)"
    and "vsp s = k + 2" and "op_store n narrow fi body p s = (Ok (Some q), s1)"
  shows "\<exists>s2. sthen (v_push (vstack s k)) (op_load n widen fi body p) s1 = (Ok (Some q), s2)
     \<and> top s2 = Some (widen (narrow (vstack s (k + 1)))) \<and> mem s2 = mem s1"
proof -
  let ?v = "vstack s (k + 1)" let ?a = "vstack s k"
  from assms(3,4) obtain off where imm: "imm_memarg body p t = (Ok (off, q), t)" for t :: "'a interp"
    by (auto simp: op_store_def imm_memarg_def sm_defs Let_def next_pc_def split: result.splits prod.splits if_splits)
  let ?ea = "unat (low32 ?a) + unat off"
  have s1: "s1 = s\<lparr>vsp := k, mem := mem_write (mem s) ?ea (narrow ?v)\<rparr>" "?ea + n \<le> active_mem_bytes s"
    "?ea + n \<le> mem_len s" "k < STACK_DEPTH"
    using assms(3,4) by (auto simp: op_store_def imm sm_defs v_pop_def Let_def next_pc_def active_mem_bytes_def split: if_splits)
  have "mem_read (mem s1) ?ea n = narrow ?v"
    using store_op_length [OF assms(1), of ?v] s1(1) by simp
  with s1 show ?thesis
    by (simp add: op_load_def imm sm_defs v_push_def v_pop_def next_pc_def Let_def active_mem_bytes_def top_def)
qed

theorem store_then_load_witness:
  "\<exists>s2. sthen (v_push 8) (op_load 4 (\<lambda>bs. of_i32 (from_le bs)) 0 [2, 0] 0)
     (snd (op_store 4 (\<lambda>v. le_bytes32 (low32 v)) 0 [2, 0] 0 ((entered [])\<lparr>vsp := 2, vstack := (\<lambda>i. if i = 0 then 8 else - 2)\<rparr>)))
     = (Ok (Some 2), s2) \<and> top s2 = Some (- 2)"
proof -
  let ?s = "(entered [])\<lparr>vsp := 2, vstack := (\<lambda>i. if i = 0 then 8 else - 2)\<rparr>"
  obtain s1 where "op_store 4 (\<lambda>v. le_bytes32 (low32 v)) 0 [2, 0] 0 ?s = (Ok (Some 2), s1)"
    by (simp add: op_store_def imm_memarg_def read_memarg_def read_u32_leb128_def sm_defs v_pop_def entered_def
        sample_def active_mem_bytes_def low32_def next_pc_def Let_def limits)
  with store_then_load [of "0x36" 4 "\<lambda>v. le_bytes32 (low32 v)" "0x28" "\<lambda>bs. of_i32 (from_le bs)" ?s 0 0 "[2, 0]" 0 2 s1]
  show ?thesis by (auto simp: store_op_def load_op_def low32_def of_i32_def)
qed

text \<open>
  While a function runs, nothing it does touches its callers: one iteration of the loop leaves every
  frame below the running one (its locals, return address and stack bases) unchanged, even when it calls
  or returns.
\<close>
theorem caller_frames_untouched:
  assumes "i + 1 < fdepth s"
  shows "frames (snd (step fe s)) i = frames s i"
  using assms by (intro callers_step) auto

theorem caller_frames_untouched_witness:
  "frames (snd (step no_floats ((entered [0x0F])\<lparr>fdepth := 2\<rparr>))) 0 = frames ((entered [0x0F])\<lparr>fdepth := 2\<rparr>) 0"
  by (rule caller_frames_untouched) simp

text \<open>
  Returning collapses the operand stack: the top \<open>result_count\<close> values move, in order, to the
  stack base of the frame, everything below the base is kept, the control stack is cut back to the
  caller's depth and the frame is popped. The ascending copy is correct although the ranges may overlap.
\<close>
theorem do_return_collapses:
  assumes "0 < fdepth s" and "fdepth s \<le> CALL_DEPTH" and "vsp s \<le> STACK_DEPTH"
    and "f = frames s (fdepth s - 1)" and "vsp_base f + result_count f \<le> vsp s"
  shows "\<exists>s'. do_return s = (Ok (), s') \<and> fdepth s' = fdepth s - 1 \<and> ctrl_depth s' = ctrl_base f
     \<and> vsp s' = vsp_base f + result_count f
     \<and> (\<forall>j < result_count f. vstack s' (vsp_base f + j) = vstack s (vsp s - result_count f + j))
     \<and> (\<forall>a < vsp_base f. vstack s' a = vstack s a)"
  by (rule do_return_spec [OF assms]) auto

theorem do_return_collapses_witness:
  "\<exists>s'. do_return ((entered [])\<lparr>vsp := 3, vstack := (\<lambda>i. word_of_nat i)\<rparr>) = (Ok (), s') \<and> vsp s' = 1 \<and> vstack s' 0 = 2"
  using do_return_collapses [of "(entered [])\<lparr>vsp := 3, vstack := (\<lambda>i. word_of_nat i)\<rparr>" "BLANK_FRAME\<lparr>result_count := 1\<rparr>"]
  by (auto simp: entered_def BLANK_FRAME_def limits)

text \<open>
  The outcome of a run does not depend on the fuel of the model: once a run has returned, trapped or
  suspended, every larger bound gives the same outcome and state.
\<close>
theorem run_fuel_irrelevant:
  assumes "run fuel fe s = (r, s')" and "r \<noteq> Hang" and "fuel \<le> fuel'"
  shows "run fuel' fe s = (r, s')"
  using assms by (rule run_mono)

lemma sample_returns: "run 3 fe (entered [0x41, 5, 0x0B]) = (Ok (), snd (run 3 fe (entered [0x41, 5, 0x0B])))"
  by (simp add: entered_def sample_def exec_simps BLANK_FRAME_def)

theorem run_fuel_irrelevant_witness:
  "run 100 no_floats (entered [0x41, 5, 0x0B]) = (Ok (), snd (run 3 no_floats (entered [0x41, 5, 0x0B])))"
  by (rule run_fuel_irrelevant [OF sample_returns]) simp_all

text \<open>
  A branch does not unwind the operand stack to the height of the target block: in
  \<open>i32.const 5; block; i32.const 1; br 0; end; i32.const 7; i32.add\<close> the value pushed inside the block is
  still on the stack after the branch, so the sum is 8; with the stack unwound to the block's entry it
  would be 12.
\<close>
theorem branch_leaves_block_values:
  "\<exists>s'. call 20 fe 0 (sample [0x41, 5, 0x02, 0x40, 0x41, 1, 0x0C, 0, 0x0B, 0x41, 7, 0x6A, 0x0B]) = (Ok (), s')
     \<and> top s' = Some 8"
proof -
  let ?code = "[0x41, 5, 0x02, 0x40, 0x41, 1, 0x0C, 0, 0x0B, 0x41, 7, 0x6A, 0x0B] :: bytes"
  have "scan_block_end ?code 4 = Some (8, NO_ELSE)"
    by (simp add: scan_block_end_def scan_loop.simps scan_imm_def is_leb1_op_def skip_leb128_def word_le_nat_alt)
  then have "block_target (build_jump_table (\<lambda>_. ?code) 1) ?code 0 4 MalformedCode = Ok (8, NO_ELSE)"
    using block_target_eq_scan [of 1 "\<lambda>_. ?code" 0 4 MalformedCode] by (simp add: JUMP_SLOTS_def)
  then have "block_target (build_jump_table (\<lambda>_. ?code) (Suc 0)) ?code 0 (Suc (Suc (Suc (Suc 0)))) MalformedCode
      = Ok (8, NO_ELSE)"
    by (simp add: eval_nat_numeral)
  then show ?thesis
    by (simp add: call_def push_frame_def type_arity_def sample_def exec_simps top_def)
qed

end
