(* ===== verification/Suspension.thy ===== *)
theory Suspension
  imports Isolation
begin

text \<open>
  Suspension and resumption. A host function suspends the program by returning \<open>Err Yielded\<close>; the
  task layer later calls \<open>resume\<close>. The development compares such an execution with that of a machine
  whose host functions have the same effects but return normally.
\<close>

definition unyield :: "'k host_fn \<Rightarrow> 'k host_fn" where
  "unyield h st = (case h st of (r, st') \<Rightarrow> (if r = Err Yielded then Ok () else r, st'))"

definition no_yield :: "'k interp \<Rightarrow> 'k interp" where
  "no_yield s = s\<lparr>host_fns := (\<lambda>i. map_option unyield (host_fns s i))\<rparr>"

lemma no_yield_sel [simp]:
  "bodies (no_yield s) = bodies s" "body_count (no_yield s) = body_count s" "local_counts (no_yield s) = local_counts s"
  "type_param_counts (no_yield s) = type_param_counts s" "type_result_counts (no_yield s) = type_result_counts s"
  "type_count (no_yield s) = type_count s" "func_type_indices (no_yield s) = func_type_indices s"
  "all_func_types (no_yield s) = all_func_types s" "import_count (no_yield s) = import_count s"
  "table (no_yield s) = table s" "table_size (no_yield s) = table_size s" "vstack (no_yield s) = vstack s"
  "vsp (no_yield s) = vsp s" "frames (no_yield s) = frames s" "fdepth (no_yield s) = fdepth s"
  "ctrl (no_yield s) = ctrl s" "ctrl_depth (no_yield s) = ctrl_depth s" "globals (no_yield s) = globals s"
  "global_mutable (no_yield s) = global_mutable s" "global_count (no_yield s) = global_count s"
  "mem (no_yield s) = mem s" "mem_len (no_yield s) = mem_len s" "jit_fns (no_yield s) = jit_fns s"
  "jump_table (no_yield s) = jump_table s" "current_pages (no_yield s) = current_pages s"
  "max_pages (no_yield s) = max_pages s" "yield_requested (no_yield s) = yield_requested s"
  "shadow_stop_fdepth (no_yield s) = shadow_stop_fdepth s" "world (no_yield s) = world s"
  "active_mem_bytes (no_yield s) = active_mem_bytes s"
  by (simp_all add: no_yield_def active_mem_bytes_def)

text \<open>Computations that behave alike on both machines, and those that may suspend, with \<open>y\<close> as the value of a normal return.\<close>

definition plain :: "('k, 'a) im \<Rightarrow> 'k interp \<Rightarrow> bool" where
  "plain m s \<longleftrightarrow> fst (m s) \<noteq> Err Yielded \<and> m (no_yield s) = (fst (m s), no_yield (snd (m s)))"

definition transparent :: "'a \<Rightarrow> ('k, 'a) im \<Rightarrow> 'k interp \<Rightarrow> bool" where
  "transparent y m s \<longleftrightarrow>
     m (no_yield s) = (if fst (m s) = Err Yielded then Ok y else fst (m s), no_yield (snd (m s)))"

lemma plain_transparent: "plain m s \<Longrightarrow> transparent y m s"
  by (simp add: plain_def transparent_def)

lemma plain_sbind: "plain m s \<Longrightarrow> (\<And>x s'. m s = (Ok x, s') \<Longrightarrow> plain (f x) s') \<Longrightarrow> plain (sbind m f) s"
  by (cases "m s") (auto simp: plain_def sbind_def split: result.split)

lemma transparent_sbind:
  "plain m s \<Longrightarrow> (\<And>x s'. m s = (Ok x, s') \<Longrightarrow> transparent y (f x) s') \<Longrightarrow> transparent y (sbind m f) s"
  by (cases "m s") (auto simp: plain_def transparent_def sbind_def split: result.split)

lemma plain_sthen: "plain m s \<Longrightarrow> (\<And>x s'. m s = (Ok x, s') \<Longrightarrow> plain k s') \<Longrightarrow> plain (sthen m k) s"
  unfolding sthen_def by (rule plain_sbind)

lemma plain_read: "plain (f (g s)) s \<Longrightarrow> f (g (no_yield s)) = f (g s) \<Longrightarrow> plain (sbind (gets g) f) s"
  by (simp add: plain_def run_first)

lemma transparent_read:
  "transparent y (f (g s)) s \<Longrightarrow> f (g (no_yield s)) = f (g s) \<Longrightarrow> transparent y (sbind (gets g) f) s"
  by (simp add: transparent_def run_first)

lemma plain_basic [simp]:
  "plain (ret x) s" "plain (throw e) s \<longleftrightarrow> e \<noteq> Yielded" "plain panic s" "plain (lift r) s \<longleftrightarrow> r \<noteq> Err Yielded"
  by (simp_all add: plain_def ret_def throw_def panic_def lift_def)

lemma plain_modify: "f (no_yield s) = no_yield (f s) \<Longrightarrow> plain (modify f) s"
  by (simp add: plain_def modify_def)

lemma plain_if: "(c \<Longrightarrow> plain a s) \<Longrightarrow> (\<not> c \<Longrightarrow> plain b s) \<Longrightarrow> plain (if c then a else b) s"
  by simp

lemma plain_case_prod: "(\<And>a b. plain (f a b) s) \<Longrightarrow> plain (case_prod f p) s"
  by (cases p) simp

lemma plain_prim:
  "plain (v_push v) s" "plain v_pop s" "plain (ctrl_push cf) s" "plain (set_pc fi p) s" "plain (set_local fi i v) s"
  "plain (count_call c) s" "plain do_return s" "plain (next_pc p) s" "plain continue_outer s"
  by (auto simp: plain_def v_push_def v_pop_def ctrl_push_def set_pc_def set_local_def count_call_def do_return_def
      next_pc_def continue_outer_def sm_defs Let_def no_yield_def split: result.split)

lemma plain_imm: "plain (imm_u32 body p) s" "plain (imm_memarg body p) s"
  unfolding imm_u32_def imm_memarg_def
  by (auto intro!: plain_sbind plain_case_prod simp: read_u32_at_def err_simps)

lemma plain_br: "plain (do_br n) s"
  unfolding do_br_def
  by (auto intro!: plain_read plain_sthen plain_prim plain_modify simp: Let_def no_yield_def)


lemma plain_pops: "plain (pop_params n l) s" "plain (pop_jit_params n l) s"
proof -
  show "plain (pop_params n l) s"
    by (induction n arbitrary: l s) (auto intro!: plain_sbind plain_prim)
  show "plain (pop_jit_params n l) s"
    by (induction n arbitrary: l s) (auto intro!: plain_sbind plain_prim)
qed

text \<open>The first action of a handler, with the state it leaves.\<close>

lemma plain_read_iff [simp]:
  "f (g (no_yield s)) = f (g s) \<Longrightarrow> plain (sbind (gets g) f) s \<longleftrightarrow> plain (f (g s)) s"
  by (simp add: plain_def run_first)

lemma plain_imm_bind:
  "(\<And>v q. plain (f (v, q)) s) \<Longrightarrow> plain (sbind (imm_u32 body p) f) s"
  "(\<And>v q. plain (f (v, q)) s) \<Longrightarrow> plain (sbind (imm_memarg body p) f) s"
proof -
  have "snd (imm_u32 body p s) = s" "snd (imm_memarg body p s) = s"
    by (auto simp: imm_u32_def imm_memarg_def sm_defs split: result.split prod.split)
  then show "(\<And>v q. plain (f (v, q)) s) \<Longrightarrow> plain (sbind (imm_u32 body p) f) s"
    "(\<And>v q. plain (f (v, q)) s) \<Longrightarrow> plain (sbind (imm_memarg body p) f) s"
    by (auto intro!: plain_sbind plain_imm)
qed

lemma plain_pop_bind: "(\<And>x t. plain (f x) t) \<Longrightarrow> plain (sbind v_pop f) s"
  by (intro plain_sbind plain_prim)

lemma plain_lift_bind: "r \<noteq> Err Yielded \<Longrightarrow> (\<And>x. r = Ok x \<Longrightarrow> plain (f x) s) \<Longrightarrow> plain (sbind (lift r) f) s"
  by (cases r) (auto simp: plain_def sbind_def lift_def)

lemma plain_pops_bind:
  "(\<And>x t. plain (f x) t) \<Longrightarrow> plain (sbind (pop_params n l) f) s"
  "(\<And>x t. plain (f x) t) \<Longrightarrow> plain (sbind (pop_jit_params n l) f) s"
  by (intro plain_sbind plain_pops; simp)+

lemmas plain_rules = plain_imm_bind plain_pop_bind plain_lift_bind plain_pops_bind plain_sthen plain_prim plain_br
  plain_modify plain_if plain_case_prod

lemma plain_push_frame: "plain (push_frame b) s"
  unfolding push_frame_def by (auto intro!: plain_rules simp: Let_def no_yield_def)

lemma block_target_not_yielded: "block_target t body b p MalformedCode \<noteq> Err Yielded"
proof -
  have "jump_probe k t b p i \<noteq> Err e" for k i and e :: interp_error
    by (induction k t b p i rule: jump_probe.induct) auto
  then show ?thesis by (auto simp: block_target_def jump_lookup_def err_simps split: option.splits)
qed

lemma br_table_not_yielded: "br_table_labels body todo k sel pos t \<noteq> Err Yielded"
  by (induction body todo k sel pos t rule: br_table_labels.induct) (auto simp: err_simps read_u32_at_def)

lemma plain_control:
  "plain (op_block k fi body p) s" "plain (op_if fi body p) s" "plain (op_else fi body p) s" "plain (op_end fi body p) s"
  "plain (op_br fi body p) s" "plain (op_br_if fi body p) s" "plain (op_br_table fi body p) s" "plain (op_return fi body p) s"
  unfolding op_block_def op_if_def op_else_def op_end_def op_br_def op_br_if_def op_br_table_def op_return_def Let_def
  by (auto intro!: plain_rules simp: block_target_not_yielded br_table_not_yielded no_yield_def simp del: br_table_labels.simps)

lemma plain_variable:
  "plain (op_drop fi body p) s" "plain (op_select fi body p) s" "plain (op_local_get fi body p) s"
  "plain (op_local_set fi body p) s" "plain (op_local_tee fi body p) s" "plain (op_global_get fi body p) s"
  "plain (op_global_set fi body p) s"
  unfolding op_drop_def op_select_def op_local_get_def op_local_set_def op_local_tee_def op_global_get_def op_global_set_def
  by (auto intro!: plain_rules simp: no_yield_def)

lemma plain_memory:
  "plain (op_load n w fi body p) s" "plain (op_store n w' fi body p) s" "plain (op_memory_size fi body p) s"
  "plain (op_memory_grow fi body p) s" "plain (op_memory_init fi body p) s" "plain (op_data_drop fi body p) s"
  "plain (op_memory_copy fi body p) s" "plain (op_memory_fill fi body p) s"
  unfolding op_load_def op_store_def op_memory_size_def op_memory_grow_def op_memory_init_def op_data_drop_def
    op_memory_copy_def op_memory_fill_def Let_def
  by (auto intro!: plain_rules simp: no_yield_def active_mem_bytes_def)

lemma plain_numeric:
  "plain (op_i32_const fi body p) s" "plain (op_i64_const fi body p) s" "plain (op_f32_const fi body p) s"
  "plain (op_f64_const fi body p) s"
  "(\<And>v. f v \<noteq> Err Yielded) \<Longrightarrow> plain (op_unary f fi body p) s"
  "(\<And>a b. g a b \<noteq> Err Yielded) \<Longrightarrow> plain (op_binary g fi body p) s"
  unfolding op_i32_const_def op_i64_const_def op_f32_const_def op_f64_const_def op_unary_def op_binary_def
  by (auto intro!: plain_rules simp: read_i32_at_def read_i64_at_def err_simps)

lemma plain_prefix_fc: "plain (op_prefix_fc fi body p) s"
  unfolding op_prefix_fc_def
  by (rule plain_imm_bind) (simp add: plain_memory plain_numeric(5) split: option.split)

lemma numeric_not_yielded:
  "numeric_unary fe op = Some f \<Longrightarrow> f v \<noteq> Err Yielded" "numeric_binary fe op = Some g \<Longrightarrow> g a b \<noteq> Err Yielded"
proof -
  have "trunc_op op = Some f \<Longrightarrow> f v \<noteq> Err Yielded"
    by (auto simp: trunc_op_def checked_trunc_def split: if_splits)
  then show "numeric_unary fe op = Some f \<Longrightarrow> f v \<noteq> Err Yielded"
    by (auto simp: numeric_unary_def or_else_Some split: if_splits)
  have "i32_binary op = Some h \<Longrightarrow> h x y \<noteq> Err Yielded" "i64_binary op = Some k \<Longrightarrow> k a b \<noteq> Err Yielded" for h x y k
    by (auto simp: i32_binary_def i64_binary_def split: if_splits)
  then show "numeric_binary fe op = Some g \<Longrightarrow> g a b \<noteq> Err Yielded"
    by (auto simp: numeric_binary_def or_else_Some split: if_splits)
qed

section \<open>Calls may suspend\<close>

lemma transparent_host: "transparent () (call_host c) s"
  by (auto simp: transparent_def call_host_def run_host_def no_yield_def unyield_def sm_defs split: option.split prod.split)

lemma transparent_outer: "transparent () m s \<Longrightarrow> transparent None (sthen m continue_outer) s"
  by (cases "m s") (auto simp: transparent_def sthen_def sbind_def continue_outer_def ret_def split: result.split)

lemma plain_call_jit: "plain (call_jit f c) s"
  unfolding call_jit_def by (auto intro!: plain_rules simp: Let_def no_yield_def split: prod.split)

lemma transparent_read_iff [simp]:
  "f (g (no_yield s)) = f (g s) \<Longrightarrow> transparent y (sbind (gets g) f) s \<longleftrightarrow> transparent y (f (g s)) s"
  by (simp add: transparent_def run_first)

lemma transparent_basic [simp]:
  "e \<noteq> Yielded \<Longrightarrow> transparent y (throw e) s" "transparent y panic s"
  by (simp_all add: plain_transparent)

lemmas transparent_native = transparent_outer [OF plain_transparent [OF plain_call_jit]]
  transparent_outer [OF plain_transparent [OF plain_push_frame]]

lemma transparent_enter: "transparent None (enter_callee c) s" "transparent None (enter_indirect c) s"
  unfolding enter_callee_def enter_indirect_def Let_def
  by (auto intro!: transparent_outer [OF transparent_host] transparent_native split: option.split)

lemma transparent_sthen: "plain m s \<Longrightarrow> (\<And>s'. transparent y k s') \<Longrightarrow> transparent y (sthen m k) s"
  unfolding sthen_def by (rule transparent_sbind)

lemma transparent_call: "transparent None (op_call fi body p) s" "transparent None (op_call_indirect fi body p) s"
proof -
  have count: "plain (count_call c) t" for c and t :: "'a interp" by (rule plain_prim)
  show "transparent None (op_call fi body p) s"
    unfolding op_call_def
    by (auto intro!: transparent_sbind transparent_sthen plain_prim plain_imm transparent_enter split: prod.split)
  have indirect: "transparent None (sbind (gets id) (\<lambda>s.
     if i \<ge> table_size s then throw IndirectCallNull
     else if i \<ge> MAX_TABLE then panic
     else if table s i = NULL_FUNC then throw IndirectCallNull
     else
       let callee = unat (table s i);
           actual_type = (if callee < MAX_FUNCS then all_func_types s callee else 2 ^ 64 - 1) in
       sthen (count_call callee)
       (if actual_type \<noteq> unat ty then throw IndirectCallTypeMismatch
        else sthen (set_pc fi q) (enter_indirect callee)))) t" for i ty q and t :: "'a interp"
    by (simp add: Let_def)
      (auto intro!: transparent_sthen plain_prim transparent_enter)
  show "transparent None (op_call_indirect fi body p) s"
    unfolding op_call_indirect_def Let_def
    by (intro transparent_sbind plain_imm plain_prim) (auto intro!: transparent_sbind plain_imm plain_prim indirect [unfolded Let_def] split: prod.split)
qed

lemma transparent_dispatch: "transparent None (dispatch fe op fi body p) s"
proof (cases "or_else (control_op op) (or_else (variable_op op) (or_else (memory_op op)
    (numeric_op fe op :: 'a handler option)))")
  case None
  then show ?thesis by (simp add: dispatch_def plain_transparent)
next
  case (Some h)
  then consider "control_op op = Some h" | "variable_op op = Some h" | "memory_op op = Some h" | "numeric_op fe op = Some h"
    by (auto simp: or_else_Some)
  then have "transparent None (h fi body p) s"
  proof cases
    case 1
    then show ?thesis
      by (auto simp: control_op_def intro: plain_transparent plain_control transparent_call plain_prim split: if_splits)
  next
    case 2
    then show ?thesis by (auto simp: variable_op_def intro: plain_transparent plain_variable split: if_splits)
  next
    case 3
    then show ?thesis
      by (rule memory_op_cases) (auto intro: plain_transparent plain_memory plain_prefix_fc)
  next
    case 4
    then show ?thesis
      using numeric_not_yielded
      by (auto simp: numeric_op_def or_else_Some intro!: plain_transparent plain_numeric plain_prim split: if_splits)
  qed
  with Some show ?thesis by (simp add: dispatch_def)
qed

section \<open>Steps and runs\<close>

lemma transparent_step:
  assumes "\<not> yield_requested s" shows "transparent () (step fe) s"
proof -
  have after: "transparent () (sbind m (\<lambda>next. case next of Some p' \<Rightarrow> set_pc fi p' | None \<Rightarrow> ret ())) t"
    if "transparent None m t" for m :: "('a, nat option) im" and fi t
  proof (cases "m t")
    case (Pair r t')
    with that plain_prim(4) [of fi _ t'] show ?thesis
      by (cases r) (auto simp: transparent_def plain_def sbind_def ret_def split: option.split)
  qed
  have count: "count_opcode (no_yield s) = no_yield (count_opcode s)"
    by (simp add: count_opcode_def no_yield_def)
  show ?thesis
    using after [OF transparent_dispatch] plain_transparent [OF plain_prim(7) [of s]] assms
    by (simp add: transparent_def step_def Let_def run_first count)
qed

text \<open>
  The program driven to its end by its owner: each time it suspends it is resumed (with no change to
  its state in between), until it returns, traps or panics.
\<close>

inductive driven :: "float_env \<Rightarrow> 'k interp \<Rightarrow> (interp_error, unit) result \<Rightarrow> 'k interp \<Rightarrow> bool" for fe where
  finished: "run fuel fe s = (r, s') \<Longrightarrow> r \<noteq> Err Yielded \<Longrightarrow> r \<noteq> Hang \<Longrightarrow> driven fe s r s'"
| suspended: "run fuel fe s = (Err Yielded, s1) \<Longrightarrow> driven fe s1 r s' \<Longrightarrow> driven fe s r s'"

lemma run_flag: "\<not> yield_requested s \<Longrightarrow> \<not> yield_requested (snd (run fuel fe s))"
  using flag.run_keeps by (rule keepsD)

lemma step_flag: "\<not> yield_requested s \<Longrightarrow> \<not> yield_requested (snd (step fe s))"
  using flag.step_keeps by (rule keepsD)

text \<open>A run that does not suspend is the same on both machines; one that suspends is continued.\<close>

lemma run_stopped: "\<not> shadow_stop_fdepth s < fdepth s \<Longrightarrow> run fuel fe s = (Ok (), s)"
  by (cases fuel) simp_all

lemma run_no_yield:
  assumes "run fuel fe s = (r, s')" "r \<noteq> Hang" "\<not> yield_requested s"
    and "r = Err Yielded \<Longrightarrow> run fuel' fe (no_yield s') = (q, t) \<and> q \<noteq> Hang"
    and "r \<noteq> Err Yielded \<Longrightarrow> q = r \<and> t = no_yield s'"
  shows "run (fuel + fuel') fe (no_yield s) = (q, t)"
  using assms(1,3)
proof (induction fuel arbitrary: s)
  case 0
  with assms(2,5) have "\<not> shadow_stop_fdepth s < fdepth s" "q = Ok ()" "t = no_yield s" by (auto split: if_splits)
  then show ?case by (simp add: run_stopped)
next
  case (Suc fuel)
  show ?case
  proof (cases "shadow_stop_fdepth s < fdepth s")
    case False
    with Suc.prems assms(5) show ?thesis by (auto simp: run_stopped)
  next
    case True
    obtain r1 s1 where step: "step fe s = (r1, s1)" by (cases "step fe s")
    with transparent_step [OF Suc.prems(2), of fe]
    have ny: "step fe (no_yield s) = (if r1 = Err Yielded then Ok () else r1, no_yield s1)"
      by (simp add: transparent_def)
    have flag: "\<not> yield_requested s1" using step_flag [OF Suc.prems(2), of fe] step by simp
    consider "r1 = Ok ()" | "r1 = Err Yielded" | "r1 \<noteq> Err Yielded" "\<forall>u. r1 \<noteq> Ok u" by (cases r1) auto
    then show ?thesis
    proof cases
      case 1
      with Suc.prems step True have "run fuel fe s1 = (r, s')" by (simp add: sthen_def sbind_def)
      from Suc.IH [OF this flag] 1 True ny show ?thesis by (simp add: sthen_def sbind_def)
    next
      case 2
      with Suc.prems step True have "r = Err Yielded" "s' = s1" by (auto simp: sthen_def sbind_def)
      with assms(4) have "run fuel' fe (no_yield s1) = (q, t)" "q \<noteq> Hang" by auto
      then have "run (fuel + fuel') fe (no_yield s1) = (q, t)" by (rule run_mono) simp
      with 2 True ny show ?thesis by (simp add: sthen_def sbind_def)
    next
      case 3
      with Suc.prems step True have "r = r1" "s' = s1" by (cases r1; auto simp: sthen_def sbind_def)+
      with 3 assms(5) True ny show ?thesis by (cases r1) (auto simp: sthen_def sbind_def)
    qed
  qed
qed

lemma driven_no_yield:
  assumes "driven fe s r s'" and "\<not> yield_requested s"
  shows "\<exists>fuel. run fuel fe (no_yield s) = (r, no_yield s') \<and> r \<noteq> Hang"
  using assms
proof (induction rule: driven.induct)
  case (finished fuel s r s')
  then have "run (fuel + 0) fe (no_yield s) = (r, no_yield s')"
    by (intro run_no_yield) auto
  with finished show ?case by blast
next
  case (suspended fuel s s1 r s')
  have "\<not> yield_requested s1" using run_flag [OF suspended.prems, of fuel fe] suspended.hyps by simp
  with suspended.IH obtain fuel' where f: "run fuel' fe (no_yield s1) = (r, no_yield s')" "r \<noteq> Hang" by blast
  then have "run (fuel + fuel') fe (no_yield s) = (r, no_yield s')"
    by (intro run_no_yield [OF suspended.hyps(1) _ suspended.prems]) simp_all
  with f show ?case by blast
qed

section \<open>Properties\<close>

text \<open>
  C1: Cooperative suspension is transparent. If a program, resumed each time a host function suspends
  it, ends with some outcome in some state, then the same program on a machine whose host functions have
  the same effects but never suspend ends with the same outcome in the same state (up to the host table):
  a suspension neither repeats nor skips an instruction nor loses stack, frame, memory or global state.
\<close>
theorem suspension_is_transparent:
  assumes "driven fe s r s'" and "\<not> yield_requested s"
  shows "\<exists>fuel. run fuel fe (no_yield s) = (r, no_yield s')"
  using driven_no_yield [OF assms] by blast

definition sleeper :: "unit interp" where
  "sleeper = (entered [0x10, 0, 0x41, 5, 0x0B])\<lparr>import_count := 1,
     host_fns := (\<lambda>i. if i = 0 then Some (\<lambda>st. (Err Yielded, st)) else None)\<rparr>"

lemma sleeper_driven: "\<exists>s'. driven no_floats sleeper (Ok ()) s' \<and> top s' = Some 5"
proof -
  obtain s1 where s1: "run 1 no_floats sleeper = (Err Yielded, s1)" and
    s2: "\<exists>s2. run 9 no_floats s1 = (Ok (), s2) \<and> top s2 = Some 5"
    by (simp add: sleeper_def entered_def sample_def op_call_def enter_callee_def call_host_def run_host_def
        count_call_def exec_simps BLANK_FRAME_def top_def)
  then show ?thesis by (blast intro: driven.intros)
qed

theorem suspension_is_transparent_witness:
  "\<exists>fuel s'. run fuel no_floats (no_yield sleeper) = (Ok (), no_yield s')"
proof -
  obtain s' where "driven no_floats sleeper (Ok ()) s'" using sleeper_driven by blast
  from suspension_is_transparent [OF this] show ?thesis
    by (auto simp: sleeper_def entered_def sample_def)
qed

end
