(* ===== verification/File_Table.thy ===== *)
theory File_Table
  imports Prelude
begin

text \<open>
  The in-memory file table of \<open>kernel/src/fs/mod.rs\<close>: 64 entries in registration order with holes
  left by removals, the pool of write buffers (16 buffers of 4 KiB, claimed once) and the bump arena of
  files loaded at boot. A file's name is the prefix \<open>name[..name_len]\<close> of its 64-byte array; the data is
  a \<open>'static\<close> slice that nothing writes after it is claimed, modelled by its bytes.
\<close>

definition MAX_FILES :: nat where "MAX_FILES = 64"
definition WRITE_SLOTS :: nat where "WRITE_SLOTS = 16"
definition WRITE_SLOT_CAP :: nat where "WRITE_SLOT_CAP = 4096"
definition FILE_BUF_SIZE :: nat where "FILE_BUF_SIZE = 4 * 1024 * 1024"

lemmas fs_limits = MAX_FILES_def WRITE_SLOTS_def WRITE_SLOT_CAP_def FILE_BUF_SIZE_def

record File =
  f_name :: bytes
  f_data :: bytes

record fs =
  file_table :: "File option arr"
  file_count :: nat
  write_pool_next :: nat
  file_buf_next :: nat

definition name_str :: "File \<Rightarrow> bytes" where
  "name_str f = (case from_utf8 (f_name f) of Some s \<Rightarrow> s | None \<Rightarrow> [])"

definition fs_init :: "fs \<Rightarrow> fs" where
  "fs_init s = s\<lparr>file_table := (\<lambda>_. None), file_count := 0\<rparr>"

definition register_file :: "bytes \<Rightarrow> bytes \<Rightarrow> fs \<Rightarrow> fs" where
  "register_file name data s =
     (if file_count s < MAX_FILES then
        s\<lparr>file_table := (file_table s)(file_count s := Some \<lparr>f_name = take 64 name, f_data = data\<rparr>),
          file_count := file_count s + 1\<rparr>
      else s)"

text \<open>\<open>for i in 0..FILE_COUNT\<close>, \<open>k\<close> entries left: the first entry with the name.\<close>

fun find_loop :: "File option arr \<Rightarrow> bytes \<Rightarrow> nat \<Rightarrow> nat \<Rightarrow> nat option" where
  "find_loop t name 0 i = None"
| "find_loop t name (Suc k) i =
     (case t i of
        Some f \<Rightarrow> if name_str f = name then Some i else find_loop t name k (i + 1)
      | None \<Rightarrow> find_loop t name k (i + 1))"

definition find_index :: "bytes \<Rightarrow> fs \<Rightarrow> nat option" where
  "find_index name s = find_loop (file_table s) name (file_count s) 0"

definition find_file :: "bytes \<Rightarrow> fs \<Rightarrow> bytes option" where
  "find_file name s = (case find_index name s of None \<Rightarrow> None | Some i \<Rightarrow> map_option f_data (file_table s i))"

definition remove_file :: "bytes \<Rightarrow> fs \<Rightarrow> bool \<times> fs" where
  "remove_file name s =
     (case find_index name s of
        Some i \<Rightarrow> (True, s\<lparr>file_table := (file_table s)(i := None)\<rparr>)
      | None \<Rightarrow> (False, s))"

definition for_each_file :: "(bytes \<Rightarrow> nat \<Rightarrow> 'a \<Rightarrow> 'a) \<Rightarrow> fs \<Rightarrow> 'a \<Rightarrow> 'a" where
  "for_each_file f s acc =
     fold (\<lambda>i acc. case file_table s i of Some fl \<Rightarrow> f (name_str fl) (length (f_data fl)) acc | None \<Rightarrow> acc)
       [0..<file_count s] acc"

definition alloc_write_buf :: "bytes \<Rightarrow> fs \<Rightarrow> bytes option \<times> fs" where
  "alloc_write_buf data s =
     (if length data > WRITE_SLOT_CAP then (None, s)
      else if write_pool_next s \<ge> WRITE_SLOTS then (None, s)
      else (Some data, s\<lparr>write_pool_next := write_pool_next s + 1\<rparr>))"

text \<open>The offset of the carved range in the arena stands for the pointer.\<close>

definition alloc_disk_slot :: "nat \<Rightarrow> fs \<Rightarrow> nat option \<times> fs" where
  "alloc_disk_slot len s =
     (if len = 0 then (None, s)
      else
        let base = (file_buf_next s + 7) div 8 * 8; new_end = base + len in
        if new_end > FILE_BUF_SIZE then (None, s)
        else (Some base, s\<lparr>file_buf_next := new_end\<rparr>))"

text \<open>Replacing a file, as the host function \<open>fs_write\<close> does it.\<close>

definition replace_file :: "bytes \<Rightarrow> bytes \<Rightarrow> fs \<Rightarrow> fs" where
  "replace_file name data s = register_file name data (snd (remove_file name s))"

section \<open>The table as a map\<close>

definition fs_ok :: "fs \<Rightarrow> bool" where
  "fs_ok s \<longleftrightarrow> file_count s \<le> MAX_FILES \<and> write_pool_next s \<le> WRITE_SLOTS \<and> file_buf_next s \<le> FILE_BUF_SIZE
     \<and> (\<forall>i j f g. i < file_count s \<and> j < file_count s \<and> file_table s i = Some f \<and> file_table s j = Some g
          \<and> name_str f = name_str g \<longrightarrow> i = j)"

definition file_name_ok :: "bytes \<Rightarrow> bool" where
  "file_name_ok name \<longleftrightarrow> length name \<le> 64 \<and> utf8_valid name"

lemma find_loop_Some:
  "find_loop t name k i = Some j \<Longrightarrow> i \<le> j \<and> j < i + k \<and> (\<exists>f. t j = Some f \<and> name_str f = name)"
  by (induction t name k i rule: find_loop.induct) (auto split: option.splits if_splits)

lemma find_loop_None:
  "find_loop t name k i = None \<longleftrightarrow> (\<forall>j \<in> {i..<i + k}. \<forall>f. t j = Some f \<longrightarrow> name_str f \<noteq> name)"
proof (induction t name k i rule: find_loop.induct)
  case (2 t name k i)
  have "{i..<i + Suc k} = insert i {i + 1..<i + 1 + k}" by auto
  with 2 show ?case by (auto split: option.split)
qed simp

text \<open>In a table without duplicates, lookup is determined by membership.\<close>

lemma find_file_iff:
  assumes "fs_ok s"
  shows "find_file name s = Some d \<longleftrightarrow>
    (\<exists>i f. i < file_count s \<and> file_table s i = Some f \<and> name_str f = name \<and> f_data f = d)"
proof
  assume "find_file name s = Some d"
  then obtain i where i: "find_index name s = Some i" "map_option f_data (file_table s i) = Some d"
    by (auto simp: find_file_def split: option.splits)
  with find_loop_Some [of "file_table s" name "file_count s" 0 i]
  show "\<exists>i f. i < file_count s \<and> file_table s i = Some f \<and> name_str f = name \<and> f_data f = d"
    by (auto simp: find_index_def)
next
  assume "\<exists>i f. i < file_count s \<and> file_table s i = Some f \<and> name_str f = name \<and> f_data f = d"
  then obtain i f where f: "i < file_count s" "file_table s i = Some f" "name_str f = name" "f_data f = d" by blast
  then obtain j where j: "find_index name s = Some j"
    using find_loop_None [of "file_table s" name "file_count s" 0] by (cases "find_index name s") (auto simp: find_index_def)
  with find_loop_Some [of "file_table s" name "file_count s" 0 j] obtain g
    where "j < file_count s" "file_table s j = Some g" "name_str g = name" by (auto simp: find_index_def)
  with f assms have "i = j" by (auto simp: fs_ok_def)
  with j f show "find_file name s = Some d" by (simp add: find_file_def)
qed

lemma find_file_None:
  "find_file name s = None \<longleftrightarrow> (\<forall>i f. i < file_count s \<and> file_table s i = Some f \<longrightarrow> name_str f \<noteq> name)"
  using find_loop_None [of "file_table s" name "file_count s" 0] find_loop_Some [of "file_table s" name "file_count s" 0]
  by (fastforce simp: find_file_def find_index_def split: option.splits)

lemma remove_file_ok: "fs_ok s \<Longrightarrow> fs_ok (snd (remove_file name s))"
  by (auto simp: remove_file_def fs_ok_def split: option.split if_splits)

lemma remove_file_count [simp]: "file_count (snd (remove_file name s)) = file_count s"
  by (simp add: remove_file_def split: option.split)

text \<open>After a removal the name is gone and every other entry is where it was.\<close>

lemma remove_file_table:
  assumes "fs_ok s" "i < file_count s"
  shows "file_table (snd (remove_file name s)) i = Some f \<longleftrightarrow> file_table s i = Some f \<and> name_str f \<noteq> name"
proof (cases "find_index name s")
  case None
  then show ?thesis
    using assms(2) find_loop_None [of "file_table s" name "file_count s" 0]
    by (auto simp: remove_file_def find_index_def)
next
  case (Some j)
  then obtain g where "j < file_count s" "file_table s j = Some g" "name_str g = name"
    using find_loop_Some [of "file_table s" name "file_count s" 0 j] by (auto simp: find_index_def)
  with Some assms show ?thesis by (auto simp: remove_file_def fs_ok_def)
qed

lemma name_str_new: "file_name_ok name \<Longrightarrow> name_str \<lparr>f_name = take 64 name, f_data = d\<rparr> = name"
  by (simp add: file_name_ok_def name_str_def from_utf8_def)

lemma replace_file_ok:
  assumes "fs_ok s" and "file_name_ok name"
  shows "fs_ok (replace_file name d s)"
proof -
  let ?s = "snd (remove_file name s)"
  have "fs_ok ?s" using assms(1) by (rule remove_file_ok)
  then show ?thesis
    using remove_file_table [OF assms(1)] name_str_new [OF assms(2)]
    by (auto simp: replace_file_def register_file_def fs_ok_def less_Suc_eq)
qed

lemma find_replace:
  assumes "fs_ok s" and "file_name_ok name" and "file_count s < MAX_FILES"
  shows "find_file m (replace_file name d s) = (if m = name then Some d else find_file m s)"
proof -
  let ?s = "replace_file name d s"
  have entry: "(\<exists>i f. i < file_count ?s \<and> file_table ?s i = Some f \<and> name_str f = m \<and> f_data f = x)
    \<longleftrightarrow> (if m = name then x = d else (\<exists>i f. i < file_count s \<and> file_table s i = Some f \<and> name_str f = m \<and> f_data f = x))" for x
    using remove_file_table [OF assms(1)] name_str_new [OF assms(2)] assms(3)
    by (auto simp: replace_file_def register_file_def less_Suc_eq) (metis less_irrefl)
  show ?thesis
  proof (cases "m = name")
    case True
    then show ?thesis using entry [of d] find_file_iff [OF replace_file_ok [OF assms(1,2)]] by simp
  next
    case False
    then have "find_file m ?s = Some x \<longleftrightarrow> find_file m s = Some x" for x
      using entry [of x] find_file_iff [OF replace_file_ok [OF assms(1,2)]] find_file_iff [OF assms(1)] by simp
    with False show ?thesis by (metis not_Some_eq)
  qed
qed

lemma find_remove:
  assumes "fs_ok s"
  shows "find_file m (snd (remove_file name s)) = (if m = name then None else find_file m s)"
proof -
  have "find_file m (snd (remove_file name s)) = Some x \<longleftrightarrow> m \<noteq> name \<and> find_file m s = Some x" for x
    using remove_file_table [OF assms, of _ name]
    by (auto simp: find_file_iff [OF assms] find_file_iff [OF remove_file_ok [OF assms]])
  then show ?thesis by (metis not_Some_eq)
qed

text \<open>
  The contract its users rely on: a store of named files with lookup, replacement and removal.
\<close>

locale file_store =
  fixes find :: "bytes \<Rightarrow> 'fs \<Rightarrow> bytes option"
    and replace :: "bytes \<Rightarrow> bytes \<Rightarrow> 'fs \<Rightarrow> 'fs"
    and remove :: "bytes \<Rightarrow> 'fs \<Rightarrow> 'fs"
    and ok :: "'fs \<Rightarrow> bool" and room :: "'fs \<Rightarrow> bool" and name_ok :: "bytes \<Rightarrow> bool"
  assumes replace_ok: "ok s \<Longrightarrow> name_ok n \<Longrightarrow> ok (replace n d s)"
    and remove_ok: "ok s \<Longrightarrow> ok (remove n s)"
    and find_replace: "ok s \<Longrightarrow> name_ok n \<Longrightarrow> room s \<Longrightarrow> find m (replace n d s) = (if m = n then Some d else find m s)"
    and find_remove: "ok s \<Longrightarrow> find m (remove n s) = (if m = n then None else find m s)"
begin

text \<open>Reading back what was written last, through any later changes to other files.\<close>

lemma read_back: "ok s \<Longrightarrow> name_ok n \<Longrightarrow> room s \<Longrightarrow> find n (replace n d s) = Some d"
  by (simp add: find_replace)

lemma others_untouched:
  "ok s \<Longrightarrow> name_ok n \<Longrightarrow> room s \<Longrightarrow> m \<noteq> n \<Longrightarrow> find m (replace n d s) = find m s \<and> find m (remove n s) = find m s"
  by (simp add: find_replace find_remove)

lemma last_write_wins:
  "ok s \<Longrightarrow> name_ok n \<Longrightarrow> room s \<Longrightarrow> room (replace n d s) \<Longrightarrow> find m (replace n e (replace n d s)) = find m (replace n e s)"
  by (simp add: find_replace replace_ok)

end

interpretation table: file_store find_file replace_file "\<lambda>n s. snd (remove_file n s)" fs_ok
  "\<lambda>s. file_count s < MAX_FILES" file_name_ok
  by unfold_locales (simp_all add: replace_file_ok remove_file_ok find_replace find_remove)

section \<open>Properties\<close>

text \<open>
  C33: While the table has an unused entry, replacing a file behaves as an update of a finite map: the
  new data is found under the name, every other name is found as before, the no-duplicates invariant is
  kept, and a second replacement of the same name wins.
\<close>
theorem file_table_is_a_map:
  assumes "fs_ok s" and "file_name_ok n" and "file_count s + 1 < MAX_FILES"
  shows "find_file m (replace_file n d s) = (if m = n then Some d else find_file m s)
     \<and> fs_ok (replace_file n d s)
     \<and> find_file m (replace_file n e (replace_file n d s)) = find_file m (replace_file n e s)
     \<and> find_file m (snd (remove_file n s)) = (if m = n then None else find_file m s)"
proof -
  have "file_count s < MAX_FILES" "file_count (replace_file n d s) < MAX_FILES"
    using assms(3) by (simp_all add: replace_file_def register_file_def)
  with assms show ?thesis
    by (auto simp: table.last_write_wins find_replace find_remove replace_file_ok)
qed

definition empty_fs :: fs where
  "empty_fs = \<lparr>file_table = (\<lambda>_. None), file_count = 0, write_pool_next = 0, file_buf_next = 0\<rparr>"

theorem file_table_is_a_map_witness:
  "find_file (str_bytes ''b'') (replace_file (str_bytes ''a'') [1] empty_fs) = None
   \<and> fs_ok (replace_file (str_bytes ''a'') [1] empty_fs)"
proof -
  have "fs_ok empty_fs" "file_name_ok (str_bytes ''a'')" "find_file (str_bytes ''b'') empty_fs = None"
    by (simp_all add: empty_fs_def fs_ok_def file_name_ok_def find_file_def find_index_def str_bytes_def
        utf8_valid.simps fs_limits)
  with file_table_is_a_map [of empty_fs "str_bytes ''a''" "str_bytes ''b''" "[1]" "[2]"]
  show ?thesis by (simp add: empty_fs_def fs_limits str_bytes_def)
qed

text \<open>
  Entries are never reused. Once 64 registrations have been made, replacing an existing file
  deletes it: the old entry is removed and the new one is silently dropped.
\<close>
theorem replace_in_full_table_loses_file:
  assumes "fs_ok s" and "file_count s = MAX_FILES"
  shows "find_file n (replace_file n d s) = None"
  using find_remove [OF assms(1), of n n] assms(2) by (simp add: replace_file_def register_file_def)

theorem replace_in_full_table_loses_file_witness:
  "find_file (str_bytes ''a'')
     \<lparr>file_table = (\<lambda>i. if i = 63 then Some \<lparr>f_name = str_bytes ''a'', f_data = [1]\<rparr> else None), file_count = 64,
      write_pool_next = 0, file_buf_next = 0\<rparr> \<noteq> None
   \<and> find_file (str_bytes ''a'') (replace_file (str_bytes ''a'') [2]
     \<lparr>file_table = (\<lambda>i. if i = 63 then Some \<lparr>f_name = str_bytes ''a'', f_data = [1]\<rparr> else None), file_count = 64,
      write_pool_next = 0, file_buf_next = 0\<rparr>) = None"
proof
  let ?s = "\<lparr>file_table = (\<lambda>i. if i = 63 then Some \<lparr>f_name = str_bytes ''a'', f_data = [1]\<rparr> else None), file_count = 64,
      write_pool_next = 0, file_buf_next = 0\<rparr>"
  have "name_str \<lparr>f_name = str_bytes ''a'', f_data = [1]\<rparr> = str_bytes ''a''"
    by (simp add: name_str_def from_utf8_def str_bytes_def utf8_valid.simps)
  then show "find_file (str_bytes ''a'') ?s \<noteq> None"
    by (auto simp: find_file_None)
  show "find_file (str_bytes ''a'') (replace_file (str_bytes ''a'') [2] ?s) = None"
    by (rule replace_in_full_table_loses_file) (auto simp: fs_ok_def fs_limits split: if_splits)
qed

text \<open>
  The boot arena hands out disjoint, 8-byte aligned ranges inside the arena: each allocation starts
  at or after the end of everything handed out before, and the arena never overruns.
\<close>
theorem alloc_disk_slot_disjoint:
  assumes "fs_ok s" and "alloc_disk_slot len s = (Some base, s')"
  shows "file_buf_next s \<le> base \<and> base mod 8 = 0 \<and> base + len = file_buf_next s' \<and> file_buf_next s' \<le> FILE_BUF_SIZE
     \<and> 0 < len"
  using assms(2) by (auto simp: alloc_disk_slot_def Let_def split: if_splits)

theorem alloc_disk_slot_disjoint_witness:
  "\<exists>s'. alloc_disk_slot 5 (empty_fs\<lparr>file_buf_next := 3\<rparr>) = (Some 8, s') \<and> file_buf_next s' = 13"
  using alloc_disk_slot_disjoint [of "empty_fs\<lparr>file_buf_next := 3\<rparr>" 5 8 "empty_fs\<lparr>file_buf_next := 13\<rparr>"]
  by (simp add: alloc_disk_slot_def empty_fs_def fs_ok_def fs_limits Let_def)

section \<open>Filling the table\<close>

text \<open>Registering a list of files, and the arena space of one of them.\<close>

definition register_all :: "(bytes \<times> bytes) list \<Rightarrow> fs \<Rightarrow> fs" where
  "register_all fs t = fold (\<lambda>(n, d). register_file n d) fs t"

text \<open>A table filled from the empty one finds the first file registered under a name.\<close>

lemma find_loop_list:
  assumes "\<And>j. j < length fs \<Longrightarrow> t (i + j) = Some \<lparr>f_name = fst (fs ! j), f_data = snd (fs ! j)\<rparr>"
    and "\<And>n d. (n, d) \<in> set fs \<Longrightarrow> utf8_valid n"
  shows "(case find_loop t name (length fs) i of None \<Rightarrow> None | Some k \<Rightarrow> map_option f_data (t k)) = map_of fs name"
  using assms
proof (induction fs arbitrary: i)
  case (Cons f fs)
  have "t i = Some \<lparr>f_name = fst f, f_data = snd f\<rparr>" using Cons.prems(1) [of 0] by simp
  moreover have "utf8_valid (fst f)" using Cons.prems(2) [of "fst f" "snd f"] by simp
  moreover have "(case find_loop t name (length fs) (i + 1) of None \<Rightarrow> None | Some k \<Rightarrow> map_option f_data (t k)) = map_of fs name"
    using Cons.prems(1) [of "Suc j" for j] Cons.prems(2) by (intro Cons.IH) auto
  ultimately show ?case by (cases f) (auto simp: name_str_def from_utf8_def)
qed simp

lemma register_all_table:
  assumes "file_count t + length fs \<le> MAX_FILES" and "\<And>n d. (n, d) \<in> set fs \<Longrightarrow> length n \<le> 64"
  shows "file_count (register_all fs t) = file_count t + length fs
    \<and> (\<forall>i. file_table (register_all fs t) i = (if file_count t \<le> i \<and> i < file_count t + length fs
        then Some \<lparr>f_name = fst (fs ! (i - file_count t)), f_data = snd (fs ! (i - file_count t))\<rparr> else file_table t i))"
  using assms
proof (induction fs arbitrary: t)
  case (Cons f fs)
  obtain n d where f: "f = (n, d)" by (cases f)
  have n: "length n \<le> 64" using Cons.prems(2) [of n d] by (simp add: f)
  have t: "register_file n d t = t\<lparr>file_table := (file_table t)(file_count t := Some \<lparr>f_name = n, f_data = d\<rparr>), file_count := file_count t + 1\<rparr>"
    using Cons.prems(1) n by (simp add: register_file_def)
  define t' where "t' = register_file n d t"
  have c: "file_count t' = Suc (file_count t)" "\<And>i. file_table t' i = (if i = file_count t then Some \<lparr>f_name = n, f_data = d\<rparr> else file_table t i)"
    by (simp_all add: t'_def t)
  have r: "register_all (f # fs) t = register_all fs t'" by (simp add: register_all_def f t'_def)
  have "file_count t' + length fs \<le> MAX_FILES" using Cons.prems(1) c(1) by simp
  moreover have "\<And>n d. (n, d) \<in> set fs \<Longrightarrow> length n \<le> 64" by (meson Cons.prems(2) list.set_intros(2))
  ultimately have "file_count (register_all fs t') = file_count t' + length fs
    \<and> (\<forall>i. file_table (register_all fs t') i = (if file_count t' \<le> i \<and> i < file_count t' + length fs
        then Some \<lparr>f_name = fst (fs ! (i - file_count t')), f_data = snd (fs ! (i - file_count t'))\<rparr> else file_table t' i))"
    by (rule Cons.IH)
  then have ih: "file_count (register_all fs t') = Suc (file_count t) + length fs"
    "\<And>i. file_table (register_all fs t') i = (if Suc (file_count t) \<le> i \<and> i < Suc (file_count t) + length fs
        then Some \<lparr>f_name = fst (fs ! (i - Suc (file_count t))), f_data = snd (fs ! (i - Suc (file_count t)))\<rparr> else file_table t' i)"
    unfolding c(1) by blast+
  show ?case unfolding r ih c(2) by (auto simp: f nth_Cons')
qed (auto simp: register_all_def)

lemma find_registered:
  assumes "file_count t = 0" and "length fs \<le> MAX_FILES" and "\<And>n d. (n, d) \<in> set fs \<Longrightarrow> utf8_valid n \<and> length n \<le> 64"
  shows "find_file name (register_all fs t) = map_of fs name"
proof -
  have l: "length n \<le> 64" if "(n, d) \<in> set fs" for n d using assms(3) [OF that] by simp
  have "file_count (register_all fs t) = length fs" using register_all_table [OF _ l, of t fs] assms(1,2) by simp
  moreover have "(case find_loop (file_table (register_all fs t)) name (length fs) 0 of None \<Rightarrow> None
      | Some k \<Rightarrow> map_option f_data (file_table (register_all fs t) k)) = map_of fs name"
    using register_all_table [OF _ l, of t fs] assms by (intro find_loop_list) auto
  ultimately show ?thesis by (simp add: find_file_def find_index_def)
qed

lemma register_file_buf: "register_file n d (t\<lparr>file_buf_next := b\<rparr>) = (register_file n d t)\<lparr>file_buf_next := b\<rparr>"
  by (simp add: register_file_def)

lemma register_all_buf: "register_all fs (t\<lparr>file_buf_next := b\<rparr>) = (register_all fs t)\<lparr>file_buf_next := b\<rparr>"
  by (induction fs arbitrary: t) (auto simp: register_all_def register_file_buf)

lemma file_buf_register: "file_buf_next (register_all fs t) = file_buf_next t"
  by (induction fs arbitrary: t) (auto simp: register_all_def register_file_def)

lemma find_file_buf: "find_file name (t\<lparr>file_buf_next := b\<rparr>) = find_file name t"
  by (simp add: find_file_def find_index_def split: option.split)

definition nonempty_files :: "(bytes \<times> bytes) list \<Rightarrow> (bytes \<times> bytes) list" where
  "nonempty_files fs = filter (\<lambda>(n, d). d \<noteq> []) fs"

lemma register_all_append: "register_all (a @ b) t = register_all b (register_all a t)"
  by (simp add: register_all_def)

lemma alloc_room:
  "0 < n \<Longrightarrow> file_buf_next t + n + 7 \<le> FILE_BUF_SIZE \<Longrightarrow>
    \<exists>p b. alloc_disk_slot n t = (Some p, t\<lparr>file_buf_next := b\<rparr>) \<and> b \<le> file_buf_next t + n + 7"
  by (auto simp: alloc_disk_slot_def Let_def)

lemma map_of_nonempty:
  assumes "distinct (map fst fs)"
  shows "map_of (nonempty_files fs) name = (case map_of fs name of Some [] \<Rightarrow> None | r \<Rightarrow> r)"
  using assms
proof (induction fs)
  case (Cons f fs)
  have "map_of fs (fst f) = None" "map_of (nonempty_files fs) (fst f) = None"
    using Cons.prems by (auto simp: map_of_eq_None_iff nonempty_files_def)
  with Cons show ?case by (cases f; cases "snd f") (auto simp: nonempty_files_def)
qed (simp add: nonempty_files_def)

end
