(* ===== verification/Packets.thy ===== *)
theory Packets
  imports Byte_Order
begin

text \<open>
  The packet formats of the network stack (\<open>kernel/src/drivers/netstack\<close>): Ethernet frames
  (\<open>ethernet.rs\<close>), ARP packets (\<open>arp.rs\<close>), IPv4 datagrams with their checksum (\<open>ip.rs\<close>), UDP datagrams
  (\<open>udp.rs\<close>) and TCP segments (\<open>tcp.rs\<close>), each with its parser and its builder. A fixed-size array
  \<open>[u8; n]\<close> is a byte list, of length \<open>n\<close> where the properties need it. The parsers test the length of
  their input before they index it, so their reads are in range.

  The lemmas show that a receiver reads back what the builders write, and that the receiver's checksum
  test, the one's-complement sum over the data with the checksum in place, succeeds on it.
\<close>

section \<open>Ethernet\<close>

definition ETH_TYPE_IPV4 :: u16 where "ETH_TYPE_IPV4 = 0x0800"
definition ETH_TYPE_ARP :: u16 where "ETH_TYPE_ARP = 0x0806"

record eth_frame =
  eth_dst :: bytes
  eth_src :: bytes
  ethertype :: u16
  eth_payload :: bytes

definition eth_parse :: "bytes \<Rightarrow> eth_frame option" where
  "eth_parse bs =
     (if length bs < 14 then None
      else Some \<lparr>eth_dst = take 6 bs, eth_src = take 6 (drop 6 bs),
        ethertype = from_be16 (bs ! 12) (bs ! 13), eth_payload = drop 14 bs\<rparr>)"

text \<open>
  \<open>EthFrame::compose\<close> writes the frame at the start of \<open>buf\<close> and returns its length; \<open>buf[14..n]\<close> panics
  when the buffer is too short.
\<close>

definition eth_compose :: "bytes \<Rightarrow> bytes \<Rightarrow> bytes \<Rightarrow> u16 \<Rightarrow> bytes \<Rightarrow> ('e, nat \<times> bytes) result" where
  "eth_compose buf dst src ty payload =
     (let n = 14 + length payload in
      if length buf < n then Panic
      else Ok (n, dst @ src @ be_bytes16 ty @ payload @ drop n buf))"

definition is_for_me :: "eth_frame \<Rightarrow> bytes \<Rightarrow> bool" where
  "is_for_me f mac \<longleftrightarrow> eth_dst f = mac"

definition BROADCAST_MAC :: bytes where
  "BROADCAST_MAC = replicate 6 0xFF"

definition is_broadcast :: "eth_frame \<Rightarrow> bool" where
  "is_broadcast f \<longleftrightarrow> eth_dst f = BROADCAST_MAC"

lemma eth_roundtrip:
  assumes "length dst = 6" and "length src = 6"
  shows "eth_parse (dst @ src @ be_bytes16 ty @ payload)
    = Some \<lparr>eth_dst = dst, eth_src = src, ethertype = ty, eth_payload = payload\<rparr>"
proof -
  have "(dst @ src @ be_bytes16 ty @ payload) ! 12 = ucast (drop_bit 8 ty)"
    "(dst @ src @ be_bytes16 ty @ payload) ! 13 = ucast ty"
    using assms by (simp_all add: nth_append be_bytes16_def)
  with assms show ?thesis by (simp add: eth_parse_def be_bytes16_def)
qed

section \<open>ARP packets\<close>

definition ARP_OP_REQUEST :: u16 where "ARP_OP_REQUEST = 1"
definition ARP_OP_REPLY :: u16 where "ARP_OP_REPLY = 2"

record arp_packet =
  arp_operation :: u16
  sender_ip :: bytes
  target_ip :: bytes
  sender_mac :: bytes
  target_mac :: bytes

definition arp_parse :: "bytes \<Rightarrow> arp_packet option" where
  "arp_parse bs =
     (if length bs < 28 then None
      else if from_be16 (bs ! 0) (bs ! 1) \<noteq> 1 \<or> from_be16 (bs ! 2) (bs ! 3) \<noteq> 0x0800 then None
      else Some \<lparr>arp_operation = from_be16 (bs ! 6) (bs ! 7),
        sender_ip = take 4 (drop 14 bs), target_ip = take 4 (drop 24 bs),
        sender_mac = take 6 (drop 8 bs), target_mac = take 6 (drop 18 bs)\<rparr>)"

definition new_reply :: "bytes \<Rightarrow> bytes \<Rightarrow> bytes \<Rightarrow> bytes \<Rightarrow> arp_packet" where
  "new_reply sip tip smac tmac =
     \<lparr>arp_operation = ARP_OP_REPLY, sender_ip = sip, target_ip = tip, sender_mac = smac, target_mac = tmac\<rparr>"

definition arp_to_bytes :: "arp_packet \<Rightarrow> bytes" where
  "arp_to_bytes p = be_bytes16 1 @ be_bytes16 0x0800 @ [6, 4] @ be_bytes16 (arp_operation p)
     @ sender_mac p @ sender_ip p @ target_mac p @ target_ip p"

definition arp_wf :: "arp_packet \<Rightarrow> bool" where
  "arp_wf p \<longleftrightarrow> length (sender_mac p) = 6 \<and> length (target_mac p) = 6 \<and> length (sender_ip p) = 4 \<and> length (target_ip p) = 4"

lemma length_arp_to_bytes [simp]: "arp_wf p \<Longrightarrow> length (arp_to_bytes p) = 28"
  by (simp add: arp_to_bytes_def arp_wf_def)

lemma arp_parse_wf: "arp_parse bs = Some p \<Longrightarrow> arp_wf p"
  by (auto simp: arp_parse_def arp_wf_def split: if_splits)

lemma arp_roundtrip:
  assumes "arp_wf p"
  shows "arp_parse (arp_to_bytes p) = Some p"
proof -
  let ?r = "[6, 4] @ be_bytes16 (arp_operation p) @ sender_mac p @ sender_ip p @ target_mac p @ target_ip p"
  have hdr: "be_bytes16 1 = [0, 1]" "be_bytes16 0x0800 = [8, 0]" "from_be16 0 1 = 1" "from_be16 8 0 = 0x0800"
    by (simp_all add: be_bytes16_def from_be16_def)
  then have bs: "arp_to_bytes p = [0, 1, 8, 0] @ ?r" by (simp add: arp_to_bytes_def)
  have "from_be16 ((arp_to_bytes p) ! 6) ((arp_to_bytes p) ! 7) = arp_operation p"
    by (simp add: bs be_bytes16_def)
  moreover have "take 4 (drop 14 (arp_to_bytes p)) = sender_ip p" "take 4 (drop 24 (arp_to_bytes p)) = target_ip p"
    "take 6 (drop 8 (arp_to_bytes p)) = sender_mac p" "take 6 (drop 18 (arp_to_bytes p)) = target_mac p"
    using assms by (simp_all add: bs arp_wf_def be_bytes16_def)
  moreover have "arp_to_bytes p ! 0 = 0" "arp_to_bytes p ! 1 = 1" "arp_to_bytes p ! 2 = 8" "arp_to_bytes p ! 3 = 0"
    by (simp_all add: bs)
  ultimately show ?thesis
    using assms by (simp add: arp_parse_def hdr) (simp add: arp_wf_def)
qed

section \<open>The Internet checksum\<close>

text \<open>
  \<open>for chunk in data.chunks(2)\<close>: the sum of the big-endian 16-bit words, a last odd byte being the high
  half of a word. The source adds in \<open>u32\<close>; a packet has less than \<open>2^16\<close> bytes, so the sum never reaches
  \<open>2^32\<close> (\<open>unat_chunk_sum\<close>).
\<close>

fun chunk_sum :: "bytes \<Rightarrow> u32 \<Rightarrow> u32" where
  "chunk_sum [] acc = acc"
| "chunk_sum [a] acc = acc + push_bit 8 (ucast a)"
| "chunk_sum (a # b # bs) acc = chunk_sum bs (acc + (push_bit 8 (ucast a) OR ucast b))"

text \<open>\<open>while sum > 0xFFFF { sum = (sum & 0xFFFF) + (sum >> 16) }\<close>\<close>

lemma fold_decreases: "65535 < n \<Longrightarrow> n mod 65536 + n div 65536 < (n :: nat)"
proof -
  assume "65535 < n"
  moreover have "n = 65536 * (n div 65536) + n mod 65536" by simp
  ultimately show ?thesis by (cases "n div 65536") linarith+
qed

lemma unat_fold_step:
  fixes acc :: u32
  shows "unat ((acc AND 0xFFFF) + drop_bit 16 acc) = unat acc mod 2 ^ 16 + unat acc div 2 ^ 16"
proof -
  have m: "acc AND 0xFFFF = take_bit 16 acc"
    by (simp add: take_bit_eq_mask mask_eq_exp_minus_1)
  have u: "unat (take_bit 16 acc) = unat acc mod 2 ^ 16" "unat (drop_bit 16 acc) = unat acc div 2 ^ 16"
    unfolding unsigned_take_bit_eq unat_drop_bit_eq by (rule take_bit_eq_mod, rule drop_bit_eq_div)
  have "unat acc mod 2 ^ 16 + unat acc div 2 ^ 16 < 2 ^ 32"
    using order_less_le_trans [OF unsigned_less, of "2 ^ 32 :: nat" acc] by simp
  then show ?thesis
    unfolding m by (subst unat_add_lem [THEN iffD1]) (simp_all only: u, simp)
qed

function fold_carry :: "u32 \<Rightarrow> u32" where
  "fold_carry acc = (if acc > 0xFFFF then fold_carry ((acc AND 0xFFFF) + drop_bit 16 acc) else acc)"
  by auto
termination
proof (relation "measure unat")
  fix acc :: u32 assume "acc > 0xFFFF"
  then have "unat acc > 0xFFFF" by (simp add: word_less_nat_alt)
  then show "((acc AND 0xFFFF) + drop_bit 16 acc, acc) \<in> measure unat"
    using fold_decreases by (simp add: unat_fold_step)
qed simp

declare fold_carry.simps [simp del]

definition ip_chksum :: "bytes \<Rightarrow> u16" where
  "ip_chksum data = NOT (ucast (fold_carry (chunk_sum data 0)))"

text \<open>The same sum over the natural numbers.\<close>

fun word_sum :: "bytes \<Rightarrow> nat" where
  "word_sum [] = 0"
| "word_sum [a] = 256 * unat a"
| "word_sum (a # b # bs) = 256 * unat a + unat b + word_sum bs"

lemma word_sum_append: "even (length xs) \<Longrightarrow> word_sum (xs @ ys) = word_sum xs + word_sum ys"
  by (induction xs rule: word_sum.induct) simp_all

lemma word_sum_le: "word_sum bs \<le> 65535 * length bs"
proof (induction bs rule: word_sum.induct)
  case (2 a)
  show ?case using unat_u8_scaled [of a] by simp
next
  case (3 a b bs)
  then show ?case using unat_u8_scaled [of a] unat_u8_less [of b] by simp
qed simp

lemma unat_be_word:
  fixes a b :: u8
  shows "unat (push_bit 8 (ucast a) OR ucast b :: u32) = 256 * unat a + unat b"
    and "unat (push_bit 8 (ucast a) :: u32) = 256 * unat a"
proof -
  have "push_bit 8 (ucast a) OR ucast b = (push_bit 8 (ucast a) + ucast b :: u32)"
    by (rule disjunctive_add_eq_or [symmetric], rule bit_word_eqI) (auto simp: bit_simps dest: bit_imp_le_length)
  moreover have "unat (push_bit 8 (ucast a) :: u32) = 256 * unat a mod 2 ^ 32"
    unfolding push_bit_eq_mult by (simp add: unat_word_ariths unat_ucast_u8 mult.commute)
  then have p: "unat (push_bit 8 (ucast a) :: u32) = 256 * unat a"
    using unat_u8_scaled [of a] by simp
  ultimately show "unat (push_bit 8 (ucast a) OR ucast b :: u32) = 256 * unat a + unat b"
    using unat_u8_scaled [of a] unat_u8_less [of b] by (simp add: unat_word_ariths unat_ucast_u8)
  show "unat (push_bit 8 (ucast a) :: u32) = 256 * unat a" by (fact p)
qed

lemma unat_chunk_sum:
  "unat acc + word_sum bs < 2 ^ 32 \<Longrightarrow> unat (chunk_sum bs acc) = unat acc + word_sum bs"
proof (induction bs arbitrary: acc rule: word_sum.induct)
  case (2 a)
  then show ?case by (simp add: unat_word_ariths unat_be_word)
next
  case (3 a b bs)
  let ?s = "acc + (push_bit 8 (ucast a) OR ucast b)"
  have "unat ?s = unat acc + (256 * unat a + unat b)"
    using 3(2) by (simp add: unat_word_ariths unat_be_word)
  with 3 show ?case by simp
qed simp

text \<open>Folding keeps the sum modulo \<open>2^16 - 1\<close>, and zero only when it was zero.\<close>

lemma fold_carry_spec:
  "unat (fold_carry acc) \<le> 65535 \<and> unat (fold_carry acc) mod 65535 = unat acc mod 65535
     \<and> (unat (fold_carry acc) = 0 \<longleftrightarrow> unat acc = 0)"
proof (induction acc rule: fold_carry.induct)
  case (1 acc)
  let ?n = "unat acc" and ?s = "(acc AND 0xFFFF) + drop_bit 16 acc"
  show ?case
  proof (cases "acc > 0xFFFF")
    case True
    then have big: "65535 < ?n" by (simp add: word_less_nat_alt)
    have n: "?n = 65536 * (?n div 65536) + ?n mod 65536" by simp
    have s: "unat ?s = ?n mod 65536 + ?n div 65536" by (simp add: unat_fold_step)
    have "unat ?s \<noteq> 0" unfolding s using big n by (cases "?n div 65536") linarith+
    moreover have "?n = 65535 * (?n div 65536) + unat ?s" using n s by linarith
    then have "unat ?s mod 65535 = ?n mod 65535" by (metis mod_mult_self4)
    ultimately show ?thesis
      using 1 [OF True] True big by (simp add: fold_carry.simps [of acc])
  next
    case False
    then have "?n \<le> 65535" by (simp add: word_less_nat_alt)
    with False show ?thesis by (simp add: fold_carry.simps [of acc])
  qed
qed

text \<open>
  The checksum over \<open>data\<close> after the words already summed up in \<open>acc\<close>; \<open>ip_chksum\<close> starts from zero,
  TCP from its pseudo-header.
\<close>

definition inet_cksum :: "u32 \<Rightarrow> bytes \<Rightarrow> u16" where
  "inet_cksum acc data = NOT (ucast (fold_carry (chunk_sum data acc)))"

lemma ip_chksum_alt: "ip_chksum data = inet_cksum 0 data"
  by (simp add: ip_chksum_def inet_cksum_def)

lemma unat_inet_cksum: "unat (inet_cksum acc data) = 65535 - unat (fold_carry (chunk_sum data acc))"
proof -
  let ?f = "fold_carry (chunk_sum data acc)"
  have "unat (ucast ?f :: u16) = unat ?f"
    using fold_carry_spec [of "chunk_sum data acc"] by (simp add: unsigned_ucast_eq take_bit_nat_eq_self)
  moreover have "NOT (ucast ?f :: u16) = - 1 - ucast ?f" by (simp add: not_eq_complement)
  ultimately show ?thesis
    using fold_carry_spec [of "chunk_sum data acc"]
    by (simp add: inet_cksum_def unat_sub_if_size unsigned_minus_1_eq_mask mask_eq_exp_minus_1)
qed

lemma word_sum_be16 [simp]: "word_sum (be_bytes16 c) = unat c"
proof -
  have d: "unat (drop_bit 8 c) = unat c div 256"
    unfolding unat_drop_bit_eq by (simp add: drop_bit_eq_div)
  have "unat c < 65536" by (rule order_less_le_trans [OF unsigned_less]) simp
  with d have "unat (drop_bit 8 c) < 256" by (simp add: less_mult_imp_div_less)
  then have "take_bit LENGTH(8) (unat (drop_bit 8 c)) = unat (drop_bit 8 c)"
    by (intro take_bit_nat_eq_self) simp
  then have "unat (ucast (drop_bit 8 c) :: u8) = unat c div 256"
    unfolding unsigned_ucast_eq d .
  moreover have "unat (ucast c :: u8) = unat c mod 256"
    by (simp add: unsigned_ucast_eq take_bit_eq_mod)
  ultimately show ?thesis by (simp add: be_bytes16_def)
qed

lemma cksum_verifies:
  assumes a: "even (length a)" and len: "unat acc + 65535 * (length a + length b + 2) < 2 ^ 32"
    and c: "c = inet_cksum acc (a @ [0, 0] @ b)"
  shows "inet_cksum acc (a @ be_bytes16 c @ b) = 0"
proof -
  let ?z = "chunk_sum (a @ [0, 0] @ b) acc" and ?v = "chunk_sum (a @ be_bytes16 c @ b) acc"
  have bound: "unat acc + word_sum (a @ w @ b) < 2 ^ 32" if "length w = 2" for w :: bytes
    using len word_sum_le [of "a @ w @ b"] that by simp
  have z: "unat ?z = unat acc + word_sum a + word_sum b"
    using unat_chunk_sum [OF bound [of "[0, 0]"]] a by (simp add: word_sum_append)
  have v: "unat ?v = unat ?z + unat c"
    using unat_chunk_sum [OF bound [of "be_bytes16 c"]] a z by (simp add: word_sum_append [of a] word_sum_append [of "be_bytes16 c"])
  have c': "unat c = 65535 - unat (fold_carry ?z)" unfolding c by (rule unat_inet_cksum)
  note fz = fold_carry_spec [of ?z]
  have "(unat ?v + unat (fold_carry ?z)) mod 65535 = unat ?z mod 65535"
    unfolding v c' using fz by simp
  with fz have "(unat ?v + unat (fold_carry ?z)) mod 65535 = unat (fold_carry ?z) mod 65535" by simp
  then have "unat ?v mod 65535 = 0" by (simp add: mod_eq_dvd_iff_nat)
  moreover have "unat ?v \<noteq> 0" using v c' fz by (cases "unat ?z = 0") auto
  ultimately have "unat (fold_carry ?v) = 65535"
    using fold_carry_spec [of ?v] by (metis le_neq_implies_less mod_less)
  then show ?thesis using unat_inet_cksum [of acc "a @ be_bytes16 c @ b"] by (simp add: unat_eq_zero)
qed

section \<open>IPv4\<close>

definition IP_PROTO_ICMP :: u8 where "IP_PROTO_ICMP = 1"
definition IP_PROTO_TCP :: u8 where "IP_PROTO_TCP = 6"
definition IP_PROTO_UDP :: u8 where "IP_PROTO_UDP = 17"

type_synonym ip_addr = bytes

definition ip_from_u32 :: "u32 \<Rightarrow> ip_addr" where
  "ip_from_u32 v = le_bytes32 v"

definition ip_to_u32 :: "ip_addr \<Rightarrow> u32" where
  "ip_to_u32 a = from_le a"

definition ip_is_zero :: "ip_addr \<Rightarrow> bool" where
  "ip_is_zero a \<longleftrightarrow> a = [0, 0, 0, 0]"

record ipv4_packet =
  version_ihl :: u8
  ip_tos :: u8
  ip_total_len :: u16
  ip_id :: u16
  flags_offset :: u16
  ip_ttl :: u8
  ip_protocol :: u8
  ip_src :: ip_addr
  ip_dst :: ip_addr
  ip_payload :: bytes

definition ipv4_parse :: "bytes \<Rightarrow> ipv4_packet option" where
  "ipv4_parse bs =
     (if length bs < 20 then None
      else if drop_bit 4 (bs ! 0) \<noteq> 4 then None
      else
        let ihl = unat (bs ! 0 AND 0x0F) * 4 in
        if ihl < 20 \<or> length bs < ihl then None
        else Some \<lparr>version_ihl = bs ! 0, ip_tos = bs ! 1, ip_total_len = from_be16 (bs ! 2) (bs ! 3),
          ip_id = from_be16 (bs ! 4) (bs ! 5), flags_offset = from_be16 (bs ! 6) (bs ! 7),
          ip_ttl = bs ! 8, ip_protocol = bs ! 9,
          ip_src = take 4 (drop 12 bs), ip_dst = take 4 (drop 16 bs), ip_payload = drop ihl bs\<rparr>)"

text \<open>\<open>20 + payload.len() as u16\<close>: the cast truncates and the sum panics on overflow.\<close>

definition ipv4_new :: "ip_addr \<Rightarrow> ip_addr \<Rightarrow> u8 \<Rightarrow> bytes \<Rightarrow> ('e, ipv4_packet) result" where
  "ipv4_new src dst proto payload =
     (let len = word_of_nat (length payload) :: u16 in
      if 20 + unat len \<ge> 2 ^ 16 then Panic
      else Ok \<lparr>version_ihl = 0x45, ip_tos = 0, ip_total_len = 20 + len, ip_id = 0, flags_offset = 0,
        ip_ttl = 64, ip_protocol = proto, ip_src = src, ip_dst = dst, ip_payload = payload\<rparr>)"

definition ipv4_header :: "ipv4_packet \<Rightarrow> bytes \<Rightarrow> bytes" where
  "ipv4_header p cksum = [version_ihl p, ip_tos p] @ be_bytes16 (ip_total_len p) @ be_bytes16 (ip_id p)
     @ be_bytes16 (flags_offset p) @ [ip_ttl p, ip_protocol p] @ cksum @ ip_src p @ ip_dst p"

definition ipv4_to_bytes :: "ipv4_packet \<Rightarrow> bytes" where
  "ipv4_to_bytes p =
     (let v = ipv4_header p (be_bytes16 0) @ ip_payload p; sum = ip_chksum (take 20 v) in
      v[10 := ucast (drop_bit 8 sum), 11 := ucast sum])"

lemma ipv4_to_bytes_alt:
  assumes "length (ip_src p) = 4" and "length (ip_dst p) = 4"
  shows "ipv4_to_bytes p = ipv4_header p (be_bytes16 (ip_chksum (ipv4_header p [0, 0]))) @ ip_payload p"
proof -
  have "be_bytes16 0 = [0, 0]" by (simp add: be_bytes16_def)
  moreover have "take 20 (ipv4_header p [0, 0] @ ip_payload p) = ipv4_header p [0, 0]"
    using assms by (simp add: ipv4_header_def)
  ultimately show ?thesis
    by (simp add: ipv4_to_bytes_def Let_def) (simp add: ipv4_header_def be_bytes16_def)
qed

lemma length_ipv4_to_bytes:
  "length (ip_src p) = 4 \<Longrightarrow> length (ip_dst p) = 4 \<Longrightarrow> length (ipv4_to_bytes p) = 20 + length (ip_payload p)"
  by (simp add: ipv4_to_bytes_alt ipv4_header_def)

lemma ipv4_header_verifies:
  assumes "length (ip_src p) = 4" and "length (ip_dst p) = 4"
  shows "ip_chksum (take 20 (ipv4_to_bytes p)) = 0"
proof -
  let ?a = "[version_ihl p, ip_tos p] @ be_bytes16 (ip_total_len p) @ be_bytes16 (ip_id p)
     @ be_bytes16 (flags_offset p) @ [ip_ttl p, ip_protocol p]"
  have h: "ipv4_header p w = ?a @ w @ (ip_src p @ ip_dst p)" for w by (simp add: ipv4_header_def)
  have "take 20 (ipv4_to_bytes p) = ?a @ be_bytes16 (inet_cksum 0 (?a @ [0, 0] @ ip_src p @ ip_dst p)) @ ip_src p @ ip_dst p"
    using assms by (simp add: ipv4_to_bytes_alt h ip_chksum_alt)
  with cksum_verifies [of ?a 0 "ip_src p @ ip_dst p", OF _ _ refl] assms show ?thesis
    by (simp add: ip_chksum_alt)
qed

text \<open>
  The parser takes everything after the header for the payload; it does not cut at \<open>total_len\<close>, so the
  padding of a short Ethernet frame becomes part of the payload.
\<close>

lemma ipv4_parse_padded:
  assumes "ipv4_new src dst proto payload = Ok p" and "length src = 4" and "length dst = 4"
  shows "ipv4_parse (ipv4_to_bytes p @ pad) = Some (p\<lparr>ip_payload := ip_payload p @ pad\<rparr>)"
proof -
  have p: "version_ihl p = 0x45" "ip_src p = src" "ip_dst p = dst" "ip_payload p = payload"
    using assms(1) by (auto simp: ipv4_new_def Let_def split: if_splits)
  let ?bs = "ipv4_to_bytes p @ pad"
  have ihl: "unat (version_ihl p AND 0x0F) * 4 = 20" "drop_bit 4 (version_ihl p) = 4" by (simp_all add: p)
  have n: "?bs ! 0 = version_ihl p" "?bs ! Suc 0 = ip_tos p" "from_be16 (?bs ! 2) (?bs ! 3) = ip_total_len p"
    "from_be16 (?bs ! 4) (?bs ! 5) = ip_id p" "from_be16 (?bs ! 6) (?bs ! 7) = flags_offset p"
    "?bs ! 8 = ip_ttl p" "?bs ! 9 = ip_protocol p"
    using assms p by (simp_all add: ipv4_to_bytes_alt ipv4_header_def be_bytes16_def)
  have t: "take 4 (drop 12 ?bs) = ip_src p" "take 4 (drop 16 ?bs) = ip_dst p" "drop 20 ?bs = ip_payload p @ pad"
    using assms p by (simp_all add: ipv4_to_bytes_alt ipv4_header_def be_bytes16_def)
  have "length ?bs \<ge> 20" using assms p by (simp add: length_ipv4_to_bytes)
  then show ?thesis by (simp only: ipv4_parse_def n t ihl Let_def One_nat_def) simp
qed

lemma ipv4_roundtrip:
  assumes "ipv4_new src dst proto payload = Ok p" and "length src = 4" and "length dst = 4"
  shows "ipv4_parse (ipv4_to_bytes p) = Some p"
  using ipv4_parse_padded [OF assms, of "[]"] by simp

section \<open>UDP datagrams\<close>

record udp_packet =
  udp_src_port :: u16
  udp_dst_port :: u16
  udp_length :: u16
  udp_checksum :: u16
  udp_payload :: bytes

definition udp_parse :: "bytes \<Rightarrow> udp_packet option" where
  "udp_parse bs =
     (if length bs < 8 then None
      else Some \<lparr>udp_src_port = from_be16 (bs ! 0) (bs ! 1), udp_dst_port = from_be16 (bs ! 2) (bs ! 3),
        udp_length = from_be16 (bs ! 4) (bs ! 5), udp_checksum = from_be16 (bs ! 6) (bs ! 7),
        udp_payload = drop 8 bs\<rparr>)"

definition udp_new :: "u16 \<Rightarrow> u16 \<Rightarrow> bytes \<Rightarrow> ('e, udp_packet) result" where
  "udp_new sport dport payload =
     (let len = word_of_nat (length payload) :: u16 in
      if 8 + unat len \<ge> 2 ^ 16 then Panic
      else Ok \<lparr>udp_src_port = sport, udp_dst_port = dport, udp_length = 8 + len, udp_checksum = 0,
        udp_payload = payload\<rparr>)"

definition udp_to_bytes :: "udp_packet \<Rightarrow> bytes" where
  "udp_to_bytes p = be_bytes16 (udp_src_port p) @ be_bytes16 (udp_dst_port p) @ be_bytes16 (udp_length p)
     @ be_bytes16 (udp_checksum p) @ udp_payload p"

lemma length_udp_to_bytes [simp]: "length (udp_to_bytes p) = 8 + length (udp_payload p)"
  by (simp add: udp_to_bytes_def)

lemma udp_roundtrip: "udp_parse (udp_to_bytes p) = Some p"
  by (simp add: udp_parse_def) (simp add: udp_to_bytes_def be_bytes16_def)

section \<open>TCP segments\<close>

definition TCP_FIN :: u8 where "TCP_FIN = 0x01"
definition TCP_SYN :: u8 where "TCP_SYN = 0x02"
definition TCP_RST :: u8 where "TCP_RST = 0x04"
definition TCP_PSH :: u8 where "TCP_PSH = 0x08"
definition TCP_ACK :: u8 where "TCP_ACK = 0x10"

record tcp_packet =
  tcp_src_port :: u16
  tcp_dst_port :: u16
  tcp_seq :: u32
  tcp_ack_no :: u32
  tcp_flags :: u8
  tcp_payload :: bytes

definition tcp_parse :: "bytes \<Rightarrow> tcp_packet option" where
  "tcp_parse bs =
     (if length bs < 20 then None
      else
        let hdr_len = unat (drop_bit 4 (bs ! 12)) * 4 in
        if hdr_len < 20 \<or> hdr_len > length bs then None
        else Some \<lparr>tcp_src_port = from_be16 (bs ! 0) (bs ! 1), tcp_dst_port = from_be16 (bs ! 2) (bs ! 3),
          tcp_seq = from_be32 (bs ! 4) (bs ! 5) (bs ! 6) (bs ! 7),
          tcp_ack_no = from_be32 (bs ! 8) (bs ! 9) (bs ! 10) (bs ! 11),
          tcp_flags = bs ! 13, tcp_payload = drop hdr_len bs\<rparr>)"

definition pkt_syn :: "tcp_packet \<Rightarrow> bool" where "pkt_syn p \<longleftrightarrow> tcp_flags p AND TCP_SYN \<noteq> 0"
definition pkt_ack :: "tcp_packet \<Rightarrow> bool" where "pkt_ack p \<longleftrightarrow> tcp_flags p AND TCP_ACK \<noteq> 0"
definition pkt_fin :: "tcp_packet \<Rightarrow> bool" where "pkt_fin p \<longleftrightarrow> tcp_flags p AND TCP_FIN \<noteq> 0"
definition pkt_rst :: "tcp_packet \<Rightarrow> bool" where "pkt_rst p \<longleftrightarrow> tcp_flags p AND TCP_RST \<noteq> 0"

definition tcp_header :: "u16 \<Rightarrow> u16 \<Rightarrow> u32 \<Rightarrow> u32 \<Rightarrow> u8 \<Rightarrow> u16 \<Rightarrow> bytes \<Rightarrow> bytes" where
  "tcp_header sport dport sq ak flags window cksum =
     be_bytes16 sport @ be_bytes16 dport @ be_bytes32 sq @ be_bytes32 ak @ [0x50, flags]
     @ be_bytes16 window @ cksum @ be_bytes16 0"

text \<open>The words of the pseudo-header: addresses, protocol and segment length.\<close>

definition pseudo_sum :: "ip_addr \<Rightarrow> ip_addr \<Rightarrow> nat \<Rightarrow> u32" where
  "pseudo_sum s d len =
     (push_bit 8 (ucast (s ! 0)) OR ucast (s ! 1)) + (push_bit 8 (ucast (s ! 2)) OR ucast (s ! 3))
     + (push_bit 8 (ucast (d ! 0)) OR ucast (d ! 1)) + (push_bit 8 (ucast (d ! 2)) OR ucast (d ! 3))
     + 6 + word_of_nat len"

definition make_tcp_packet ::
  "u16 \<Rightarrow> u16 \<Rightarrow> u32 \<Rightarrow> u32 \<Rightarrow> u8 \<Rightarrow> u16 \<Rightarrow> bytes \<Rightarrow> ip_addr \<Rightarrow> ip_addr \<Rightarrow> bytes" where
  "make_tcp_packet sport dport sq ak flags window payload src dst =
     (let v = tcp_header sport dport sq ak flags window (be_bytes16 0) @ payload;
          sum = fold_carry (chunk_sum v (pseudo_sum src dst (length v)));
          cksum = NOT (ucast sum) :: u16 in
      v[16 := ucast (drop_bit 8 cksum), 17 := ucast cksum])"

text \<open>A segment with its checksum in place.\<close>

lemma make_tcp_packet_alt:
  "make_tcp_packet sport dport sq ak flags window payload src dst =
     (let hdr = tcp_header sport dport sq ak flags window in
      hdr (be_bytes16 (inet_cksum (pseudo_sum src dst (20 + length payload)) (hdr [0, 0] @ payload))) @ payload)"
proof -
  have z: "be_bytes16 0 = [0, 0]" by (simp add: be_bytes16_def)
  have len: "length (tcp_header sport dport sq ak flags window w) = 18 + length w" for w
    by (simp add: tcp_header_def)
  show ?thesis
    unfolding make_tcp_packet_def Let_def inet_cksum_def z length_append len
    by (simp add: tcp_header_def be_bytes16_def be_bytes32_def)
qed

lemma length_make_tcp_packet [simp]:
  "length (make_tcp_packet sport dport sq ak flags window payload src dst) = 20 + length payload"
  by (simp add: make_tcp_packet_alt Let_def tcp_header_def)

lemma tcp_parse_padded:
  "tcp_parse (make_tcp_packet sport dport sq ak flags window payload src dst @ pad)
     = Some \<lparr>tcp_src_port = sport, tcp_dst_port = dport, tcp_seq = sq, tcp_ack_no = ak, tcp_flags = flags,
         tcp_payload = payload @ pad\<rparr>"
proof -
  let ?bs = "make_tcp_packet sport dport sq ak flags window payload src dst @ pad"
  have n: "from_be16 (?bs ! 0) (?bs ! Suc 0) = sport" "from_be16 (?bs ! 2) (?bs ! 3) = dport"
    "from_be32 (?bs ! 4) (?bs ! 5) (?bs ! 6) (?bs ! 7) = sq" "from_be32 (?bs ! 8) (?bs ! 9) (?bs ! 10) (?bs ! 11) = ak"
    "?bs ! 12 = 0x50" "?bs ! 13 = flags" "drop 20 ?bs = payload @ pad"
    by (simp_all add: make_tcp_packet_alt Let_def tcp_header_def be_bytes16_def be_bytes32_def)
  have h: "unat (drop_bit 4 (0x50 :: u8)) * 4 = 20" by simp
  show ?thesis by (simp only: tcp_parse_def n h Let_def One_nat_def) simp
qed

lemma tcp_roundtrip:
  "tcp_parse (make_tcp_packet sport dport sq ak flags window payload src dst)
     = Some \<lparr>tcp_src_port = sport, tcp_dst_port = dport, tcp_seq = sq, tcp_ack_no = ak, tcp_flags = flags,
         tcp_payload = payload\<rparr>"
  using tcp_parse_padded [of sport dport sq ak flags window payload src dst "[]"] by simp

lemma unat_pseudo_sum:
  assumes "len < 2 ^ 16"
  shows "unat (pseudo_sum s d len) < 6 * 2 ^ 16"
proof -
  let ?w = "\<lambda>a b :: u8. push_bit 8 (ucast a) OR ucast b :: u32"
  have b: "unat (?w a b) < 2 ^ 16" for a b :: u8
    using unat_u8_scaled [of a] unat_u8_less [of b] by (simp add: unat_be_word)
  have add: "unat (x + y) < m + n" if "unat x < m" "unat y < n" for x y :: u32 and m n
    using that unat_plus_if' [of x y] by (auto split: if_splits)
  have l: "unat (word_of_nat len :: u32) < 2 ^ 16" using assms by (simp add: unat_word_of_nat)
  have s: "unat (6 :: u32) < 2 ^ 16" by simp
  have "unat (pseudo_sum s d len) < 2 ^ 16 + 2 ^ 16 + 2 ^ 16 + 2 ^ 16 + 2 ^ 16 + 2 ^ 16"
    unfolding pseudo_sum_def by (intro add b l s)
  then show ?thesis by simp
qed

lemma tcp_checksum_verifies:
  assumes "length payload < 2 ^ 15"
  shows "inet_cksum (pseudo_sum src dst (20 + length payload))
    (make_tcp_packet sport dport sq ak flags window payload src dst) = 0"
proof -
  let ?a = "be_bytes16 sport @ be_bytes16 dport @ be_bytes32 sq @ be_bytes32 ak @ [0x50, flags] @ be_bytes16 window"
    and ?b = "be_bytes16 0 @ payload" and ?s = "pseudo_sum src dst (20 + length payload)"
  have "unat ?s < 6 * 2 ^ 16" using assms by (intro unat_pseudo_sum) simp
  then have "unat ?s + 65535 * (length ?a + length ?b + 2) < 2 ^ 32" using assms by simp
  from cksum_verifies [OF _ this refl] show ?thesis
    by (simp add: make_tcp_packet_alt Let_def tcp_header_def)
qed

section \<open>Formats\<close>

text \<open>A packet format: a parser that undoes its builder on well-formed packets. Then no two packets look alike.\<close>

locale packet_format =
  fixes parse :: "bytes \<Rightarrow> 'p option" and build :: "'p \<Rightarrow> bytes" and wf :: "'p \<Rightarrow> bool"
  assumes parse_build: "wf p \<Longrightarrow> parse (build p) = Some p"
begin

lemma build_inj: "wf p \<Longrightarrow> wf q \<Longrightarrow> build p = build q \<Longrightarrow> p = q"
  by (metis parse_build option.inject)

end

definition built_ipv4 :: "ipv4_packet \<Rightarrow> bool" where
  "built_ipv4 p \<longleftrightarrow> length (ip_src p) = 4 \<and> length (ip_dst p) = 4
     \<and> ipv4_new (ip_src p) (ip_dst p) (ip_protocol p) (ip_payload p) = (Ok p :: (unit, _) result)"

interpretation arp_format: packet_format arp_parse arp_to_bytes arp_wf
  by unfold_locales (rule arp_roundtrip)

interpretation udp_format: packet_format udp_parse udp_to_bytes "\<lambda>_. True"
  by unfold_locales (rule udp_roundtrip)

interpretation ipv4_format: packet_format ipv4_parse ipv4_to_bytes built_ipv4
  by unfold_locales (unfold built_ipv4_def, elim conjE, rule ipv4_roundtrip)

section \<open>Properties\<close>

text \<open>
  C12: What the stack sends, a conforming receiver accepts. A TCP segment of any content, wrapped in an IPv4
  datagram, is read back field by field by the parsers, and both one's-complement checksums verify: the sum
  over the IP header, and the sum over the pseudo-header and the segment, with the checksums in place, come
  out as zero.
\<close>
theorem sent_segment_verifies:
  assumes "length src = 4" and "length dst = 4" and "length payload < 2 ^ 15"
    and "seg = make_tcp_packet sport dport sq ak flags window payload src dst"
    and "ipv4_new src dst IP_PROTO_TCP seg = Ok p"
  shows "ip_chksum (take 20 (ipv4_to_bytes p)) = 0 \<and> ipv4_parse (ipv4_to_bytes p) = Some p
     \<and> inet_cksum (pseudo_sum src dst (length seg)) (ip_payload p) = 0
     \<and> tcp_parse (ip_payload p) = Some \<lparr>tcp_src_port = sport, tcp_dst_port = dport, tcp_seq = sq, tcp_ack_no = ak,
         tcp_flags = flags, tcp_payload = payload\<rparr>"
proof -
  have p: "ip_src p = src" "ip_dst p = dst" "ip_payload p = seg"
    using assms(5) by (auto simp: ipv4_new_def Let_def split: if_splits)
  have "inet_cksum (pseudo_sum src dst (length seg)) seg = 0"
    unfolding assms(4) length_make_tcp_packet by (rule tcp_checksum_verifies [OF assms(3)])
  then show ?thesis
    using ipv4_roundtrip [OF assms(5,1,2)] ipv4_header_verifies [of p] p assms(1,2)
    by (simp add: assms(4) tcp_roundtrip)
qed

theorem sent_segment_verifies_witness:
  "\<exists>p. ipv4_new [10, 0, 2, 15] [10, 0, 2, 2] IP_PROTO_TCP
       (make_tcp_packet 49152 80 1000 0 TCP_SYN 65535 [] [10, 0, 2, 15] [10, 0, 2, 2]) = (Ok p :: (unit, _) result)
     \<and> ip_chksum (take 20 (ipv4_to_bytes p)) = 0"
proof -
  let ?seg = "make_tcp_packet 49152 80 1000 0 TCP_SYN 65535 [] [10, 0, 2, 15] [10, 0, 2, 2]"
  have "length ?seg = 20" by simp
  then obtain p where p: "ipv4_new [10, 0, 2, 15] [10, 0, 2, 2] IP_PROTO_TCP ?seg = (Ok p :: (unit, _) result)"
    by (simp add: ipv4_new_def unat_word_of_nat)
  with sent_segment_verifies [OF _ _ _ refl p] show ?thesis by simp
qed

end
