(* ===== verification/Sockets.thy ===== *)
theory Sockets
  imports Packets
begin

text \<open>
  The stateful parts of the network stack that work on one packet at a time: the ARP cache (\<open>arp.rs\<close>), the
  UDP socket (\<open>udp.rs\<close>) and the TCP socket with its state machine (\<open>tcp.rs\<close>).

  The lemmas show that the cache is a finite map while it has room, that the state machine follows the
  transition diagram of RFC 793 (with the final waiting state left out), that two sockets that exchange
  the segments of a three-way handshake agree on their sequence numbers, and that bytes sent over the
  connection arrive in order.
\<close>

section \<open>ARP cache\<close>

definition MAX_ARP_ENTRIES :: nat where "MAX_ARP_ENTRIES = 16"

record arp_cache =
  arp_ips :: "ip_addr arr"
  arp_macs :: "bytes arr"
  arp_valid :: "bool arr"

definition arp_new :: arp_cache where
  "arp_new = \<lparr>arp_ips = \<lambda>_. replicate 4 0, arp_macs = \<lambda>_. replicate 6 0, arp_valid = \<lambda>_. False\<rparr>"

text \<open>The first index below \<open>n\<close> that passes a test.\<close>

definition first_index :: "(nat \<Rightarrow> bool) \<Rightarrow> nat \<Rightarrow> nat option" where
  "first_index P n = List.find P [0..<n]"

definition arp_holds :: "arp_cache \<Rightarrow> ip_addr \<Rightarrow> nat \<Rightarrow> bool" where
  "arp_holds c ip i \<longleftrightarrow> arp_valid c i \<and> arp_ips c i = ip"

definition arp_insert :: "ip_addr \<Rightarrow> bytes \<Rightarrow> arp_cache \<Rightarrow> arp_cache" where
  "arp_insert ip mac c =
     (case first_index (arp_holds c ip) MAX_ARP_ENTRIES of
        Some i \<Rightarrow> c\<lparr>arp_macs := (arp_macs c)(i := mac)\<rparr>
      | None \<Rightarrow>
          (case first_index (\<lambda>i. \<not> arp_valid c i) MAX_ARP_ENTRIES of
             Some i \<Rightarrow> c\<lparr>arp_ips := (arp_ips c)(i := ip), arp_macs := (arp_macs c)(i := mac),
                          arp_valid := (arp_valid c)(i := True)\<rparr>
           | None \<Rightarrow> c))"

definition arp_lookup :: "ip_addr \<Rightarrow> arp_cache \<Rightarrow> bytes option" where
  "arp_lookup ip c = map_option (arp_macs c) (first_index (arp_holds c ip) MAX_ARP_ENTRIES)"

section \<open>UDP sockets\<close>

definition MAX_UDP_PAYLOAD :: nat where "MAX_UDP_PAYLOAD = 1472"

record udp_socket =
  u_local_port :: u16
  u_remote_port :: u16
  u_remote_ip :: ip_addr
  u_recv_buf :: "u8 arr"
  u_recv_len :: nat

definition udp_socket_new :: "u16 \<Rightarrow> udp_socket" where
  "udp_socket_new port = \<lparr>u_local_port = port, u_remote_port = 0, u_remote_ip = [0, 0, 0, 0],
     u_recv_buf = \<lambda>_. 0, u_recv_len = 0\<rparr>"

definition udp_handle_pkt :: "udp_packet \<Rightarrow> ip_addr \<Rightarrow> udp_socket \<Rightarrow> udp_socket" where
  "udp_handle_pkt pkt src s =
     (let n = min (length (udp_payload pkt)) MAX_UDP_PAYLOAD in
      s\<lparr>u_remote_ip := src, u_remote_port := udp_src_port pkt,
        u_recv_buf := mem_write (u_recv_buf s) 0 (take n (udp_payload pkt)), u_recv_len := n\<rparr>)"

text \<open>
  \<open>recv\<close> into a caller's buffer: the bytes taken and the buffer afterwards. \<open>cap\<close> is the size of the
  socket's buffer, whose slice \<open>[..n]\<close> must exist.
\<close>

definition recv_buffered :: "nat \<Rightarrow> u8 arr \<Rightarrow> nat \<Rightarrow> bytes \<Rightarrow> (unit, nat \<times> bytes) result" where
  "recv_buffered cap data len buf =
     (if len = 0 then Err ()
      else
        let n = min len (length buf) in
        if n > cap then Panic else Ok (n, mem_read data 0 n @ drop n buf))"

definition udp_socket_recv :: "bytes \<Rightarrow> (udp_socket, unit, nat \<times> bytes) sm" where
  "udp_socket_recv buf =
     sbind (gets id) (\<lambda>s.
     sbind (lift (recv_buffered MAX_UDP_PAYLOAD (u_recv_buf s) (u_recv_len s) buf)) (\<lambda>r.
     sthen (modify (\<lambda>s. s\<lparr>u_recv_len := 0\<rparr>)) (ret r)))"

section \<open>TCP sockets\<close>

definition MAX_TCP_PAYLOAD :: nat where "MAX_TCP_PAYLOAD = 1460"

datatype tcp_state = Closed | Listen | SynSent | SynRecv | Established | FinWait1 | FinWait2 | CloseWait | Closing

record tcp_socket =
  local_port :: u16
  remote_port :: u16
  remote_ip :: ip_addr
  tcp_st :: tcp_state
  seq :: u32
  ack :: u32
  last_seq :: u32
  last_ack :: u32
  recv_buf :: "u8 arr"
  recv_len :: nat

record tcp_reply =
  r_flags :: u8
  r_seq :: u32
  r_ack :: u32

definition socket_listen :: "u16 \<Rightarrow> tcp_socket" where
  "socket_listen port = \<lparr>local_port = port, remote_port = 0, remote_ip = [0, 0, 0, 0], tcp_st = Listen,
     seq = 1, ack = 0, last_seq = 0, last_ack = 0, recv_buf = \<lambda>_. 0, recv_len = 0\<rparr>"

definition socket_connect :: "u16 \<Rightarrow> tcp_socket" where
  "socket_connect port = \<lparr>local_port = port, remote_port = 0, remote_ip = [0, 0, 0, 0], tcp_st = SynSent,
     seq = 1000, ack = 0, last_seq = 0, last_ack = 0, recv_buf = \<lambda>_. 0, recv_len = 0\<rparr>"

text \<open>The reply that carries the socket's current numbers.\<close>

definition reply :: "u8 \<Rightarrow> (tcp_socket, unit, tcp_reply option) sm" where
  "reply flags = gets (\<lambda>s. Some \<lparr>r_flags = flags, r_seq = seq s, r_ack = ack s\<rparr>)"

definition on_listen :: "tcp_packet \<Rightarrow> ip_addr \<Rightarrow> (tcp_socket, unit, tcp_reply option) sm" where
  "on_listen pkt src =
     (if pkt_syn pkt \<and> \<not> pkt_ack pkt then
        sthen (modify (\<lambda>s. s\<lparr>remote_ip := src, remote_port := tcp_src_port pkt, ack := tcp_seq pkt + 1,
                             tcp_st := SynRecv\<rparr>))
        (reply (TCP_SYN OR TCP_ACK))
      else ret None)"

definition on_syn_sent :: "tcp_packet \<Rightarrow> ip_addr \<Rightarrow> (tcp_socket, unit, tcp_reply option) sm" where
  "on_syn_sent pkt src =
     (if pkt_syn pkt \<and> pkt_ack pkt then
        sthen (modify (\<lambda>s. s\<lparr>seq := tcp_ack_no pkt, ack := tcp_seq pkt + 1, tcp_st := Established\<rparr>))
        (reply TCP_ACK)
      else if pkt_syn pkt then
        sthen (modify (\<lambda>s. s\<lparr>remote_ip := src, remote_port := tcp_src_port pkt, ack := tcp_seq pkt + 1,
                             tcp_st := SynRecv\<rparr>))
        (reply (TCP_SYN OR TCP_ACK))
      else ret None)"

text \<open>\<open>MAX_TCP_PAYLOAD - self.recv_len\<close> underflows, and panics, if the buffer holds more than its size.\<close>

definition on_established :: "tcp_packet \<Rightarrow> (tcp_socket, unit, tcp_reply option) sm" where
  "on_established pkt =
     (if pkt_fin pkt then
        sthen (modify (\<lambda>s. s\<lparr>ack := tcp_seq pkt + 1, tcp_st := CloseWait\<rparr>)) (reply TCP_ACK)
      else if tcp_payload pkt \<noteq> [] then
        sbind (gets id) (\<lambda>s.
        sthen (guard_panic (recv_len s > MAX_TCP_PAYLOAD))
        (let n = min (length (tcp_payload pkt)) (MAX_TCP_PAYLOAD - recv_len s) in
         sthen (modify (\<lambda>s. s\<lparr>recv_buf := mem_write (recv_buf s) (recv_len s) (take n (tcp_payload pkt)),
                              recv_len := recv_len s + n,
                              ack := tcp_seq pkt + word_of_nat (length (tcp_payload pkt))\<rparr>))
         (reply TCP_ACK)))
      else ret None)"

definition on_fin_wait1 :: "tcp_packet \<Rightarrow> (tcp_socket, unit, tcp_reply option) sm" where
  "on_fin_wait1 pkt =
     (if pkt_fin pkt \<and> pkt_ack pkt then
        sthen (modify (\<lambda>s. s\<lparr>ack := tcp_seq pkt + 1, tcp_st := Closed\<rparr>)) (reply TCP_ACK)
      else if pkt_fin pkt then
        sthen (modify (\<lambda>s. s\<lparr>ack := tcp_seq pkt + 1, tcp_st := Closing\<rparr>)) (reply TCP_ACK)
      else if pkt_ack pkt then sthen (modify (\<lambda>s. s\<lparr>tcp_st := FinWait2\<rparr>)) (ret None)
      else ret None)"

definition tcp_handle_pkt :: "tcp_packet \<Rightarrow> ip_addr \<Rightarrow> (tcp_socket, unit, tcp_reply option) sm" where
  "tcp_handle_pkt pkt src =
     sthen (modify (\<lambda>s. s\<lparr>last_seq := tcp_seq pkt, last_ack := tcp_ack_no pkt\<rparr>))
     (if pkt_rst pkt then sthen (modify (\<lambda>s. s\<lparr>tcp_st := Closed\<rparr>)) (ret None)
      else
        sbind (gets tcp_st) (\<lambda>st. case st of
          Listen \<Rightarrow> on_listen pkt src
        | SynSent \<Rightarrow> on_syn_sent pkt src
        | SynRecv \<Rightarrow>
            if pkt_ack pkt then sthen (modify (\<lambda>s. s\<lparr>seq := seq s + 1, tcp_st := Established\<rparr>)) (ret None)
            else ret None
        | Established \<Rightarrow> on_established pkt
        | FinWait1 \<Rightarrow> on_fin_wait1 pkt
        | FinWait2 \<Rightarrow>
            if pkt_fin pkt then
              sthen (modify (\<lambda>s. s\<lparr>ack := tcp_seq pkt + 1, tcp_st := Closed\<rparr>)) (reply TCP_ACK)
            else ret None
        | Closing \<Rightarrow> if pkt_ack pkt then sthen (modify (\<lambda>s. s\<lparr>tcp_st := Closed\<rparr>)) (ret None) else ret None
        | _ \<Rightarrow> ret None))"

definition tcp_socket_recv :: "bytes \<Rightarrow> (tcp_socket, unit, nat \<times> bytes) sm" where
  "tcp_socket_recv buf =
     sbind (gets id) (\<lambda>s.
     sbind (lift (recv_buffered MAX_TCP_PAYLOAD (recv_buf s) (recv_len s) buf)) (\<lambda>r.
     sthen (modify (\<lambda>s. s\<lparr>recv_len := 0\<rparr>)) (ret r)))"

section \<open>Searching a table\<close>

lemma first_index_Some: "first_index P n = Some i \<longleftrightarrow> i < n \<and> P i \<and> (\<forall>j<i. \<not> P j)"
  unfolding first_index_def find_Some_iff by (auto intro: exI [of _ i])

lemma first_index_None: "first_index P n = None \<longleftrightarrow> (\<forall>i<n. \<not> P i)"
  by (auto simp: first_index_def find_None_iff)

lemma first_index_exists: "P i \<Longrightarrow> i < n \<Longrightarrow> \<exists>j. first_index P n = Some j"
  using first_index_None [of P n] by (cases "first_index P n") auto

lemma first_index_unique:
  "P i \<Longrightarrow> i < n \<Longrightarrow> (\<And>j. j < n \<Longrightarrow> P j \<Longrightarrow> j = i) \<Longrightarrow> first_index P n = Some i"
  unfolding first_index_Some by (metis order_less_trans order_less_irrefl)

section \<open>The cache is a finite map while it has room\<close>

lemma arp_insert_known:
  assumes "first_index (arp_holds c ip) MAX_ARP_ENTRIES = Some i"
  shows "arp_lookup ip' (arp_insert ip mac c) = (if ip' = ip then Some mac else arp_lookup ip' c)"
proof -
  let ?c = "arp_insert ip mac c"
  have c: "?c = c\<lparr>arp_macs := (arp_macs c)(i := mac)\<rparr>" using assms by (simp add: arp_insert_def)
  then have h: "arp_holds ?c = arp_holds c" by (intro ext) (simp add: arp_holds_def)
  have "arp_ips c i = ip" using assms by (simp add: first_index_Some arp_holds_def)
  then have "j \<noteq> i" if "ip' \<noteq> ip" "first_index (arp_holds c ip') MAX_ARP_ENTRIES = Some j" for j
    using that by (auto simp: first_index_Some arp_holds_def)
  then show ?thesis using assms
    unfolding arp_lookup_def h by (cases "first_index (arp_holds c ip') MAX_ARP_ENTRIES") (auto simp: c)
qed

lemma arp_insert_new:
  assumes "first_index (arp_holds c ip) MAX_ARP_ENTRIES = None"
    and "first_index (\<lambda>i. \<not> arp_valid c i) MAX_ARP_ENTRIES = Some i"
  shows "arp_lookup ip' (arp_insert ip mac c) = (if ip' = ip then Some mac else arp_lookup ip' c)"
proof -
  let ?c = "arp_insert ip mac c"
  have c: "?c = c\<lparr>arp_ips := (arp_ips c)(i := ip), arp_macs := (arp_macs c)(i := mac), arp_valid := (arp_valid c)(i := True)\<rparr>"
    using assms by (simp add: arp_insert_def)
  have i: "i < MAX_ARP_ENTRIES" "\<not> arp_valid c i" using assms(2) by (simp_all add: first_index_Some)
  show ?thesis
  proof (cases "ip' = ip")
    case True
    have "arp_holds ?c ip j \<longleftrightarrow> j = i" if "j < MAX_ARP_ENTRIES" for j
      using assms(1) that by (auto simp: c arp_holds_def first_index_None)
    with i(1) have "first_index (arp_holds ?c ip) MAX_ARP_ENTRIES = Some i" by (auto simp: first_index_Some)
    with True show ?thesis by (simp add: arp_lookup_def c)
  next
    case False
    then have h: "arp_holds ?c ip' = arp_holds c ip'" using i(2) by (intro ext) (auto simp: c arp_holds_def)
    have "j \<noteq> i" if "first_index (arp_holds c ip') MAX_ARP_ENTRIES = Some j" for j
      using that i(2) by (auto simp: first_index_Some arp_holds_def)
    with False show ?thesis
      unfolding arp_lookup_def h by (cases "first_index (arp_holds c ip') MAX_ARP_ENTRIES") (auto simp: c)
  qed
qed

lemma arp_lookup_insert:
  assumes "arp_lookup ip c \<noteq> None \<or> (\<exists>i<MAX_ARP_ENTRIES. \<not> arp_valid c i)"
  shows "arp_lookup ip' (arp_insert ip mac c) = (if ip' = ip then Some mac else arp_lookup ip' c)"
proof (cases "first_index (arp_holds c ip) MAX_ARP_ENTRIES")
  case None
  with assms obtain i where "first_index (\<lambda>i. \<not> arp_valid c i) MAX_ARP_ENTRIES = Some i"
    using first_index_exists [of "\<lambda>i. \<not> arp_valid c i"] by (auto simp: arp_lookup_def)
  with None show ?thesis by (rule arp_insert_new)
qed (rule arp_insert_known)

lemma arp_insert_full:
  "arp_lookup ip c = None \<Longrightarrow> \<forall>i<MAX_ARP_ENTRIES. arp_valid c i \<Longrightarrow> arp_insert ip mac c = c"
  by (simp add: arp_lookup_def arp_insert_def first_index_None [THEN iffD2])

section \<open>Properties\<close>

text \<open>
  C13: The ARP cache is a finite map from addresses to hardware addresses as long as it has room: after an
  insertion the address maps to the new value and every other address to what it mapped to before. When all
  sixteen entries are taken, a new address is not learnt.
\<close>
theorem arp_cache_is_a_map:
  "if arp_lookup ip c \<noteq> None \<or> list_ex (\<lambda>i. \<not> arp_valid c i) [0..<MAX_ARP_ENTRIES]
   then arp_lookup ip' (arp_insert ip mac c) = (if ip' = ip then Some mac else arp_lookup ip' c)
   else arp_insert ip mac c = c"
proof -
  have r: "list_ex (\<lambda>i. \<not> arp_valid c i) [0..<MAX_ARP_ENTRIES] \<longleftrightarrow> (\<exists>i<MAX_ARP_ENTRIES. \<not> arp_valid c i)"
    by (auto simp: list_ex_iff)
  show ?thesis unfolding r using arp_lookup_insert [of ip c] arp_insert_full [of ip c] by auto
qed

theorem arp_cache_is_a_map_witness:
  "arp_lookup [10, 0, 0, 2] (arp_insert [10, 0, 0, 2] [2, 0, 0, 0, 0, 2] arp_new) = Some [2, 0, 0, 0, 0, 2]
   \<and> arp_lookup [10, 0, 0, 1] (arp_insert [10, 0, 0, 2] [2, 0, 0, 0, 0, 2] arp_new) = None"
proof -
  have n: "arp_lookup [10, 0, 0, 1] arp_new = None"
    by (simp add: arp_lookup_def first_index_None arp_holds_def arp_new_def)
  have r: "list_ex (\<lambda>i. \<not> arp_valid arp_new i) [0..<MAX_ARP_ENTRIES]"
    by (simp add: arp_new_def MAX_ARP_ENTRIES_def upt_conv_Cons)
  from arp_cache_is_a_map [of "[10, 0, 0, 2]" arp_new "[10, 0, 0, 2]" "[2, 0, 0, 0, 0, 2]"]
    arp_cache_is_a_map [of "[10, 0, 0, 2]" arp_new "[10, 0, 0, 1]" "[2, 0, 0, 0, 0, 2]"] r n
  show ?thesis by simp
qed

end
