(* ===== verification/Dhcp.thy ===== *)
theory Dhcp
  imports Packets
begin

text \<open>
  The DHCP client (\<open>dhcp.rs\<close>): the packets it builds, the walk over the options of a reply, and its state
  machine \<open>Idle \<rightarrow> Selecting \<rightarrow> Requesting \<rightarrow> Bound\<close>. The packet buffer has 300 bytes and at most 261 are
  written; every read of a reply follows a length test.
\<close>

section \<open>State\<close>

definition CLIENT_PORT :: u16 where "CLIENT_PORT = 68"
definition SERVER_PORT :: u16 where "SERVER_PORT = 67"

definition MSG_DISCOVER :: u8 where "MSG_DISCOVER = 1"
definition MSG_OFFER :: u8 where "MSG_OFFER = 2"
definition MSG_REQUEST :: u8 where "MSG_REQUEST = 3"
definition MSG_ACK :: u8 where "MSG_ACK = 5"
definition MSG_NAK :: u8 where "MSG_NAK = 6"

definition DHCP_MAGIC :: bytes where "DHCP_MAGIC = [0x63, 0x82, 0x53, 0x63]"

datatype dhcp_state = Idle | Selecting | Requesting | Bound

record dhcp_client =
  dhcp_st :: dhcp_state
  xid :: u32
  offered_ip :: ip_addr
  server_ip :: ip_addr
  subnet_mask :: ip_addr
  gateway :: ip_addr
  lease_secs :: u32

datatype dhcp_action = SendRequest | BoundTo ip_addr | Nak

definition dhcp_new :: "bytes \<Rightarrow> dhcp_client" where
  "dhcp_new mac = \<lparr>dhcp_st = Idle, xid = from_be32 (mac ! 2) (mac ! 3) (mac ! 4) (mac ! 5),
     offered_ip = [0, 0, 0, 0], server_ip = [0, 0, 0, 0], subnet_mask = [0, 0, 0, 0], gateway = [0, 0, 0, 0],
     lease_secs = 86400\<rparr>"

section \<open>Building packets\<close>

text \<open>An option that is only present when the address is not zero, written at offset \<open>o'\<close> of the packet.\<close>

definition put_addr_option :: "u8 \<Rightarrow> ip_addr \<Rightarrow> u8 arr \<times> nat \<Rightarrow> u8 arr \<times> nat" where
  "put_addr_option tag addr = (\<lambda>(p, o').
     if addr \<noteq> [0, 0, 0, 0] then (mem_write p o' ([tag, 4] @ addr), o' + 6) else (p, o'))"

definition build_bootp :: "dhcp_client \<Rightarrow> bytes \<Rightarrow> u8 \<Rightarrow> ip_addr \<Rightarrow> ip_addr \<Rightarrow> bytes" where
  "build_bootp c mac msg_type requested_ip server_id =
     (let p = mem_write (\<lambda>_. 0) 0 [1, 1, 6];
          p = mem_write p 4 (be_bytes32 (xid c));
          p = mem_write p 10 (be_bytes16 0x8000);
          p = mem_write p 28 mac;
          p = mem_write p 236 DHCP_MAGIC;
          p = mem_write p 240 [53, 1, msg_type];
          (p, o') = put_addr_option 50 requested_ip (p, 243);
          (p, o') = put_addr_option 54 server_id (p, o');
          p = mem_write p o' [55, 3, 1, 3, 51];
          p = mem_write p (o' + 5) [255] in
      mem_read p 0 (o' + 6))"

definition build_discover :: "dhcp_client \<Rightarrow> bytes \<Rightarrow> bytes" where
  "build_discover c mac = build_bootp c mac MSG_DISCOVER [0, 0, 0, 0] [0, 0, 0, 0]"

definition build_request :: "dhcp_client \<Rightarrow> bytes \<Rightarrow> bytes" where
  "build_request c mac = build_bootp c mac MSG_REQUEST (offered_ip c) (server_ip c)"

section \<open>Handling a reply\<close>

record dhcp_options =
  o_msg_type :: u8
  o_server_id :: ip_addr
  o_subnet_mask :: ip_addr
  o_gateway :: ip_addr
  o_lease_secs :: u32

definition no_options :: dhcp_options where
  "no_options = \<lparr>o_msg_type = 0, o_server_id = [0, 0, 0, 0], o_subnet_mask = [0, 0, 0, 0],
     o_gateway = [0, 0, 0, 0], o_lease_secs = 86400\<rparr>"

definition take_option :: "u8 \<Rightarrow> bytes \<Rightarrow> dhcp_options \<Rightarrow> dhcp_options" where
  "take_option tag v os =
     (let len = length v in
      if tag = 53 \<and> len \<ge> 1 then os\<lparr>o_msg_type := v ! 0\<rparr>
      else if tag = 54 \<and> len \<ge> 4 then os\<lparr>o_server_id := take 4 v\<rparr>
      else if tag = 1 \<and> len \<ge> 4 then os\<lparr>o_subnet_mask := take 4 v\<rparr>
      else if tag = 3 \<and> len \<ge> 4 then os\<lparr>o_gateway := take 4 v\<rparr>
      else if tag = 51 \<and> len \<ge> 4 then os\<lparr>o_lease_secs := from_be32 (v ! 0) (v ! 1) (v ! 2) (v ! 3)\<rparr>
      else os)"

function walk_options :: "bytes \<Rightarrow> nat \<Rightarrow> dhcp_options \<Rightarrow> dhcp_options" where
  "walk_options bs i os =
     (if i \<ge> length bs then os
      else if bs ! i = 255 then os
      else if bs ! i = 0 then walk_options bs (i + 1) os
      else if i + 1 \<ge> length bs then os
      else
        let len = unat (bs ! (i + 1)) in
        if i + 2 + len > length bs then os
        else walk_options bs (i + 2 + len) (take_option (bs ! i) (take len (drop (i + 2) bs)) os))"
  by pat_completeness auto
termination by (relation "measure (\<lambda>(bs, i, os). length bs - i)") (auto simp: Let_def)

declare walk_options.simps [simp del]

definition relevant :: "dhcp_client \<Rightarrow> bytes \<Rightarrow> bool" where
  "relevant c bs \<longleftrightarrow> length bs \<ge> 240 \<and> bs ! 0 = 2 \<and> take 4 (drop 236 bs) = DHCP_MAGIC
     \<and> from_be32 (bs ! 4) (bs ! 5) (bs ! 6) (bs ! 7) = xid c"

definition dhcp_handle_packet :: "bytes \<Rightarrow> dhcp_client \<Rightarrow> dhcp_action option \<times> dhcp_client" where
  "dhcp_handle_packet bs c =
     (if \<not> relevant c bs then (None, c)
      else
        let yiaddr = [bs ! 16, bs ! 17, bs ! 18, bs ! 19]; os = walk_options bs 240 no_options in
        if dhcp_st c = Selecting \<and> o_msg_type os = MSG_OFFER then
          (Some SendRequest, c\<lparr>offered_ip := yiaddr, server_ip := o_server_id os, subnet_mask := o_subnet_mask os,
             gateway := o_gateway os, lease_secs := o_lease_secs os, dhcp_st := Requesting\<rparr>)
        else if dhcp_st c = Requesting \<and> o_msg_type os = MSG_ACK then
          (Some (BoundTo yiaddr), c\<lparr>offered_ip := yiaddr, dhcp_st := Bound\<rparr>)
        else if dhcp_st c = Requesting \<and> o_msg_type os = MSG_NAK then
          (Some Nak, c\<lparr>dhcp_st := Idle\<rparr>)
        else (None, c))"

section \<open>Reading options\<close>

text \<open>An option list as a server writes it: tag, length, value, and the end mark.\<close>

definition encode_option :: "u8 \<times> bytes \<Rightarrow> bytes" where
  "encode_option = (\<lambda>(tag, v). tag # word_of_nat (length v) # v)"

definition option_ok :: "u8 \<times> bytes \<Rightarrow> bool" where
  "option_ok = (\<lambda>(tag, v). tag \<noteq> 0 \<and> tag \<noteq> 255 \<and> length v < 256)"

lemma length_encode_option: "length (encode_option x) = 2 + length (snd x)"
  by (cases x) (simp add: encode_option_def)

lemma walk_encoded:
  assumes "\<forall>x \<in> set xs. option_ok x"
  shows "walk_options (pre @ concat (map encode_option xs) @ 255 # post) (length pre) os
    = fold (\<lambda>(tag, v). take_option tag v) xs os"
  using assms
proof (induction xs arbitrary: pre os)
  case Nil
  then show ?case by (subst walk_options.simps) (simp add: nth_append)
next
  case (Cons x xs)
  obtain t v where x: "x = (t, v)" by fastforce
  let ?rest = "concat (map encode_option xs) @ 255 # post"
  let ?bs = "pre @ (t # word_of_nat (length v) # v) @ ?rest"
  have ok: "t \<noteq> 0" "t \<noteq> 255" "unat (word_of_nat (length v) :: u8) = length v"
    using Cons.prems x by (auto simp: option_ok_def unat_word_of_nat)
  have at: "?bs ! length pre = t" "?bs ! (length pre + 1) = word_of_nat (length v)"
    "take (length v) (drop (length pre + 2) ?bs) = v"
    by (simp_all add: nth_append)
  have "walk_options ?bs (length pre) os
      = walk_options ?bs (length pre + 2 + length v) (take_option t v os)"
    using ok at by (subst walk_options.simps) (simp add: Let_def)
  moreover have "?bs = (pre @ t # word_of_nat (length v) # v) @ ?rest" by simp
  moreover have "length pre + 2 + length v = length (pre @ t # word_of_nat (length v) # v)" by simp
  ultimately have "walk_options ?bs (length pre) os
      = walk_options ((pre @ t # word_of_nat (length v) # v) @ ?rest) (length (pre @ t # word_of_nat (length v) # v)) (take_option t v os)"
    by metis
  also have "\<dots> = fold (\<lambda>(tag, v). take_option tag v) xs (take_option t v os)"
    using Cons.prems by (intro Cons.IH) simp
  finally show ?case by (simp add: x encode_option_def)
qed

text \<open>A reply of a server to the client with transaction \<open>x\<close>: the fixed part, the magic cookie and the options.\<close>

definition bootp_reply :: "u32 \<Rightarrow> ip_addr \<Rightarrow> (u8 \<times> bytes) list \<Rightarrow> bytes" where
  "bootp_reply x yiaddr opts = [2, 1, 6, 0] @ be_bytes32 x @ replicate 8 0 @ yiaddr @ replicate 216 0 @ DHCP_MAGIC
     @ concat (map encode_option opts) @ [255]"

lemma reply_options:
  assumes "length a = 4" and "\<forall>x \<in> set opts. option_ok x"
  shows "walk_options (bootp_reply x a opts) 240 os = fold (\<lambda>(tag, v). take_option tag v) opts os"
proof -
  let ?pre = "[2, 1, 6, 0] @ be_bytes32 x @ replicate 8 0 @ a @ replicate 216 0 @ DHCP_MAGIC"
  have "length ?pre = 240" using assms(1) by (simp add: DHCP_MAGIC_def)
  with walk_encoded [OF assms(2), of ?pre "[]" os] show ?thesis by (simp add: bootp_reply_def)
qed

lemma reply_relevant:
  assumes "length a = 4"
  shows "relevant c (bootp_reply (xid c) a opts)"
    and "[bootp_reply x a opts ! 16, bootp_reply x a opts ! 17, bootp_reply x a opts ! 18, bootp_reply x a opts ! 19] = a"
proof -
  obtain a0 a1 a2 a3 where a: "a = [a0, a1, a2, a3]"
    using assms by (auto simp: numeral_eq_Suc length_Suc_conv)
  show "[bootp_reply x a opts ! 16, bootp_reply x a opts ! 17, bootp_reply x a opts ! 18, bootp_reply x a opts ! 19] = a"
    by (simp add: bootp_reply_def be_bytes32_def a nth_append)
  show "relevant c (bootp_reply (xid c) a opts)"
    by (simp add: relevant_def bootp_reply_def be_bytes32_def a DHCP_MAGIC_def nth_append)
qed

section \<open>Properties\<close>

text \<open>
  The four-message exchange ends in a lease. A client that has sent DISCOVER takes a server's OFFER, asks
  for the address it was offered, and on the ACK is bound to it; the options of the OFFER are read as they
  were encoded, whatever other options the server sends along.
\<close>
theorem dhcp_exchange_binds:
  assumes "dhcp_st c = Selecting" and "length a = 4" and "length sid = 4" and "\<forall>x \<in> set extra. option_ok x \<and> fst x \<notin> {53, 54}"
    and "c1 = snd (dhcp_handle_packet (bootp_reply (xid c) a ((53, [MSG_OFFER]) # (54, sid) # extra)) c)"
    and "c2 = snd (dhcp_handle_packet (bootp_reply (xid c) a [(53, [MSG_ACK])]) c1)"
  shows "fst (dhcp_handle_packet (bootp_reply (xid c) a ((53, [MSG_OFFER]) # (54, sid) # extra)) c) = Some SendRequest
     \<and> offered_ip c1 = a \<and> server_ip c1 = sid
     \<and> fst (dhcp_handle_packet (bootp_reply (xid c) a [(53, [MSG_ACK])]) c1) = Some (BoundTo a)
     \<and> dhcp_st c2 = Bound \<and> offered_ip c2 = a"
proof -
  let ?offer = "(53, [MSG_OFFER]) # (54, sid) # extra"
  have keep: "o_msg_type (fold (\<lambda>(tag, v). take_option tag v) xs os) = o_msg_type os
      \<and> o_server_id (fold (\<lambda>(tag, v). take_option tag v) xs os) = o_server_id os"
    if "\<forall>x \<in> set xs. fst x \<notin> {53, 54}" for xs :: "(u8 \<times> bytes) list" and os
    using that by (induction xs arbitrary: os) (auto simp: take_option_def Let_def)
  have ok: "\<forall>x \<in> set ?offer. option_ok x" "\<forall>x \<in> set [(53, [MSG_ACK])]. option_ok x"
    using assms(3,4) by (auto simp: option_ok_def)
  have o1: "walk_options (bootp_reply (xid c) a ?offer) 240 no_options
      = fold (\<lambda>(tag, v). take_option tag v) extra (no_options\<lparr>o_msg_type := MSG_OFFER, o_server_id := sid\<rparr>)"
    unfolding reply_options [OF assms(2) ok(1)] using assms(3) by (simp add: take_option_def no_options_def)
  have h1: "dhcp_handle_packet (bootp_reply (xid c) a ?offer) c = (Some SendRequest, c1)"
      "offered_ip c1 = a" "server_ip c1 = sid" "dhcp_st c1 = Requesting" "xid c1 = xid c"
    using assms(1,4,5) keep [of extra "no_options\<lparr>o_msg_type := MSG_OFFER, o_server_id := sid\<rparr>"]
    by (simp_all add: dhcp_handle_packet_def Let_def reply_relevant [OF assms(2)] o1)
  have o2: "o_msg_type (walk_options (bootp_reply (xid c) a [(53, [MSG_ACK])]) 240 no_options) = MSG_ACK"
    unfolding reply_options [OF assms(2) ok(2)] by (simp add: take_option_def)
  have "relevant c1 (bootp_reply (xid c) a [(53, [MSG_ACK])])" using reply_relevant(1) [OF assms(2), of c1] h1(5) by simp
  then show ?thesis
    using h1 o2 assms(6) by (simp add: dhcp_handle_packet_def Let_def reply_relevant(2) [OF assms(2)])
qed

definition demo_dhcp :: dhcp_client where
  "demo_dhcp = (dhcp_new [2, 0, 0, 0, 0, 1])\<lparr>dhcp_st := Selecting\<rparr>"

theorem dhcp_exchange_binds_witness:
  "fst (dhcp_handle_packet (bootp_reply (xid demo_dhcp) [10, 0, 2, 15] [(53, [MSG_ACK])])
     (snd (dhcp_handle_packet (bootp_reply (xid demo_dhcp) [10, 0, 2, 15]
        [(53, [MSG_OFFER]), (54, [10, 0, 2, 2]), (1, [255, 255, 255, 0])]) demo_dhcp))) = Some (BoundTo [10, 0, 2, 15])"
proof -
  have "\<forall>x \<in> set [(1, [255, 255, 255, 0])]. option_ok x \<and> fst x \<notin> {53, 54}" "dhcp_st demo_dhcp = Selecting"
    by (simp_all add: option_ok_def demo_dhcp_def)
  from dhcp_exchange_binds [OF this(2) _ _ this(1) refl refl, of "[10, 0, 2, 15]" "[10, 0, 2, 2]"] show ?thesis by simp
qed

end
