(* ===== verification/Network.thy ===== *)
theory Network
  imports Sockets Dhcp
begin

text \<open>
  The network stack (\<open>netstack/mod.rs\<close>): the receive pump with its dispatch to ARP, ICMP, UDP, DHCP and
  TCP, the send path through the ARP cache, and the socket operations that the host functions call.

  The network card is the list of frames it will deliver and the list of frames handed to it;
  \<open>net_send\<close> and \<open>net_recv\<close> of \<open>virtio_net.rs\<close> are modelled down to their length tests, below which they
  drive the device rings. The lines printed to the console are left out.
\<close>

section \<open>State\<close>

definition MAX_SOCKETS :: nat where "MAX_SOCKETS = 8"
definition ETH_FRAME_SIZE :: nat where "ETH_FRAME_SIZE = 1514"

record netstack =
  rx :: "bytes list"
  tx :: "bytes list"
  mac :: bytes
  ip :: ip_addr
  dhcp :: dhcp_client
  arp :: arp_cache
  tcp_sockets :: "tcp_socket option arr"
  udp_sockets :: "udp_socket option arr"

type_synonym 'a nm = "(netstack, unit, 'a) sm"

section \<open>Sending\<close>

text \<open>The result of \<open>net_send\<close> is ignored by its only caller.\<close>

definition net_send :: "bytes \<Rightarrow> unit nm" where
  "net_send frame =
     (if length frame < 14 \<or> length frame > ETH_FRAME_SIZE then ret ()
      else modify (\<lambda>s. s\<lparr>tx := tx s @ [frame]\<rparr>))"

definition send_eth :: "bytes \<Rightarrow> u16 \<Rightarrow> bytes \<Rightarrow> unit nm" where
  "send_eth dst_mac ty payload =
     sbind (gets mac) (\<lambda>m.
     sbind (lift (eth_compose (replicate ETH_FRAME_SIZE 0) dst_mac m ty payload)) (\<lambda>(n, frame).
     net_send (take n frame)))"

definition send_arp_request :: "ip_addr \<Rightarrow> unit nm" where
  "send_arp_request target =
     sbind (gets id) (\<lambda>s.
     send_eth BROADCAST_MAC ETH_TYPE_ARP (arp_to_bytes
       \<lparr>arp_operation = ARP_OP_REQUEST, sender_ip = ip s, target_ip = target, sender_mac = mac s,
        target_mac = replicate 6 0\<rparr>))"

definition send_ip :: "ip_addr \<Rightarrow> bytes \<Rightarrow> unit nm" where
  "send_ip dst datagram =
     (if dst = [255, 255, 255, 255] then send_eth BROADCAST_MAC ETH_TYPE_IPV4 datagram
      else
        sbind (gets arp) (\<lambda>c. case arp_lookup dst c of
          Some m \<Rightarrow> send_eth m ETH_TYPE_IPV4 datagram
        | None \<Rightarrow> send_arp_request dst))"

definition send_icmp_reply :: "ip_addr \<Rightarrow> bytes \<Rightarrow> unit nm" where
  "send_icmp_reply dst request =
     (if length request < 8 then ret ()
      else
        let reply_len = min (length request) 64;
            copy = min (reply_len - 4) (length request - 4);
            icmp = replicate 4 0 @ take copy (drop 4 request) @ replicate (60 - copy) 0;
            cksum = ip_chksum (take reply_len icmp);
            icmp = icmp[2 := ucast (drop_bit 8 cksum), 3 := ucast cksum] in
        sbind (gets ip) (\<lambda>src.
        sbind (lift (ipv4_new src dst IP_PROTO_ICMP (take reply_len icmp))) (\<lambda>p.
        send_ip dst (ipv4_to_bytes p))))"

definition send_dhcp_udp :: "bytes \<Rightarrow> unit nm" where
  "send_dhcp_udp payload =
     sbind (lift (udp_new CLIENT_PORT SERVER_PORT payload)) (\<lambda>u.
     sbind (lift (ipv4_new [0, 0, 0, 0] [255, 255, 255, 255] IP_PROTO_UDP (udp_to_bytes u))) (\<lambda>p.
     send_eth BROADCAST_MAC ETH_TYPE_IPV4 (ipv4_to_bytes p)))"

definition send_tcp_seg :: "u16 \<Rightarrow> u16 \<Rightarrow> ip_addr \<Rightarrow> u32 \<Rightarrow> u32 \<Rightarrow> u8 \<Rightarrow> bytes \<Rightarrow> unit nm" where
  "send_tcp_seg lport rport rip sq ak flags payload =
     sbind (gets ip) (\<lambda>src.
     let seg = make_tcp_packet lport rport sq ak flags 65535 payload src rip in
     sbind (lift (ipv4_new src rip IP_PROTO_TCP seg)) (\<lambda>p.
     send_ip rip (ipv4_to_bytes p)))"

section \<open>DHCP\<close>

definition dhcp_start :: "unit nm" where
  "dhcp_start =
     sthen (modify (\<lambda>s. s\<lparr>dhcp := (dhcp s)\<lparr>dhcp_st := Selecting\<rparr>\<rparr>))
     (sbind (gets id) (\<lambda>s. send_dhcp_udp (build_discover (dhcp s) (mac s))))"

definition is_dhcp_bound :: "netstack \<Rightarrow> bool" where
  "is_dhcp_bound s \<longleftrightarrow> dhcp_st (dhcp s) = Bound"

definition handle_dhcp :: "bytes \<Rightarrow> unit nm" where
  "handle_dhcp payload =
     sbind (gets (\<lambda>s. dhcp_handle_packet (take 1024 payload) (dhcp s))) (\<lambda>(act, c).
     sthen (modify (\<lambda>s. s\<lparr>dhcp := c\<rparr>))
     (case act of
        None \<Rightarrow> ret ()
      | Some SendRequest \<Rightarrow> sbind (gets mac) (\<lambda>m. send_dhcp_udp (build_request c m))
      | Some (BoundTo a) \<Rightarrow> modify (\<lambda>s. s\<lparr>ip := a\<rparr>)
      | Some Nak \<Rightarrow> dhcp_start))"

section \<open>TCP\<close>

definition port_pair :: "u16 \<Rightarrow> u16 \<Rightarrow> tcp_socket option \<Rightarrow> bool" where
  "port_pair lp rp so = (case so of Some k \<Rightarrow> local_port k = lp \<and> remote_port k = rp | None \<Rightarrow> False)"

definition listens_on :: "u16 \<Rightarrow> tcp_socket option \<Rightarrow> bool" where
  "listens_on lp so = (case so of Some k \<Rightarrow> local_port k = lp \<and> tcp_st k = Listen | None \<Rightarrow> False)"

definition find_tcp_socket :: "netstack \<Rightarrow> u16 \<Rightarrow> u16 \<Rightarrow> nat option" where
  "find_tcp_socket s lp rp =
     (case first_index (\<lambda>i. port_pair lp rp (tcp_sockets s i)) MAX_SOCKETS of
        Some i \<Rightarrow> Some i
      | None \<Rightarrow> first_index (\<lambda>i. listens_on lp (tcp_sockets s i)) MAX_SOCKETS)"

text \<open>A socket operation at an index where there is a socket (\<open>as_mut().unwrap()\<close>).\<close>

definition at_socket :: "nat \<Rightarrow> (tcp_socket, unit, 'a) sm \<Rightarrow> 'a nm" where
  "at_socket i m = (\<lambda>s. case tcp_sockets s i of
       None \<Rightarrow> (Panic, s)
     | Some k \<Rightarrow> (case m k of (r, k') \<Rightarrow> (r, s\<lparr>tcp_sockets := (tcp_sockets s)(i := Some k')\<rparr>)))"

definition handle_tcp :: "ip_addr \<Rightarrow> tcp_packet \<Rightarrow> unit nm" where
  "handle_tcp src pkt =
     sbind (gets (\<lambda>s. find_tcp_socket s (tcp_dst_port pkt) (tcp_src_port pkt))) (\<lambda>idx. case idx of
       None \<Rightarrow> ret ()
     | Some i \<Rightarrow>
         sbind (at_socket i (tcp_handle_pkt pkt src)) (\<lambda>r. case r of
           None \<Rightarrow> ret ()
         | Some r \<Rightarrow>
             sbind (at_socket i (gets id)) (\<lambda>k.
             send_tcp_seg (local_port k) (remote_port k) (remote_ip k) (r_seq r) (r_ack r) (r_flags r) [])))"

definition flush_socket :: "ip_addr \<Rightarrow> nat \<Rightarrow> unit nm" where
  "flush_socket resolved i =
     sbind (gets (\<lambda>s. tcp_sockets s i)) (\<lambda>so. case so of
       None \<Rightarrow> ret ()
     | Some k \<Rightarrow>
         if tcp_st k = SynSent \<and> remote_ip k = resolved
         then send_tcp_seg (local_port k) (remote_port k) (remote_ip k) (seq k) 0 TCP_SYN []
         else ret ())"

fun for_each_in :: "nat list \<Rightarrow> (nat \<Rightarrow> unit nm) \<Rightarrow> unit nm" where
  "for_each_in [] f = ret ()"
| "for_each_in (i # js) f = sthen (f i) (for_each_in js f)"

definition flush_pending_syncs :: "ip_addr \<Rightarrow> unit nm" where
  "flush_pending_syncs resolved = for_each_in [0..<MAX_SOCKETS] (flush_socket resolved)"

definition port_in_use :: "tcp_socket option arr \<Rightarrow> u16 \<Rightarrow> bool" where
  "port_in_use socks port =
     list_ex (\<lambda>i. case socks i of Some k \<Rightarrow> local_port k = port | None \<Rightarrow> False) [0..<MAX_SOCKETS]"

text \<open>
  \<open>alloc_ephemeral_port\<close> tries port after port. It ends because at most eight ports are in use, so one of
  any nine consecutive ports is free.
\<close>

lemma port_free_ahead: "\<exists>k\<le>8. \<not> port_in_use socks (port + word_of_nat k)"
proof (rule ccontr)
  let ?f = "\<lambda>k :: nat. port + word_of_nat k" and ?p = "\<lambda>i. case socks i of Some k \<Rightarrow> local_port k | None \<Rightarrow> 0"
  assume "\<not> ?thesis"
  then have "?f ` {..8} \<subseteq> ?p ` {..<8}"
    by (force simp: port_in_use_def list_ex_iff MAX_SOCKETS_def split: option.splits)
  then have "card (?f ` {..8}) \<le> card (?p ` {..<8})" by (intro card_mono) simp_all
  also have "\<dots> \<le> 8" using card_image_le [of "{..<8}" ?p] by simp
  finally have "card (?f ` {..8}) \<le> 8" .
  moreover have "inj_on ?f {..8}"
  proof (rule inj_onI)
    fix j k :: nat assume "j \<in> {..8}" "k \<in> {..8}" "?f j = ?f k"
    then have "unat (word_of_nat j :: u16) = unat (word_of_nat k :: u16)" by simp
    with \<open>j \<in> {..8}\<close> \<open>k \<in> {..8}\<close> show "j = k" by (simp add: unat_word_of_nat)
  qed
  then have "card (?f ` {..8}) = 9" by (simp add: card_image)
  ultimately show False by simp
qed

function port_from :: "tcp_socket option arr \<Rightarrow> u16 \<Rightarrow> u16" where
  "port_from socks port = (if port_in_use socks port then port_from socks (port + 1) else port)"
  by auto
termination
proof (relation "measure (\<lambda>(socks, port). LEAST k. \<not> port_in_use socks (port + word_of_nat k))")
  fix socks port assume used: "port_in_use socks port"
  let ?P = "\<lambda>k. \<not> port_in_use socks (port + word_of_nat k)"
  obtain k where k: "?P k" using port_free_ahead by blast
  have "\<not> ?P 0" using used by simp
  then have "(LEAST k. ?P k) = Suc (LEAST m. ?P (Suc m))" by (rule Least_Suc [of ?P, OF k])
  moreover have "?P (Suc m) \<longleftrightarrow> \<not> port_in_use socks (port + 1 + word_of_nat m)" for m
    by (simp add: add.assoc)
  ultimately show "((socks, port + 1), (socks, port))
      \<in> measure (\<lambda>(socks, port). LEAST k. \<not> port_in_use socks (port + word_of_nat k))" by simp
qed simp

declare port_from.simps [simp del]

lemma port_from_free: "\<not> port_in_use socks (port_from socks p)"
  by (induction socks p rule: port_from.induct) (simp add: port_from.simps)

definition alloc_ephemeral_port :: "netstack \<Rightarrow> u16" where
  "alloc_ephemeral_port s = port_from (tcp_sockets s) 49152"

definition free_tcp :: "netstack \<Rightarrow> nat option" where
  "free_tcp s = first_index (\<lambda>i. tcp_sockets s i = None) MAX_SOCKETS"

definition put_tcp :: "nat \<Rightarrow> tcp_socket \<Rightarrow> unit nm" where
  "put_tcp i k = modify (\<lambda>s. s\<lparr>tcp_sockets := (tcp_sockets s)(i := Some k)\<rparr>)"

definition tcp_listen :: "u16 \<Rightarrow> nat option nm" where
  "tcp_listen port =
     sbind (gets free_tcp) (\<lambda>slot. case slot of
       None \<Rightarrow> ret None
     | Some i \<Rightarrow> sthen (put_tcp i (socket_listen port)) (ret (Some i)))"

definition tcp_connect :: "ip_addr \<Rightarrow> u16 \<Rightarrow> nat option nm" where
  "tcp_connect dst_ip dst_port =
     sbind (gets alloc_ephemeral_port) (\<lambda>lport.
     sbind (gets free_tcp) (\<lambda>slot. case slot of
       None \<Rightarrow> ret None
     | Some i \<Rightarrow>
         let k = (socket_connect lport)\<lparr>remote_ip := dst_ip, remote_port := dst_port\<rparr> in
         sthen (put_tcp i k)
         (sbind (gets arp) (\<lambda>c.
          sthen (if arp_lookup dst_ip c \<noteq> None
                 then send_tcp_seg lport dst_port dst_ip (seq k) 0 TCP_SYN []
                 else send_arp_request dst_ip)
          (ret (Some i))))))"

text \<open>\<open>&self.tcp_sockets[sock_idx]\<close> panics out of range; an empty slot is an error.\<close>

definition tcp_at :: "nat \<Rightarrow> tcp_socket nm" where
  "tcp_at i = (\<lambda>s. if i \<ge> MAX_SOCKETS then (Panic, s) else (ok_or (tcp_sockets s i) (), s))"

definition tcp_send :: "nat \<Rightarrow> bytes \<Rightarrow> nat nm" where
  "tcp_send i data =
     sbind (tcp_at i) (\<lambda>k.
     if tcp_st k \<noteq> Established then throw ()
     else
       let n = min (length data) MAX_TCP_PAYLOAD in
       sthen (send_tcp_seg (local_port k) (remote_port k) (remote_ip k) (seq k) (ack k) (TCP_PSH OR TCP_ACK)
                (take n data))
       (sthen (at_socket i (modify (\<lambda>k'. k'\<lparr>seq := seq k + word_of_nat n\<rparr>))) (ret n)))"

definition tcp_recv :: "nat \<Rightarrow> bytes \<Rightarrow> (nat \<times> bytes) nm" where
  "tcp_recv i buf = sthen (tcp_at i) (at_socket i (tcp_socket_recv buf))"

text \<open>\<open>as_ref()?\<close> of an empty slot gives \<open>None\<close>.\<close>

definition tcp_accept :: "nat \<Rightarrow> nat option nm" where
  "tcp_accept i = (\<lambda>s.
     if i \<ge> MAX_SOCKETS then (Panic, s)
     else case tcp_sockets s i of
       None \<Rightarrow> (Ok None, s)
     | Some k \<Rightarrow>
         if tcp_st k \<noteq> Established then (Ok None, s)
         else case free_tcp s of
           None \<Rightarrow> (Ok None, s)
         | Some j \<Rightarrow> (Ok (Some j), s\<lparr>tcp_sockets := (tcp_sockets s)(j := Some k, i := Some (socket_listen (local_port k)))\<rparr>))"

definition tcp_status :: "nat \<Rightarrow> netstack \<Rightarrow> i32" where
  "tcp_status i s =
     (if i \<ge> MAX_SOCKETS then 0
      else case tcp_sockets s i of
        None \<Rightarrow> 0
      | Some k \<Rightarrow> (case tcp_st k of Closed \<Rightarrow> 0 | Listen \<Rightarrow> 1 | SynSent \<Rightarrow> 2 | SynRecv \<Rightarrow> 2 | Established \<Rightarrow> 3 | _ \<Rightarrow> 4))"

definition get_ip :: "netstack \<Rightarrow> u32" where
  "get_ip s = ip_to_u32 (ip s)"

definition tcp_close :: "nat \<Rightarrow> unit nm" where
  "tcp_close i =
     sbind (tcp_at i) (\<lambda>k.
     if tcp_st k = Established \<or> tcp_st k = CloseWait then
       sthen (at_socket i (modify (\<lambda>k. k\<lparr>tcp_st := FinWait1\<rparr>)))
       (send_tcp_seg (local_port k) (remote_port k) (remote_ip k) (seq k) (ack k) (TCP_FIN OR TCP_ACK) [])
     else throw ())"

section \<open>UDP\<close>

definition udp_bind :: "u16 \<Rightarrow> nat option nm" where
  "udp_bind port =
     sbind (gets (\<lambda>s. first_index (\<lambda>i. udp_sockets s i = None) MAX_SOCKETS)) (\<lambda>slot. case slot of
       None \<Rightarrow> ret None
     | Some i \<Rightarrow>
         sthen (modify (\<lambda>s. s\<lparr>udp_sockets := (udp_sockets s)(i := Some (udp_socket_new port))\<rparr>)) (ret (Some i)))"

definition udp_at :: "nat \<Rightarrow> udp_socket nm" where
  "udp_at i = (\<lambda>s. if i \<ge> MAX_SOCKETS then (Panic, s) else (ok_or (udp_sockets s i) (), s))"

definition udp_send :: "nat \<Rightarrow> bytes \<Rightarrow> nat nm" where
  "udp_send i data =
     sbind (udp_at i) (\<lambda>k.
     if u_remote_port k = 0 \<or> ip_is_zero (u_remote_ip k) then throw ()
     else
       let n = min (length data) MAX_UDP_PAYLOAD in
       sbind (lift (udp_new (u_local_port k) (u_remote_port k) (take n data))) (\<lambda>u.
       sbind (gets ip) (\<lambda>src.
       sbind (lift (ipv4_new src (u_remote_ip k) IP_PROTO_UDP (udp_to_bytes u))) (\<lambda>p.
       sthen (send_ip (u_remote_ip k) (ipv4_to_bytes p)) (ret n)))))"

definition udp_connect :: "nat \<Rightarrow> ip_addr \<Rightarrow> u16 \<Rightarrow> unit nm" where
  "udp_connect i dst_ip dst_port = (\<lambda>s.
     case (if i < MAX_SOCKETS then udp_sockets s i else None) of
       None \<Rightarrow> (Err (), s)
     | Some k \<Rightarrow> (Ok (), s\<lparr>udp_sockets := (udp_sockets s)(i := Some (k\<lparr>u_remote_ip := dst_ip, u_remote_port := dst_port\<rparr>))\<rparr>))"

definition udp_close :: "nat \<Rightarrow> unit nm" where
  "udp_close i =
     (if i < MAX_SOCKETS then modify (\<lambda>s. s\<lparr>udp_sockets := (udp_sockets s)(i := None)\<rparr>) else ret ())"

definition udp_recv :: "nat \<Rightarrow> bytes \<Rightarrow> (nat \<times> bytes) nm" where
  "udp_recv i buf =
     sbind (udp_at i) (\<lambda>k. case udp_socket_recv buf k of (r, k') \<Rightarrow>
       sthen (modify (\<lambda>s. s\<lparr>udp_sockets := (udp_sockets s)(i := Some k')\<rparr>)) (lift r))"

definition handle_udp :: "ip_addr \<Rightarrow> udp_packet \<Rightarrow> unit nm" where
  "handle_udp src pkt =
     (if udp_src_port pkt = SERVER_PORT \<and> udp_dst_port pkt = CLIENT_PORT then handle_dhcp (udp_payload pkt)
      else
        modify (\<lambda>s.
          case first_index (\<lambda>i. case udp_sockets s i of Some k \<Rightarrow> u_local_port k = udp_dst_port pkt | None \<Rightarrow> False) MAX_SOCKETS of
            None \<Rightarrow> s
          | Some i \<Rightarrow> s\<lparr>udp_sockets := (udp_sockets s)(i := map_option (udp_handle_pkt pkt src) (udp_sockets s i))\<rparr>))"

definition set_ip :: "ip_addr \<Rightarrow> unit nm" where
  "set_ip a = modify (\<lambda>s. s\<lparr>ip := a\<rparr>)"

section \<open>The receive pump\<close>

definition handle_arp :: "arp_packet \<Rightarrow> unit nm" where
  "handle_arp pkt =
     sbind (gets id) (\<lambda>s.
     sthen (if arp_operation pkt = ARP_OP_REQUEST \<and> target_ip pkt = ip s
            then send_eth (sender_mac pkt) ETH_TYPE_ARP
              (arp_to_bytes (new_reply (ip s) (sender_ip pkt) (mac s) (sender_mac pkt)))
            else ret ())
     (if arp_operation pkt = ARP_OP_REPLY then
        sthen (modify (\<lambda>s. s\<lparr>arp := arp_insert (sender_ip pkt) (sender_mac pkt) (arp s)\<rparr>))
        (flush_pending_syncs (sender_ip pkt))
      else ret ()))"

definition handle_ip :: "ipv4_packet \<Rightarrow> unit nm" where
  "handle_ip pkt =
     (if ip_protocol pkt = IP_PROTO_ICMP then
        if length (ip_payload pkt) \<ge> 8 \<and> ip_payload pkt ! 0 = 8 then send_icmp_reply (ip_src pkt) (ip_payload pkt) else ret ()
      else if ip_protocol pkt = IP_PROTO_TCP then
        (case tcp_parse (ip_payload pkt) of Some seg \<Rightarrow> handle_tcp (ip_src pkt) seg | None \<Rightarrow> ret ())
      else if ip_protocol pkt = IP_PROTO_UDP then
        (case udp_parse (ip_payload pkt) of Some seg \<Rightarrow> handle_udp (ip_src pkt) seg | None \<Rightarrow> ret ())
      else ret ())"

definition handle_eth :: "bytes \<Rightarrow> unit nm" where
  "handle_eth frame = (case eth_parse frame of
       None \<Rightarrow> ret ()
     | Some eth \<Rightarrow>
         sbind (gets mac) (\<lambda>m.
         if \<not> is_for_me eth m \<and> \<not> is_broadcast eth then ret ()
         else if ethertype eth = ETH_TYPE_ARP then
           (case arp_parse (eth_payload eth) of Some p \<Rightarrow> handle_arp p | None \<Rightarrow> ret ())
         else if ethertype eth = ETH_TYPE_IPV4 then
           (case ipv4_parse (eth_payload eth) of
              None \<Rightarrow> ret ()
            | Some p \<Rightarrow>
                sthen (if \<not> is_broadcast eth
                       then modify (\<lambda>s. s\<lparr>arp := arp_insert (ip_src p) (eth_src eth) (arp s)\<rparr>)
                       else ret ())
                (handle_ip p))
         else ret ()))"

text \<open>\<open>net_recv\<close> into a buffer of one frame: the device's length is cut to the buffer, and 0 means no frame.\<close>

definition net_recv :: "bytes nm" where
  "net_recv = (\<lambda>s. case rx s of [] \<Rightarrow> (Ok [], s) | f # fs \<Rightarrow> (Ok (take ETH_FRAME_SIZE f), s\<lparr>rx := fs\<rparr>))"

definition poll :: "nat option nm" where
  "poll = sbind net_recv (\<lambda>f. if f \<noteq> [] then sthen (handle_eth f) (ret (Some (length f))) else ret None)"

text \<open>\<open>try_init\<close>, once the card has been found and its address read.\<close>

definition try_init :: "bytes \<Rightarrow> bytes list \<Rightarrow> (unit, unit) result \<times> netstack" where
  "try_init m frames = dhcp_start
     \<lparr>rx = frames, tx = [], mac = m, ip = [0, 0, 0, 0], dhcp = dhcp_new m, arp = arp_new,
      tcp_sockets = \<lambda>_. None, udp_sockets = \<lambda>_. None\<rparr>"

section \<open>Invariant\<close>

definition tcp_ok :: "tcp_socket \<Rightarrow> bool" where
  "tcp_ok k \<longleftrightarrow> recv_len k \<le> MAX_TCP_PAYLOAD \<and> length (remote_ip k) = 4"

definition udp_ok :: "udp_socket \<Rightarrow> bool" where
  "udp_ok k \<longleftrightarrow> u_recv_len k \<le> MAX_UDP_PAYLOAD \<and> length (u_remote_ip k) = 4"

text \<open>Addresses have their fixed sizes, receive buffers are within bounds, and every frame sent fits the wire.\<close>

definition net_ok :: "netstack \<Rightarrow> bool" where
  "net_ok s \<longleftrightarrow> length (mac s) = 6 \<and> length (ip s) = 4
     \<and> length (offered_ip (dhcp s)) = 4 \<and> length (server_ip (dhcp s)) = 4
     \<and> (\<forall>i. length (arp_macs (arp s) i) = 6)
     \<and> (\<forall>i k. tcp_sockets s i = Some k \<longrightarrow> tcp_ok k) \<and> (\<forall>i k. udp_sockets s i = Some k \<longrightarrow> udp_ok k)
     \<and> (\<forall>f \<in> set (tx s). 14 \<le> length f \<and> length f \<le> ETH_FRAME_SIZE)"

lemma net_okD:
  assumes "net_ok s"
  shows "length (mac s) = 6" "length (ip s) = 4" "length (offered_ip (dhcp s)) = 4" "length (server_ip (dhcp s)) = 4"
    "length (arp_macs (arp s) i) = 6" "tcp_sockets s i = Some k \<Longrightarrow> tcp_ok k" "udp_sockets s i = Some u \<Longrightarrow> udp_ok u"
  using assms by (simp_all add: net_ok_def)

lemma net_ok_updates:
  "net_ok s \<Longrightarrow> tcp_ok k \<Longrightarrow> net_ok (s\<lparr>tcp_sockets := (tcp_sockets s)(i := Some k)\<rparr>)"
  "net_ok s \<Longrightarrow> udp_ok u \<Longrightarrow> net_ok (s\<lparr>udp_sockets := (udp_sockets s)(i := Some u)\<rparr>)"
  "net_ok s \<Longrightarrow> net_ok (s\<lparr>udp_sockets := (udp_sockets s)(i := None)\<rparr>)"
  "net_ok s \<Longrightarrow> length a = 4 \<Longrightarrow> net_ok (s\<lparr>ip := a\<rparr>)"
  "net_ok s \<Longrightarrow> length (offered_ip c) = 4 \<Longrightarrow> length (server_ip c) = 4 \<Longrightarrow> net_ok (s\<lparr>dhcp := c\<rparr>)"
  by (simp_all add: net_ok_def)

lemma net_ok_arp:
  assumes "net_ok s" and "length m = 6"
  shows "net_ok (s\<lparr>arp := arp_insert a m (arp s)\<rparr>)"
  using assms by (auto simp: net_ok_def arp_insert_def split: option.splits)

lemma send_eth_safe:
  assumes "length dst = 6" and "length payload \<le> 1500"
  shows "safe net_ok (send_eth dst ty payload)"
  unfolding send_eth_def
proof (rule safe_bind_gets)
  fix s assume s: "net_ok s"
  let ?f = "dst @ mac s @ be_bytes16 ty @ payload"
  have c: "eth_compose (replicate ETH_FRAME_SIZE 0) dst (mac s) ty payload
      = (Ok (14 + length payload, ?f @ drop (14 + length payload) (replicate ETH_FRAME_SIZE 0)) :: (unit, _) result)"
    using assms by (simp add: eth_compose_def ETH_FRAME_SIZE_def)
  have t: "take (14 + length payload) (?f @ x) = ?f" for x using assms net_okD(1) [OF s] by simp
  have "safe net_ok (net_send ?f)"
    using assms net_okD(1) [OF s] by (auto simp: net_send_def net_ok_def ETH_FRAME_SIZE_def intro!: safe_modify)
  then show "safe net_ok (sbind (lift (eth_compose (replicate ETH_FRAME_SIZE 0) dst (mac s) ty payload))
      (\<lambda>(n, frame). net_send (take n frame)))"
    by (intro safe_bind_lift [OF c]) (simp only: prod.case t)
qed

lemma send_arp_request_safe: "length a = 4 \<Longrightarrow> safe net_ok (send_arp_request a)"
  unfolding send_arp_request_def
  by (rule safe_bind_gets, rule send_eth_safe)
    (simp_all add: BROADCAST_MAC_def arp_wf_def net_okD)

lemma send_ip_safe:
  assumes "length dst = 4" and "length datagram \<le> 1500"
  shows "safe net_ok (send_ip dst datagram)"
  unfolding send_ip_def
proof (intro safe_if safe_bind_gets safe_case_option send_arp_request_safe send_eth_safe assms)
  fix s m assume "net_ok s" and "arp_lookup dst (arp s) = Some m"
  then show "length m = 6" by (auto simp: arp_lookup_def net_okD)
qed (simp add: BROADCAST_MAC_def)

lemma ipv4_new_ok:
  assumes "length payload \<le> 1480"
  shows "\<exists>p. ipv4_new src dst proto payload = (Ok p :: (unit, _) result) \<and> ip_src p = src \<and> ip_dst p = dst \<and> ip_payload p = payload
    \<and> ip_protocol p = proto"
  using assms by (simp add: ipv4_new_def unat_word_of_nat)

lemma send_datagram_safe:
  fixes k :: "bytes \<Rightarrow> 'a nm"
  assumes "length payload \<le> 1480" and "length src = 4" and "length dst = 4"
    and "\<And>d. length d = 20 + length payload \<Longrightarrow> safe net_ok (k d)"
  shows "safe net_ok (sbind (lift (ipv4_new src dst proto payload)) (\<lambda>p. k (ipv4_to_bytes p)))"
proof -
  obtain p where p: "ipv4_new src dst proto payload = (Ok p :: (unit, _) result)"
      "ip_src p = src" "ip_dst p = dst" "ip_payload p = payload"
    using ipv4_new_ok [OF assms(1)] by blast
  with assms(2-4) show ?thesis by (intro safe_bind_lift [OF p(1)]) (simp add: length_ipv4_to_bytes)
qed

lemma send_tcp_seg_safe:
  assumes "length rip = 4" and "length payload \<le> MAX_TCP_PAYLOAD"
  shows "safe net_ok (send_tcp_seg lp rp rip sq ak fl payload)"
  unfolding send_tcp_seg_def Let_def using assms
  by (intro safe_bind_gets send_datagram_safe send_ip_safe) (simp_all add: net_okD MAX_TCP_PAYLOAD_def)

lemma send_icmp_reply_safe: "length dst = 4 \<Longrightarrow> safe net_ok (send_icmp_reply dst request)"
  unfolding send_icmp_reply_def Let_def
  by (intro safe_if safe_ret safe_bind_gets send_datagram_safe send_ip_safe) (simp_all add: net_okD)

lemma length_build_bootp: "length (build_bootp c m t a b) \<le> 261"
  by (simp add: build_bootp_def put_addr_option_def Let_def)

lemma udp_new_ok: "length payload \<le> 1472 \<Longrightarrow> \<exists>u. udp_new sp dp payload = (Ok u :: (unit, _) result) \<and> udp_payload u = payload
    \<and> udp_src_port u = sp \<and> udp_dst_port u = dp"
  by (simp add: udp_new_def unat_word_of_nat)

lemma send_dhcp_udp_safe:
  assumes "length payload \<le> 1400"
  shows "safe net_ok (send_dhcp_udp payload)"
proof -
  obtain u where u: "udp_new CLIENT_PORT SERVER_PORT payload = (Ok u :: (unit, _) result)" "udp_payload u = payload"
    using udp_new_ok [of payload CLIENT_PORT SERVER_PORT] assms by auto
  show ?thesis
    unfolding send_dhcp_udp_def using assms u
    by (intro safe_bind_lift [OF u(1)] send_datagram_safe send_eth_safe) (simp_all add: BROADCAST_MAC_def)
qed

lemma dhcp_start_safe: "safe net_ok dhcp_start"
  unfolding dhcp_start_def build_discover_def
  by (intro safe_sthen safe_modify safe_bind_gets send_dhcp_udp_safe order_trans [OF length_build_bootp])
    (simp_all add: net_ok_updates net_okD)

lemma length_option_addrs:
  "length (o_server_id os) = 4 \<Longrightarrow> length (o_server_id (take_option t v os)) = 4"
  by (simp add: take_option_def Let_def)

lemma length_walk_options: "length (o_server_id os) = 4 \<Longrightarrow> length (o_server_id (walk_options bs i os)) = 4"
  by (induction bs i os rule: walk_options.induct)
    (subst walk_options.simps, auto simp: Let_def length_option_addrs)

lemma dhcp_handle_packet_lengths:
  assumes "dhcp_handle_packet bs c = (act, c')" and "length (offered_ip c) = 4" and "length (server_ip c) = 4"
  shows "length (offered_ip c') = 4 \<and> length (server_ip c') = 4 \<and> (\<forall>a. act = Some (BoundTo a) \<longrightarrow> length a = 4)"
proof -
  have "length (o_server_id (walk_options bs 240 no_options)) = 4"
    by (rule length_walk_options) (simp add: no_options_def)
  with assms show ?thesis by (auto simp: dhcp_handle_packet_def Let_def split: if_splits)
qed

lemma handle_dhcp_safe: "safe net_ok (handle_dhcp payload)"
  unfolding handle_dhcp_def
proof (rule safe_bind_gets)
  fix s assume s: "net_ok s"
  obtain act c where r: "dhcp_handle_packet (take 1024 payload) (dhcp s) = (act, c)" by fastforce
  note len = dhcp_handle_packet_lengths [OF r net_okD(3) [OF s] net_okD(4) [OF s]]
  have "safe net_ok (send_dhcp_udp (build_request c m))" for m
    unfolding build_request_def by (intro send_dhcp_udp_safe order_trans [OF length_build_bootp]) simp
  with len show "safe net_ok (case dhcp_handle_packet (take 1024 payload) (dhcp s) of
      (act, c) \<Rightarrow> sthen (modify (\<lambda>s. s\<lparr>dhcp := c\<rparr>)) (case act of None \<Rightarrow> ret () | Some SendRequest \<Rightarrow> sbind (gets mac) (\<lambda>m. send_dhcp_udp (build_request c m))
        | Some (BoundTo a) \<Rightarrow> modify (\<lambda>s. s\<lparr>ip := a\<rparr>) | Some Nak \<Rightarrow> dhcp_start))"
    unfolding r prod.case
    by (intro safe_sthen safe_modify) (auto split: option.split dhcp_action.split intro!: safe_modify dhcp_start_safe
        simp: net_ok_updates)
qed

lemma tcp_handle_pkt_safe:
  assumes "length src = 4"
  shows "safe tcp_ok (tcp_handle_pkt pkt src)"
proof -
  note defs = reply_def sm_defs tcp_ok_def
  have "safe tcp_ok (on_listen pkt src)" "safe tcp_ok (on_syn_sent pkt src)" "safe tcp_ok (on_established pkt)"
    "safe tcp_ok (on_fin_wait1 pkt)"
    using assms by (auto simp: safe_def on_listen_def on_syn_sent_def on_established_def on_fin_wait1_def Let_def defs)
  then show ?thesis
    unfolding tcp_handle_pkt_def reply_def
    by (intro safe_sthen safe_if safe_sbind) (auto split: tcp_state.split intro!: safe_modify simp: tcp_ok_def)
qed

lemma at_socket_good:
  assumes "net_ok s" and "tcp_sockets s i = Some k" and "safe tcp_ok m"
  shows "good net_ok (at_socket i m) s"
  using safeD [OF assms(3) net_okD(6) [OF assms(1,2)]] assms(1,2)
  by (auto simp: good_def at_socket_def net_ok_updates split: prod.split)

lemma at_socket_some: "at_socket i m s = (Ok x, t) \<Longrightarrow> \<exists>k. tcp_sockets t i = Some k"
  by (auto simp: at_socket_def split: option.splits prod.splits)

lemma find_tcp_socket_some: "find_tcp_socket s lp rp = Some i \<Longrightarrow> i < MAX_SOCKETS \<and> tcp_sockets s i \<noteq> None"
  by (auto simp: find_tcp_socket_def first_index_Some port_pair_def listens_on_def split: option.splits)

lemma send_segment_good:
  "net_ok s \<Longrightarrow> tcp_ok k \<Longrightarrow> length payload \<le> MAX_TCP_PAYLOAD
    \<Longrightarrow> good net_ok (send_tcp_seg lp rp (remote_ip k) sq ak fl payload) s"
  by (rule safeD [OF send_tcp_seg_safe]) (simp_all add: tcp_ok_def)

lemma at_socket_read: "tcp_sockets t i = Some k \<Longrightarrow> sbind (at_socket i (gets id)) f t = f k t"
  by (simp add: sbind_def at_socket_def gets_def fun_upd_idem)

lemma handle_tcp_safe:
  assumes "length src = 4"
  shows "safe net_ok (handle_tcp src pkt)"
  unfolding handle_tcp_def
proof (rule safeI, unfold good_def run_gets, fold good_def)
  fix s assume s: "net_ok s"
  let ?send = "\<lambda>k r. send_tcp_seg (local_port k) (remote_port k) (remote_ip k) (r_seq r) (r_ack r) (r_flags r) []"
  let ?answer = "\<lambda>i r. case r of None \<Rightarrow> ret () | Some r \<Rightarrow> sbind (at_socket i (gets id)) (\<lambda>k. ?send k r)"
  have answer: "good net_ok (?answer i r) t" if "net_ok t" "tcp_sockets t i = Some k"
    for i t k and r :: "tcp_reply option"
    using that send_segment_good [OF that(1) net_okD(6) [OF that]]
    by (auto simp: good_def ret_def at_socket_read split: option.split)
  have "good net_ok (sbind (at_socket i (tcp_handle_pkt pkt src)) (?answer i)) s"
    if found: "find_tcp_socket s (tcp_dst_port pkt) (tcp_src_port pkt) = Some i" for i
  proof -
    obtain k where k: "tcp_sockets s i = Some k" using find_tcp_socket_some [OF found] by blast
    show ?thesis
    proof (rule good_sbind [OF at_socket_good [OF s k tcp_handle_pkt_safe [OF assms]]])
      fix r t assume r: "at_socket i (tcp_handle_pkt pkt src) s = (Ok r, t)" and t: "net_ok t"
      obtain k' where "tcp_sockets t i = Some k'" using at_socket_some [OF r] by blast
      with t show "good net_ok (?answer i r) t" by (rule answer)
    qed
  qed
  with s show "good net_ok (case find_tcp_socket s (tcp_dst_port pkt) (tcp_src_port pkt) of
      None \<Rightarrow> ret () | Some i \<Rightarrow> sbind (at_socket i (tcp_handle_pkt pkt src)) (?answer i)) s"
    by (cases "find_tcp_socket s (tcp_dst_port pkt) (tcp_src_port pkt)") (simp_all add: good_def ret_def)
qed

lemma for_each_in_safe: "(\<And>i. safe P (f i)) \<Longrightarrow> safe P (for_each_in js f)"
  by (induction js) auto

lemma flush_pending_syncs_safe: "safe net_ok (flush_pending_syncs a)"
  unfolding flush_pending_syncs_def flush_socket_def
proof (intro for_each_in_safe safe_bind_gets safe_case_option safe_ret safe_if send_tcp_seg_safe)
  fix s i k assume "net_ok s" and "tcp_sockets s i = Some k"
  then show "length (remote_ip k) = 4" using net_okD(6) by (auto simp: tcp_ok_def)
qed simp

lemma handle_arp_safe:
  assumes "arp_wf pkt"
  shows "safe net_ok (handle_arp pkt)"
  unfolding handle_arp_def using assms
  by (intro safe_bind_gets safe_sthen safe_if safe_ret send_eth_safe safe_modify net_ok_arp flush_pending_syncs_safe)
    (simp_all add: arp_wf_def new_reply_def net_okD)

lemma udp_handle_pkt_ok: "udp_ok u \<Longrightarrow> length src = 4 \<Longrightarrow> udp_ok (udp_handle_pkt pkt src u)"
  by (simp add: udp_ok_def udp_handle_pkt_def Let_def)

lemma handle_udp_safe:
  assumes "length src = 4"
  shows "safe net_ok (handle_udp src pkt)"
  unfolding handle_udp_def
proof (intro safe_if handle_dhcp_safe safe_modify)
  fix s :: netstack assume s: "net_ok s"
  let ?t = "\<lambda>i. s\<lparr>udp_sockets := (udp_sockets s)(i := map_option (udp_handle_pkt pkt src) (udp_sockets s i))\<rparr>"
  have "net_ok (?t i)" for i
    using s assms by (cases "udp_sockets s i") (auto simp: net_ok_updates net_okD udp_handle_pkt_ok)
  with s show "net_ok (case first_index (\<lambda>i. case udp_sockets s i of None \<Rightarrow> False | Some k \<Rightarrow> u_local_port k = udp_dst_port pkt) MAX_SOCKETS of
      None \<Rightarrow> s | Some i \<Rightarrow> ?t i)" by (simp split: option.split)
qed

lemma ipv4_parse_lengths: "ipv4_parse bs = Some p \<Longrightarrow> length (ip_src p) = 4 \<and> length (ip_dst p) = 4"
  by (auto simp: ipv4_parse_def Let_def split: if_splits)

lemma handle_ip_safe:
  assumes "length (ip_src pkt) = 4"
  shows "safe net_ok (handle_ip pkt)"
  unfolding handle_ip_def using assms
  by (intro safe_if safe_ret safe_case_option send_icmp_reply_safe handle_tcp_safe handle_udp_safe)

lemma handle_eth_safe: "safe net_ok (handle_eth frame)"
  unfolding handle_eth_def
proof (intro safe_case_option safe_ret safe_bind_gets safe_if safe_sthen handle_arp_safe safe_modify net_ok_arp handle_ip_safe)
  fix eth assume "eth_parse frame = Some eth"
  then show "length (eth_src eth) = 6" by (auto simp: eth_parse_def split: if_splits)
qed (auto dest: arp_parse_wf ipv4_parse_lengths)

lemma poll_safe: "safe net_ok poll"
  unfolding poll_def
proof (intro safe_sbind safe_if safe_sthen handle_eth_safe safe_ret)
  show "safe net_ok net_recv"
    by (auto simp: safe_def net_recv_def net_ok_def split: list.split)
qed

section \<open>The socket operations\<close>

lemma length_ip_from_u32 [simp]: "length (ip_from_u32 v) = 4"
  by (simp add: ip_from_u32_def)

lemma socket_new_ok: "tcp_ok (socket_listen p)" "length a = 4 \<Longrightarrow> tcp_ok ((socket_connect p)\<lparr>remote_ip := a, remote_port := q\<rparr>)"
  "udp_ok (udp_socket_new p)"
  by (simp_all add: tcp_ok_def udp_ok_def socket_listen_def socket_connect_def udp_socket_new_def)

lemma tcp_listen_safe: "safe net_ok (tcp_listen port)"
  unfolding tcp_listen_def put_tcp_def
  by (intro safe_sbind safe_gets safe_case_option safe_sthen safe_ret safe_modify net_ok_updates socket_new_ok)

lemma tcp_connect_safe: "length a = 4 \<Longrightarrow> safe net_ok (tcp_connect a port)"
  unfolding tcp_connect_def put_tcp_def Let_def
  by (intro safe_sbind safe_gets safe_case_option safe_sthen safe_ret safe_modify net_ok_updates socket_new_ok safe_if
      send_tcp_seg_safe send_arp_request_safe) simp_all

lemma udp_bind_safe: "safe net_ok (udp_bind port)"
  unfolding udp_bind_def
  by (intro safe_sbind safe_gets safe_case_option safe_sthen safe_ret safe_modify net_ok_updates socket_new_ok)

lemma udp_connect_safe: "length a = 4 \<Longrightarrow> safe net_ok (udp_connect i a port)"
  by (auto simp: safe_def udp_connect_def net_okD(7) udp_ok_def intro!: net_ok_updates split: option.split if_split_asm
      dest: net_okD(7))

lemma udp_close_safe: "safe net_ok (udp_close i)"
  unfolding udp_close_def by (intro safe_if safe_modify net_ok_updates safe_ret)

lemma set_ip_safe: "length a = 4 \<Longrightarrow> safe net_ok (set_ip a)"
  unfolding set_ip_def by (intro safe_modify net_ok_updates)

text \<open>The operations on a handle panic exactly when the handle is out of range.\<close>

lemma tcp_at_cases:
  "i < MAX_SOCKETS \<Longrightarrow> sbind (tcp_at i) f s = (case tcp_sockets s i of None \<Rightarrow> (Err (), s) | Some k \<Rightarrow> f k s)"
  "MAX_SOCKETS \<le> i \<Longrightarrow> sbind (tcp_at i) f s = (Panic, s)"
  by (simp_all add: sbind_def tcp_at_def split: option.split)

lemma udp_at_cases:
  "i < MAX_SOCKETS \<Longrightarrow> sbind (udp_at i) f s = (case udp_sockets s i of None \<Rightarrow> (Err (), s) | Some k \<Rightarrow> f k s)"
  "MAX_SOCKETS \<le> i \<Longrightarrow> sbind (udp_at i) f s = (Panic, s)"
  by (simp_all add: sbind_def udp_at_def split: option.split)

lemma tcp_at_good:
  assumes "net_ok s" and "i < MAX_SOCKETS" and "\<And>k. tcp_sockets s i = Some k \<Longrightarrow> good net_ok (f k) s"
  shows "good net_ok (sbind (tcp_at i) f) s"
  using assms by (auto simp: good_def tcp_at_cases split: option.split)

lemma udp_at_good:
  assumes "net_ok s" and "i < MAX_SOCKETS" and "\<And>k. udp_sockets s i = Some k \<Longrightarrow> good net_ok (f k) s"
  shows "good net_ok (sbind (udp_at i) f) s"
  using assms by (auto simp: good_def udp_at_cases split: option.split)

lemma sending_keeps_sockets: "keeps (\<lambda>s. tcp_sockets s = S) (send_tcp_seg lp rp a sq ak fl d)"
  unfolding send_tcp_seg_def send_ip_def send_arp_request_def send_eth_def net_send_def Let_def
  by (intro pres keeps_modify) auto

lemma tcp_send_good:
  assumes "net_ok s" and "i < MAX_SOCKETS"
  shows "good net_ok (tcp_send i d) s"
  unfolding tcp_send_def Let_def
proof (rule tcp_at_good [OF assms])
  fix k assume k: "tcp_sockets s i = Some k"
  let ?n = "min (length d) MAX_TCP_PAYLOAD"
  let ?send = "send_tcp_seg (local_port k) (remote_port k) (remote_ip k) (seq k) (ack k) (TCP_PSH OR TCP_ACK) (take ?n d)"
  have send: "good net_ok ?send s"
    by (rule send_segment_good [OF assms(1) net_okD(6) [OF assms(1) k]]) simp
  have "good net_ok (sthen (at_socket i (modify (\<lambda>k'. k'\<lparr>seq := seq k + word_of_nat ?n\<rparr>))) (ret ?n)) t"
    if "?send s = (Ok u, t)" and t: "net_ok t" for u t
  proof -
    have "tcp_sockets t i = Some k"
      using keepsD [OF sending_keeps_sockets, of s "tcp_sockets s"] k that(1) by (metis snd_conv)
    then show ?thesis
      by (intro good_sthen at_socket_good [OF t] good_ret safe_modify) (simp_all add: tcp_ok_def)
  qed
  then show "good net_ok (if tcp_st k \<noteq> Established then throw () else sthen ?send
      (sthen (at_socket i (modify (\<lambda>k'. k'\<lparr>seq := seq k + word_of_nat ?n\<rparr>))) (ret ?n))) s"
    using assms(1) by (intro good_if good_throw good_sthen [OF send])
qed

lemma tcp_socket_recv_safe: "safe tcp_ok (tcp_socket_recv buf)"
  by (auto simp: safe_def tcp_socket_recv_def recv_buffered_def Let_def tcp_ok_def sm_defs)

lemma udp_socket_recv_safe: "safe udp_ok (udp_socket_recv buf)"
  by (auto simp: safe_def udp_socket_recv_def recv_buffered_def Let_def udp_ok_def sm_defs)

lemma tcp_recv_good:
  assumes "net_ok s" and "i < MAX_SOCKETS"
  shows "good net_ok (tcp_recv i buf) s"
  unfolding tcp_recv_def sthen_def
  by (rule tcp_at_good [OF assms], rule at_socket_good [OF assms(1) _ tcp_socket_recv_safe])

lemma tcp_close_good:
  assumes "net_ok s" and "i < MAX_SOCKETS"
  shows "good net_ok (tcp_close i) s"
  unfolding tcp_close_def
proof (rule tcp_at_good [OF assms])
  fix k assume k: "tcp_sockets s i = Some k"
  have "good net_ok (at_socket i (modify (\<lambda>k. k\<lparr>tcp_st := FinWait1\<rparr>))) s"
    by (rule at_socket_good [OF assms(1) k]) (auto intro!: safe_modify simp: tcp_ok_def)
  moreover have "good net_ok (send_tcp_seg (local_port k) (remote_port k) (remote_ip k) (seq k) (ack k) (TCP_FIN OR TCP_ACK) []) t"
    if "net_ok t" for t by (rule send_segment_good [OF that net_okD(6) [OF assms(1) k]]) simp
  ultimately show "good net_ok (if tcp_st k = Established \<or> tcp_st k = CloseWait then
      sthen (at_socket i (modify (\<lambda>k. k\<lparr>tcp_st := FinWait1\<rparr>)))
        (send_tcp_seg (local_port k) (remote_port k) (remote_ip k) (seq k) (ack k) (TCP_FIN OR TCP_ACK) [])
      else throw ()) s"
    using assms(1) by (intro good_if good_throw good_sthen)
qed

lemma tcp_accept_good: "net_ok s \<Longrightarrow> i < MAX_SOCKETS \<Longrightarrow> good net_ok (tcp_accept i) s"
  by (auto simp: good_def tcp_accept_def net_ok_def socket_new_ok split: option.split if_splits)

lemma udp_send_good:
  assumes "net_ok s" and "i < MAX_SOCKETS"
  shows "good net_ok (udp_send i d) s"
  unfolding udp_send_def Let_def
proof (rule udp_at_good [OF assms])
  fix k assume k: "udp_sockets s i = Some k"
  let ?n = "min (length d) MAX_UDP_PAYLOAD"
  obtain u where u: "udp_new (u_local_port k) (u_remote_port k) (take ?n d) = (Ok u :: (unit, _) result)" "udp_payload u = take ?n d"
    using udp_new_ok [of "take ?n d" "u_local_port k" "u_remote_port k"] by (auto simp: MAX_UDP_PAYLOAD_def)
  have "safe net_ok (if u_remote_port k = 0 \<or> ip_is_zero (u_remote_ip k) then throw () else
      sbind (lift (udp_new (u_local_port k) (u_remote_port k) (take ?n d))) (\<lambda>u. sbind (gets ip) (\<lambda>src.
      sbind (lift (ipv4_new src (u_remote_ip k) IP_PROTO_UDP (udp_to_bytes u))) (\<lambda>p.
      sthen (send_ip (u_remote_ip k) (ipv4_to_bytes p)) (ret ?n)))))"
    using net_okD(7) [OF assms(1) k] u(2)
    by (intro safe_if safe_throw safe_bind_lift [OF u(1)] safe_bind_gets send_datagram_safe safe_sthen safe_ret send_ip_safe)
      (simp_all add: net_okD udp_ok_def MAX_UDP_PAYLOAD_def)
  with assms(1) show "good net_ok (if u_remote_port k = 0 \<or> ip_is_zero (u_remote_ip k) then throw () else
      sbind (lift (udp_new (u_local_port k) (u_remote_port k) (take ?n d))) (\<lambda>u. sbind (gets ip) (\<lambda>src.
      sbind (lift (ipv4_new src (u_remote_ip k) IP_PROTO_UDP (udp_to_bytes u))) (\<lambda>p.
      sthen (send_ip (u_remote_ip k) (ipv4_to_bytes p)) (ret ?n))))) s" by (rule safeD [rotated])
qed

lemma udp_recv_good:
  assumes "net_ok s" and "i < MAX_SOCKETS"
  shows "good net_ok (udp_recv i buf) s"
  unfolding udp_recv_def
proof (rule udp_at_good [OF assms])
  fix k assume k: "udp_sockets s i = Some k"
  show "good net_ok (case udp_socket_recv buf k of (r, k') \<Rightarrow>
      sthen (modify (\<lambda>s. s\<lparr>udp_sockets := (udp_sockets s)(i := Some k')\<rparr>)) (lift r)) s"
    using safeD [OF udp_socket_recv_safe net_okD(7) [OF assms(1) k], of buf] assms(1)
    by (auto simp: good_def run_modify lift_def net_ok_updates split: prod.split)
qed

text \<open>
  The handles that a guest passes are not checked: every operation on a socket handle panics the kernel
  exactly when the handle is eight or more.
\<close>
lemma socket_handle_panics:
  assumes "net_ok s"
  shows "(fst (tcp_send i d s) = Panic) = (i \<ge> MAX_SOCKETS) \<and> (fst (tcp_recv i d s) = Panic) = (i \<ge> MAX_SOCKETS)
     \<and> (fst (tcp_close i s) = Panic) = (i \<ge> MAX_SOCKETS) \<and> (fst (tcp_accept i s) = Panic) = (i \<ge> MAX_SOCKETS)
     \<and> (fst (udp_send i d s) = Panic) = (i \<ge> MAX_SOCKETS) \<and> (fst (udp_recv i d s) = Panic) = (i \<ge> MAX_SOCKETS)"
proof (cases "i < MAX_SOCKETS")
  case True
  note g = tcp_send_good tcp_recv_good tcp_close_good tcp_accept_good udp_send_good udp_recv_good
  from True show ?thesis using g [OF assms True, unfolded good_def] by simp
next
  case False
  then have "MAX_SOCKETS \<le> i" by simp
  then show ?thesis
    by (simp add: tcp_send_def tcp_recv_def tcp_close_def tcp_accept_def udp_send_def udp_recv_def
        tcp_at_cases udp_at_cases sthen_def)
qed

section \<open>Properties\<close>

text \<open>One event in the life of the stack: a frame arrives, the pump runs, or a socket operation is called.\<close>

inductive net_step :: "netstack \<Rightarrow> netstack \<Rightarrow> bool" where
  arrive: "net_step s (s\<lparr>rx := rx s @ [f]\<rparr>)"
| poll: "net_step s (snd (poll s))"
| listen: "net_step s (snd (tcp_listen p s))"
| connect: "net_step s (snd (tcp_connect (ip_from_u32 a) p s))"
| send: "net_step s (snd (tcp_send i d s))" if "i < MAX_SOCKETS"
| recv: "net_step s (snd (tcp_recv i d s))" if "i < MAX_SOCKETS"
| accept: "net_step s (snd (tcp_accept i s))" if "i < MAX_SOCKETS"
| close: "net_step s (snd (tcp_close i s))" if "i < MAX_SOCKETS"
| bind: "net_step s (snd (udp_bind p s))"
| udp_connect: "net_step s (snd (udp_connect i (ip_from_u32 a) p s))"
| udp_send: "net_step s (snd (udp_send i d s))" if "i < MAX_SOCKETS"
| udp_recv: "net_step s (snd (udp_recv i d s))" if "i < MAX_SOCKETS"
| udp_close: "net_step s (snd (udp_close i s))"
| set_ip: "net_step s (snd (set_ip (ip_from_u32 a) s))"

definition net_reachable :: "netstack \<Rightarrow> bool" where
  "net_reachable s \<longleftrightarrow> (\<exists>m fs. length m = 6 \<and> net_step\<^sup>*\<^sup>* (snd (try_init m fs)) s)"

lemma try_init_ok: "length m = 6 \<Longrightarrow> net_ok (snd (try_init m fs))"
  unfolding try_init_def
  by (rule safeD [OF dhcp_start_safe, unfolded good_def, THEN conjunct1])
    (simp add: net_ok_def dhcp_new_def arp_new_def)

lemma net_step_ok: "net_step s t \<Longrightarrow> net_ok s \<Longrightarrow> net_ok t"
proof (induction rule: net_step.induct)
  case (arrive s f)
  then show ?case by (simp add: net_ok_def)
qed (simp_all add: poll_safe [THEN safeD, unfolded good_def] tcp_listen_safe [THEN safeD, unfolded good_def]
    tcp_connect_safe [THEN safeD, unfolded good_def] udp_bind_safe [THEN safeD, unfolded good_def]
    udp_connect_safe [THEN safeD, unfolded good_def] udp_close_safe [THEN safeD, unfolded good_def]
    set_ip_safe [THEN safeD, unfolded good_def] tcp_send_good [unfolded good_def] tcp_recv_good [unfolded good_def]
    tcp_accept_good [unfolded good_def] tcp_close_good [unfolded good_def] udp_send_good [unfolded good_def]
    udp_recv_good [unfolded good_def])

lemma net_reachable_ok:
  assumes "net_reachable s" shows "net_ok s"
proof -
  obtain m fs where m: "length m = 6" and "net_step\<^sup>*\<^sup>* (snd (try_init m fs)) s"
    using assms by (auto simp: net_reachable_def)
  from this(2) show ?thesis
    by (induction rule: rtranclp_induct) (auto intro: try_init_ok [OF m] net_step_ok)
qed


definition demo_mac :: bytes where "demo_mac = [2, 0, 0, 0, 0, 1]"


text \<open>
  C14: \<open>alloc_ephemeral_port\<close> returns, and its result is the local port of no socket; it is one of the nine ports
  from 49152 on.
\<close>
theorem ephemeral_port_fresh:
  "\<not> port_in_use (tcp_sockets s) (alloc_ephemeral_port s) \<and> (\<exists>k\<le>8. alloc_ephemeral_port s = 49152 + word_of_nat k)"
proof -
  have r: "\<exists>j\<le>k. port_from socks p = p + word_of_nat j" if "\<not> port_in_use socks (p + word_of_nat k)" for socks p k
    using that
  proof (induction k arbitrary: p)
    case 0
    then show ?case by (simp add: port_from.simps)
  next
    case (Suc k)
    show ?case
    proof (cases "port_in_use socks p")
      case True
      have "\<not> port_in_use socks (p + 1 + word_of_nat k)" using Suc.prems by (simp add: add.assoc)
      then obtain j where "j \<le> k" "port_from socks (p + 1) = p + 1 + word_of_nat j" using Suc.IH by blast
      with True show ?thesis
        by (intro exI [of _ "Suc j"]) (simp add: port_from.simps [of socks p] add.assoc)
    qed (auto simp: port_from.simps intro: exI [of _ 0])
  qed
  obtain k where "k \<le> 8" "\<not> port_in_use (tcp_sockets s) (49152 + word_of_nat k)" using port_free_ahead by blast
  with r show ?thesis unfolding alloc_ephemeral_port_def using port_from_free le_trans by blast
qed

end
