(* ===== verification/Keyboard.thy ===== *)
theory Keyboard
  imports Prelude
begin

text \<open>
  Console input: the PS/2 driver (\<open>kernel/src/drivers/keyboard.rs\<close>), the receiving side of the serial port and the
  line discipline of its output (\<open>kernel/src/drivers/serial.rs\<close>), and the poll that the shell makes of both. A device
  is the queue of the bytes that wait in it; its status bit says whether the queue is empty. Text typed on
  either device is shown to arrive as the keys of that text.
\<close>

section \<open>Keys\<close>

datatype key = KeyChar u32 | Backspace | Enter | ArrowLeft | ArrowRight | ArrowUp | ArrowDown
  | Delete | Home | End | Tab | Unknown

text \<open>\<open>shift\<close> is the static \<open>SHIFT\<close>.\<close>

record input =
  serial_rx :: "u8 list"
  scancodes :: "u8 list"
  shift :: bool

section \<open>The keyboard\<close>

text \<open>The arms of \<open>scancode_to_char\<close>: code, character without and with shift.\<close>

definition SCANCODE_CHARS :: "(u8 \<times> char \<times> char) list" where
  "SCANCODE_CHARS =
    [(0x02, CHR ''1'', CHR ''!''), (0x03, CHR ''2'', CHR ''@''), (0x04, CHR ''3'', CHR ''#''), (0x05, CHR ''4'', CHR ''$''),
     (0x06, CHR ''5'', CHR ''%''), (0x07, CHR ''6'', CHR ''^''), (0x08, CHR ''7'', CHR ''&''), (0x09, CHR ''8'', CHR ''*''),
     (0x0A, CHR ''9'', CHR ''(''), (0x0B, CHR ''0'', CHR '')''), (0x0C, CHR ''-'', CHR ''_''), (0x0D, CHR ''='', CHR ''+''),
     (0x10, CHR ''q'', CHR ''Q''), (0x11, CHR ''w'', CHR ''W''), (0x12, CHR ''e'', CHR ''E''), (0x13, CHR ''r'', CHR ''R''),
     (0x14, CHR ''t'', CHR ''T''), (0x15, CHR ''y'', CHR ''Y''), (0x16, CHR ''u'', CHR ''U''), (0x17, CHR ''i'', CHR ''I''),
     (0x18, CHR ''o'', CHR ''O''), (0x19, CHR ''p'', CHR ''P''), (0x1A, CHR ''['', CHR ''{''), (0x1B, CHR '']'', CHR ''}''),
     (0x1E, CHR ''a'', CHR ''A''), (0x1F, CHR ''s'', CHR ''S''), (0x20, CHR ''d'', CHR ''D''), (0x21, CHR ''f'', CHR ''F''),
     (0x22, CHR ''g'', CHR ''G''), (0x23, CHR ''h'', CHR ''H''), (0x24, CHR ''j'', CHR ''J''), (0x25, CHR ''k'', CHR ''K''),
     (0x26, CHR ''l'', CHR ''L''), (0x27, CHR '';'', CHR '':''), (0x28, CHR 0x27, CHR 0x22), (0x29, CHR 0x60, CHR ''~''),
     (0x2B, CHR 0x5C, CHR ''|''), (0x2C, CHR ''z'', CHR ''Z''), (0x2D, CHR ''x'', CHR ''X''), (0x2E, CHR ''c'', CHR ''C''),
     (0x2F, CHR ''v'', CHR ''V''), (0x30, CHR ''b'', CHR ''B''), (0x31, CHR ''n'', CHR ''N''), (0x32, CHR ''m'', CHR ''M''),
     (0x33, CHR '','', CHR ''<''), (0x34, CHR ''.'', CHR ''>''), (0x35, CHR ''/'', CHR ''?''), (0x39, CHR '' '', CHR '' '')]"

definition scancode_to_char :: "u8 \<Rightarrow> bool \<Rightarrow> u32 option" where
  "scancode_to_char sc sh =
     map_option (\<lambda>(plain, shifted). of_char (if sh then shifted else plain)) (map_of SCANCODE_CHARS sc)"

text \<open>The key of a make code; both \<open>try_next_key\<close> and \<open>next_key\<close> contain this match.\<close>

definition make_key :: "u8 \<Rightarrow> bool \<Rightarrow> key" where
  "make_key sc sh =
     (if sc = 0x0E then Backspace else if sc = 0x1C then Enter
      else if sc = 0x4B then ArrowLeft else if sc = 0x4D then ArrowRight
      else if sc = 0x48 then ArrowUp else if sc = 0x50 then ArrowDown
      else if sc = 0x53 then Delete else if sc = 0x47 then Home
      else if sc = 0x4F then End else if sc = 0x0F then Tab
      else case scancode_to_char sc sh of Some c \<Rightarrow> KeyChar c | None \<Rightarrow> Unknown)"

definition try_next_key :: "input \<Rightarrow> key option \<times> input" where
  "try_next_key s =
     (case scancodes s of
        [] \<Rightarrow> (None, s)
      | sc # rest \<Rightarrow>
          (let s = s\<lparr>scancodes := rest\<rparr> in
           if sc = 0x2A \<or> sc = 0x36 then (None, s\<lparr>shift := True\<rparr>)
           else if sc = 0xAA \<or> sc = 0xB6 then (None, s\<lparr>shift := False\<rparr>)
           else if sc AND 0x80 \<noteq> 0 then (None, s)
           else (Some (make_key sc (shift s)), s)))"

text \<open>
  The blocking \<open>next_key\<close>, on the codes that arrive and the state of shift; \<open>None\<close> if they end while it waits.
\<close>

fun next_key_loop :: "u8 list \<Rightarrow> bool \<Rightarrow> (key \<times> u8 list \<times> bool) option" where
  "next_key_loop [] sh = None"
| "next_key_loop (sc # rest) sh =
     (if sc = 0x2A \<or> sc = 0x36 then next_key_loop rest True
      else if sc = 0xAA \<or> sc = 0xB6 then next_key_loop rest False
      else if sc AND 0x80 \<noteq> 0 then next_key_loop rest sh
      else Some (make_key sc sh, rest, sh))"

definition next_key :: "input \<Rightarrow> (key \<times> input) option" where
  "next_key s = map_option (\<lambda>(k, rest, sh). (k, s\<lparr>scancodes := rest, shift := sh\<rparr>)) (next_key_loop (scancodes s) (shift s))"

section \<open>The serial port\<close>

text \<open>The bytes that \<open>write_str\<close> sends.\<close>

definition serial_write :: "bytes \<Rightarrow> bytes" where
  "serial_write s = concat (map (\<lambda>b. if b = 0x0A then [0x0D, b] else [b]) s)"

definition read_byte :: "input \<Rightarrow> u8 option \<times> input" where
  "read_byte s = (case serial_rx s of [] \<Rightarrow> (None, s) | b # rest \<Rightarrow> (Some b, s\<lparr>serial_rx := rest\<rparr>))"

definition serial_byte_to_key :: "u8 \<Rightarrow> key" where
  "serial_byte_to_key b =
     (if b = 0x08 \<or> b = 0x7F then Backspace
      else if b = 0x0D \<or> b = 0x0A then Enter
      else if 0x20 \<le> b \<and> b \<le> 0x7E then KeyChar (ucast b)
      else Unknown)"

text \<open>The poll at the start of \<open>read_line\<close> and \<open>get_input\<close>: serial first.\<close>

definition poll_key :: "input \<Rightarrow> key option \<times> input" where
  "poll_key s =
     (case read_byte s of
        (Some b, s) \<Rightarrow> (Some (serial_byte_to_key b), s)
      | (None, s) \<Rightarrow> try_next_key s)"

section \<open>What polling delivers\<close>

text \<open>The keys of all polls until both queues are empty, and the device state then.\<close>

function poll_all :: "input \<Rightarrow> key list \<times> input" where
  "poll_all s =
     (if serial_rx s = [] \<and> scancodes s = [] then ([], s)
      else case poll_key s of
        (None, s') \<Rightarrow> poll_all s'
      | (Some k, s') \<Rightarrow> (case poll_all s' of (ks, t) \<Rightarrow> (k # ks, t)))"
  by pat_completeness auto
termination
  by (relation "measure (\<lambda>s. length (serial_rx s) + length (scancodes s))")
    (auto simp: poll_key_def read_byte_def try_next_key_def Let_def split: list.splits if_splits)

declare poll_all.simps [simp del]

lemma apfst_cons: "apfst (Cons x) (apfst ((@) xs) p) = apfst (\<lambda>ys. x # xs @ ys) p" "apfst (\<lambda>x. x) p = p" "apfst ((@) []) p = p"
  by (cases p; simp)+

lemma poll_all_idle: "poll_all \<lparr>serial_rx = [], scancodes = [], shift = sh\<rparr> = ([], \<lparr>serial_rx = [], scancodes = [], shift = sh\<rparr>)"
  by (simp add: poll_all.simps)

lemma poll_all_serial:
  "poll_all \<lparr>serial_rx = b # bs, scancodes = scs, shift = sh\<rparr> =
     apfst (Cons (serial_byte_to_key b)) (poll_all \<lparr>serial_rx = bs, scancodes = scs, shift = sh\<rparr>)"
  by (subst poll_all.simps) (simp add: poll_key_def read_byte_def split: prod.split)

lemma poll_all_scancode:
  "poll_all \<lparr>serial_rx = [], scancodes = sc # scs, shift = sh\<rparr> =
     (if sc = 0x2A \<or> sc = 0x36 then poll_all \<lparr>serial_rx = [], scancodes = scs, shift = True\<rparr>
      else if sc = 0xAA \<or> sc = 0xB6 then poll_all \<lparr>serial_rx = [], scancodes = scs, shift = False\<rparr>
      else if sc AND 0x80 \<noteq> 0 then poll_all \<lparr>serial_rx = [], scancodes = scs, shift = sh\<rparr>
      else apfst (Cons (make_key sc sh)) (poll_all \<lparr>serial_rx = [], scancodes = scs, shift = sh\<rparr>))"
  by (subst poll_all.simps) (simp add: poll_key_def read_byte_def try_next_key_def split: prod.split)

lemma poll_all_serial_text:
  "poll_all \<lparr>serial_rx = bs, scancodes = scs, shift = sh\<rparr> =
     apfst ((@) (map serial_byte_to_key bs)) (poll_all \<lparr>serial_rx = [], scancodes = scs, shift = sh\<rparr>)"
  by (induction bs) (simp_all add: poll_all_serial apfst_cons)

text \<open>What a typist does for a character: press and release its key, with shift held where needed.\<close>

definition key_for :: "char \<Rightarrow> (bool \<times> u8) option" where
  "key_for c =
     (case List.find (\<lambda>(sc, plain, shifted). plain = c) SCANCODE_CHARS of
        Some (sc, _) \<Rightarrow> Some (False, sc)
      | None \<Rightarrow> map_option (\<lambda>(sc, _). (True, sc)) (List.find (\<lambda>(sc, plain, shifted). shifted = c) SCANCODE_CHARS))"

definition stroke :: "char \<Rightarrow> u8 list" where
  "stroke c = (case key_for c of
       None \<Rightarrow> []
     | Some (sh, sc) \<Rightarrow> (if sh then [0x2A] else []) @ [sc, sc + 0x80] @ (if sh then [0xAA] else []))"

definition printables :: "char list" where
  "printables = map char_of [0x20..<0x7F :: nat]"

definition make_code :: "u8 \<Rightarrow> bool" where
  "make_code sc \<longleftrightarrow> sc \<noteq> 0x2A \<and> sc \<noteq> 0x36 \<and> sc AND 0x80 = 0 \<and> (sc + 0x80) AND 0x80 \<noteq> 0
     \<and> sc + 0x80 \<notin> {0x2A, 0x36, 0xAA, 0xB6, sc}"

lemma key_for_printable:
  "list_all (\<lambda>c. case key_for c of None \<Rightarrow> False
      | Some (sh, sc) \<Rightarrow> make_code sc \<and> make_key sc sh = KeyChar (of_char c)) printables"
  by code_simp

lemma poll_stroke:
  assumes "c \<in> set printables"
  shows "poll_all \<lparr>serial_rx = [], scancodes = stroke c @ scs, shift = False\<rparr> =
    apfst (Cons (KeyChar (of_char c))) (poll_all \<lparr>serial_rx = [], scancodes = scs, shift = False\<rparr>)"
proof -
  obtain sh sc where k: "key_for c = Some (sh, sc)" "make_code sc" "make_key sc sh = KeyChar (of_char c)"
    using key_for_printable assms by (auto simp: list_all_iff split: option.splits)
  from k(2) have "sc \<noteq> 0xAA" "sc \<noteq> 0xB6" by (auto simp: make_code_def)
  with k show ?thesis
    by (cases sh) (auto simp: stroke_def poll_all_scancode make_code_def split_beta)
qed

lemma poll_strokes:
  "set typed \<subseteq> set printables \<Longrightarrow>
    poll_all \<lparr>serial_rx = [], scancodes = concat (map stroke typed) @ scs, shift = False\<rparr> =
      apfst ((@) (map (\<lambda>c. KeyChar (of_char c)) typed)) (poll_all \<lparr>serial_rx = [], scancodes = scs, shift = False\<rparr>)"
  by (induction typed) (simp_all add: poll_stroke apfst_cons)

lemma serial_printable: "list_all (\<lambda>c. serial_byte_to_key (of_char c) = KeyChar (of_char c)) printables"
  by code_simp

lemma serial_text: "set typed \<subseteq> set printables \<Longrightarrow>
    map serial_byte_to_key (str_bytes typed) = map (\<lambda>c. KeyChar (of_char c)) typed"
  using serial_printable by (auto simp: str_bytes_def list_all_iff)



text \<open>The blocking read decodes as the polling one: it is the first poll that delivers a key.\<close>

lemma next_key_is_first_poll:
  "next_key s = (case scancodes s of
      [] \<Rightarrow> None
    | _ \<Rightarrow> (case try_next_key s of (Some k, t) \<Rightarrow> Some (k, t) | (None, t) \<Rightarrow> next_key t))"
  by (auto simp: next_key_def try_next_key_def Let_def option.map_comp comp_def split: list.split)

end
