(* ===== verification/Host_Functions.thy ===== *)
theory Host_Functions
  imports Execution File_Table Network Keyboard
begin

text \<open>
  The kernel functions that a module can import (\<open>host_*\<close> of \<open>kernel/src/wasm/engine.rs\<close>), with the
  statics they touch: the argument buffer, the pending sleep time, the file table, the text written to
  the console, the keys typed and the network stack (\<open>None\<close> when no network card was found). The device
  layers below them that are not modelled (clock, framebuffer, FAT volume) are a record of operations on a
  device state of any type, of which the host functions use only the results; they are assumed to return.
\<close>

section \<open>Kernel state\<close>

record 'd kernel =
  k_args :: bytes
  pending_sleep_ms :: u32
  files :: fs
  console :: bytes
  keys :: "key list"
  network :: "netstack option"
  dev :: 'd

record 'd drivers =
  uptime_ms :: "'d \<Rightarrow> i64"
  ticks :: "'d \<Rightarrow> u64"
  set_pixel :: "i32 \<Rightarrow> i32 \<Rightarrow> u32 \<Rightarrow> 'd \<Rightarrow> 'd"
  blit_rgb32 :: "u32 list \<Rightarrow> nat \<Rightarrow> nat \<Rightarrow> 'd \<Rightarrow> 'd"
  fat_write_file :: "bytes \<Rightarrow> bytes \<Rightarrow> 'd \<Rightarrow> bool \<times> 'd"

type_synonym ('d, 'a) hm = "('d kernel host_state, interp_error, 'a) sm"
type_synonym 'd host = "'d kernel host_fn"

definition ARGS_CAP :: nat where "ARGS_CAP = 128"

definition set_args :: "bytes \<Rightarrow> 'd kernel \<Rightarrow> 'd kernel" where
  "set_args args k = k\<lparr>k_args := take ARGS_CAP args\<rparr>"

definition take_pending_sleep_ms :: "'d kernel \<Rightarrow> u32 \<times> 'd kernel" where
  "take_pending_sleep_ms k = (pending_sleep_ms k, k\<lparr>pending_sleep_ms := 0\<rparr>)"

section \<open>Arguments and results\<close>

text \<open>
  \<open>if *vsp < n { StackUnderflow }\<close>, the arguments \<open>vstack[*vsp - n] .. vstack[*vsp - 1]\<close>, \<open>*vsp -= n\<close>.
\<close>

definition pop_args :: "nat \<Rightarrow> ('d, i64 list) hm" where
  "pop_args n = (\<lambda>st.
     if h_vsp st < n then (Err StackUnderflow, st)
     else if n > 0 \<and> h_vsp st > STACK_DEPTH then (Panic, st)
     else (Ok (map (\<lambda>i. h_vstack st (h_vsp st - n + i)) [0..<n]), st\<lparr>h_vsp := h_vsp st - n\<rparr>))"

text \<open>\<open>vstack[*vsp] = v; *vsp += 1\<close>\<close>

definition push_result :: "i64 \<Rightarrow> ('d, unit) hm" where
  "push_result v = (\<lambda>st.
     if h_vsp st \<ge> STACK_DEPTH then (Panic, st)
     else (Ok (), st\<lparr>h_vstack := (h_vstack st)(h_vsp st := v), h_vsp := h_vsp st + 1\<rparr>))"

definition check_overflow :: "('d, unit) hm" where
  "check_overflow = (\<lambda>st. if h_vsp st \<ge> STACK_DEPTH then (Err StackOverflow, st) else (Ok (), st))"

definition kget :: "('d kernel \<Rightarrow> 'a) \<Rightarrow> ('d, 'a) hm" where
  "kget f = gets (\<lambda>st. f (kernel (h_world st)))"

definition kmodify :: "('d kernel \<Rightarrow> 'd kernel) \<Rightarrow> ('d, unit) hm" where
  "kmodify f = modify (\<lambda>st. st\<lparr>h_world := (h_world st)\<lparr>kernel := f (kernel (h_world st))\<rparr>\<rparr>)"

definition print :: "bytes \<Rightarrow> ('d, unit) hm" where
  "print bs = kmodify (\<lambda>k. k\<lparr>console := console k @ bs\<rparr>)"

text \<open>A read of \<open>&mem[a..b]\<close>, which panics out of range.\<close>

definition mem_slice :: "nat \<Rightarrow> nat \<Rightarrow> ('d, bytes) hm" where
  "mem_slice a b = (\<lambda>st.
     if a \<le> b \<and> b \<le> h_mem_len st then (Ok (mem_read (h_mem st) a (b - a)), st) else (Panic, st))"

definition mem_store :: "nat \<Rightarrow> bytes \<Rightarrow> ('d, unit) hm" where
  "mem_store a bs = modify (\<lambda>st. st\<lparr>h_mem := mem_write (h_mem st) a bs\<rparr>)"

text \<open>An operation of the device layer.\<close>

definition device :: "('d \<Rightarrow> 'a \<times> 'd) \<Rightarrow> ('d, 'a) hm" where
  "device f = sbind (kget dev) (\<lambda>d. sthen (kmodify (\<lambda>k. k\<lparr>dev := snd (f d)\<rparr>)) (ret (fst (f d))))"

text \<open>
  \<open>with_network(f)\<close>: \<open>None\<close> without a network card, and also where the callers make the same value of an
  operation's \<open>Err(())\<close>.
\<close>

primrec host_result :: "(unit, 'a) result \<Rightarrow> ('e, 'a option) result" where
  "host_result (Ok x) = Ok (Some x)"
| "host_result (Err u) = Ok None"
| "host_result Panic = Panic"
| "host_result Hang = Hang"

definition with_network :: "'a nm \<Rightarrow> ('d, 'a option) hm" where
  "with_network f = sbind (kget network) (\<lambda>n. case n of
       None \<Rightarrow> ret None
     | Some s \<Rightarrow> (case f s of (r, s') \<Rightarrow> sthen (kmodify (\<lambda>k. k\<lparr>network := Some s'\<rparr>)) (lift (host_result r))))"

section \<open>Number formatting\<close>

text \<open>
  \<open>while val > 0 { pos -= 1; buf[pos] = b'0' + val % 10; val /= 10 }\<close> in a buffer of \<open>cap\<close> bytes: \<open>acc\<close>
  is \<open>buf[pos..]\<close>, and \<open>pos -= 1\<close> underflows when it is full.
\<close>

fun dec_loop :: "nat \<Rightarrow> nat \<Rightarrow> bytes \<Rightarrow> (interp_error, bytes) result" where
  "dec_loop cap val acc =
     (if val = 0 then Ok acc
      else if length acc \<ge> cap then Panic
      else dec_loop cap (val div 10) ((0x30 + word_of_nat (val mod 10)) # acc))"

declare dec_loop.simps [simp del]

text \<open>\<open>val\<close> is the magnitude; then the sign and the newline of \<open>println!\<close>.\<close>

definition fmt_dec :: "nat \<Rightarrow> int \<Rightarrow> (interp_error, bytes) result" where
  "fmt_dec cap n =
     (if n = 0 then Ok [0x30, 0x0A]
      else rbind (dec_loop cap (nat \<bar>n\<bar>) []) (\<lambda>ds.
        if n < 0 then (if length ds \<ge> cap then Panic else Ok (0x2D # ds @ [0x0A])) else Ok (ds @ [0x0A])))"

definition fmt_i32 :: "i32 \<Rightarrow> ('d, unit) hm" where
  "fmt_i32 n = sbind (lift (fmt_dec 11 (sint n))) print"

definition fmt_i64 :: "i64 \<Rightarrow> ('d, unit) hm" where
  "fmt_i64 n = sbind (lift (fmt_dec 20 (sint n))) print"

definition hex_digit :: "nat \<Rightarrow> u8" where
  "hex_digit d = (if d < 10 then 0x30 + word_of_nat d else 0x37 + word_of_nat d)"

definition fmt_hex :: "u32 \<Rightarrow> ('d, unit) hm" where
  "fmt_hex n = print (0x30 # 0x78 #
     map (\<lambda>j. hex_digit (unat (drop_bit ((7 - j) * 4) n AND 0xF))) [0..<8] @ [0x0A])"

section \<open>Console, time and scheduling\<close>

definition host_print :: "'d host" where
  "host_print = sbind (pop_args 2) (\<lambda>a.
     let ptr = unat (a ! 0); len = unat (a ! 1) in
     sbind (gets h_mem_len) (\<lambda>mlen.
     sbind (mem_slice ptr (min (saturating_add_usize ptr len) mlen)) (\<lambda>bs.
     case from_utf8 bs of Some s \<Rightarrow> print s | None \<Rightarrow> ret ())))"

definition host_print_int :: "'d host" where
  "host_print_int = sbind (pop_args 1) (\<lambda>a. fmt_i32 (low32 (a ! 0)))"

definition host_yield :: "'d host" where
  "host_yield = throw Yielded"

definition host_sleep_ms :: "'d host" where
  "host_sleep_ms = sbind (pop_args 1) (\<lambda>a.
     let ms = low32 (a ! 0) in
     sthen (kmodify (\<lambda>k. k\<lparr>pending_sleep_ms := (if sint ms < 0 then 0 else ms)\<rparr>)) (throw Yielded))"

definition host_print_i64 :: "'d host" where
  "host_print_i64 = sbind (pop_args 1) (\<lambda>a. fmt_i64 (a ! 0))"

definition host_print_char :: "'d host" where
  "host_print_char = sbind (pop_args 1) (\<lambda>a.
     case from_utf8 [ucast (a ! 0 AND 0xFF)] of Some s \<Rightarrow> print s | None \<Rightarrow> ret ())"

definition host_print_hex :: "'d host" where
  "host_print_hex = sbind (pop_args 1) (\<lambda>a. fmt_hex (low32 (a ! 0)))"

definition host_uptime_ms :: "'d drivers \<Rightarrow> 'd host" where
  "host_uptime_ms drv = sthen check_overflow (sbind (kget (\<lambda>k. uptime_ms drv (dev k))) (\<lambda>ms.
     push_result (if sint ms \<le> 2147483647 then ms else 2147483647)))"

definition host_wasm_opcount :: "'d host" where
  "host_wasm_opcount = sthen check_overflow (sbind (gets (\<lambda>st. opcode_count (h_world st))) push_result)"

definition host_exit :: "'d host" where
  "host_exit = (\<lambda>st.
     if h_vsp st < 1 then (Err StackUnderflow, st) else (Err Exited, st\<lparr>h_vsp := h_vsp st - 1\<rparr>))"

section \<open>Keyboard input\<close>

text \<open>\<open>next_key\<close> blocks until a key arrives: with no key left to come it never returns.\<close>

fun read_char_loop :: "key list \<Rightarrow> (i32 \<times> key list) option" where
  "read_char_loop [] = None"
| "read_char_loop (k # ks) =
     (case k of KeyChar c \<Rightarrow> Some (c, ks) | Enter \<Rightarrow> Some (10, ks) | _ \<Rightarrow> read_char_loop ks)"

definition hang :: "('s, 'e, 'a) sm" where
  "hang = (\<lambda>s. (Hang, s))"

definition host_read_char :: "'d host" where
  "host_read_char = sthen check_overflow (sbind (kget keys) (\<lambda>ks.
     case read_char_loop ks of
       None \<Rightarrow> hang
     | Some (c, ks') \<Rightarrow> sthen (kmodify (\<lambda>k. k\<lparr>keys := ks'\<rparr>)) (push_result (of_i32 c))))"

text \<open>
  The loop of \<open>read_line\<close>: keys left, bytes accepted so far, memory and echo. A backspace lowers \<open>len\<close>
  and leaves the byte in memory.
\<close>

fun read_line_loop :: "nat \<Rightarrow> nat \<Rightarrow> key list \<Rightarrow> nat \<Rightarrow> u8 arr \<Rightarrow> bytes \<Rightarrow> (nat \<times> key list \<times> u8 arr \<times> bytes) option" where
  "read_line_loop ptr cap [] len m echo = None"
| "read_line_loop ptr cap (k # ks) len m echo =
     (case k of
        Enter \<Rightarrow> Some (len, ks, m, echo @ [0x0A])
      | Backspace \<Rightarrow> if len > 0 then read_line_loop ptr cap ks (len - 1) m (echo @ [0x08, 0x20, 0x08])
                     else read_line_loop ptr cap ks len m echo
      | KeyChar c \<Rightarrow> if c < 128 \<and> len < cap
                    then read_line_loop ptr cap ks (len + 1) (m(ptr + len := ucast c)) (echo @ [ucast c])
                    else read_line_loop ptr cap ks len m echo
      | _ \<Rightarrow> read_line_loop ptr cap ks len m echo)"

definition host_read_line :: "'d host" where
  "host_read_line = sbind (pop_args 2) (\<lambda>a.
     let ptr = unat (a ! 0); cap = unat (a ! 1) in
     sbind (gets id) (\<lambda>st.
     if saturating_add_usize ptr cap > h_mem_len st then push_result (- 1)
     else case read_line_loop ptr cap (keys (kernel (h_world st))) 0 (h_mem st) [] of
       None \<Rightarrow> hang
     | Some (len, ks, m, echo) \<Rightarrow>
         sthen (modify (\<lambda>st. st\<lparr>h_mem := m\<rparr>))
         (sthen (kmodify (\<lambda>k. k\<lparr>keys := ks, console := console k @ echo\<rparr>))
         (push_result (word_of_nat len)))))"

section \<open>Files and arguments\<close>

text \<open>The name at \<open>ptr\<close>, if it lies in memory and is UTF-8.\<close>

definition guest_name :: "nat \<Rightarrow> nat \<Rightarrow> ('d, bytes option) hm" where
  "guest_name ptr len =
     sbind (gets h_mem_len) (\<lambda>mlen.
     if saturating_add_usize ptr len > mlen then ret None
     else sbind (mem_slice ptr (saturating_add_usize ptr len)) (\<lambda>bs. ret (from_utf8 bs)))"

definition host_fs_read :: "'d host" where
  "host_fs_read = sbind (pop_args 4) (\<lambda>a.
     let name_ptr = unat (a ! 0); name_len = unat (a ! 1); buf_ptr = unat (a ! 2); buf_cap = unat (a ! 3) in
     sbind (guest_name name_ptr name_len) (\<lambda>name.
     case name of
       None \<Rightarrow> push_result (- 1)
     | Some name \<Rightarrow>
         sbind (kget (\<lambda>k. find_file name (files k))) (\<lambda>data.
         case data of
           None \<Rightarrow> push_result (- 1)
         | Some data \<Rightarrow>
             sbind (gets h_mem_len) (\<lambda>mlen.
             if saturating_add_usize buf_ptr buf_cap > mlen \<or> length data > buf_cap then push_result (- 1)
             else if buf_ptr + length data > mlen then panic
             else sthen (mem_store buf_ptr data) (push_result (word_of_nat (length data)))))))"

definition host_fs_write :: "'d drivers \<Rightarrow> 'd host" where
  "host_fs_write drv = sbind (pop_args 4) (\<lambda>a.
     let name_ptr = unat (a ! 0); name_len = unat (a ! 1); buf_ptr = unat (a ! 2); buf_len = unat (a ! 3) in
     sbind (gets h_mem_len) (\<lambda>mlen.
     if saturating_add_usize name_ptr name_len > mlen \<or> saturating_add_usize buf_ptr buf_len > mlen
     then push_result (- 1)
     else
       sbind (mem_slice name_ptr (name_ptr + min name_len 64)) (\<lambda>bs.
       case from_utf8 bs of
         None \<Rightarrow> push_result (- 1)
       | Some name \<Rightarrow>
           sbind (mem_slice buf_ptr (buf_ptr + buf_len)) (\<lambda>data.
           sbind (kget (\<lambda>k. alloc_write_buf data (files k))) (\<lambda>(buf, fs').
           case buf of
             None \<Rightarrow> push_result (- 1)
           | Some static_data \<Rightarrow>
               sthen (kmodify (\<lambda>k. k\<lparr>files := replace_file name static_data fs'\<rparr>))
               (sthen (device (fat_write_file drv name static_data))
               (push_result 0)))))))"

definition host_args_get :: "'d host" where
  "host_args_get = sbind (pop_args 2) (\<lambda>a.
     let ptr = unat (a ! 0); cap = unat (a ! 1) in
     sbind (gets h_mem_len) (\<lambda>mlen.
     sbind (kget k_args) (\<lambda>args.
     if saturating_add_usize ptr (length args) > mlen \<or> length args > cap then push_result (- 1)
     else sthen (mem_store ptr args) (push_result (word_of_nat (length args))))))"

definition host_fs_size :: "'d host" where
  "host_fs_size = sbind (pop_args 2) (\<lambda>a.
     sbind (guest_name (unat (a ! 0)) (unat (a ! 1))) (\<lambda>name.
     case name of
       None \<Rightarrow> push_result (- 1)
     | Some name \<Rightarrow>
         sbind (kget (\<lambda>k. find_file name (files k))) (\<lambda>data.
         push_result (case data of Some data \<Rightarrow> word_of_nat (length data) | None \<Rightarrow> - 1))))"

section \<open>Framebuffer\<close>

definition host_fb_set_pixel :: "'d drivers \<Rightarrow> 'd host" where
  "host_fb_set_pixel drv = sbind (pop_args 3) (\<lambda>a.
     device (\<lambda>d. ((), set_pixel drv (low32 (a ! 0)) (low32 (a ! 1)) (low32 (a ! 2)) d)))"

definition host_fb_present :: "'d host" where
  "host_fb_present = ret ()"

definition saturating_mul_usize :: "nat \<Rightarrow> nat \<Rightarrow> nat" where
  "saturating_mul_usize a b = min (a * b) (2 ^ 64 - 1)"

definition host_fb_blit :: "'d drivers \<Rightarrow> 'd host" where
  "host_fb_blit drv = sbind (pop_args 3) (\<lambda>a.
     let ptr = unat (a ! 0); width = unat (a ! 1); height = unat (a ! 2);
         pixel_count = saturating_mul_usize width height;
         byte_count = saturating_mul_usize pixel_count 4 in
     sbind (gets id) (\<lambda>st.
     if saturating_add_usize ptr byte_count > h_mem_len st then ret ()
     else device (\<lambda>d. ((), blit_rgb32 drv
       (map (\<lambda>i. from_le (mem_read (h_mem st) (ptr + 4 * i) 4)) [0..<pixel_count]) width height d))))"

section \<open>Network\<close>

definition opt_handle :: "nat option \<Rightarrow> i64" where
  "opt_handle r = (case r of Some i \<Rightarrow> word_of_nat i | None \<Rightarrow> - 1)"

definition low16 :: "i64 \<Rightarrow> u16" where "low16 v = ucast v"

text \<open>\<open>unwrap_or(None)\<close> of an operation that returns an \<open>Option\<close>.\<close>

definition flat :: "'a option option \<Rightarrow> 'a option" where
  "flat r = (case r of Some x \<Rightarrow> x | None \<Rightarrow> None)"

definition host_net_listen :: "'d host" where
  "host_net_listen = sbind (pop_args 1) (\<lambda>a.
     sbind (with_network (tcp_listen (low16 (a ! 0)))) (\<lambda>r. push_result (opt_handle (flat r))))"

definition host_net_connect :: "'d host" where
  "host_net_connect = sbind (pop_args 2) (\<lambda>a.
     sbind (with_network (tcp_connect (ip_from_u32 (low32 (a ! 0))) (low16 (a ! 1)))) (\<lambda>r. push_result (opt_handle (flat r))))"

definition host_net_send :: "'d host" where
  "host_net_send = sbind (pop_args 3) (\<lambda>a.
     let handle = unat (a ! 0); ptr = unat (a ! 1); len = unat (a ! 2) in
     sbind (mem_slice ptr (saturating_add_usize ptr len)) (\<lambda>data.
     sbind (with_network (tcp_send handle data)) (\<lambda>r. push_result (opt_handle r))))"

text \<open>The receive functions write into a slice of guest memory, which keeps its length.\<close>

definition recv_into :: "nat \<Rightarrow> nat \<Rightarrow> (nat \<times> bytes) option \<Rightarrow> ('d, nat option) hm" where
  "recv_into ptr n r = (case r of
       Some (k, buf) \<Rightarrow> sthen (mem_store ptr (take n buf)) (ret (Some k))
     | None \<Rightarrow> ret None)"

definition host_net_recv :: "'d host" where
  "host_net_recv = sbind (pop_args 3) (\<lambda>a.
     let handle = unat (a ! 0); ptr = unat (a ! 1); cap = unat (a ! 2) in
     sbind (mem_slice ptr (saturating_add_usize ptr cap)) (\<lambda>buf.
     sbind (with_network (tcp_recv handle buf)) (\<lambda>r.
     sbind (recv_into ptr (length buf) r) (\<lambda>r. push_result (opt_handle r)))))"

definition ok_flag :: "unit option \<Rightarrow> i64" where
  "ok_flag r = (case r of Some _ \<Rightarrow> 0 | None \<Rightarrow> - 1)"

definition host_net_close :: "'d host" where
  "host_net_close = sbind (pop_args 1) (\<lambda>a.
     sbind (with_network (tcp_close (unat (a ! 0)))) (\<lambda>r. push_result (ok_flag r)))"

definition host_net_set_ip :: "'d host" where
  "host_net_set_ip = sbind (pop_args 1) (\<lambda>a.
     sbind (with_network (set_ip (ip_from_u32 (low32 (a ! 0))))) (\<lambda>_. push_result 0))"

definition host_net_accept :: "'d host" where
  "host_net_accept = sbind (pop_args 1) (\<lambda>a.
     sbind (with_network (tcp_accept (unat (a ! 0)))) (\<lambda>r. push_result (opt_handle (flat r))))"

definition host_net_status :: "'d host" where
  "host_net_status = sbind (pop_args 1) (\<lambda>a.
     sbind (with_network (gets (tcp_status (unat (a ! 0))))) (\<lambda>r.
     push_result (of_i32 (case r of Some v \<Rightarrow> v | None \<Rightarrow> 0))))"

definition host_net_get_ip :: "'d host" where
  "host_net_get_ip = sthen check_overflow
     (sbind (with_network (gets get_ip)) (\<lambda>r. push_result (of_u32 (case r of Some v \<Rightarrow> v | None \<Rightarrow> 0))))"

definition host_net_udp_bind :: "'d host" where
  "host_net_udp_bind = sbind (pop_args 1) (\<lambda>a.
     sbind (with_network (udp_bind (low16 (a ! 0)))) (\<lambda>r. push_result (opt_handle (flat r))))"

definition host_net_udp_connect :: "'d host" where
  "host_net_udp_connect = sbind (pop_args 3) (\<lambda>a.
     sbind (with_network (udp_connect (unat (a ! 0)) (ip_from_u32 (low32 (a ! 1))) (low16 (a ! 2)))) (\<lambda>r.
     push_result (ok_flag r)))"

definition host_net_udp_send :: "'d host" where
  "host_net_udp_send = sbind (pop_args 3) (\<lambda>a.
     let handle = unat (a ! 0); ptr = unat (a ! 1); len = unat (a ! 2) in
     sbind (gets h_mem_len) (\<lambda>mlen.
     sbind (mem_slice ptr (min (saturating_add_usize ptr len) mlen)) (\<lambda>data.
     sbind (with_network (udp_send handle data)) (\<lambda>r. push_result (opt_handle r)))))"

definition host_net_udp_recv :: "'d host" where
  "host_net_udp_recv = sbind (pop_args 3) (\<lambda>a.
     let handle = unat (a ! 0); ptr = unat (a ! 1); cap = unat (a ! 2) in
     sbind (gets h_mem_len) (\<lambda>mlen.
     sbind (mem_slice ptr (min (saturating_add_usize ptr cap) mlen)) (\<lambda>buf.
     sbind (with_network (udp_recv handle buf)) (\<lambda>r.
     sbind (recv_into ptr (length buf) r) (\<lambda>r.
     push_result (case r of Some n \<Rightarrow> word_of_nat n | None \<Rightarrow> 0))))))"

definition host_net_udp_close :: "'d host" where
  "host_net_udp_close = sbind (pop_args 1) (\<lambda>a.
     sbind (with_network (udp_close (unat (a ! 0)))) (\<lambda>_. push_result 0))"

section \<open>Host functions stay inside the guest\<close>

text \<open>
  The stack pointer stays inside the stack (or below \<open>V\<close>, were it outside before), the memory keeps its
  length, and nothing beyond its end is written.
\<close>

definition guest_inv :: "nat \<Rightarrow> nat \<Rightarrow> u8 arr \<Rightarrow> 'd kernel host_state \<Rightarrow> bool" where
  "guest_inv V L m0 st \<longleftrightarrow> h_vsp st \<le> max STACK_DEPTH V \<and> h_mem_len st = L \<and> (\<forall>k. L \<le> k \<longrightarrow> h_mem st k = m0 k)"

lemma guest_prims:
  "keeps (guest_inv V L m0) (pop_args n)" "keeps (guest_inv V L m0) (push_result v)" "keeps (guest_inv V L m0) check_overflow"
  "keeps (guest_inv V L m0) (mem_slice a b)" "keeps (guest_inv V L m0) hang"
  by (auto simp: pop_args_def push_result_def check_overflow_def mem_slice_def hang_def guest_inv_def intro!: keepsI)

lemma guest_state: "keeps (guest_inv V L m0) (kget f)" "keeps (guest_inv V L m0) (kmodify g)"
  unfolding kget_def kmodify_def by (auto intro!: keeps_gets keeps_modify simp: guest_inv_def)

lemma guest_device: "keeps (guest_inv V L m0) (print bs)" "keeps (guest_inv V L m0) (device h)"
  unfolding print_def device_def by (intro keeps_sbind keeps_sthen keeps_ret guest_state)+

lemma guest_network: "keeps (guest_inv V L m0) (with_network h)"
  unfolding with_network_def by (intro keeps_sbind keeps_case_option keeps_case_prod keeps_sthen keeps_ret keeps_lift guest_state)

lemmas guest_kernel = guest_state guest_device guest_network

lemma guest_store: "a + length bs \<le> L \<Longrightarrow> keeps (guest_inv V L m0) (mem_store a bs)"
  unfolding mem_store_def by (rule keeps_modify) (auto simp: guest_inv_def mem_write_def)

lemma guest_len: "keeps (guest_inv V L m0) (f L) \<Longrightarrow> keeps (guest_inv V L m0) (sbind (gets h_mem_len) f)"
  by (auto simp: keeps_def sbind_def gets_def guest_inv_def)

lemma saturating_le_exact: "\<not> L < saturating_add_usize a b \<Longrightarrow> L < 2 ^ 64 - 1 \<Longrightarrow> a + b \<le> L"
  by (auto simp: saturating_add_usize_def)

lemmas guest_rules = guest_len guest_prims guest_kernel guest_store keeps_sbind keeps_sthen keeps_ret keeps_throw
  keeps_panic keeps_lift keeps_if keeps_Let keeps_case_prod keeps_case_option

lemma guest_console:
  "keeps (guest_inv V L m0) host_print" "keeps (guest_inv V L m0) host_print_int" "keeps (guest_inv V L m0) host_yield"
  "keeps (guest_inv V L m0) host_sleep_ms" "keeps (guest_inv V L m0) host_print_i64" "keeps (guest_inv V L m0) host_print_char"
  "keeps (guest_inv V L m0) host_print_hex" "keeps (guest_inv V L m0) (host_uptime_ms drv)" "keeps (guest_inv V L m0) host_wasm_opcount"
  "keeps (guest_inv V L m0) host_read_char"
  unfolding host_print_def host_print_int_def host_yield_def host_sleep_ms_def host_print_i64_def host_print_char_def
    host_print_hex_def host_uptime_ms_def host_wasm_opcount_def host_read_char_def fmt_i32_def fmt_i64_def fmt_hex_def
  by (intro guest_rules keeps_gets)+

lemma guest_exit: "keeps (guest_inv V L m0) host_exit"
  by (rule keepsI) (auto simp: host_exit_def guest_inv_def)

lemma guest_network_fns:
  "keeps (guest_inv V L m0) host_net_listen" "keeps (guest_inv V L m0) host_net_connect"
  "keeps (guest_inv V L m0) host_net_send" "keeps (guest_inv V L m0) host_net_close"
  "keeps (guest_inv V L m0) host_net_set_ip" "keeps (guest_inv V L m0) host_net_accept"
  "keeps (guest_inv V L m0) host_net_status" "keeps (guest_inv V L m0) host_net_get_ip"
  "keeps (guest_inv V L m0) host_net_udp_bind" "keeps (guest_inv V L m0) host_net_udp_connect"
  "keeps (guest_inv V L m0) host_net_udp_send" "keeps (guest_inv V L m0) host_net_udp_close"
  "keeps (guest_inv V L m0) (host_fb_set_pixel drv)" "keeps (guest_inv V L m0) host_fb_present" "keeps (guest_inv V L m0) (host_fb_blit drv)"
  unfolding host_net_listen_def host_net_connect_def host_net_send_def host_net_close_def host_net_set_ip_def
    host_net_accept_def host_net_status_def host_net_get_ip_def host_net_udp_bind_def host_net_udp_connect_def
    host_net_udp_send_def host_net_udp_close_def host_fb_set_pixel_def host_fb_present_def host_fb_blit_def
  by (intro guest_rules keeps_gets)+

text \<open>The functions that write guest memory.\<close>

lemma guest_slice_bind:
  fixes f :: "bytes \<Rightarrow> ('d, 'a) hm"
  assumes "\<And>bs. b \<le> L \<Longrightarrow> a \<le> b \<Longrightarrow> length bs = b - a \<Longrightarrow> keeps (guest_inv V L m0) (f bs)"
  shows "keeps (guest_inv V L m0) (sbind (mem_slice a b) f)"
proof (rule keepsI)
  fix st :: "'d kernel host_state" assume inv: "guest_inv V L m0 st"
  show "guest_inv V L m0 (snd (sbind (mem_slice a b) f st))"
  proof (cases "a \<le> b \<and> b \<le> L")
    case True
    with inv have "mem_slice a b st = (Ok (mem_read (h_mem st) a (b - a)), st)" by (simp add: mem_slice_def guest_inv_def)
    then show ?thesis using keepsD [OF assms [of "mem_read (h_mem st) a (b - a)"] inv] True by (simp add: sbind_def)
  next
    case False
    with inv show ?thesis by (auto simp: sbind_def mem_slice_def guest_inv_def)
  qed
qed

lemma guest_recv:
  "keeps (guest_inv V L m0) host_net_recv" "keeps (guest_inv V L m0) host_net_udp_recv"
proof -
  have recv: "keeps (guest_inv V L m0) (recv_into a (length bs) r)" if "a \<le> b" "b \<le> L" "length bs = b - a" for a b bs r
    unfolding recv_into_def using that by (intro keeps_case_option keeps_case_prod keeps_sthen keeps_ret guest_store) auto
  show "keeps (guest_inv V L m0) host_net_recv" "keeps (guest_inv V L m0) host_net_udp_recv"
    unfolding host_net_recv_def host_net_udp_recv_def
    by (intro keeps_sbind guest_prims keeps_Let guest_len guest_slice_bind guest_network recv; assumption)+
qed

lemma guest_files:
  assumes "L < 2 ^ 64 - 1"
  shows "keeps (guest_inv V L m0) host_fs_read" "keeps (guest_inv V L m0) (host_fs_write drv)"
    "keeps (guest_inv V L m0) host_args_get" "keeps (guest_inv V L m0) host_fs_size"
proof -
  have name: "keeps (guest_inv V L m0) (guest_name p l)" for p l
    unfolding guest_name_def by (intro guest_rules)
  note exact = saturating_le_exact [OF _ assms]
  show "keeps (guest_inv V L m0) host_fs_read" "keeps (guest_inv V L m0) host_args_get"
    unfolding host_fs_read_def host_args_get_def
    by (intro guest_rules name; use exact in \<open>auto simp: not_less\<close>)+
  show "keeps (guest_inv V L m0) (host_fs_write drv)" "keeps (guest_inv V L m0) host_fs_size"
    unfolding host_fs_write_def host_fs_size_def by (intro guest_rules name)+
qed

text \<open>What the user typed: the reference for \<open>read_line\<close>, on a list.\<close>

fun edit_line :: "nat \<Rightarrow> key list \<Rightarrow> bytes \<Rightarrow> (bytes \<times> key list) option" where
  "edit_line cap [] line = None"
| "edit_line cap (Enter # ks) line = Some (line, ks)"
| "edit_line cap (Backspace # ks) line = edit_line cap ks (butlast line)"
| "edit_line cap (KeyChar c # ks) line =
     edit_line cap ks (if c < 128 \<and> length line < cap then line @ [ucast c] else line)"
| "edit_line cap (_ # ks) line = edit_line cap ks line"

lemma mem_read_snoc: "mem_read (m(p + n := b)) p (Suc n) = mem_read m p n @ [b]"
  by (simp add: mem_read_def)

lemma mem_read_butlast: "mem_read m p (n - 1) = butlast (mem_read m p n)"
  by (cases n) (simp_all add: mem_read_def)

lemma read_line_refines:
  assumes "mem_read m ptr len = line" and "len \<le> cap"
  shows "case edit_line cap ks line of
      None \<Rightarrow> read_line_loop ptr cap ks len m echo = None
    | Some (line', ks') \<Rightarrow> \<exists>m' echo'. read_line_loop ptr cap ks len m echo = Some (length line', ks', m', echo')
        \<and> mem_read m' ptr (length line') = line' \<and> length line' \<le> cap
        \<and> (\<forall>k. k < ptr \<or> ptr + cap \<le> k \<longrightarrow> m' k = m k)"
  using assms
proof (induction cap ks line arbitrary: len m echo rule: edit_line.induct)
  case (4 cap c ks line)
  have len: "length line = len" using "4.prems"(1) by auto
  show ?case
  proof (cases "c < 128 \<and> len < cap")
    case True
    let ?m = "m(ptr + len := ucast c)"
    have "mem_read ?m ptr (len + 1) = (if c < 128 \<and> length line < cap then line @ [ucast c] else line)"
      using mem_read_snoc [of m ptr len "ucast c"] "4.prems"(1) True len by simp
    from "4.IH" [OF this, of "echo @ [ucast c]"] True len
    show ?thesis by (auto simp del: fun_upd_apply split: option.splits) (auto split: if_splits)
  next
    case False
    with "4.IH" [of m len echo] "4.prems" len show ?thesis by (auto split: option.splits)
  qed
next
  case (3 cap ks line)
  have len: "length line = len" using "3.prems"(1) by auto
  with "3.prems" "3.IH" [of m "len - 1" "echo @ [0x08, 0x20, 0x08]"] "3.IH" [of m len echo] mem_read_butlast [of m ptr len]
  show ?case by (cases "len = 0") (auto split: option.splits)
qed (auto split: option.splits)

lemma guest_read_line:
  assumes "L < 2 ^ 64 - 1"
  shows "keeps (guest_inv V L m0) host_read_line"
  unfolding host_read_line_def Let_def
proof (rule keeps_sbind [OF guest_prims(1)], rule keeps_read)
  fix a and st :: "'d kernel host_state" assume inv: "guest_inv V L m0 st"
  let ?p = "unat (a ! 0)" and ?c = "unat (a ! 1)"
  have rest: "guest_inv V L m0 (snd (sthen (modify (\<lambda>st. st\<lparr>h_mem := m\<rparr>))
      (sthen (kmodify (\<lambda>k. k\<lparr>keys := ks, console := console k @ echo\<rparr>)) (push_result v)) st))"
    if "\<forall>k. k < ?p \<or> ?p + ?c \<le> k \<longrightarrow> m k = h_mem st k" "?p + ?c \<le> L" for m ks echo v
  proof -
    have "guest_inv V L m0 (st\<lparr>h_mem := m\<rparr>)" using inv that by (auto simp: guest_inv_def)
    then show ?thesis
      unfolding run_modify by (rule keepsD [rotated]) (intro keeps_sthen guest_state guest_prims)
  qed
  note loop = read_line_refines [of "h_mem st" ?p 0 "[]" ?c "keys (kernel (h_world st))" "[]"]
  have fail: "guest_inv V L m0 (snd (push_result (- 1) st))" "guest_inv V L m0 (snd (hang st))"
    using inv by (auto intro: keepsD [OF guest_prims(2)] keepsD [OF guest_prims(5)])
  show "guest_inv V L m0 (snd ((if h_mem_len st < saturating_add_usize ?p ?c then push_result (- 1)
      else case read_line_loop ?p ?c (keys (kernel (h_world st))) 0 (h_mem st) [] of
        None \<Rightarrow> hang
      | Some (len, ks, m, echo) \<Rightarrow> sthen (modify (\<lambda>st. st\<lparr>h_mem := m\<rparr>))
         (sthen (kmodify (\<lambda>k. k\<lparr>keys := ks, console := console k @ echo\<rparr>)) (push_result (word_of_nat len)))) st))"
    using loop rest fail saturating_le_exact [OF _ assms, of ?p ?c] inv
    by (auto simp: guest_inv_def mem_read_def split: option.splits prod.splits)
qed

section \<open>Decimal output\<close>

definition dec_value :: "bytes \<Rightarrow> nat" where
  "dec_value ds = foldl (\<lambda>v d. 10 * v + unat (d - 0x30)) 0 ds"

definition is_digit :: "u8 \<Rightarrow> bool" where
  "is_digit d \<longleftrightarrow> 0x30 \<le> d \<and> d \<le> 0x39"

text \<open>The integer that a decimal numeral with an optional sign denotes.\<close>

definition parse_dec :: "bytes \<Rightarrow> int" where
  "parse_dec s = (if s \<noteq> [] \<and> hd s = 0x2D then - int (dec_value (tl s)) else int (dec_value s))"

lemma digit_byte: "d < 10 \<Longrightarrow> is_digit (0x30 + word_of_nat d) \<and> unat (0x30 + word_of_nat d - 0x30 :: u8) = d"
  by (auto simp: is_digit_def word_le_nat_alt unat_word_of_nat unat_plus_if')

lemma dec_loop_spec:
  assumes "val < 10 ^ k" and "length acc + k \<le> cap"
  shows "\<exists>ds. dec_loop cap val acc = Ok (ds @ acc) \<and> dec_value ds = val \<and> length ds \<le> k \<and> (\<forall>d \<in> set ds. is_digit d)"
  using assms
proof (induction k arbitrary: val acc)
  case 0
  then show ?case by (auto simp: dec_loop.simps [of _ 0] dec_value_def intro!: exI [of _ "[]"])
next
  case (Suc k)
  show ?case
  proof (cases "val = 0")
    case True
    then show ?thesis by (auto simp: dec_loop.simps [of _ 0] dec_value_def intro!: exI [of _ "[]"])
  next
    case False
    let ?d = "0x30 + word_of_nat (val mod 10) :: u8"
    have "val div 10 < 10 ^ k" using Suc.prems(1) by (simp add: less_mult_imp_div_less mult.commute)
    then obtain ds where ds: "dec_loop cap (val div 10) (?d # acc) = Ok (ds @ ?d # acc)" "dec_value ds = val div 10"
      "length ds \<le> k" "\<forall>d \<in> set ds. is_digit d"
      using Suc.IH [of "val div 10" "?d # acc"] Suc.prems(2) by auto
    have "dec_value (ds @ [?d]) = val"
      using ds(2) digit_byte [of "val mod 10"] by (simp add: dec_value_def)
    with ds False Suc.prems(2) digit_byte [of "val mod 10"] show ?thesis
      by (auto simp: dec_loop.simps [of _ val] intro!: exI [of _ "ds @ [?d]"])
  qed
qed

lemma fmt_dec_spec:
  assumes "nat \<bar>n\<bar> < 10 ^ k" and "Suc k \<le> cap" and "1 \<le> k"
  shows "\<exists>s. fmt_dec cap n = Ok (s @ [0x0A]) \<and> parse_dec s = n \<and> length s \<le> Suc k
     \<and> (\<forall>d \<in> set s. is_digit d \<or> d = 0x2D)"
proof (cases "n = 0")
  case True
  then show ?thesis using assms(3) by (auto simp: fmt_dec_def parse_dec_def dec_value_def is_digit_def intro!: exI [of _ "[0x30]"])
next
  case False
  obtain ds where ds: "dec_loop cap (nat \<bar>n\<bar>) [] = Ok ds" "dec_value ds = nat \<bar>n\<bar>" "length ds \<le> k" "\<forall>d \<in> set ds. is_digit d"
    using dec_loop_spec [of "nat \<bar>n\<bar>" k "[]" cap] assms by auto
  have nosign: "ds \<noteq> [] \<Longrightarrow> hd ds \<noteq> 0x2D" using ds(4) by (cases ds) (auto simp: is_digit_def)
  show ?thesis
  proof (cases "n < 0")
    case True
    with ds assms(2) False show ?thesis
      by (auto simp: fmt_dec_def parse_dec_def intro!: exI [of _ "0x2D # ds"])
  next
    case neg: False
    with ds False nosign show ?thesis
      by (auto simp: fmt_dec_def parse_dec_def intro!: exI [of _ ds])
  qed
qed

lemma sint32_magnitude: "nat \<bar>sint (n :: i32)\<bar> < 10 ^ 10"
  using sint_bounds [of n] by (simp add: nat_less_iff)

lemma sint64_magnitude: "nat \<bar>sint (n :: i64)\<bar> < 10 ^ 19"
  using sint_bounds [of n] by (simp add: nat_less_iff)


section \<open>The registry\<close>

definition MAX_HOST_FUNCS :: nat where "MAX_HOST_FUNCS = 48"

record 'd host_entry =
  he_module :: bytes
  he_name :: bytes
  he_func :: "'d host"

text \<open>\<open>HOST_REGISTRY[..HOST_COUNT]\<close>.\<close>

type_synonym 'd registry = "'d host_entry list"

definition register_host :: "string \<Rightarrow> string \<Rightarrow> 'd host \<Rightarrow> 'd registry \<Rightarrow> 'd registry" where
  "register_host m n f reg =
     (if length reg < MAX_HOST_FUNCS then reg @ [\<lparr>he_module = str_bytes m, he_name = str_bytes n, he_func = f\<rparr>] else reg)"

fun lookup_host :: "'d registry \<Rightarrow> bytes \<Rightarrow> bytes \<Rightarrow> 'd host option" where
  "lookup_host [] m n = None"
| "lookup_host (e # es) m n = (if he_module e = m \<and> he_name e = n then Some (he_func e) else lookup_host es m n)"

definition init_host_fns :: "'d drivers \<Rightarrow> 'd registry" where
  "init_host_fns drv = fold (\<lambda>(m, n, f). register_host m n f)
     [(''env'', ''print'', host_print), (''env'', ''print_int'', host_print_int), (''env'', ''print_i64'', host_print_i64),
      (''env'', ''print_char'', host_print_char), (''env'', ''print_hex'', host_print_hex), (''env'', ''yield'', host_yield),
      (''env'', ''sleep_ms'', host_sleep_ms), (''env'', ''uptime_ms'', host_uptime_ms drv),
      (''env'', ''wasm_opcount'', host_wasm_opcount), (''env'', ''exit'', host_exit), (''env'', ''read_char'', host_read_char),
      (''env'', ''read_line'', host_read_line), (''env'', ''fs_read'', host_fs_read), (''env'', ''fs_write'', host_fs_write drv),
      (''env'', ''fs_size'', host_fs_size), (''env'', ''args_get'', host_args_get),
      (''env'', ''fb_set_pixel'', host_fb_set_pixel drv), (''env'', ''fb_present'', host_fb_present),
      (''env'', ''fb_blit'', host_fb_blit drv),
      (''net'', ''listen'', host_net_listen), (''net'', ''connect'', host_net_connect), (''net'', ''send'', host_net_send),
      (''net'', ''recv'', host_net_recv), (''net'', ''close'', host_net_close), (''net'', ''set_ip'', host_net_set_ip),
      (''net'', ''accept'', host_net_accept), (''net'', ''status'', host_net_status), (''net'', ''get_ip'', host_net_get_ip),
      (''net'', ''udp_bind'', host_net_udp_bind), (''net'', ''udp_connect'', host_net_udp_connect),
      (''net'', ''udp_send'', host_net_udp_send), (''net'', ''udp_recv'', host_net_udp_recv),
      (''net'', ''udp_close'', host_net_udp_close)] []"

lemma registered: "he_func ` set (init_host_fns drv) =
   {host_print, host_print_int, host_print_i64, host_print_char, host_print_hex, host_yield, host_sleep_ms, host_uptime_ms drv,
    host_wasm_opcount, host_exit, host_read_char, host_read_line, host_fs_read, host_fs_write drv, host_fs_size, host_args_get,
    host_fb_set_pixel drv, host_fb_present, host_fb_blit drv, host_net_listen, host_net_connect, host_net_send,
    host_net_recv, host_net_close, host_net_set_ip, host_net_accept, host_net_status, host_net_get_ip,
    host_net_udp_bind, host_net_udp_connect, host_net_udp_send, host_net_udp_recv, host_net_udp_close}"
  by (simp add: init_host_fns_def register_host_def MAX_HOST_FUNCS_def insert_commute)

lemma registered_keep_guest:
  assumes "L < 2 ^ 64 - 1" and "f \<in> he_func ` set (init_host_fns drv)"
  shows "keeps (guest_inv V L m0) f"
  using assms(2) unfolding registered
  by (elim insertE emptyE) (simp_all add: guest_console guest_exit guest_network_fns guest_recv
      guest_files [OF assms(1)] guest_read_line [OF assms(1)])

lemma lookup_host_in: "lookup_host reg m n = Some f \<Longrightarrow> f \<in> he_func ` set reg"
  by (induction reg m n rule: lookup_host.induct) (auto split: if_splits)

section \<open>Panic freedom\<close>

text \<open>\<open>steady m\<close>: \<open>m\<close> never panics and leaves the stack pointer and the memory size alone.\<close>

definition steady :: "('d, 'a) hm \<Rightarrow> bool" where
  "steady m \<longleftrightarrow> (\<forall>st. fst (m st) \<noteq> Panic \<and> h_vsp (snd (m st)) = h_vsp st \<and> h_mem_len (snd (m st)) = h_mem_len st)"

definition room :: "nat \<Rightarrow> 'd kernel host_state \<Rightarrow> bool" where
  "room L st \<longleftrightarrow> h_vsp st < STACK_DEPTH \<and> h_mem_len st = L"

lemma steady_prims: "steady (kget f)" "steady (kmodify g)" "steady (ret x)" "steady (mem_store a bs)" "steady check_overflow"
  by (auto simp: steady_def kget_def kmodify_def mem_store_def check_overflow_def sm_defs)

lemma steady_sbind: "steady m \<Longrightarrow> (\<And>x. steady (f x)) \<Longrightarrow> steady (sbind m f)"
  unfolding steady_def sbind_def
  by (intro allI, drule_tac x = st in spec) (auto split: prod.split result.split)

lemma steady_device: "steady (print bs)" "steady (device h)"
  unfolding print_def device_def sthen_def
  by (auto intro!: steady_sbind steady_prims)

lemmas steady_rules = steady_prims steady_device

lemma calm_push_result: "room L st \<Longrightarrow> calm (push_result v) st"
  by (simp add: room_def calm_def push_result_def)

lemma calm_steady:
  assumes "steady m" and "room L st" and "\<And>x s'. room L s' \<Longrightarrow> calm (f x) s'"
  shows "calm (sbind m f) st"
proof (rule calm_sbind)
  show "calm m st" using assms(1) by (simp add: calm_def steady_def)
  show "calm (f x) s'" if "m st = (Ok x, s')" for x s'
    using assms(1,2) that by (intro assms(3)) (auto simp: steady_def room_def dest!: spec [of _ st])
qed

lemma calm_steady_then: "steady m \<Longrightarrow> room L st \<Longrightarrow> (\<And>s'. room L s' \<Longrightarrow> calm k s') \<Longrightarrow> calm (sthen m k) st"
  unfolding sthen_def by (rule calm_steady)

lemma calm_pop_args:
  assumes "h_vsp st \<le> STACK_DEPTH" and "h_mem_len st = L" and "0 < n" and "\<And>a s'. room L s' \<Longrightarrow> calm (f a) s'"
  shows "calm (sbind (pop_args n) f) st"
  using assms(1-3) by (intro calm_sbind assms(4)) (auto simp: calm_def pop_args_def room_def STACK_DEPTH_def split: if_splits)

lemma calm_mem_slice:
  "room L st \<Longrightarrow> a \<le> b \<Longrightarrow> b \<le> L \<Longrightarrow> (\<And>x. calm (f x) st) \<Longrightarrow> calm (sbind (mem_slice a b) f) st"
  by (simp add: calm_def sbind_def mem_slice_def room_def)

lemma calm_len: "room L st \<Longrightarrow> calm (f L) st \<Longrightarrow> calm (sbind (gets h_mem_len) f) st"
  by (simp add: room_def)

lemma calm_branches:
  "(c \<Longrightarrow> calm x s) \<Longrightarrow> (\<not> c \<Longrightarrow> calm y s) \<Longrightarrow> calm (if c then x else y) s"
  "calm x s \<Longrightarrow> (\<And>v. calm (g v) s) \<Longrightarrow> calm (case ov of None \<Rightarrow> x | Some v \<Rightarrow> g v) s"
  by (auto split: option.split)

lemma steady_calm: "steady m \<Longrightarrow> calm m st"
  by (simp add: steady_def calm_def)

lemma calm_hang: "calm hang st"
  by (simp add: calm_def hang_def)

lemmas quiet_rules = calm_pop_args calm_len calm_steady calm_steady_then calm_branches calm_push_result
  calm_simple steady_calm calm_hang steady_rules

lemma calm_fmt_dec:
  assumes "nat \<bar>n\<bar> < 10 ^ k" and "Suc k \<le> cap" and "1 \<le> k" shows "calm (sbind (lift (fmt_dec cap n)) print) st"
proof -
  obtain s where "fmt_dec cap n = Ok (s @ [0x0A])" using fmt_dec_spec [OF assms] by auto
  then show ?thesis by (intro calm_lift_bind) (auto intro: steady_calm steady_rules)
qed

lemma quiet_console:
  assumes "h_vsp st \<le> STACK_DEPTH"
  shows "calm host_print_int st" "calm host_sleep_ms st" "calm host_print_i64 st"
    "calm host_print_char st" "calm host_print_hex st" "calm (host_fb_set_pixel drv) st"
  unfolding host_print_int_def host_sleep_ms_def host_print_i64_def host_print_char_def host_print_hex_def
    fmt_i32_def fmt_i64_def fmt_hex_def Let_def host_fb_set_pixel_def
  by (intro quiet_rules assms refl calm_fmt_dec [OF sint32_magnitude] calm_fmt_dec [OF sint64_magnitude]; simp)+

lemma quiet_simple: "calm host_yield st" "calm host_exit st" "calm host_fb_present st"
  by (simp_all add: host_yield_def host_fb_present_def) (simp add: host_exit_def calm_def)

lemma calm_check_overflow:
  assumes "\<And>s'. room (h_mem_len s') s' \<Longrightarrow> calm k s'" shows "calm (sthen check_overflow k) st"
  using assms [of st] by (auto simp: calm_def sthen_def sbind_def check_overflow_def room_def)

lemma calm_case_prod: "(\<And>a b. calm (f a b) s) \<Longrightarrow> calm (case_prod f p) s"
  by (cases p) simp

lemma quiet_results:
  "calm (host_uptime_ms drv) st" "calm host_wasm_opcount st" "calm host_read_char st"
  unfolding host_uptime_ms_def host_wasm_opcount_def host_read_char_def
  by (rule calm_check_overflow; (simp only: calm_read)?; intro quiet_rules calm_case_prod; assumption)+

text \<open>The network stack, when there is one, satisfies its invariant.\<close>

definition net_fine :: "'d kernel host_state \<Rightarrow> bool" where
  "net_fine st \<longleftrightarrow> (case network (kernel (h_world st)) of None \<Rightarrow> True | Some s \<Rightarrow> net_ok s)"

lemma run_network:
  "with_network f st = (case network (kernel (h_world st)) of
       None \<Rightarrow> (Ok None, st)
     | Some s \<Rightarrow> (host_result (fst (f s)),
         st\<lparr>h_world := (h_world st)\<lparr>kernel := (kernel (h_world st))\<lparr>network := Some (snd (f s))\<rparr>\<rparr>\<rparr>))"
  by (auto simp: with_network_def kget_def kmodify_def sm_defs split: option.split prod.split)

lemma host_result_Panic [simp]: "host_result r = Panic \<longleftrightarrow> r = Panic"
  by (cases r) simp_all

lemma network_call_panics:
  assumes "h_vsp st < STACK_DEPTH"
  shows "fst (sbind (with_network f) (\<lambda>r. push_result (h r)) st) = Panic
    \<longleftrightarrow> (\<exists>s. network (kernel (h_world st)) = Some s \<and> fst (f s) = Panic)"
proof (cases "network (kernel (h_world st))")
  case None
  with assms show ?thesis by (simp add: sbind_def run_network push_result_def)
next
  case (Some s)
  with assms show ?thesis by (cases "fst (f s)") (simp_all add: sbind_def run_network push_result_def)
qed

lemma calm_network_call:
  assumes "h_vsp st < STACK_DEPTH" and "net_fine st" and "safe net_ok f"
  shows "calm (sbind (with_network f) (\<lambda>r. push_result (h r))) st"
  unfolding calm_def network_call_panics [OF assms(1)]
  using assms(2,3) by (auto simp: net_fine_def safe_def)

lemma calm_network_fn:
  assumes "h_vsp st \<le> STACK_DEPTH" and "net_fine st" and "0 < n" and "\<And>a. safe net_ok (f a)"
  shows "calm (sbind (pop_args n) (\<lambda>a. sbind (with_network (f a)) (\<lambda>r. push_result (h r)))) st"
proof (rule calm_sbind)
  show "calm (pop_args n) st" using assms(1) by (simp add: calm_def pop_args_def)
  fix a st' assume "pop_args n st = (Ok a, st')"
  then have "h_vsp st' < STACK_DEPTH" "net_fine st'"
    using assms(1-3) by (auto simp: pop_args_def net_fine_def split: if_splits)
  then show "calm (sbind (with_network (f a)) (\<lambda>r. push_result (h r))) st'" by (rule calm_network_call [OF _ _ assms(4)])
qed

lemma quiet_network:
  assumes "h_vsp st \<le> STACK_DEPTH" and "net_fine st"
  shows "calm host_net_listen st" "calm host_net_connect st" "calm host_net_set_ip st" "calm host_net_status st"
    "calm host_net_udp_bind st" "calm host_net_udp_connect st" "calm host_net_udp_close st"
  unfolding host_net_listen_def host_net_connect_def host_net_set_ip_def host_net_status_def host_net_udp_bind_def
    host_net_udp_connect_def host_net_udp_close_def
  by (intro calm_network_fn assms tcp_listen_safe tcp_connect_safe set_ip_safe safe_gets udp_bind_safe udp_connect_safe
      udp_close_safe; simp)+

lemma quiet_get_ip:
  assumes "net_fine st" shows "calm host_net_get_ip st"
proof (cases "h_vsp st < STACK_DEPTH")
  case True
  then have c: "check_overflow st = (Ok (), st)" by (simp add: check_overflow_def)
  show ?thesis
    using calm_network_call [OF True assms safe_gets]
    by (simp add: host_net_get_ip_def sthen_def calm_def run_step(1) [where m = check_overflow, OF c])
next
  case False
  then show ?thesis by (simp add: host_net_get_ip_def sthen_def sbind_def check_overflow_def calm_def)
qed

lemma quiet_blit:
  assumes "h_vsp st \<le> STACK_DEPTH" shows "calm (host_fb_blit drv) st"
  unfolding host_fb_blit_def Let_def
  by (rule calm_pop_args [OF assms refl]; (simp; fail)?; simp only: calm_read id_apply; intro quiet_rules)

lemma steady_guest_name: "steady (guest_name (unat (p :: i64)) l)"
proof -
  have "unat p < 2 ^ 64" by (rule order_less_le_trans [OF unsigned_less]) simp
  then show ?thesis
    by (auto simp: steady_def guest_name_def mem_slice_def sm_defs saturating_add_usize_def)
qed

lemma quiet_files:
  assumes "h_vsp st \<le> STACK_DEPTH" and "h_mem_len st < 2 ^ 64 - 1"
  shows "calm host_fs_read st" "calm (host_fs_write drv) st" "calm host_args_get st" "calm host_fs_size st"
proof -
  note exact = saturating_le_exact [OF _ assms(2)]
  show "calm host_fs_read st"
    unfolding host_fs_read_def Let_def
    by (rule calm_pop_args [OF assms(1) refl], simp, intro steady_guest_name quiet_rules; (assumption | (drule exact | erule conjE | simp)+))
  show "calm host_fs_size st" "calm host_args_get st"
    unfolding host_fs_size_def host_args_get_def Let_def
    by (rule calm_pop_args [OF assms(1) refl], simp, intro steady_guest_name quiet_rules; assumption)+
  have exact2: "p + min l 64 \<le> h_mem_len st \<and> q + k \<le> h_mem_len st"
    if "\<not> (h_mem_len st < saturating_add_usize p l \<or> h_mem_len st < saturating_add_usize q k)" for p l q k
    using exact [of p l] exact [of q k] that by auto
  have tail: "calm (sbind (kget (\<lambda>k. alloc_write_buf d (files k))) (\<lambda>(buf, fs'). case buf of None \<Rightarrow> push_result (- 1)
      | Some sd \<Rightarrow> sthen (kmodify (\<lambda>k. k\<lparr>files := replace_file n sd fs'\<rparr>))
          (sthen (device (fat_write_file drv n sd)) (push_result 0)))) s'" if "room (h_mem_len st) s'" for d n s'
    by (rule calm_steady [OF steady_prims(1) that], rule calm_case_prod, intro quiet_rules; assumption)
  show "calm (host_fs_write drv) st"
    unfolding host_fs_write_def Let_def
    by (rule calm_pop_args [OF assms(1) refl], simp, intro calm_len calm_branches calm_mem_slice calm_push_result tail;
        (assumption | (drule exact2, elim conjE, assumption) | simp))
qed

lemma quiet_read_line:
  assumes "h_vsp st \<le> STACK_DEPTH" shows "calm host_read_line st"
  unfolding host_read_line_def Let_def
  by (rule calm_pop_args [OF assms refl]; (simp; fail)?)
    (auto intro!: calm_push_result calm_hang calm_steady_then steady_rules simp: room_def split: option.split)

lemma run_slice:
  "sbind (mem_slice a b) f st =
     (if a \<le> b \<and> b \<le> h_mem_len st then f (mem_read (h_mem st) a (b - a)) st else (Panic, st))"
  by (simp add: sbind_def mem_slice_def)

lemma pop_two:
  assumes "2 \<le> h_vsp st" and "h_vsp st \<le> STACK_DEPTH"
  shows "pop_args 2 st = (Ok [h_vstack st (h_vsp st - 2), h_vstack st (h_vsp st - 1)], st\<lparr>h_vsp := h_vsp st - 2\<rparr>)"
proof -
  obtain k where "h_vsp st = k + 2" using assms(1) le_Suc_ex by (metis add.commute)
  then show ?thesis using assms(2) by (simp add: pop_args_def upt_conv_Cons)
qed

lemma pop_three:
  assumes "3 \<le> h_vsp st" and "h_vsp st \<le> STACK_DEPTH"
  shows "pop_args 3 st = (Ok [h_vstack st (h_vsp st - 3), h_vstack st (h_vsp st - 2), h_vstack st (h_vsp st - 1)],
     st\<lparr>h_vsp := h_vsp st - 3\<rparr>)"
proof -
  obtain k where "h_vsp st = k + 3" using assms(1) le_Suc_ex by (metis add.commute)
  then show ?thesis using assms(2) by (simp add: pop_args_def upt_conv_Cons)
qed


section \<open>Host functions keep the network invariant\<close>

lemma keeps_handle:
  assumes "\<And>s. net_ok s \<Longrightarrow> i < MAX_SOCKETS \<Longrightarrow> good net_ok m s" and "\<And>s. MAX_SOCKETS \<le> i \<Longrightarrow> snd (m s) = s"
  shows "keeps net_ok m"
  using assms by (intro keepsI) (metis good_def linorder_not_le)

lemma handle_keeps:
  "keeps net_ok (tcp_send i d)" "keeps net_ok (tcp_recv i d)" "keeps net_ok (tcp_close i)" "keeps net_ok (tcp_accept i)"
  "keeps net_ok (udp_send i d)" "keeps net_ok (udp_recv i d)"
  by (rule keeps_handle, erule (1) tcp_send_good tcp_recv_good tcp_close_good tcp_accept_good udp_send_good udp_recv_good,
      simp add: tcp_send_def tcp_recv_def tcp_close_def tcp_accept_def udp_send_def udp_recv_def tcp_at_cases(2)
        udp_at_cases(2) sthen_def)+

lemma net_keeps_kmodify: "(\<And>k. network (g k) = network k) \<Longrightarrow> keeps net_fine (kmodify g)"
  by (simp add: keeps_def kmodify_def modify_def net_fine_def)

lemma net_keeps_prims:
  "keeps net_fine (pop_args n)" "keeps net_fine (push_result v)" "keeps net_fine check_overflow" "keeps net_fine (mem_slice a b)"
  "keeps net_fine (mem_store a bs)" "keeps net_fine hang" "keeps net_fine (kget f)"
  by (auto simp: keeps_def net_fine_def pop_args_def push_result_def check_overflow_def mem_slice_def mem_store_def hang_def
      kget_def sm_defs)

lemma net_keeps_device: "keeps net_fine (print bs)" "keeps net_fine (device h)"
  unfolding print_def device_def by (intro keeps_sbind keeps_sthen keeps_ret net_keeps_prims net_keeps_kmodify; simp)+

lemma net_keeps_with_network: "keeps net_ok f \<Longrightarrow> keeps net_fine (with_network f)"
  by (auto simp: keeps_def run_network net_fine_def split: option.split)

lemmas net_keeps = keeps_sbind keeps_sthen keeps_ret keeps_throw keeps_panic keeps_lift keeps_gets keeps_if keeps_Let
  keeps_case_prod keeps_case_option net_keeps_prims net_keeps_device net_keeps_with_network handle_keeps

lemma net_keeps_hosts:
  "keeps net_fine host_print" "keeps net_fine host_print_int" "keeps net_fine host_yield" "keeps net_fine host_sleep_ms"
  "keeps net_fine host_print_i64" "keeps net_fine host_print_char" "keeps net_fine host_print_hex" "keeps net_fine (host_uptime_ms drv)"
  "keeps net_fine host_wasm_opcount" "keeps net_fine host_read_char" "keeps net_fine (host_fb_set_pixel drv)"
  "keeps net_fine host_fb_present" "keeps net_fine (host_fb_blit drv)" "keeps net_fine host_fs_read" "keeps net_fine (host_fs_write drv)"
  "keeps net_fine host_args_get" "keeps net_fine host_fs_size" "keeps net_fine host_read_line"
  unfolding host_print_def host_print_int_def host_yield_def host_sleep_ms_def host_print_i64_def host_print_char_def
    host_print_hex_def host_uptime_ms_def host_wasm_opcount_def host_read_char_def fmt_i32_def fmt_i64_def fmt_hex_def
    host_fb_set_pixel_def host_fb_present_def host_fb_blit_def host_fs_read_def host_fs_write_def host_args_get_def
    host_fs_size_def host_read_line_def guest_name_def
  by (intro net_keeps net_keeps_kmodify keeps_modify; (simp add: net_fine_def)?)+

lemma net_keeps_net_hosts:
  "keeps net_fine host_net_listen" "keeps net_fine host_net_connect" "keeps net_fine host_net_send" "keeps net_fine host_net_recv"
  "keeps net_fine host_net_close" "keeps net_fine host_net_set_ip" "keeps net_fine host_net_accept" "keeps net_fine host_net_status"
  "keeps net_fine host_net_get_ip" "keeps net_fine host_net_udp_bind" "keeps net_fine host_net_udp_connect"
  "keeps net_fine host_net_udp_send" "keeps net_fine host_net_udp_recv" "keeps net_fine host_net_udp_close"
  unfolding host_net_listen_def host_net_connect_def host_net_send_def host_net_recv_def host_net_close_def host_net_set_ip_def
    host_net_accept_def host_net_status_def host_net_get_ip_def host_net_udp_bind_def host_net_udp_connect_def
    host_net_udp_send_def host_net_udp_recv_def host_net_udp_close_def recv_into_def
  by (intro net_keeps tcp_listen_safe [THEN safe_keeps] tcp_connect_safe [THEN safe_keeps] set_ip_safe [THEN safe_keeps]
      udp_bind_safe [THEN safe_keeps] udp_connect_safe [THEN safe_keeps] udp_close_safe [THEN safe_keeps]; simp?)+

lemma net_keeps_exit: "keeps net_fine host_exit"
  by (simp add: keeps_def host_exit_def net_fine_def)

lemma registered_keep_network:
  assumes "f \<in> he_func ` set (init_host_fns drv)"
  shows "keeps net_fine f"
  using assms unfolding registered
  by (elim insertE emptyE) (simp_all add: net_keeps_hosts net_keeps_net_hosts net_keeps_exit)

definition demo_host :: "i64 list \<Rightarrow> unit kernel host_state" where
  "demo_host args = \<lparr>h_vstack = (\<lambda>i. if i < length args then args ! i else 0), h_vsp = length args, h_mem = (\<lambda>_. 0), h_mem_len = 4,
     h_world = \<lparr>opcode_count = 0, func_call_count = (\<lambda>_. 0), kernel = \<lparr>k_args = [], pending_sleep_ms = 0, files = empty_fs,
       console = [], keys = [KeyChar 0x61, Backspace, Tab, KeyChar 0x62, Enter], network = None, dev = ()\<rparr>\<rparr>\<rparr>"

definition demo_drivers :: "unit drivers" where
  "demo_drivers = \<lparr>uptime_ms = (\<lambda>_. 0), ticks = (\<lambda>_. 0), set_pixel = (\<lambda>_ _ _ d. d), blit_rgb32 = (\<lambda>_ _ _ d. d),
     fat_write_file = (\<lambda>_ _ d. (True, d))\<rparr>"

lemma lookup_args_get: "lookup_host (init_host_fns drv) (str_bytes ''env'') (str_bytes ''args_get'') = Some host_args_get"
  by (simp add: init_host_fns_def register_host_def MAX_HOST_FUNCS_def str_bytes_def)

section \<open>Properties\<close>

text \<open>
  \<open>print_int\<close> and \<open>print_i64\<close> write the decimal numeral of their argument and a newline, for every
  value including the minimum; their fixed buffers of 11 and 20 bytes are always large enough.
\<close>
theorem print_writes_decimal:
  assumes "0 < h_vsp st" and "h_vsp st \<le> STACK_DEPTH"
  shows "\<exists>s t st'. host_print_int st = (Ok (), st')
       \<and> console (kernel (h_world st')) = console (kernel (h_world st)) @ s @ [0x0A]
       \<and> parse_dec s = sint (low32 (h_vstack st (h_vsp st - 1))) \<and> length s \<le> 11
     \<and> (\<exists>st''. host_print_i64 st = (Ok (), st'')
       \<and> console (kernel (h_world st'')) = console (kernel (h_world st)) @ t @ [0x0A]
       \<and> parse_dec t = sint (h_vstack st (h_vsp st - 1)) \<and> length t \<le> 20)"
proof -
  let ?v = "h_vstack st (h_vsp st - 1)"
  obtain s where s: "fmt_dec 11 (sint (low32 ?v)) = Ok (s @ [0x0A])" "parse_dec s = sint (low32 ?v)" "length s \<le> Suc 10"
    using fmt_dec_spec [OF sint32_magnitude, of 11 "low32 ?v"] by auto
  obtain t where t: "fmt_dec 20 (sint ?v) = Ok (t @ [0x0A])" "parse_dec t = sint ?v" "length t \<le> Suc 19"
    using fmt_dec_spec [OF sint64_magnitude, of 20 ?v] by auto
  have "pop_args 1 st = (Ok [?v], st\<lparr>h_vsp := h_vsp st - 1\<rparr>)"
    using assms by (auto simp: pop_args_def)
  with s t show ?thesis
    by (auto simp: host_print_int_def host_print_i64_def fmt_i32_def fmt_i64_def print_def kmodify_def sm_defs
        intro!: exI [of _ s] exI [of _ t])
qed

theorem print_writes_decimal_witness:
  "\<exists>s t st'. host_print_int (demo_host [-2147483648]) = (Ok (), st') \<and> console (kernel (h_world st')) = s @ [0x0A]
     \<and> parse_dec s = - 2147483648
     \<and> (\<exists>st''. host_print_i64 (demo_host [-2147483648]) = (Ok (), st'') \<and> console (kernel (h_world st'')) = t @ [0x0A]
          \<and> parse_dec t = - 2147483648)"
  using print_writes_decimal [of "demo_host [-2147483648]"]
  by (auto simp: demo_host_def STACK_DEPTH_def low32_def)

text \<open>
  C19: No kernel function that a module can import lets it out of its sandbox: whatever its arguments,
  every registered function keeps the stack pointer inside the value stack, keeps the size of the
  linear memory and writes nothing beyond its end.
\<close>
theorem registered_hosts_confined:
  assumes "lookup_host (init_host_fns drv) m n = Some f" and "h_vsp st \<le> STACK_DEPTH" and "h_mem_len st < 2 ^ 64 - 1"
  shows "h_vsp (snd (f st)) \<le> STACK_DEPTH \<and> h_mem_len (snd (f st)) = h_mem_len st
     \<and> (\<forall>k \<ge> h_mem_len st. h_mem (snd (f st)) k = h_mem st k)"
  using keepsD [OF registered_keep_guest [OF assms(3) lookup_host_in [OF assms(1)], of 0 "h_mem st"], of st] assms(2)
  by (simp add: guest_inv_def)

theorem registered_hosts_confined_witness:
  "h_vsp (snd (host_args_get (demo_host [0, 200]))) \<le> STACK_DEPTH
   \<and> h_mem (snd (host_args_get (demo_host [0, 200]))) 4 = 0"
  using registered_hosts_confined [of demo_drivers "str_bytes ''env''" "str_bytes ''args_get''" host_args_get "demo_host [0, 200]"]
  by (simp add: lookup_args_get) (simp add: demo_host_def STACK_DEPTH_def)







text \<open>
  \<open>read_line\<close> is the line editor it claims to be: with room in memory, it waits for Enter and leaves
  in the buffer, and counts in its result, exactly the ASCII characters typed less those erased, never
  more than \<open>cap\<close>, and changes nothing outside the buffer; with the buffer out of range it answers -1.
\<close>
theorem read_line_spec:
  assumes "2 \<le> h_vsp st" and "h_vsp st \<le> STACK_DEPTH" and "h_mem_len st < 2 ^ 64 - 1"
    and "ptr = unat (h_vstack st (h_vsp st - 2))" and "cap = unat (h_vstack st (h_vsp st - 1))"
  shows "(h_mem_len st < ptr + cap \<longrightarrow> (\<exists>st'. host_read_line st = (Ok (), st') \<and> h_vstack st' (h_vsp st - 2) = - 1
             \<and> h_mem st' = h_mem st))
     \<and> (ptr + cap \<le> h_mem_len st \<longrightarrow> (case edit_line cap (keys (kernel (h_world st))) [] of
           None \<Rightarrow> fst (host_read_line st) = Hang
         | Some (line, ks) \<Rightarrow> \<exists>st'. host_read_line st = (Ok (), st') \<and> h_vsp st' = h_vsp st - 1
             \<and> h_vstack st' (h_vsp st - 2) = word_of_nat (length line) \<and> length line \<le> cap
             \<and> mem_read (h_mem st') ptr (length line) = line \<and> keys (kernel (h_world st')) = ks
             \<and> (\<forall>k. k < ptr \<or> ptr + cap \<le> k \<longrightarrow> h_mem st' k = h_mem st k)))"
proof -
  note args = pop_two [OF assms(1,2)]
  have sat: "(h_mem_len st < saturating_add_usize ptr cap) = (h_mem_len st < ptr + cap)"
    using assms(3) by (auto simp: saturating_add_usize_def)
  have vsp: "\<not> STACK_DEPTH \<le> h_vsp st - 2" "Suc (h_vsp st - 2) = h_vsp st - 1" using assms by auto
  note loop = read_line_refines [of "h_mem st" ptr 0 "[]" cap "keys (kernel (h_world st))" "[]"]
  let ?st = "st\<lparr>h_vsp := h_vsp st - 2\<rparr>"
  have run: "host_read_line st =
      (if h_mem_len st < ptr + cap then push_result (- 1) ?st
       else case read_line_loop ptr cap (keys (kernel (h_world st))) 0 (h_mem st) [] of
         None \<Rightarrow> (Hang, ?st)
       | Some (len, ks, m, echo) \<Rightarrow> push_result (word_of_nat len) (?st\<lparr>h_mem := m, h_world := (h_world st)
           \<lparr>kernel := (kernel (h_world st))\<lparr>keys := ks, console := console (kernel (h_world st)) @ echo\<rparr>\<rparr>\<rparr>))"
    using args by (cases "read_line_loop ptr cap (keys (kernel (h_world st))) 0 (h_mem st) []")
      (auto simp: host_read_line_def sbind_def [of "pop_args 2"] run_first hang_def kmodify_def Let_def sat assms(4,5) [simplified, symmetric])
  show ?thesis
  proof (cases "edit_line cap (keys (kernel (h_world st))) []")
    case None
    with loop vsp show ?thesis by (auto simp: run push_result_def mem_read_def)
  next
    case (Some r)
    with loop vsp show ?thesis by (auto simp: run push_result_def mem_read_def)
  qed
qed

theorem read_line_spec_witness:
  "\<exists>st'. host_read_line (demo_host [1, 2]) = (Ok (), st') \<and> h_vstack st' 0 = 1 \<and> mem_read (h_mem st') 1 1 = [0x62]"
proof -
  let ?d = "demo_host [1, 2]"
  have spec: "1 + 2 \<le> h_mem_len ?d" "2 \<le> h_vsp ?d" "h_vsp ?d \<le> STACK_DEPTH" "h_mem_len ?d < 2 ^ 64 - 1"
    "1 = unat (h_vstack ?d (h_vsp ?d - 2))" "2 = unat (h_vstack ?d (h_vsp ?d - 1))" "h_vsp ?d - 2 = 0"
    "edit_line 2 (keys (kernel (h_world ?d))) [] = Some ([0x62], [])"
    by (simp_all add: demo_host_def STACK_DEPTH_def)
  note r = read_line_spec [OF spec(2-6), unfolded spec(7,8) option.case prod.case, THEN conjunct2, rule_format, OF spec(1)]
  show ?thesis using r by (rule ex_forward) (elim conjE, intro conjI; simp)
qed

end
