(* ===== verification/Engine.thy ===== *)
theory Engine
  imports Isolation Host_Functions
begin

text \<open>
  The instance pool of \<open>kernel/src/wasm/engine.rs\<close>: instantiation of a module into a slot, execution of
  an export until it returns or suspends, and release of the slot. The static memory region of a slot,
  which the slot's interpreter borrows as \<open>mem\<close>, is the field \<open>slot_mem\<close>; it and the kernel's statics
  are passed to the interpreter when it is entered and read back when it is left. The compiler to native
  code is a parameter: it gives the size and the behaviour of the code for a body, or nothing when the
  body is not supported. Diagnostics printed by the compiler are not modelled.
\<close>

section \<open>State\<close>

definition MAX_MEM_PAGES :: nat where "MAX_MEM_PAGES = 32"
definition MAX_INSTANCES :: nat where "MAX_INSTANCES = 4"
definition MAX_INST_NAME :: nat where "MAX_INST_NAME = 32"
definition JIT_BUF_SIZE :: nat where "JIT_BUF_SIZE = 2048 * 1024"

definition SLOT_BYTES :: nat where
  "SLOT_BYTES = MAX_MEM_PAGES * PAGE_SIZE"

lemmas engine_limits = MAX_MEM_PAGES_def MAX_INSTANCES_def MAX_INST_NAME_def JIT_BUF_SIZE_def SLOT_BYTES_def

datatype run_error = Load load_error | Interp interp_error | EntryNotFound | MemoryTooLarge | PoolFull | ImportNotFound

definition run_error_as_str :: "run_error \<Rightarrow> string" where
  "run_error_as_str e = (case e of
       Load e \<Rightarrow> load_error_as_str e
     | Interp e \<Rightarrow> interp_error_as_str e
     | EntryNotFound \<Rightarrow> ''entry point not found in exports''
     | MemoryTooLarge \<Rightarrow> ''module requests more memory than the kernel allows''
     | PoolFull \<Rightarrow> ''instance pool is full''
     | ImportNotFound \<Rightarrow> ''module imports an unregistered host function'')"

datatype task_result = Completed "i64 option" | Yielded

record 'd inst =
  inst_bytes :: bytes
  inst_interp :: "'d kernel interp"

record 'd pool_slot =
  active :: bool
  slot_name :: bytes
  mem_pages :: nat
  slot_inst :: "'d inst option"

definition BLANK_SLOT :: "'d pool_slot" where
  "BLANK_SLOT = \<lparr>active = False, slot_name = [], mem_pages = 0, slot_inst = None\<rparr>"

record 'd engine =
  pool :: "'d pool_slot arr"
  slot_mem :: "nat \<Rightarrow> u8 arr"
  registry :: "'d registry"
  jit_fill :: nat
  e_world :: "'d kernel world"

type_synonym ('d, 'a) em = "('d engine, run_error, 'a) sm"

type_synonym jit_compiler = "bytes \<Rightarrow> nat \<Rightarrow> nat \<Rightarrow> (nat \<times> jit_fn) option"

section \<open>Memory initialisation\<close>

text \<open>
  One segment at \<open>cur\<close>; \<open>false\<close> is \<open>Err ()\<close>. Only kind 0 is parsed: for any other kind the loop goes on
  right behind the kind. \<open>dst_end - dst\<close> underflows when the offset is past the memory.
\<close>

definition init_segment :: "bytes \<Rightarrow> nat \<Rightarrow> nat \<Rightarrow> (u8 arr, unit, nat) sm" where
  "init_segment sec mlen cur =
     sbind (lift (read_u32_at sec cur ())) (\<lambda>(kind, n).
     let cur = cur + n in
     if kind \<noteq> 0 then ret cur
     else if cur \<ge> length sec \<or> sec ! cur \<noteq> 0x41 then throw ()
     else
       sbind (lift (read_i32_at sec (cur + 1) ())) (\<lambda>(offset, n).
       let cur = cur + 1 + n in
       if cur \<ge> length sec \<or> sec ! cur \<noteq> 0x0B then throw ()
       else
         sbind (lift (read_u32_at sec (cur + 1) ())) (\<lambda>(data_len, n).
         let cur = cur + 1 + n; data_len = unat data_len in
         if cur + data_len > length sec then throw ()
         else
           let dst = unat (of_i32 offset); dst_end = min (saturating_add_usize dst data_len) mlen in
           if dst_end < dst then panic
           else sthen (modify (\<lambda>m. mem_write m dst (take (dst_end - dst) (drop cur sec))))
             (ret (cur + data_len)))))"

fun init_loop :: "bytes \<Rightarrow> nat \<Rightarrow> nat \<Rightarrow> nat \<Rightarrow> (u8 arr, unit, unit) sm" where
  "init_loop sec mlen 0 cur = ret ()"
| "init_loop sec mlen (Suc k) cur = sbind (init_segment sec mlen cur) (init_loop sec mlen k)"

definition init_memory :: "bytes \<Rightarrow> nat \<Rightarrow> (u8 arr, unit, unit) sm" where
  "init_memory sec mlen =
     sbind (lift (ok_or (read_u32_leb128 sec) ())) (\<lambda>(count, n). init_loop sec mlen (unat count) n)"

section \<open>Import counting\<close>

text \<open>A malformed section ends the count early: \<open>return func_count\<close>.\<close>

primrec or_count :: "(unit, 'a) result \<Rightarrow> nat \<Rightarrow> ('a \<Rightarrow> ('e, nat) result) \<Rightarrow> ('e, nat) result" where
  "or_count (Ok x) func_count f = f x"
| "or_count (Err u) func_count f = Ok func_count"
| "or_count Panic func_count f = Panic"
| "or_count Hang func_count f = Hang"

definition count_limits :: "bytes \<Rightarrow> nat \<Rightarrow> (unit, nat) result" where
  "count_limits bs cur =
     (if cur \<ge> length bs then Err ()
      else rbind (read_u32_at bs (cur + 1) ()) (\<lambda>(_, n).
        let flag = bs ! cur; cur = cur + 1 + n in
        if flag \<noteq> 0 then rbind (read_u32_at bs cur ()) (\<lambda>(_, n). Ok (cur + n)) else Ok cur))"

fun count_loop :: "bytes \<Rightarrow> nat \<Rightarrow> nat \<Rightarrow> nat \<Rightarrow> ('e, nat) result" where
  "count_loop bs 0 cur func_count = Ok func_count"
| "count_loop bs (Suc k) cur func_count =
     or_count (read_u32_at bs cur ()) func_count (\<lambda>(mod_len, n).
     let cur = cur + n + unat mod_len in
     if cur > length bs then Ok func_count
     else or_count (read_u32_at bs cur ()) func_count (\<lambda>(name_len, n).
       let cur = cur + n + unat name_len in
       if cur > length bs then Ok func_count
       else if cur \<ge> length bs then Ok func_count
       else
         let kind = bs ! cur; cur = cur + 1 in
         if kind = 0 then or_count (read_u32_at bs cur ()) func_count (\<lambda>(_, n). count_loop bs k (cur + n) (func_count + 1))
         else if kind = 1 then or_count (count_limits bs (cur + 1)) func_count (\<lambda>cur. count_loop bs k cur func_count)
         else if kind = 2 then or_count (count_limits bs cur) func_count (\<lambda>cur. count_loop bs k cur func_count)
         else if kind = 3 then count_loop bs k (cur + 2) func_count
         else Ok func_count))"

definition count_func_imports :: "bytes option \<Rightarrow> ('e, nat) result" where
  "count_func_imports section =
     (case section of
        None \<Rightarrow> Ok 0
      | Some bs \<Rightarrow> (case read_u32_leb128 bs of None \<Rightarrow> Ok 0 | Some (count, n) \<Rightarrow> count_loop bs (unat count) n 0))"

section \<open>Native code\<close>

text \<open>The offset in the code buffer stands for the pointer.\<close>

definition jit_alloc :: "nat \<Rightarrow> nat \<Rightarrow> nat option \<times> nat" where
  "jit_alloc len fill =
     (let aligned = (fill + 15) div 16 * 16 in
      if aligned + len > JIT_BUF_SIZE then (None, fill) else (Some aligned, aligned + len))"

fun jit_loop :: "jit_compiler \<Rightarrow> 'k interp \<Rightarrow> nat \<Rightarrow> nat \<Rightarrow> nat \<Rightarrow> jit_fn option arr
    \<Rightarrow> ('e, jit_fn option arr \<times> nat) result" where
  "jit_loop jc s 0 bi fill fns = Ok (fns, fill)"
| "jit_loop jc s (Suc k) bi fill fns =
     (let abs_idx = import_count s + bi;
          type_idx = func_type_indices s bi;
          n_params = type_arity (type_param_counts s) (type_count s) type_idx;
          n_results = type_arity (type_result_counts s) (type_count s) type_idx in
      case jc (bodies s bi) (n_params + local_counts s bi) n_results of
        None \<Rightarrow> jit_loop jc s k (bi + 1) fill fns
      | Some (code_size, f) \<Rightarrow>
          if code_size = 0 then jit_loop jc s k (bi + 1) fill fns
          else case jit_alloc code_size fill of
            (None, _) \<Rightarrow> Ok (fns, fill)
          | (Some dst, fill') \<Rightarrow>
              if abs_idx \<ge> MAX_FUNCS then Panic
              else jit_loop jc s k (bi + 1) fill' (fns(abs_idx := Some f)))"

definition compile_jit :: "jit_compiler \<Rightarrow> 'k interp \<Rightarrow> nat \<Rightarrow> ('e, 'k interp \<times> nat) result" where
  "compile_jit jc s fill =
     rbind (jit_loop jc s (body_count s) 0 fill (jit_fns s)) (\<lambda>(fns, fill).
     if import_count s > MAX_FUNCS then Panic else Ok (s\<lparr>jit_fns := fns\<rparr>, fill))"

section \<open>Spawn and destroy\<close>

definition free_slot :: "'d engine \<Rightarrow> nat option" where
  "free_slot e = List.find (\<lambda>i. \<not> active (pool e i)) [0..<MAX_INSTANCES]"

text \<open>The closure of \<open>spawn\<close> over \<open>host_fns\<close>, \<open>idx\<close> and \<open>missing\<close>.\<close>

definition resolve_import :: "'d registry \<Rightarrow> bytes \<Rightarrow> bytes \<Rightarrow> 'd host option arr \<times> nat \<times> bool
    \<Rightarrow> 'd host option arr \<times> nat \<times> bool" where
  "resolve_import reg m n = (\<lambda>(fns, idx, missing).
     if idx < MAX_FUNCS then
       (fns(idx := lookup_host reg m n), idx + 1, missing \<or> lookup_host reg m n = None)
     else (fns, idx, missing))"

definition resolve_imports :: "'d registry \<Rightarrow> bytes option \<Rightarrow> ('e, 'd host option arr \<times> nat \<times> bool) result" where
  "resolve_imports reg section =
     (case section of
        None \<Rightarrow> Ok (\<lambda>_. None, 0, False)
      | Some sec \<Rightarrow> for_each_func_import sec (resolve_import reg) (\<lambda>_. None, 0, False))"

definition init_data :: "bytes option \<Rightarrow> (u8 arr, unit, unit) sm" where
  "init_data data = (case data of None \<Rightarrow> ret () | Some sec \<Rightarrow> init_memory sec SLOT_BYTES)"

definition init_slot :: "nat \<Rightarrow> bytes option \<Rightarrow> ('d, unit) em" where
  "init_slot slot data = (\<lambda>e.
     case init_data data (slot_mem e slot) of
       (r, m) \<Rightarrow> (map_err (\<lambda>_. Interp MalformedCode) r, e\<lparr>slot_mem := (slot_mem e)(slot := m)\<rparr>))"

text \<open>\<open>spawn\<close> once a free slot is found; \<open>e0\<close> is the engine at that point.\<close>

definition spawn_into :: "jit_compiler \<Rightarrow> bytes \<Rightarrow> bytes \<Rightarrow> 'd engine \<Rightarrow> nat \<Rightarrow> ('d, nat) em" where
  "spawn_into jc name bytes e0 slot =
     sbind (lift (map_err Load (load bytes))) (\<lambda>m.
     sbind (lift (case memory_section m of None \<Rightarrow> Ok 0 | Some sec \<Rightarrow> read_memory_min_pages sec)) (\<lambda>min_pages.
     if unat min_pages > MAX_MEM_PAGES then throw MemoryTooLarge
     else
       sthen (modify (\<lambda>e. e\<lparr>slot_mem := (slot_mem e)(slot := \<lambda>_. 0)\<rparr>))
       (sbind (lift (count_func_imports (import_section m))) (\<lambda>n_imports.
       sbind (lift (resolve_imports (registry e0) (import_section m))) (\<lambda>(fns, _, missing).
       if missing then throw ImportNotFound
       else
         sbind (lift (map_err Interp (interp_new m n_imports (\<lambda>_. 0) SLOT_BYTES fns min_pages (e_world e0)))) (\<lambda>interp.
         sthen (init_slot slot (data_section m))
         (sbind (lift (compile_jit jc interp (jit_fill e0))) (\<lambda>(interp, fill).
         sthen (modify (\<lambda>e. e\<lparr>jit_fill := fill,
             pool := (pool e)(slot := \<lparr>active = True, slot_name = take MAX_INST_NAME name, mem_pages = unat min_pages,
               slot_inst = Some \<lparr>inst_bytes = bytes, inst_interp = interp\<rparr>\<rparr>)\<rparr>))
         (ret slot)))))))))"

definition spawn :: "jit_compiler \<Rightarrow> bytes \<Rightarrow> bytes \<Rightarrow> ('d, nat) em" where
  "spawn jc name bytes =
     sbind (gets id) (\<lambda>e. sbind (lift (ok_or (free_slot e) PoolFull)) (spawn_into jc name bytes e))"

definition destroy :: "nat \<Rightarrow> 'd engine \<Rightarrow> 'd engine" where
  "destroy handle e =
     (if handle \<ge> MAX_INSTANCES then e
      else if \<not> active (pool e handle) then e
      else e\<lparr>pool := (pool e)(handle := (pool e handle)\<lparr>active := False, slot_inst := None\<rparr>),
             slot_mem := (slot_mem e)(handle := \<lambda>_. 0)\<rparr>)"

definition for_each_instance :: "(nat \<Rightarrow> bytes \<Rightarrow> nat \<Rightarrow> 'a \<Rightarrow> 'a) \<Rightarrow> 'd engine \<Rightarrow> 'a \<Rightarrow> 'a" where
  "for_each_instance f e acc =
     fold (\<lambda>i acc. let s = pool e i in
        if active s then f i (case from_utf8 (slot_name s) of Some n \<Rightarrow> n | None \<Rightarrow> str_bytes ''?'') (mem_pages s) acc
        else acc) [0..<MAX_INSTANCES] acc"

section \<open>Execution\<close>

text \<open>
  Enter the interpreter of a slot with the slot's memory and the kernel's statics. An active slot holds
  an instance; \<open>assume_init_mut\<close> on any other is outside the language, here a panic.
\<close>

definition with_interp :: "nat \<Rightarrow> ('d kernel, 'a) im \<Rightarrow> 'd engine \<Rightarrow> (interp_error, 'a) result \<times> i64 option \<times> 'd engine" where
  "with_interp handle m e =
     (case slot_inst (pool e handle) of
        None \<Rightarrow> (Panic, None, e)
      | Some i \<Rightarrow>
          (case m ((inst_interp i)\<lparr>mem := slot_mem e handle, world := e_world e\<rparr>) of
             (r, s) \<Rightarrow> (r, top s, e\<lparr>pool := (pool e)(handle := (pool e handle)\<lparr>slot_inst := Some (i\<lparr>inst_interp := s\<rparr>)\<rparr>),
               slot_mem := (slot_mem e)(handle := mem s), e_world := world s\<rparr>)))"

definition task_outcome :: "(interp_error, unit) result \<Rightarrow> i64 option \<Rightarrow> (run_error, task_result) result" where
  "task_outcome r top_value = (case r of
       Ok _ \<Rightarrow> Ok (Completed top_value)
     | Err e \<Rightarrow>
         if e = interp_error.Yielded then Ok Yielded
         else if e = Exited then Ok (Completed None)
         else Err (Interp e)
     | Panic \<Rightarrow> Panic
     | Hang \<Rightarrow> Hang)"

definition run_slot :: "nat \<Rightarrow> ('d kernel, unit) im \<Rightarrow> ('d, task_result) em" where
  "run_slot handle m = (\<lambda>e. case with_interp handle m e of (r, v, e') \<Rightarrow> (task_outcome r v, e'))"

fun push_args :: "i32 list \<Rightarrow> ('k, unit) im" where
  "push_args [] = ret ()"
| "push_args (arg # args) = sthen (v_push (of_i32 arg)) (push_args args)"

definition start_task :: "nat \<Rightarrow> float_env \<Rightarrow> nat \<Rightarrow> bytes \<Rightarrow> i32 list \<Rightarrow> ('d, task_result) em" where
  "start_task fuel fe handle entry args =
     sbind (gets id) (\<lambda>e.
     if handle \<ge> MAX_INSTANCES then throw EntryNotFound
     else if \<not> active (pool e handle) then throw EntryNotFound
     else case slot_inst (pool e handle) of
       None \<Rightarrow> panic
     | Some i \<Rightarrow>
         sbind (lift (map_err Load (load (inst_bytes i)))) (\<lambda>m.
         sbind (lift (map_err (\<lambda>_. EntryNotFound) (find_export m entry))) (\<lambda>func_idx.
         run_slot handle (sthen (modify reset_for_call) (sthen (push_args args) (call fuel fe (unat func_idx)))))))"

definition resume_task :: "nat \<Rightarrow> float_env \<Rightarrow> nat \<Rightarrow> ('d, task_result) em" where
  "resume_task fuel fe handle =
     sbind (gets id) (\<lambda>e.
     if handle \<ge> MAX_INSTANCES then throw EntryNotFound
     else if \<not> active (pool e handle) then throw EntryNotFound
     else run_slot handle (resume fuel fe))"

text \<open>
  \<open>while let Ok(Yielded) = result { result = resume_task(handle) }\<close>, at most \<open>n\<close> resumptions; a module
  that suspends for ever never lets \<open>run\<close> return.
\<close>

fun drain :: "nat \<Rightarrow> nat \<Rightarrow> float_env \<Rightarrow> nat \<Rightarrow> (run_error, task_result) result \<times> 'd engine
    \<Rightarrow> (run_error, task_result) result \<times> 'd engine" where
  "drain 0 fuel fe handle (r, e) = (if r = Ok Yielded then Hang else r, e)"
| "drain (Suc n) fuel fe handle (r, e) =
     (if r = Ok Yielded then drain n fuel fe handle (resume_task fuel fe handle e) else (r, e))"

definition run_module :: "jit_compiler \<Rightarrow> nat \<Rightarrow> nat \<Rightarrow> float_env \<Rightarrow> bytes \<Rightarrow> bytes \<Rightarrow> i32 list \<Rightarrow> ('d, i64 option) em" where
  "run_module jc n fuel fe bytes entry args =
     sbind (spawn jc [] bytes) (\<lambda>handle e.
     case drain n fuel fe handle (start_task fuel fe handle entry args e) of
       (Ok (Completed v), e') \<Rightarrow> (Ok v, destroy handle e')
     | (Ok Yielded, e') \<Rightarrow> (Panic, e')
     | (Err x, e') \<Rightarrow> (Err x, destroy handle e')
     | (Panic, e') \<Rightarrow> (Panic, e')
     | (Hang, e') \<Rightarrow> (Hang, e'))"

section \<open>Slots\<close>

text \<open>
  An interpreter that runs in a slot: well-formed, on the slot's whole region, with host functions and
  native code that stay inside it.
\<close>

definition slot_ok :: "'k interp \<Rightarrow> bool" where
  "slot_ok s \<longleftrightarrow> interp_ok s \<and> mem_len s = SLOT_BYTES \<and> sandbox 0 SLOT_BYTES (\<lambda>_. 0) s"

lemma keeps_mem_len:
  assumes "\<And>s0. keeps (same_module s0) m" shows "keeps (\<lambda>s. mem_len s = L) m"
proof (rule keepsI)
  fix s :: "'a interp" assume "mem_len s = L"
  with keepsD [OF assms [of s], of s] show "mem_len (snd (m s)) = L" by (simp add: same_module_def)
qed

lemma slot_ok_push: "keeps slot_ok (v_push v)"
  by (rule keepsI) (auto simp: v_push_def slot_ok_def interp_ok_def sandbox_def active_mem_bytes_def)

lemma slot_ok_push_args: "keeps slot_ok (push_args args)"
  by (induction args) (auto intro: keeps_rules slot_ok_push)

lemma slot_ok_reset: "keeps slot_ok (modify reset_for_call)"
  by (rule keeps_modify) (auto simp: slot_ok_def interp_ok_def reset_for_call_def sandbox_def active_mem_bytes_def)

lemma slot_ok_call: "keeps slot_ok (call fuel fe f)" "keeps slot_ok (resume fuel fe)"
  unfolding slot_ok_def resume_def
  by (intro keeps_conj keeps_mem_len ok.call_function_keeps ok.run_keeps sandbox.call_function_keeps sandbox.run_keeps
      code.call_function_keeps code.run_keeps)+

lemma slot_ok_enter: "slot_ok s \<Longrightarrow> (\<And>k. SLOT_BYTES \<le> k \<Longrightarrow> m k = 0) \<Longrightarrow> slot_ok (s\<lparr>mem := m, world := w\<rparr>)"
  by (auto simp: slot_ok_def interp_ok_def sandbox_def active_mem_bytes_def)

lemma slot_ok_mem: "slot_ok s \<Longrightarrow> SLOT_BYTES \<le> k \<Longrightarrow> mem s k = 0"
proof -
  assume s: "slot_ok s" "SLOT_BYTES \<le> k"
  then have "unat (current_pages s) \<le> unat (max_pages s)" by (simp add: slot_ok_def interp_ok_def word_le_nat_alt)
  then have "active_mem_bytes s \<le> unat (max_pages s) * PAGE_SIZE" by (simp add: active_mem_bytes_def)
  with s show ?thesis by (auto simp: slot_ok_def interp_ok_def sandbox_def)
qed

section \<open>The engine invariant\<close>

definition host_safe :: "'d host \<Rightarrow> bool" where
  "host_safe f \<longleftrightarrow> host_ok f \<and> host_confined SLOT_BYTES SLOT_BYTES f"

definition engine_ok :: "'d engine \<Rightarrow> bool" where
  "engine_ok e \<longleftrightarrow> (\<forall>f \<in> he_func ` set (registry e). host_safe f)
     \<and> (\<forall>h. active (pool e h) \<longrightarrow> (\<exists>i. slot_inst (pool e h) = Some i \<and> slot_ok (inst_interp i)))
     \<and> (\<forall>h k. SLOT_BYTES \<le> k \<longrightarrow> slot_mem e h k = 0)
     \<and> jit_fill e \<le> JIT_BUF_SIZE"

definition jit_safe :: "jit_compiler \<Rightarrow> bool" where
  "jit_safe jc \<longleftrightarrow> (\<forall>body l r n f. jc body l r = Some (n, f) \<longrightarrow> jit_confined SLOT_BYTES f)"

lemma registered_host_safe:
  assumes "f \<in> he_func ` set (init_host_fns drv)" shows "host_safe f"
proof -
  have kept: "guest_inv (h_vsp st) (h_mem_len st) (h_mem st) (snd (f st))" if "h_mem_len st < 2 ^ 63" for st
    by (rule keepsD [OF registered_keep_guest [OF _ assms]]) (use that in \<open>simp_all add: guest_inv_def\<close>)
  have "SLOT_BYTES < 2 ^ 63" by (simp add: engine_limits PAGE_SIZE_def)
  with kept show ?thesis
    by (fastforce simp: host_safe_def host_ok_def host_confined_def guest_inv_def)
qed

lemma with_interp_ok:
  assumes "engine_ok e" and "active (pool e h)" and "keeps slot_ok m" and "with_interp h m e = (r, v, e')"
  shows "engine_ok e'"
proof -
  obtain i where i: "slot_inst (pool e h) = Some i" "slot_ok (inst_interp i)"
    using assms(1,2) by (auto simp: engine_ok_def)
  let ?s = "(inst_interp i)\<lparr>mem := slot_mem e h, world := e_world e\<rparr>"
  have "slot_ok ?s" using assms(1) i(2) by (intro slot_ok_enter) (auto simp: engine_ok_def)
  then have ok: "slot_ok (snd (m ?s))" by (rule keepsD [OF assms(3)])
  show ?thesis
    using assms(1,4) i ok by (cases "m ?s") (auto simp: engine_ok_def with_interp_def slot_ok_mem)
qed

lemma run_slot_ok: "active (pool e h) \<Longrightarrow> keeps slot_ok m \<Longrightarrow> engine_ok e \<Longrightarrow> engine_ok (snd (run_slot h m e))"
  using with_interp_ok [of e h m] by (auto simp: run_slot_def split: prod.split)

lemma start_task_ok: "keeps engine_ok (start_task fuel fe h entry args)"
proof (rule keepsI)
  fix e :: "'a engine" assume e: "engine_ok e"
  have "engine_ok (snd (run_slot h (sthen (modify reset_for_call) (sthen (push_args args) (call fuel fe f))) e))"
    if "active (pool e h)" for f
    using that e by (intro run_slot_ok keeps_sthen slot_ok_reset slot_ok_push_args slot_ok_call)
  with e show "engine_ok (snd (start_task fuel fe h entry args e))"
    by (auto simp: start_task_def sm_defs split: option.split prod.split result.split)
qed

lemma resume_task_ok: "keeps engine_ok (resume_task fuel fe h)"
proof (rule keepsI)
  fix e :: "'a engine" assume e: "engine_ok e"
  with run_slot_ok [OF _ slot_ok_call(2) e] show "engine_ok (snd (resume_task fuel fe h e))"
    by (auto simp: resume_task_def sm_defs)
qed

lemma destroy_ok: "engine_ok e \<Longrightarrow> engine_ok (destroy h e)"
  by (auto simp: destroy_def engine_ok_def)

lemma drain_ok:
  "engine_ok (snd re) \<Longrightarrow> engine_ok (snd (drain n fuel fe h re))"
  by (induction n fuel fe h re rule: drain.induct) (auto simp: keepsD [OF resume_task_ok])

section \<open>Spawning\<close>

lemma jit_alloc_bounds: "jit_alloc len fill = (Some dst, fill') \<Longrightarrow>
    fill \<le> dst \<and> dst mod 16 = 0 \<and> dst + len = fill' \<and> fill' \<le> JIT_BUF_SIZE"
  by (auto simp: jit_alloc_def Let_def split: if_splits)

lemma jit_loop_ok:
  assumes "jit_loop jc s k bi fill fns = (Ok (fns', fill') :: ('e, _) result)" and "jit_safe jc" and "fill \<le> JIT_BUF_SIZE"
    and "\<forall>i f. fns i = Some f \<longrightarrow> jit_confined SLOT_BYTES f"
  shows "fill' \<le> JIT_BUF_SIZE \<and> (\<forall>i f. fns' i = Some f \<longrightarrow> jit_confined SLOT_BYTES f)"
  using assms
proof (induction k arbitrary: bi fill fns)
  case 0
  then show ?case by simp
next
  case (Suc k)
  let ?r = "jc (bodies s bi) (type_arity (type_param_counts s) (type_count s) (func_type_indices s bi) + local_counts s bi)
      (type_arity (type_result_counts s) (type_count s) (func_type_indices s bi))"
  show ?case
  proof (cases ?r)
    case None
    with Suc.prems Suc.IH [of "bi + 1" fill fns] show ?thesis by (simp add: Let_def)
  next
    case (Some cf)
    obtain code_size f where cf: "cf = (code_size, f)" by (cases cf)
    have f: "jit_confined SLOT_BYTES f" using Suc.prems(2) Some cf unfolding jit_safe_def by blast
    obtain d fill2 where d: "jit_alloc code_size fill = (d, fill2)" by fastforce
    consider "code_size = 0" | "code_size \<noteq> 0" "d = None" | dst where "code_size \<noteq> 0" "d = Some dst" by (cases d) auto
    then show ?thesis
    proof cases
      case 1
      with Suc.prems Some cf Suc.IH [of "bi + 1" fill fns] show ?thesis by (simp add: Let_def)
    next
      case 2
      with Suc.prems Some cf d show ?thesis by (auto simp: Let_def)
    next
      case 3
      with d have "fill2 \<le> JIT_BUF_SIZE" using jit_alloc_bounds by blast
      moreover have "jit_loop jc s k (bi + 1) fill2 (fns(import_count s + bi := Some f)) = (Ok (fns', fill') :: ('e, _) result)"
        using Suc.prems(1) Some cf d 3 by (simp add: Let_def split: if_splits)
      moreover have "\<forall>j g. (fns(import_count s + bi := Some f)) j = Some g \<longrightarrow> jit_confined SLOT_BYTES g"
        using Suc.prems(4) f by auto
      ultimately show ?thesis using Suc.IH Suc.prems(2) by blast
    qed
  qed
qed

text \<open>Everything that is known when \<open>spawn\<close> succeeds.\<close>

lemma spawn_Ok:
  assumes "spawn jc name bytes e = (Ok slot, e')"
  obtains m pages n fns idx s s' fill mem' where
    "free_slot e = Some slot" "load bytes = Ok m"
    "(case memory_section m of None \<Rightarrow> Ok 0 | Some sec \<Rightarrow> read_memory_min_pages sec) = (Ok pages :: (run_error, u32) result)"
    "unat pages \<le> MAX_MEM_PAGES"
    "count_func_imports (import_section m) = (Ok n :: (run_error, nat) result)"
    "resolve_imports (registry e) (import_section m) = (Ok (fns, idx, False) :: (run_error, _) result)"
    "interp_new m n (\<lambda>_. 0) SLOT_BYTES fns pages (e_world e) = Ok s"
    "init_data (data_section m) (\<lambda>_. 0) = (Ok (), mem')"
    "compile_jit jc s (jit_fill e) = (Ok (s', fill) :: (run_error, _) result)"
    "e' = e\<lparr>slot_mem := (slot_mem e)(slot := mem'), jit_fill := fill,
       pool := (pool e)(slot := \<lparr>active = True, slot_name = take MAX_INST_NAME name, mem_pages = unat pages,
         slot_inst = Some \<lparr>inst_bytes = bytes, inst_interp = s'\<rparr>\<rparr>)\<rparr>"
proof -
  have init: "init_slot slot d e2 = (Ok (), e3) \<longleftrightarrow>
      (\<exists>mem'. init_data d (slot_mem e2 slot) = (Ok (), mem') \<and> e3 = e2\<lparr>slot_mem := (slot_mem e2)(slot := mem')\<rparr>)"
    for slot d and e2 e3 :: "'a engine"
    by (auto simp: init_slot_def res_simps split: prod.splits)
  show ?thesis
    using assms by (auto simp: spawn_def spawn_into_def run_Ok init res_simps split: if_splits) (rule that; simp)
qed

text \<open>The data segments stay inside the memory they are given.\<close>

lemma init_segment_confined: "keeps (\<lambda>m. \<forall>k \<ge> mlen. m k = m0 k) (init_segment sec mlen cur)"
  unfolding init_segment_def Let_def
  by (intro keeps_rules keeps_modify) (auto simp: mem_write_def)

lemma init_data_confined: "keeps (\<lambda>m. \<forall>k \<ge> SLOT_BYTES. m k = m0 k) (init_data data)"
proof -
  have loop: "keeps (\<lambda>m. \<forall>k \<ge> mlen. m k = m0 k) (init_loop sec mlen n cur)" for sec mlen n cur
    by (induction n arbitrary: cur) (auto intro: keeps_rules init_segment_confined)
  show ?thesis
    unfolding init_data_def init_memory_def by (intro keeps_rules loop)
qed

text \<open>What \<open>spawn\<close> may change of the engine \<open>e0\<close> before it commits the new instance.\<close>

definition only_free_memory :: "'d engine \<Rightarrow> 'd engine \<Rightarrow> bool" where
  "only_free_memory e0 e \<longleftrightarrow> pool e = pool e0 \<and> registry e = registry e0 \<and> jit_fill e = jit_fill e0 \<and> e_world e = e_world e0
     \<and> (\<forall>h. free_slot e0 \<noteq> Some h \<longrightarrow> slot_mem e h = slot_mem e0 h)
     \<and> (\<forall>h k. SLOT_BYTES \<le> k \<longrightarrow> slot_mem e h k = 0)"

lemma spawn_failed:
  assumes "only_free_memory e e" and "\<And>slot. fst (spawn jc name bytes e) \<noteq> Ok slot"
  shows "only_free_memory e (snd (spawn jc name bytes e))"
proof -
  have zero: "keeps (only_free_memory e) (modify (\<lambda>e. e\<lparr>slot_mem := (slot_mem e)(slot := \<lambda>_. 0)\<rparr>))"
    if "free_slot e = Some slot" for slot
    using that by (intro keeps_modify) (simp add: only_free_memory_def, metis)
  have init: "keeps (only_free_memory e) (init_slot slot d)" if "free_slot e = Some slot" for slot d
  proof (rule keepsI)
    fix t :: "'a engine" assume t: "only_free_memory e t"
    then have "\<forall>k \<ge> SLOT_BYTES. snd (init_data d (slot_mem t slot)) k = 0"
      by (intro keepsD [OF init_data_confined]) (auto simp: only_free_memory_def)
    with t that show "only_free_memory e (snd (init_slot slot d t))"
      by (cases "init_data d (slot_mem t slot)") (simp add: init_slot_def only_free_memory_def, metis)
  qed
  show ?thesis
  proof (cases "free_slot e")
    case None
    then show ?thesis using assms(1) by (simp add: spawn_def sm_defs)
  next
    case (Some slot)
    then have run: "spawn jc name bytes e = spawn_into jc name bytes e slot e"
      by (simp add: spawn_def run_gets) (simp add: sbind_def lift_def)
    have "undone (only_free_memory e) (spawn_into jc name bytes e slot)"
      unfolding spawn_into_def
      by (intro undone_rules keeps_rules zero [OF Some] init [OF Some] undone_keeps [OF keeps_throw])
    with assms show ?thesis unfolding run undone_def by blast
  qed
qed

lemma only_free_memory_refl: "engine_ok e \<Longrightarrow> only_free_memory e e"
  by (simp add: only_free_memory_def engine_ok_def)

lemma only_free_memory_ok: "engine_ok e \<Longrightarrow> only_free_memory e e' \<Longrightarrow> engine_ok e'"
  by (simp add: only_free_memory_def engine_ok_def)

text \<open>A new instance.\<close>

lemma import_loop_inv:
  assumes "\<And>m n acc. Q acc \<Longrightarrow> Q (f m n acc)" and "Q acc"
  shows "Q (snd (import_loop sec f k cur acc))"
  using assms(2) by (induction k arbitrary: cur acc) (auto simp: assms(1) split: result.split option.split)

lemma resolve_imports_registered:
  assumes "resolve_imports reg sec = Ok (fns, idx, missing)" and "fns i = Some h"
  shows "h \<in> he_func ` set reg"
proof (cases sec)
  case None
  with assms show ?thesis by (auto simp: resolve_imports_def)
next
  case (Some bs)
  let ?Q = "\<lambda>acc. \<forall>i h. fst acc i = Some h \<longrightarrow> h \<in> he_func ` set reg"
  have step: "?Q (resolve_import reg m n acc)" if "?Q acc" for m n acc
    using that by (cases acc) (auto simp: resolve_import_def dest!: lookup_host_in)
  have inv: "?Q (snd (import_loop bs (resolve_import reg) k cur (\<lambda>_. None, 0, False)))" for k cur
    by (rule import_loop_inv) (auto intro!: step)
  obtain k cur where "read_u32_leb128 bs = None \<or> snd (import_loop bs (resolve_import reg) k cur (\<lambda>_. None, 0, False)) = (fns, idx, missing)"
    using assms(1) Some
    by (auto simp: resolve_imports_def for_each_func_import_def split: option.splits prod.splits result.splits) (metis snd_conv)+
  with inv [of k cur] assms Some show ?thesis
    by (auto simp: resolve_imports_def for_each_func_import_def)
qed

lemma interp_new_fields:
  "interp_new m n memory len hosts pages w = Ok s \<Longrightarrow>
     mem s = memory \<and> mem_len s = len \<and> host_fns s = hosts \<and> jit_fns s = (\<lambda>_. None) \<and> current_pages s = pages
     \<and> vsp s = 0 \<and> fdepth s = 0 \<and> world s = w \<and> import_count s = n"
  by (auto simp: interp_new_def res_simps)

lemma compile_jit_fields:
  assumes "compile_jit jc s fill = (Ok (s', fill') :: ('e, _) result)" and "jit_safe jc" and "fill \<le> JIT_BUF_SIZE"
    and "jit_fns s = (\<lambda>_. None)"
  obtains fns where "s' = s\<lparr>jit_fns := fns\<rparr>" "\<forall>i f. fns i = Some f \<longrightarrow> jit_confined SLOT_BYTES f" "fill' \<le> JIT_BUF_SIZE"
  using assms by (auto simp: compile_jit_def res_simps split: if_splits intro!: that dest!: jit_loop_ok [OF _ assms(2,3)])

lemma new_slot_ok:
  assumes "interp_new m n (\<lambda>_. 0) SLOT_BYTES fns pages w = Ok s" and "unat pages \<le> MAX_MEM_PAGES"
    and "\<forall>i h. fns i = Some h \<longrightarrow> host_safe h" and "\<forall>i f. jfns i = Some f \<longrightarrow> jit_confined SLOT_BYTES f"
  shows "slot_ok (s\<lparr>jit_fns := jfns\<rparr>)"
proof -
  have "SLOT_BYTES div PAGE_SIZE = MAX_MEM_PAGES" by (simp add: engine_limits PAGE_SIZE_def)
  with assms have "interp_ok s" by (intro interp_new_ok [OF assms(1)]) (auto simp: host_safe_def engine_limits)
  with interp_new_fields [OF assms(1)] assms(3,4) show ?thesis
    by (auto simp: slot_ok_def interp_ok_def sandbox_def host_safe_def)
qed

lemma spawn_ok:
  assumes "jit_safe jc" shows "keeps engine_ok (spawn jc name bytes)"
proof (rule keepsI)
  fix e :: "'a engine" assume e: "engine_ok e"
  show "engine_ok (snd (spawn jc name bytes e))"
  proof (cases "\<exists>slot. fst (spawn jc name bytes e) = Ok slot")
    case False
    then show ?thesis using only_free_memory_ok [OF e] spawn_failed [OF only_free_memory_refl [OF e]] by blast
  next
    case True
    then obtain slot e' where sp: "spawn jc name bytes e = (Ok slot, e')" by (cases "spawn jc name bytes e") auto
    from sp show ?thesis
    proof (rule spawn_Ok)
      fix m pages n fns idx s s' fill mem'
      assume a: "unat pages \<le> MAX_MEM_PAGES"
        "resolve_imports (registry e) (import_section m) = (Ok (fns, idx, False) :: (run_error, _) result)"
        "interp_new m n (\<lambda>_. 0) SLOT_BYTES fns pages (e_world e) = Ok s"
        "init_data (data_section m) (\<lambda>_. 0) = (Ok (), mem')"
        "compile_jit jc s (jit_fill e) = (Ok (s', fill) :: (run_error, _) result)"
        "e' = e\<lparr>slot_mem := (slot_mem e)(slot := mem'), jit_fill := fill,
          pool := (pool e)(slot := \<lparr>active = True, slot_name = take MAX_INST_NAME name, mem_pages = unat pages,
            slot_inst = Some \<lparr>inst_bytes = bytes, inst_interp = s'\<rparr>\<rparr>)\<rparr>"
      have fns: "\<forall>i h. fns i = Some h \<longrightarrow> host_safe h"
        using e resolve_imports_registered [OF a(2)] by (auto simp: engine_ok_def)
      have "jit_fill e \<le> JIT_BUF_SIZE" using e by (simp add: engine_ok_def)
      then obtain jfns where j: "s' = s\<lparr>jit_fns := jfns\<rparr>" "\<forall>i f. jfns i = Some f \<longrightarrow> jit_confined SLOT_BYTES f" "fill \<le> JIT_BUF_SIZE"
        using compile_jit_fields [OF a(5) assms] interp_new_fields [OF a(3)] by blast
      have "\<forall>k \<ge> SLOT_BYTES. mem' k = 0"
        using keepsD [OF init_data_confined [of "\<lambda>_. 0" "data_section m"], of "\<lambda>_. 0"] a(4) by simp
      with e j new_slot_ok [OF a(3,1) fns j(2)] show ?thesis
        by (auto simp: sp a(6) engine_ok_def)
    qed
  qed
qed

lemma run_module_ok:
  assumes "jit_safe jc" shows "keeps engine_ok (run_module jc n fuel fe bytes entry args)"
  unfolding run_module_def
proof (rule keeps_sbind [OF spawn_ok [OF assms]], rule keepsI)
  fix h and e :: "'a engine" assume "engine_ok e"
  then have "engine_ok (snd (drain n fuel fe h (start_task fuel fe h entry args e)))"
    by (intro drain_ok keepsD [OF start_task_ok])
  then show "engine_ok (snd (case drain n fuel fe h (start_task fuel fe h entry args e) of
       (Ok (Completed v), e') \<Rightarrow> (Ok v, destroy h e') | (Ok Yielded, e') \<Rightarrow> (Panic, e') | (Err x, e') \<Rightarrow> (Err x, destroy h e')
     | (Panic, e') \<Rightarrow> (Panic, e') | (Hang, e') \<Rightarrow> (Hang, e')))"
    by (auto simp: destroy_ok split: prod.split result.split task_result.split)
qed

section \<open>Reachable engines\<close>

definition engine_boot :: "'d drivers \<Rightarrow> 'd kernel world \<Rightarrow> 'd engine" where
  "engine_boot drv w = \<lparr>pool = (\<lambda>_. BLANK_SLOT), slot_mem = (\<lambda>_ _. 0), registry = init_host_fns drv, jit_fill = 0, e_world = w\<rparr>"

text \<open>
  From boot, any sequence of engine operations with any arguments, between which the rest of the kernel
  may change its own state.
\<close>

inductive reachable :: "jit_compiler \<Rightarrow> 'd drivers \<Rightarrow> 'd engine \<Rightarrow> bool" for jc drv where
  reach_boot: "reachable jc drv (engine_boot drv w)"
| reach_spawn: "reachable jc drv e \<Longrightarrow> reachable jc drv (snd (spawn jc name bytes e))"
| reach_start: "reachable jc drv e \<Longrightarrow> reachable jc drv (snd (start_task fuel fe h entry args e))"
| reach_resume: "reachable jc drv e \<Longrightarrow> reachable jc drv (snd (resume_task fuel fe h e))"
| reach_destroy: "reachable jc drv e \<Longrightarrow> reachable jc drv (destroy h e)"
| reach_run: "reachable jc drv e \<Longrightarrow> reachable jc drv (snd (run_module jc n fuel fe bytes entry args e))"
| reach_kernel: "reachable jc drv e \<Longrightarrow> reachable jc drv (e\<lparr>e_world := w\<rparr>)"

lemma engine_boot_ok: "engine_ok (engine_boot drv w)"
  by (auto simp: engine_boot_def engine_ok_def BLANK_SLOT_def registered_host_safe)

lemma reachable_ok: "reachable jc drv e \<Longrightarrow> jit_safe jc \<Longrightarrow> engine_ok e"
proof (induction rule: reachable.induct)
  case (reach_kernel e w)
  then show ?case by (simp add: engine_ok_def)
qed (simp_all add: engine_boot_ok destroy_ok keepsD [OF spawn_ok] keepsD [OF start_task_ok] keepsD [OF resume_task_ok]
    keepsD [OF run_module_ok])

section \<open>Effects on the pool\<close>

text \<open>Entering a slot touches only that slot.\<close>

definition only_slot :: "nat \<Rightarrow> 'd engine \<Rightarrow> 'd engine \<Rightarrow> bool" where
  "only_slot h e0 e \<longleftrightarrow> (\<forall>i. i \<noteq> h \<longrightarrow> pool e i = pool e0 i \<and> slot_mem e i = slot_mem e0 i)
     \<and> active (pool e h) = active (pool e0 h) \<and> registry e = registry e0"

lemma run_slot_only: "only_slot h e (snd (run_slot h m e))"
  by (auto simp: run_slot_def with_interp_def only_slot_def split: prod.split option.split)

lemma only_slot_refl: "only_slot h e e"
  by (simp add: only_slot_def)

lemma start_task_only: "only_slot h e (snd (start_task fuel fe h entry args e))"
  by (auto simp: start_task_def run_first run_lift only_slot_refl run_slot_only split: option.split result.split)

lemma resume_task_only: "only_slot h e (snd (resume_task fuel fe h e))"
  by (auto simp: resume_task_def run_first only_slot_refl run_slot_only)

lemma only_slot_trans: "only_slot h a b \<Longrightarrow> only_slot h b c \<Longrightarrow> only_slot h a c"
  by (simp add: only_slot_def)

lemma drain_only: "only_slot h (snd re) (snd (drain n fuel fe h re))"
proof (induction n arbitrary: re)
  case 0
  then show ?case by (cases re) (simp add: only_slot_refl)
next
  case (Suc n)
  obtain r e where re: "re = (r, e)" by (cases re)
  show ?case
    using only_slot_trans [OF resume_task_only [of h e fuel fe] Suc.IH] by (simp add: re only_slot_refl)
qed

lemma free_slot_Some: "free_slot e = Some h \<longleftrightarrow> h < MAX_INSTANCES \<and> \<not> active (pool e h) \<and> (\<forall>i < h. active (pool e i))"
  by (auto simp: free_slot_def find_Some_iff MAX_INSTANCES_def)

lemma free_slot_None: "free_slot e = None \<longleftrightarrow> (\<forall>i < MAX_INSTANCES. active (pool e i))"
  by (auto simp: free_slot_def find_None_iff)

text \<open>A module with an exported function \<open>main\<close> that returns 42, and one data segment.\<close>

definition demo_module :: bytes where
  "demo_module = MAGIC @ VERSION @ concat (map section_bytes
     [(1, [1, 0x60, 0, 1, 0x7F]), (3, [1, 0]), (7, [1, 4, 0x6D, 0x61, 0x69, 0x6E, 0, 0]),
      (10, [1, 4, 0, 0x41, 42, 0x0B]), (11, [1, 0, 0x41, 2, 0x0B, 1, 0x2A])])"

definition demo_engine :: "unit engine" where
  "demo_engine = engine_boot demo_drivers (h_world (demo_host []))"

definition no_jit :: jit_compiler where
  "no_jit = (\<lambda>_ _ _. None)"

definition demo_sections :: module where
  "demo_sections = empty_module\<lparr>type_section := Some [1, 0x60, 0, 1, 0x7F], function_section := Some [1, 0],
     export_section := Some [1, 4, 0x6D, 0x61, 0x69, 0x6E, 0, 0], code_section := Some [1, 4, 0, 0x41, 42, 0x0B],
     data_section := Some [1, 0, 0x41, 2, 0x0B, 1, 0x2A]\<rparr>"

lemma load_demo: "load demo_module = Ok demo_sections"
  unfolding demo_module_def by (subst load_concat) (simp_all add: set_section_def demo_sections_def)

lemma demo_fields: "memory_section demo_sections = None" "import_section demo_sections = None"
  "data_section demo_sections = Some [1, 0, 0x41, 2, 0x0B, 1, 0x2A]"
  by (simp_all add: demo_sections_def empty_module_def)

lemmas parse_simps = interp_new_def parse_code_section_def parse_type_section_def parse_function_section_def read_u32_at_def
  read_i32_at_def read_u32_leb128_def read_i32_leb128_def limits slice_def

definition demo_instance :: "unit kernel interp" where
  "demo_instance = (case interp_new demo_sections 0 (\<lambda>_. 0) SLOT_BYTES (\<lambda>_. None) 0 (h_world (demo_host [])) of Ok s \<Rightarrow> s)"

lemma new_demo: "interp_new demo_sections 0 (\<lambda>_. 0) SLOT_BYTES (\<lambda>_. None) 0 (h_world (demo_host [])) = Ok demo_instance"
  by (simp add: demo_instance_def demo_sections_def empty_module_def parse_simps)

lemma init_demo: "init_data (Some [1, 0, 0x41, 2, 0x0B, 1, 0x2A]) (\<lambda>_. 0) = (Ok (), (\<lambda>_. 0)(2 := 0x2A))"
  by (simp add: init_data_def init_memory_def init_segment_def sm_defs parse_simps Let_def SLOT_BYTES_def MAX_MEM_PAGES_def
      saturating_add_usize_def of_i32_def mem_write_def fun_eq_iff)

lemma compile_none: "compile_jit no_jit s fill = ((if import_count s > MAX_FUNCS then Panic else Ok (s, fill)) :: ('e, _) result)"
proof -
  have "jit_loop no_jit s k bi fill fns = (Ok (fns, fill) :: ('e, _) result)" for k bi fns
    by (induction k arbitrary: bi) (simp_all add: no_jit_def)
  then show ?thesis by (simp add: compile_jit_def)
qed

lemma spawn_demo: "spawn no_jit nm demo_module demo_engine = (Ok 0, demo_engine\<lparr>slot_mem := (slot_mem demo_engine)(0 := (\<lambda>_. 0)(2 := 0x2A)),
   jit_fill := 0, pool := (pool demo_engine)(0 := \<lparr>active = True, slot_name = take MAX_INST_NAME nm, mem_pages = 0,
     slot_inst = Some \<lparr>inst_bytes = demo_module, inst_interp = demo_instance\<rparr>\<rparr>)\<rparr>)"
proof -
  have "free_slot demo_engine = Some 0"
    by (simp add: free_slot_Some demo_engine_def engine_boot_def BLANK_SLOT_def MAX_INSTANCES_def)
  moreover have "jit_fill demo_engine = 0" "e_world demo_engine = h_world (demo_host [])"
    by (simp_all add: demo_engine_def engine_boot_def)
  moreover have "import_count demo_instance = 0" using interp_new_fields [OF new_demo] by simp
  ultimately show ?thesis
    by (simp add: spawn_def spawn_into_def sm_defs load_demo demo_fields count_func_imports_def
        resolve_imports_def new_demo init_slot_def init_demo compile_none)
qed

lemma demo_engine_ok: "engine_ok demo_engine"
  by (simp add: demo_engine_def engine_boot_ok)

lemma find_demo: "find_export demo_sections (str_bytes ''main'') = Ok 0"
  by (simp add: find_export_def demo_sections_def empty_module_def parse_simps str_bytes_def from_utf8_def utf8_valid.simps)

definition spawned_demo :: "bytes \<Rightarrow> unit engine" where
  "spawned_demo nm = snd (spawn no_jit nm demo_module demo_engine)"

lemma start_demo: "\<exists>e'. start_task 9 no_floats 0 (str_bytes ''main'') [] (spawned_demo nm) = (Ok (Completed (Some 42)), e')"
proof -
  have world: "e_world demo_engine = h_world (demo_host [])" by (simp add: demo_engine_def engine_boot_def)
  let ?s = "demo_instance\<lparr>mem := (\<lambda>_. 0)(2 := 0x2A), world := h_world (demo_host [])\<rparr>"
  have "\<exists>s'. call 9 no_floats 0 (reset_for_call ?s) = (Ok (), s') \<and> top s' = Some 42"
    by (simp add: call_def reset_for_call_def demo_instance_def demo_sections_def empty_module_def parse_simps push_frame_def top_def
        type_arity_def exec_simps)
  then show ?thesis
    by (auto simp: spawned_demo_def spawn_demo start_task_def run_first run_lift load_demo
        find_demo run_slot_def with_interp_def task_outcome_def MAX_INSTANCES_def world)
qed

lemma run_demo: "\<exists>e'. run_module no_jit 1 9 no_floats demo_module (str_bytes ''main'') [] demo_engine = (Ok (Some 42), e')"
  using start_demo [of "[]"] by (auto simp: run_module_def sbind_def [of "spawn jc n b" for jc n b] spawn_demo spawned_demo_def)

section \<open>Properties\<close>



text \<open>
  C30: \<open>spawn\<close> allocates the lowest free slot and refuses when there is none. On success the slot becomes
  active under the (truncated) name, and its memory holds the module's data segments on zeroes, nothing
  of what the slot held before; every other slot keeps its instance and its memory. On failure no slot
  changes its status and no active slot its memory.
\<close>
theorem spawn_spec:
  assumes "engine_ok e" and "spawn jc name bytes e = (r, e')"
  shows "case r of
      Ok h \<Rightarrow> h < MAX_INSTANCES \<and> \<not> active (pool e h) \<and> (\<forall>i < h. active (pool e i))
        \<and> active (pool e' h) \<and> slot_name (pool e' h) = take MAX_INST_NAME name
        \<and> (\<exists>m. load bytes = Ok m \<and> init_data (data_section m) (\<lambda>_. 0) = (Ok (), slot_mem e' h))
        \<and> (\<forall>i. i \<noteq> h \<longrightarrow> pool e' i = pool e i \<and> slot_mem e' i = slot_mem e i)
    | _ \<Rightarrow> pool e' = pool e \<and> (\<forall>i < MAX_INSTANCES. active (pool e i) \<longrightarrow> slot_mem e' i = slot_mem e i)"
proof (cases "\<exists>h. r = Ok h")
  case True
  then obtain h where r: "r = Ok h" by blast
  from assms(2) [unfolded r] show ?thesis
    by (rule spawn_Ok) (auto simp: r free_slot_Some)
next
  case False
  then have "only_free_memory e e'"
    using spawn_failed [OF only_free_memory_refl [OF assms(1)], of jc name bytes] assms(2) by auto
  then have "pool e' = pool e" "\<forall>i < MAX_INSTANCES. active (pool e i) \<longrightarrow> slot_mem e' i = slot_mem e i"
    by (auto simp: only_free_memory_def free_slot_Some)
  with False show ?thesis by (cases r) auto
qed

theorem spawn_spec_witness:
  "slot_name (pool (snd (spawn no_jit (str_bytes ''demo'') demo_module demo_engine)) 0) = str_bytes ''demo''
   \<and> slot_mem (snd (spawn no_jit (str_bytes ''demo'') demo_module demo_engine)) 0 2 = 0x2A"
  using spawn_spec [OF demo_engine_ok spawn_demo, of "str_bytes ''demo''"]
  by (simp add: spawn_demo MAX_INST_NAME_def str_bytes_def)



text \<open>
  \<open>run\<close> leaves nothing behind. When a module has been run to completion or to an error, every slot is
  as it was before: the slot used is free again with its memory zeroed, every other slot is untouched.
\<close>
theorem run_module_releases:
  assumes "engine_ok e" and "run_module jc n fuel fe bytes entry args e = (r, e')" and "r \<noteq> Panic" and "r \<noteq> Hang"
  shows "(\<forall>i < MAX_INSTANCES. active (pool e' i) = active (pool e i))
     \<and> (\<forall>i < MAX_INSTANCES. active (pool e i) \<longrightarrow> pool e' i = pool e i \<and> slot_mem e' i = slot_mem e i)"
proof -
  obtain s e1 where sp: "spawn jc [] bytes e = (s, e1)" by fastforce
  show ?thesis
  proof (cases "\<exists>h. s = Ok h")
    case False
    then have "only_free_memory e e1" and "e' = e1"
      using spawn_failed [OF only_free_memory_refl [OF assms(1)], of jc "[]" bytes] sp assms(2)
      by (cases s; auto simp: run_module_def sbind_def)+
    then show ?thesis by (auto simp: only_free_memory_def free_slot_Some)
  next
    case True
    then obtain h where s: "s = Ok h" by blast
    have h: "h < MAX_INSTANCES" "\<not> active (pool e h)" "\<forall>i. i \<noteq> h \<longrightarrow> pool e1 i = pool e i \<and> slot_mem e1 i = slot_mem e i"
      "active (pool e1 h)"
      by (rule spawn_Ok [OF sp [unfolded s]]; auto simp: free_slot_Some)+
    obtain r2 e2 where d: "drain n fuel fe h (start_task fuel fe h entry args e1) = (r2, e2)" by fastforce
    have "only_slot h e1 e2"
      using only_slot_trans [OF start_task_only [of h e1 fuel fe entry args] drain_only] d by (metis snd_conv)
    moreover have "e' = destroy h e2"
      using assms(2-4) sp s d by (auto simp: run_module_def sbind_def split: result.splits task_result.splits)
    ultimately show ?thesis using h by (auto simp: only_slot_def destroy_def)
  qed
qed

theorem run_module_releases_witness:
  "fst (run_module no_jit 1 9 no_floats demo_module (str_bytes ''main'') [] demo_engine) = Ok (Some 42)
   \<and> \<not> active (pool (snd (run_module no_jit 1 9 no_floats demo_module (str_bytes ''main'') [] demo_engine)) 0)"
proof -
  obtain e' where run: "run_module no_jit 1 9 no_floats demo_module (str_bytes ''main'') [] demo_engine = (Ok (Some 42), e')"
    using run_demo by blast
  have "\<not> active (pool e' 0)"
    using run_module_releases [OF demo_engine_ok run]
    by (simp add: MAX_INSTANCES_def demo_engine_def engine_boot_def BLANK_SLOT_def)
  with run show ?thesis by simp
qed

text \<open>
  A module can panic the kernel while it is being instantiated: a data segment whose constant offset
  lies beyond the slot's region, here by one byte, makes the length computation underflow.
\<close>
theorem init_memory_panics:
  "fst (init_memory [1, 0, 0x41, 0x81, 0x80, 0x80, 0x01, 0x0B, 1, 0x2A] SLOT_BYTES m) = Panic"
  by (simp add: init_memory_def init_segment_def sm_defs parse_simps Let_def SLOT_BYTES_def MAX_MEM_PAGES_def
      saturating_add_usize_def of_i32_def)

end
