(* ===== verification/Imports.thy ===== *)
theory Imports
  imports Engine
begin

text \<open>
  The import section is parsed three times by independent code: \<open>count_func_imports\<close> (how many function
  indices are imports), \<open>for_each_func_import\<close> (their names, to resolve them) and
  \<open>parse_import_func_types\<close> (their types). Function indices are only meaningful if the three agree; here
  they are shown to, on every well-formed section, by reading each back from the encoding.
\<close>

section \<open>Bytes at a position\<close>

definition placed :: "bytes \<Rightarrow> nat \<Rightarrow> bytes \<Rightarrow> bool" where
  "placed bs cur xs \<longleftrightarrow> cur + length xs \<le> length bs \<and> take (length xs) (drop cur bs) = xs"

lemma placed_append: "placed bs cur (xs @ ys) \<longleftrightarrow> placed bs cur xs \<and> placed bs (cur + length xs) ys"
proof -
  have "take (length (xs @ ys)) (drop cur bs) = take (length xs) (drop cur bs) @ take (length ys) (drop (cur + length xs) bs)"
    by (simp add: take_add add.commute)
  moreover have "length (take (length xs) (drop cur bs)) = length xs" if "cur + length xs \<le> length bs"
    using that by simp
  ultimately show ?thesis by (auto simp: placed_def)
qed

lemma placed_Cons: "placed bs cur (x # ys) \<longleftrightarrow> cur < length bs \<and> bs ! cur = x \<and> placed bs (cur + 1) ys"
proof -
  have "placed bs cur [x] \<longleftrightarrow> cur < length bs \<and> bs ! cur = x"
    by (auto simp: placed_def take_Suc_conv_app_nth hd_drop_conv_nth take_Suc)
  then show ?thesis using placed_append [of bs cur "[x]" ys] by simp
qed

lemma placed_leb: "placed bs cur (write_leb128_u32 v) \<Longrightarrow> read_u32_at bs cur e = Ok (v, length (write_leb128_u32 v))"
proof -
  let ?w = "write_leb128_u32 v"
  assume "placed bs cur ?w"
  then have "bs = take cur bs @ ?w @ drop (cur + length ?w) bs" "length (take cur bs) = cur"
    by (auto simp: placed_def) (metis append_take_drop_id drop_drop add.commute)
  then show ?thesis using read_u32_at_written [of "take cur bs" v "drop (cur + length ?w) bs" e] by metis
qed

lemma placed_range: "placed bs cur nm \<Longrightarrow> get_range bs cur (cur + length nm) = Some nm"
  by (simp add: placed_def get_range_def)

lemma placed_end: "placed bs cur nm \<Longrightarrow> cur + length nm \<le> length bs"
  by (simp add: placed_def)

section \<open>Encoding\<close>

datatype import_desc = FuncImport u32 | TableImport u8 u32 "u32 option" | MemoryImport u32 "u32 option" | GlobalImport u8 u8

definition name_bytes :: "bytes \<Rightarrow> bytes" where
  "name_bytes nm = write_leb128_u32 (word_of_nat (length nm)) @ nm"

definition limits_bytes :: "u32 \<Rightarrow> u32 option \<Rightarrow> bytes" where
  "limits_bytes mn mx = (case mx of
       None \<Rightarrow> 0 # write_leb128_u32 mn
     | Some x \<Rightarrow> 1 # write_leb128_u32 mn @ write_leb128_u32 x)"

primrec desc_bytes :: "import_desc \<Rightarrow> bytes" where
  "desc_bytes (FuncImport ty) = 0 # write_leb128_u32 ty"
| "desc_bytes (TableImport rt mn mx) = 1 # rt # limits_bytes mn mx"
| "desc_bytes (MemoryImport mn mx) = 2 # limits_bytes mn mx"
| "desc_bytes (GlobalImport vt mt) = [3, vt, mt]"

type_synonym import = "bytes \<times> bytes \<times> import_desc"

definition import_bytes :: "import \<Rightarrow> bytes" where
  "import_bytes = (\<lambda>(m, n, d). name_bytes m @ name_bytes n @ desc_bytes d)"

definition import_ok :: "import \<Rightarrow> bool" where
  "import_ok = (\<lambda>(m, n, d). length m < 2 ^ 32 \<and> utf8_valid m \<and> length n < 2 ^ 32 \<and> utf8_valid n)"

definition encode_imports :: "import list \<Rightarrow> bytes" where
  "encode_imports imps = write_leb128_u32 (word_of_nat (length imps)) @ concat (map import_bytes imps)"

definition func_imports :: "import list \<Rightarrow> (bytes \<times> bytes \<times> u32) list" where
  "func_imports imps = concat (map (\<lambda>(m, n, d). case d of FuncImport ty \<Rightarrow> [(m, n, ty)] | _ \<Rightarrow> []) imps)"

lemma func_imports_Cons [simp]:
  "func_imports ((m, n, FuncImport ty) # imps) = (m, n, ty) # func_imports imps"
  "func_imports ((m, n, TableImport rt mn mx) # imps) = func_imports imps"
  "func_imports ((m, n, MemoryImport mn mx) # imps) = func_imports imps"
  "func_imports ((m, n, GlobalImport vt mt) # imps) = func_imports imps"
  "func_imports [] = []"
  by (simp_all add: func_imports_def)

section \<open>One import\<close>

lemma placed_name:
  assumes "placed bs cur (name_bytes nm)" and "length nm < 2 ^ 32"
  obtains w where "\<And>e :: 'e. read_u32_at bs cur e = Ok (word_of_nat (length nm), w)"
    and "cur + length (name_bytes nm) = cur + w + length nm" and "placed bs (cur + w) nm"
    and "cur + length (name_bytes nm) \<le> length bs"
proof (rule that)
  let ?w = "length (write_leb128_u32 (word_of_nat (length nm)))"
  have p: "placed bs cur (write_leb128_u32 (word_of_nat (length nm)))" "placed bs (cur + ?w) nm"
    using assms(1) by (simp_all add: name_bytes_def placed_append)
  show "read_u32_at bs cur e = Ok (word_of_nat (length nm), ?w)" for e :: 'e by (rule placed_leb [OF p(1)])
  show "placed bs (cur + ?w) nm" by (rule p(2))
  show "cur + length (name_bytes nm) = cur + ?w + length nm" by (simp add: name_bytes_def)
  show "cur + length (name_bytes nm) \<le> length bs" using assms(1) by (rule placed_end)
qed

lemma read_name_placed:
  assumes "placed bs cur (name_bytes nm)" and "length nm < 2 ^ 32" and "utf8_valid nm"
  shows "read_name bs cur = Ok (nm, cur + length (name_bytes nm))"
proof -
  obtain w where "\<And>e :: unit. read_u32_at bs cur e = Ok (word_of_nat (length nm), w)"
    "cur + length (name_bytes nm) = cur + w + length nm" "placed bs (cur + w) nm"
    using placed_name [OF assms(1,2), where 'e = unit] by blast
  with assms(2,3) placed_range [of bs "cur + w" nm] show ?thesis by (simp add: read_name_def from_utf8_def Let_def)
qed

lemma limits_placed:
  assumes "placed bs cur (limits_bytes mn mx)"
  shows "skip_limits bs cur = Ok (cur + length (limits_bytes mn mx))"
    and "count_limits bs cur = Ok (cur + length (limits_bytes mn mx))"
    and "import_limits bs cur = Ok (cur + length (limits_bytes mn mx))"
proof -
  let ?w = "write_leb128_u32 mn"
  have r1: "read_u32_at bs (Suc cur) e = Ok (mn, length ?w)" for e :: 'e
    using assms by (intro placed_leb) (auto simp: limits_bytes_def placed_Cons placed_append split: option.splits)
  have r2: "read_u32_at bs (Suc (cur + length ?w)) e = Ok (x, length (write_leb128_u32 x))" if "mx = Some x" for e :: 'e and x
    using assms that by (intro placed_leb) (auto simp: limits_bytes_def placed_Cons placed_append)
  have "cur < length bs" and "bs ! cur = (case mx of None \<Rightarrow> 0 | Some _ \<Rightarrow> 1)"
    using assms by (auto simp: limits_bytes_def placed_Cons split: option.splits)
  then show "skip_limits bs cur = Ok (cur + length (limits_bytes mn mx))"
    and "count_limits bs cur = Ok (cur + length (limits_bytes mn mx))"
    and "import_limits bs cur = Ok (cur + length (limits_bytes mn mx))"
    by (cases mx; simp add: skip_limits_def count_limits_def import_limits_def get_at_def r1 r2 limits_bytes_def)+
qed

text \<open>The bytes of one import, and where each part of it stands.\<close>

lemma placed_import:
  assumes "placed bs cur (import_bytes (m, n, d))"
  shows "placed bs cur (name_bytes m)" "placed bs (cur + length (name_bytes m)) (name_bytes n)"
    "placed bs (cur + length (name_bytes m) + length (name_bytes n)) (desc_bytes d)"
    "cur + length (import_bytes (m, n, d)) = cur + length (name_bytes m) + length (name_bytes n) + length (desc_bytes d)"
  using assms by (simp_all add: import_bytes_def placed_append add.assoc)

lemma placed_desc:
  assumes "placed bs c (desc_bytes d)"
  shows "c < length bs"
    and "\<And>ty. d = FuncImport ty \<Longrightarrow> bs ! c = 0 \<and> read_u32_at bs (Suc c) e = Ok (ty, length (write_leb128_u32 ty))"
    and "\<And>rt mn mx. d = TableImport rt mn mx \<Longrightarrow> bs ! c = 1
       \<and> skip_limits bs (Suc (Suc c)) = Ok (Suc (Suc c) + length (limits_bytes mn mx))
       \<and> count_limits bs (Suc (Suc c)) = Ok (Suc (Suc c) + length (limits_bytes mn mx))
       \<and> import_limits bs (Suc (Suc c)) = Ok (Suc (Suc c) + length (limits_bytes mn mx))"
    and "\<And>mn mx. d = MemoryImport mn mx \<Longrightarrow> bs ! c = 2
       \<and> skip_limits bs (Suc c) = Ok (Suc c + length (limits_bytes mn mx))
       \<and> count_limits bs (Suc c) = Ok (Suc c + length (limits_bytes mn mx))
       \<and> import_limits bs (Suc c) = Ok (Suc c + length (limits_bytes mn mx))"
    and "\<And>vt mt. d = GlobalImport vt mt \<Longrightarrow> bs ! c = 3"
  using assms by (cases d; auto simp: placed_Cons placed_leb limits_placed)+

lemma import_loop_step:
  assumes "placed bs cur (import_bytes (m, n, d))" and "import_ok (m, n, d)"
  shows "import_loop bs f (Suc k) cur acc = import_loop bs f k (cur + length (import_bytes (m, n, d)))
     (case d of FuncImport ty \<Rightarrow> f m n acc | _ \<Rightarrow> acc)"
proof -
  define c where "c = cur + length (name_bytes m) + length (name_bytes n)"
  note p = placed_import [OF assms(1), folded c_def]
  note names = read_name_placed [OF p(1)] read_name_placed [OF p(2), folded c_def]
  note d = placed_desc [OF p(3)]
  show ?thesis
    unfolding p(4) using assms(2) d(1) by (cases d) (simp_all add: names import_ok_def get_at_def d(2-5))
qed

lemma placed_names:
  assumes "placed bs cur (import_bytes (m, n, d))" and "import_ok (m, n, d)"
  obtains w v where "\<And>e :: 'e. read_u32_at bs cur e = Ok (word_of_nat (length m), w)"
    "\<And>e :: 'e. read_u32_at bs (cur + w + length m) e = Ok (word_of_nat (length n), v)"
    "cur + w + length m + v + length n = cur + length (name_bytes m) + length (name_bytes n)"
    "cur + w + length m \<le> length bs"
proof -
  note p = placed_import [OF assms(1)]
  have l: "length m < 2 ^ 32" "length n < 2 ^ 32" using assms(2) by (simp_all add: import_ok_def)
  obtain w where w: "\<And>e :: 'e. read_u32_at bs cur e = Ok (word_of_nat (length m), w)"
    "cur + length (name_bytes m) = cur + w + length m" "cur + length (name_bytes m) \<le> length bs"
    using placed_name [OF p(1) l(1), where 'e = 'e] by blast
  obtain v where v: "\<And>e :: 'e. read_u32_at bs (cur + length (name_bytes m)) e = Ok (word_of_nat (length n), v)"
    "cur + length (name_bytes m) + length (name_bytes n) = cur + length (name_bytes m) + v + length n"
    using placed_name [OF p(2) l(2), where 'e = 'e] by blast
  show ?thesis by (rule that [of w v]) (use w v in \<open>simp_all add: add.assoc\<close>)
qed

lemma count_loop_step:
  assumes "placed bs cur (import_bytes (m, n, d))" and "import_ok (m, n, d)"
  shows "count_loop bs (Suc k) cur c = count_loop bs k (cur + length (import_bytes (m, n, d)))
     (case d of FuncImport ty \<Rightarrow> c + 1 | _ \<Rightarrow> c)"
proof -
  define q where "q = cur + length (name_bytes m) + length (name_bytes n)"
  note p = placed_import [OF assms(1), folded q_def]
  note d = placed_desc [OF p(3)]
  obtain w v where r: "\<And>e :: unit. read_u32_at bs cur e = Ok (word_of_nat (length m), w)"
    "\<And>e :: unit. read_u32_at bs (cur + w + length m) e = Ok (word_of_nat (length n), v)"
    "cur + w + length m + v + length n = q" "cur + w + length m \<le> length bs"
    unfolding q_def using placed_names [OF assms, where 'e = unit] by blast
  show ?thesis
    unfolding p(4) using assms(2) d(1) r(4) by (cases d) (simp_all add: r(1-3) import_ok_def d(2-5))
qed

lemma import_types_step:
  assumes "placed bs cur (import_bytes (m, n, d))" and "import_ok (m, n, d)"
  shows "import_types_loop bs (Suc k) cur c out = import_types_loop bs k (cur + length (import_bytes (m, n, d)))
     (case d of FuncImport ty \<Rightarrow> c + 1 | _ \<Rightarrow> c)
     (case d of FuncImport ty \<Rightarrow> if c < MAX_FUNCS then out(c := unat ty) else out | _ \<Rightarrow> out)"
proof -
  define q where "q = cur + length (name_bytes m) + length (name_bytes n)"
  note p = placed_import [OF assms(1), folded q_def]
  note d = placed_desc [OF p(3)]
  obtain w v where r: "\<And>e :: interp_error. read_u32_at bs cur e = Ok (word_of_nat (length m), w)"
    "\<And>e :: interp_error. read_u32_at bs (cur + w + length m) e = Ok (word_of_nat (length n), v)"
    "cur + w + length m + v + length n = q" "cur + w + length m \<le> length bs"
    unfolding q_def using placed_names [OF assms, where 'e = interp_error] by blast
  show ?thesis
    unfolding p(4) using assms(2) d(1) r(4) by (cases d) (simp_all add: r(1-3) import_ok_def d(2-5))
qed

section \<open>The whole section\<close>

lemma placed_imports_Cons:
  "placed bs cur (concat (map import_bytes (i # imps))) \<longleftrightarrow>
     placed bs cur (import_bytes i) \<and> placed bs (cur + length (import_bytes i)) (concat (map import_bytes imps))"
  by (simp add: placed_append)

definition set_types :: "nat \<Rightarrow> u32 list \<Rightarrow> nat arr \<Rightarrow> nat arr" where
  "set_types c tys out = (\<lambda>i. if c \<le> i \<and> i < c + length tys \<and> i < MAX_FUNCS then unat (tys ! (i - c)) else out i)"

lemma set_types_Cons:
  "set_types (c + 1) tys (if c < MAX_FUNCS then out(c := unat ty) else out) = set_types c (ty # tys) out"
  by (rule ext) (auto simp: set_types_def nth_Cons' Suc_diff_le)

lemma import_parsers_loop:
  assumes "placed bs cur (concat (map import_bytes imps))" and "\<forall>i \<in> set imps. import_ok i"
  shows "count_loop bs (length imps) cur c = Ok (c + length (func_imports imps))"
    and "import_loop bs f (length imps) cur acc = (Ok (), fold (\<lambda>(m, n, ty). f m n) (func_imports imps) acc)"
    and "import_types_loop bs (length imps) cur c out
       = Ok (c + length (func_imports imps), set_types c (map (\<lambda>(m, n, ty). ty) (func_imports imps)) out)"
  using assms
proof (induction imps arbitrary: cur c acc out)
  case Nil
  { case 1 then show ?case by simp }
  { case 2 then show ?case by simp }
  { case 3 then show ?case by (auto simp: set_types_def) }
next
  case (Cons i imps)
  obtain m n d where i: "i = (m, n, d)" by (cases i)
  have here: "placed bs cur (import_bytes (m, n, d))" "import_ok (m, n, d)"
    if "placed bs cur (concat (map import_bytes (i # imps)))" "\<forall>i \<in> set (i # imps). import_ok i" for cur
    using that by (simp_all add: i placed_append)
  have next_at: "placed bs (cur + length (import_bytes (m, n, d))) (concat (map import_bytes imps))"
    if "placed bs cur (concat (map import_bytes (i # imps)))" for cur
    using that by (simp add: i placed_append)
  { case 1
    then have IH: "\<forall>i \<in> set imps. import_ok i" by simp
    show ?case
      using Cons.IH(1) [OF next_at [OF 1(1)] IH]
      by (cases d) (simp_all add: i count_loop_step [OF here [OF 1]] del: count_loop.simps) }
  { case 2
    then have IH: "\<forall>i \<in> set imps. import_ok i" by simp
    show ?case
      using Cons.IH(2) [OF next_at [OF 2(1)] IH]
      by (cases d) (simp_all add: i import_loop_step [OF here [OF 2]] del: import_loop.simps) }
  { case 3
    then have IH: "\<forall>i \<in> set imps. import_ok i" by simp
    show ?case
      using Cons.IH(3) [OF next_at [OF 3(1)] IH] set_types_Cons [of c]
      by (cases d) (simp_all add: i import_types_step [OF here [OF 3]] del: import_types_loop.simps) }
qed

lemma import_parsers_section:
  assumes "\<forall>i \<in> set imps. import_ok i" and "length imps < 2 ^ 32"
  shows "count_func_imports (Some (encode_imports imps)) = Ok (length (func_imports imps))"
    and "for_each_func_import (encode_imports imps) f acc = Ok (fold (\<lambda>(m, n, ty). f m n) (func_imports imps) acc)"
    and "parse_import_func_types (encode_imports imps) out
       = Ok (length (func_imports imps), set_types 0 (map (\<lambda>(m, n, ty). ty) (func_imports imps)) out)"
proof -
  let ?w = "write_leb128_u32 (word_of_nat (length imps))" and ?bs = "encode_imports imps"
  have r: "read_u32_leb128 ?bs = Some (word_of_nat (length imps), length ?w)"
    by (simp add: encode_imports_def)
  have "placed ?bs (length ?w) (concat (map import_bytes imps))"
    by (simp add: encode_imports_def placed_def)
  note loops = import_parsers_loop [OF this assms(1)]
  show "count_func_imports (Some ?bs) = Ok (length (func_imports imps))"
    and "for_each_func_import ?bs f acc = Ok (fold (\<lambda>(m, n, ty). f m n) (func_imports imps) acc)"
    and "parse_import_func_types ?bs out
       = Ok (length (func_imports imps), set_types 0 (map (\<lambda>(m, n, ty). ty) (func_imports imps)) out)"
    using assms(2) by (simp_all add: count_func_imports_def for_each_func_import_def parse_import_func_types_def r loops)
qed

section \<open>Properties\<close>

text \<open>
  C31: The three parsers of the import section agree. On every well-formed section, the count that splits
  the function index space, the sequence of names that is resolved against the host registry and the type
  indices recorded for calls all describe the same functions in the same order, whatever tables, memories
  and globals are imported between them.
\<close>
theorem import_parsers_agree:
  assumes "\<forall>i \<in> set imps. import_ok i" and "length imps < 2 ^ 32" and "fs = func_imports imps" and "length fs \<le> MAX_FUNCS"
  shows "count_func_imports (Some (encode_imports imps)) = Ok (length fs)
     \<and> for_each_func_import (encode_imports imps) (\<lambda>m n acc. acc @ [(m, n)]) [] = Ok (map (\<lambda>(m, n, ty). (m, n)) fs)
     \<and> (\<exists>out. parse_import_func_types (encode_imports imps) (\<lambda>_. 0) = Ok (length fs, out)
          \<and> (\<forall>i < length fs. out i = unat (snd (snd (fs ! i)))))"
proof -
  have names: "fold (\<lambda>(m, n, ty) acc. acc @ [(m, n)]) xs acc = acc @ map (\<lambda>(m, n, ty). (m, n)) xs"
    for xs :: "(bytes \<times> bytes \<times> u32) list" and acc
    by (induction xs arbitrary: acc) auto
  show ?thesis
    using assms(3,4) names [of "func_imports imps" "[]"]
    by (auto simp: import_parsers_section [OF assms(1,2)] set_types_def case_prod_beta)
qed

theorem import_parsers_agree_witness:
  "count_func_imports (Some (encode_imports [(str_bytes ''env'', str_bytes ''tab'', TableImport 0x70 1 (Some 2)),
       (str_bytes ''env'', str_bytes ''print'', FuncImport 3)])) = (Ok 1 :: (unit, nat) result)"
  by (rule trans [OF import_parsers_agree [THEN conjunct1, OF _ _ refl]])
    (simp_all add: import_ok_def str_bytes_def utf8_valid.simps MAX_FUNCS_def)

end
