(* ===== verification/Tasks.thy ===== *)
theory Tasks
  imports Engine
begin

text \<open>
  Cooperative tasks (\<open>kernel/src/wasm/task.rs\<close>) and the round-robin choice of the next one
  (\<open>run_next_task\<close> of \<open>kernel/src/scheduler.rs\<close>): the queue of tasks, each owning a slot of the engine's
  pool, and their states. The timer tick count is read from the devices.
\<close>

section \<open>State\<close>

definition MAX_TASKS :: nat where "MAX_TASKS = MAX_INSTANCES"
definition MAX_NAME :: nat where "MAX_NAME = 32"
definition MAX_TASK_ARGS :: nat where "MAX_TASK_ARGS = 8"

datatype task_state = Ready | Running | Suspended | Sleeping u64 | Done

text \<open>\<open>t_name\<close> and \<open>wasm_args\<close> are the prefixes in use of the fixed arrays.\<close>

record task =
  t_state :: task_state
  t_instance :: nat
  t_name :: bytes
  wasm_args :: "i32 list"

text \<open>\<open>cursor\<close> is the task stepped last, \<open>render\<close> whether a redraw of the prompt has been requested.\<close>

record 'd sched =
  queue :: "task option arr"
  eng :: "'d engine"
  cursor :: nat
  render :: bool

definition now :: "'d drivers \<Rightarrow> 'd sched \<Rightarrow> u64" where
  "now drv s = ticks drv (dev (kernel (e_world (eng s))))"

definition set_state :: "nat \<Rightarrow> task_state \<Rightarrow> 'd sched \<Rightarrow> 'd sched" where
  "set_state tid st s = s\<lparr>queue := (queue s)(tid := map_option (\<lambda>t. t\<lparr>t_state := st\<rparr>) (queue s tid))\<rparr>"

section \<open>Operations\<close>

definition free_task :: "'d sched \<Rightarrow> nat option" where
  "free_task s = List.find (\<lambda>i. queue s i = None) [0..<MAX_TASKS]"

definition task_spawn :: "jit_compiler \<Rightarrow> bytes \<Rightarrow> bytes \<Rightarrow> i32 list \<Rightarrow> 'd sched \<Rightarrow> (run_error, nat) result \<times> 'd sched" where
  "task_spawn jc name bytes args s =
     (case free_task s of
        None \<Rightarrow> (Err PoolFull, s)
      | Some slot \<Rightarrow>
          (case spawn jc name bytes (eng s) of
             (Ok inst, e) \<Rightarrow> (Ok slot, s\<lparr>eng := e, queue := (queue s)(slot := Some \<lparr>t_state = Ready, t_instance = inst,
               t_name = take MAX_NAME name, wasm_args = take MAX_TASK_ARGS args\<rparr>)\<rparr>)
           | (Err x, e) \<Rightarrow> (Err x, s\<lparr>eng := e\<rparr>)
           | (Panic, e) \<Rightarrow> (Panic, s\<lparr>eng := e\<rparr>)
           | (Hang, e) \<Rightarrow> (Hang, s\<lparr>eng := e\<rparr>)))"

definition drop_task :: "nat \<Rightarrow> 'd sched \<Rightarrow> 'd sched" where
  "drop_task tid s = (case queue s tid of
       None \<Rightarrow> s
     | Some t \<Rightarrow> s\<lparr>eng := destroy (t_instance t) (eng s), queue := (queue s)(tid := None)\<rparr>)"

definition task_kill :: "nat \<Rightarrow> 'd sched \<Rightarrow> 'd sched" where
  "task_kill tid s = (if tid \<ge> MAX_TASKS then s else drop_task tid s)"

definition task_state_of :: "nat \<Rightarrow> 'd sched \<Rightarrow> task_state option" where
  "task_state_of tid s = (if tid \<ge> MAX_TASKS then None else map_option t_state (queue s tid))"

definition is_task_runnable :: "'d drivers \<Rightarrow> nat \<Rightarrow> 'd sched \<Rightarrow> bool" where
  "is_task_runnable drv tid s =
     (if tid \<ge> MAX_TASKS then False
      else case map_option t_state (queue s tid) of
        Some Ready \<Rightarrow> True
      | Some Suspended \<Rightarrow> True
      | Some (Sleeping wake) \<Rightarrow> now drv s \<ge> wake
      | _ \<Rightarrow> False)"

text \<open>The state update after a step that ended with \<open>r\<close>; \<open>ticks() + (sleep_ms + 9) / 10\<close> is checked addition.\<close>

definition settle :: "'d drivers \<Rightarrow> nat \<Rightarrow> (run_error, task_result) result \<Rightarrow> 'd sched
    \<Rightarrow> (run_error, task_result) result \<times> 'd sched" where
  "settle drv tid r s = (case r of
       Ok (Completed v) \<Rightarrow> (r, drop_task tid s)
     | Ok Yielded \<Rightarrow>
         (let w = e_world (eng s);
              (sleep_ms, k) = take_pending_sleep_ms (kernel w);
              s = s\<lparr>eng := (eng s)\<lparr>e_world := w\<lparr>kernel := k\<rparr>\<rparr>\<rparr> in
          if sleep_ms > 0 then
            (let delay = (unat sleep_ms + 9) div 10 in
             if unat (now drv s) + delay \<ge> 2 ^ 64 then (Panic, s)
             else (r, set_state tid (Sleeping (now drv s + word_of_nat delay)) s))
          else (r, set_state tid Suspended s))
     | Err e \<Rightarrow> (r, drop_task tid s)
     | Panic \<Rightarrow> (r, s)
     | Hang \<Rightarrow> (r, s))"

definition with_engine :: "('d, 'a) em \<Rightarrow> 'd sched \<Rightarrow> (run_error, 'a) result \<times> 'd sched" where
  "with_engine m s = (case m (eng s) of (r, e) \<Rightarrow> (r, s\<lparr>eng := e\<rparr>))"

text \<open>Wake a sleeping task whose time has come; \<open>None\<close> if it still sleeps.\<close>

definition wake_task :: "'d drivers \<Rightarrow> nat \<Rightarrow> 'd sched \<Rightarrow> 'd sched option" where
  "wake_task drv tid s =
     (case queue s tid of
        None \<Rightarrow> Some s
      | Some t \<Rightarrow>
          (case t_state t of
             Sleeping wake \<Rightarrow> if now drv s \<ge> wake then Some (set_state tid Suspended s) else None
           | _ \<Rightarrow> Some s))"

definition settled :: "'d drivers \<Rightarrow> nat \<Rightarrow> (run_error, task_result) result \<times> 'd sched
    \<Rightarrow> (run_error, task_result) result option \<times> 'd sched" where
  "settled drv tid = (\<lambda>(r, s). case settle drv tid r s of (r', s') \<Rightarrow> (Some r', s'))"

text \<open>\<open>None\<close> when the slot is empty or the task cannot run.\<close>

definition task_step :: "'d drivers \<Rightarrow> nat \<Rightarrow> float_env \<Rightarrow> nat \<Rightarrow> 'd sched
    \<Rightarrow> (run_error, task_result) result option \<times> 'd sched" where
  "task_step drv fuel fe tid s =
     (if tid \<ge> MAX_TASKS then (None, s)
      else case wake_task drv tid s of
        None \<Rightarrow> (None, s)
      | Some s \<Rightarrow>
          (case queue s tid of
             None \<Rightarrow> (None, s)
           | Some t \<Rightarrow>
               (case t_state t of
                  Ready \<Rightarrow> settled drv tid
                    (with_engine (start_task fuel fe (t_instance t) (str_bytes ''main'') (wasm_args t)) (set_state tid Running s))
                | Suspended \<Rightarrow> settled drv tid (with_engine (resume_task fuel fe (t_instance t)) (set_state tid Running s))
                | _ \<Rightarrow> (None, s))))"

definition for_each_task :: "(nat \<Rightarrow> bytes \<Rightarrow> task_state \<Rightarrow> 'a \<Rightarrow> 'a) \<Rightarrow> 'd sched \<Rightarrow> 'a \<Rightarrow> 'a" where
  "for_each_task f s acc =
     fold (\<lambda>i acc. case queue s i of
         None \<Rightarrow> acc
       | Some t \<Rightarrow> f i (case from_utf8 (t_name t) of Some n \<Rightarrow> n | None \<Rightarrow> str_bytes ''?'') (t_state t) acc)
       [0..<MAX_TASKS] acc"

section \<open>The scheduler\<close>

text \<open>\<open>println!\<close> to the console.\<close>

definition log_line :: "bytes \<Rightarrow> 'd sched \<Rightarrow> 'd sched" where
  "log_line bs s = s\<lparr>eng := (eng s)\<lparr>e_world := (e_world (eng s))\<lparr>kernel := (kernel (e_world (eng s)))
     \<lparr>console := console (kernel (e_world (eng s))) @ bs @ [0x0A]\<rparr>\<rparr>\<rparr>\<rparr>"

definition task_label :: "nat \<Rightarrow> bytes" where
  "task_label tid = str_bytes ''[task '' @ [0x30 + word_of_nat tid] @ str_bytes '']''"

text \<open>\<open>for i in 0..MAX_TASKS { let id = (start + i) % MAX_TASKS; if is_task_runnable(id) { .. return true } }\<close>\<close>

definition next_task :: "'d drivers \<Rightarrow> 'd sched \<Rightarrow> nat option" where
  "next_task drv s =
     List.find (\<lambda>tid. is_task_runnable drv tid s)
       (map (\<lambda>i. ((cursor s + 1) mod MAX_TASKS + i) mod MAX_TASKS) [0..<MAX_TASKS])"

definition run_next_task :: "'d drivers \<Rightarrow> nat \<Rightarrow> float_env \<Rightarrow> 'd sched \<Rightarrow> (run_error, bool) result \<times> 'd sched" where
  "run_next_task drv fuel fe s =
     (case next_task drv s of
        None \<Rightarrow> (Ok False, s)
      | Some tid \<Rightarrow>
          (case task_step drv fuel fe tid (s\<lparr>cursor := tid\<rparr>) of
             (Some (Ok (Completed v)), s') \<Rightarrow> (Ok True, (log_line (task_label tid @ str_bytes '' done'') s')\<lparr>render := True\<rparr>)
           | (Some (Err x), s') \<Rightarrow>
               (Ok True, (log_line (task_label tid @ str_bytes '' error: '' @ str_bytes (run_error_as_str x)) s')\<lparr>render := True\<rparr>)
           | (Some Panic, s') \<Rightarrow> (Panic, s')
           | (Some Hang, s') \<Rightarrow> (Hang, s')
           | (_, s') \<Rightarrow> (Ok True, s')))"

section \<open>Ownership of slots\<close>

text \<open>
  Tasks and active slots correspond one to one: every task owns an active slot, no two tasks the same
  one, and every active slot belongs to a task.
\<close>

definition owns :: "'d sched \<Rightarrow> bool" where
  "owns s \<longleftrightarrow> engine_ok (eng s) \<and> cursor s < MAX_TASKS
     \<and> (\<forall>i t. queue s i = Some t \<longrightarrow> i < MAX_TASKS \<and> t_instance t < MAX_INSTANCES \<and> active (pool (eng s) (t_instance t)))
     \<and> (\<forall>i j t u. queue s i = Some t \<and> queue s j = Some u \<and> t_instance t = t_instance u \<longrightarrow> i = j)
     \<and> (\<forall>h < MAX_INSTANCES. active (pool (eng s) h) \<longrightarrow> (\<exists>i t. queue s i = Some t \<and> t_instance t = h))"

text \<open>Between steps no task is running and none is kept after it is done.\<close>

definition at_rest :: "task_state \<Rightarrow> bool" where
  "at_rest st \<longleftrightarrow> st \<noteq> Running \<and> st \<noteq> Done"

definition tasks_ok :: "'d sched \<Rightarrow> bool" where
  "tasks_ok s \<longleftrightarrow> owns s \<and> (\<forall>i t. queue s i = Some t \<longrightarrow> at_rest (t_state t))"

lemma queue_set_state: "queue (set_state tid st s) i =
    (if i = tid then map_option (\<lambda>t. t\<lparr>t_state := st\<rparr>) (queue s i) else queue s i)"
  "eng (set_state tid st s) = eng s" "cursor (set_state tid st s) = cursor s"
  by (simp_all add: set_state_def)

lemma now_set_state [simp]: "now drv (set_state tid st s) = now drv s"
  by (simp add: now_def queue_set_state)

lemma owns_set_state: "owns s \<Longrightarrow> owns (set_state tid st s)"
proof -
  assume o: "owns s"
  have q: "queue (set_state tid st s) i = Some t \<Longrightarrow> \<exists>u. queue s i = Some u \<and> t_instance t = t_instance u" for i t
    by (auto simp: queue_set_state split: if_splits)
  have q': "queue s i = Some u \<Longrightarrow> \<exists>t. queue (set_state tid st s) i = Some t \<and> t_instance t = t_instance u" for i u
    by (auto simp: queue_set_state)
  show ?thesis
    using o unfolding owns_def queue_set_state(2,3)
    by (intro conjI allI impI; (blast | use q q' in metis))
qed

lemma owns_engine:
  assumes "owns s" and "engine_ok e" and "\<forall>i. active (pool e i) = active (pool (eng s) i)"
  shows "owns (s\<lparr>eng := e\<rparr>)"
  using assms by (simp add: owns_def)

lemma owns_drop:
  assumes "owns s" shows "owns (drop_task tid s)"
proof (cases "queue s tid")
  case None
  then show ?thesis using assms by (simp add: drop_task_def)
next
  case (Some t)
  have inst: "t_instance t < MAX_INSTANCES" "active (pool (eng s) (t_instance t))" using assms Some by (auto simp: owns_def)
  have active: "active (pool (destroy (t_instance t) (eng s)) h) \<longleftrightarrow> active (pool (eng s) h) \<and> h \<noteq> t_instance t" for h
    using inst by (simp add: destroy_def)
  have other: "t_instance u \<noteq> t_instance t" if "queue s i = Some u" "i \<noteq> tid" for i u
    using assms Some that unfolding owns_def by metis
  have eng: "engine_ok (destroy (t_instance t) (eng s))" using assms by (simp add: owns_def destroy_ok)
  have drop: "drop_task tid s = s\<lparr>eng := destroy (t_instance t) (eng s), queue := (queue s)(tid := None)\<rparr>"
    using Some by (simp add: drop_task_def)
  have "i < MAX_TASKS \<and> t_instance u < MAX_INSTANCES \<and> active (pool (eng s) (t_instance u)) \<and> t_instance u \<noteq> t_instance t"
    if "i \<noteq> tid" "queue s i = Some u" for i u
    using assms other that by (auto simp: owns_def)
  moreover have "\<exists>i u. i \<noteq> tid \<and> queue s i = Some u \<and> t_instance u = h"
    if "h < MAX_INSTANCES" "active (pool (eng s) h)" "h \<noteq> t_instance t" for h
    using assms Some that unfolding owns_def by (metis option.inject)
  moreover have "i = j" if "queue s i = Some u" "queue s j = Some v" "t_instance u = t_instance v" for i j u v
    using assms that unfolding owns_def by blast
  moreover have "cursor s < MAX_TASKS" using assms by (simp add: owns_def)
  ultimately show ?thesis
    unfolding owns_def drop by (auto simp: eng active split: if_splits) blast+
qed

section \<open>Every operation keeps the correspondence\<close>

lemma owns_run:
  assumes "owns s" and "m = start_task fuel fe h entry args \<or> m = resume_task fuel fe h"
  shows "owns (snd (with_engine m s)) \<and> queue (snd (with_engine m s)) = queue s \<and> cursor (snd (with_engine m s)) = cursor s"
proof -
  have eng: "engine_ok (eng s)" using assms(1) by (simp add: owns_def)
  have "engine_ok (snd (m (eng s)))"
    using assms(2) keepsD [OF start_task_ok eng] keepsD [OF resume_task_ok eng] by blast
  moreover have "only_slot h (eng s) (snd (m (eng s)))"
    using assms(2) start_task_only resume_task_only by blast
  then have "\<forall>i. active (pool (snd (m (eng s))) i) = active (pool (eng s) i)" by (auto simp: only_slot_def)
  ultimately show ?thesis
    using owns_engine [OF assms(1)] by (cases "m (eng s)") (simp add: with_engine_def)
qed

lemma settle_ok:
  assumes "owns s" and "\<forall>i t. i \<noteq> tid \<longrightarrow> queue s i = Some t \<longrightarrow> at_rest (t_state t)" and "settle drv tid r s = (r', s')"
  shows "owns s' \<and> cursor s' = cursor s \<and> (\<forall>i. i \<noteq> tid \<longrightarrow> queue s' i = queue s i) \<and> (r' \<noteq> Panic \<and> r' \<noteq> Hang \<longrightarrow> tasks_ok s')"
proof -
  have drop: "owns (drop_task tid s)" "tasks_ok (drop_task tid s)" "cursor (drop_task tid s) = cursor s"
    "\<forall>i. i \<noteq> tid \<longrightarrow> queue (drop_task tid s) i = queue s i"
    using owns_drop [OF assms(1), of tid] assms(2)
    by (auto simp: tasks_ok_def drop_task_def split: option.splits if_splits) (metis option.distinct(1))+
  let ?w = "e_world (eng s)"
  let ?t = "s\<lparr>eng := (eng s)\<lparr>e_world := ?w\<lparr>kernel := snd (take_pending_sleep_ms (kernel ?w))\<rparr>\<rparr>\<rparr>"
  have t: "owns ?t" "queue ?t = queue s" "cursor ?t = cursor s"
    using assms(1) by (auto intro!: owns_engine simp: owns_def engine_ok_def)
  have set: "owns (set_state tid st ?t)" "at_rest st \<Longrightarrow> tasks_ok (set_state tid st ?t)" "cursor (set_state tid st ?t) = cursor s"
    "\<forall>i. i \<noteq> tid \<longrightarrow> queue (set_state tid st ?t) i = queue s i" for st
    using owns_set_state [OF t(1), of tid st] assms(2)
    by (auto simp: tasks_ok_def queue_set_state t split: if_splits)
  show ?thesis
  proof (cases r)
    case (Ok v)
    then show ?thesis
      using assms(3) drop t set
      by (cases v) (auto simp: settle_def Let_def split_beta at_rest_def split: if_splits)
  qed (use assms drop in \<open>auto simp: settle_def\<close>)
qed

lemma wake_task_ok:
  assumes "tasks_ok s" and "wake_task drv tid s = Some s'"
  shows "tasks_ok s' \<and> cursor s' = cursor s \<and> eng s' = eng s \<and> (\<forall>i. i \<noteq> tid \<longrightarrow> queue s' i = queue s i)"
  using assms owns_set_state [of s tid Suspended]
  by (auto simp: wake_task_def tasks_ok_def queue_set_state at_rest_def split: option.splits task_state.splits if_splits)

lemma task_step_ok:
  assumes "tasks_ok s" and "task_step drv fuel fe tid s = (r, s')"
  shows "owns s' \<and> cursor s' = cursor s \<and> (\<forall>i. i \<noteq> tid \<longrightarrow> queue s' i = queue s i)
     \<and> (r \<noteq> Some Panic \<and> r \<noteq> Some Hang \<longrightarrow> tasks_ok s')"
proof (cases "tid < MAX_TASKS \<and> wake_task drv tid s \<noteq> None")
  case False
  with assms show ?thesis by (auto simp: task_step_def tasks_ok_def split: option.splits)
next
  case True
  then obtain s1 where tid: "tid < MAX_TASKS" and w: "wake_task drv tid s = Some s1" by auto
  note s1 = wake_task_ok [OF assms(1) w]
  have run: "owns s' \<and> cursor s' = cursor s \<and> (\<forall>i. i \<noteq> tid \<longrightarrow> queue s' i = queue s i)
     \<and> (r \<noteq> Some Panic \<and> r \<noteq> Some Hang \<longrightarrow> tasks_ok s')"
    if m: "m = start_task fuel fe h entry args \<or> m = resume_task fuel fe h"
      and st: "settled drv tid (with_engine m (set_state tid Running s1)) = (r, s')" for m h entry args
  proof -
    let ?s2 = "snd (with_engine m (set_state tid Running s1))"
    have "owns (set_state tid Running s1)" using s1 by (intro owns_set_state) (simp add: tasks_ok_def)
    note s2 = owns_run [OF this m]
    have rest: "\<forall>i t. i \<noteq> tid \<longrightarrow> queue ?s2 i = Some t \<longrightarrow> at_rest (t_state t)"
      using s1 s2 by (auto simp: tasks_ok_def queue_set_state)
    obtain r1 r2 where r: "settle drv tid r1 ?s2 = (r2, s')" "r = Some r2"
      using st by (cases "with_engine m (set_state tid Running s1)") (auto simp: settled_def split: prod.splits)
    show ?thesis
      using settle_ok [OF _ rest r(1)] s1 s2 r(2) by (auto simp: queue_set_state)
  qed
  show ?thesis
  proof (cases "queue s1 tid")
    case None
    with assms(2) tid w s1 show ?thesis by (auto simp: task_step_def tasks_ok_def)
  next
    case (Some t)
    then have "(r, s') = (None, s1) \<or> settled drv tid (with_engine (resume_task fuel fe (t_instance t)) (set_state tid Running s1)) = (r, s')
        \<or> settled drv tid (with_engine (start_task fuel fe (t_instance t) (str_bytes ''main'') (wasm_args t)) (set_state tid Running s1)) = (r, s')"
      using assms(2) tid w by (cases "t_state t") (auto simp: task_step_def)
    then show ?thesis
    proof (elim disjE)
      assume "(r, s') = (None, s1)"
      then show ?thesis using s1 by (simp add: tasks_ok_def)
    qed (rule run; blast)+
  qed
qed

lemma free_task_Some: "free_task s = Some i \<longleftrightarrow> i < MAX_TASKS \<and> queue s i = None \<and> (\<forall>j < i. queue s j \<noteq> None)"
  by (auto simp: free_task_def find_Some_iff)

lemma task_spawn_ok:
  assumes "tasks_ok s" and "jit_safe jc"
  shows "tasks_ok (snd (task_spawn jc name bytes args s))"
proof (cases "free_task s")
  case None
  then show ?thesis using assms(1) by (simp add: task_spawn_def)
next
  case (Some slot)
  have eng: "engine_ok (eng s)" using assms(1) by (simp add: tasks_ok_def owns_def)
  obtain r e where sp: "spawn jc name bytes (eng s) = (r, e)" by fastforce
  have e: "engine_ok e" using keepsD [OF spawn_ok [OF assms(2)] eng, of name bytes] sp by simp
  show ?thesis
  proof (cases "\<exists>h. r = Ok h")
    case False
    then have "only_free_memory (eng s) e"
      using spawn_failed [OF only_free_memory_refl [OF eng], of jc name bytes] sp by auto
    then have "tasks_ok (s\<lparr>eng := e\<rparr>)"
      using assms(1) e by (auto simp: tasks_ok_def only_free_memory_def intro!: owns_engine)
    with False show ?thesis by (cases r) (auto simp: task_spawn_def Some sp)
  next
    case True
    then obtain h where r: "r = Ok h" by blast
    have h: "h < MAX_INSTANCES" "\<not> active (pool (eng s) h)" "\<forall>i. i \<noteq> h \<longrightarrow> pool e i = pool (eng s) i" "active (pool e h)"
      by (rule spawn_Ok [OF sp [unfolded r]]; auto simp: free_slot_Some)+
    have act: "active (pool e i) \<longleftrightarrow> i = h \<or> active (pool (eng s) i)" for i using h by (cases "i = h") auto
    let ?t = "\<lparr>t_state = Ready, t_instance = h, t_name = take MAX_NAME name, wasm_args = take MAX_TASK_ARGS args\<rparr>"
    have own: "owns s" using assms(1) by (simp add: tasks_ok_def)
    have fresh: "t_instance u \<noteq> h" if "queue s i = Some u" for i u using own h(2) that by (auto simp: owns_def)
    have "owns (s\<lparr>eng := e, queue := (queue s)(slot := Some ?t)\<rparr>)"
      using own e h(1) act fresh Some unfolding owns_def free_task_Some
      by (auto split: if_splits) (metis option.distinct(1))+
    then show ?thesis
      using assms(1) by (auto simp: task_spawn_def Some sp r tasks_ok_def at_rest_def)
  qed
qed

lemma task_kill_ok:
  assumes "tasks_ok s" shows "tasks_ok (task_kill tid s)"
  using assms owns_drop [of s tid]
  by (auto simp: task_kill_def tasks_ok_def drop_task_def split: option.splits if_splits)

section \<open>Round robin\<close>

lemma runnable_iff_steps:
  "is_task_runnable drv tid s \<longleftrightarrow> fst (task_step drv fuel fe tid s) \<noteq> None"
  by (auto simp: is_task_runnable_def task_step_def wake_task_def settled_def queue_set_state split_beta
      split: option.split task_state.split)

text \<open>How many tasks are asked before \<open>j\<close>, starting behind the cursor.\<close>

definition distance :: "nat \<Rightarrow> nat \<Rightarrow> nat" where
  "distance c j = (j + MAX_TASKS - (c + 1) mod MAX_TASKS) mod MAX_TASKS"

lemma below_four: "(i :: nat) < 4 \<longleftrightarrow> i = 0 \<or> i = 1 \<or> i = 2 \<or> i = 3"
  by auto

lemma four: "MAX_TASKS = 4"
  by (simp add: MAX_TASKS_def MAX_INSTANCES_def)

lemma asked:
  assumes "c < 4"
  shows "map (\<lambda>i. ((c + 1) mod 4 + i) mod 4) [0..<4] =
    (if c = 0 then [1, 2, 3, 0] else if c = 1 then [2, 3, 0, 1] else if c = 2 then [3, 0, 1, 2] else [0, 1, 2, 3 :: nat])"
proof -
  have "[0..<4] = [0, 1, 2, 3 :: nat]" by (simp add: upt_conv_Cons numeral_eq_Suc)
  with assms show ?thesis unfolding below_four by (elim disjE) simp_all
qed

text \<open>The chosen task is runnable and no runnable task is nearer.\<close>

lemma next_task_Some:
  assumes "cursor s < MAX_TASKS" and "next_task drv s = Some k"
  shows "k < MAX_TASKS \<and> is_task_runnable drv k s
     \<and> (\<forall>j < MAX_TASKS. is_task_runnable drv j s \<longrightarrow> distance (cursor s) k \<le> distance (cursor s) j)"
proof -
  have c: "cursor s < 4" using assms(1) by (simp add: four)
  show ?thesis
    using assms(2) c unfolding next_task_def four asked [OF c] unfolding below_four
    by (elim disjE) (auto simp: distance_def four split: if_splits)
qed

lemma next_task_exists:
  assumes "cursor s < MAX_TASKS" and "j < MAX_TASKS" and "is_task_runnable drv j s"
  shows "next_task drv s \<noteq> None"
proof -
  have c: "cursor s < 4" and "j < 4" using assms by (simp_all add: four)
  then show ?thesis
    using assms(3) unfolding next_task_def four asked [OF c] unfolding below_four
    by (elim disjE) auto
qed

text \<open>When the cursor moves to a nearer task, the distance of the others behind it shrinks.\<close>

lemma distance_shrinks:
  assumes "c < MAX_TASKS" "k < MAX_TASKS" "j < MAX_TASKS" "distance c k \<le> distance c j" "k \<noteq> j"
  shows "distance k j < distance c j"
  using assms unfolding four below_four by (elim disjE) (auto simp: distance_def four)

text \<open>Repeated turns of the scheduler, until one does not return.\<close>

fun turns :: "'d drivers \<Rightarrow> nat \<Rightarrow> float_env \<Rightarrow> nat \<Rightarrow> 'd sched \<Rightarrow> 'd sched option" where
  "turns drv fuel fe 0 s = Some s"
| "turns drv fuel fe (Suc n) s =
     (case run_next_task drv fuel fe s of (Ok b, s') \<Rightarrow> turns drv fuel fe n s' | _ \<Rightarrow> None)"

lemma log_line_fields: "queue (log_line bs s) = queue s" "cursor (log_line bs s) = cursor s"
  "pool (eng (log_line bs s)) = pool (eng s)" "engine_ok (eng (log_line bs s)) = engine_ok (eng s)"
  by (simp_all add: log_line_def engine_ok_def)

lemma tasks_ok_log: "tasks_ok ((log_line bs s)\<lparr>render := b\<rparr>) = tasks_ok s"
  by (simp add: tasks_ok_def owns_def log_line_fields)

lemma tasks_ok_cursor: "tasks_ok s \<Longrightarrow> k < MAX_TASKS \<Longrightarrow> tasks_ok (s\<lparr>cursor := k\<rparr>)"
  by (simp add: tasks_ok_def owns_def)

lemma run_next_task_ok:
  assumes "tasks_ok s" and "run_next_task drv fuel fe s = (Ok b, s')"
  shows "tasks_ok s'" and "b \<longleftrightarrow> next_task drv s \<noteq> None"
    and "next_task drv s = Some k \<Longrightarrow> cursor s' = k \<and> (\<forall>i. i \<noteq> k \<longrightarrow> queue s' i = queue s i)"
proof -
  show "b \<longleftrightarrow> next_task drv s \<noteq> None"
    using assms(2) by (auto simp: run_next_task_def split: option.splits prod.splits result.splits task_result.splits)
  have step: "tasks_ok s' \<and> cursor s' = k \<and> (\<forall>i. i \<noteq> k \<longrightarrow> queue s' i = queue s i)" if k: "next_task drv s = Some k" for k
  proof -
    have "cursor s < MAX_TASKS" using assms(1) by (simp add: tasks_ok_def owns_def)
    then have "tasks_ok (s\<lparr>cursor := k\<rparr>)" using next_task_Some [OF _ k] tasks_ok_cursor [OF assms(1)] by blast
    moreover obtain r s1 where st: "task_step drv fuel fe k (s\<lparr>cursor := k\<rparr>) = (r, s1)" by fastforce
    ultimately show ?thesis
      using assms(2) task_step_ok [of "s\<lparr>cursor := k\<rparr>" drv fuel fe k r s1] k
      by (auto simp: run_next_task_def tasks_ok_log log_line_fields split: option.splits result.splits task_result.splits)
  qed
  then show "next_task drv s = Some k \<Longrightarrow> cursor s' = k \<and> (\<forall>i. i \<noteq> k \<longrightarrow> queue s' i = queue s i)" by blast
  show "tasks_ok s'"
  proof (cases "next_task drv s")
    case None
    with assms show ?thesis by (simp add: run_next_task_def)
  qed (use step in blast)
qed

lemma scheduled_within:
  assumes "tasks_ok s" and "j < MAX_TASKS" and "map_option t_state (queue s j) \<in> {Some Ready, Some Suspended}"
    and "distance (cursor s) j \<le> d" and "turns drv fuel fe (Suc d) s \<noteq> None"
  shows "\<exists>n \<le> d. \<exists>s'. turns drv fuel fe n s = Some s' \<and> next_task drv s' = Some j \<and> queue s' j = queue s j"
  using assms
proof (induction d arbitrary: s)
  case 0
  have c: "cursor s < MAX_TASKS" using "0.prems"(1) by (simp add: tasks_ok_def owns_def)
  have run: "is_task_runnable drv j s" using "0.prems"(2,3) by (auto simp: is_task_runnable_def)
  obtain k where k: "next_task drv s = Some k" using next_task_exists [OF c "0.prems"(2) run] by blast
  have "k = j"
    using next_task_Some [OF c k] "0.prems"(2,4) run c unfolding four below_four
    by (elim disjE conjE) (auto simp: distance_def four)
  with k show ?case by auto
next
  case (Suc d)
  have c: "cursor s < MAX_TASKS" using Suc.prems(1) by (simp add: tasks_ok_def owns_def)
  have run: "is_task_runnable drv j s" using Suc.prems(2,3) by (auto simp: is_task_runnable_def)
  obtain k where k: "next_task drv s = Some k" using next_task_exists [OF c Suc.prems(2) run] by blast
  note near = next_task_Some [OF c k]
  show ?case
  proof (cases "k = j")
    case True
    with k show ?thesis by (intro exI [of _ 0]) auto
  next
    case False
    obtain b s1 where s1: "run_next_task drv fuel fe s = (Ok b, s1)" "turns drv fuel fe (Suc d) s1 \<noteq> None"
      using Suc.prems(5) by (auto split: prod.splits result.splits)
    note ok = run_next_task_ok [OF Suc.prems(1) s1(1)]
    have at: "cursor s1 = k" "queue s1 j = queue s j" using ok(3) [OF k] False by auto
    have "distance (cursor s1) j \<le> d"
      using distance_shrinks [OF c _ Suc.prems(2) _ False] near run Suc.prems(2,4) at(1) by fastforce
    with Suc.IH [OF ok(1) Suc.prems(2) _ _ s1(2)] Suc.prems(3) at(2)
    obtain n s' where "n \<le> d" "turns drv fuel fe n s1 = Some s'" "next_task drv s' = Some j" "queue s' j = queue s j" by auto
    then show ?thesis using s1(1) by (intro exI [of _ "Suc n"]) auto
  qed
qed

section \<open>An example\<close>

definition demo_sched :: "unit sched" where
  "demo_sched = snd (task_spawn no_jit (str_bytes ''demo'') demo_module [] \<lparr>queue = (\<lambda>_. None), eng = demo_engine, cursor = 0, render = False\<rparr>)"

lemma demo_sched_fields: "queue demo_sched = [0 \<mapsto> \<lparr>t_state = Ready, t_instance = 0, t_name = str_bytes ''demo'', wasm_args = []\<rparr>]"
  "eng demo_sched = spawned_demo (str_bytes ''demo'')" "cursor demo_sched = 0"
proof -
  have "free_task \<lparr>queue = (\<lambda>_. None), eng = demo_engine, cursor = 0, render = False\<rparr> = Some 0"
    by (simp add: free_task_Some MAX_TASKS_def MAX_INSTANCES_def)
  then show "queue demo_sched = [0 \<mapsto> \<lparr>t_state = Ready, t_instance = 0, t_name = str_bytes ''demo'', wasm_args = []\<rparr>]"
    "eng demo_sched = spawned_demo (str_bytes ''demo'')" "cursor demo_sched = 0"
    by (simp_all add: demo_sched_def task_spawn_def spawned_demo_def spawn_demo MAX_NAME_def str_bytes_def)
qed

lemma demo_sched_ok: "tasks_ok demo_sched"
proof -
  have "\<not> active (pool demo_engine h)" for h by (simp add: demo_engine_def engine_boot_def BLANK_SLOT_def)
  then show ?thesis
    unfolding demo_sched_def
    by (intro task_spawn_ok) (auto simp: tasks_ok_def owns_def demo_engine_ok MAX_TASKS_def MAX_INSTANCES_def jit_safe_def no_jit_def)
qed

lemma demo_turn: "\<exists>s'. run_next_task demo_drivers 9 no_floats demo_sched = (Ok True, s') \<and> queue s' = (\<lambda>_. None)"
proof -
  obtain e' where e: "start_task 9 no_floats 0 (str_bytes ''main'') [] (spawned_demo (str_bytes ''demo'')) = (Ok (Completed (Some 42)), e')"
    using start_demo by blast
  have "is_task_runnable demo_drivers i demo_sched \<longleftrightarrow> i = 0" for i
    by (auto simp: is_task_runnable_def demo_sched_fields four split: option.split task_state.split)
  then have "next_task demo_drivers demo_sched = Some 0"
    using next_task_exists [of demo_sched 0 demo_drivers] next_task_Some [of demo_sched demo_drivers]
    by (auto simp: demo_sched_fields four)
  with e show ?thesis
    by (simp add: run_next_task_def task_step_def wake_task_def demo_sched_fields four set_state_def with_engine_def settled_def
        settle_def drop_task_def log_line_fields fun_eq_iff)
qed

lemma idle_turns: "queue s = (\<lambda>_. None) \<Longrightarrow> turns drv fuel fe n s = Some s"
proof (induction n)
  case (Suc n)
  have "next_task drv s = None"
    using Suc.prems by (simp add: next_task_def find_None_iff is_task_runnable_def)
  with Suc show ?case by (simp add: run_next_task_def)
qed simp

section \<open>Properties\<close>

text \<open>
  C6: Tasks and instance slots stay in one-to-one correspondence under every task operation: each task
  owns an active slot of its own and no slot is active without a task, so none is ever leaked; and
  between steps no task is left in the running state.
\<close>
theorem tasks_invariant:
  assumes "tasks_ok s" and "jit_safe jc"
  shows "tasks_ok (snd (task_spawn jc name bytes args s)) \<and> tasks_ok (task_kill tid s)
     \<and> (\<forall>r s'. task_step drv fuel fe tid s = (r, s') \<and> r \<noteq> Some Panic \<and> r \<noteq> Some Hang \<longrightarrow> tasks_ok s')
     \<and> (\<forall>b s'. run_next_task drv fuel fe s = (Ok b, s') \<longrightarrow> tasks_ok s')"
  using task_spawn_ok [OF assms] task_kill_ok [OF assms(1)] task_step_ok [OF assms(1)] run_next_task_ok(1) [OF assms(1)]
  by blast

theorem tasks_invariant_witness: "tasks_ok (task_kill 0 demo_sched) \<and> queue demo_sched 0 \<noteq> None"
  using tasks_invariant [OF demo_sched_ok, of no_jit]
  by (simp add: jit_safe_def no_jit_def demo_sched_fields)

text \<open>
  C7: The scheduler is fair. A task that is ready or suspended is chosen within at most four turns
  (three other tasks come first at worst), whatever the other tasks do, as long as each turn returns;
  until then its own state does not change.
\<close>
theorem scheduler_is_fair:
  assumes "tasks_ok s" and "j < MAX_TASKS" and "map_option t_state (queue s j) \<in> {Some Ready, Some Suspended}"
    and "turns drv fuel fe 4 s \<noteq> None"
  shows "\<exists>n \<le> 3. \<exists>s'. turns drv fuel fe n s = Some s' \<and> next_task drv s' = Some j \<and> queue s' j = queue s j"
proof -
  have "distance (cursor s) j \<le> 3" using mod_less_divisor [of MAX_TASKS] by (simp add: distance_def four less_Suc_eq_le)
  with scheduled_within [of s j 3 drv fuel fe] assms show ?thesis by (simp add: numeral_eq_Suc)
qed

theorem scheduler_is_fair_witness:
  "\<exists>n \<le> 3. \<exists>s'. turns demo_drivers 9 no_floats n demo_sched = Some s' \<and> next_task demo_drivers s' = Some 0
     \<and> queue s' 0 = queue demo_sched 0"
proof -
  obtain s1 where "run_next_task demo_drivers 9 no_floats demo_sched = (Ok True, s1)" "queue s1 = (\<lambda>_. None)"
    using demo_turn by blast
  then have "turns demo_drivers 9 no_floats 4 demo_sched \<noteq> None"
    using turns.simps(2) [of demo_drivers 9 no_floats 3 demo_sched] by (simp add: idle_turns)
  then show ?thesis
    by (intro scheduler_is_fair [OF demo_sched_ok]) (simp_all add: demo_sched_fields four)
qed

text \<open>
  \<open>is_task_runnable\<close> and \<open>task_step\<close> agree: a task is reported runnable exactly when stepping it does
  something, so the scheduler neither skips a task that could run nor stops at one that cannot.
\<close>
theorem runnable_iff_step: "is_task_runnable drv tid s \<longleftrightarrow> fst (task_step drv fuel fe tid s) \<noteq> None"
  by (rule runnable_iff_steps)

text \<open>
  A task that suspends with a sleep of \<open>ms\<close> milliseconds is put to sleep until a tick that is at least
  \<open>ms\<close> and less than \<open>ms + 10\<close> milliseconds away (a tick is ten), and is not runnable before it. The
  request is consumed: it does not carry over to another task.
\<close>
theorem sleep_rounds_up:
  assumes "0 < pending_sleep_ms (kernel (e_world (eng s)))" and "queue s tid = Some t"
    and "unat (now drv s) < 2 ^ 63" and "settle drv tid (Ok Yielded) s = (r, s')"
  shows "\<exists>w u. r = Ok Yielded \<and> queue s' tid = Some u \<and> t_state u = Sleeping w
     \<and> unat (pending_sleep_ms (kernel (e_world (eng s)))) \<le> (unat w - unat (now drv s)) * 10
     \<and> (unat w - unat (now drv s)) * 10 < unat (pending_sleep_ms (kernel (e_world (eng s)))) + 10
     \<and> pending_sleep_ms (kernel (e_world (eng s'))) = 0"
proof -
  let ?ms = "unat (pending_sleep_ms (kernel (e_world (eng s))))" and ?now = "now drv s"
  have ms: "?ms < 2 ^ 32" by (rule order_less_le_trans [OF unsigned_less]) simp
  have now: "now drv (s\<lparr>eng := (eng s)\<lparr>e_world := (e_world (eng s))\<lparr>kernel := (kernel (e_world (eng s)))\<lparr>pending_sleep_ms := 0\<rparr>\<rparr>\<rparr>\<rparr>) = ?now"
    by (simp add: now_def)
  have delay: "(?ms + 9) div 10 < 2 ^ 32" using ms by simp
  then have w: "unat (?now + word_of_nat ((?ms + 9) div 10)) = unat ?now + (?ms + 9) div 10"
    using assms(3) by (simp add: unat_plus_if' unat_word_of_nat take_bit_nat_eq_self)
  show ?thesis
    using assms now w delay by (auto simp: settle_def take_pending_sleep_ms_def queue_set_state Let_def)
qed

theorem sleep_rounds_up_witness:
  "\<exists>w u s'. settle demo_drivers 0 (Ok Yielded) (demo_sched\<lparr>eng := (eng demo_sched)\<lparr>e_world := (h_world (demo_host []))
       \<lparr>kernel := (kernel (h_world (demo_host [])))\<lparr>pending_sleep_ms := 25\<rparr>\<rparr>\<rparr>\<rparr>) = (Ok Yielded, s')
     \<and> queue s' 0 = Some u \<and> t_state u = Sleeping w \<and> unat w * 10 = 30"
proof -
  let ?s = "demo_sched\<lparr>eng := (eng demo_sched)\<lparr>e_world := (h_world (demo_host []))
       \<lparr>kernel := (kernel (h_world (demo_host [])))\<lparr>pending_sleep_ms := 25\<rparr>\<rparr>\<rparr>\<rparr>"
  have now: "now demo_drivers ?s = 0" by (simp add: now_def demo_drivers_def)
  obtain r s' where st: "settle demo_drivers 0 (Ok Yielded) ?s = (r, s')" by fastforce
  have "\<exists>w u. r = Ok Yielded \<and> queue s' 0 = Some u \<and> t_state u = Sleeping w \<and> 25 \<le> unat w * 10 \<and> unat w * 10 < 35"
    using sleep_rounds_up [OF _ _ _ st] now by (auto simp: demo_sched_fields)
  moreover have "n * 10 = 30" if "25 \<le> n * 10" "n * 10 < 35" for n :: nat using that by presburger
  ultimately show ?thesis using st by metis
qed

end
