(* ===== verification/Connections.thy ===== *)
theory Connections
  imports Network
begin

text \<open>
  Two network stacks on one wire. The frames that one stack hands to its card are given to the receive
  path of the other, so the builders, the parsers, the ARP cache, the socket lookup and the TCP state
  machine are exercised together: a connection request ends with two connected sockets that agree on
  their sequence numbers, and the bytes sent over the connection arrive complete and in order while they
  fit the receiver's buffer.
\<close>

section \<open>Segments on the wire\<close>

definition ip_packet :: "ip_addr \<Rightarrow> ip_addr \<Rightarrow> u8 \<Rightarrow> bytes \<Rightarrow> ipv4_packet" where
  "ip_packet src dst proto payload =
     \<lparr>version_ihl = 0x45, ip_tos = 0, ip_total_len = 20 + word_of_nat (length payload), ip_id = 0, flags_offset = 0,
      ip_ttl = 64, ip_protocol = proto, ip_src = src, ip_dst = dst, ip_payload = payload\<rparr>"

definition tcp_frame :: "bytes \<Rightarrow> bytes \<Rightarrow> ip_addr \<Rightarrow> ip_addr \<Rightarrow> tcp_packet \<Rightarrow> bytes" where
  "tcp_frame smac dmac src dst p =
     dmac @ smac @ be_bytes16 ETH_TYPE_IPV4 @ ipv4_to_bytes (ip_packet src dst IP_PROTO_TCP
       (make_tcp_packet (tcp_src_port p) (tcp_dst_port p) (tcp_seq p) (tcp_ack_no p) (tcp_flags p) 65535 (tcp_payload p) src dst))"

lemma ipv4_new_packet:
  "length payload \<le> 1480 \<Longrightarrow> ipv4_new src dst proto payload = Ok (ip_packet src dst proto payload)"
  by (simp add: ipv4_new_def ip_packet_def unat_word_of_nat)

lemma ip_packet_fields [simp]:
  "ip_src (ip_packet a b p d) = a" "ip_dst (ip_packet a b p d) = b" "ip_payload (ip_packet a b p d) = d"
  "ip_protocol (ip_packet a b p d) = p"
  by (simp_all add: ip_packet_def)

lemma send_eth_wire:
  assumes "length dst = 6" and "length (mac s) = 6" and "length payload \<le> 1500"
  shows "send_eth dst ty payload s = (Ok (), s\<lparr>tx := tx s @ [dst @ mac s @ be_bytes16 ty @ payload]\<rparr>)"
proof -
  let ?f = "dst @ mac s @ be_bytes16 ty @ payload"
  have c: "eth_compose (replicate ETH_FRAME_SIZE 0) dst (mac s) ty payload
      = (Ok (14 + length payload, ?f @ drop (14 + length payload) (replicate ETH_FRAME_SIZE 0)) :: (unit, _) result)"
    using assms by (simp add: eth_compose_def ETH_FRAME_SIZE_def)
  have t: "take (14 + length payload) (?f @ x) = ?f" for x using assms by simp
  show ?thesis
    unfolding send_eth_def run_gets run_lift c result.case prod.case t
    using assms by (simp add: net_send_def ETH_FRAME_SIZE_def modify_def)
qed

lemma send_tcp_seg_wire:
  assumes "net_ok s" and "arp_lookup rip (arp s) = Some m" and "rip \<noteq> [255, 255, 255, 255]" and "length rip = 4"
    and "length d \<le> MAX_TCP_PAYLOAD"
  shows "send_tcp_seg lp rp rip sq ak fl d s = (Ok (), s\<lparr>tx := tx s @ [tcp_frame (mac s) m (ip s) rip
    \<lparr>tcp_src_port = lp, tcp_dst_port = rp, tcp_seq = sq, tcp_ack_no = ak, tcp_flags = fl, tcp_payload = d\<rparr>]\<rparr>)"
proof -
  let ?seg = "make_tcp_packet lp rp sq ak fl 65535 d (ip s) rip"
  have seg: "length ?seg \<le> 1480" using assms(5) by (simp add: MAX_TCP_PAYLOAD_def)
  have len: "length (ipv4_to_bytes (ip_packet (ip s) rip IP_PROTO_TCP ?seg)) \<le> 1500"
    using seg assms(4) net_okD(2) [OF assms(1)] by (simp add: length_ipv4_to_bytes)
  have m: "length m = 6" using assms(1,2) by (auto simp: arp_lookup_def net_okD)
  show ?thesis
    unfolding send_tcp_seg_def run_gets Let_def ipv4_new_packet [OF seg] run_lift result.case
    using send_eth_wire [OF m net_okD(1) [OF assms(1)] len, of ETH_TYPE_IPV4] assms(2,3)
    by (simp add: send_ip_def run_gets tcp_frame_def)
qed

text \<open>The receiving stack decodes the segment and learns the sender's address.\<close>

lemma handle_eth_padded:
  assumes "length smac = 6" and "length (mac t) = 6" and "mac t \<noteq> BROADCAST_MAC" and "length src = 4" and "length dst = 4"
    and "length (tcp_payload p) \<le> MAX_TCP_PAYLOAD"
  shows "handle_eth (tcp_frame smac (mac t) src dst p @ pad) t
    = handle_tcp src (p\<lparr>tcp_payload := tcp_payload p @ pad\<rparr>) (t\<lparr>arp := arp_insert src smac (arp t)\<rparr>)"
proof -
  let ?seg = "make_tcp_packet (tcp_src_port p) (tcp_dst_port p) (tcp_seq p) (tcp_ack_no p) (tcp_flags p) 65535
    (tcp_payload p) src dst"
  let ?ip = "ip_packet src dst IP_PROTO_TCP ?seg"
  have e: "eth_parse (tcp_frame smac (mac t) src dst p @ pad)
      = Some \<lparr>eth_dst = mac t, eth_src = smac, ethertype = ETH_TYPE_IPV4, eth_payload = ipv4_to_bytes ?ip @ pad\<rparr>"
    unfolding tcp_frame_def append_assoc using assms(1,2) by (intro eth_roundtrip)
  have "length ?seg \<le> 1480" using assms(6) by (simp add: MAX_TCP_PAYLOAD_def)
  then have i: "ipv4_parse (ipv4_to_bytes ?ip @ pad) = Some (?ip\<lparr>ip_payload := ?seg @ pad\<rparr>)"
    using assms(4,5) ipv4_parse_padded [OF ipv4_new_packet, of ?seg src dst IP_PROTO_TCP pad] by simp
  have h: "handle_ip (?ip\<lparr>ip_payload := ?seg @ pad\<rparr>) = handle_tcp src (p\<lparr>tcp_payload := tcp_payload p @ pad\<rparr>)"
    by (cases p) (simp add: handle_ip_def IP_PROTO_TCP_def IP_PROTO_ICMP_def tcp_parse_padded)
  show ?thesis
    using assms(3) by (simp add: handle_eth_def e i h run_gets run_modify is_for_me_def is_broadcast_def
        ETH_TYPE_ARP_def ETH_TYPE_IPV4_def)
qed

lemma handle_eth_segment:
  assumes "length smac = 6" and "length (mac t) = 6" and "mac t \<noteq> BROADCAST_MAC" and "length src = 4" and "length dst = 4"
    and "length (tcp_payload p) \<le> MAX_TCP_PAYLOAD"
  shows "handle_eth (tcp_frame smac (mac t) src dst p) t = handle_tcp src p (t\<lparr>arp := arp_insert src smac (arp t)\<rparr>)"
  using handle_eth_padded [OF assms, of "[]"] by simp

section \<open>Peers\<close>

definition peers :: "netstack \<Rightarrow> netstack \<Rightarrow> bool" where
  "peers a b \<longleftrightarrow> net_ok a \<and> net_ok b
     \<and> arp_lookup (ip b) (arp a) = Some (mac b) \<and> arp_lookup (ip a) (arp b) = Some (mac a)
     \<and> ip a \<noteq> [255, 255, 255, 255] \<and> ip b \<noteq> [255, 255, 255, 255] \<and> mac a \<noteq> BROADCAST_MAC \<and> mac b \<noteq> BROADCAST_MAC"

text \<open>Socket \<open>i\<close> is the only one on its local port.\<close>

definition sole_owner :: "netstack \<Rightarrow> nat \<Rightarrow> tcp_socket \<Rightarrow> bool" where
  "sole_owner s i k \<longleftrightarrow> i < MAX_SOCKETS \<and> tcp_sockets s i = Some k
     \<and> (\<forall>j<MAX_SOCKETS. \<forall>k'. tcp_sockets s j = Some k' \<and> local_port k' = local_port k \<longrightarrow> j = i)"

text \<open>Two sockets joined by a connection.\<close>

definition connected :: "netstack \<Rightarrow> tcp_socket \<Rightarrow> netstack \<Rightarrow> tcp_socket \<Rightarrow> bool" where
  "connected a ka b kb \<longleftrightarrow> tcp_st ka = Established \<and> tcp_st kb = Established
     \<and> local_port ka = remote_port kb \<and> local_port kb = remote_port ka \<and> remote_ip ka = ip b \<and> remote_ip kb = ip a
     \<and> seq ka = ack kb \<and> seq kb = ack ka"

lemma peers_sym: "peers a b \<Longrightarrow> peers b a"
  by (auto simp: peers_def)

lemma find_sole_owner:
  assumes "sole_owner s i k" and "remote_port k = rp \<or> tcp_st k = Listen"
  shows "find_tcp_socket s (local_port k) rp = Some i"
proof -
  have i: "i < MAX_SOCKETS" "tcp_sockets s i = Some k" using assms(1) by (simp_all add: sole_owner_def)
  have pair: "j = i \<and> remote_port k = rp" if "port_pair (local_port k) rp (tcp_sockets s j)" "j < MAX_SOCKETS" for j
    using that assms(1) by (cases "tcp_sockets s j") (auto simp: port_pair_def sole_owner_def)
  have listener: "j = i" if "listens_on (local_port k) (tcp_sockets s j)" "j < MAX_SOCKETS" for j
    using that assms(1) by (cases "tcp_sockets s j") (auto simp: listens_on_def sole_owner_def)
  show ?thesis
  proof (cases "remote_port k = rp")
    case True
    have "first_index (\<lambda>j. port_pair (local_port k) rp (tcp_sockets s j)) MAX_SOCKETS = Some i"
      by (rule first_index_unique) (use True i pair in \<open>simp_all add: port_pair_def\<close>)
    then show ?thesis by (simp add: find_tcp_socket_def)
  next
    case False
    then have "first_index (\<lambda>j. port_pair (local_port k) rp (tcp_sockets s j)) MAX_SOCKETS = None"
      using pair by (auto simp: first_index_None)
    moreover have "first_index (\<lambda>j. listens_on (local_port k) (tcp_sockets s j)) MAX_SOCKETS = Some i"
      by (rule first_index_unique) (use False i assms(2) listener in \<open>simp_all add: listens_on_def\<close>)
    ultimately show ?thesis by (simp add: find_tcp_socket_def)
  qed
qed

lemma sole_owner_update:
  "sole_owner s i k \<Longrightarrow> local_port k' = local_port k
    \<Longrightarrow> tcp_sockets t = (tcp_sockets s)(i := Some k') \<Longrightarrow> sole_owner t i k'"
  by (auto simp: sole_owner_def split: if_splits)

text \<open>The frame in which \<open>a\<close> sends the segment \<open>p\<close> to \<open>b\<close>.\<close>

abbreviation frame_to :: "netstack \<Rightarrow> netstack \<Rightarrow> tcp_packet \<Rightarrow> bytes" where
  "frame_to a b p \<equiv> tcp_frame (mac a) (mac b) (ip a) (ip b) p"

text \<open>
  A segment from \<open>a\<close> arrives at the socket \<open>i\<close> of \<open>b\<close>, which moves to \<open>k'\<close> and answers \<open>r\<close>: the new state of \<open>b\<close>.
\<close>

definition answered :: "netstack \<Rightarrow> netstack \<Rightarrow> nat \<Rightarrow> tcp_socket \<Rightarrow> tcp_reply option \<Rightarrow> netstack" where
  "answered a b i k' r = b\<lparr>arp := arp_insert (ip a) (mac a) (arp b), tcp_sockets := (tcp_sockets b)(i := Some k'),
     tx := tx b @ (case r of None \<Rightarrow> [] | Some r \<Rightarrow> [frame_to b a
       \<lparr>tcp_src_port = local_port k', tcp_dst_port = remote_port k', tcp_seq = r_seq r, tcp_ack_no = r_ack r,
        tcp_flags = r_flags r, tcp_payload = []\<rparr>])\<rparr>"

lemma learn_peer:
  assumes "peers a b"
  shows "arp_lookup (ip a) (arp_insert (ip a) (mac a) (arp b)) = Some (mac a)"
  using assms arp_lookup_insert [of "ip a" "arp b"] by (simp add: peers_def)

lemma handle_tcp_answered:
  assumes p: "peers a b" and o: "sole_owner b i k" and rp: "remote_port k = tcp_src_port pkt \<or> tcp_st k = Listen"
    and port: "tcp_dst_port pkt = local_port k"
    and h: "tcp_handle_pkt pkt (ip a) k = (Ok r, k')" and rip: "remote_ip k' = ip a"
  shows "handle_tcp (ip a) pkt (b\<lparr>arp := arp_insert (ip a) (mac a) (arp b)\<rparr>) = (Ok (), answered a b i k' r)"
proof -
  let ?b = "b\<lparr>arp := arp_insert (ip a) (mac a) (arp b)\<rparr>"
  let ?c = "?b\<lparr>tcp_sockets := (tcp_sockets b)(i := Some k')\<rparr>"
  have b: "net_ok b" "length (ip b) = 4" "length (mac b) = 6" "length (ip a) = 4" "length (mac a) = 6" "mac b \<noteq> BROADCAST_MAC"
    "ip a \<noteq> [255, 255, 255, 255]"
    using p by (auto simp: peers_def dest: net_okD)
  have k: "tcp_ok k" using net_okD(6) [OF b(1), of i k] o by (simp add: sole_owner_def)
  have k': "tcp_ok k'" using safeD [OF tcp_handle_pkt_safe k, of "ip a" pkt] h b(4) by (simp add: good_def)
  have c: "net_ok ?c" using net_ok_updates(1) [OF net_ok_arp [OF b(1,5)] k'] by simp
  have "sole_owner ?b i k" using o by (simp add: sole_owner_def)
  then have f: "find_tcp_socket ?b (tcp_dst_port pkt) (tcp_src_port pkt) = Some i"
    unfolding port using rp by (rule find_sole_owner)
  have s: "at_socket i (tcp_handle_pkt pkt (ip a)) ?b = (Ok r, ?c)"
    using o h by (simp add: at_socket_def sole_owner_def)
  note run = run_step(1) [where m = "at_socket i (tcp_handle_pkt pkt (ip a))", OF s]
  show ?thesis
  proof (cases r)
    case None
    then show ?thesis by (simp add: handle_tcp_def run_gets f run ret_def answered_def)
  next
    case (Some x)
    have "send_tcp_seg (local_port k') (remote_port k') (remote_ip k') (r_seq x) (r_ack x) (r_flags x) [] ?c
        = (Ok (), answered a b i k' r)"
      using send_tcp_seg_wire [OF c, of "ip a" "mac a"] learn_peer [OF p] b rip
      by (simp add: answered_def Some)
    then show ?thesis
      by (simp add: handle_tcp_def run_gets f run at_socket_read Some)
  qed
qed

lemma peers_lengths:
  "peers a b \<Longrightarrow> length (mac a) = 6 \<and> length (mac b) = 6 \<and> length (ip a) = 4 \<and> length (ip b) = 4"
  by (auto simp: peers_def dest: net_okD)

lemma segment_received:
  assumes "peers a b" and "sole_owner b i k" and "remote_port k = tcp_src_port pkt \<or> tcp_st k = Listen"
    and "tcp_dst_port pkt = local_port k" and "length (tcp_payload pkt) \<le> MAX_TCP_PAYLOAD"
    and "tcp_handle_pkt pkt (ip a) k = (Ok r, k')" and "remote_ip k' = ip a"
  shows "handle_eth (frame_to a b pkt) b = (Ok (), answered a b i k' r)"
  using handle_eth_segment [of "mac a" b "ip a" "ip b" pkt] peers_lengths [OF assms(1)] assms(1,5)
    handle_tcp_answered [OF assms(1-4,6,7)] by (simp add: peers_def)

lemma answered_fields [simp]:
  "mac (answered a b i k r) = mac b" "ip (answered a b i k r) = ip b"
  "tcp_sockets (answered a b i k r) = (tcp_sockets b)(i := Some k)"
  "arp (answered a b i k r) = arp_insert (ip a) (mac a) (arp b)"
  by (simp_all add: answered_def)

lemma peers_answered:
  assumes "peers a b" and "handle_eth f b = (Ok (), answered a b i k r)"
  shows "peers a (answered a b i k r)"
  using assms safeD [OF handle_eth_safe, of b f] learn_peer [OF assms(1)] by (simp add: peers_def good_def)

lemma segment_step:
  assumes "peers a b" and "sole_owner b i k" and "tcp_handle_pkt pkt (ip a) k = (Ok r, k')"
    and "remote_port k = tcp_src_port pkt \<or> tcp_st k = Listen" and "tcp_dst_port pkt = local_port k"
    and "length (tcp_payload pkt) \<le> MAX_TCP_PAYLOAD" and "remote_ip k' = ip a" and "local_port k' = local_port k"
    and "b' = answered a b i k' r"
  shows "handle_eth (frame_to a b pkt) b = (Ok (), b')" and "peers a b'" and "sole_owner b' i k'"
proof -
  show e: "handle_eth (frame_to a b pkt) b = (Ok (), b')"
    unfolding assms(9) by (rule segment_received [OF assms(1,2,4-6,3,7)])
  show "peers a b'" unfolding assms(9) by (rule peers_answered [OF assms(1) e [unfolded assms(9)]])
  show "sole_owner b' i k'" by (rule sole_owner_update [OF assms(2,8)]) (simp add: assms(9))
qed

section \<open>Opening a connection\<close>

text \<open>A connection request takes a fresh port and puts a SYN on the wire.\<close>

lemma free_tcp_none: "free_tcp s = Some i \<Longrightarrow> i < MAX_SOCKETS \<and> tcp_sockets s i = None"
  by (simp add: free_tcp_def first_index_Some)

definition syn :: "u16 \<Rightarrow> u16 \<Rightarrow> tcp_packet" where
  "syn lp rp = \<lparr>tcp_src_port = lp, tcp_dst_port = rp, tcp_seq = 1000, tcp_ack_no = 0, tcp_flags = TCP_SYN, tcp_payload = []\<rparr>"

lemma connect_sends_syn:
  assumes p: "peers a b" and i: "free_tcp a = Some i"
    and k: "k = (socket_connect (alloc_ephemeral_port a))\<lparr>remote_ip := ip b, remote_port := port\<rparr>"
    and a1: "a1 = a\<lparr>tcp_sockets := (tcp_sockets a)(i := Some k), tx := tx a @ [frame_to a b (syn (local_port k) port)]\<rparr>"
  shows "tcp_connect (ip b) port a = (Ok (Some i), a1)" and "sole_owner a1 i k" and "peers a1 b"
proof -
  have a: "net_ok a" "length (ip b) = 4" "arp_lookup (ip b) (arp a) = Some (mac b)" "ip b \<noteq> [255, 255, 255, 255]"
    using p by (auto simp: peers_def dest: net_okD)
  let ?s = "a\<lparr>tcp_sockets := (tcp_sockets a)(i := Some k)\<rparr>"
  have "net_ok ?s" using a(1,2) k by (intro net_ok_updates) (simp_all add: socket_new_ok)
  from send_tcp_seg_wire [OF this] a have
    w: "send_tcp_seg (local_port k) port (ip b) (seq k) 0 TCP_SYN [] ?s = (Ok (), a1)"
    by (simp add: a1 k syn_def socket_connect_def)
  have lp: "local_port k = alloc_ephemeral_port a" by (simp add: k socket_connect_def)
  have k': "(socket_connect (local_port k))\<lparr>remote_ip := ip b, remote_port := port\<rparr> = k"
    "seq (socket_connect (local_port k)) = seq k"
    by (simp_all add: k socket_connect_def)
  show c: "tcp_connect (ip b) port a = (Ok (Some i), a1)"
    using a(3) w by (simp add: tcp_connect_def run_gets i Let_def put_tcp_def run_modify lp [symmetric] k'
        sthen_def [of "send_tcp_seg _ _ _ _ _ _ _"] sbind_def [of "send_tcp_seg _ _ _ _ _ _ _"] ret_def)
  have "port_in_use (tcp_sockets a) (local_port k') " if "tcp_sockets a j = Some k'" "j < MAX_SOCKETS" for j k'
    using that by (force simp: port_in_use_def list_ex_iff)
  moreover have "\<not> port_in_use (tcp_sockets a) (local_port k)"
    using port_from_free [of "tcp_sockets a"] by (simp add: k socket_connect_def alloc_ephemeral_port_def)
  ultimately show "sole_owner a1 i k"
    using free_tcp_none [OF i] by (auto simp: sole_owner_def a1 split: if_splits) metis
  show "peers a1 b"
    using safeD [OF tcp_connect_safe [OF a(2)] a(1), of port] c p by (simp add: peers_def good_def a1)
qed

text \<open>The three segments of the handshake, as the sockets see them.\<close>

lemma flag_tests:
  "pkt_syn p \<longleftrightarrow> bit (tcp_flags p) 1" "pkt_ack p \<longleftrightarrow> bit (tcp_flags p) 4"
  "pkt_fin p \<longleftrightarrow> bit (tcp_flags p) 0" "pkt_rst p \<longleftrightarrow> bit (tcp_flags p) 2"
  using and_exp_eq_0_iff_not_bit [of "tcp_flags p" 1] and_exp_eq_0_iff_not_bit [of "tcp_flags p" 4]
    and_exp_eq_0_iff_not_bit [of "tcp_flags p" 0] and_exp_eq_0_iff_not_bit [of "tcp_flags p" 2]
  by (simp_all add: pkt_syn_def pkt_ack_def pkt_fin_def pkt_rst_def TCP_SYN_def TCP_ACK_def TCP_FIN_def TCP_RST_def)

lemma listen_syn:
  assumes "pkt_syn p" and "\<not> pkt_ack p" and "\<not> pkt_rst p"
  shows "tcp_handle_pkt p src (socket_listen port) = (Ok (Some \<lparr>r_flags = TCP_SYN OR TCP_ACK, r_seq = 1, r_ack = tcp_seq p + 1\<rparr>),
    (socket_listen port)\<lparr>last_seq := tcp_seq p, last_ack := tcp_ack_no p, remote_ip := src, remote_port := tcp_src_port p,
      ack := tcp_seq p + 1, tcp_st := SynRecv\<rparr>)"
  using assms by (simp add: tcp_handle_pkt_def socket_listen_def on_listen_def reply_def sm_defs)

lemma syn_sent_syn_ack:
  assumes "pkt_syn p" and "pkt_ack p" and "\<not> pkt_rst p" and "tcp_st k = SynSent"
  shows "tcp_handle_pkt p src k = (Ok (Some \<lparr>r_flags = TCP_ACK, r_seq = tcp_ack_no p, r_ack = tcp_seq p + 1\<rparr>),
    k\<lparr>last_seq := tcp_seq p, last_ack := tcp_ack_no p, seq := tcp_ack_no p, ack := tcp_seq p + 1, tcp_st := Established\<rparr>)"
  using assms by (simp add: tcp_handle_pkt_def on_syn_sent_def reply_def sm_defs)

lemma syn_recv_ack:
  assumes "pkt_ack p" and "\<not> pkt_rst p" and "tcp_st k = SynRecv"
  shows "tcp_handle_pkt p src k = (Ok None,
    k\<lparr>last_seq := tcp_seq p, last_ack := tcp_ack_no p, seq := seq k + 1, tcp_st := Established\<rparr>)"
  using assms by (simp add: tcp_handle_pkt_def sm_defs)

text \<open>The bytes a socket holds for its reader.\<close>

definition buffered :: "tcp_socket \<Rightarrow> bytes" where
  "buffered k = mem_read (recv_buf k) 0 (recv_len k)"

definition pending :: "netstack \<Rightarrow> nat \<Rightarrow> bytes" where
  "pending s i = (case tcp_sockets s i of Some k \<Rightarrow> buffered k | None \<Rightarrow> [])"

text \<open>What a completed handshake leaves behind: two joined sockets, each the only one on its port.\<close>

definition joined :: "netstack \<Rightarrow> nat \<Rightarrow> netstack \<Rightarrow> nat \<Rightarrow> bool" where
  "joined a i b j \<longleftrightarrow> peers a b \<and> (\<exists>ka kb. sole_owner a i ka \<and> sole_owner b j kb \<and> connected a ka b kb)"

text \<open>The listener after the SYN, and the caller after the SYN-ACK, with their answers.\<close>

definition half_open :: "u16 \<Rightarrow> u16 \<Rightarrow> ip_addr \<Rightarrow> tcp_socket" where
  "half_open port lp addr = (socket_listen port)\<lparr>last_seq := 1000, last_ack := 0, remote_ip := addr, remote_port := lp,
     ack := 1001, tcp_st := SynRecv\<rparr>"

definition syn_ack :: "u16 \<Rightarrow> u16 \<Rightarrow> tcp_packet" where
  "syn_ack sp dp = \<lparr>tcp_src_port = sp, tcp_dst_port = dp, tcp_seq = 1, tcp_ack_no = 1001,
     tcp_flags = TCP_SYN OR TCP_ACK, tcp_payload = []\<rparr>"

definition last_ack_pkt :: "u16 \<Rightarrow> u16 \<Rightarrow> tcp_packet" where
  "last_ack_pkt sp dp = \<lparr>tcp_src_port = sp, tcp_dst_port = dp, tcp_seq = 1001, tcp_ack_no = 2, tcp_flags = TCP_ACK,
     tcp_payload = []\<rparr>"

lemma handshake_steps:
  "tcp_handle_pkt (syn lp port) addr (socket_listen port)
     = (Ok (Some \<lparr>r_flags = TCP_SYN OR TCP_ACK, r_seq = 1, r_ack = 1001\<rparr>), half_open port lp addr)"
  "tcp_st k = SynSent \<Longrightarrow> tcp_handle_pkt (syn_ack sp dp) addr k = (Ok (Some \<lparr>r_flags = TCP_ACK, r_seq = 1001, r_ack = 2\<rparr>),
     k\<lparr>last_seq := 1, last_ack := 1001, seq := 1001, ack := 2, tcp_st := Established\<rparr>)"
  "tcp_handle_pkt (last_ack_pkt sp dp) addr (half_open port lp addr') = (Ok None,
     (half_open port lp addr')\<lparr>last_seq := 1001, last_ack := 2, seq := 2, tcp_st := Established\<rparr>)"
  by (subst listen_syn, simp_all add: flag_tests syn_def TCP_SYN_def half_open_def)
    (subst syn_sent_syn_ack, simp_all add: flag_tests syn_ack_def TCP_SYN_def TCP_ACK_def bit_simps,
     subst syn_recv_ack, simp_all add: flag_tests last_ack_pkt_def TCP_ACK_def socket_listen_def bit_simps)

lemma handshake:
  assumes p: "peers a b" and i: "free_tcp a = Some i" and j: "sole_owner b j (socket_listen port)"
  shows "\<exists>f1 f2 f3 a1 a2 b1 b2. tcp_connect (ip b) port a = (Ok (Some i), a1) \<and> tx a1 = tx a @ [f1]
     \<and> handle_eth f1 b = (Ok (), b1) \<and> tx b1 = tx b @ [f2]
     \<and> handle_eth f2 a1 = (Ok (), a2) \<and> tx a2 = tx a1 @ [f3]
     \<and> handle_eth f3 b1 = (Ok (), b2) \<and> tx b2 = tx b1 \<and> joined a2 i b2 j
     \<and> pending b2 j = []"
proof -
  define k where "k = (socket_connect (alloc_ephemeral_port a))\<lparr>remote_ip := ip b, remote_port := port\<rparr>"
  let ?lp = "local_port k"
  define a1 where "a1 = a\<lparr>tcp_sockets := (tcp_sockets a)(i := Some k), tx := tx a @ [frame_to a b (syn ?lp port)]\<rparr>"
  note c = connect_sends_syn [OF p i k_def a1_def]
  have k: "tcp_st k = SynSent" "remote_port k = port" "remote_ip k = ip b" by (simp_all add: k_def socket_connect_def)
  have a1: "mac a1 = mac a" "ip a1 = ip a" by (simp_all add: a1_def)
  note half = half_open_def socket_listen_def
  let ?l1 = "half_open port ?lp (ip a)"
  define b1 where "b1 = answered a b j ?l1 (Some \<lparr>r_flags = TCP_SYN OR TCP_ACK, r_seq = 1, r_ack = 1001\<rparr>)"
  have s1: "handle_eth (frame_to a b (syn ?lp port)) b = (Ok (), b1)" "peers a b1" "sole_owner b1 j ?l1"
    by (rule segment_step [OF p j handshake_steps(1) _ _ _ _ _ b1_def]; simp add: syn_def half)+
  have p1: "peers b1 a1" using s1(2) c(3) by (simp add: peers_def b1_def a1)
  let ?k2 = "k\<lparr>last_seq := 1, last_ack := 1001, seq := 1001, ack := 2, tcp_st := Established\<rparr>"
  define a2 where "a2 = answered b1 a1 i ?k2 (Some \<lparr>r_flags = TCP_ACK, r_seq = 1001, r_ack = 2\<rparr>)"
  have s2: "handle_eth (frame_to b1 a1 (syn_ack port ?lp)) a1 = (Ok (), a2)" "peers b1 a2" "sole_owner a2 i ?k2"
    by (rule segment_step [OF p1 c(2) handshake_steps(2) [OF k(1)] _ _ _ _ _ a2_def]; simp add: syn_ack_def k b1_def)+
  let ?l2 = "?l1\<lparr>last_seq := 1001, last_ack := 2, seq := 2, tcp_st := Established\<rparr>"
  define b2 where "b2 = answered a2 b1 j ?l2 None"
  have s3: "handle_eth (frame_to a2 b1 (last_ack_pkt ?lp port)) b1 = (Ok (), b2)" "peers a2 b2" "sole_owner b2 j ?l2"
    by (rule segment_step [OF peers_sym [OF s2(2)] s1(3) handshake_steps(3) _ _ _ _ _ b2_def];
        simp add: last_ack_pkt_def half a2_def a1)+
  have "connected a2 ?k2 b2 ?l2"
    by (simp add: connected_def half k a2_def b2_def b1_def a1)
  with s2(3) s3(2,3) have "joined a2 i b2 j" unfolding joined_def by blast
  moreover have "tx b1 = tx b @ [frame_to b1 a1 (syn_ack port ?lp)]" "tx a2 = tx a1 @ [frame_to a2 b1 (last_ack_pkt ?lp port)]"
    "tx b2 = tx b1" "pending b2 j = []"
    by (simp_all add: b1_def a2_def b2_def answered_def syn_ack_def last_ack_pkt_def half k a1 pending_def buffered_def mem_read_def)
  ultimately show ?thesis using c(1) s1(1) s2(1) s3(1) by (fastforce simp: a1_def)
qed

section \<open>Sending data\<close>

lemma mem_read_append: "mem_read (mem_write m n d) 0 (n + length d) = mem_read m 0 n @ d"
  by (rule nth_equalityI) (auto simp: mem_write_def nth_append)

lemma established_data:
  assumes "tcp_st k = Established" and "\<not> pkt_rst p" and "\<not> pkt_fin p" and "tcp_payload p \<noteq> []"
    and "recv_len k + length (tcp_payload p) \<le> MAX_TCP_PAYLOAD"
  shows "tcp_handle_pkt p src k = (Ok (Some \<lparr>r_flags = TCP_ACK, r_seq = seq k, r_ack = tcp_seq p + word_of_nat (length (tcp_payload p))\<rparr>),
    k\<lparr>last_seq := tcp_seq p, last_ack := tcp_ack_no p, recv_buf := mem_write (recv_buf k) (recv_len k) (tcp_payload p),
      recv_len := recv_len k + length (tcp_payload p), ack := tcp_seq p + word_of_nat (length (tcp_payload p))\<rparr>)"
  using assms by (simp add: tcp_handle_pkt_def on_established_def reply_def sm_defs Let_def)

lemma established_ack:
  assumes "tcp_st k = Established" and "\<not> pkt_rst p" and "\<not> pkt_fin p" and "tcp_payload p = []"
  shows "tcp_handle_pkt p src k = (Ok None, k\<lparr>last_seq := tcp_seq p, last_ack := tcp_ack_no p\<rparr>)"
  using assms by (simp add: tcp_handle_pkt_def on_established_def sm_defs)

definition data_pkt :: "tcp_socket \<Rightarrow> bytes \<Rightarrow> tcp_packet" where
  "data_pkt k d = \<lparr>tcp_src_port = local_port k, tcp_dst_port = remote_port k, tcp_seq = seq k, tcp_ack_no = ack k,
     tcp_flags = TCP_PSH OR TCP_ACK, tcp_payload = d\<rparr>"

lemma send_wire:
  assumes p: "peers a b" and o: "sole_owner a i k" and e: "tcp_st k = Established" and r: "remote_ip k = ip b"
    and d: "length d \<le> MAX_TCP_PAYLOAD"
    and a1: "a1 = a\<lparr>tx := tx a @ [frame_to a b (data_pkt k d)],
      tcp_sockets := (tcp_sockets a)(i := Some (k\<lparr>seq := seq k + word_of_nat (length d)\<rparr>))\<rparr>"
  shows "tcp_send i d a = (Ok (length d), a1)" and "peers a1 b"
    and "sole_owner a1 i (k\<lparr>seq := seq k + word_of_nat (length d)\<rparr>)"
proof -
  have a: "net_ok a" "length (ip b) = 4" "arp_lookup (ip b) (arp a) = Some (mac b)" "ip b \<noteq> [255, 255, 255, 255]"
    using p by (auto simp: peers_def dest: net_okD)
  have i: "i < MAX_SOCKETS" "tcp_sockets a i = Some k" using o by (simp_all add: sole_owner_def)
  note w = send_tcp_seg_wire [OF a(1,3,4,2) d]
  show c: "tcp_send i d a = (Ok (length d), a1)"
    unfolding tcp_send_def tcp_at_cases(1) [OF i(1)] i(2) option.case using e r d i(2)
    by (simp add: w run_step(2) [where m = "send_tcp_seg _ _ _ _ _ _ _", OF w] Let_def)
      (simp add: at_socket_def modify_def sthen_def sbind_def ret_def a1 data_pkt_def)
  show "peers a1 b" using tcp_send_good [OF a(1) i(1), of d] c p by (simp add: peers_def good_def a1)
  show "sole_owner a1 i (k\<lparr>seq := seq k + word_of_nat (length d)\<rparr>)"
    by (rule sole_owner_update [OF o]) (simp_all add: a1)
qed

lemma data_exchange:
  assumes "joined a i b j" and d: "d \<noteq> []" and fits: "length (pending b j) + length d \<le> MAX_TCP_PAYLOAD"
  shows "\<exists>f f' a1 a2 b1. tcp_send i d a = (Ok (length d), a1) \<and> tx a1 = tx a @ [f]
    \<and> handle_eth f b = (Ok (), b1) \<and> tx b1 = tx b @ [f'] \<and> handle_eth f' a1 = (Ok (), a2) \<and> joined a2 i b1 j
    \<and> pending b1 j = pending b j @ d \<and> pending a2 i = pending a i"
proof -
  obtain ka kb where p: "peers a b" and oa: "sole_owner a i ka" and ob: "sole_owner b j kb" and c: "connected a ka b kb"
    using assms(1) by (auto simp: joined_def)
  have kb: "tcp_sockets b j = Some kb" "tcp_sockets a i = Some ka" using oa ob by (simp_all add: sole_owner_def)
  have len: "recv_len kb + length d \<le> MAX_TCP_PAYLOAD" using fits kb by (simp add: pending_def buffered_def)
  let ?n = "word_of_nat (length d) :: u32" and ?p = "data_pkt ka d"
  let ?ka = "ka\<lparr>seq := seq ka + ?n\<rparr>"
  define a1 where "a1 = a\<lparr>tx := tx a @ [frame_to a b ?p], tcp_sockets := (tcp_sockets a)(i := Some ?ka)\<rparr>"
  have s0: "tcp_send i d a = (Ok (length d), a1)" "peers a1 b" "sole_owner a1 i ?ka"
    using c len by (rule_tac send_wire [OF p oa _ _ _ a1_def]; simp add: connected_def)+
  let ?kb = "kb\<lparr>last_seq := seq ka, last_ack := ack ka, recv_buf := mem_write (recv_buf kb) (recv_len kb) d,
      recv_len := recv_len kb + length d, ack := seq ka + ?n\<rparr>"
  have f: "\<not> pkt_rst ?p" "\<not> pkt_fin ?p" by (simp_all add: flag_tests data_pkt_def TCP_PSH_def TCP_ACK_def bit_simps)
  have h1: "tcp_handle_pkt ?p (ip a) kb = (Ok (Some \<lparr>r_flags = TCP_ACK, r_seq = seq kb, r_ack = seq ka + ?n\<rparr>), ?kb)"
    using established_data [OF _ f, of kb] c d len by (simp add: connected_def data_pkt_def)
  define b1 where "b1 = answered a b j ?kb (Some \<lparr>r_flags = TCP_ACK, r_seq = seq kb, r_ack = seq ka + ?n\<rparr>)"
  have s1: "handle_eth (frame_to a b ?p) b = (Ok (), b1)" "peers a b1" "sole_owner b1 j ?kb"
    using c len by (rule_tac segment_step [OF p ob h1 _ _ _ _ _ b1_def]; simp add: connected_def data_pkt_def)+
  have p1: "peers b1 a1" using s1(2) s0(2) by (simp add: peers_def b1_def a1_def)
  define q where "q = \<lparr>tcp_src_port = local_port kb, tcp_dst_port = remote_port kb, tcp_seq = seq kb,
      tcp_ack_no = seq ka + ?n, tcp_flags = TCP_ACK, tcp_payload = []\<rparr>"
  let ?ka2 = "?ka\<lparr>last_seq := seq kb, last_ack := seq ka + ?n\<rparr>"
  have h2: "tcp_handle_pkt q (ip b1) ?ka = (Ok None, ?ka2)"
    using established_ack [of ?ka q] c by (simp add: flag_tests q_def TCP_ACK_def connected_def)
  define a2 where "a2 = answered b1 a1 i ?ka2 None"
  have s2: "handle_eth (frame_to b1 a1 q) a1 = (Ok (), a2)" "peers b1 a2" "sole_owner a2 i ?ka2"
    using c by (rule_tac segment_step [OF p1 s0(3) h2 _ _ _ _ _ a2_def]; simp add: connected_def q_def b1_def)+
  have "connected a2 ?ka2 b1 ?kb" using c by (simp add: connected_def a2_def b1_def a1_def)
  then have "joined a2 i b1 j" unfolding joined_def using peers_sym [OF s2(2)] s2(3) s1(3) by blast
  moreover have "pending b1 j = pending b j @ d" "pending a2 i = pending a i"
    using kb by (simp_all add: pending_def b1_def a2_def buffered_def mem_read_append)
  moreover have "tx b1 = tx b @ [frame_to b1 a1 q]" by (simp add: b1_def answered_def q_def a1_def)
  ultimately show ?thesis using s0(1) s1(1) s2(1) by (fastforce simp: a1_def)
qed

section \<open>A stream of bytes\<close>

lemma recv_pending:
  assumes "joined a i b j" and "tcp_recv j buf b = (Ok (n, buf'), b1)" and "length (pending b j) \<le> length buf"
  shows "joined a i b1 j \<and> take n buf' = pending b j \<and> pending b1 j = []"
proof -
  obtain ka kb where p: "peers a b" and oa: "sole_owner a i ka" and ob: "sole_owner b j kb" and c: "connected a ka b kb"
    using assms(1) by (auto simp: joined_def)
  have j: "j < MAX_SOCKETS" "tcp_sockets b j = Some kb" using ob by (simp_all add: sole_owner_def)
  have r: "tcp_recv j buf b = (case tcp_socket_recv buf kb of (r, k) \<Rightarrow> (r, b\<lparr>tcp_sockets := (tcp_sockets b)(j := Some k)\<rparr>))"
    by (simp add: tcp_recv_def sthen_def tcp_at_cases(1) [OF j(1)] j(2) at_socket_def)
  have "recv_len kb \<le> length buf" using assms(3) j(2) by (simp add: pending_def buffered_def)
  with assms(2) have n: "n = recv_len kb" "buf' = mem_read (recv_buf kb) 0 n @ drop n buf"
    and b1: "b1 = b\<lparr>tcp_sockets := (tcp_sockets b)(j := Some (kb\<lparr>recv_len := 0\<rparr>))\<rparr>"
    by (auto simp: r tcp_socket_recv_def recv_buffered_def sm_defs Let_def split: if_splits)
  have "net_ok b1" using tcp_recv_good [of b j buf] p j(1) assms(2) by (simp add: peers_def good_def)
  then have "peers a b1" using p by (simp add: peers_def b1)
  moreover have "sole_owner b1 j (kb\<lparr>recv_len := 0\<rparr>)" by (rule sole_owner_update [OF ob]) (simp_all add: b1)
  moreover have "connected a ka b1 (kb\<lparr>recv_len := 0\<rparr>)" using c by (simp add: connected_def b1)
  ultimately have "joined a i b1 j" using oa unfolding joined_def by blast
  moreover have "take n buf' = pending b j" using n j(2) by (simp add: pending_def buffered_def)
  moreover have "pending b1 j = []" by (simp add: pending_def buffered_def b1 mem_read_def)
  ultimately show ?thesis by blast
qed

text \<open>
  A one-way conversation over a connection: \<open>a\<close> sends pieces that fit what is left of the receive buffer
  of \<open>b\<close>, each followed by its acknowledgement, and \<open>b\<close> reads into buffers large enough for what it holds.
  \<open>sent\<close> and \<open>got\<close> are the bytes written and read so far.
\<close>

inductive talk :: "nat \<Rightarrow> nat \<Rightarrow> netstack \<Rightarrow> netstack \<Rightarrow> bytes \<Rightarrow> bytes \<Rightarrow> bool" for i j where
  starts: "talk i j a b (pending b j) []" if "joined a i b j"
| sends: "talk i j a2 b1 (sent @ d) got"
    if "talk i j a b sent got" and "d \<noteq> []" and "length (pending b j) + length d \<le> MAX_TCP_PAYLOAD"
      and "tcp_send i d a = (Ok n, a1)" and "handle_eth (last (tx a1)) b = (Ok (), b1)"
      and "handle_eth (last (tx b1)) a1 = (Ok (), a2)"
| reads: "talk i j a b1 sent (got @ take n buf')"
    if "talk i j a b sent got" and "tcp_recv j buf b = (Ok (n, buf'), b1)" and "length (pending b j) \<le> length buf"

lemma talk_joined: "talk i j a b sent got \<Longrightarrow> joined a i b j \<and> sent = got @ pending b j"
proof (induction rule: talk.induct)
  case (sends a b sent got d n a1 b1 a2)
  from data_exchange [OF conjunct1 [OF sends.IH] sends.hyps(2,3)] sends.hyps(4-6) have
    "joined a2 i b1 j" "pending b1 j = pending b j @ d" by auto
  with sends.IH show ?case by simp
next
  case (reads a b sent got buf n buf' b1)
  from recv_pending [OF conjunct1 [OF reads.IH] reads.hyps(2,3)] reads.IH show ?case by simp
qed simp

section \<open>Properties\<close>

text \<open>
  C11: A connection request between two stacks ends in a connection. When \<open>a\<close> has a free socket and \<open>b\<close> listens
  on the port, the three frames of the handshake, each handed from one stack to the other, leave both sockets
  established, with crossed ports and addresses and agreeing sequence numbers.
\<close>
theorem handshake_connects:
  assumes "peers a b" and "free_tcp a = Some i" and "sole_owner b j (socket_listen port)"
  shows "\<exists>f1 f2 f3 a1 a2 b1 b2. tcp_connect (ip b) port a = (Ok (Some i), a1) \<and> tx a1 = tx a @ [f1]
     \<and> handle_eth f1 b = (Ok (), b1) \<and> tx b1 = tx b @ [f2]
     \<and> handle_eth f2 a1 = (Ok (), a2) \<and> tx a2 = tx a1 @ [f3]
     \<and> handle_eth f3 b1 = (Ok (), b2) \<and> tx b2 = tx b1 \<and> joined a2 i b2 j
     \<and> pending b2 j = []"
  by (rule handshake [OF assms])

text \<open>Two stacks that know each other, the second with a listener on port 80.\<close>

definition demo_stack :: "bytes \<Rightarrow> ip_addr \<Rightarrow> bytes \<Rightarrow> ip_addr \<Rightarrow> tcp_socket option arr \<Rightarrow> netstack" where
  "demo_stack m a m' a' socks = \<lparr>rx = [], tx = [], mac = m, ip = a, dhcp = dhcp_new m, arp = arp_insert a' m' arp_new,
     tcp_sockets = socks, udp_sockets = \<lambda>_. None\<rparr>"

definition demo_client :: netstack where
  "demo_client = demo_stack [2, 0, 0, 0, 0, 1] [10, 0, 0, 1] [2, 0, 0, 0, 0, 2] [10, 0, 0, 2] (\<lambda>_. None)"

definition demo_server :: netstack where
  "demo_server = demo_stack [2, 0, 0, 0, 0, 2] [10, 0, 0, 2] [2, 0, 0, 0, 0, 1] [10, 0, 0, 1]
     ((\<lambda>_. None)(3 := Some (socket_listen 80)))"

lemma demo_stack_ok:
  assumes "length m = 6" and "length a = 4" and "length m' = 6" and "\<forall>i k. socks i = Some k \<longrightarrow> tcp_ok k"
  shows "net_ok (demo_stack m a m' a' socks)"
    and "arp_lookup a' (arp (demo_stack m a m' a' socks)) = Some m'"
proof -
  let ?s = "(demo_stack m a m' a' socks)\<lparr>arp := arp_new\<rparr>"
  have "net_ok ?s" using assms by (simp add: net_ok_def demo_stack_def dhcp_new_def arp_new_def)
  from net_ok_arp [OF this assms(3), of a'] show "net_ok (demo_stack m a m' a' socks)" by (simp add: demo_stack_def)
  have "\<not> arp_valid arp_new 0" "(0 :: nat) < MAX_ARP_ENTRIES" by (simp_all add: arp_new_def MAX_ARP_ENTRIES_def)
  then show "arp_lookup a' (arp (demo_stack m a m' a' socks)) = Some m'"
    using arp_lookup_insert [of a' arp_new a' m'] by (auto simp: demo_stack_def)
qed

lemma not_broadcast: "hd m \<noteq> 0xFF \<Longrightarrow> m \<noteq> BROADCAST_MAC"
  by (auto simp: BROADCAST_MAC_def)

lemma demo_stack_fields: "mac (demo_stack m a m' a' socks) = m" "ip (demo_stack m a m' a' socks) = a"
  by (simp_all add: demo_stack_def)

lemma demo_peers: "peers demo_client demo_server" "free_tcp demo_client = Some 0"
  "sole_owner demo_server 3 (socket_listen 80)"
proof -
  show "peers demo_client demo_server"
    unfolding peers_def demo_client_def demo_server_def
    by (intro conjI demo_stack_ok not_broadcast) (simp_all add: demo_stack_ok demo_stack_fields socket_new_ok)
  show "free_tcp demo_client = Some 0"
    by (simp add: free_tcp_def first_index_Some demo_client_def demo_stack_def MAX_SOCKETS_def)
  show "sole_owner demo_server 3 (socket_listen 80)"
    by (simp add: sole_owner_def demo_server_def demo_stack_def MAX_SOCKETS_def)
qed

theorem handshake_connects_witness: "\<exists>a b. joined a 0 b 3"
  using handshake_connects [OF demo_peers] by blast



text \<open>
  Padding is taken for data. Ethernet pads short frames to 60 bytes, and a bare acknowledgement is a frame
  of 54 bytes; since the IPv4 parser ignores the total length of the header, the padding of such a frame
  is appended to the data of an established connection and acknowledged.
\<close>
theorem padding_becomes_data:
  assumes "joined a i b j" and "tcp_sockets a i = Some ka" and "pad \<noteq> []" and "length (pending b j) + length pad \<le> MAX_TCP_PAYLOAD"
    and "ackp = \<lparr>tcp_src_port = local_port ka, tcp_dst_port = remote_port ka, tcp_seq = seq ka, tcp_ack_no = ack ka,
      tcp_flags = TCP_ACK, tcp_payload = []\<rparr>"
  shows "length (tcp_frame (mac a) (mac b) (ip a) (ip b) ackp) = 54
     \<and> pending (snd (handle_eth (tcp_frame (mac a) (mac b) (ip a) (ip b) ackp @ pad) b)) j = pending b j @ pad"
proof -
  obtain kb where p: "peers a b" and ob: "sole_owner b j kb" and c: "connected a ka b kb"
    using assms(1,2) by (auto simp: joined_def sole_owner_def)
  have j: "tcp_sockets b j = Some kb" using ob by (simp add: sole_owner_def)
  let ?p = "ackp\<lparr>tcp_payload := pad\<rparr>"
  have f: "\<not> pkt_rst ?p" "\<not> pkt_fin ?p" by (simp_all add: flag_tests assms(5) TCP_ACK_def bit_simps)
  have len: "recv_len kb + length pad \<le> MAX_TCP_PAYLOAD" using assms(4) j by (simp add: pending_def buffered_def)
  obtain r k' where h: "tcp_handle_pkt ?p (ip a) kb = (Ok r, k')" and k': "remote_ip k' = ip a" "buffered k' = buffered kb @ pad"
    using established_data [OF _ f, of kb "ip a"] c assms(3) len by (auto simp: connected_def buffered_def mem_read_append)
  have "handle_tcp (ip a) ?p (b\<lparr>arp := arp_insert (ip a) (mac a) (arp b)\<rparr>) = (Ok (), answered a b j k' r)"
    using c by (intro handle_tcp_answered [OF p ob _ _ h k'(1)]) (simp_all add: connected_def assms(5))
  moreover have "tcp_payload ackp = []" by (simp add: assms(5))
  ultimately have "handle_eth (frame_to a b ackp @ pad) b = (Ok (), answered a b j k' r)"
    using handle_eth_padded [of "mac a" b "ip a" "ip b" ackp pad] peers_lengths [OF p] p by (simp add: peers_def)
  then show ?thesis
    using k'(2) j peers_lengths [OF p] by (simp add: pending_def tcp_frame_def length_ipv4_to_bytes assms(5))
qed

theorem padding_becomes_data_witness:
  "\<exists>b f. length f = 54 \<and> pending (snd (handle_eth (f @ [0, 0, 0, 0, 0, 0]) b)) 3 = [0, 0, 0, 0, 0, 0]"
proof -
  obtain a b where j: "joined a 0 b 3" "pending b 3 = []" using handshake [OF demo_peers] by blast
  then obtain ka where "tcp_sockets a 0 = Some ka" by (auto simp: joined_def sole_owner_def)
  from padding_becomes_data [OF j(1) this _ _ refl, of "[0, 0, 0, 0, 0, 0]"] j(2) show ?thesis
    by (auto simp: MAX_TCP_PAYLOAD_def)
qed

end
