(* ===== verification/Block_Device.thy ===== *)
theory Block_Device
  imports Prelude
begin

text \<open>
  Block storage. The trait \<open>BlockDevice\<close> (\<open>kernel/src/fs/block.rs\<close>) with its two memory-backed
  implementations (\<open>Ramdisk\<close> of \<open>block.rs\<close>, \<open>RamDisk\<close> of \<open>fs/fat.rs\<close>), and the adapter \<open>BlockIo\<close> of \<open>fs/fat.rs\<close> that gives
  the FAT library byte-wise access through a write-back cache of one block. The cache is shown to be
  invisible: any sequence of seeks, reads, writes and flushes inside the device gives the results of a flat
  array of bytes with a cursor.
\<close>

section \<open>Devices\<close>

definition BLOCK_SIZE :: nat where "BLOCK_SIZE = 512"
definition RAMDISK_BLOCKS :: nat where "RAMDISK_BLOCKS = 256"

text \<open>
  The trait as a record of its operations. \<open>read_block\<close> returns what it copies into the caller's buffer; the
  implementations leave the buffer alone when they fail.
\<close>

record 'd block_ops =
  read_block :: "u32 \<Rightarrow> ('d, unit, bytes) sm"
  write_block :: "u32 \<Rightarrow> bytes \<Rightarrow> ('d, unit, unit) sm"
  block_count :: "'d \<Rightarrow> u32"

text \<open>A device backed by a static array of \<open>n\<close> blocks: \<open>offset = lba * BLOCK_SIZE\<close> after the range check.\<close>

definition ram_read :: "nat \<Rightarrow> u32 \<Rightarrow> (u8 arr, unit, bytes) sm" where
  "ram_read n lba =
     (if unat lba \<ge> n then throw ()
      else gets (\<lambda>d. mem_read d (unat lba * BLOCK_SIZE) BLOCK_SIZE))"

definition ram_write :: "nat \<Rightarrow> u32 \<Rightarrow> bytes \<Rightarrow> (u8 arr, unit, unit) sm" where
  "ram_write n lba buf =
     (if unat lba \<ge> n then throw ()
      else modify (\<lambda>d. mem_write d (unat lba * BLOCK_SIZE) buf))"

definition Ramdisk :: "u8 arr block_ops" where
  "Ramdisk = \<lparr>read_block = ram_read RAMDISK_BLOCKS, write_block = ram_write RAMDISK_BLOCKS,
     block_count = \<lambda>_. word_of_nat RAMDISK_BLOCKS\<rparr>"

definition RAM_FAT_SIZE :: nat where "RAM_FAT_SIZE = 2 * 1024 * 1024"
definition RAM_BLOCKS :: nat where "RAM_BLOCKS = RAM_FAT_SIZE div BLOCK_SIZE"

definition RamDisk :: "u8 arr block_ops" where
  "RamDisk = \<lparr>read_block = ram_read RAM_BLOCKS, write_block = ram_write RAM_BLOCKS,
     block_count = \<lambda>_. word_of_nat RAM_BLOCKS\<rparr>"

section \<open>The byte-wise adapter\<close>

record 'd block_io =
  io_dev :: 'd
  io_pos :: u64
  io_buf :: bytes
  buf_lba :: "u32 option"
  buf_dirty :: bool

definition block_io_new :: "'d \<Rightarrow> 'd block_io" where
  "block_io_new d = \<lparr>io_dev = d, io_pos = 0, io_buf = replicate BLOCK_SIZE 0, buf_lba = None, buf_dirty = False\<rparr>"

text \<open>A device operation inside the adapter.\<close>

definition on_dev :: "('d, 'e, 'a) sm \<Rightarrow> ('d block_io, 'e, 'a) sm" where
  "on_dev m = (\<lambda>io. let (r, d) = m (io_dev io) in (r, io\<lparr>io_dev := d\<rparr>))"

definition flush_dirty :: "'d block_ops \<Rightarrow> ('d block_io, unit, unit) sm" where
  "flush_dirty D =
     sbind (gets id) (\<lambda>io.
     if buf_dirty io then
       (case buf_lba io of
          Some lba \<Rightarrow> sthen (on_dev (write_block D lba (io_buf io))) (modify (\<lambda>io. io\<lparr>buf_dirty := False\<rparr>))
        | None \<Rightarrow> ret ())
     else ret ())"

definition ensure_block :: "'d block_ops \<Rightarrow> u32 \<Rightarrow> ('d block_io, unit, unit) sm" where
  "ensure_block D lba =
     sbind (gets buf_lba) (\<lambda>l.
     if l = Some lba then ret ()
     else
       sthen (flush_dirty D)
       (sbind (on_dev (read_block D lba)) (\<lambda>b.
        modify (\<lambda>io. io\<lparr>io_buf := b, buf_lba := Some lba\<rparr>))))"

text \<open>\<open>self.pos += avail as u64\<close>\<close>

definition advance :: "nat \<Rightarrow> ('d block_io, unit, unit) sm" where
  "advance k =
     sbind (gets io_pos) (\<lambda>p.
     sthen (guard_panic (unat p + k \<ge> 2 ^ 64)) (modify (\<lambda>io. io\<lparr>io_pos := p + word_of_nat k\<rparr>)))"

definition cur_lba :: "u64 \<Rightarrow> u32" where
  "cur_lba p = ucast (p div word_of_nat BLOCK_SIZE)"

definition cur_off :: "u64 \<Rightarrow> nat" where
  "cur_off p = unat (p mod word_of_nat BLOCK_SIZE)"

lemma cur_off_less: "cur_off p < BLOCK_SIZE"
  by (simp add: cur_off_def BLOCK_SIZE_def unat_mod)

text \<open>\<open>read\<close> with \<open>n\<close> bytes of the caller's buffer left to fill; the result is what it fills in.\<close>

function read_from :: "'d block_ops \<Rightarrow> nat \<Rightarrow> ('d block_io, unit, bytes) sm" where
  "read_from D n =
     (if n = 0 then ret []
      else
        sbind (gets io_pos) (\<lambda>p.
        let avail = min (BLOCK_SIZE - cur_off p) n in
        sthen (ensure_block D (cur_lba p))
        (sbind (gets io_buf) (\<lambda>b.
         sthen (advance avail)
         (sbind (read_from D (n - avail)) (\<lambda>rest.
          ret (take avail (drop (cur_off p) b) @ rest)))))))"
  by pat_completeness auto
termination
  by (relation "measure snd") (auto simp: cur_off_less)

text \<open>
  \<open>write\<close> with the part of the caller's data that is left. A write of a whole block skips reading it; since
  \<open>off\<close> is 0 there, the block is then overwritten from its start.
\<close>

function write_from :: "'d block_ops \<Rightarrow> bytes \<Rightarrow> ('d block_io, unit, unit) sm" where
  "write_from D bs =
     (if bs = [] then ret ()
      else
        sbind (gets io_pos) (\<lambda>p.
        let off = cur_off p; avail = min (BLOCK_SIZE - off) (length bs) in
        sthen
          (if off \<noteq> 0 \<or> length bs < BLOCK_SIZE then ensure_block D (cur_lba p)
           else sthen (flush_dirty D)
                  (modify (\<lambda>io. io\<lparr>buf_lba := Some (cur_lba p), io_buf := replicate BLOCK_SIZE 0\<rparr>)))
        (sthen (modify (\<lambda>io. io\<lparr>io_buf := take off (io_buf io) @ take avail bs @ drop (off + avail) (io_buf io),
                                buf_dirty := True\<rparr>))
        (sthen (advance avail) (write_from D (drop avail bs))))))"
  by pat_completeness auto
termination
  by (relation "measure (length \<circ> snd)") (auto simp: cur_off_less)

declare read_from.simps [simp del] write_from.simps [simp del]

definition io_read :: "'d block_ops \<Rightarrow> nat \<Rightarrow> ('d block_io, unit, bytes) sm" where
  "io_read = read_from"

definition io_write :: "'d block_ops \<Rightarrow> bytes \<Rightarrow> ('d block_io, unit, nat) sm" where
  "io_write D bs = sthen (write_from D bs) (ret (length bs))"

definition io_flush :: "'d block_ops \<Rightarrow> ('d block_io, unit, unit) sm" where
  "io_flush = flush_dirty"

datatype seek_from = SeekStart u64 | SeekCurrent i64 | SeekEnd i64

text \<open>The new position is computed as an \<open>i64\<close>; the addition is checked.\<close>

definition io_seek :: "seek_from \<Rightarrow> ('d block_io, unit, u64) sm" where
  "io_seek from =
     sbind (gets io_pos) (\<lambda>p.
     sbind (case from of
         SeekStart n \<Rightarrow> ret n
       | SeekCurrent n \<Rightarrow>
           (let q = sint p + sint n in
            if q < - (2 ^ 63) \<or> q \<ge> 2 ^ 63 then panic else ret (word_of_int q))
       | SeekEnd _ \<Rightarrow> throw ()) (\<lambda>new_pos :: i64.
     if sint new_pos < 0 then throw ()
     else sthen (modify (\<lambda>io. io\<lparr>io_pos := new_pos\<rparr>)) (ret new_pos)))"

section \<open>The contract of a device\<close>

text \<open>
  A device of \<open>N\<close> blocks that holds the bytes \<open>content d\<close>: an access inside the device succeeds and reads or
  replaces one block, an access outside fails and changes nothing.
\<close>

locale block_device =
  fixes D :: "'d block_ops" and dev_ok :: "'d \<Rightarrow> bool" and N :: nat and content :: "'d \<Rightarrow> u8 arr"
  assumes size: "N \<le> 2 ^ 32"
    and read_inside: "dev_ok d \<Longrightarrow> unat lba < N \<Longrightarrow>
      \<exists>d'. read_block D lba d = (Ok (mem_read (content d) (unat lba * BLOCK_SIZE) BLOCK_SIZE), d') \<and> dev_ok d' \<and> content d' = content d"
    and read_outside: "dev_ok d \<Longrightarrow> N \<le> unat lba \<Longrightarrow> \<exists>d'. read_block D lba d = (Err (), d') \<and> dev_ok d' \<and> content d' = content d"
    and write_inside: "dev_ok d \<Longrightarrow> unat lba < N \<Longrightarrow> length b = BLOCK_SIZE \<Longrightarrow>
      \<exists>d'. write_block D lba b d = (Ok (), d') \<and> dev_ok d' \<and> content d' = mem_write (content d) (unat lba * BLOCK_SIZE) b"
    and write_outside: "dev_ok d \<Longrightarrow> N \<le> unat lba \<Longrightarrow>
      \<exists>d'. write_block D lba b d = (Err (), d') \<and> dev_ok d' \<and> content d' = content d"

interpretation ramdisk: block_device Ramdisk "\<lambda>_. True" RAMDISK_BLOCKS id
  by unfold_locales (auto simp: Ramdisk_def ram_read_def ram_write_def sm_defs RAMDISK_BLOCKS_def)

interpretation ramfat: block_device RamDisk "\<lambda>_. True" RAM_BLOCKS id
  by unfold_locales (auto simp: RamDisk_def ram_read_def ram_write_def sm_defs RAM_BLOCKS_def RAM_FAT_SIZE_def BLOCK_SIZE_def)

section \<open>The cache is transparent\<close>

text \<open>The bytes that a user of the adapter sees: the device's, with the cached block in front.\<close>

definition flat :: "('d \<Rightarrow> u8 arr) \<Rightarrow> 'd block_io \<Rightarrow> u8 arr" where
  "flat content io =
     (case buf_lba io of
        Some l \<Rightarrow> mem_write (content (io_dev io)) (unat l * BLOCK_SIZE) (io_buf io)
      | None \<Rightarrow> content (io_dev io))"

definition cache_ok :: "('d \<Rightarrow> bool) \<Rightarrow> nat \<Rightarrow> ('d \<Rightarrow> u8 arr) \<Rightarrow> 'd block_io \<Rightarrow> bool" where
  "cache_ok dev_ok N content io \<longleftrightarrow> dev_ok (io_dev io) \<and> length (io_buf io) = BLOCK_SIZE
     \<and> (buf_dirty io \<longrightarrow> buf_lba io \<noteq> None)
     \<and> (\<forall>l. buf_lba io = Some l \<longrightarrow> unat l < N
          \<and> (\<not> buf_dirty io \<longrightarrow> io_buf io = mem_read (content (io_dev io)) (unat l * BLOCK_SIZE) BLOCK_SIZE))"

lemma mem_write_read [simp]: "mem_write m a (mem_read m a n) = m"
  by (rule ext) (auto simp: mem_write_def)

lemma mem_write_twice: "length b = length c \<Longrightarrow> mem_write (mem_write m a b) a c = mem_write m a c"
  by (rule ext) (auto simp: mem_write_def)

lemma unat_cur_lba: "unat p < BLOCK_SIZE * N \<Longrightarrow> N \<le> 2 ^ 32 \<Longrightarrow> unat (cur_lba p) = unat p div BLOCK_SIZE"
  by (simp add: cur_lba_def unsigned_ucast_eq unat_div BLOCK_SIZE_def take_bit_nat_eq_self_iff less_mult_imp_div_less)

lemma cur_off_eq: "cur_off p = unat p mod BLOCK_SIZE"
  by (simp add: cur_off_def BLOCK_SIZE_def unat_mod)

lemma run_advance:
  "unat (io_pos io) + k < 2 ^ 64 \<Longrightarrow> sthen (advance k) m io = m (io\<lparr>io_pos := io_pos io + word_of_nat k\<rparr>)"
  by (simp add: advance_def sm_defs)

lemma unat_add_nat: "unat (p :: u64) + k < 2 ^ 64 \<Longrightarrow> unat (p + word_of_nat k) = unat p + k"
  by (simp add: unat_word_ariths unat_of_nat take_bit_nat_eq_self mod_simps)

context block_device begin

lemma flush_spec:
  assumes "cache_ok dev_ok N content io"
  shows "\<exists>d. flush_dirty D io = (Ok (), io\<lparr>io_dev := d, buf_dirty := False\<rparr>) \<and> content d = flat content io
    \<and> cache_ok dev_ok N content (io\<lparr>io_dev := d, buf_dirty := False\<rparr>)"
proof (cases "buf_dirty io")
  case True
  then obtain l where l: "buf_lba io = Some l" "unat l < N" using assms by (auto simp: cache_ok_def)
  from write_inside [OF _ l(2), of "io_dev io" "io_buf io"] assms obtain d
    where d: "write_block D l (io_buf io) (io_dev io) = (Ok (), d)" "dev_ok d"
      "content d = mem_write (content (io_dev io)) (unat l * BLOCK_SIZE) (io_buf io)"
    by (auto simp: cache_ok_def)
  with True l assms show ?thesis
    by (intro exI [of _ d]) (simp add: flush_dirty_def on_dev_def sm_defs flat_def cache_ok_def)
next
  case False
  with assms have "content (io_dev io) = flat content io" by (auto simp: flat_def cache_ok_def split: option.split)
  with False assms show ?thesis
    by (intro exI [of _ "io_dev io"]) (simp add: flush_dirty_def sm_defs cache_ok_def)
qed

lemma flat_clean: "cache_ok dev_ok N content io \<Longrightarrow> \<not> buf_dirty io \<Longrightarrow> flat content io = content (io_dev io)"
  by (auto simp: flat_def cache_ok_def split: option.split)

lemma ensure_spec:
  assumes ok: "cache_ok dev_ok N content io" and l: "unat l < N"
  shows "\<exists>io'. ensure_block D l io = (Ok (), io') \<and> cache_ok dev_ok N content io' \<and> flat content io' = flat content io
    \<and> io_pos io' = io_pos io \<and> buf_lba io' = Some l"
proof (cases "buf_lba io = Some l")
  case True
  with ok show ?thesis by (auto simp: ensure_block_def sm_defs)
next
  case False
  obtain d where f: "flush_dirty D io = (Ok (), io\<lparr>io_dev := d, buf_dirty := False\<rparr>)" "content d = flat content io"
    and ok': "cache_ok dev_ok N content (io\<lparr>io_dev := d, buf_dirty := False\<rparr>)" using flush_spec [OF ok] by blast
  then obtain d' where r: "read_block D l d = (Ok (mem_read (content d) (unat l * BLOCK_SIZE) BLOCK_SIZE), d')" "dev_ok d'"
    "content d' = content d" using read_inside [OF _ l, of d] by (auto simp: cache_ok_def)
  have "ensure_block D l io = (Ok (), io\<lparr>io_dev := d', buf_dirty := False,
      io_buf := mem_read (content d) (unat l * BLOCK_SIZE) BLOCK_SIZE, buf_lba := Some l\<rparr>)"
    using False f(1) r(1) by (simp add: ensure_block_def on_dev_def sm_defs)
  with r(2,3) f(2) l show ?thesis by (simp add: cache_ok_def flat_def)
qed

lemma cached_block:
  assumes "cache_ok dev_ok N content io" and "buf_lba io = Some l"
  shows "io_buf io = mem_read (flat content io) (unat l * BLOCK_SIZE) BLOCK_SIZE"
  using assms by (simp add: flat_def cache_ok_def)

lemma here:
  assumes "unat p < BLOCK_SIZE * N"
  shows "unat (cur_lba p) < N" and "unat (cur_lba p) * BLOCK_SIZE + cur_off p = unat p"
  using assms size by (simp_all add: unat_cur_lba cur_off_eq less_mult_imp_div_less mult.commute)

lemma position_fits: "p \<le> BLOCK_SIZE * N \<Longrightarrow> p < 2 ^ 64"
  using size by (simp add: BLOCK_SIZE_def)

end

lemma take_drop_mem_read: "off + k \<le> n \<Longrightarrow> take k (drop off (mem_read m a n)) = mem_read m (a + off) k"
  by (rule nth_equalityI) (simp_all add: add.assoc)

lemma mem_read_add: "mem_read m a j @ mem_read m (a + j) k = mem_read m a (j + k)"
  by (simp add: mem_read_def add.assoc [symmetric] upt_add_eq_append [of a "a + j"] flip: map_append)

context block_device begin

lemma read_spec:
  assumes "cache_ok dev_ok N content io" and "n = 0 \<or> unat (io_pos io) + n \<le> BLOCK_SIZE * N"
  shows "\<exists>io'. read_from D n io = (Ok (mem_read (flat content io) (unat (io_pos io)) n), io')
    \<and> cache_ok dev_ok N content io' \<and> flat content io' = flat content io \<and> unat (io_pos io') = unat (io_pos io) + n"
  using assms
proof (induction n arbitrary: io rule: less_induct)
  case (less n)
  show ?case
  proof (cases "n = 0")
    case True
    with less.prems show ?thesis by (simp add: read_from.simps sm_defs mem_read_def)
  next
    case False
    let ?p = "io_pos io" and ?o = "cur_off (io_pos io)"
    let ?k = "min (BLOCK_SIZE - ?o) n"
    have fit: "unat ?p + n \<le> BLOCK_SIZE * N" using False less.prems by simp
    with False have p: "unat ?p < BLOCK_SIZE * N" by simp
    have k: "0 < ?k" "?k \<le> n" "?o + ?k \<le> BLOCK_SIZE" using False cur_off_less [of ?p] by auto
    obtain io1 where e: "ensure_block D (cur_lba ?p) io = (Ok (), io1)" "cache_ok dev_ok N content io1"
      "flat content io1 = flat content io" "io_pos io1 = ?p" "buf_lba io1 = Some (cur_lba ?p)"
      using ensure_spec [OF less.prems(1) here(1) [OF p]] by blast
    let ?io2 = "io1\<lparr>io_pos := ?p + word_of_nat ?k\<rparr>"
    have room: "unat ?p + ?k < 2 ^ 64" using position_fits [of "unat ?p + ?k"] fit k(2) by linarith
    then have p2: "unat (io_pos ?io2) = unat ?p + ?k" by (simp add: unat_add_nat)
    have ok2: "cache_ok dev_ok N content ?io2" "flat content ?io2 = flat content io"
      using e by (simp_all add: cache_ok_def flat_def)
    have "n - ?k < n" "n - ?k = 0 \<or> unat (io_pos ?io2) + (n - ?k) \<le> BLOCK_SIZE * N" using k p2 fit by auto
    from less.IH [OF this(1) ok2(1) this(2)] obtain io' where r:
      "read_from D (n - ?k) ?io2 = (Ok (mem_read (flat content io) (unat ?p + ?k) (n - ?k)), io')"
      "cache_ok dev_ok N content io'" "flat content io' = flat content io" "unat (io_pos io') = unat ?p + ?k + (n - ?k)"
      unfolding ok2(2) p2 by blast
    have b: "take ?k (drop ?o (io_buf io1)) = mem_read (flat content io) (unat ?p) ?k"
      using cached_block [OF e(2,5)] here(2) [OF p] e(3) k(3) by (simp add: take_drop_mem_read)
    have "read_from D n io = (Ok (mem_read (flat content io) (unat ?p) ?k
        @ mem_read (flat content io) (unat ?p + ?k) (n - ?k)), io')"
      using False e(4) room r(1) b
      by (subst read_from.simps)
        (simp add: run_gets run_step(2) [where m = "ensure_block D (cur_lba ?p)", OF e(1)] run_advance
          run_step(1) [where m = "read_from D (n - ?k)", OF r(1)] run_ret Let_def)
    with r(2-4) k(2) show ?thesis by (simp add: mem_read_add)
  qed
qed

end

lemma mem_write_splice:
  assumes "off + length c \<le> length b"
  shows "mem_write m a (take off b @ c @ drop (off + length c) b) = mem_write (mem_write m a b) (a + off) c"
proof
  fix k
  show "mem_write m a (take off b @ c @ drop (off + length c) b) k = mem_write (mem_write m a b) (a + off) c k"
    using assms by (auto simp: mem_write_def nth_append min_def)
qed

lemma mem_write_Nil [simp]: "mem_write m a [] = m"
  by (rule ext) (auto simp: mem_write_def)

lemma io_pos_irrelevant [simp]:
  "flat content (io\<lparr>io_pos := p\<rparr>) = flat content io"
  "cache_ok dev_ok N content (io\<lparr>io_pos := p\<rparr>) = cache_ok dev_ok N content io"
  by (simp_all add: flat_def cache_ok_def split: option.split)

lemma mem_write_append: "mem_write (mem_write m a b) (a + length b) c = mem_write m a (b @ c)"
  by (rule ext) (auto simp: mem_write_def nth_append)

text \<open>The part of \<open>bs\<close> that goes into the current block, once the block is in the cache.\<close>

definition put_chunk :: "nat \<Rightarrow> bytes \<Rightarrow> 'd block_io \<Rightarrow> 'd block_io" where
  "put_chunk off c io = io\<lparr>io_buf := take off (io_buf io) @ c @ drop (off + length c) (io_buf io), buf_dirty := True\<rparr>"

context block_device begin

lemma partial_block:
  assumes ok: "cache_ok dev_ok N content io" and p: "unat (io_pos io) < BLOCK_SIZE * N" and c: "cur_off (io_pos io) + length c \<le> BLOCK_SIZE"
  shows "\<exists>io1. ensure_block D (cur_lba (io_pos io)) io = (Ok (), io1) \<and> io_pos io1 = io_pos io
    \<and> cache_ok dev_ok N content (put_chunk (cur_off (io_pos io)) c io1)
    \<and> flat content (put_chunk (cur_off (io_pos io)) c io1) = mem_write (flat content io) (unat (io_pos io)) c"
proof -
  let ?l = "cur_lba (io_pos io)" and ?o = "cur_off (io_pos io)"
  obtain io1 where e: "ensure_block D ?l io = (Ok (), io1)" "cache_ok dev_ok N content io1"
    "flat content io1 = flat content io" "io_pos io1 = io_pos io" "buf_lba io1 = Some ?l"
    using ensure_spec [OF ok here(1) [OF p]] by blast
  have len: "length (io_buf io1) = BLOCK_SIZE" using e(2) by (simp add: cache_ok_def)
  have "flat content (put_chunk ?o c io1) = mem_write (flat content io1) (unat ?l * BLOCK_SIZE + ?o) c"
    using e(5) c len by (simp add: flat_def put_chunk_def mem_write_splice)
  then have "flat content (put_chunk ?o c io1) = mem_write (flat content io) (unat (io_pos io)) c"
    using here(2) [OF p] e(3) by simp
  moreover have "cache_ok dev_ok N content (put_chunk ?o c io1)"
    using e(2,5) c len by (auto simp: cache_ok_def put_chunk_def)
  ultimately show ?thesis using e(1,4) by blast
qed

lemma whole_block:
  assumes ok: "cache_ok dev_ok N content io" and p: "unat (io_pos io) < BLOCK_SIZE * N" and o: "cur_off (io_pos io) = 0"
    and c: "length c = BLOCK_SIZE"
  shows "\<exists>io1. sthen (flush_dirty D) (modify (\<lambda>io'. io'\<lparr>buf_lba := Some (cur_lba (io_pos io)), io_buf := replicate BLOCK_SIZE 0\<rparr>)) io
      = (Ok (), io1) \<and> io_pos io1 = io_pos io
    \<and> cache_ok dev_ok N content (put_chunk 0 c io1)
    \<and> flat content (put_chunk 0 c io1) = mem_write (flat content io) (unat (io_pos io)) c"
proof -
  let ?l = "cur_lba (io_pos io)"
  obtain d where f: "flush_dirty D io = (Ok (), io\<lparr>io_dev := d, buf_dirty := False\<rparr>)" "content d = flat content io" "dev_ok d"
    using flush_spec [OF ok] by (auto simp: cache_ok_def)
  have "unat ?l * BLOCK_SIZE = unat (io_pos io)" using here(2) [OF p] o by simp
  with f c here(1) [OF p] show ?thesis
    by (simp add: sm_defs put_chunk_def cache_ok_def flat_def)
qed

lemma write_spec:
  assumes "cache_ok dev_ok N content io" and "bs = [] \<or> unat (io_pos io) + length bs \<le> BLOCK_SIZE * N"
  shows "\<exists>io'. write_from D bs io = (Ok (), io') \<and> cache_ok dev_ok N content io'
    \<and> flat content io' = mem_write (flat content io) (unat (io_pos io)) bs \<and> unat (io_pos io') = unat (io_pos io) + length bs"
  using assms
proof (induction bs arbitrary: io rule: length_induct)
  case (1 bs)
  show ?case
  proof (cases "bs = []")
    case True
    with "1.prems" show ?thesis by (simp add: write_from.simps sm_defs)
  next
    case False
    let ?p = "io_pos io" and ?o = "cur_off (io_pos io)"
    let ?k = "min (BLOCK_SIZE - ?o) (length bs)" and ?c = "take (min (BLOCK_SIZE - cur_off (io_pos io)) (length bs)) bs"
    define prep where "prep = (if ?o \<noteq> 0 \<or> length bs < BLOCK_SIZE then ensure_block D (cur_lba ?p)
       else sthen (flush_dirty D) (modify (\<lambda>io. io\<lparr>buf_lba := Some (cur_lba ?p), io_buf := replicate BLOCK_SIZE 0\<rparr>)))"
    have fit: "unat ?p + length bs \<le> BLOCK_SIZE * N" using False "1.prems"(2) by simp
    with False have p: "unat ?p < BLOCK_SIZE * N" by (cases bs) simp_all
    have k: "0 < ?k" "?k \<le> length bs" "?o + ?k \<le> BLOCK_SIZE" "length ?c = ?k"
      using False cur_off_less [of ?p] by (cases bs; simp)+
    obtain io1 where w: "prep io = (Ok (), io1)" "io_pos io1 = ?p" "cache_ok dev_ok N content (put_chunk ?o ?c io1)"
      "flat content (put_chunk ?o ?c io1) = mem_write (flat content io) (unat ?p) ?c"
    proof (cases "?o \<noteq> 0 \<or> length bs < BLOCK_SIZE")
      case True
      with partial_block [OF "1.prems"(1) p, of ?c] k(3,4) that show thesis by (auto simp: prep_def)
    next
      case False
      with whole_block [OF "1.prems"(1) p, of ?c] k(3,4) that show thesis by (auto simp: prep_def)
    qed
    let ?io2 = "(put_chunk ?o ?c io1)\<lparr>io_pos := ?p + word_of_nat ?k\<rparr>"
    have room: "unat ?p + ?k < 2 ^ 64" using position_fits [of "unat ?p + ?k"] fit k(2) by linarith
    then have p2: "unat (io_pos ?io2) = unat ?p + ?k" by (simp add: unat_add_nat)
    have ok2: "cache_ok dev_ok N content ?io2" "flat content ?io2 = mem_write (flat content io) (unat ?p) ?c"
      using w(3,4) by simp_all
    have "length (drop ?k bs) < length bs" "drop ?k bs = [] \<or> unat (io_pos ?io2) + length (drop ?k bs) \<le> BLOCK_SIZE * N"
      using k p2 fit by auto
    from "1.IH" [rule_format, OF this(1) ok2(1) this(2)] obtain io' where r: "write_from D (drop ?k bs) ?io2 = (Ok (), io')"
      "cache_ok dev_ok N content io'" "unat (io_pos io') = unat ?p + length bs"
      "flat content io' = mem_write (mem_write (flat content io) (unat ?p) ?c) (unat ?p + ?k) (drop ?k bs)"
      unfolding ok2(2) p2 using k(2) by auto
    have "write_from D bs io = sthen prep (sthen (modify (\<lambda>io. io\<lparr>io_buf := take ?o (io_buf io) @ ?c @ drop (?o + ?k) (io_buf io),
        buf_dirty := True\<rparr>)) (sthen (advance ?k) (write_from D (drop ?k bs)))) io"
      using False by (subst write_from.simps) (simp add: run_gets prep_def Let_def)
    also have "\<dots> = sthen (advance ?k) (write_from D (drop ?k bs)) (put_chunk ?o ?c io1)"
      using k(4) by (simp add: run_step(2) [where m = prep, OF w(1)] run_modify put_chunk_def)
    also have "\<dots> = (Ok (), io')"
      using room w(2) r(1) by (simp add: run_advance put_chunk_def)
    finally show ?thesis
      using r(2-4) k(4) mem_write_append [of "flat content io" "unat ?p" ?c "drop ?k bs"] by simp
  qed
qed

end

section \<open>Sequences of operations\<close>

datatype io_op = OpSeek seek_from | OpRead nat | OpWrite bytes | OpFlush
datatype io_res = RPos u64 | RBytes bytes | RCount nat | RUnit

definition io_step :: "'d block_ops \<Rightarrow> io_op \<Rightarrow> ('d block_io, unit, io_res) sm" where
  "io_step D op = (case op of
       OpSeek w \<Rightarrow> sbind (io_seek w) (\<lambda>p. ret (RPos p))
     | OpRead n \<Rightarrow> sbind (io_read D n) (\<lambda>b. ret (RBytes b))
     | OpWrite bs \<Rightarrow> sbind (io_write D bs) (\<lambda>n. ret (RCount n))
     | OpFlush \<Rightarrow> sthen (io_flush D) (ret RUnit))"

primrec run_all :: "('o \<Rightarrow> ('s, 'e, 'r) sm) \<Rightarrow> 'o list \<Rightarrow> 's \<Rightarrow> ('e, 'r) result list \<times> 's" where
  "run_all f [] s = ([], s)"
| "run_all f (op # ops) s = (let (r, s1) = f op s; (rs, s2) = run_all f ops s1 in (r # rs, s2))"

text \<open>The specification: an array of bytes with a cursor.\<close>

record flat_file =
  ff_bytes :: "u8 arr"
  ff_pos :: nat

definition flat_step :: "io_op \<Rightarrow> (flat_file, unit, io_res) sm" where
  "flat_step op = (\<lambda>f. case op of
       OpSeek (SeekStart n) \<Rightarrow> if unat n < 2 ^ 63 then (Ok (RPos n), f\<lparr>ff_pos := unat n\<rparr>) else (Err (), f)
     | OpSeek (SeekCurrent n) \<Rightarrow>
         let q = int (ff_pos f) + sint n in
         if q \<ge> 2 ^ 63 then (Panic, f)
         else if q < 0 then (Err (), f)
         else (Ok (RPos (word_of_int q)), f\<lparr>ff_pos := nat q\<rparr>)
     | OpSeek (SeekEnd n) \<Rightarrow> (Err (), f)
     | OpRead n \<Rightarrow> (Ok (RBytes (mem_read (ff_bytes f) (ff_pos f) n)), f\<lparr>ff_pos := ff_pos f + n\<rparr>)
     | OpWrite bs \<Rightarrow> (Ok (RCount (length bs)), f\<lparr>ff_bytes := mem_write (ff_bytes f) (ff_pos f) bs, ff_pos := ff_pos f + length bs\<rparr>)
     | OpFlush \<Rightarrow> (Ok RUnit, f))"

text \<open>Reads and writes stay inside a device of \<open>N\<close> blocks.\<close>

definition inside :: "nat \<Rightarrow> io_op \<Rightarrow> flat_file \<Rightarrow> bool" where
  "inside N op f = (case op of
       OpRead n \<Rightarrow> n = 0 \<or> ff_pos f + n \<le> BLOCK_SIZE * N
     | OpWrite bs \<Rightarrow> bs = [] \<or> ff_pos f + length bs \<le> BLOCK_SIZE * N
     | _ \<Rightarrow> True)"

primrec all_inside :: "nat \<Rightarrow> io_op list \<Rightarrow> flat_file \<Rightarrow> bool" where
  "all_inside N [] f = True"
| "all_inside N (op # ops) f = (inside N op f \<and> all_inside N ops (snd (flat_step op f)))"

definition shows_file :: "('d \<Rightarrow> bool) \<Rightarrow> nat \<Rightarrow> ('d \<Rightarrow> u8 arr) \<Rightarrow> 'd block_io \<Rightarrow> flat_file \<Rightarrow> bool" where
  "shows_file dev_ok N content io f \<longleftrightarrow> cache_ok dev_ok N content io \<and> flat content io = ff_bytes f
     \<and> unat (io_pos io) = ff_pos f \<and> ff_pos f < 2 ^ 63"

lemma sint_small: "unat (p :: u64) < 2 ^ 63 \<Longrightarrow> sint p = int (unat p)"
  using signed_take_bit_int_eq_self [of 63 "uint p"] sint_uint [of p] uint_ge_0 [of p]
  by (simp add: nat_less_iff flip: nat_uint_eq)

lemma unat_of_int: "0 \<le> q \<Longrightarrow> q < 2 ^ 64 \<Longrightarrow> unat (word_of_int q :: u64) = nat q"
  by (simp add: uint_word_of_int flip: nat_uint_eq)

lemma sint_negative_iff: "sint (p :: u64) < 0 \<longleftrightarrow> \<not> unat p < 2 ^ 63"
proof (cases "sint p < 0")
  case False
  have "uint p = sint p"
    using False sint_lt [of p] by (subst uint_sint) (simp add: take_bit_int_eq_self)
  then show ?thesis using False sint_lt [of p] by (simp flip: nat_uint_eq)
next
  case True
  then show ?thesis using sint_small [of p] by auto
qed

context block_device begin

lemma seek_sim:
  assumes "shows_file dev_ok N content io f"
  shows "fst (io_step D (OpSeek w) io) = fst (flat_step (OpSeek w) f)
    \<and> shows_file dev_ok N content (snd (io_step D (OpSeek w) io)) (snd (flat_step (OpSeek w) f))"
proof (cases w)
  case (SeekStart n)
  with assms show ?thesis
    by (simp add: io_step_def flat_step_def io_seek_def sm_defs sint_negative_iff shows_file_def)
next
  case (SeekCurrent n)
  have s: "sint (io_pos io) = int (ff_pos f)" using assms by (simp add: shows_file_def sint_small)
  have q: "- (2 ^ 63) \<le> sint n" using sint_ge [of n] by simp
  show ?thesis
  proof (cases "0 \<le> int (ff_pos f) + sint n \<and> int (ff_pos f) + sint n < 2 ^ 63")
    case True
    let ?q = "int (ff_pos f) + sint n"
    have "unat (word_of_int ?q :: u64) = nat ?q" using True by (intro unat_of_int) simp_all
    with True SeekCurrent s q assms show ?thesis
      by (simp add: io_step_def flat_step_def io_seek_def sm_defs sint_negative_iff shows_file_def Let_def nat_less_iff del: of_int_add)
  next
    case False
    have "sint (word_of_int (int (ff_pos f) + sint n) :: i64) < 0" if "int (ff_pos f) + sint n < 0"
      using that q by (subst sint_sbintrunc') (simp add: signed_take_bit_int_eq_self)
    with False SeekCurrent s q assms show ?thesis
      by (auto simp: io_step_def flat_step_def io_seek_def sm_defs Let_def simp del: of_int_add)
  qed
next
  case (SeekEnd n)
  with assms show ?thesis by (simp add: io_step_def flat_step_def io_seek_def sm_defs)
qed

lemma step_sim:
  assumes "shows_file dev_ok N content io f" and "inside N op f"
  shows "fst (io_step D op io) = fst (flat_step op f)
    \<and> shows_file dev_ok N content (snd (io_step D op io)) (snd (flat_step op f))"
proof (cases op)
  case (OpSeek w)
  with seek_sim [OF assms(1), of w] show ?thesis by simp
next
  case (OpRead n)
  have ok: "cache_ok dev_ok N content io" and fit: "n = 0 \<or> unat (io_pos io) + n \<le> BLOCK_SIZE * N"
    using assms OpRead by (simp_all add: shows_file_def inside_def)
  have "n = 0 \<or> ff_pos f + n < 2 ^ 63" using assms OpRead size by (auto simp: inside_def BLOCK_SIZE_def)
  with read_spec [OF ok fit] assms(1) OpRead show ?thesis
    by (auto simp: io_step_def io_read_def flat_step_def sm_defs shows_file_def)
next
  case (OpWrite bs)
  have ok: "cache_ok dev_ok N content io" and fit: "bs = [] \<or> unat (io_pos io) + length bs \<le> BLOCK_SIZE * N"
    using assms OpWrite by (simp_all add: shows_file_def inside_def)
  have "bs = [] \<or> ff_pos f + length bs < 2 ^ 63" using assms OpWrite size by (auto simp: inside_def BLOCK_SIZE_def)
  with write_spec [OF ok fit] assms(1) OpWrite show ?thesis
    by (auto simp: io_step_def io_write_def flat_step_def sm_defs shows_file_def)
next
  case OpFlush
  have ok: "cache_ok dev_ok N content io" using assms by (simp add: shows_file_def)
  with flush_spec [OF ok] assms(1) OpFlush show ?thesis
    by (auto simp: io_step_def io_flush_def flat_step_def sm_defs shows_file_def flat_clean)
qed

lemma run_sim:
  assumes "shows_file dev_ok N content io f" and "all_inside N ops f"
  shows "fst (run_all (io_step D) ops io) = fst (run_all flat_step ops f)
    \<and> shows_file dev_ok N content (snd (run_all (io_step D) ops io)) (snd (run_all flat_step ops f))"
  using assms
proof (induction ops arbitrary: io f)
  case (Cons op ops)
  from step_sim [OF Cons.prems(1), of op] Cons.prems(2) Cons.IH [of "snd (io_step D op io)" "snd (flat_step op f)"]
  show ?case by (auto simp: Let_def split: prod.split)
qed simp

text \<open>A cache whose dirty block lies beyond the device can never be emptied.\<close>

lemma stuck_flush:
  assumes "dev_ok (io_dev io)" and "buf_dirty io" and "buf_lba io = Some l" and "N \<le> unat l"
  shows "\<exists>d. flush_dirty D io = (Err (), io\<lparr>io_dev := d\<rparr>) \<and> dev_ok d \<and> content d = content (io_dev io)"
  using write_outside [OF assms(1,4), of "io_buf io"] assms(2,3)
  by (auto simp: flush_dirty_def on_dev_def sm_defs)

lemma stuck_read:
  assumes "dev_ok (io_dev io)" and "buf_dirty io" and "buf_lba io = Some l" and "N \<le> unat l"
    and "cur_lba (io_pos io) \<noteq> l" and "0 < n"
  shows "\<exists>d. read_from D n io = (Err (), io\<lparr>io_dev := d\<rparr>) \<and> dev_ok d \<and> content d = content (io_dev io)"
proof -
  obtain d where d: "flush_dirty D io = (Err (), io\<lparr>io_dev := d\<rparr>)" "dev_ok d" "content d = content (io_dev io)"
    using stuck_flush [OF assms(1-4)] by blast
  then have "ensure_block D (cur_lba (io_pos io)) io = (Err (), io\<lparr>io_dev := d\<rparr>)"
    using assms(3,5) by (simp add: ensure_block_def sm_defs)
  with assms(6) d(2,3) show ?thesis
    by (subst read_from.simps) (auto simp: sm_defs Let_def intro!: exI [of _ d])
qed

end

lemma new_shows: "shows_file (\<lambda>_. True) N id (block_io_new d) \<lparr>ff_bytes = d, ff_pos = 0\<rparr>"
  by (simp add: shows_file_def cache_ok_def block_io_new_def flat_def)

section \<open>Properties\<close>



text \<open>
  A write of a whole block beyond the end of the device is accepted, because the block is not read first,
  and from then on the adapter is unusable: the block can never be written back, so a flush fails and so does
  every read of another block, for good, whatever position is sought.
\<close>
theorem write_past_end_blocks_device:
  assumes "cache_ok (\<lambda>_. True) RAM_BLOCKS id io" and "unat (io_pos io) = BLOCK_SIZE * n" and "RAM_BLOCKS \<le> n" and "n < 2 ^ 32"
    and "length bs = BLOCK_SIZE"
  shows "\<exists>io'. io_write RamDisk bs io = (Ok BLOCK_SIZE, io') \<and> io_flush RamDisk io' = (Err (), io')
    \<and> (\<forall>p k. 0 < k \<and> cur_lba p \<noteq> word_of_nat n \<longrightarrow>
         io_read RamDisk k (io'\<lparr>io_pos := p\<rparr>) = (Err (), io'\<lparr>io_pos := p\<rparr>))"
proof -
  let ?l = "cur_lba (io_pos io)"
  have l: "unat ?l = n" "cur_off (io_pos io) = 0"
    using assms(2,4) unat_cur_lba [of "io_pos io" "2 ^ 32"] by (simp_all add: cur_off_eq BLOCK_SIZE_def)
  obtain d where f: "flush_dirty RamDisk io = (Ok (), io\<lparr>io_dev := d, buf_dirty := False\<rparr>)" using ramfat.flush_spec [OF assms(1)] by blast
  let ?io = "io\<lparr>io_dev := d, io_pos := io_pos io + word_of_nat BLOCK_SIZE, io_buf := bs, buf_lba := Some ?l, buf_dirty := True\<rparr>"
  have room: "unat (io_pos io) + BLOCK_SIZE < 2 ^ 64" using assms(2,4) by (simp add: BLOCK_SIZE_def)
  have ne: "bs \<noteq> []" using assms(5) by (auto simp: BLOCK_SIZE_def)
  have w: "write_from RamDisk bs io = (Ok (), ?io)"
    using ne assms(5) room f l(2)
    by (subst write_from.simps) (simp add: run_gets Let_def sthen_def sbind_def modify_def advance_def guard_panic_def gets_def ret_def
        write_from.simps [of _ "[]"])
  have fl: "flush_dirty RamDisk ?io = (Err (), ?io)"
    using ramfat.stuck_flush [of ?io ?l] assms(3) l(1) by auto
  have "read_from RamDisk k (?io\<lparr>io_pos := p\<rparr>) = (Err (), ?io\<lparr>io_pos := p\<rparr>)" if "0 < k" "cur_lba p \<noteq> ?l" for p k
    using ramfat.stuck_read [of "?io\<lparr>io_pos := p\<rparr>" ?l k] that assms(3) l(1) by auto
  moreover have "?l = word_of_nat n" using l(1) by (simp flip: l(1))
  ultimately show ?thesis
    using w fl by (intro exI [of _ ?io]) (simp add: io_write_def io_flush_def io_read_def sm_defs assms(5))
qed

theorem write_past_end_blocks_device_witness:
  "\<exists>io'. io_write RamDisk (replicate BLOCK_SIZE 7) ((block_io_new (\<lambda>_. 0))\<lparr>io_pos := 2097152\<rparr>) = (Ok BLOCK_SIZE, io')
    \<and> io_read RamDisk 1 (io'\<lparr>io_pos := 0\<rparr>) = (Err (), io'\<lparr>io_pos := 0\<rparr>)"
proof -
  have "cache_ok (\<lambda>_. True) RAM_BLOCKS id ((block_io_new (\<lambda>_. 0))\<lparr>io_pos := 2097152\<rparr>)"
    by (simp add: cache_ok_def block_io_new_def)
  from write_past_end_blocks_device [OF this, of 4096 "replicate BLOCK_SIZE 7"]
  obtain io' where "io_write RamDisk (replicate BLOCK_SIZE 7) ((block_io_new (\<lambda>_. 0))\<lparr>io_pos := 2097152\<rparr>) = (Ok BLOCK_SIZE, io')"
    "cur_lba 0 \<noteq> 4096 \<Longrightarrow> io_read RamDisk 1 (io'\<lparr>io_pos := 0\<rparr>) = (Err (), io'\<lparr>io_pos := 0\<rparr>)"
    by (auto simp: BLOCK_SIZE_def RAM_BLOCKS_def RAM_FAT_SIZE_def)
  then show ?thesis by (auto simp: cur_lba_def BLOCK_SIZE_def)
qed

end
