(* ===== verification/Wasmfs.thy ===== *)
theory Wasmfs
  imports Block_Device Byte_Order File_Table
begin

text \<open>
  The flat file system WasmFS (\<open>kernel/src/fs/wasmfs.rs\<close>): a directory block of eight entries followed by the data
  of the files, each in consecutive blocks. The operations are translated over an arbitrary block device;
  over every device that keeps the contract of \<open>Block_Device\<close> a volume is shown to be a finite map from names to
  contents: what a write, an unlink, an open with its reads and the two ways of mounting a volume at boot
  mean for that map, also when the device runs out of space in the middle of a write.
\<close>

section \<open>Directory entries\<close>

definition DIR_ENTRY_SIZE :: nat where "DIR_ENTRY_SIZE = 64"
definition DIR_ENTRIES_PER_BLOCK :: nat where "DIR_ENTRIES_PER_BLOCK = BLOCK_SIZE div DIR_ENTRY_SIZE"
definition DIR_BLOCK :: u32 where "DIR_BLOCK = 0"
definition DATA_START_BLOCK :: u32 where "DATA_START_BLOCK = 1"
definition MAX_OPEN_FILES :: nat where "MAX_OPEN_FILES = 4"
definition FLAG_VALID :: u8 where "FLAG_VALID = 1"

record dir_entry =
  de_name :: bytes
  start_block :: u32
  de_size :: u32
  de_flags :: u8

definition entry_from_bytes :: "bytes \<Rightarrow> dir_entry" where
  "entry_from_bytes b = \<lparr>de_name = take 32 b, start_block = from_le (take 4 (drop 32 b)),
     de_size = from_le (take 4 (drop 36 b)), de_flags = b ! 40\<rparr>"

definition entry_to_bytes :: "dir_entry \<Rightarrow> bytes" where
  "entry_to_bytes e = de_name e @ le_bytes32 (start_block e) @ le_bytes32 (de_size e) @ [de_flags e] @ replicate 23 0"

definition is_valid :: "dir_entry \<Rightarrow> bool" where
  "is_valid e \<longleftrightarrow> de_flags e AND FLAG_VALID \<noteq> 0"

definition entry_name :: "dir_entry \<Rightarrow> bytes" where
  "entry_name e = (case from_utf8 (takeWhile (\<lambda>b. b \<noteq> 0) (de_name e)) of Some s \<Rightarrow> s | None \<Rightarrow> [])"

definition read_entry :: "bytes \<Rightarrow> nat \<Rightarrow> dir_entry" where
  "read_entry dir i = entry_from_bytes (take DIR_ENTRY_SIZE (drop (i * DIR_ENTRY_SIZE) dir))"

definition write_entry :: "bytes \<Rightarrow> nat \<Rightarrow> dir_entry \<Rightarrow> bytes" where
  "write_entry dir i e =
     take (i * DIR_ENTRY_SIZE) dir @ entry_to_bytes e @ drop (i * DIR_ENTRY_SIZE + DIR_ENTRY_SIZE) dir"

section \<open>The file system\<close>

record open_file =
  of_start :: u32
  of_size :: u32
  of_pos :: u32
  in_use :: bool

definition open_file_empty :: open_file where
  "open_file_empty = \<lparr>of_start = 0, of_size = 0, of_pos = 0, in_use = False\<rparr>"

record 'd wasmfs =
  wfs_dev :: 'd
  wfs_open :: "open_file arr"

definition wasmfs_new :: "'d \<Rightarrow> 'd wasmfs" where
  "wasmfs_new d = \<lparr>wfs_dev = d, wfs_open = \<lambda>_. open_file_empty\<rparr>"

definition at_dev :: "('d, 'e, 'a) sm \<Rightarrow> ('d wasmfs, 'e, 'a) sm" where
  "at_dev m = (\<lambda>s. let (r, d) = m (wfs_dev s) in (r, s\<lparr>wfs_dev := d\<rparr>))"

text \<open>\<open>let _ = ...\<close>: an error of the device is ignored, the buffer keeps its zeros.\<close>

definition or_default :: "'a \<Rightarrow> ('s, unit, 'a) sm \<Rightarrow> ('s, unit, 'a) sm" where
  "or_default v m = (\<lambda>s. case m s of (Err _, s') \<Rightarrow> (Ok v, s') | r \<Rightarrow> r)"

definition read_dir_block :: "'d block_ops \<Rightarrow> ('d wasmfs, unit, bytes) sm" where
  "read_dir_block D = or_default (replicate BLOCK_SIZE 0) (at_dev (read_block D DIR_BLOCK))"

definition write_dir_block :: "'d block_ops \<Rightarrow> bytes \<Rightarrow> ('d wasmfs, unit, unit) sm" where
  "write_dir_block D buf = or_default () (at_dev (write_block D DIR_BLOCK buf))"

definition entry_blocks :: "dir_entry \<Rightarrow> nat" where
  "entry_blocks e = max ((unat (de_size e) + BLOCK_SIZE - 1) div BLOCK_SIZE) 1"

fun next_free_loop :: "bytes \<Rightarrow> nat list \<Rightarrow> u32 \<Rightarrow> (unit, u32) result" where
  "next_free_loop dir [] next = Ok next"
| "next_free_loop dir (i # is) next =
     (let e = read_entry dir i in
      if is_valid e then
        if unat (start_block e) + entry_blocks e \<ge> 2 ^ 32 then Panic
        else let stop = start_block e + word_of_nat (entry_blocks e) in
          next_free_loop dir is (if stop > next then stop else next)
      else next_free_loop dir is next)"

definition next_free_block :: "'d block_ops \<Rightarrow> ('d wasmfs, unit, u32) sm" where
  "next_free_block D =
     sbind (read_dir_block D) (\<lambda>dir. lift (next_free_loop dir [0..<DIR_ENTRIES_PER_BLOCK] DATA_START_BLOCK))"

text \<open>The first valid entry with the name, and the first descriptor that is not in use.\<close>

definition find_entry :: "bytes \<Rightarrow> bytes \<Rightarrow> nat option" where
  "find_entry dir name =
     List.find (\<lambda>i. is_valid (read_entry dir i) \<and> entry_name (read_entry dir i) = name) [0..<DIR_ENTRIES_PER_BLOCK]"

definition free_fd :: "open_file arr \<Rightarrow> nat option" where
  "free_fd t = List.find (\<lambda>fd. \<not> in_use (t fd)) [0..<MAX_OPEN_FILES]"

definition fs_open :: "'d block_ops \<Rightarrow> bytes \<Rightarrow> ('d wasmfs, unit, nat option) sm" where
  "fs_open D name =
     sbind (read_dir_block D) (\<lambda>dir.
     case find_entry dir name of
       None \<Rightarrow> ret None
     | Some i \<Rightarrow>
         sbind (gets (free_fd \<circ> wfs_open)) (\<lambda>slot.
         case slot of
           None \<Rightarrow> ret None
         | Some fd \<Rightarrow>
             let e = read_entry dir i in
             sthen (modify (\<lambda>s. s\<lparr>wfs_open := (wfs_open s)(fd :=
                 \<lparr>of_start = start_block e, of_size = de_size e, of_pos = 0, in_use = True\<rparr>)\<rparr>))
             (ret (Some fd))))"

text \<open>\<open>while done < to_read\<close> with \<open>n\<close> bytes left; a failing read of a block ends the loop.\<close>

definition set_pos :: "nat \<Rightarrow> u32 \<Rightarrow> ('d wasmfs, unit, unit) sm" where
  "set_pos fd p = modify (\<lambda>s. s\<lparr>wfs_open := (wfs_open s)(fd := (wfs_open s fd)\<lparr>of_pos := p\<rparr>)\<rparr>)"

function fs_read_loop :: "'d block_ops \<Rightarrow> nat \<Rightarrow> nat \<Rightarrow> ('d wasmfs, unit, bytes) sm" where
  "fs_read_loop D fd n =
     (if n = 0 then ret []
      else
        sbind (gets (\<lambda>s. wfs_open s fd)) (\<lambda>f.
        let p = unat (of_pos f); off = p mod BLOCK_SIZE; avail = min (BLOCK_SIZE - off) n in
        if unat (of_start f) + p div BLOCK_SIZE \<ge> 2 ^ 32 then panic
        else
          (\<lambda>s. case at_dev (read_block D (of_start f + word_of_nat (p div BLOCK_SIZE))) s of
             (Err _, s) \<Rightarrow> (Ok [], s)
           | (Panic, s) \<Rightarrow> (Panic, s)
           | (Hang, s) \<Rightarrow> (Hang, s)
           | (Ok blk, s) \<Rightarrow>
               sthen (guard_panic (p + avail \<ge> 2 ^ 32))
               (sthen (set_pos fd (of_pos f + word_of_nat avail))
               (sbind (fs_read_loop D fd (n - avail)) (\<lambda>rest.
                ret (take avail (drop off blk) @ rest)))) s)))"
  by pat_completeness auto
termination
  by (relation "measure (\<lambda>(D, fd, n). n)") (auto simp: BLOCK_SIZE_def)

declare fs_read_loop.simps [simp del]

text \<open>\<open>fs_read\<close> into a buffer of \<open>cap\<close> bytes; the bytes it puts there are the result.\<close>

definition fs_read :: "'d block_ops \<Rightarrow> nat \<Rightarrow> nat \<Rightarrow> nat \<Rightarrow> ('d wasmfs, unit, bytes) sm" where
  "fs_read D fd cap len =
     sbind (gets wfs_open) (\<lambda>t.
     if fd \<ge> MAX_OPEN_FILES \<or> \<not> in_use (t fd) then ret []
     else
       let remaining = unat (of_size (t fd)) - unat (of_pos (t fd)) in
       fs_read_loop D fd (min (min len remaining) cap))"

fun find_slot :: "bytes \<Rightarrow> bytes \<Rightarrow> nat list \<Rightarrow> nat option \<Rightarrow> nat option" where
  "find_slot dir name [] slot = slot"
| "find_slot dir name (i # is) slot =
     (let e = read_entry dir i in
      if is_valid e \<and> entry_name e = name then Some i
      else find_slot dir name is (if \<not> is_valid e \<and> slot = None then Some i else slot))"

function write_blocks :: "'d block_ops \<Rightarrow> u32 \<Rightarrow> bytes \<Rightarrow> ('d wasmfs, unit, unit) sm" where
  "write_blocks D lba data =
     (if data = [] then ret ()
      else
        let chunk = take BLOCK_SIZE data in
        sthen (at_dev (write_block D lba (chunk @ replicate (BLOCK_SIZE - length chunk) 0)))
        (sthen (guard_panic (unat lba + 1 \<ge> 2 ^ 32))
        (write_blocks D (lba + 1) (drop BLOCK_SIZE data))))"
  by pat_completeness auto
termination
  by (relation "measure (\<lambda>(D, lba, data). length data)") (auto simp: BLOCK_SIZE_def)

declare write_blocks.simps [simp del]

definition pad_name :: "bytes \<Rightarrow> bytes" where
  "pad_name name = take 32 name @ replicate (32 - min (length name) 32) 0"

definition fs_write :: "'d block_ops \<Rightarrow> bytes \<Rightarrow> bytes \<Rightarrow> ('d wasmfs, unit, unit) sm" where
  "fs_write D name data =
     sbind (read_dir_block D) (\<lambda>dir.
     sbind (lift (ok_or (find_slot dir name [0..<DIR_ENTRIES_PER_BLOCK] None) ())) (\<lambda>i.
     sbind (next_free_block D) (\<lambda>start.
     sthen (write_blocks D start data)
     (write_dir_block D (write_entry dir i
        \<lparr>de_name = pad_name name, start_block = start, de_size = word_of_nat (length data), de_flags = FLAG_VALID\<rparr>)))))"

definition fs_close :: "nat \<Rightarrow> ('d wasmfs, unit, unit) sm" where
  "fs_close fd = (if fd < MAX_OPEN_FILES then modify (\<lambda>s. s\<lparr>wfs_open := (wfs_open s)(fd := (wfs_open s fd)\<lparr>in_use := False\<rparr>)\<rparr>)
     else ret ())"

definition blank_entry :: dir_entry where
  "blank_entry = \<lparr>de_name = replicate 32 0, start_block = 0, de_size = 0, de_flags = 0\<rparr>"

definition fs_unlink :: "'d block_ops \<Rightarrow> bytes \<Rightarrow> ('d wasmfs, unit, unit) sm" where
  "fs_unlink D name =
     sbind (read_dir_block D) (\<lambda>dir.
     case find_entry dir name of
       None \<Rightarrow> throw ()
     | Some i \<Rightarrow> write_dir_block D (write_entry dir i blank_entry))"

definition fs_list :: "'d block_ops \<Rightarrow> ('d wasmfs, unit, (bytes \<times> u32) list) sm" where
  "fs_list D =
     sbind (read_dir_block D) (\<lambda>dir.
     ret (map (\<lambda>e. (entry_name e, de_size e)) (filter is_valid (map (read_entry dir) [0..<DIR_ENTRIES_PER_BLOCK]))))"

section \<open>Mounting at boot\<close>

text \<open>The body of \<open>mount_from_blk\<close> for one entry; the state is the volume, the file table and the number of files mounted.\<close>

definition mount_entry :: "'d block_ops \<Rightarrow> bytes \<Rightarrow> nat \<Rightarrow> 'd wasmfs \<times> fs \<times> nat \<Rightarrow> (unit, 'd wasmfs \<times> fs \<times> nat) result" where
  "mount_entry D dir i = (\<lambda>(w, t, count).
     let e = read_entry dir i; name = entry_name e; size = unat (de_size e) in
     if \<not> is_valid e \<or> size = 0 then Ok (w, t, count)
     else case alloc_disk_slot size t of
       (None, t) \<Rightarrow> Ok (w, t, count)
     | (Some p, t) \<Rightarrow>
         (case fs_open D name w of
            (Ok (Some fd), w) \<Rightarrow>
              (case fs_read D fd size size w of
                 (Ok bs, w) \<Rightarrow>
                   let w = snd (fs_close fd w) in
                   if length bs \<noteq> size then Ok (w, t, count)
                   else Ok (w, register_file name bs t, count + 1)
               | (Err u, w) \<Rightarrow> Err u | (Panic, w) \<Rightarrow> Panic | (Hang, w) \<Rightarrow> Hang)
          | (Ok None, w) \<Rightarrow> Ok (w, t, count)
          | (Err u, w) \<Rightarrow> Err u | (Panic, w) \<Rightarrow> Panic | (Hang, w) \<Rightarrow> Hang))"

primrec mount_loop :: "'d block_ops \<Rightarrow> bytes \<Rightarrow> nat list \<Rightarrow> 'd wasmfs \<times> fs \<times> nat \<Rightarrow> (unit, 'd wasmfs \<times> fs \<times> nat) result" where
  "mount_loop D dir [] st = Ok st"
| "mount_loop D dir (i # is) st = rbind (mount_entry D dir i st) (mount_loop D dir is)"

definition mount_from_blk :: "'d block_ops \<Rightarrow> 'd \<Rightarrow> fs \<Rightarrow> (unit, nat \<times> fs) result" where
  "mount_from_blk D d t =
     (case read_dir_block D (wasmfs_new d) of
        (Ok dir, w) \<Rightarrow> rbind (mount_loop D dir [0..<DIR_ENTRIES_PER_BLOCK] (w, t, 0)) (\<lambda>(w, t, count). Ok (count, t))
      | (Err u, w) \<Rightarrow> Err u | (Panic, w) \<Rightarrow> Panic | (Hang, w) \<Rightarrow> Hang)"

text \<open>\<open>start\<close> and \<open>end\<close> are below \<open>2^42\<close>, so their arithmetic cannot overflow.\<close>

primrec mount_image_loop :: "bytes \<Rightarrow> nat list \<Rightarrow> fs \<Rightarrow> (unit, fs) result" where
  "mount_image_loop img [] t = Ok t"
| "mount_image_loop img (i # is) t =
     rbind (slice img (i * DIR_ENTRY_SIZE) (i * DIR_ENTRY_SIZE + DIR_ENTRY_SIZE)) (\<lambda>b.
     let e = entry_from_bytes b in
     if is_valid e then
       let start = unat (start_block e) * BLOCK_SIZE; stop = start + unat (de_size e) in
       if stop \<le> length img then
         rbind (slice img start stop) (\<lambda>data. mount_image_loop img is (register_file (entry_name e) data t))
       else mount_image_loop img is t
     else mount_image_loop img is t)"

definition mount_from_image :: "bytes \<Rightarrow> fs \<Rightarrow> (unit, fs) result" where
  "mount_from_image img t =
     (if length img < BLOCK_SIZE then Ok t else mount_image_loop img [0..<DIR_ENTRIES_PER_BLOCK] t)"

section \<open>Entries and directories\<close>

lemmas dir_sizes = DIR_ENTRY_SIZE_def DIR_ENTRIES_PER_BLOCK_def BLOCK_SIZE_def

lemma length_entry_to_bytes: "length (de_name e) = 32 \<Longrightarrow> length (entry_to_bytes e) = DIR_ENTRY_SIZE"
  by (simp add: entry_to_bytes_def DIR_ENTRY_SIZE_def)

lemma entry_roundtrip: "length (de_name e) = 32 \<Longrightarrow> entry_from_bytes (entry_to_bytes e) = e"
  by (simp add: entry_to_bytes_def entry_from_bytes_def nth_append from_le_bytes)

lemma read_write_entry:
  assumes "length dir = BLOCK_SIZE" and "i < DIR_ENTRIES_PER_BLOCK" and "j < DIR_ENTRIES_PER_BLOCK" and "length (de_name e) = 32"
  shows "read_entry (write_entry dir i e) j = (if j = i then e else read_entry dir j)"
proof -
  have l: "length (entry_to_bytes e) = 64" using length_entry_to_bytes [OF assms(4)] by (simp add: DIR_ENTRY_SIZE_def)
  have i: "length (take (i * 64) dir) = i * 64" using assms(1,2) by (simp add: dir_sizes)
  consider "j = i" | "j < i" | "i < j" by linarith
  then show ?thesis
  proof cases
    case 1
    with i l entry_roundtrip [OF assms(4)] show ?thesis by (simp add: read_entry_def write_entry_def DIR_ENTRY_SIZE_def)
  next
    case 2
    then have "j * 64 + 64 \<le> i * 64" by simp
    moreover from this have "take 64 (drop (j * 64) (take (i * 64) dir)) = take 64 (drop (j * 64) dir)"
      by (simp add: drop_take min_def)
    moreover have "64 \<le> length (drop (j * 64) (take (i * 64) dir))" using i calculation(1) by (simp only: length_drop)
    ultimately show ?thesis using 2 by (simp add: read_entry_def write_entry_def DIR_ENTRY_SIZE_def)
  next
    case 3
    then have "i * 64 + 64 \<le> j * 64" by simp
    with 3 i l show ?thesis by (simp add: read_entry_def write_entry_def DIR_ENTRY_SIZE_def)
  qed
qed

lemma length_write_entry:
  "length dir = BLOCK_SIZE \<Longrightarrow> i < DIR_ENTRIES_PER_BLOCK \<Longrightarrow> length (de_name e) = 32 \<Longrightarrow> length (write_entry dir i e) = BLOCK_SIZE"
  using length_entry_to_bytes [of e] by (simp add: write_entry_def dir_sizes)

text \<open>Names that an entry can hold.\<close>

definition entry_name_ok :: "bytes \<Rightarrow> bool" where
  "entry_name_ok name \<longleftrightarrow> length name \<le> 32 \<and> 0 \<notin> set name \<and> utf8_valid name"

lemma entry_name_padded:
  assumes "entry_name_ok name"
  shows "entry_name (e\<lparr>de_name := pad_name name\<rparr>) = name" and "length (pad_name name) = 32"
proof -
  have "takeWhile (\<lambda>b. b \<noteq> 0) (name @ replicate k 0) = name" for k
    using assms by (subst takeWhile_append2) (auto simp: entry_name_ok_def takeWhile_eq_Nil_iff hd_replicate)
  with assms show "entry_name (e\<lparr>de_name := pad_name name\<rparr>) = name" "length (pad_name name) = 32"
    by (simp_all add: entry_name_def pad_name_def entry_name_ok_def from_utf8_def)
qed


section \<open>Volumes\<close>

definition dir_of :: "u8 arr \<Rightarrow> bytes" where
  "dir_of c = mem_read c 0 BLOCK_SIZE"

definition entry_at :: "u8 arr \<Rightarrow> nat \<Rightarrow> dir_entry" where
  "entry_at c i = read_entry (dir_of c) i"

definition file_bytes :: "u8 arr \<Rightarrow> dir_entry \<Rightarrow> bytes" where
  "file_bytes c e = mem_read c (unat (start_block e) * BLOCK_SIZE) (unat (de_size e))"

text \<open>The map from names to contents that a volume stands for.\<close>

definition vol_files :: "u8 arr \<Rightarrow> bytes \<Rightarrow> bytes option" where
  "vol_files c name = map_option (\<lambda>i. file_bytes c (entry_at c i)) (find_entry (dir_of c) name)"

definition data_blocks :: "nat \<Rightarrow> nat" where
  "data_blocks n = (n + BLOCK_SIZE - 1) div BLOCK_SIZE"

text \<open>The first block behind the data of all files.\<close>

definition vol_end :: "u8 arr \<Rightarrow> nat" where
  "vol_end c = fold (\<lambda>i m. if is_valid (entry_at c i) then max m (unat (start_block (entry_at c i)) + entry_blocks (entry_at c i)) else m)
     [0..<DIR_ENTRIES_PER_BLOCK] 1"

definition vol_ok :: "nat \<Rightarrow> u8 arr \<Rightarrow> bool" where
  "vol_ok N c \<longleftrightarrow> 1 \<le> N \<and> N < 2 ^ 32
     \<and> (\<forall>i < DIR_ENTRIES_PER_BLOCK. is_valid (entry_at c i) \<longrightarrow>
          1 \<le> unat (start_block (entry_at c i)) \<and> unat (start_block (entry_at c i)) + entry_blocks (entry_at c i) \<le> N)
     \<and> (\<forall>i < DIR_ENTRIES_PER_BLOCK. \<forall>j < DIR_ENTRIES_PER_BLOCK. is_valid (entry_at c i) \<and> is_valid (entry_at c j)
          \<and> entry_name (entry_at c i) = entry_name (entry_at c j) \<longrightarrow> i = j)"

lemma find_upt: "List.find P [0..<n] = Some i \<longleftrightarrow> i < n \<and> P i \<and> (\<forall>j<i. \<not> P j)"
  by (auto simp: find_Some_iff intro: exI [of _ i])

lemma find_upt_None: "List.find P [0..<n] = None \<longleftrightarrow> (\<forall>j<n. \<not> P j)"
  by (auto simp: find_None_iff)

lemma find_entry_iff:
  assumes "vol_ok N c"
  shows "find_entry (dir_of c) name = Some i \<longleftrightarrow>
    i < DIR_ENTRIES_PER_BLOCK \<and> is_valid (entry_at c i) \<and> entry_name (entry_at c i) = name"
proof
  assume r: "i < DIR_ENTRIES_PER_BLOCK \<and> is_valid (entry_at c i) \<and> entry_name (entry_at c i) = name"
  have "\<not> (is_valid (entry_at c j) \<and> entry_name (entry_at c j) = name)" if "j < i" for j
    using assms r that unfolding vol_ok_def by (metis order.strict_trans nat_neq_iff)
  with r show "find_entry (dir_of c) name = Some i" by (simp add: find_entry_def find_upt flip: entry_at_def)
qed (simp add: find_entry_def find_upt flip: entry_at_def)

lemma vol_files_iff:
  assumes "vol_ok N c"
  shows "vol_files c name = Some data \<longleftrightarrow> (\<exists>i < DIR_ENTRIES_PER_BLOCK. is_valid (entry_at c i)
    \<and> entry_name (entry_at c i) = name \<and> data = file_bytes c (entry_at c i))"
  by (auto simp: vol_files_def find_entry_iff [OF assms])

text \<open>Where the data of the files lies.\<close>

lemma entry_blocks_eq: "entry_blocks e = max (data_blocks (unat (de_size e))) 1"
  by (simp add: entry_blocks_def data_blocks_def)

lemma data_blocks_le: "n \<le> data_blocks n * BLOCK_SIZE"
  by (simp add: data_blocks_def BLOCK_SIZE_def)

lemma fold_max_ge: "(m :: nat) \<le> fold (\<lambda>i m. if P i then max m (g i) else m) is m"
proof (induction "is" arbitrary: m)
  case (Cons j js)
  from Cons.IH [of m] Cons.IH [of "max m (g j)"] show ?case by auto
qed simp

lemma fold_max_le: "m \<le> B \<Longrightarrow> (\<And>i. i \<in> set is \<Longrightarrow> P i \<Longrightarrow> g i \<le> B) \<Longrightarrow> fold (\<lambda>i m. if P i then max m (g i) else m) is m \<le> (B :: nat)"
  by (induction "is" arbitrary: m) auto

lemma fold_max_covers: "i \<in> set is \<Longrightarrow> P i \<Longrightarrow> (g i :: nat) \<le> fold (\<lambda>i m. if P i then max m (g i) else m) is m"
proof (induction "is" arbitrary: m)
  case (Cons j js)
  have "max m (g j) \<le> fold (\<lambda>i m. if P i then max m (g i) else m) js (max m (g j))" by (rule fold_max_ge)
  with Cons show ?case by auto
qed simp

lemma vol_end_bounds:
  assumes "vol_ok N c"
  shows "1 \<le> vol_end c" and "vol_end c \<le> N"
    and "i < DIR_ENTRIES_PER_BLOCK \<Longrightarrow> is_valid (entry_at c i) \<Longrightarrow> unat (start_block (entry_at c i)) + entry_blocks (entry_at c i) \<le> vol_end c"
proof -
  show "1 \<le> vol_end c" unfolding vol_end_def by (rule fold_max_ge)
  show "vol_end c \<le> N" unfolding vol_end_def using assms by (intro fold_max_le) (auto simp: vol_ok_def)
  show "i < DIR_ENTRIES_PER_BLOCK \<Longrightarrow> is_valid (entry_at c i) \<Longrightarrow> unat (start_block (entry_at c i)) + entry_blocks (entry_at c i) \<le> vol_end c"
    unfolding vol_end_def by (rule fold_max_covers) auto
qed

lemma next_free_loop_eq:
  assumes "vol_ok N c" and "\<And>i. i \<in> set is \<Longrightarrow> i < DIR_ENTRIES_PER_BLOCK"
  shows "next_free_loop (dir_of c) is next = Ok (word_of_nat
    (fold (\<lambda>i m. if is_valid (entry_at c i) then max m (unat (start_block (entry_at c i)) + entry_blocks (entry_at c i)) else m) is (unat next)))"
  using assms(2)
proof (induction "is" arbitrary: "next")
  case (Cons i "is")
  let ?e = "entry_at c i" and ?b = "unat (start_block (entry_at c i)) + entry_blocks (entry_at c i)"
  show ?case
  proof (cases "is_valid ?e")
    case True
    have b: "?b < 2 ^ 32" using assms(1) Cons.prems [of i] True by (auto simp: vol_ok_def)
    then have u: "unat (start_block ?e + word_of_nat (entry_blocks ?e)) = ?b"
      by (simp add: unat_word_ariths unat_of_nat take_bit_nat_eq_self mod_simps)
    let ?n = "if start_block ?e + word_of_nat (entry_blocks ?e) > next then start_block ?e + word_of_nat (entry_blocks ?e) else next"
    have "unat ?n = max (unat next) ?b" using u by (auto simp: word_less_nat_alt max_def)
    with True b Cons.IH [of ?n] Cons.prems show ?thesis by (simp add: Let_def flip: entry_at_def)
  next
    case False
    with Cons.IH [of "next"] Cons.prems show ?thesis by (simp add: Let_def flip: entry_at_def)
  qed
qed simp

section \<open>Operations on a device that keeps its contract\<close>

lemma entry_at_dir: "dir_of c = dir_of c' \<Longrightarrow> entry_at c i = entry_at c' i"
  by (simp add: entry_at_def)

lemma mem_read_cong: "(\<And>k. a \<le> k \<Longrightarrow> k < a + n \<Longrightarrow> c k = c' k) \<Longrightarrow> mem_read c a n = mem_read c' a n"
  by (simp add: mem_read_def)

lemma data_blocks_step: "data \<noteq> [] \<Longrightarrow> m + data_blocks (length data) = (m + 1) + data_blocks (length (drop BLOCK_SIZE data))"
  by (cases "length data \<le> BLOCK_SIZE") (auto simp: data_blocks_def BLOCK_SIZE_def not_le neq_Nil_conv)

context block_device begin

lemma read_dir:
  assumes "dev_ok (wfs_dev s)" and "1 \<le> N"
  shows "\<exists>d. read_dir_block D s = (Ok (dir_of (content (wfs_dev s))), s\<lparr>wfs_dev := d\<rparr>) \<and> dev_ok d \<and> content d = content (wfs_dev s)"
  using read_inside [OF assms(1), of DIR_BLOCK] assms(2)
  by (auto simp: read_dir_block_def or_default_def at_dev_def DIR_BLOCK_def dir_of_def)

lemma write_dir:
  assumes "dev_ok (wfs_dev s)" and "1 \<le> N" and "length dir = BLOCK_SIZE"
  shows "\<exists>d. write_dir_block D dir s = (Ok (), s\<lparr>wfs_dev := d\<rparr>) \<and> dev_ok d \<and> content d = mem_write (content (wfs_dev s)) 0 dir"
  using write_inside [OF assms(1), of DIR_BLOCK dir] assms(2,3)
  by (auto simp: write_dir_block_def or_default_def at_dev_def DIR_BLOCK_def)

lemma next_free:
  assumes "dev_ok (wfs_dev s)" and "vol_ok N (content (wfs_dev s))"
  shows "\<exists>d. next_free_block D s = (Ok (word_of_nat (vol_end (content (wfs_dev s)))), s\<lparr>wfs_dev := d\<rparr>)
    \<and> dev_ok d \<and> content d = content (wfs_dev s)"
proof -
  have "1 \<le> N" using assms(2) by (simp add: vol_ok_def)
  with assms(1) obtain d where d: "read_dir_block D s = (Ok (dir_of (content (wfs_dev s))), s\<lparr>wfs_dev := d\<rparr>)" "dev_ok d"
    "content d = content (wfs_dev s)" using read_dir by blast
  have "next_free_loop (dir_of (content (wfs_dev s))) [0..<DIR_ENTRIES_PER_BLOCK] DATA_START_BLOCK
      = Ok (word_of_nat (vol_end (content (wfs_dev s))))"
    by (subst next_free_loop_eq [OF assms(2)]) (simp_all add: vol_end_def DATA_START_BLOCK_def)
  with d show ?thesis by (auto simp: next_free_block_def sbind_def lift_def intro!: exI [of _ d])
qed

text \<open>The data of a file goes to consecutive blocks; blocks before the first are not touched, and a device that is too small fails.\<close>

lemma write_blocks_spec:
  assumes "dev_ok (wfs_dev s)" and "N < 2 ^ 32"
  shows "\<exists>d. write_blocks D lba data s
      = (if data = [] \<or> unat lba + data_blocks (length data) \<le> N then Ok () else Err (), s\<lparr>wfs_dev := d\<rparr>) \<and> dev_ok d
    \<and> (\<forall>k < unat lba * BLOCK_SIZE. content d k = content (wfs_dev s) k)
    \<and> (unat lba + data_blocks (length data) \<le> N \<longrightarrow> mem_read (content d) (unat lba * BLOCK_SIZE) (length data) = data)"
  using assms
proof (induction data arbitrary: s lba rule: length_induct)
  case (1 data)
  let ?c = "content (wfs_dev s)" and ?chunk = "take BLOCK_SIZE data"
  define b where "b = ?chunk @ replicate (BLOCK_SIZE - min (length data) BLOCK_SIZE) 0"
  have b: "length b = BLOCK_SIZE" by (simp add: b_def)
  show ?case
  proof (cases "data = []")
    case True
    with "1.prems" show ?thesis by (auto simp: write_blocks.simps ret_def mem_read_def intro!: exI [of _ "wfs_dev s"])
  next
    case ne: False
    note blocks = data_blocks_step [OF ne]
    show ?thesis
    proof (cases "unat lba < N")
      case False
      then obtain d where "write_block D lba b (wfs_dev s) = (Err (), d)" "dev_ok d" "content d = ?c"
        using write_outside [OF "1.prems"(1), of lba b] by auto
      with ne False blocks show ?thesis
        by (subst write_blocks.simps) (auto simp: sthen_def sbind_def at_dev_def b_def [symmetric] Let_def intro!: exI [of _ d])
    next
      case True
      then obtain d1 where d1: "write_block D lba b (wfs_dev s) = (Ok (), d1)" "dev_ok d1"
        "content d1 = mem_write ?c (unat lba * BLOCK_SIZE) b"
        using write_inside [OF "1.prems"(1) _ b] by blast
      have next_lba: "unat (lba + 1) = unat lba + 1" "\<not> unat lba + 1 \<ge> 2 ^ 32"
        using True "1.prems"(2) by (simp_all add: unat_word_ariths)
      have "length (drop BLOCK_SIZE data) < length data" using ne by (simp add: BLOCK_SIZE_def)
      from "1.IH" [rule_format, OF this, of "s\<lparr>wfs_dev := d1\<rparr>" "lba + 1"] d1(2) "1.prems"(2) obtain d where
        w: "write_blocks D (lba + 1) (drop BLOCK_SIZE data) (s\<lparr>wfs_dev := d1\<rparr>)
          = (if drop BLOCK_SIZE data = [] \<or> unat lba + data_blocks (length data) \<le> N then Ok () else Err (), s\<lparr>wfs_dev := d\<rparr>)"
        and d: "dev_ok d" "\<And>k. k < (unat lba + 1) * BLOCK_SIZE \<Longrightarrow> content d k = content d1 k"
        and rest: "unat lba + data_blocks (length data) \<le> N \<Longrightarrow>
          mem_read (content d) ((unat lba + 1) * BLOCK_SIZE) (length data - BLOCK_SIZE) = drop BLOCK_SIZE data"
        unfolding next_lba(1) blocks by auto
      have "write_blocks D lba data s = write_blocks D (lba + 1) (drop BLOCK_SIZE data) (s\<lparr>wfs_dev := d1\<rparr>)"
        using ne d1(1) next_lba(2)
        by (subst write_blocks.simps) (simp add: sthen_def sbind_def at_dev_def b_def [symmetric] Let_def guard_panic_def ret_def)
      moreover have "drop BLOCK_SIZE data = [] \<Longrightarrow> unat lba + data_blocks (length data) \<le> N"
        using True blocks by (simp add: data_blocks_def BLOCK_SIZE_def)
      moreover have "\<forall>k < unat lba * BLOCK_SIZE. content d k = ?c k"
        using d(2) d1(3) by (auto simp: mem_write_outside)
      moreover have "mem_read (content d) (unat lba * BLOCK_SIZE) (length data) = data"
        if "unat lba + data_blocks (length data) \<le> N"
      proof -
        have "mem_read (content d) (unat lba * BLOCK_SIZE) (length ?chunk) = mem_read (content d1) (unat lba * BLOCK_SIZE) (length ?chunk)"
          by (rule mem_read_cong) (auto intro: d(2))
        also have "\<dots> = take (length ?chunk) b"
          using take_drop_mem_read [of 0 "length ?chunk" BLOCK_SIZE "content d1" "unat lba * BLOCK_SIZE"] d1(3) b by simp
        also have "\<dots> = ?chunk" by (simp add: b_def min_def)
        finally have "mem_read (content d) (unat lba * BLOCK_SIZE) (length ?chunk) = ?chunk" .
        moreover have "length data \<le> BLOCK_SIZE \<or> unat lba * BLOCK_SIZE + length ?chunk = (unat lba + 1) * BLOCK_SIZE" by auto
        ultimately show ?thesis
          using rest [OF that] mem_read_add [of "content d" "unat lba * BLOCK_SIZE" "length ?chunk" "length data - BLOCK_SIZE"]
          by (cases "length data \<le> BLOCK_SIZE") (simp_all add: min_def add.commute)
      qed
      ultimately show ?thesis using w d(1) ne by (intro exI [of _ d]) auto
    qed
  qed
qed

end

text \<open>Replacing one entry of a volume whose data is otherwise unchanged.\<close>

lemma vol_unique:
  "vol_ok N c \<Longrightarrow> i < DIR_ENTRIES_PER_BLOCK \<Longrightarrow> j < DIR_ENTRIES_PER_BLOCK \<Longrightarrow> is_valid (entry_at c i) \<Longrightarrow> is_valid (entry_at c j)
    \<Longrightarrow> entry_name (entry_at c i) = entry_name (entry_at c j) \<Longrightarrow> i = j"
  by (simp add: vol_ok_def)

lemma vol_entry:
  "vol_ok N c \<Longrightarrow> i < DIR_ENTRIES_PER_BLOCK \<Longrightarrow> is_valid (entry_at c i)
    \<Longrightarrow> 1 \<le> unat (start_block (entry_at c i)) \<and> unat (start_block (entry_at c i)) + entry_blocks (entry_at c i) \<le> N"
  by (simp add: vol_ok_def)

lemma dir_of_write: "length dir = BLOCK_SIZE \<Longrightarrow> dir_of (mem_write c 0 dir) = dir"
  by (simp add: dir_of_def)

lemma entry_at_write:
  assumes "i < DIR_ENTRIES_PER_BLOCK" and "j < DIR_ENTRIES_PER_BLOCK" and "length (de_name e) = 32"
  shows "entry_at (mem_write c' 0 (write_entry (dir_of c) i e)) j = (if j = i then e else entry_at c j)"
  using assms by (simp add: entry_at_def dir_of_write length_write_entry read_write_entry dir_of_def)

lemma valid_blank: "\<not> is_valid blank_entry" "length (de_name blank_entry) = 32"
  by (simp_all add: is_valid_def blank_entry_def)

lemma data_inside:
  assumes "unat (start_block e) + entry_blocks e \<le> M"
  shows "unat (start_block e) * BLOCK_SIZE + unat (de_size e) \<le> M * BLOCK_SIZE"
proof -
  have "unat (de_size e) \<le> entry_blocks e * BLOCK_SIZE"
    using data_blocks_le [of "unat (de_size e)"] by (simp add: entry_blocks_eq BLOCK_SIZE_def)
  moreover have "(unat (start_block e) + entry_blocks e) * BLOCK_SIZE \<le> M * BLOCK_SIZE"
    using assms by (rule mult_le_mono1)
  ultimately show ?thesis by (simp add: add_mult_distrib)
qed

lemma file_bytes_kept:
  assumes "vol_ok N c" and "i < DIR_ENTRIES_PER_BLOCK" and "is_valid (entry_at c i)"
    and "\<And>k. k < vol_end c * BLOCK_SIZE \<Longrightarrow> c' k = c k" and "length dir = BLOCK_SIZE"
  shows "file_bytes (mem_write c' 0 dir) (entry_at c i) = file_bytes c (entry_at c i)"
proof -
  let ?e = "entry_at c i"
  have a: "1 \<le> unat (start_block ?e)" using assms(1-3) by (simp add: vol_ok_def)
  have b: "unat (start_block ?e) * BLOCK_SIZE + unat (de_size ?e) \<le> vol_end c * BLOCK_SIZE"
    by (rule data_inside [OF vol_end_bounds(3) [OF assms(1-3)]])
  show ?thesis
    unfolding file_bytes_def
  proof (rule mem_read_cong)
    fix k assume k: "unat (start_block ?e) * BLOCK_SIZE \<le> k" "k < unat (start_block ?e) * BLOCK_SIZE + unat (de_size ?e)"
    have "BLOCK_SIZE \<le> unat (start_block ?e) * BLOCK_SIZE" using a by simp
    with k(1) have "BLOCK_SIZE \<le> k" by linarith
    then have "mem_write c' 0 dir k = c' k" using assms(5) by (intro mem_write_outside) simp
    also have "\<dots> = c k" using k(2) b by (intro assms(4)) linarith
    finally show "mem_write c' 0 dir k = c k" .
  qed
qed

text \<open>The entry that \<open>fs_write\<close> replaces: the one with the name, else one that is free.\<close>

lemma find_slot_spec:
  assumes "\<And>i. i \<in> set is \<Longrightarrow> i < DIR_ENTRIES_PER_BLOCK"
  shows "case find_slot (dir_of c) name is slot of
      None \<Rightarrow> slot = None \<and> (\<forall>i \<in> set is. is_valid (entry_at c i) \<and> entry_name (entry_at c i) \<noteq> name)
    | Some i \<Rightarrow> (i \<in> set is \<and> is_valid (entry_at c i) \<and> entry_name (entry_at c i) = name)
        \<or> ((slot = Some i \<or> i \<in> set is \<and> \<not> is_valid (entry_at c i))
            \<and> (\<forall>j \<in> set is. is_valid (entry_at c j) \<longrightarrow> entry_name (entry_at c j) \<noteq> name))"
  using assms
proof (induction "is" arbitrary: slot)
  case (Cons i "is")
  from Cons.IH [of slot] Cons.IH [of "Some i"] Cons.prems show ?case
    by (auto simp: Let_def simp flip: entry_at_def split: option.splits)
qed (simp split: option.split)

lemma new_slot:
  assumes "vol_ok N c" and "vol_files c name \<noteq> None \<or> (\<exists>i < DIR_ENTRIES_PER_BLOCK. \<not> is_valid (entry_at c i))"
  obtains i where "find_slot (dir_of c) name [0..<DIR_ENTRIES_PER_BLOCK] None = Some i" and "i < DIR_ENTRIES_PER_BLOCK"
    and "\<And>j. j < DIR_ENTRIES_PER_BLOCK \<Longrightarrow> is_valid (entry_at c j) \<Longrightarrow> entry_name (entry_at c j) = name \<Longrightarrow> j = i"
    and "is_valid (entry_at c i) \<Longrightarrow> entry_name (entry_at c i) = name"
proof -
  note s = find_slot_spec [of "[0..<DIR_ENTRIES_PER_BLOCK]", where c = c and name = name and slot = None, simplified]
  have "find_slot (dir_of c) name [0..<DIR_ENTRIES_PER_BLOCK] None \<noteq> None"
  proof
    assume "find_slot (dir_of c) name [0..<DIR_ENTRIES_PER_BLOCK] None = None"
    with s have "\<forall>i < DIR_ENTRIES_PER_BLOCK. is_valid (entry_at c i) \<and> entry_name (entry_at c i) \<noteq> name" by simp
    with assms vol_files_iff [OF assms(1)] show False by auto
  qed
  then obtain i where i: "find_slot (dir_of c) name [0..<DIR_ENTRIES_PER_BLOCK] None = Some i" by blast
  with s have c: "i < DIR_ENTRIES_PER_BLOCK \<and> is_valid (entry_at c i) \<and> entry_name (entry_at c i) = name
    \<or> i < DIR_ENTRIES_PER_BLOCK \<and> \<not> is_valid (entry_at c i)
      \<and> (\<forall>j < DIR_ENTRIES_PER_BLOCK. is_valid (entry_at c j) \<longrightarrow> entry_name (entry_at c j) \<noteq> name)" by auto
  have "j = i" if "j < DIR_ENTRIES_PER_BLOCK" "is_valid (entry_at c j)" "entry_name (entry_at c j) = name" for j
    using c
  proof (elim disjE conjE)
    assume "i < DIR_ENTRIES_PER_BLOCK" "is_valid (entry_at c i)" "entry_name (entry_at c i) = name"
    with that show "j = i" by (intro vol_unique [OF assms(1)]) simp_all
  next
    assume "\<forall>j < DIR_ENTRIES_PER_BLOCK. is_valid (entry_at c j) \<longrightarrow> entry_name (entry_at c j) \<noteq> name"
    with that show "j = i" by blast
  qed
  with i c that show thesis by blast
qed

lemma vol_files_replaced:
  assumes ok: "vol_ok N c" and i: "i < DIR_ENTRIES_PER_BLOCK" and kept: "\<And>k. k < vol_end c * BLOCK_SIZE \<Longrightarrow> c' k = c k"
    and e: "length (de_name e) = 32" "is_valid e \<Longrightarrow> 1 \<le> unat (start_block e) \<and> unat (start_block e) + entry_blocks e \<le> N"
    and old: "\<And>j. j < DIR_ENTRIES_PER_BLOCK \<Longrightarrow> is_valid (entry_at c j) \<Longrightarrow> entry_name (entry_at c j) = name \<Longrightarrow> j = i"
      "is_valid (entry_at c i) \<Longrightarrow> entry_name (entry_at c i) = name" "is_valid e \<Longrightarrow> entry_name e = name"
  defines "v \<equiv> mem_write c' 0 (write_entry (dir_of c) i e)"
  shows "vol_ok N v" and "vol_files v = (vol_files c)(name := if is_valid e then Some (file_bytes v e) else None)"
proof -
  have at: "entry_at v j = (if j = i then e else entry_at c j)" if "j < DIR_ENTRIES_PER_BLOCK" for j
    unfolding v_def using entry_at_write [OF i that e(1)] .
  show ok': "vol_ok N v"
    unfolding vol_ok_def
  proof (intro conjI allI impI)
    show "1 \<le> N" "N < 2 ^ 32" using ok by (simp_all add: vol_ok_def)
  next
    fix j assume "j < DIR_ENTRIES_PER_BLOCK" "is_valid (entry_at v j)"
    then show "1 \<le> unat (start_block (entry_at v j))" "unat (start_block (entry_at v j)) + entry_blocks (entry_at v j) \<le> N"
      using vol_entry [OF ok, of j] e(2) by (cases "j = i"; simp add: at)+
  next
    fix j k assume "j < DIR_ENTRIES_PER_BLOCK" "k < DIR_ENTRIES_PER_BLOCK"
      "is_valid (entry_at v j) \<and> is_valid (entry_at v k) \<and> entry_name (entry_at v j) = entry_name (entry_at v k)"
    then show "j = k" using at [of j] at [of k] by (metis old(1) old(3) vol_unique [OF ok])
  qed
  have bytes: "file_bytes v (entry_at c j) = file_bytes c (entry_at c j)" if "j < DIR_ENTRIES_PER_BLOCK" "is_valid (entry_at c j)" for j
    unfolding v_def using i e(1) by (intro file_bytes_kept [OF ok that kept]) (simp_all add: length_write_entry dir_of_def)
  show "vol_files v = (vol_files c)(name := if is_valid e then Some (file_bytes v e) else None)"
  proof
    fix n
    have "vol_files v n = Some x \<longleftrightarrow> ((vol_files c)(name := if is_valid e then Some (file_bytes v e) else None)) n = Some x" for x
    proof (cases "n = name")
      case True
      have "(\<exists>j < DIR_ENTRIES_PER_BLOCK. is_valid (entry_at v j) \<and> entry_name (entry_at v j) = name \<and> x = file_bytes v (entry_at v j))
        \<longleftrightarrow> is_valid e \<and> x = file_bytes v e"
        using i by (metis at old(1) old(3))
      with True show ?thesis by (auto simp: vol_files_iff [OF ok'])
    next
      case False
      have "(\<exists>j < DIR_ENTRIES_PER_BLOCK. is_valid (entry_at v j) \<and> entry_name (entry_at v j) = n \<and> x = file_bytes v (entry_at v j))
        \<longleftrightarrow> (\<exists>j < DIR_ENTRIES_PER_BLOCK. is_valid (entry_at c j) \<and> entry_name (entry_at c j) = n \<and> x = file_bytes c (entry_at c j))"
        using False old(2,3) bytes by (metis at)
      with False show ?thesis by (simp add: vol_files_iff [OF ok'] vol_files_iff [OF ok])
    qed
    then show "vol_files v n = ((vol_files c)(name := if is_valid e then Some (file_bytes v e) else None)) n"
      by (metis not_Some_eq)
  qed
qed

lemma unchanged:
  assumes ok: "vol_ok N c" and kept: "\<And>k. k < vol_end c * BLOCK_SIZE \<Longrightarrow> c' k = c k"
  shows "vol_ok N c'" and "vol_files c' = vol_files c"
proof -
  have "BLOCK_SIZE \<le> vol_end c * BLOCK_SIZE" using vol_end_bounds(1) [OF ok] by simp
  then have dir: "dir_of c' = dir_of c" unfolding dir_of_def
    by (intro mem_read_cong kept) linarith
  have at: "entry_at c' = entry_at c" using dir by (simp add: entry_at_def fun_eq_iff)
  show "vol_ok N c'" using ok by (simp add: vol_ok_def at)
  have "mem_write c' 0 (dir_of c) = c'" by (metis dir dir_of_def mem_write_read)
  then have "file_bytes c' (entry_at c i) = file_bytes c (entry_at c i)" if "i < DIR_ENTRIES_PER_BLOCK" "is_valid (entry_at c i)" for i
    using file_bytes_kept [OF ok that, of c' "dir_of c"] kept by (simp add: dir_of_def)
  moreover have "i < DIR_ENTRIES_PER_BLOCK \<and> is_valid (entry_at c i)" if "find_entry (dir_of c) name = Some i" for name i
    using that find_entry_iff [OF ok] by blast
  ultimately show "vol_files c' = vol_files c"
    by (intro ext) (auto simp: vol_files_def dir at intro!: map_option_cong)
qed

context block_device begin

text \<open>Writing a file: a success updates the map, a device that is full fails and leaves every file as it was.\<close>

lemma fs_write_spec:
  assumes d: "dev_ok (wfs_dev s)" and ok: "vol_ok N c" and c: "c = content (wfs_dev s)" and name: "entry_name_ok name"
    and slot: "vol_files c name \<noteq> None \<or> (\<exists>i < DIR_ENTRIES_PER_BLOCK. \<not> is_valid (entry_at c i))" and small: "length data < 2 ^ 32"
  shows "vol_end c + max (data_blocks (length data)) 1 \<le> N \<Longrightarrow>
      \<exists>d'. fs_write D name data s = (Ok (), s\<lparr>wfs_dev := d'\<rparr>) \<and> dev_ok d' \<and> vol_ok N (content d')
        \<and> vol_files (content d') = (vol_files c)(name \<mapsto> data)" (is "?fits \<Longrightarrow> _")
    and "data \<noteq> [] \<Longrightarrow> N < vol_end c + data_blocks (length data) \<Longrightarrow>
      \<exists>d'. fs_write D name data s = (Err (), s\<lparr>wfs_dev := d'\<rparr>) \<and> dev_ok d' \<and> vol_ok N (content d')
        \<and> vol_files (content d') = vol_files c"
proof -
  have N: "1 \<le> N" "N < 2 ^ 32" using ok by (simp_all add: vol_ok_def)
  obtain i where i: "find_slot (dir_of c) name [0..<DIR_ENTRIES_PER_BLOCK] None = Some i" "i < DIR_ENTRIES_PER_BLOCK"
    and old: "\<And>j. j < DIR_ENTRIES_PER_BLOCK \<Longrightarrow> is_valid (entry_at c j) \<Longrightarrow> entry_name (entry_at c j) = name \<Longrightarrow> j = i"
      "is_valid (entry_at c i) \<Longrightarrow> entry_name (entry_at c i) = name"
    using new_slot [OF ok slot] by blast
  obtain d1 where d1: "read_dir_block D s = (Ok (dir_of c), s\<lparr>wfs_dev := d1\<rparr>)" "dev_ok d1" "content d1 = c"
    using read_dir [OF d N(1)] c by auto
  obtain d2 where d2: "next_free_block D (s\<lparr>wfs_dev := d1\<rparr>) = (Ok (word_of_nat (vol_end c)), s\<lparr>wfs_dev := d2\<rparr>)" "dev_ok d2" "content d2 = c"
    using next_free [of "s\<lparr>wfs_dev := d1\<rparr>"] d1(2,3) ok by auto
  let ?start = "word_of_nat (vol_end c) :: u32"
  have start: "unat ?start = vol_end c" using vol_end_bounds(2) [OF ok] N(2) by (simp add: unat_of_nat take_bit_nat_eq_self)
  obtain d3 where d3: "write_blocks D ?start data (s\<lparr>wfs_dev := d2\<rparr>)
      = (if data = [] \<or> vol_end c + data_blocks (length data) \<le> N then Ok () else Err (), s\<lparr>wfs_dev := d3\<rparr>)" "dev_ok d3"
    and kept: "\<And>k. k < vol_end c * BLOCK_SIZE \<Longrightarrow> content d3 k = c k"
    and wrote: "vol_end c + data_blocks (length data) \<le> N \<Longrightarrow> mem_read (content d3) (vol_end c * BLOCK_SIZE) (length data) = data"
    using write_blocks_spec [of "s\<lparr>wfs_dev := d2\<rparr>" ?start data] d2(2,3) N(2) unfolding start by auto
  let ?e = "\<lparr>de_name = pad_name name, start_block = ?start, de_size = word_of_nat (length data), de_flags = FLAG_VALID\<rparr>"
  let ?dir = "write_entry (dir_of c) i ?e"
  have e: "length (de_name ?e) = 32" "entry_name ?e = name" "is_valid ?e" "unat (de_size ?e) = length data"
    using entry_name_padded [OF name] entry_name_padded(1) [OF name, of ?e] small
    by (simp_all add: is_valid_def FLAG_VALID_def unat_of_nat take_bit_nat_eq_self)
  have dir: "length ?dir = BLOCK_SIZE" using i(2) e(1) by (intro length_write_entry) (simp_all add: dir_of_def)
  have run: "fs_write D name data s = sthen (write_blocks D ?start data) (write_dir_block D ?dir) (s\<lparr>wfs_dev := d2\<rparr>)"
    using i(1) by (simp add: fs_write_def run_step(1) [where m = "read_dir_block D", OF d1(1)] run_lift
        run_step(1) [where m = "next_free_block D", OF d2(1)])
  show "\<exists>d'. fs_write D name data s = (Ok (), s\<lparr>wfs_dev := d'\<rparr>) \<and> dev_ok d' \<and> vol_ok N (content d')
      \<and> vol_files (content d') = (vol_files c)(name \<mapsto> data)" if fits: ?fits
  proof -
    have fits': "vol_end c + data_blocks (length data) \<le> N" using fits by linarith
    obtain d' where d': "write_dir_block D ?dir (s\<lparr>wfs_dev := d3\<rparr>) = (Ok (), s\<lparr>wfs_dev := d'\<rparr>)" "dev_ok d'"
      "content d' = mem_write (content d3) 0 ?dir"
      using write_dir [of "s\<lparr>wfs_dev := d3\<rparr>"] d3(2) N(1) dir by auto
    have bounds: "1 \<le> unat (start_block ?e) \<and> unat (start_block ?e) + entry_blocks ?e \<le> N"
      using vol_end_bounds(1) [OF ok] start e(4) fits by (simp add: entry_blocks_eq)
    have rep: "vol_ok N (content d')"
      "vol_files (content d') = (vol_files c)(name := if is_valid ?e then Some (file_bytes (content d') ?e) else None)"
      unfolding d'(3) by (rule vol_files_replaced [OF ok i(2) kept e(1) bounds old e(2)]; assumption)+
    have fb: "file_bytes (content d') ?e = data"
    proof -
      have "vol_end c * BLOCK_SIZE \<ge> BLOCK_SIZE" using vol_end_bounds(1) [OF ok] by simp
      then have "mem_read (content d') (vol_end c * BLOCK_SIZE) (length data) = mem_read (content d3) (vol_end c * BLOCK_SIZE) (length data)"
        unfolding d'(3) using dir by (intro mem_read_write_disjoint) simp
      with wrote [OF fits'] e(4) start show ?thesis by (simp add: file_bytes_def)
    qed
    have "vol_files (content d') = (vol_files c)(name \<mapsto> data)" unfolding rep(2) fb using e(3) by (simp only: if_True)
    moreover have "fs_write D name data s = (Ok (), s\<lparr>wfs_dev := d'\<rparr>)"
      unfolding run using d3(1) d'(1) fits' by (simp add: sthen_def sbind_def)
    ultimately show ?thesis using d'(2) rep(1) by blast
  qed
  show "\<exists>d'. fs_write D name data s = (Err (), s\<lparr>wfs_dev := d'\<rparr>) \<and> dev_ok d' \<and> vol_ok N (content d')
      \<and> vol_files (content d') = vol_files c" if "data \<noteq> []" "N < vol_end c + data_blocks (length data)"
  proof -
    have "fs_write D name data s = (Err (), s\<lparr>wfs_dev := d3\<rparr>)"
      unfolding run using d3(1) that by (simp add: sthen_def sbind_def)
    with d3(2) unchanged [OF ok kept] show ?thesis by blast
  qed
qed

end

text \<open>A descriptor of a file that lies inside the device.\<close>

definition opened :: "nat \<Rightarrow> open_file \<Rightarrow> bool" where
  "opened N f \<longleftrightarrow> in_use f \<and> unat (of_pos f) \<le> unat (of_size f) \<and> unat (of_start f) + data_blocks (unat (of_size f)) \<le> N"

lemma block_of_pos: "p < n \<Longrightarrow> p div BLOCK_SIZE < data_blocks n"
  by (simp add: data_blocks_def BLOCK_SIZE_def less_Suc_eq_le div_le_mono flip: Suc_le_eq)

context block_device begin

lemma fs_unlink_spec:
  assumes d: "dev_ok (wfs_dev s)" and ok: "vol_ok N c" and c: "c = content (wfs_dev s)"
  shows "\<exists>d'. fs_unlink D name s = (if vol_files c name = None then Err () else Ok (), s\<lparr>wfs_dev := d'\<rparr>) \<and> dev_ok d'
    \<and> vol_ok N (content d') \<and> vol_files (content d') = (vol_files c)(name := None)"
proof -
  have N: "1 \<le> N" using ok by (simp add: vol_ok_def)
  obtain d1 where d1: "read_dir_block D s = (Ok (dir_of c), s\<lparr>wfs_dev := d1\<rparr>)" "dev_ok d1" "content d1 = c"
    using read_dir [OF d N] c by auto
  show ?thesis
  proof (cases "find_entry (dir_of c) name")
    case None
    then have "vol_files c name = None" by (simp add: vol_files_def)
    moreover from this have "(vol_files c)(name := None) = vol_files c" by (simp add: fun_upd_idem)
    ultimately show ?thesis
      using None d1 ok by (auto simp: fs_unlink_def run_step(1) [where m = "read_dir_block D", OF d1(1)] run_throw intro!: exI [of _ d1])
  next
    case (Some i)
    then have i: "i < DIR_ENTRIES_PER_BLOCK" "is_valid (entry_at c i)" "entry_name (entry_at c i) = name"
      using find_entry_iff [OF ok] by blast+
    let ?dir = "write_entry (dir_of c) i blank_entry"
    have "length ?dir = BLOCK_SIZE" using i(1) by (intro length_write_entry) (simp_all add: dir_of_def valid_blank)
    with d1 N obtain d' where d': "write_dir_block D ?dir (s\<lparr>wfs_dev := d1\<rparr>) = (Ok (), s\<lparr>wfs_dev := d'\<rparr>)" "dev_ok d'"
      "content d' = mem_write c 0 ?dir"
      using write_dir [of "s\<lparr>wfs_dev := d1\<rparr>" ?dir] by auto
    have u: "\<And>j. j < DIR_ENTRIES_PER_BLOCK \<Longrightarrow> is_valid (entry_at c j) \<Longrightarrow> entry_name (entry_at c j) = name \<Longrightarrow> j = i"
      using vol_unique [OF ok _ i(1) _ i(2)] i(3) by simp
    have rep: "vol_ok N (content d')"
      "vol_files (content d') = (vol_files c)(name := if is_valid blank_entry then Some (file_bytes (content d') blank_entry) else None)"
      unfolding d'(3)
      by (rule vol_files_replaced [where c' = c and name = name, OF ok i(1) _ valid_blank(2)]; use u i(3) valid_blank(1) in blast)+
    have "fs_unlink D name s = (Ok (), s\<lparr>wfs_dev := d'\<rparr>)"
      using Some d'(1) by (simp add: fs_unlink_def run_step(1) [where m = "read_dir_block D", OF d1(1)])
    moreover have "vol_files c name \<noteq> None" using Some by (simp add: vol_files_def)
    ultimately show ?thesis using d'(2) rep valid_blank(1) by auto
  qed
qed

lemma fs_read_loop_spec:
  assumes "dev_ok (wfs_dev s)" and "N < 2 ^ 32" and "opened N f" and "f = wfs_open s fd" and "unat (of_pos f) + n \<le> unat (of_size f)"
  shows "\<exists>d. fs_read_loop D fd n s = (Ok (mem_read (content (wfs_dev s)) (unat (of_start f) * BLOCK_SIZE + unat (of_pos f)) n),
      s\<lparr>wfs_dev := d, wfs_open := (wfs_open s)(fd := f\<lparr>of_pos := of_pos f + word_of_nat n\<rparr>)\<rparr>)
    \<and> dev_ok d \<and> content d = content (wfs_dev s)"
  using assms
proof (induction n arbitrary: s f rule: less_induct)
  case (less n)
  show ?case
  proof (cases "n = 0")
    case True
    with less.prems show ?thesis by (auto simp: fs_read_loop.simps ret_def mem_read_def intro!: exI [of _ "wfs_dev s"])
  next
    case False
    let ?p = "unat (of_pos f)" and ?c = "content (wfs_dev s)"
    let ?off = "?p mod BLOCK_SIZE" and ?lba = "unat (of_start f) + ?p div BLOCK_SIZE"
    let ?k = "min (BLOCK_SIZE - ?off) n"
    have off: "?off < BLOCK_SIZE" by (simp add: BLOCK_SIZE_def)
    then have k: "0 < ?k" "?k \<le> n" "?off + ?k \<le> BLOCK_SIZE" using False by auto
    have lba: "?lba < N" using block_of_pos [of ?p "unat (of_size f)"] False less.prems(3,5) by (auto simp: opened_def)
    with less.prems(2) have u: "unat (of_start f + word_of_nat (?p div BLOCK_SIZE)) = ?lba" "\<not> ?lba \<ge> 2 ^ 32"
      by (simp_all add: unat_word_ariths unat_of_nat take_bit_nat_eq_self mod_simps)
    obtain d1 where d1: "read_block D (of_start f + word_of_nat (?p div BLOCK_SIZE)) (wfs_dev s)
        = (Ok (mem_read ?c (?lba * BLOCK_SIZE) BLOCK_SIZE), d1)" "dev_ok d1" "content d1 = ?c"
      using read_inside [OF less.prems(1)] lba u(1) by metis
    have "unat (of_size f) < 2 ^ 32" by (rule order_less_le_trans [OF unsigned_less]) simp
    with less.prems(5) k(2) have p: "?p + ?k < 2 ^ 32" by linarith
    then have p': "unat (of_pos f + word_of_nat ?k) = ?p + ?k"
      by (simp add: unat_word_ariths unat_of_nat take_bit_nat_eq_self mod_simps)
    let ?f = "f\<lparr>of_pos := of_pos f + word_of_nat ?k\<rparr>"
    let ?s = "s\<lparr>wfs_dev := d1, wfs_open := (wfs_open s)(fd := ?f)\<rparr>"
    have "opened N ?f" using less.prems(3,5) k(2) p' by (simp add: opened_def)
    moreover have "unat (of_pos ?f) + (n - ?k) \<le> unat (of_size ?f)" using less.prems(5) k(2) p' by simp
    moreover have "n - ?k < n" using k(1,2) by simp
    moreover have "?f = wfs_open ?s fd" "dev_ok (wfs_dev ?s)" using d1(2) by simp_all
    ultimately obtain d where "fs_read_loop D fd (n - ?k) ?s
        = (Ok (mem_read (content (wfs_dev ?s)) (unat (of_start ?f) * BLOCK_SIZE + unat (of_pos ?f)) (n - ?k)),
           ?s\<lparr>wfs_dev := d, wfs_open := (wfs_open ?s)(fd := ?f\<lparr>of_pos := of_pos ?f + word_of_nat (n - ?k)\<rparr>)\<rparr>)"
      and d: "dev_ok d" "content d = content (wfs_dev ?s)"
      using less.IH [of "n - ?k" ?s ?f] less.prems(2) by blast
    then have r: "fs_read_loop D fd (n - ?k) ?s = (Ok (mem_read ?c (unat (of_start f) * BLOCK_SIZE + (?p + ?k)) (n - ?k)),
        s\<lparr>wfs_dev := d, wfs_open := (wfs_open s)(fd := f\<lparr>of_pos := of_pos f + (word_of_nat ?k + word_of_nat (n - ?k))\<rparr>)\<rparr>)"
      using d1(3) p' by (simp add: add.assoc del: of_nat_diff of_nat_min)
    have run: "fs_read_loop D fd n s = (case fs_read_loop D fd (n - ?k) ?s of
        (Ok rest, t) \<Rightarrow> (Ok (take ?k (drop ?off (mem_read ?c (?lba * BLOCK_SIZE) BLOCK_SIZE)) @ rest), t)
      | (Err e, t) \<Rightarrow> (Err e, t) | (Panic, t) \<Rightarrow> (Panic, t) | (Hang, t) \<Rightarrow> (Hang, t))"
      using u(2) p d1(1)
      by (subst fs_read_loop.simps, simp only: False if_False run_gets less.prems(4) [symmetric] Let_def)
        (simp add: at_dev_def guard_panic_def set_pos_def sthen_def sbind_def ret_def modify_def not_le less.prems(4) [symmetric]
          del: of_nat_diff of_nat_min)
    have "?lba * BLOCK_SIZE + ?off = unat (of_start f) * BLOCK_SIZE + ?p"
      by (simp add: add_mult_distrib add.assoc)
    then have "take ?k (drop ?off (mem_read ?c (?lba * BLOCK_SIZE) BLOCK_SIZE)) = mem_read ?c (unat (of_start f) * BLOCK_SIZE + ?p) ?k"
      using k(3) by (simp add: take_drop_mem_read)
    moreover have "word_of_nat ?k + word_of_nat (n - ?k) = (word_of_nat n :: u32)" using k(2) by (simp flip: of_nat_add)
    ultimately show ?thesis
      unfolding run r using d d1(3) k(2) mem_read_add [of ?c "unat (of_start f) * BLOCK_SIZE + ?p" ?k "n - ?k"]
      by (auto simp: add.assoc fun_upd_def intro!: exI [of _ d])
  qed
qed

end

context block_device begin

lemma fs_read_spec:
  fixes len :: nat
  assumes "dev_ok (wfs_dev s)" and "N < 2 ^ 32" and "opened N f" and "f = wfs_open s fd" and "fd < MAX_OPEN_FILES"
  defines "data \<equiv> mem_read (content (wfs_dev s)) (unat (of_start f) * BLOCK_SIZE) (unat (of_size f))"
  defines "n \<equiv> min len (unat (of_size f) - unat (of_pos f))"
  shows "\<exists>d. fs_read D fd len len s = (Ok (take len (drop (unat (of_pos f)) data)),
      s\<lparr>wfs_dev := d, wfs_open := (wfs_open s)(fd := f\<lparr>of_pos := of_pos f + word_of_nat n\<rparr>)\<rparr>)
    \<and> dev_ok d \<and> content d = content (wfs_dev s)"
proof -
  have le: "unat (of_pos f) + n \<le> unat (of_size f)" using assms(3) by (auto simp: opened_def n_def)
  then have t: "take len (drop (unat (of_pos f)) data)
      = mem_read (content (wfs_dev s)) (unat (of_start f) * BLOCK_SIZE + unat (of_pos f)) n"
    unfolding data_def n_def
    by (simp flip: take_drop_mem_read [of "unat (of_pos f)" _ "unat (of_size f)"] add: min_def)
  have "fs_read D fd len len s = fs_read_loop D fd n s"
    using assms(3-5) by (simp add: fs_read_def run_gets opened_def n_def Let_def min.commute min.left_commute)
  with fs_read_loop_spec [OF assms(1-4) le] show ?thesis unfolding t by simp
qed

lemma fs_open_spec:
  assumes "dev_ok (wfs_dev s)" and ok: "vol_ok N c" and c: "c = content (wfs_dev s)" and "free_fd (wfs_open s) = Some fd"
    and "find_entry (dir_of c) name = Some i"
  defines "f \<equiv> \<lparr>of_start = start_block (entry_at c i), of_size = de_size (entry_at c i), of_pos = 0, in_use = True\<rparr>"
  shows "\<exists>d. fs_open D name s = (Ok (Some fd), s\<lparr>wfs_dev := d, wfs_open := (wfs_open s)(fd := f)\<rparr>) \<and> dev_ok d \<and> content d = c"
    and "opened N f" and "fd < MAX_OPEN_FILES"
proof -
  have "1 \<le> N" using ok by (simp add: vol_ok_def)
  with assms(1) c obtain d where d: "read_dir_block D s = (Ok (dir_of c), s\<lparr>wfs_dev := d\<rparr>)" "dev_ok d" "content d = c"
    using read_dir by auto
  show "\<exists>d. fs_open D name s = (Ok (Some fd), s\<lparr>wfs_dev := d, wfs_open := (wfs_open s)(fd := f)\<rparr>) \<and> dev_ok d \<and> content d = c"
    using assms(4,5) d
    by (auto simp: fs_open_def run_step(1) [where m = "read_dir_block D", OF d(1)] run_gets run_modify run_ret Let_def f_def
        simp flip: entry_at_def intro!: exI [of _ d])
  have "unat (start_block (entry_at c i)) + entry_blocks (entry_at c i) \<le> N"
    using vol_entry [OF ok] find_entry_iff [OF ok] assms(5) by blast
  then show "opened N f" unfolding opened_def f_def entry_blocks_eq by simp
  show "fd < MAX_OPEN_FILES" using assms(4) by (auto simp: free_fd_def find_upt)
qed

text \<open>Opening a file and reading it in two pieces.\<close>

lemma fs_read_back:
  assumes "dev_ok (wfs_dev s)" and ok: "vol_ok N c" and c: "c = content (wfs_dev s)" and fd: "free_fd (wfs_open s) = Some fd"
    and "vol_files c name = Some data"
  shows "\<exists>s1 s2 s3. fs_open D name s = (Ok (Some fd), s1) \<and> fs_read D fd m m s1 = (Ok (take m data), s2)
    \<and> fs_read D fd n n s2 = (Ok (take n (drop m data)), s3) \<and> content (wfs_dev s3) = c"
proof -
  obtain i where i: "find_entry (dir_of c) name = Some i" and data: "data = file_bytes c (entry_at c i)"
    using assms(5) by (auto simp: vol_files_def)
  have N: "N < 2 ^ 32" using ok by (simp add: vol_ok_def)
  define f where "f = \<lparr>of_start = start_block (entry_at c i), of_size = de_size (entry_at c i), of_pos = 0, in_use = True\<rparr>"
  note o = fs_open_spec [OF assms(1) ok c fd i, folded f_def]
  obtain d1 where d1: "fs_open D name s = (Ok (Some fd), s\<lparr>wfs_dev := d1, wfs_open := (wfs_open s)(fd := f)\<rparr>)" "dev_ok d1" "content d1 = c"
    using o(1) by blast
  let ?s1 = "s\<lparr>wfs_dev := d1, wfs_open := (wfs_open s)(fd := f)\<rparr>"
  let ?k = "min m (unat (of_size f) - unat (of_pos f))"
  let ?f = "f\<lparr>of_pos := of_pos f + word_of_nat ?k\<rparr>"
  obtain d2 where d2: "fs_read D fd m m ?s1 = (Ok (take m data), ?s1\<lparr>wfs_dev := d2, wfs_open := (wfs_open ?s1)(fd := ?f)\<rparr>)"
    "dev_ok d2" "content d2 = c"
    using fs_read_spec [of ?s1 f fd m] d1(2,3) N o(2,3) by (auto simp: data file_bytes_def f_def)
  let ?s2 = "?s1\<lparr>wfs_dev := d2, wfs_open := (wfs_open ?s1)(fd := ?f)\<rparr>"
  have "unat (de_size (entry_at c i)) < 2 ^ 32" by (rule order_less_le_trans [OF unsigned_less]) simp
  then have k: "unat (of_pos ?f) = ?k" by (simp add: f_def unat_of_nat take_bit_nat_eq_self min_def del: of_nat_min)
  have "opened N ?f" using o(2) k by (simp add: opened_def)
  from fs_read_spec [of ?s2 ?f fd n] this d2(2,3) N o(3) obtain d3 s3 where
    "fs_read D fd n n ?s2 = (Ok (take n (drop (unat (of_pos ?f)) data)), s3)" "content (wfs_dev s3) = c"
    by (auto simp: data file_bytes_def f_def)
  moreover have "drop (unat (of_pos ?f)) data = drop m data"
    unfolding k by (simp add: data file_bytes_def f_def min_def)
  ultimately show ?thesis using d1(1) d2(1) by auto
qed

end

section \<open>Mounting\<close>

text \<open>The files of a volume in directory order.\<close>

definition vol_entry_file :: "u8 arr \<Rightarrow> nat \<Rightarrow> bytes \<times> bytes" where
  "vol_entry_file c i = (entry_name (entry_at c i), file_bytes c (entry_at c i))"

definition vol_list :: "u8 arr \<Rightarrow> nat list \<Rightarrow> (bytes \<times> bytes) list" where
  "vol_list c is = map (vol_entry_file c) (filter (\<lambda>i. is_valid (entry_at c i)) is)"

lemma map_of_vol_list: "map_of (vol_list c [0..<DIR_ENTRIES_PER_BLOCK]) name = vol_files c name"
proof -
  have "map_of (vol_list c is) name
      = map_option (\<lambda>i. file_bytes c (entry_at c i)) (List.find (\<lambda>i. is_valid (entry_at c i) \<and> entry_name (entry_at c i) = name) is)" for "is"
    by (induction "is") (simp_all add: vol_list_def vol_entry_file_def)
  then show ?thesis by (simp add: vol_files_def find_entry_def flip: entry_at_def)
qed

lemma vol_list_names: "(n, d) \<in> set (vol_list c is) \<Longrightarrow> utf8_valid n \<and> length n \<le> 64"
proof -
  have "length (takeWhile P xs) \<le> length xs" for P and xs :: bytes by (rule length_takeWhile_le)
  moreover have "length (de_name (entry_at c i)) \<le> 32" for i by (simp add: entry_at_def read_entry_def entry_from_bytes_def)
  ultimately have "utf8_valid (entry_name (entry_at c i)) \<and> length (entry_name (entry_at c i)) \<le> 32" for i
    by (auto simp: entry_name_def from_utf8_def intro: order_trans)
  then show "(n, d) \<in> set (vol_list c is) \<Longrightarrow> utf8_valid n \<and> length n \<le> 64" by (auto simp: vol_list_def vol_entry_file_def intro: order_trans [of _ 32])
qed

lemma length_vol_list: "length (vol_list c [0..<DIR_ENTRIES_PER_BLOCK]) \<le> 8"
  using length_filter_le [of "\<lambda>i. is_valid (entry_at c i)" "[0..<DIR_ENTRIES_PER_BLOCK]"] by (simp add: vol_list_def dir_sizes)

text \<open>What the files of a list of entries take from the arena at most.\<close>

definition arena_need :: "u8 arr \<Rightarrow> nat list \<Rightarrow> nat" where
  "arena_need c is = sum_list (map (\<lambda>i. if is_valid (entry_at c i) then unat (de_size (entry_at c i)) + 7 else 0) is)"

lemma nonempty_vol_list_Cons:
  "nonempty_files (vol_list c (i # is)) = (if is_valid (entry_at c i) \<and> unat (de_size (entry_at c i)) \<noteq> 0
     then vol_entry_file c i # nonempty_files (vol_list c is) else nonempty_files (vol_list c is))"
  by (simp add: nonempty_files_def vol_list_def vol_entry_file_def file_bytes_def mem_read_def)

context block_device begin

lemma mount_entry_spec:
  assumes d: "dev_ok (wfs_dev w)" "content (wfs_dev w) = c" and ok: "vol_ok N c" and fd: "\<not> in_use (wfs_open w 0)"
    and i: "i < DIR_ENTRIES_PER_BLOCK" and room: "file_buf_next t + arena_need c [i] \<le> FILE_BUF_SIZE"
  shows "\<exists>w' b. mount_entry D (dir_of c) i (w, t, k)
      = Ok (w', (register_all (nonempty_files (vol_list c [i])) t)\<lparr>file_buf_next := b\<rparr>, k + length (nonempty_files (vol_list c [i])))
    \<and> dev_ok (wfs_dev w') \<and> content (wfs_dev w') = c \<and> \<not> in_use (wfs_open w' 0) \<and> b \<le> file_buf_next t + arena_need c [i]"
proof (cases "is_valid (entry_at c i) \<and> unat (de_size (entry_at c i)) \<noteq> 0")
  case False
  moreover from this have "nonempty_files (vol_list c [i]) = []"
    by (subst nonempty_vol_list_Cons) (auto simp: vol_list_def nonempty_files_def)
  ultimately show ?thesis using d fd
    by (auto simp: mount_entry_def register_all_def simp flip: entry_at_def intro!: exI [of _ w] exI [of _ "file_buf_next t"])
next
  case True
  let ?e = "entry_at c i" and ?n = "unat (de_size (entry_at c i))"
  have l: "nonempty_files (vol_list c [i]) = [vol_entry_file c i]"
    using True by (subst nonempty_vol_list_Cons) (simp add: vol_list_def nonempty_files_def)
  have N: "N < 2 ^ 32" using ok by (simp add: vol_ok_def)
  obtain p b where a: "alloc_disk_slot ?n t = (Some p, t\<lparr>file_buf_next := b\<rparr>)" "b \<le> file_buf_next t + ?n + 7"
    using alloc_room [of ?n t] True room by (auto simp: arena_need_def)
  have f0: "free_fd (wfs_open w) = Some 0" using fd by (simp add: free_fd_def find_upt MAX_OPEN_FILES_def)
  have e: "find_entry (dir_of c) (entry_name ?e) = Some i" using find_entry_iff [OF ok] i True by blast
  define f where "f = \<lparr>of_start = start_block ?e, of_size = de_size ?e, of_pos = 0, in_use = True\<rparr>"
  note o = fs_open_spec [OF d(1) ok d(2) [symmetric] f0 e, folded f_def]
  obtain d1 where d1: "fs_open D (entry_name ?e) w = (Ok (Some 0), w\<lparr>wfs_dev := d1, wfs_open := (wfs_open w)(0 := f)\<rparr>)" "dev_ok d1" "content d1 = c"
    using o(1) by blast
  let ?w = "w\<lparr>wfs_dev := d1, wfs_open := (wfs_open w)(0 := f)\<rparr>"
  obtain d2 g where d2: "fs_read D 0 ?n ?n ?w = (Ok (file_bytes c ?e), ?w\<lparr>wfs_dev := d2, wfs_open := g\<rparr>)" "dev_ok d2" "content d2 = c"
    using fs_read_spec [of ?w f 0 ?n] d1(2,3) N o(2,3) by (auto simp: file_bytes_def f_def)
  have "length (file_bytes c ?e) = ?n" by (simp add: file_bytes_def)
  then have "mount_entry D (dir_of c) i (w, t, k) = Ok (snd (fs_close 0 (?w\<lparr>wfs_dev := d2, wfs_open := g\<rparr>)),
      (register_all [vol_entry_file c i] t)\<lparr>file_buf_next := b\<rparr>, k + 1)"
    using True a(1) d1(1) d2(1)
    by (simp add: mount_entry_def register_all_def vol_entry_file_def register_file_buf Let_def flip: entry_at_def)
  then show ?thesis unfolding l using d2(2,3) a(2) True
    by (auto simp: fs_close_def MAX_OPEN_FILES_def modify_def arena_need_def intro!: exI)
qed

lemma mount_loop_spec:
  assumes "dev_ok (wfs_dev w)" "content (wfs_dev w) = c" and ok: "vol_ok N c" and "\<not> in_use (wfs_open w 0)"
    and "\<And>i. i \<in> set is \<Longrightarrow> i < DIR_ENTRIES_PER_BLOCK" and "file_buf_next t + arena_need c is \<le> FILE_BUF_SIZE"
  shows "\<exists>w' b. mount_loop D (dir_of c) is (w, t, k)
      = Ok (w', (register_all (nonempty_files (vol_list c is)) t)\<lparr>file_buf_next := b\<rparr>, k + length (nonempty_files (vol_list c is)))"
  using assms
proof (induction "is" arbitrary: w t k)
  case Nil
  then show ?case by (auto simp: vol_list_def nonempty_files_def register_all_def intro!: exI [of _ "file_buf_next t"])
next
  case (Cons i "is")
  have need: "arena_need c (i # is) = arena_need c [i] + arena_need c is" by (simp add: arena_need_def)
  have l: "nonempty_files (vol_list c (i # is)) = nonempty_files (vol_list c [i]) @ nonempty_files (vol_list c is)"
    by (simp add: nonempty_files_def vol_list_def)
  let ?f = "nonempty_files (vol_list c [i])"
  obtain w1 b where e: "mount_entry D (dir_of c) i (w, t, k) = Ok (w1, (register_all ?f t)\<lparr>file_buf_next := b\<rparr>, k + length ?f)"
    and w1: "dev_ok (wfs_dev w1)" "content (wfs_dev w1) = c" "\<not> in_use (wfs_open w1 0)" "b \<le> file_buf_next t + arena_need c [i]"
    using mount_entry_spec [OF Cons.prems(1-4), of i t k] Cons.prems(5,6) need by auto
  have r: "file_buf_next ((register_all ?f t)\<lparr>file_buf_next := b\<rparr>) + arena_need c is \<le> FILE_BUF_SIZE"
    using w1(4) Cons.prems(6) need by simp
  obtain w' b' where "mount_loop D (dir_of c) is (w1, (register_all ?f t)\<lparr>file_buf_next := b\<rparr>, k + length ?f)
      = Ok (w', (register_all (nonempty_files (vol_list c is)) ((register_all ?f t)\<lparr>file_buf_next := b\<rparr>))\<lparr>file_buf_next := b'\<rparr>,
          k + length ?f + length (nonempty_files (vol_list c is)))"
    using Cons.IH [OF w1(1,2) ok w1(3) _ r] Cons.prems(5) by (metis list.set_intros(2))
  with e show ?case unfolding l by (auto simp: register_all_buf register_all_append)
qed

lemma mount_from_blk_spec:
  assumes d: "dev_ok d" and ok: "vol_ok N (content d)"
    and "file_buf_next t + arena_need (content d) [0..<DIR_ENTRIES_PER_BLOCK] \<le> FILE_BUF_SIZE"
  shows "\<exists>b. mount_from_blk D d t = Ok (length (nonempty_files (vol_list (content d) [0..<DIR_ENTRIES_PER_BLOCK])),
    (register_all (nonempty_files (vol_list (content d) [0..<DIR_ENTRIES_PER_BLOCK])) t)\<lparr>file_buf_next := b\<rparr>)"
proof -
  have "1 \<le> N" using ok by (simp add: vol_ok_def)
  with d obtain d1 where r: "read_dir_block D (wasmfs_new d) = (Ok (dir_of (content d)), (wasmfs_new d)\<lparr>wfs_dev := d1\<rparr>)" "dev_ok d1"
    "content d1 = content d" using read_dir [of "wasmfs_new d"] by (auto simp: wasmfs_new_def)
  have "\<not> in_use (wfs_open ((wasmfs_new d)\<lparr>wfs_dev := d1\<rparr>) 0)" by (simp add: wasmfs_new_def open_file_empty_def)
  with mount_loop_spec [of "(wasmfs_new d)\<lparr>wfs_dev := d1\<rparr>" "content d" "[0..<DIR_ENTRIES_PER_BLOCK]" t 0] r(2,3) ok assms(3)
  show ?thesis by (auto simp: mount_from_blk_def r(1))
qed

end

text \<open>The image of a well-formed volume: every slice that the parser takes is inside.\<close>

lemma image_slice: "a + n \<le> m \<Longrightarrow> slice (mem_read c 0 m) a (a + n) = Ok (mem_read c a n)"
  by (simp add: slice_def take_drop_mem_read)

lemma mount_image_loop_spec:
  assumes ok: "vol_ok N c" and "\<And>i. i \<in> set is \<Longrightarrow> i < DIR_ENTRIES_PER_BLOCK"
  shows "mount_image_loop (mem_read c 0 (BLOCK_SIZE * N)) is t = Ok (register_all (vol_list c is) t)"
  using assms(2)
proof (induction "is" arbitrary: t)
  case (Cons i "is")
  let ?e = "entry_at c i"
  have N: "1 \<le> N" using ok by (simp add: vol_ok_def)
  have i: "i * DIR_ENTRY_SIZE + DIR_ENTRY_SIZE \<le> BLOCK_SIZE" using Cons.prems [of i] by (simp add: dir_sizes)
  then have "i * DIR_ENTRY_SIZE + DIR_ENTRY_SIZE \<le> BLOCK_SIZE * N" using N by (metis mult.right_neutral mult_le_mono2 order_trans)
  moreover have "entry_from_bytes (mem_read c (i * DIR_ENTRY_SIZE) DIR_ENTRY_SIZE) = ?e"
    using i by (simp add: entry_at_def read_entry_def dir_of_def take_drop_mem_read)
  moreover have "unat (start_block ?e) * BLOCK_SIZE + unat (de_size ?e) \<le> BLOCK_SIZE * N" if v: "is_valid ?e"
    using data_inside [of ?e N] vol_entry [OF ok _ v] Cons.prems by (simp add: mult.commute)
  ultimately show ?case
    using Cons.IH Cons.prems
    by (simp add: image_slice Let_def vol_list_def register_all_def vol_entry_file_def file_bytes_def)
qed (simp add: vol_list_def register_all_def)

lemma distinct_vol_list: "vol_ok N c \<Longrightarrow> distinct (map fst (vol_list c [0..<DIR_ENTRIES_PER_BLOCK]))"
  using vol_unique [of N c]
  by (auto simp: vol_list_def vol_entry_file_def distinct_map inj_on_def)

text \<open>The eight files of a small device fit the arena.\<close>

lemma arena_need_le:
  assumes "vol_ok N c"
  shows "arena_need c [0..<DIR_ENTRIES_PER_BLOCK] \<le> DIR_ENTRIES_PER_BLOCK * (N * BLOCK_SIZE + 7)"
proof -
  have "arena_need c is \<le> length is * (N * BLOCK_SIZE + 7)" if "\<And>i. i \<in> set is \<Longrightarrow> i < DIR_ENTRIES_PER_BLOCK" for "is"
    using that
  proof (induction "is")
    case (Cons i "is")
    have "unat (de_size (entry_at c i)) \<le> N * BLOCK_SIZE" if "is_valid (entry_at c i)"
      using data_inside [of "entry_at c i" N] vol_entry [OF assms _ that] Cons.prems by simp
    with Cons show ?case by (auto simp: arena_need_def intro: order_trans)
  qed (simp add: arena_need_def)
  from this [of "[0..<DIR_ENTRIES_PER_BLOCK]"] show ?thesis by simp
qed

section \<open>Properties\<close>


text \<open>An empty RAM disk is a well-formed volume without files.\<close>

lemma empty_volume: "\<not> is_valid (entry_at (\<lambda>_. 0) i)" if "i < DIR_ENTRIES_PER_BLOCK" for i
proof -
  have "dir_of (\<lambda>_. 0) = replicate BLOCK_SIZE 0" by (simp add: dir_of_def mem_read_def map_replicate_const)
  then show ?thesis using that by (simp add: entry_at_def read_entry_def entry_from_bytes_def is_valid_def dir_sizes)
qed

lemma empty_ok: "vol_ok RAMDISK_BLOCKS (\<lambda>_. 0)" "vol_end (\<lambda>_. 0) = 1" "vol_files (\<lambda>_. 0) name = None"
proof -
  show ok: "vol_ok RAMDISK_BLOCKS (\<lambda>_. 0)" using empty_volume by (auto simp: vol_ok_def RAMDISK_BLOCKS_def)
  have f: "fold (\<lambda>i m. if is_valid (entry_at (\<lambda>_. 0) i) then max m (g i) else m) is (m :: nat) = m"
    if "\<And>i. i \<in> set is \<Longrightarrow> i < DIR_ENTRIES_PER_BLOCK" for g "is" m
    using that by (induction "is") (simp_all add: empty_volume)
  show "vol_end (\<lambda>_. 0) = 1" unfolding vol_end_def by (rule f) simp
  show "vol_files (\<lambda>_. 0) name = None" using vol_files_iff [OF ok, of name] empty_volume by (metis not_Some_eq)
qed


text \<open>
  C17: What was written is read back. After a write that fits, opening the name gives the first free descriptor, and
  consecutive reads through it return consecutive pieces of the data, of whatever sizes are asked for.
\<close>
theorem wasmfs_write_then_read:
  assumes "block_device D dev_ok N content" and "dev_ok (wfs_dev s)" and "vol_ok N (content (wfs_dev s))"
    and "entry_name_ok name" and "length data < 2 ^ 32"
    and "vol_files (content (wfs_dev s)) name \<noteq> None \<or> (\<exists>i < DIR_ENTRIES_PER_BLOCK. \<not> is_valid (entry_at (content (wfs_dev s)) i))"
    and "vol_end (content (wfs_dev s)) + max (data_blocks (length data)) 1 \<le> N" and "free_fd (wfs_open s) = Some fd"
  shows "\<exists>s1 s2 s3 s4. fs_write D name data s = (Ok (), s1) \<and> fs_open D name s1 = (Ok (Some fd), s2)
    \<and> fs_read D fd m m s2 = (Ok (take m data), s3) \<and> fs_read D fd n n s3 = (Ok (take n (drop m data)), s4)"
proof -
  obtain d where w: "fs_write D name data s = (Ok (), s\<lparr>wfs_dev := d\<rparr>)" "dev_ok d" "vol_ok N (content d)"
    "vol_files (content d) = (vol_files (content (wfs_dev s)))(name \<mapsto> data)"
    using block_device.fs_write_spec(1) [OF assms(1,2,3) refl assms(4,6,5,7)] by blast
  have "vol_files (content (wfs_dev (s\<lparr>wfs_dev := d\<rparr>))) name = Some data" "free_fd (wfs_open (s\<lparr>wfs_dev := d\<rparr>)) = Some fd"
    "dev_ok (wfs_dev (s\<lparr>wfs_dev := d\<rparr>))" "vol_ok N (content (wfs_dev (s\<lparr>wfs_dev := d\<rparr>)))"
    using w assms(8) by simp_all
  from block_device.fs_read_back [OF assms(1) this(3,4) refl this(2,1), of m n] w(1) show ?thesis by blast
qed

theorem wasmfs_write_then_read_witness:
  "\<exists>s1 s2 s3 s4. fs_write Ramdisk [97] [1, 2, 3] (wasmfs_new (\<lambda>_. 0)) = (Ok (), s1) \<and> fs_open Ramdisk [97] s1 = (Ok (Some 0), s2)
    \<and> fs_read Ramdisk 0 2 2 s2 = (Ok [1, 2], s3) \<and> fs_read Ramdisk 0 5 5 s3 = (Ok [3], s4)"
proof -
  have "entry_name_ok [97]" by (simp add: entry_name_ok_def utf8_valid.simps)
  moreover have "\<exists>i < DIR_ENTRIES_PER_BLOCK. \<not> is_valid (entry_at (\<lambda>_. 0) i)"
    by (intro exI [of _ 0]) (simp add: empty_volume dir_sizes)
  moreover have "free_fd (wfs_open (wasmfs_new (\<lambda>_. 0 :: u8))) = Some 0"
    by (simp add: free_fd_def find_upt MAX_OPEN_FILES_def wasmfs_new_def open_file_empty_def)
  ultimately show ?thesis
    using wasmfs_write_then_read [OF ramdisk.block_device_axioms, of "wasmfs_new (\<lambda>_. 0)" "[97]" "[1, 2, 3]" 0 2 5] empty_ok(1,2)
    by (simp add: wasmfs_new_def data_blocks_def BLOCK_SIZE_def RAMDISK_BLOCKS_def)
qed

text \<open>
  C18: The two ways of mounting a volume at boot agree. From a well-formed volume of which the device and the embedded
  image are the same bytes, parsing the image registers every file of the volume, and streaming the files from
  the device registers the same ones except those that are empty; both never fail. The arena has room for the files,
  and the table is empty before.
\<close>
theorem mounts_agree:
  assumes "block_device D dev_ok N content" and "dev_ok d" and "vol_ok N (content d)" and "file_count t = 0"
    and "file_buf_next t + arena_need (content d) [0..<DIR_ENTRIES_PER_BLOCK] \<le> FILE_BUF_SIZE"
  shows "\<exists>t1 t2 k. mount_from_image (mem_read (content d) 0 (BLOCK_SIZE * N)) t = Ok t1 \<and> mount_from_blk D d t = Ok (k, t2)
    \<and> (\<forall>name. find_file name t1 = vol_files (content d) name
        \<and> find_file name t2 = (case vol_files (content d) name of Some [] \<Rightarrow> None | r \<Rightarrow> r))"
proof -
  let ?fs = "vol_list (content d) [0..<DIR_ENTRIES_PER_BLOCK]"
  obtain b where b: "mount_from_blk D d t = Ok (length (nonempty_files ?fs), (register_all (nonempty_files ?fs) t)\<lparr>file_buf_next := b\<rparr>)"
    using block_device.mount_from_blk_spec [OF assms(1-3,5)] by blast
  have "0 < N" using assms(3) by (simp add: vol_ok_def)
  then have i: "mount_from_image (mem_read (content d) 0 (BLOCK_SIZE * N)) t = Ok (register_all ?fs t)"
    using mount_image_loop_spec [OF assms(3), of "[0..<DIR_ENTRIES_PER_BLOCK]" t] by (simp add: mount_from_image_def)
  have sub: "length (nonempty_files ?fs) \<le> MAX_FILES" "length ?fs \<le> MAX_FILES"
    using length_vol_list [of "content d"] order_trans [OF length_filter_le [of "\<lambda>(n, d). d \<noteq> []" ?fs], of 64]
    by (simp_all add: nonempty_files_def MAX_FILES_def)
  have "find_file name (register_all ?fs t) = vol_files (content d) name" for name
    using find_registered [OF assms(4) sub(2)] vol_list_names by (metis map_of_vol_list)
  moreover have "find_file name (register_all (nonempty_files ?fs) t) = map_of (nonempty_files ?fs) name" for name
    using vol_list_names by (intro find_registered [OF assms(4) sub(1)]) (auto simp: nonempty_files_def)
  ultimately show ?thesis
    using b i map_of_nonempty [OF distinct_vol_list [OF assms(3)]] by (simp add: find_file_buf map_of_vol_list)
qed

theorem mounts_agree_witness:
  "\<exists>d t1 t2 k. mount_from_image (mem_read d 0 (BLOCK_SIZE * RAMDISK_BLOCKS)) empty_fs = Ok t1 \<and> mount_from_blk Ramdisk d empty_fs = Ok (k, t2)
     \<and> find_file [97] t1 = Some [1, 2, 3] \<and> find_file [97] t2 = Some [1, 2, 3] \<and> find_file [98] t2 = None"
proof -
  have "entry_name_ok [97]" by (simp add: entry_name_ok_def utf8_valid.simps)
  moreover have "\<exists>i < DIR_ENTRIES_PER_BLOCK. \<not> is_valid (entry_at (\<lambda>_. 0) i)"
    by (intro exI [of _ 0]) (simp add: empty_volume dir_sizes)
  moreover have "vol_end (\<lambda>_. 0) + max (data_blocks (length [1, 2, 3 :: u8])) 1 \<le> RAMDISK_BLOCKS"
    using empty_ok(2) by (simp add: data_blocks_def BLOCK_SIZE_def RAMDISK_BLOCKS_def)
  ultimately obtain d where d: "vol_ok RAMDISK_BLOCKS d" "vol_files d = (vol_files (\<lambda>_. 0))([97] \<mapsto> [1, 2, 3])"
    using ramdisk.fs_write_spec(1) [where s = "wasmfs_new (\<lambda>_. 0)" and c = "\<lambda>_. 0" and name = "[97]" and data = "[1, 2, 3]"] empty_ok(1) by (auto simp: wasmfs_new_def)
  have "arena_need d [0..<DIR_ENTRIES_PER_BLOCK] \<le> FILE_BUF_SIZE"
    using arena_need_le [OF d(1)] by (simp add: dir_sizes RAMDISK_BLOCKS_def FILE_BUF_SIZE_def)
  with mounts_agree [OF ramdisk.block_device_axioms, of d empty_fs] d(1) obtain t1 t2 k where
    "mount_from_image (mem_read d 0 (BLOCK_SIZE * RAMDISK_BLOCKS)) empty_fs = Ok t1" "mount_from_blk Ramdisk d empty_fs = Ok (k, t2)"
    and f: "\<And>name. find_file name t1 = vol_files d name" "\<And>name. find_file name t2 = (case vol_files d name of Some [] \<Rightarrow> None | r \<Rightarrow> r)"
    by (auto simp: empty_fs_def)
  moreover have "find_file [97] t1 = Some [1, 2, 3]" "find_file [97] t2 = Some [1, 2, 3]" "find_file [98] t2 = None"
    using empty_ok(3) by (simp_all add: f d(2))
  ultimately show ?thesis by blast
qed

end
