(* ===== verification/Rust_Strings.thy ===== *)
theory Rust_Strings
  imports Prelude
begin

text \<open>
  The parts of \<open>str\<close>, \<open>String\<close> and \<open>core::fmt\<close> that the shell uses, on the bytes of a string: character boundaries and
  encoding, insertion and removal at a byte index (which panic off a boundary), prefixes and suffixes,
  trimming, and the formatting of numbers with padding.
\<close>

section \<open>Characters in UTF-8\<close>

definition is_char_boundary :: "bytes \<Rightarrow> nat \<Rightarrow> bool" where
  "is_char_boundary s i \<longleftrightarrow> i = 0 \<or> i = length s \<or> (i < length s \<and> \<not> utf8_cont (s ! i))"

definition encode_utf8 :: "u32 \<Rightarrow> bytes" where
  "encode_utf8 c =
     (if c < 0x80 then [ucast c]
      else if c < 0x800 then [0xC0 OR ucast (drop_bit 6 c), 0x80 OR ucast (c AND 0x3F)]
      else if c < 0x10000 then [0xE0 OR ucast (drop_bit 12 c), 0x80 OR ucast (drop_bit 6 c AND 0x3F), 0x80 OR ucast (c AND 0x3F)]
      else [0xF0 OR ucast (drop_bit 18 c), 0x80 OR ucast (drop_bit 12 c AND 0x3F), 0x80 OR ucast (drop_bit 6 c AND 0x3F),
            0x80 OR ucast (c AND 0x3F)])"

text \<open>The length of the character that starts with the byte.\<close>

definition utf8_len :: "u8 \<Rightarrow> nat" where
  "utf8_len b = (if b < 0x80 then 1 else if b < 0xE0 then 2 else if b < 0xF0 then 3 else 4)"

text \<open>\<open>String::insert\<close> and \<open>String::remove\<close>\<close>

definition str_insert :: "bytes \<Rightarrow> nat \<Rightarrow> u32 \<Rightarrow> ('e, bytes) result" where
  "str_insert s i c = (if is_char_boundary s i then Ok (take i s @ encode_utf8 c @ drop i s) else Panic)"

definition str_remove :: "bytes \<Rightarrow> nat \<Rightarrow> ('e, bytes) result" where
  "str_remove s i =
     (if is_char_boundary s i \<and> i < length s then Ok (take i s @ drop (i + utf8_len (s ! i)) s) else Panic)"

definition ascii :: "bytes \<Rightarrow> bool" where
  "ascii s \<longleftrightarrow> list_all (\<lambda>b. b < 0x80) s"

lemma ascii_simps [simp]: "ascii []" "ascii (b # s) \<longleftrightarrow> b < 0x80 \<and> ascii s" "ascii (s @ t) \<longleftrightarrow> ascii s \<and> ascii t"
  by (auto simp: ascii_def)

lemma ascii_take_drop [simp]: "ascii s \<Longrightarrow> ascii (take n s)" "ascii s \<Longrightarrow> ascii (drop n s)"
  by (auto simp: ascii_def list_all_iff dest: in_set_takeD in_set_dropD)

lemma ascii_nth: "ascii s \<Longrightarrow> i < length s \<Longrightarrow> s ! i < 0x80"
  by (simp add: ascii_def list_all_length)

lemma ascii_boundary: "ascii s \<Longrightarrow> is_char_boundary s i \<longleftrightarrow> i \<le> length s"
  using ascii_nth [of s i] by (auto simp: is_char_boundary_def utf8_cont_def)

lemma ascii_remove: "ascii s \<Longrightarrow> i < length s \<Longrightarrow> str_remove s i = Ok (take i s @ drop (Suc i) s)"
  using ascii_nth [of s i] by (simp add: str_remove_def ascii_boundary utf8_len_def)

lemma ascii_insert: "ascii s \<Longrightarrow> i \<le> length s \<Longrightarrow> c < 0x80 \<Longrightarrow> str_insert s i c = Ok (take i s @ ucast c # drop i s)"
  by (simp add: str_insert_def ascii_boundary encode_utf8_def)

lemma ascii_utf8: "ascii s \<Longrightarrow> utf8_valid s"
  by (rule utf8_valid_ascii) (simp add: ascii_def list_all_iff)

lemma ucast_ascii: "c < 0x80 \<Longrightarrow> (ucast (c :: u32) :: u8) < 0x80"
  by (simp add: word_less_nat_alt unsigned_ucast_eq take_bit_nat_eq_self)

section \<open>Prefixes, suffixes, trimming\<close>

fun starts_with :: "bytes \<Rightarrow> bytes \<Rightarrow> bool" where
  "starts_with s [] = True"
| "starts_with [] (p # ps) = False"
| "starts_with (b # bs) (p # ps) = (b = p \<and> starts_with bs ps)"

lemma starts_with_iff: "starts_with s p \<longleftrightarrow> (\<exists>r. s = p @ r)"
  by (induction s p rule: starts_with.induct) auto

lemma starts_with_take: "starts_with s p \<longleftrightarrow> take (length p) s = p"
  by (induction s p rule: starts_with.induct) auto

definition ends_with :: "bytes \<Rightarrow> bytes \<Rightarrow> bool" where
  "ends_with s p = starts_with (rev s) (rev p)"

definition strip_suffix :: "bytes \<Rightarrow> bytes \<Rightarrow> bytes option" where
  "strip_suffix s p = (if ends_with s p then Some (take (length s - length p) s) else None)"

lemma ends_with_iff: "ends_with s p \<longleftrightarrow> (\<exists>r. s = r @ p)"
  by (auto simp: ends_with_def starts_with_iff) (metis rev_append rev_rev_ident)

lemma strip_suffix_Some: "strip_suffix s p = Some r \<longleftrightarrow> s = r @ p"
  by (auto simp: strip_suffix_def ends_with_iff)

definition trim_start_matches :: "u8 \<Rightarrow> bytes \<Rightarrow> bytes" where
  "trim_start_matches b s = dropWhile (\<lambda>x. x = b) s"

definition trim_end_matches :: "u8 \<Rightarrow> bytes \<Rightarrow> bytes" where
  "trim_end_matches b s = rev (dropWhile (\<lambda>x. x = b) (rev s))"

text \<open>\<open>rfind\<close>: the index of the last occurrence.\<close>

fun rfind :: "u8 \<Rightarrow> bytes \<Rightarrow> nat option" where
  "rfind b [] = None"
| "rfind b (x # xs) = (case rfind b xs of Some i \<Rightarrow> Some (Suc i) | None \<Rightarrow> if x = b then Some 0 else None)"

lemma rfind_None: "rfind b s = None \<longleftrightarrow> b \<notin> set s"
  by (induction s) (auto split: option.splits)

lemma rfind_Some: "rfind b s = Some i \<Longrightarrow> i < length s \<and> s ! i = b \<and> b \<notin> set (drop (Suc i) s)"
  by (induction s arbitrary: i) (auto split: option.splits if_splits simp: rfind_None)

lemma rfind_split: "b \<notin> set t \<Longrightarrow> rfind b (s @ b # t) = Some (length s)"
  by (induction s) (auto simp: rfind_None split: option.split)

section \<open>Numbers\<close>

text \<open>The decimal numeral of \<open>{}\<close>.\<close>

fun dec_str :: "nat \<Rightarrow> bytes" where
  "dec_str n = (if n < 10 then [0x30 + word_of_nat n] else dec_str (n div 10) @ [0x30 + word_of_nat (n mod 10)])"

declare dec_str.simps [simp del]

definition digit_value :: "u8 \<Rightarrow> nat" where
  "digit_value b = unat (b - 0x30)"

definition dec_val :: "bytes \<Rightarrow> nat" where
  "dec_val = foldl (\<lambda>v b. v * 10 + digit_value b) 0"

lemma digit_value: "n < 10 \<Longrightarrow> digit_value (0x30 + word_of_nat n) = n" "n < 10 \<Longrightarrow> (0x30 :: u8) \<le> 0x30 + word_of_nat n \<and> (0x30 :: u8) + word_of_nat n \<le> 0x39"
proof -
  assume n: "n < 10"
  then have u: "unat ((0x30 :: u8) + word_of_nat n) = 0x30 + n"
    by (simp add: unat_word_ariths(1) unat_word_of_nat)
  show "digit_value (0x30 + word_of_nat n) = n" using n by (simp add: digit_value_def unat_word_of_nat)
  show "(0x30 :: u8) \<le> 0x30 + word_of_nat n \<and> (0x30 :: u8) + word_of_nat n \<le> 0x39"
    using n u by (simp add: word_le_nat_alt)
qed

lemma dec_val_str: "dec_val (dec_str n) = n"
  by (induction n rule: dec_str.induct)
    (subst dec_str.simps, auto simp: dec_val_def digit_value)

lemma dec_str_digits: "list_all (\<lambda>b. 0x30 \<le> b \<and> b \<le> 0x39) (dec_str n)" and dec_str_nonempty: "dec_str n \<noteq> []"
  by (induction n rule: dec_str.induct; subst dec_str.simps; simp add: digit_value)+

text \<open>\<open>{:>w}\<close> and \<open>{:<w}\<close>; the width counts characters.\<close>

definition char_count :: "bytes \<Rightarrow> nat" where
  "char_count s = length (filter (\<lambda>b. \<not> utf8_cont b) s)"

definition pad_left :: "nat \<Rightarrow> bytes \<Rightarrow> bytes" where
  "pad_left w s = replicate (w - char_count s) 0x20 @ s"

definition pad_right :: "nat \<Rightarrow> bytes \<Rightarrow> bytes" where
  "pad_right w s = s @ replicate (w - char_count s) 0x20"

end
