(* ===== verification/Fat.thy ===== *)
theory Fat
  imports Block_Device File_Table Rust_Strings
begin

text \<open>
  The FAT volume of the kernel (\<open>kernel/src/fs/fat.rs\<close> from the mount functions on) and the functions of
  \<open>kernel/src/fs/mod.rs\<close> that move files between it and the file table. The file system itself is the crate
  \<open>fatfs\<close>: its operations are a record of functions, a parameter of every definition here, on a volume, directory
  handles and file handles of any types. What the theorems need of it is stated as \<open>root_files\<close>: short reads and
  writes are allowed, and any operation may fail.
\<close>

section \<open>The crate\<close>

text \<open>A directory entry as the iterator of the crate shows it.\<close>

record dirent =
  d_name :: bytes
  d_len :: u64
  d_is_dir :: bool
  d_is_file :: bool

text \<open>
  \<open>file_read n\<close> returns the bytes put into a buffer of \<open>n\<close> bytes, \<open>file_write\<close> how many bytes were taken; the directory
  iterator yields results. All errors of the crate are discarded by the callers.
\<close>

record ('v, 'h, 'f) fatfs =
  root_dir :: 'h
  open_dir :: "'h \<Rightarrow> bytes \<Rightarrow> ('v, unit, 'h) sm"
  open_file_in :: "'h \<Rightarrow> bytes \<Rightarrow> ('v, unit, 'f) sm"
  create_file :: "'h \<Rightarrow> bytes \<Rightarrow> ('v, unit, 'f) sm"
  create_dir :: "'h \<Rightarrow> bytes \<Rightarrow> ('v, unit, 'h) sm"
  remove_in :: "'h \<Rightarrow> bytes \<Rightarrow> ('v, unit, unit) sm"
  dir_iter :: "'h \<Rightarrow> ('v, unit, dirent option list) sm"
  file_seek :: "seek_from \<Rightarrow> 'f \<Rightarrow> ('v, unit, u64 \<times> 'f) sm"
  file_read :: "nat \<Rightarrow> 'f \<Rightarrow> ('v, unit, bytes \<times> 'f) sm"
  file_write :: "bytes \<Rightarrow> 'f \<Rightarrow> ('v, unit, nat \<times> 'f) sm"
  file_truncate :: "'f \<Rightarrow> ('v, unit, 'f) sm"
  file_flush :: "'f \<Rightarrow> ('v, unit, 'f) sm"
  fs_stats :: "('v, unit, u32 \<times> u32 \<times> u32) sm"
  fs_mount :: "u8 arr block_io \<Rightarrow> (unit, 'v) result"

text \<open>A method that returns \<open>Option\<close>, with \<open>?\<close> on it: \<open>Err ()\<close> is \<open>None\<close>. \<open>optional\<close> ends such a body, \<open>is_ok\<close> asks for success only.\<close>

definition optional :: "('s, unit, 'a) sm \<Rightarrow> ('s, unit, 'a option) sm" where
  "optional m = (\<lambda>s. case m s of (Ok x, t) \<Rightarrow> (Ok (Some x), t) | (Err _, t) \<Rightarrow> (Ok None, t) | (Panic, t) \<Rightarrow> (Panic, t) | (Hang, t) \<Rightarrow> (Hang, t))"

definition is_ok :: "('s, unit, 'a) sm \<Rightarrow> ('s, unit, bool) sm" where
  "is_ok m = sbind (optional m) (\<lambda>r. ret (r \<noteq> None))"

text \<open>The items of an iterator that are there.\<close>

fun somes :: "'a option list \<Rightarrow> 'a list" where
  "somes [] = []"
| "somes (None # xs) = somes xs"
| "somes (Some x # xs) = x # somes xs"

lemma set_somes: "set (somes xs) = {x. Some x \<in> set xs}"
  by (induction xs rule: somes.induct) auto

section \<open>The mounted volume\<close>

text \<open>
  \<open>FS\<close> is the mounted volume, if any; the two variants of \<open>MountedFs\<close> run the same generic code. An operation without
  a volume returns the default.
\<close>

definition with_fs :: "'a \<Rightarrow> ('v, unit, 'a) sm \<Rightarrow> ('v option, unit, 'a) sm" where
  "with_fs dflt m = (\<lambda>fs. case fs of None \<Rightarrow> (Ok dflt, None) | Some v \<Rightarrow> (case m v of (r, v') \<Rightarrow> (r, Some v')))"

text \<open>The static image after \<open>mount_ramdisk\<close> has copied into it and zeroed the rest.\<close>

definition ram_image :: "bytes \<Rightarrow> u8 arr" where
  "ram_image img = (let copy_len = min (length img) RAM_FAT_SIZE in mem_write (\<lambda>_. 0) 0 (take copy_len img))"

text \<open>Both mounts open the file system over a fresh adapter and keep it if that succeeds.\<close>

definition mount_virtio :: "('d block_io \<Rightarrow> (unit, 'v) result) \<Rightarrow> 'd \<Rightarrow> ('v option, unit, bool) sm" where
  "mount_virtio new_fs blk = (\<lambda>fs.
     case new_fs (block_io_new blk) of
       Ok v \<Rightarrow> (Ok True, Some v)
     | Err _ \<Rightarrow> (Ok False, fs)
     | Panic \<Rightarrow> (Panic, fs)
     | Hang \<Rightarrow> (Hang, fs))"

definition mount_ramdisk :: "('v, 'h, 'f) fatfs \<Rightarrow> bytes \<Rightarrow> ('v option, unit, bool) sm" where
  "mount_ramdisk F img = mount_virtio (fs_mount F) (ram_image img)"

text \<open>The loop of \<open>do_read\<close>: \<open>size - done\<close> bytes left.\<close>

function read_loop :: "('v, 'h, 'f) fatfs \<Rightarrow> nat \<Rightarrow> 'f \<Rightarrow> ('v, unit, bytes) sm" where
  "read_loop F left f =
     (if left = 0 then ret []
      else sbind (file_read F left f) (\<lambda>(bs, f).
        if bs = [] then ret []
        else sbind (read_loop F (left - length bs) f) (\<lambda>rest. ret (bs @ rest))))"
  by pat_completeness auto
termination
  by (relation "measure (\<lambda>(F, left, f). left)") auto

declare read_loop.simps [simp del]

text \<open>Reading an open file to its end; \<open>do_read\<close> and the macro \<open>read_file!\<close> of \<open>do_read_path\<close> are this code.\<close>

definition read_open :: "('v, 'h, 'f) fatfs \<Rightarrow> 'f \<Rightarrow> ('v, unit, bytes) sm" where
  "read_open F f =
     sbind (file_seek F (SeekEnd 0) f) (\<lambda>(size, f).
     sbind (file_seek F (SeekStart 0) f) (\<lambda>(_, f).
     read_loop F (unat size) f))"

definition do_read :: "('v, 'h, 'f) fatfs \<Rightarrow> bytes \<Rightarrow> ('v, unit, bytes option) sm" where
  "do_read F name = optional (sbind (open_file_in F (root_dir F) name) (read_open F))"

definition fat_read_file :: "('v, 'h, 'f) fatfs \<Rightarrow> bytes \<Rightarrow> ('v option, unit, bytes option) sm" where
  "fat_read_file F name = with_fs None (do_read F name)"

text \<open>The loop of \<open>do_write\<close> on the data left: a write of nothing ends it as an error does.\<close>

function write_loop :: "('v, 'h, 'f) fatfs \<Rightarrow> bytes \<Rightarrow> 'f \<Rightarrow> ('v, unit, 'f) sm" where
  "write_loop F data f =
     (if data = [] then ret f
      else sbind (file_write F data f) (\<lambda>(n, f).
        if n > 0 then write_loop F (drop n data) f else throw ()))"
  by pat_completeness auto
termination
  by (relation "measure (\<lambda>(F, data, f). length data)") auto

declare write_loop.simps [simp del]

definition do_write :: "('v, 'h, 'f) fatfs \<Rightarrow> bytes \<Rightarrow> bytes \<Rightarrow> ('v, unit, bool) sm" where
  "do_write F name data =
     is_ok (sbind (create_file F (root_dir F) name) (\<lambda>f.
            sbind (file_truncate F f) (\<lambda>f.
            sbind (write_loop F data f) (file_flush F))))"

definition fat_write :: "('v, 'h, 'f) fatfs \<Rightarrow> bytes \<Rightarrow> bytes \<Rightarrow> ('v option, unit, bool) sm" where
  "fat_write F name data = with_fs False (do_write F name data)"

definition fat_remove_file :: "('v, 'h, 'f) fatfs \<Rightarrow> bytes \<Rightarrow> ('v option, unit, bool) sm" where
  "fat_remove_file F name = with_fs False (is_ok (remove_in F (root_dir F) name))"

definition do_list :: "('v, 'h, 'f) fatfs \<Rightarrow> ('v, unit, (bytes \<times> u32) list) sm" where
  "do_list F = sbind (dir_iter F (root_dir F)) (\<lambda>es.
     ret (map (\<lambda>e. (d_name e, ucast (d_len e))) (filter d_is_file (somes es))))"

definition fat_list :: "('v, 'h, 'f) fatfs \<Rightarrow> ('v option, unit, (bytes \<times> u32) list) sm" where
  "fat_list F = with_fs [] (do_list F)"

section \<open>Paths and directories\<close>

definition split_path :: "bytes \<Rightarrow> bytes \<times> bytes" where
  "split_path path =
     (let p = trim_start_matches 0x2F path in
      case rfind 0x2F p of Some pos \<Rightarrow> (take pos p, drop (pos + 1) p) | None \<Rightarrow> ([], p))"

text \<open>The factors have 32 bits, so the 64-bit products cannot overflow.\<close>

definition do_stats :: "('v, 'h, 'f) fatfs \<Rightarrow> ('v, unit, (u64 \<times> u64) option) sm" where
  "do_stats F = optional (sbind (fs_stats F) (\<lambda>(c, total, free). ret (ucast total * ucast c, ucast free * ucast c)))"

definition fat_disk_stats :: "('v, 'h, 'f) fatfs \<Rightarrow> ('v option, unit, (u64 \<times> u64) option) sm" where
  "fat_disk_stats F = with_fs None (do_stats F)"

definition fat_is_dir :: "('v, 'h, 'f) fatfs \<Rightarrow> bytes \<Rightarrow> ('v option, unit, bool) sm" where
  "fat_is_dir F path =
     (let name = trim_start_matches 0x2F path in
      if name = [] then ret True else with_fs False (is_ok (open_dir F (root_dir F) name)))"

definition fat_mkdir :: "('v, 'h, 'f) fatfs \<Rightarrow> bytes \<Rightarrow> ('v option, unit, bool) sm" where
  "fat_mkdir F name =
     (let name = trim_start_matches 0x2F name in
      if name = [] then ret False else with_fs False (is_ok (create_dir F (root_dir F) name)))"

text \<open>The calls \<open>cb(name, size, is_dir)\<close> for a directory, without \<open>.\<close> and \<open>..\<close>.\<close>

definition shown_entries :: "dirent option list \<Rightarrow> (bytes \<times> u32 \<times> bool) list" where
  "shown_entries es =
     map (\<lambda>e. (d_name e, if d_is_dir e then 0 else ucast (d_len e), d_is_dir e))
       (filter (\<lambda>e. d_name e \<noteq> str_bytes ''.'' \<and> d_name e \<noteq> str_bytes ''..'') (somes es))"

definition do_list_path :: "('v, 'h, 'f) fatfs \<Rightarrow> bytes \<Rightarrow> ('v, unit, (bytes \<times> u32 \<times> bool) list) sm" where
  "do_list_path F path =
     (let dir_name = trim_start_matches 0x2F path in
      if dir_name = [] then sbind (dir_iter F (root_dir F)) (\<lambda>es. ret (shown_entries es))
      else sbind (optional (open_dir F (root_dir F) dir_name)) (\<lambda>d.
        case d of None \<Rightarrow> ret [] | Some subdir \<Rightarrow> sbind (dir_iter F subdir) (\<lambda>es. ret (shown_entries es))))"

definition fat_list_path :: "('v, 'h, 'f) fatfs \<Rightarrow> bytes \<Rightarrow> ('v option, unit, (bytes \<times> u32 \<times> bool) list) sm" where
  "fat_list_path F path = with_fs [] (do_list_path F path)"

definition do_read_path :: "('v, 'h, 'f) fatfs \<Rightarrow> bytes \<Rightarrow> ('v, unit, bytes option) sm" where
  "do_read_path F path =
     (case split_path path of (dir_part, file_part) \<Rightarrow>
      optional
        (if dir_part = [] then sbind (open_file_in F (root_dir F) file_part) (read_open F)
         else sbind (open_dir F (root_dir F) dir_part) (\<lambda>subdir. sbind (open_file_in F subdir file_part) (read_open F))))"

definition fat_read_path :: "('v, 'h, 'f) fatfs \<Rightarrow> bytes \<Rightarrow> ('v option, unit, bytes option) sm" where
  "fat_read_path F path = with_fs None (do_read_path F path)"

section \<open>Between the volume and the file table\<close>

definition DISK_SLOTS :: nat where "DISK_SLOTS = 64"

text \<open>One round of the loading loop, on the name as it was kept (at most 64 bytes).\<close>

definition load_file :: "('v, 'h, 'f) fatfs \<Rightarrow> bytes \<Rightarrow> ('v option \<times> fs, unit, unit) sm" where
  "load_file F kept = (\<lambda>(vol, t).
     let name = (case from_utf8 kept of Some s \<Rightarrow> s | None \<Rightarrow> []) in
     if name = [] then (Ok (), vol, t)
     else case fat_read_file F name vol of
       (Ok (Some data), vol) \<Rightarrow>
         (case alloc_disk_slot (length data) t of
            (Some _, t) \<Rightarrow> (Ok (), vol, register_file name data t)
          | (None, t) \<Rightarrow> (Ok (), vol, t))
     | (Ok None, vol) \<Rightarrow> (Ok (), vol, t)
     | (Err e, vol) \<Rightarrow> (Err e, vol, t)
     | (Panic, vol) \<Rightarrow> (Panic, vol, t)
     | (Hang, vol) \<Rightarrow> (Hang, vol, t))"

primrec load_files :: "('v, 'h, 'f) fatfs \<Rightarrow> bytes list \<Rightarrow> ('v option \<times> fs, unit, unit) sm" where
  "load_files F [] = ret ()"
| "load_files F (n # ns) = sthen (load_file F n) (load_files F ns)"

definition on_volume :: "('v option, unit, 'a) sm \<Rightarrow> ('v option \<times> fs, unit, 'a) sm" where
  "on_volume m = (\<lambda>(vol, t). case m vol of (r, vol) \<Rightarrow> (r, vol, t))"

definition load_fat_files_to_table :: "('v, 'h, 'f) fatfs \<Rightarrow> ('v option \<times> fs, unit, unit) sm" where
  "load_fat_files_to_table F =
     sbind (on_volume (fat_list F)) (\<lambda>es. load_files F (map (\<lambda>(n, _). take 64 n) (take DISK_SLOTS es)))"

primrec save_files :: "('v, 'h, 'f) fatfs \<Rightarrow> File option list \<Rightarrow> nat \<Rightarrow> ('v option, unit, nat) sm" where
  "save_files F [] saved = ret saved"
| "save_files F (e # es) saved =
     (case e of
        None \<Rightarrow> save_files F es saved
      | Some f \<Rightarrow> sbind (fat_write F (name_str f) (f_data f)) (\<lambda>ok. save_files F es (if ok then saved + 1 else saved)))"

definition save_to_fat :: "('v, 'h, 'f) fatfs \<Rightarrow> fs \<Rightarrow> ('v option, unit, nat) sm" where
  "save_to_fat F t = save_files F (map (file_table t) [0..<file_count t]) 0"

section \<open>What the crate promises\<close>

text \<open>
  The root directory as a map from names to contents. \<open>vol\<close> reads it off a volume, \<open>nm\<close> is the comparison form of a
  name (FAT names are compared without case), \<open>fname\<close> and \<open>fpos\<close> are the file and the position of a handle. An
  operation may fail unless the volume is \<open>reliable\<close>; a read may be short but is empty only at the end; a write may
  take less than it is given.
\<close>

definition outcome :: "bool \<Rightarrow> (unit, 'a) result \<Rightarrow> ('a \<Rightarrow> bool) \<Rightarrow> bool" where
  "outcome reliable r P = (case r of Ok x \<Rightarrow> P x | Err _ \<Rightarrow> \<not> reliable | Panic \<Rightarrow> False | Hang \<Rightarrow> False)"

definition reads_ok :: "('v, 'h, 'f) fatfs \<Rightarrow> bool \<Rightarrow> ('v \<Rightarrow> bytes \<Rightarrow> bytes option) \<Rightarrow> (bytes \<Rightarrow> bytes) \<Rightarrow> ('f \<Rightarrow> bytes) \<Rightarrow> ('f \<Rightarrow> nat) \<Rightarrow> bool" where
  "reads_ok F reliable vol nm fname fpos \<longleftrightarrow>
     (\<forall>v name r v'. open_file_in F (root_dir F) name v = (r, v') \<longrightarrow> vol v' = vol v
        \<and> (if vol v (nm name) = None then r = Err () else outcome reliable r (\<lambda>f. fname f = nm name)))
   \<and> (\<forall>v f c r v'. vol v (fname f) = Some c \<and> length c < 2 ^ 32 \<and> file_seek F (SeekEnd 0) f v = (r, v') \<longrightarrow> vol v' = vol v
        \<and> outcome reliable r (\<lambda>(p, f'). p = word_of_nat (length c) \<and> fname f' = fname f))
   \<and> (\<forall>v f c r v'. vol v (fname f) = Some c \<and> file_seek F (SeekStart 0) f v = (r, v') \<longrightarrow> vol v' = vol v
        \<and> outcome reliable r (\<lambda>(p, f'). fpos f' = 0 \<and> fname f' = fname f))
   \<and> (\<forall>v f c n r v'. vol v (fname f) = Some c \<and> 0 < n \<and> file_read F n f v = (r, v') \<longrightarrow> vol v' = vol v
        \<and> outcome reliable r (\<lambda>(bs, f'). fname f' = fname f \<and> fpos f' = fpos f + length bs
            \<and> length bs \<le> n \<and> bs = take (length bs) (drop (fpos f) c) \<and> (bs = [] \<longrightarrow> length c \<le> fpos f)))"

definition writes_ok :: "('v, 'h, 'f) fatfs \<Rightarrow> bool \<Rightarrow> ('v \<Rightarrow> bytes \<Rightarrow> bytes option) \<Rightarrow> (bytes \<Rightarrow> bytes) \<Rightarrow> ('f \<Rightarrow> bytes) \<Rightarrow> ('f \<Rightarrow> nat) \<Rightarrow> bool" where
  "writes_ok F reliable vol nm fname fpos \<longleftrightarrow>
     (\<forall>v name r v'. create_file F (root_dir F) name v = (r, v') \<longrightarrow> (\<forall>n. n \<noteq> nm name \<longrightarrow> vol v' n = vol v n)
        \<and> outcome reliable r (\<lambda>f. fname f = nm name \<and> fpos f = 0
            \<and> vol v' (nm name) = Some (case vol v (nm name) of None \<Rightarrow> [] | Some c \<Rightarrow> c)))
   \<and> (\<forall>v f c r v'. vol v (fname f) = Some c \<and> fpos f = 0 \<and> file_truncate F f v = (r, v') \<longrightarrow> (\<forall>n. n \<noteq> fname f \<longrightarrow> vol v' n = vol v n)
        \<and> outcome reliable r (\<lambda>f'. fname f' = fname f \<and> fpos f' = 0 \<and> vol v' (fname f) = Some []))
   \<and> (\<forall>v f c data r v'. vol v (fname f) = Some c \<and> data \<noteq> [] \<and> file_write F data f v = (r, v') \<longrightarrow> (\<forall>n. n \<noteq> fname f \<longrightarrow> vol v' n = vol v n)
        \<and> outcome reliable r (\<lambda>(k, f'). fname f' = fname f \<and> fpos f' = fpos f + k \<and> k \<le> length data \<and> (reliable \<longrightarrow> 0 < k)
            \<and> vol v' (fname f) = Some (take (fpos f) c @ take k data @ drop (fpos f + k) c)))
   \<and> (\<forall>v f r v'. file_flush F f v = (r, v') \<longrightarrow> vol v' = vol v \<and> outcome reliable r (\<lambda>_. True))"

lemma outcome_cases:
  assumes "outcome reliable r P"
  obtains (Ok) x where "r = Ok x" "P x" | (Err) e where "r = Err e" "\<not> reliable"
  using assms by (cases r) (auto simp: outcome_def)

lemma outcome_Ok [simp]: "outcome reliable (Ok x) P = P x" "outcome reliable (Err e) P = (\<not> reliable)"
  by (simp_all add: outcome_def)

text \<open>Chaining: the second computation runs where the first succeeded.\<close>

lemma sbind_outcome:
  assumes "m s = (r, s1)" and "outcome reliable r P" and "\<And>x. P x \<Longrightarrow> R (f x s1)" and "\<And>e. \<not> reliable \<Longrightarrow> R (Err e, s1)"
  shows "R (sbind m f s)"
  using assms by (cases r) (auto simp: sbind_def outcome_def)

section \<open>Reading\<close>

lemma read_loop_spec:
  assumes "reads_ok F reliable vol nm fname fpos" and "vol v (fname f) = Some c" and "fpos f + left = length c"
  shows "\<exists>r v'. read_loop F left f v = (r, v') \<and> vol v' = vol v \<and> outcome reliable r (\<lambda>bs. bs = drop (fpos f) c)"
  using assms(2,3)
proof (induction left arbitrary: f v rule: less_induct)
  case (less left)
  show ?case
  proof (cases "left = 0")
    case True
    then show ?thesis using less.prems by (simp add: read_loop.simps ret_def)
  next
    case False
    obtain r v1 where rd: "file_read F left f v = (r, v1)" by fastforce
    then have v1: "vol v1 = vol v" and o: "outcome reliable r (\<lambda>(bs, f'). fname f' = fname f \<and> fpos f' = fpos f + length bs
            \<and> length bs \<le> left \<and> bs = take (length bs) (drop (fpos f) c) \<and> (bs = [] \<longrightarrow> length c \<le> fpos f))"
      using assms(1) less.prems(1) False unfolding reads_ok_def by blast+
    from o show ?thesis
    proof (cases rule: outcome_cases)
      case (Err e)
      then show ?thesis using rd v1 False by (subst read_loop.simps) (simp add: sbind_def)
    next
      case (Ok x)
      then obtain bs f' where x: "x = (bs, f')" "fname f' = fname f" "fpos f' = fpos f + length bs" "length bs \<le> left"
          "bs = take (length bs) (drop (fpos f) c)" "bs = [] \<longrightarrow> length c \<le> fpos f" by auto
      have ne: "bs \<noteq> []" using x(6) less.prems(2) False by auto
      obtain r2 v2 where rest: "read_loop F (left - length bs) f' v1 = (r2, v2)" "vol v2 = vol v1"
          "outcome reliable r2 (\<lambda>rest. rest = drop (fpos f') c)"
        using less.IH [of "left - length bs" v1 f'] ne x less.prems v1 False by auto
      have "bs @ drop (fpos f') c = drop (fpos f) c"
        using x(3,5) by (metis append_take_drop_id drop_drop add.commute)
      then show ?thesis
        using False rd Ok x(1) ne rest v1
        by (subst read_loop.simps) (auto simp: sbind_def ret_def outcome_def split: result.splits)
    qed
  qed
qed

lemma read_open_spec:
  assumes l: "reads_ok F reliable vol nm fname fpos" and v: "vol v (fname f) = Some c" and len: "length c < 2 ^ 32"
  shows "\<exists>r v'. read_open F f v = (r, v') \<and> vol v' = vol v \<and> outcome reliable r (\<lambda>bs. bs = c)"
proof -
  obtain r1 v1 where s1: "file_seek F (SeekEnd 0) f v = (r1, v1)" by fastforce
  then have v1: "vol v1 = vol v" "length c < 2 ^ 32" "outcome reliable r1 (\<lambda>(p, f'). p = word_of_nat (length c) \<and> fname f' = fname f)"
    using l v len unfolding reads_ok_def by blast+
  from v1(3) show ?thesis
  proof (cases rule: outcome_cases)
    case (Err e)
    then show ?thesis using s1 v1 by (simp add: read_open_def sbind_def)
  next
    case (Ok x)
    then obtain f1 where x: "x = (word_of_nat (length c), f1)" "fname f1 = fname f" by auto
    obtain r2 v2 where s2: "file_seek F (SeekStart 0) f1 v1 = (r2, v2)" by fastforce
    have c1: "vol v1 (fname f1) = Some c" using v v1(1) x(2) by simp
    from s2 have v2: "vol v2 = vol v1" "outcome reliable r2 (\<lambda>(p, f'). fpos f' = 0 \<and> fname f' = fname f1)"
      using l c1 unfolding reads_ok_def by blast+
    from v2(2) show ?thesis
    proof (cases rule: outcome_cases)
      case (Err e)
      then show ?thesis using s1 s2 v1 v2 Ok x by (simp add: read_open_def sbind_def)
    next
      case y: (Ok y)
      then obtain p f2 where y2: "y = (p, f2)" "fpos f2 = 0" "fname f2 = fname f1" by auto
      have u: "unat (word_of_nat (length c) :: u64) = length c" using v1(2) by (simp add: unat_word_of_nat)
      obtain r3 v3 where "read_loop F (length c) f2 v2 = (r3, v3)" "vol v3 = vol v2" "outcome reliable r3 (\<lambda>bs. bs = c)"
        using read_loop_spec [OF l, of v2 f2 c "length c"] v v1(1) v2(1) x(2) y2 by auto
      then show ?thesis using s1 s2 v1 v2 Ok x y y2 u by (simp add: read_open_def sbind_def)
    qed
  qed
qed

lemma fat_read_spec:
  assumes l: "reads_ok F reliable vol nm fname fpos" and len: "\<And>c. vol v (nm name) = Some c \<Longrightarrow> length c < 2 ^ 32"
  shows "\<exists>r v'. fat_read_file F name (Some v) = (Ok r, Some v') \<and> vol v' = vol v
    \<and> (r = None \<or> r = vol v (nm name)) \<and> (reliable \<longrightarrow> r = vol v (nm name))"
proof -
  obtain r1 v1 where o: "open_file_in F (root_dir F) name v = (r1, v1)" by fastforce
  then have v1: "vol v1 = vol v" "if vol v (nm name) = None then r1 = Err () else outcome reliable r1 (\<lambda>f. fname f = nm name)"
    using l unfolding reads_ok_def by blast+
  show ?thesis
  proof (cases "vol v (nm name)")
    case None
    then show ?thesis using o v1 by (simp add: fat_read_file_def do_read_def with_fs_def optional_def sbind_def)
  next
    case (Some c)
    then have "outcome reliable r1 (\<lambda>f. fname f = nm name)" using v1(2) by simp
    then show ?thesis
    proof (cases rule: outcome_cases)
      case (Err e)
      then show ?thesis using o v1(1) by (simp add: fat_read_file_def do_read_def with_fs_def optional_def sbind_def)
    next
      case (Ok f)
      obtain r2 v2 where "read_open F f v1 = (r2, v2)" "vol v2 = vol v1" "outcome reliable r2 (\<lambda>bs. bs = c)"
        using read_open_spec [OF l, of v1 f c] len [OF Some] Some Ok(2) v1(1) by auto
      then show ?thesis using o v1(1) Ok Some
        by (cases r2) (auto simp: fat_read_file_def do_read_def with_fs_def optional_def sbind_def outcome_def)
    qed
  qed
qed

section \<open>Writing\<close>

lemma create_law:
  assumes "writes_ok F reliable vol nm fname fpos" and "create_file F (root_dir F) name v = (r, v')"
  shows "(\<forall>n. n \<noteq> nm name \<longrightarrow> vol v' n = vol v n) \<and> outcome reliable r (\<lambda>f. fname f = nm name \<and> fpos f = 0 \<and> (\<exists>c. vol v' (nm name) = Some c))"
  using assms(1) [unfolded writes_ok_def, THEN conjunct1, THEN spec, THEN spec, THEN spec, THEN spec, THEN mp, OF assms(2)]
  by (auto simp: outcome_def split: result.splits)

lemma truncate_law:
  assumes "writes_ok F reliable vol nm fname fpos" and "vol v (fname f) = Some c" and "fpos f = 0" and "file_truncate F f v = (r, v')"
  shows "(\<forall>n. n \<noteq> fname f \<longrightarrow> vol v' n = vol v n) \<and> outcome reliable r (\<lambda>f'. fname f' = fname f \<and> fpos f' = 0 \<and> vol v' (fname f) = Some [])"
  using assms(1) [unfolded writes_ok_def, THEN conjunct2, THEN conjunct1] assms(2-4) by blast

lemma write_loop_spec:
  assumes l: "writes_ok F reliable vol nm fname fpos" and "vol v (fname f) = Some c" and "fpos f = length c"
  shows "\<exists>r v'. write_loop F data f v = (r, v') \<and> (\<forall>n. n \<noteq> fname f \<longrightarrow> vol v' n = vol v n)
    \<and> outcome reliable r (\<lambda>f'. fname f' = fname f \<and> vol v' (fname f) = Some (c @ data))"
  using assms(2,3)
proof (induction data arbitrary: f v c rule: length_induct)
  case (1 data)
  show ?case
  proof (cases "data = []")
    case True
    then show ?thesis using "1.prems" by (simp add: write_loop.simps ret_def)
  next
    case False
    obtain r v1 where w: "file_write F data f v = (r, v1)" by fastforce
    then have v1: "\<forall>n. n \<noteq> fname f \<longrightarrow> vol v1 n = vol v n" and o: "outcome reliable r (\<lambda>(k, f'). fname f' = fname f \<and> fpos f' = fpos f + k \<and> k \<le> length data
            \<and> (reliable \<longrightarrow> 0 < k) \<and> vol v1 (fname f) = Some (take (fpos f) c @ take k data @ drop (fpos f + k) c))"
      using l "1.prems"(1) False unfolding writes_ok_def by blast+
    from o show ?thesis
    proof (cases rule: outcome_cases)
      case (Err e)
      then show ?thesis using w v1 False by (subst write_loop.simps) (simp add: sbind_def)
    next
      case (Ok x)
      then obtain k f' where x: "x = (k, f')" "fname f' = fname f" "fpos f' = fpos f + k" "k \<le> length data" "reliable \<longrightarrow> 0 < k"
          "vol v1 (fname f) = Some (c @ take k data)" using "1.prems"(2) by auto
      show ?thesis
      proof (cases "k = 0")
        case True
        then show ?thesis using w v1 False Ok x by (subst write_loop.simps) (simp add: sbind_def throw_def)
      next
        case False
        then have "length (drop k data) < length data" using \<open>data \<noteq> []\<close> by simp
        then obtain r2 v2 where "write_loop F (drop k data) f' v1 = (r2, v2)" "\<forall>n. n \<noteq> fname f' \<longrightarrow> vol v2 n = vol v1 n"
            "outcome reliable r2 (\<lambda>f''. fname f'' = fname f' \<and> vol v2 (fname f') = Some ((c @ take k data) @ drop k data))"
          using "1.IH" [rule_format, of "drop k data" v1 f' "c @ take k data"] x "1.prems"(2) by auto
        then show ?thesis using w v1 \<open>data \<noteq> []\<close> False Ok x by (subst write_loop.simps) (simp add: sbind_def)
      qed
    qed
  qed
qed

text \<open>The whole of \<open>do_write\<close>: a volume on which the writing of one file may have stopped anywhere.\<close>

lemma fat_write_spec:
  assumes l: "writes_ok F reliable vol nm fname fpos"
  shows "\<exists>ok v'. fat_write F name data (Some v) = (Ok ok, Some v') \<and> (\<forall>n. n \<noteq> nm name \<longrightarrow> vol v' n = vol v n)
    \<and> (ok \<longrightarrow> vol v' (nm name) = Some data) \<and> (reliable \<longrightarrow> ok)"
proof -
  let ?P = "\<lambda>(r :: (unit, 'c) result, v'). (\<forall>n. n \<noteq> nm name \<longrightarrow> vol v' n = vol v n) \<and> outcome reliable r (\<lambda>_. vol v' (nm name) = Some data)"
  let ?m = "sbind (create_file F (root_dir F) name) (\<lambda>f. sbind (file_truncate F f) (\<lambda>f. sbind (write_loop F data f) (file_flush F)))"
  obtain r1 v1 where c: "create_file F (root_dir F) name v = (r1, v1)" by fastforce
  note v1 = conjunct1 [OF create_law [OF l c]] and o1 = conjunct2 [OF create_law [OF l c]]
  have "?P (?m v)"
  proof (rule sbind_outcome [where m = "create_file F (root_dir F) name" and s = v, OF c o1])
    fix f assume f: "fname f = nm name \<and> fpos f = 0 \<and> (\<exists>c. vol v1 (nm name) = Some c)"
    obtain r2 v2 where t: "file_truncate F f v1 = (r2, v2)" by fastforce
    obtain c where c1: "vol v1 (fname f) = Some c" "fpos f = 0" using f by auto
    note truncate_law [OF l c1 t]
    then have v2: "\<forall>n. n \<noteq> nm name \<longrightarrow> vol v2 n = vol v1 n"
        "outcome reliable r2 (\<lambda>f'. fname f' = nm name \<and> fpos f' = 0 \<and> vol v2 (nm name) = Some [])"
      using f by auto
    show "?P (sbind (file_truncate F f) (\<lambda>f. sbind (write_loop F data f) (file_flush F)) v1)"
    proof (rule sbind_outcome [where m = "file_truncate F f" and s = v1, OF t v2(2)])
      fix g assume g: "fname g = nm name \<and> fpos g = 0 \<and> vol v2 (nm name) = Some []"
      obtain r3 v3 where w: "write_loop F data g v2 = (r3, v3)" "\<forall>n. n \<noteq> nm name \<longrightarrow> vol v3 n = vol v2 n"
          "outcome reliable r3 (\<lambda>f'. fname f' = nm name \<and> vol v3 (nm name) = Some data)"
        using write_loop_spec [OF l, of v2 g "[]" data] g by auto
      show "?P (sbind (write_loop F data g) (file_flush F) v2)"
      proof (rule sbind_outcome [where m = "write_loop F data g" and s = v2, OF w(1,3)])
        fix h assume h: "fname h = nm name \<and> vol v3 (nm name) = Some data"
        obtain r4 v4 where fl: "file_flush F h v3 = (r4, v4)" by fastforce
        then have "vol v4 = vol v3" "outcome reliable r4 (\<lambda>_. True)" using l unfolding writes_ok_def by blast+
        then show "?P (file_flush F h v3)" using fl h v1 v2(1) w(2) by (auto simp: outcome_def split: result.splits)
      qed (use v1 v2(1) w(2) in auto)
    qed (use v1 v2(1) in auto)
  qed (use v1 in auto)
  then obtain r v' where "?m v = (r, v')" "\<forall>n. n \<noteq> nm name \<longrightarrow> vol v' n = vol v n" "outcome reliable r (\<lambda>_. vol v' (nm name) = Some data)"
    by (cases "?m v") auto
  then show ?thesis
    by (cases r) (auto simp: fat_write_def do_write_def with_fs_def is_ok_def optional_def sbind_def ret_def outcome_def)
qed

text \<open>
  C38: The volume functions are exact in spite of short reads and writes. Whatever pieces the crate reads and writes,
  \<open>fat_write\<close> that reports success has stored exactly the data, and \<open>fat_read_file\<close> then returns it or fails; no
  other file changes, even when the write fails half way; on a volume without faults both succeed.
\<close>

theorem fat_write_then_read:
  assumes "reads_ok F reliable vol nm fname fpos" and "writes_ok F reliable vol nm fname fpos" and "length data < 2 ^ 32"
  shows "\<exists>ok v'. fat_write F name data (Some v) = (Ok ok, Some v') \<and> (\<forall>n. n \<noteq> nm name \<longrightarrow> vol v' n = vol v n) \<and> (reliable \<longrightarrow> ok)
    \<and> (ok \<longrightarrow> (\<exists>r v''. fat_read_file F name (Some v') = (Ok r, Some v'') \<and> vol v'' = vol v'
        \<and> (r = Some data \<or> r = None) \<and> (reliable \<longrightarrow> r = Some data)))"
proof -
  obtain ok v' where w: "fat_write F name data (Some v) = (Ok ok, Some v')" "\<forall>n. n \<noteq> nm name \<longrightarrow> vol v' n = vol v n"
      "ok \<longrightarrow> vol v' (nm name) = Some data" "reliable \<longrightarrow> ok"
    using fat_write_spec [OF assms(2), of name data v] by blast
  have "\<exists>r v''. fat_read_file F name (Some v') = (Ok r, Some v'') \<and> vol v'' = vol v'
      \<and> (r = Some data \<or> r = None) \<and> (reliable \<longrightarrow> r = Some data)" if ok
    using fat_read_spec [OF assms(1), of v' name] w(3) assms(3) that by auto
  with w show ?thesis by blast
qed

section \<open>Loading at boot and saving\<close>

text \<open>The directory iterator shows every file of the root directory once.\<close>

definition lists_ok :: "('v, 'h, 'f) fatfs \<Rightarrow> bool \<Rightarrow> ('v \<Rightarrow> bytes \<Rightarrow> bytes option) \<Rightarrow> (bytes \<Rightarrow> bytes) \<Rightarrow> bool" where
  "lists_ok F reliable vol nm \<longleftrightarrow> (\<forall>v r v'. dir_iter F (root_dir F) v = (r, v') \<longrightarrow> vol v' = vol v
     \<and> outcome reliable r (\<lambda>es. let ns = map (\<lambda>e. nm (d_name e)) (filter d_is_file (somes es)) in
         distinct ns \<and> set ns = dom (vol v)))"

definition names_of :: "('v, 'h, 'f) fatfs \<Rightarrow> 'v \<Rightarrow> bytes list" where
  "names_of F v = (case do_list F v of (Ok es, _) \<Rightarrow> map fst es | _ \<Rightarrow> [])"

definition root_content :: "('v \<Rightarrow> bytes \<Rightarrow> bytes option) \<Rightarrow> (bytes \<Rightarrow> bytes) \<Rightarrow> 'v \<Rightarrow> bytes list \<Rightarrow> (bytes \<times> bytes) list" where
  "root_content vol nm v ns = map (\<lambda>n. (n, case vol v (nm n) of Some c \<Rightarrow> c | None \<Rightarrow> [])) ns"

definition space_for :: "(bytes \<times> bytes) list \<Rightarrow> nat" where
  "space_for fs = sum_list (map (\<lambda>(n, d). length d + 7) fs)"

lemma load_file_spec:
  assumes "reads_ok F True vol nm fname fpos" and "nm n \<in> dom (vol v)" and "n \<noteq> []" and "utf8_valid n"
    and "file_buf_next t + space_for (root_content vol nm v [n]) \<le> FILE_BUF_SIZE"
  shows "\<exists>v' b. load_file F n (Some v, t) = (Ok (), Some v', (register_all (nonempty_files (root_content vol nm v [n])) t)\<lparr>file_buf_next := b\<rparr>)
    \<and> vol v' = vol v \<and> b \<le> file_buf_next t + space_for (root_content vol nm v [n])"
proof -
  obtain c where c: "vol v (nm n) = Some c" using assms(2) by blast
  obtain v' where r: "fat_read_file F n (Some v) = (Ok (Some c), Some v')" "vol v' = vol v"
    using fat_read_spec [OF assms(1), of v n] c assms(5) by (auto simp: root_content_def space_for_def FILE_BUF_SIZE_def)
  show ?thesis
  proof (cases "c = []")
    case True
    then show ?thesis
      using assms(3,4) r c
      by (auto simp: load_file_def from_utf8_def alloc_disk_slot_def root_content_def nonempty_files_def register_all_def
          intro!: exI [of _ "file_buf_next t"])
  next
    case False
    then obtain p b where "alloc_disk_slot (length c) t = (Some p, t\<lparr>file_buf_next := b\<rparr>)" "b \<le> file_buf_next t + length c + 7"
      using alloc_room [of "length c" t] assms(5) c by (auto simp: root_content_def space_for_def)
    then show ?thesis
      using assms(3,4) r c False
      by (auto simp: load_file_def from_utf8_def root_content_def nonempty_files_def register_all_def space_for_def register_file_buf)
  qed
qed

lemma load_files_spec:
  assumes l: "reads_ok F True vol nm fname fpos"
    and "nm ` set ns \<subseteq> dom (vol v)" and "list_all (\<lambda>n. n \<noteq> [] \<and> utf8_valid n \<and> length n \<le> 64) ns"
    and "file_buf_next t + space_for (root_content vol nm v ns) \<le> FILE_BUF_SIZE"
  shows "\<exists>v' b. load_files F (map (take 64) ns) (Some v, t)
      = (Ok (), Some v', (register_all (nonempty_files (root_content vol nm v ns)) t)\<lparr>file_buf_next := b\<rparr>) \<and> vol v' = vol v"
  using assms(2-4)
proof (induction ns arbitrary: v t)
  case Nil
  then show ?case
    by (auto simp: root_content_def nonempty_files_def register_all_def ret_def intro!: exI [of _ "file_buf_next t"])
next
  case (Cons n ns)
  let ?r = "nonempty_files (root_content vol nm v [n])"
  have split: "root_content vol nm v (n # ns) = root_content vol nm v [n] @ root_content vol nm v ns" by (simp add: root_content_def)
  have sp: "space_for (root_content vol nm v (n # ns)) = space_for (root_content vol nm v [n]) + space_for (root_content vol nm v ns)"
    by (simp add: split space_for_def)
  have room: "file_buf_next t + space_for (root_content vol nm v [n]) \<le> FILE_BUF_SIZE" using Cons.prems(3) sp by linarith
  have n: "nm n \<in> dom (vol v)" "n \<noteq> []" "utf8_valid n" "take 64 n = n" using Cons.prems(1,2) by auto
  obtain v1 b where l1: "load_file F n (Some v, t) = (Ok (), Some v1, (register_all ?r t)\<lparr>file_buf_next := b\<rparr>)" "vol v1 = vol v"
      "b \<le> file_buf_next t + space_for (root_content vol nm v [n])"
    using load_file_spec [OF l n(1-3) room] by blast
  have c1: "root_content vol nm v1 ns = root_content vol nm v ns" using l1(2) by (simp add: root_content_def)
  have "file_buf_next ((register_all ?r t)\<lparr>file_buf_next := b\<rparr>) + space_for (root_content vol nm v1 ns) \<le> FILE_BUF_SIZE"
    using l1(3) Cons.prems(3) sp c1 by simp
  then obtain v2 b2 where "load_files F (map (take 64) ns) (Some v1, (register_all ?r t)\<lparr>file_buf_next := b\<rparr>)
      = (Ok (), Some v2, (register_all (nonempty_files (root_content vol nm v1 ns)) ((register_all ?r t)\<lparr>file_buf_next := b\<rparr>))\<lparr>file_buf_next := b2\<rparr>)"
      "vol v2 = vol v1"
    using Cons.IH [of v1 "(register_all ?r t)\<lparr>file_buf_next := b\<rparr>"] Cons.prems(1,2) l1(2) by auto
  then show ?case
    using l1(1,2) n(4) by (auto simp: sthen_def sbind_def split c1 nonempty_files_def register_all_append register_all_buf)
qed


text \<open>Saving: the entries of the table are written in order; later entries cannot disturb earlier ones of another name.\<close>

lemma save_files_spec:
  assumes l: "writes_ok F True vol nm fname fpos"
    and "distinct (map (\<lambda>f. nm (name_str f)) (somes es))"
  shows "\<exists>v'. save_files F es k (Some v) = (Ok (k + length (somes es)), Some v')
    \<and> (\<forall>f \<in> set (somes es). vol v' (nm (name_str f)) = Some (f_data f))
    \<and> (\<forall>n. n \<notin> (\<lambda>f. nm (name_str f)) ` set (somes es) \<longrightarrow> vol v' n = vol v n)"
  using assms(2)
proof (induction es arbitrary: k v)
  case Nil
  then show ?case by (simp add: ret_def)
next
  case (Cons e es)
  show ?case
  proof (cases e)
    case None
    then show ?thesis using Cons by simp
  next
    case (Some f)
    obtain v1 where w: "fat_write F (name_str f) (f_data f) (Some v) = (Ok True, Some v1)" "vol v1 (nm (name_str f)) = Some (f_data f)"
        "\<forall>n. n \<noteq> nm (name_str f) \<longrightarrow> vol v1 n = vol v n"
      using fat_write_spec [OF l, of "name_str f" "f_data f" v] by auto
    obtain v2 where r: "save_files F es (k + 1) (Some v1) = (Ok (k + 1 + length (somes es)), Some v2)"
        "\<forall>f \<in> set (somes es). vol v2 (nm (name_str f)) = Some (f_data f)"
        "\<forall>n. n \<notin> (\<lambda>f. nm (name_str f)) ` set (somes es) \<longrightarrow> vol v2 n = vol v1 n"
      using Cons.IH [of "k + 1" v1] Cons.prems Some by (auto simp:)
    have "nm (name_str f) \<notin> (\<lambda>f. nm (name_str f)) ` set (somes es)"
      using Cons.prems Some by simp
    then have "vol v2 (nm (name_str f)) = Some (f_data f)" using r(3) w(2) by simp
    then show ?thesis using w r Some by (auto simp: sbind_def)
  qed
qed

text \<open>
  \<open>save\<close> stores the whole file table. On a volume without faults, a table without duplicate names whose names
  differ as FAT names is written completely: the count is the number of files, and every file that is found in
  the table is in the root directory afterwards.
\<close>

theorem save_stores_table:
  assumes "writes_ok F True vol nm fname fpos" and "fs_ok t"
    and "inj_on nm {name_str f | f i. i < file_count t \<and> file_table t i = Some f}"
  shows "\<exists>v'. save_to_fat F t (Some v) = (Ok (length (somes (map (file_table t) [0..<file_count t]))), Some v')
    \<and> (\<forall>n d. find_file n t = Some d \<longrightarrow> vol v' (nm n) = Some d)"
proof -
  let ?es = "map (file_table t) [0..<file_count t]"
  have set: "set (somes (map (file_table t) [0..<file_count t])) = {f. \<exists>i < file_count t. file_table t i = Some f}"
    by (auto simp: set_somes image_iff) (metis atLeastLessThan_iff le0)
  have inj: "name_str f = name_str g" if "nm (name_str f) = nm (name_str g)" "i < file_count t" "j < file_count t"
      "file_table t i = Some f" "file_table t j = Some g" for f g i j
    using assms(3) that by (auto simp: inj_on_def)
  have uniq: "i = j" if "nm (name_str f) = nm (name_str g)" "i < file_count t" "j < file_count t"
      "file_table t i = Some f" "file_table t j = Some g" for f g i j
    using assms(2) inj [OF that] that unfolding fs_ok_def by blast
  have "distinct (map (\<lambda>f. nm (name_str f)) (somes (map (file_table t) xs)))" if "distinct xs" "set xs \<subseteq> {..<file_count t}" for xs
    using that
  proof (induction xs)
    case (Cons i xs)
    show ?case
    proof (cases "file_table t i")
      case None
      then show ?thesis using Cons by simp
    next
      case (Some f)
      have "nm (name_str f) \<notin> (\<lambda>f. nm (name_str f)) ` set (somes (map (file_table t) xs))"
      proof
        assume "nm (name_str f) \<in> (\<lambda>f. nm (name_str f)) ` set (somes (map (file_table t) xs))"
        then obtain j g where "j \<in> set xs" "file_table t j = Some g" "nm (name_str f) = nm (name_str g)"
          by (auto simp: set_somes) metis
        then show False using uniq [of f g i j] Some Cons.prems by auto
      qed
      then show ?thesis using Cons Some by simp
    qed
  qed simp
  then have "distinct (map (\<lambda>f. nm (name_str f)) (somes ?es))" by (simp add: lessThan_atLeast0)
  from save_files_spec [OF assms(1) this, of 0 v]
  obtain v' where v': "save_to_fat F t (Some v) = (Ok (length (somes (map (file_table t) [0..<file_count t]))), Some v')"
      "\<forall>f \<in> set (somes (map (file_table t) [0..<file_count t])). vol v' (nm (name_str f)) = Some (f_data f)"
    by (auto simp: save_to_fat_def)
  have "vol v' (nm n) = Some d" if found: "find_file n t = Some d" for n d
  proof -
    obtain i where i: "find_loop (file_table t) n (file_count t) 0 = Some i" "map_option f_data (file_table t i) = Some d"
      using found by (auto simp: find_file_def find_index_def split: option.splits)
    then obtain f where "i < file_count t" "file_table t i = Some f" "name_str f = n" "f_data f = d"
      using find_loop_Some [OF i(1)] by auto
    then show ?thesis using v'(2) set by auto
  qed
  then show ?thesis using v'(1) by blast
qed

section \<open>A volume in memory\<close>

text \<open>
  A concrete crate for the examples: the root directory is an association list, a read delivers at most three
  bytes at a time and a write takes at most two. There are no subdirectories.
\<close>

definition mem_put :: "bytes \<Rightarrow> bytes \<Rightarrow> (bytes \<times> bytes) list \<Rightarrow> (bytes \<times> bytes) list" where
  "mem_put n c v = (if map_of v n = None then v @ [(n, c)] else map (\<lambda>(m, d). (m, if m = n then c else d)) v)"

definition mem_get :: "(bytes \<times> bytes) list \<Rightarrow> bytes \<Rightarrow> bytes" where
  "mem_get v n = (case map_of v n of Some c \<Rightarrow> c | None \<Rightarrow> [])"

definition mem_fat :: "((bytes \<times> bytes) list, unit, bytes \<times> nat) fatfs" where
  "mem_fat = \<lparr>root_dir = (),
     open_dir = \<lambda>_ _. throw (),
     open_file_in = \<lambda>_ n v. (if map_of v n = None then Err () else Ok (n, 0), v),
     create_file = \<lambda>_ n v. (Ok (n, 0), if map_of v n = None then mem_put n [] v else v),
     create_dir = \<lambda>_ _. throw (),
     remove_in = \<lambda>_ n v. (if map_of v n = None then Err () else Ok (), filter (\<lambda>(m, _). m \<noteq> n) v),
     dir_iter = \<lambda>_ v. (Ok (map (\<lambda>n. Some \<lparr>d_name = n, d_len = word_of_nat (length (mem_get v n)), d_is_dir = False, d_is_file = True\<rparr>)
       (remdups (map fst v))), v),
     file_seek = \<lambda>to (n, p) v. (case to of
         SeekEnd _ \<Rightarrow> Ok (word_of_nat (length (mem_get v n)), n, length (mem_get v n))
       | _ \<Rightarrow> Ok (0, n, 0), v),
     file_read = \<lambda>k (n, p) v. (let bs = take (min 3 k) (drop p (mem_get v n)) in Ok (bs, n, p + length bs), v),
     file_write = \<lambda>data (n, p) v. (let k = min 2 (length data) in (Ok (k, n, p + k),
       mem_put n (take p (mem_get v n) @ take k data @ drop (p + k) (mem_get v n)) v)),
     file_truncate = \<lambda>(n, p) v. (Ok (n, p), mem_put n (take p (mem_get v n)) v),
     file_flush = \<lambda>f v. (Ok f, v),
     fs_stats = ret (512, 1, 1),
     fs_mount = \<lambda>_. Ok []\<rparr>"

lemma map_of_mem_put: "map_of (mem_put n c v) m = (if m = n then Some c else map_of v m)"
proof -
  have "map_of (map (\<lambda>(m, d). (m, if m = n then c else d)) v) m
      = (if m = n then map_option (\<lambda>_. c) (map_of v m) else map_of v m)"
    by (induction v) auto
  then show ?thesis by (auto simp: mem_put_def map_add_def split: option.split)
qed

lemma mem_writes_ok: "writes_ok mem_fat True map_of id fst snd"
  unfolding writes_ok_def mem_fat_def 
  by (auto simp: map_of_mem_put mem_get_def Let_def split: option.splits if_splits)

lemma mem_lists_ok: "lists_ok mem_fat True map_of id"
proof -
  have s: "somes (map (\<lambda>n. Some (g n)) ns) = map g ns" for g :: "bytes \<Rightarrow> dirent" and ns by (induction ns) auto
  show ?thesis
    unfolding lists_ok_def mem_fat_def 
    by (force simp: s comp_def Let_def filter_map dom_map_of_conv_image_fst)
qed

lemma mem_reads_ok: "reads_ok mem_fat True map_of id fst snd"
  unfolding reads_ok_def mem_fat_def
  by (auto simp: mem_get_def Let_def min_def split: option.splits)

theorem fat_write_then_read_witness:
  "\<exists>v' v''. fat_write mem_fat (str_bytes ''a.txt'') (str_bytes ''hello'') (Some []) = (Ok True, Some v')
    \<and> fat_read_file mem_fat (str_bytes ''a.txt'') (Some v') = (Ok (Some (str_bytes ''hello'')), Some v'')"
proof -
  have "length (str_bytes ''hello'') < 2 ^ 32" by (simp add: str_bytes_def)
  from fat_write_then_read [OF mem_reads_ok mem_writes_ok this, of "str_bytes ''a.txt''" "[]"] show ?thesis by auto
qed

definition demo_volume :: "(bytes \<times> bytes) list" where
  "demo_volume = [(str_bytes ''a.wasm'', str_bytes ''hello''), (str_bytes ''empty'', [])]"

definition no_files :: fs where
  "no_files = \<lparr>file_table = \<lambda>_. None, file_count = 0, write_pool_next = 0, file_buf_next = 0\<rparr>"


theorem save_stores_table_witness:
  "\<exists>v'. save_to_fat mem_fat (register_file (str_bytes ''b'') [1, 2, 3] no_files) (Some demo_volume) = (Ok 1, Some v')
    \<and> map_of v' (str_bytes ''b'') = Some [1, 2, 3]"
proof -
  let ?t = "register_file (str_bytes ''b'') [1, 2, 3] no_files"
  have t: "?t = no_files\<lparr>file_table := (\<lambda>_. None)(0 := Some \<lparr>f_name = str_bytes ''b'', f_data = [1, 2, 3]\<rparr>), file_count := 1\<rparr>"
    by (simp add: register_file_def no_files_def MAX_FILES_def str_bytes_def)
  have "name_str \<lparr>f_name = str_bytes ''b'', f_data = [1, 2, 3]\<rparr> = str_bytes ''b''" by code_simp
  then have f: "find_file (str_bytes ''b'') ?t = Some [1, 2, 3]" by (simp add: t find_file_def find_index_def numeral_eq_Suc)
  have "fs_ok ?t" unfolding t by (auto simp: fs_ok_def no_files_def fs_limits split: if_splits)
  then show ?thesis
    using save_stores_table [OF mem_writes_ok, of ?t demo_volume] f by (force simp: t)
qed

section \<open>Split paths\<close>

text \<open>A file in a directory is split into the two, with or without a leading slash.\<close>

lemma split_path_join:
  assumes "dir \<noteq> []" "hd dir \<noteq> 0x2F" "0x2F \<notin> set file"
  shows "split_path (dir @ 0x2F # file) = (dir, file)" "split_path (0x2F # dir @ 0x2F # file) = (dir, file)"
proof -
  have "trim_start_matches 0x2F (dir @ 0x2F # file) = dir @ 0x2F # file"
    "trim_start_matches 0x2F (0x2F # dir @ 0x2F # file) = dir @ 0x2F # file"
    using assms(1,2) by (cases dir; simp add: trim_start_matches_def)+
  then show "split_path (dir @ 0x2F # file) = (dir, file)" "split_path (0x2F # dir @ 0x2F # file) = (dir, file)"
    using rfind_split [OF assms(3), of dir] by (simp_all add: split_path_def)
qed

end
