(* ===== verification/Line_Editor.thy ===== *)
theory Line_Editor
  imports Keyboard Rust_Strings
begin

text \<open>
  The command line editor of the shell (\<open>kernel/src/shell/command_line_editor.rs\<close>): a buffer with a cursor, a
  history, and completion of command names. Positions are byte indices into a UTF-8 string, so an index can
  fall inside a character and make \<open>String::insert\<close> or \<open>String::remove\<close> panic. For ASCII text the editor is shown to
  implement a pair of the text before and the text after the cursor.
\<close>

section \<open>State\<close>

record editor =
  buffer :: bytes
  cursor_pos :: nat
  history :: "bytes list"
  history_index :: nat
  needs_render :: bool

definition editor_new :: editor where
  "editor_new = \<lparr>buffer = [], cursor_pos = 0, history = [], history_index = 0, needs_render = True\<rparr>"

definition PROMPT :: bytes where "PROMPT = str_bytes ''> ''"

section \<open>Editing\<close>

definition insert_char :: "u32 \<Rightarrow> editor \<Rightarrow> (unit, editor) result" where
  "insert_char c e =
     rbind (if cursor_pos e < length (buffer e) then str_insert (buffer e) (cursor_pos e) c
            else Ok (buffer e @ encode_utf8 c)) (\<lambda>b.
     Ok (e\<lparr>buffer := b, cursor_pos := cursor_pos e + 1, needs_render := True\<rparr>))"

definition move_left :: "editor \<Rightarrow> editor" where
  "move_left e = (if cursor_pos e > 0 then e\<lparr>cursor_pos := cursor_pos e - 1, needs_render := True\<rparr> else e)"

definition move_right :: "editor \<Rightarrow> editor" where
  "move_right e =
     (if cursor_pos e < length (buffer e) then e\<lparr>cursor_pos := cursor_pos e + 1, needs_render := True\<rparr> else e)"

definition delete_left :: "editor \<Rightarrow> (unit, editor) result" where
  "delete_left e =
     (if cursor_pos e > 0 then
        rbind (str_remove (buffer e) (cursor_pos e - 1)) (\<lambda>b.
        Ok (e\<lparr>buffer := b, cursor_pos := cursor_pos e - 1, needs_render := True\<rparr>))
      else Ok e)"

definition delete_right :: "editor \<Rightarrow> (unit, editor) result" where
  "delete_right e =
     (if cursor_pos e < length (buffer e) then
        rbind (str_remove (buffer e) (cursor_pos e)) (\<lambda>b. Ok (e\<lparr>buffer := b, needs_render := True\<rparr>))
      else Ok e)"

definition move_home :: "editor \<Rightarrow> editor" where
  "move_home e = (if cursor_pos e \<noteq> 0 then e\<lparr>cursor_pos := 0, needs_render := True\<rparr> else e)"

definition move_end :: "editor \<Rightarrow> editor" where
  "move_end e =
     (if cursor_pos e \<noteq> length (buffer e) then e\<lparr>cursor_pos := length (buffer e), needs_render := True\<rparr> else e)"

definition navigate_history_up :: "editor \<Rightarrow> (unit, editor) result" where
  "navigate_history_up e =
     (if history e \<noteq> [] \<and> history_index e > 0 then
        rbind (index (history e) (history_index e - 1)) (\<lambda>b.
        Ok (e\<lparr>history_index := history_index e - 1, buffer := b, cursor_pos := length b, needs_render := True\<rparr>))
      else Ok e)"

definition navigate_history_down :: "editor \<Rightarrow> (unit, editor) result" where
  "navigate_history_down e =
     (if history_index e < length (history e) then
        let i = history_index e + 1 in
        rbind (if i < length (history e) then index (history e) i else Ok []) (\<lambda>b.
        Ok (e\<lparr>history_index := i, buffer := b, cursor_pos := length b, needs_render := True\<rparr>))
      else Ok e)"

text \<open>The redrawn prompt line, and \<open>render\<close> with the text it prints.\<close>

definition prompt_line :: "editor \<Rightarrow> bytes" where
  "prompt_line e =
     [0x0D, 0x1B] @ str_bytes ''[0K'' @ PROMPT @ buffer e @ [0x1B, 0x5B]
       @ dec_str (length PROMPT + cursor_pos e + 1) @ str_bytes ''G''"

definition request_render :: "editor \<Rightarrow> editor" where
  "request_render e = e\<lparr>needs_render := True\<rparr>"

definition ed_render :: "editor \<Rightarrow> bytes \<times> editor" where
  "ed_render e = (if \<not> needs_render e then ([], e) else (prompt_line e, e\<lparr>needs_render := False\<rparr>))"

text \<open>\<open>auto_complete\<close> over the command names, with the text it prints.\<close>

definition auto_complete :: "bytes list \<Rightarrow> editor \<Rightarrow> bytes \<times> editor" where
  "auto_complete names e =
     (let matches = filter (\<lambda>command. starts_with command (buffer e)) names in
      case matches of
        [] \<Rightarrow> ([], e)
      | [completion] \<Rightarrow>
          ed_render (e\<lparr>buffer := completion, cursor_pos := length completion, needs_render := True\<rparr>)
      | _ \<Rightarrow>
          (let (out, e) = ed_render (e\<lparr>needs_render := True\<rparr>) in
           ([0x0A] @ concat (map (\<lambda>m. m @ [0x20]) matches) @ [0x0A] @ out, e)))"

definition silent :: "(unit, editor) result \<Rightarrow> (unit, bytes \<times> editor) result" where
  "silent r = rbind r (\<lambda>e. Ok ([], e))"

definition handle_key :: "bytes list \<Rightarrow> key \<Rightarrow> editor \<Rightarrow> (unit, bytes \<times> editor) result" where
  "handle_key names k e =
     (case k of
        KeyChar c \<Rightarrow> silent (insert_char c e)
      | ArrowLeft \<Rightarrow> silent (Ok (move_left e))
      | ArrowRight \<Rightarrow> silent (Ok (move_right e))
      | Backspace \<Rightarrow> silent (delete_left e)
      | Delete \<Rightarrow> silent (delete_right e)
      | Home \<Rightarrow> silent (Ok (move_home e))
      | End \<Rightarrow> silent (Ok (move_end e))
      | ArrowUp \<Rightarrow> silent (navigate_history_up e)
      | ArrowDown \<Rightarrow> silent (navigate_history_down e)
      | Tab \<Rightarrow> Ok (auto_complete names e)
      | Enter \<Rightarrow> Ok ([], e)
      | Unknown \<Rightarrow> Ok ([], e))"

text \<open>
  The body of \<open>get_input\<close> for the key it has read, and \<open>get_input\<close>: printed text, completed command, new state.
\<close>

definition take_key :: "bytes list \<Rightarrow> key \<Rightarrow> editor \<Rightarrow> (unit, bytes \<times> bytes option \<times> editor) result" where
  "take_key names k e =
     (case k of
        Enter \<Rightarrow>
          (if buffer e \<noteq> [] then
             Ok ([], Some (buffer e), e\<lparr>history := history e @ [buffer e], history_index := length (history e) + 1,
               buffer := [], cursor_pos := 0, needs_render := True\<rparr>)
           else Ok ([], None, e))
      | _ \<Rightarrow> rbind (handle_key names k e) (\<lambda>(out, e). Ok (out, None, e)))"

definition get_input :: "bytes list \<Rightarrow> input \<times> editor \<Rightarrow> (unit, bytes \<times> bytes option \<times> input \<times> editor) result" where
  "get_input names = (\<lambda>(i, e).
     case poll_key i of
       (None, i) \<Rightarrow> Ok ([], None, i, e)
     | (Some k, i) \<Rightarrow> rbind (take_key names k e) (\<lambda>(out, cmd, e). Ok (out, cmd, i, e)))"

text \<open>\<open>fmt::Write\<close> for the editor: \<open>write_str\<close> types the characters.\<close>

primrec ed_write_str :: "u32 list \<Rightarrow> editor \<Rightarrow> (unit, editor) result" where
  "ed_write_str [] e = Ok e"
| "ed_write_str (c # cs) e = rbind (insert_char c e) (ed_write_str cs)"

section \<open>The editor as a text with a gap\<close>

text \<open>The specification: the text before the cursor, the text after it, the history and a position in it.\<close>

record gap =
  before :: bytes
  after :: bytes
  past :: "bytes list"
  at_past :: nat

definition recall :: "nat \<Rightarrow> gap \<Rightarrow> gap" where
  "recall i g = g\<lparr>at_past := i, before := (if i < length (past g) then past g ! i else []), after := []\<rparr>"

definition completed :: "bytes list \<Rightarrow> gap \<Rightarrow> gap" where
  "completed names g =
     (case filter (\<lambda>n. take (length (before g @ after g)) n = before g @ after g) names of [n] \<Rightarrow> g\<lparr>before := n, after := []\<rparr> | _ \<Rightarrow> g)"

definition gap_key :: "bytes list \<Rightarrow> key \<Rightarrow> gap \<Rightarrow> gap" where
  "gap_key names k g =
     (case k of
        KeyChar c \<Rightarrow> g\<lparr>before := before g @ [ucast c]\<rparr>
      | ArrowLeft \<Rightarrow> if before g = [] then g else g\<lparr>before := butlast (before g), after := last (before g) # after g\<rparr>
      | ArrowRight \<Rightarrow> if after g = [] then g else g\<lparr>before := before g @ [hd (after g)], after := tl (after g)\<rparr>
      | Backspace \<Rightarrow> g\<lparr>before := butlast (before g)\<rparr>
      | Delete \<Rightarrow> g\<lparr>after := tl (after g)\<rparr>
      | Home \<Rightarrow> g\<lparr>before := [], after := before g @ after g\<rparr>
      | End \<Rightarrow> g\<lparr>before := before g @ after g, after := []\<rparr>
      | ArrowUp \<Rightarrow> if at_past g > 0 then recall (at_past g - 1) g else g
      | ArrowDown \<Rightarrow> if at_past g < length (past g) then recall (at_past g + 1) g else g
      | Tab \<Rightarrow> completed names g
      | Enter \<Rightarrow> if before g @ after g = [] then g
          else g\<lparr>before := [], after := [], past := past g @ [before g @ after g], at_past := length (past g) + 1\<rparr>
      | Unknown \<Rightarrow> g)"

definition gap_command :: "key \<Rightarrow> gap \<Rightarrow> bytes option" where
  "gap_command k g = (if k = Enter \<and> before g @ after g \<noteq> [] then Some (before g @ after g) else None)"

definition as_gap :: "editor \<Rightarrow> gap" where
  "as_gap e = \<lparr>before = take (cursor_pos e) (buffer e), after = drop (cursor_pos e) (buffer e),
     past = history e, at_past = history_index e\<rparr>"

text \<open>The invariant: ASCII text, the cursor in it, and a position of the history.\<close>

definition ed_ok :: "editor \<Rightarrow> bool" where
  "ed_ok e \<longleftrightarrow> ascii (buffer e) \<and> cursor_pos e \<le> length (buffer e) \<and> list_all ascii (history e)
     \<and> history_index e \<le> length (history e)"

definition ascii_key :: "key \<Rightarrow> bool" where
  "ascii_key k = (case k of KeyChar c \<Rightarrow> c < 0x80 | _ \<Rightarrow> True)"

lemma ed_ok_new: "ed_ok editor_new"
  by (simp add: ed_ok_def editor_new_def)

lemma ed_render_view [simp]:
  "buffer (snd (ed_render e)) = buffer e" "cursor_pos (snd (ed_render e)) = cursor_pos e"
  "history (snd (ed_render e)) = history e" "history_index (snd (ed_render e)) = history_index e"
  by (simp_all add: ed_render_def)

lemma list_all_nth: "list_all P xs \<Longrightarrow> i < length xs \<Longrightarrow> P (xs ! i)"
  by (simp add: list_all_length)

lemma butlast_take_Suc: "0 < n \<Longrightarrow> n \<le> length xs \<Longrightarrow> butlast (take n xs) = take (n - 1) xs"
  by (simp add: butlast_take)

lemma last_take_drop: "0 < n \<Longrightarrow> n \<le> length xs \<Longrightarrow> last (take n xs) # drop n xs = drop (n - 1) xs"
  by (cases n) (simp_all add: take_Suc_conv_app_nth Cons_nth_drop_Suc)

lemma tl_drop_Suc: "tl (drop n xs) = drop (Suc n) xs"
  by (simp add: drop_Suc tl_drop)

lemma take_hd_snoc: "n < length xs \<Longrightarrow> take n xs @ [hd (drop n xs)] = take (Suc n) xs"
  by (simp add: take_hd_drop)

text \<open>One lemma per group of keys: it keeps the invariant and acts on the gap as specified.\<close>

lemma insert_char_gap:
  assumes "ed_ok e" "c < 0x80"
  shows "\<exists>e'. insert_char c e = Ok e' \<and> ed_ok e' \<and> as_gap e' = gap_key names (KeyChar c) (as_gap e)"
  using assms ucast_ascii [of c]
  by (auto simp: insert_char_def ascii_insert encode_utf8_def ed_ok_def as_gap_def gap_key_def)

lemma move_gap:
  assumes "ed_ok e"
  shows "ed_ok (move_left e) \<and> as_gap (move_left e) = gap_key names ArrowLeft (as_gap e)"
    "ed_ok (move_right e) \<and> as_gap (move_right e) = gap_key names ArrowRight (as_gap e)"
    "ed_ok (move_home e) \<and> as_gap (move_home e) = gap_key names Home (as_gap e)"
    "ed_ok (move_end e) \<and> as_gap (move_end e) = gap_key names End (as_gap e)"
  using assms
  by (auto simp: move_left_def move_right_def move_home_def move_end_def ed_ok_def as_gap_def gap_key_def
      butlast_take_Suc last_take_drop take_hd_snoc tl_drop_Suc)

lemma delete_gap:
  assumes "ed_ok e"
  shows "\<exists>e'. delete_left e = Ok e' \<and> ed_ok e' \<and> as_gap e' = gap_key names Backspace (as_gap e)"
    "\<exists>e'. delete_right e = Ok e' \<and> ed_ok e' \<and> as_gap e' = gap_key names Delete (as_gap e)"
  using assms
  by (auto simp: delete_left_def delete_right_def ascii_remove ed_ok_def as_gap_def gap_key_def min_def
      butlast_take_Suc tl_drop_Suc)

lemma history_gap:
  assumes "ed_ok e"
  shows "\<exists>e'. navigate_history_up e = Ok e' \<and> ed_ok e' \<and> as_gap e' = gap_key names ArrowUp (as_gap e)"
    "\<exists>e'. navigate_history_down e = Ok e' \<and> ed_ok e' \<and> as_gap e' = gap_key names ArrowDown (as_gap e)"
  using assms
  by (auto simp: navigate_history_up_def navigate_history_down_def ed_ok_def as_gap_def gap_key_def recall_def Let_def
      list_all_nth split: if_splits)

lemma complete_gap:
  assumes "ed_ok e" "list_all ascii names"
  shows "ed_ok (snd (auto_complete names e))" "as_gap (snd (auto_complete names e)) = gap_key names Tab (as_gap e)"
proof -
  have "filter (\<lambda>command. starts_with command (buffer e)) names
      = filter (\<lambda>n. take (length (before (as_gap e) @ after (as_gap e))) n = before (as_gap e) @ after (as_gap e)) names" (is "_ = ?m")
    by (simp add: starts_with_take as_gap_def del: length_append)
  moreover have "list_all ascii ?m" using assms(2) by (auto simp: list_all_iff)
  ultimately show "ed_ok (snd (auto_complete names e))" "as_gap (snd (auto_complete names e)) = gap_key names Tab (as_gap e)"
    using assms(1)
    by (simp_all add: auto_complete_def gap_key_def completed_def split_beta Let_def split: list.split)
      (auto simp: ed_ok_def as_gap_def)
qed

lemma take_key_gap:
  assumes "ed_ok e" "list_all ascii names" "ascii_key k"
  shows "\<exists>out e'. take_key names k e = Ok (out, gap_command k (as_gap e), e') \<and> ed_ok e' \<and> as_gap e' = gap_key names k (as_gap e)"
proof (cases "k = Enter")
  case True
  then show ?thesis
    using assms(1) by (auto simp: take_key_def gap_command_def gap_key_def as_gap_def ed_ok_def)
next
  case False
  note take = take_key_def handle_key_def silent_def gap_command_def split_beta
  show ?thesis
  proof (cases k)
    case (KeyChar c)
    then show ?thesis using insert_char_gap [OF assms(1), of c names] assms(3) by (auto simp: take ascii_key_def)
  next
    case Tab
    then show ?thesis using complete_gap [OF assms(1,2)] by (simp add: take)
  next
    case Unknown
    then show ?thesis using assms(1) by (simp add: take gap_key_def)
  qed (use assms False move_gap [OF assms(1), where names = names] delete_gap [OF assms(1), where names = names] history_gap [OF assms(1), where names = names]
      in \<open>force simp: take\<close>)+
qed

section \<open>Sessions\<close>

text \<open>\<open>get_input\<close> called until both devices are empty: the commands it returned, in order.\<close>

function run_input :: "bytes list \<Rightarrow> input \<times> editor \<Rightarrow> (unit, bytes list \<times> editor) result" where
  "run_input names (i, e) =
     (if serial_rx i = [] \<and> scancodes i = [] then Ok ([], e)
      else case poll_key i of
        (None, i) \<Rightarrow> run_input names (i, e)
      | (Some k, i) \<Rightarrow>
          rbind (take_key names k e) (\<lambda>(out, cmd, e).
          rbind (run_input names (i, e)) (\<lambda>(cmds, e). Ok (case cmd of None \<Rightarrow> cmds | Some c \<Rightarrow> c # cmds, e))))"
  by pat_completeness auto
termination
  by (relation "measure (\<lambda>(_, i, _). length (serial_rx i) + length (scancodes i))")
    (auto simp: poll_key_def read_byte_def try_next_key_def Let_def split: list.splits if_splits)

declare run_input.simps [simp del]

text \<open>One round is one call of \<open>get_input\<close>.\<close>

lemma run_input_get_input:
  "serial_rx i \<noteq> [] \<or> scancodes i \<noteq> [] \<Longrightarrow>
    run_input names (i, e) = rbind (get_input names (i, e)) (\<lambda>(out, cmd, i, e).
      rbind (run_input names (i, e)) (\<lambda>(cmds, e). Ok (case cmd of None \<Rightarrow> cmds | Some c \<Rightarrow> c # cmds, e)))"
proof -
  have id: "rbind r Ok = r" for r :: "(unit, bytes list \<times> editor) result" by (cases r) auto
  assume "serial_rx i \<noteq> [] \<or> scancodes i \<noteq> []"
  then show ?thesis
    by (subst run_input.simps) (cases "poll_key i"; cases "take_key names (the (fst (poll_key i))) e";
      auto simp: get_input_def id split: option.splits)
qed

primrec gap_run :: "bytes list \<Rightarrow> key list \<Rightarrow> gap \<Rightarrow> bytes list \<times> gap" where
  "gap_run names [] g = ([], g)"
| "gap_run names (k # ks) g =
     (case gap_run names ks (gap_key names k g) of
        (cmds, g') \<Rightarrow> ((case gap_command k g of None \<Rightarrow> cmds | Some c \<Rightarrow> c # cmds), g'))"

lemma scancodes_ascii: "list_all (\<lambda>(sc, plain, shifted). of_char plain < (0x80 :: u32) \<and> of_char shifted < (0x80 :: u32)) SCANCODE_CHARS"
  by code_simp

lemma scancode_to_char_ascii: "scancode_to_char sc sh = Some c \<Longrightarrow> c < 0x80"
  using scancodes_ascii
  by (auto simp: scancode_to_char_def list_all_iff split: if_splits dest!: map_of_SomeD)

lemma poll_key_ascii: "poll_key i = (Some k, j) \<Longrightarrow> ascii_key k"
proof -
  have make: "ascii_key (make_key sc sh)" for sc sh
    using scancode_to_char_ascii by (auto simp: make_key_def ascii_key_def split: option.split)
  have ser: "ascii_key (serial_byte_to_key b)" for b
  proof -
    have "(ucast b :: u32) < 0x80" if "b \<le> 0x7E"
      using that by (simp add: word_less_nat_alt word_le_nat_alt unsigned_ucast_eq take_bit_nat_eq_self)
    then show ?thesis by (auto simp: serial_byte_to_key_def ascii_key_def)
  qed
  assume "poll_key i = (Some k, j)"
  then show ?thesis
    using make ser by (auto simp: poll_key_def read_byte_def try_next_key_def Let_def split: list.splits if_splits)
qed

lemma run_input_gap:
  assumes "ed_ok e" "list_all ascii names"
  shows "\<exists>e'. run_input names (i, e) = Ok (fst (gap_run names (fst (poll_all i)) (as_gap e)), e') \<and> ed_ok e'
    \<and> as_gap e' = snd (gap_run names (fst (poll_all i)) (as_gap e))"
  using assms
proof (induction i arbitrary: e rule: poll_all.induct)
  case (1 i)
  show ?case
  proof (cases "serial_rx i = [] \<and> scancodes i = []")
    case True
    then show ?thesis using 1 by (simp add: run_input.simps poll_all.simps)
  next
    case False
    obtain ko j where p: "poll_key i = (ko, j)" by (cases "poll_key i")
    show ?thesis
    proof (cases ko)
      case None
      then have "poll_all i = poll_all j" using False p by (subst poll_all.simps) auto
      then show ?thesis using 1 False p None by (subst run_input.simps) auto
    next
      case (Some k)
      obtain out e1 where k: "take_key names k e = Ok (out, gap_command k (as_gap e), e1)" "ed_ok e1"
          "as_gap e1 = gap_key names k (as_gap e)"
        using take_key_gap [OF 1(3,4)] poll_key_ascii p Some by blast
      have all: "fst (poll_all i) = k # fst (poll_all j)"
        using False p Some by (subst poll_all.simps) (simp split: prod.split)
      obtain e2 where "run_input names (j, e1) = Ok (fst (gap_run names (fst (poll_all j)) (as_gap e1)), e2)" "ed_ok e2"
          "as_gap e2 = snd (gap_run names (fst (poll_all j)) (as_gap e1))"
        using 1(2) [OF False p [symmetric]] Some k(2) 1(4) by fastforce
      then show ?thesis
        using False p Some k by (subst run_input.simps) (auto simp: all split_beta split: option.split)
    qed
  qed
qed


text \<open>Typing characters and Enter, in the specification.\<close>

lemma ucast_of_char: "(ucast (of_char c :: u32) :: u8) = of_char c"
proof -
  have "(ucast (word_of_nat (of_char c) :: u32) :: u8) = word_of_nat (of_char c)"
    by (rule bit_word_eqI) (simp add: bit_simps)
  then show ?thesis by (simp add: of_nat_of_char)
qed

lemma gap_run_chars:
  "gap_run names (map (\<lambda>c. KeyChar (of_char c)) w @ ks) g
     = gap_run names ks (g\<lparr>before := before g @ str_bytes w\<rparr>)"
  by (induction w arbitrary: g) (auto simp: gap_key_def gap_command_def str_bytes_def ucast_of_char split: prod.split)

lemma poll_stroke_line:
  assumes "set w \<subseteq> set printables"
  shows "fst (poll_all \<lparr>serial_rx = [], scancodes = concat (map stroke w) @ [0x1C], shift = False\<rparr>)
      = map (\<lambda>c. KeyChar (of_char c)) w @ [Enter]"
  using assms poll_strokes [of w "[0x1C]"]
  by (simp add: poll_all_scancode poll_all_idle make_key_def)

text \<open>
  A typed command reaches the shell as typed. On an empty line, printable text typed on the keyboard and
  followed by Enter is returned as the one command, and becomes the newest entry of the history.
\<close>

theorem typed_command_is_returned:
  assumes "ed_ok e" and "buffer e = []" and "list_all ascii names" and "set w \<subseteq> set printables" and "w \<noteq> []"
  shows "\<exists>e'. run_input names (\<lparr>serial_rx = [], scancodes = concat (map stroke w) @ [0x1C], shift = False\<rparr>, e) = Ok ([str_bytes w], e')
    \<and> history e' = history e @ [str_bytes w] \<and> buffer e' = [] \<and> ed_ok e'"
proof -
  let ?g = "as_gap e"
  have "gap_run names (map (\<lambda>c. KeyChar (of_char c)) w @ [Enter]) ?g
      = ([str_bytes w], ?g\<lparr>before := [], after := [], past := past ?g @ [str_bytes w], at_past := length (past ?g) + 1\<rparr>)"
    using assms by (simp add: gap_run_chars gap_key_def gap_command_def as_gap_def str_bytes_def)
  then show ?thesis
    using run_input_gap [OF assms(1,3), of "\<lparr>serial_rx = [], scancodes = concat (map stroke w) @ [0x1C], shift = False\<rparr>"]
    by (auto simp: poll_stroke_line [OF assms(4)] as_gap_def ed_ok_def)
qed

text \<open>
  Completion can break the editor. If the only command that completes an empty line ends in a
  character of more than one byte (a file name may), then Tab, cursor left and any character panic the
  kernel: the cursor is inside that character.
\<close>

theorem completion_can_panic:
  assumes "names = [n]" and "n \<noteq> []" and "utf8_cont (last n)" and "1 < length n" and "buffer e = []"
    and "serial_rx i = []" and "scancodes i = [0x0F, 0x4B, 0x1E]" and "\<not> shift i"
  shows "run_input names (i, e) = Panic"
proof -
  let ?e1 = "snd (auto_complete names e)"
  have e1: "buffer ?e1 = n" "cursor_pos ?e1 = length n"
    using assms by (simp_all add: auto_complete_def Let_def starts_with_iff)
  have "last n = n ! (length n - 1)" using assms(2) by (simp add: last_conv_nth)
  then have "\<not> is_char_boundary n (length n - 1)"
    using assms(3,4) by (auto simp: is_char_boundary_def)
  then have ins: "insert_char c (move_left ?e1) = Panic" for c
    using e1 assms(4) by (auto simp: insert_char_def move_left_def str_insert_def)
  have keys: "make_key 0x0F False = Tab" "make_key 0x4B False = ArrowLeft" "make_key 0x1E False = KeyChar 0x61"
    by code_simp+
  have poll: "poll_key \<lparr>serial_rx = [], scancodes = sc # scs, shift = False\<rparr>
      = (Some (make_key sc False), \<lparr>serial_rx = [], scancodes = scs, shift = False\<rparr>)" if "sc \<in> {0x0F, 0x4B, 0x1E}" for sc scs
    using that by (auto simp: poll_key_def read_byte_def try_next_key_def)
  have i: "i = \<lparr>serial_rx = [], scancodes = [0x0F, 0x4B, 0x1E], shift = False\<rparr>" using assms(6-8) by (cases i) simp
  have step: "run_input names (\<lparr>serial_rx = [], scancodes = sc # scs, shift = False\<rparr>, e0) =
      rbind (take_key names (make_key sc False) e0) (\<lambda>(out, cmd, e). rbind (run_input names (\<lparr>serial_rx = [], scancodes = scs, shift = False\<rparr>, e))
        (\<lambda>(cmds, e). Ok (case cmd of None \<Rightarrow> cmds | Some c \<Rightarrow> c # cmds, e)))" if "sc \<in> {0x0F, 0x4B, 0x1E}" for sc scs e0
    using poll [OF that] by (subst run_input.simps) simp
  show ?thesis
    unfolding i by (simp add: step keys take_key_def handle_key_def silent_def split_beta ins)
qed

definition demo_editor :: editor where
  "demo_editor = editor_new\<lparr>history := [str_bytes ''ls''], history_index := 1\<rparr>"


theorem typed_command_is_returned_witness:
  "\<exists>e'. run_input [] (\<lparr>serial_rx = [], scancodes = concat (map stroke ''ls'') @ [0x1C], shift = False\<rparr>, demo_editor)
      = Ok ([str_bytes ''ls''], e') \<and> history e' = [str_bytes ''ls'', str_bytes ''ls'']"
proof -
  have "ed_ok demo_editor" "set ''ls'' \<subseteq> set printables" by code_simp+
  then show ?thesis
    using typed_command_is_returned [of demo_editor "[]" "''ls''"] by (auto simp: demo_editor_def editor_new_def)
qed

theorem completion_can_panic_witness:
  "run_input [[0xC3, 0xA9]] (\<lparr>serial_rx = [], scancodes = [0x0F, 0x4B, 0x1E], shift = False\<rparr>, editor_new) = Panic"
proof -
  have "utf8_cont (last [0xC3, 0xA9])" by code_simp
  then show ?thesis
    using completion_can_panic [of "[[0xC3, 0xA9]]" "[0xC3, 0xA9]" editor_new
      "\<lparr>serial_rx = [], scancodes = [0x0F, 0x4B, 0x1E], shift = False\<rparr>"]
    by (simp add: editor_new_def)
qed

end
