(* ===== verification/Shell_Words.thy ===== *)
theory Shell_Words
  imports Rust_Strings
begin

text \<open>
  The text handling of the shell (\<open>kernel/src/shell/mod.rs\<close>): tokenizer, history ring, working directory and the
  parsers of numbers, with the hexadecimal decoder of \<open>commands/write.rs\<close> and the path functions of
  \<open>commands/cd.rs\<close> and \<open>commands/cat.rs\<close>.
\<close>

section \<open>Working directory\<close>

definition CWD_MAX :: nat where "CWD_MAX = 128"
definition MAX_ARGS :: nat where "MAX_ARGS = 8"
definition HISTORY_LEN :: nat where "HISTORY_LEN = 16"
definition MAX_LINE :: nat where "MAX_LINE = 128"

record cwd =
  cwd_buf :: "u8 arr"
  cwd_len :: nat

definition get_cwd :: "cwd \<Rightarrow> bytes \<times> cwd" where
  "get_cwd d =
     (let d = (if cwd_len d = 0 then d\<lparr>cwd_buf := (cwd_buf d)(0 := 0x2F), cwd_len := 1\<rparr> else d) in
      (case from_utf8 (mem_read (cwd_buf d) 0 (cwd_len d)) of Some s \<Rightarrow> s | None \<Rightarrow> str_bytes ''/'', d))"

definition set_cwd :: "bytes \<Rightarrow> cwd \<Rightarrow> cwd" where
  "set_cwd path d =
     (let len = min (length path) CWD_MAX in
      d\<lparr>cwd_buf := mem_write (cwd_buf d) 0 (take len path), cwd_len := len\<rparr>)"

text \<open>\<open>resolve\<close> of \<open>cd.rs\<close> and \<open>resolve_fat_path\<close> of \<open>cat.rs\<close>, with what \<open>get_cwd\<close> returns as an argument.\<close>

definition resolve :: "bytes \<Rightarrow> bytes \<Rightarrow> bytes" where
  "resolve cwd target =
     (let raw = (if starts_with target [0x2F] then target
        else if target = str_bytes ''..'' then
          (case rfind 0x2F cwd of None \<Rightarrow> str_bytes ''/'' | Some pos \<Rightarrow> if pos = 0 then str_bytes ''/'' else take pos cwd)
        else (if ends_with cwd [0x2F] then cwd else cwd @ [0x2F]) @ target);
        trimmed = trim_end_matches 0x2F raw in
      if trimmed = [] then str_bytes ''/'' else trimmed)"

definition resolve_fat_path :: "bytes \<Rightarrow> bytes \<Rightarrow> bytes" where
  "resolve_fat_path cwd name =
     (if starts_with name [0x2F] then name
      else if cwd = str_bytes ''/'' then name
      else trim_start_matches 0x2F cwd @ [0x2F] @ name)"

section \<open>History\<close>

record history_buf =
  hlines :: "u8 arr arr"
  hlens :: "nat arr"
  hhead :: nat
  hlen :: nat

definition history_new :: history_buf where
  "history_new = \<lparr>hlines = \<lambda>_ _. 0, hlens = \<lambda>_. 0, hhead = 0, hlen = 0\<rparr>"

definition history_push :: "bytes \<Rightarrow> history_buf \<Rightarrow> history_buf" where
  "history_push s h =
     (let copy_len = min (length s) MAX_LINE in
      h\<lparr>hlines := (hlines h)(hhead h := mem_write (hlines h (hhead h)) 0 (take copy_len s)),
        hlens := (hlens h)(hhead h := copy_len),
        hhead := (hhead h + 1) mod HISTORY_LEN,
        hlen := (if hlen h < HISTORY_LEN then hlen h + 1 else hlen h)\<rparr>)"

definition history_get :: "history_buf \<Rightarrow> nat \<Rightarrow> bytes" where
  "history_get h i =
     (let start = (if hlen h < HISTORY_LEN then 0 else hhead h);
          idx = (start + i) mod HISTORY_LEN in
      case from_utf8 (mem_read (hlines h idx) 0 (hlens h idx)) of Some s \<Rightarrow> s | None \<Rightarrow> [])"

section \<open>Tokenizer\<close>

datatype shell_error = TooManyArgs

definition blank :: "u8 \<Rightarrow> bool" where
  "blank b \<longleftrightarrow> b = 0x20 \<or> b = 0x09"

text \<open>
  The word at the start of a non-empty rest, and what follows it. The delimiters are ASCII, so the slices of
  the line that \<open>tokenize\<close> takes begin and end at character boundaries.
\<close>

definition next_word :: "bytes \<Rightarrow> bytes \<times> bytes" where
  "next_word bs =
     (if hd bs = 0x22 then (takeWhile (\<lambda>b. b \<noteq> 0x22) (tl bs), drop 1 (dropWhile (\<lambda>b. b \<noteq> 0x22) (tl bs)))
      else (takeWhile (\<lambda>b. \<not> blank b) bs, dropWhile (\<lambda>b. \<not> blank b) bs))"

lemma next_word_shorter: "bs \<noteq> [] \<Longrightarrow> \<not> blank (hd bs) \<Longrightarrow> length (snd (next_word bs)) < length bs"
  using length_dropWhile_le [of "\<lambda>b. b \<noteq> 0x22" "tl bs"] length_dropWhile_le [of "\<lambda>b. \<not> blank b" "tl bs"]
  by (cases bs) (auto simp: next_word_def)

function tokenize_from :: "bytes \<Rightarrow> bytes list \<Rightarrow> (shell_error, bytes list) result" where
  "tokenize_from bs out =
     (let bs = dropWhile blank bs in
      if bs = [] then Ok out
      else if length out \<ge> MAX_ARGS then Err TooManyArgs
      else tokenize_from (snd (next_word bs)) (out @ [fst (next_word bs)]))"
  by pat_completeness auto
termination
proof (relation "measure (length \<circ> fst)", simp)
  fix bs out :: "bytes list" and x bs' assume x: "x = dropWhile blank bs'" "x \<noteq> []"
  then have "length (snd (next_word x)) < length x"
    using hd_dropWhile [of blank bs'] by (intro next_word_shorter) auto
  then show "((snd (next_word x), out @ [fst (next_word x)]), bs', out) \<in> measure (length \<circ> fst)"
    using length_dropWhile_le [of blank bs'] x(1) by simp
qed

declare tokenize_from.simps [simp del]

definition tokenize :: "bytes \<Rightarrow> (shell_error, bytes list) result" where
  "tokenize line = tokenize_from line []"

section \<open>Numbers\<close>

definition is_dec :: "u8 \<Rightarrow> bool" where
  "is_dec b \<longleftrightarrow> 0x30 \<le> b \<and> b \<le> 0x39"

text \<open>\<open>val.checked_mul(10)?.checked_add(d)?\<close> up to the largest value of the type.\<close>

fun dec_checked :: "nat \<Rightarrow> nat \<Rightarrow> bytes \<Rightarrow> nat option" where
  "dec_checked maxv val [] = Some val"
| "dec_checked maxv val (b # bs) =
     (if \<not> is_dec b then None
      else if val * 10 > maxv then None
      else if val * 10 + digit_value b > maxv then None
      else dec_checked maxv (val * 10 + digit_value b) bs)"

definition parse_i32 :: "bytes \<Rightarrow> i32 option" where
  "parse_i32 s =
     (if s = [] then None
      else let negative = (hd s = 0x2D); ds = (if negative then tl s else s) in
        if ds = [] then None
        else map_option (\<lambda>v. if negative then - word_of_nat v else word_of_nat v) (dec_checked (2 ^ 31 - 1) 0 ds))"

definition parse_usize :: "bytes \<Rightarrow> nat option" where
  "parse_usize s = (if s = [] then None else dec_checked (2 ^ 64 - 1) 0 s)"

section \<open>Hexadecimal data\<close>

definition hex_nibble :: "u8 \<Rightarrow> u8 option" where
  "hex_nibble b =
     (if 0x30 \<le> b \<and> b \<le> 0x39 then Some (b - 0x30)
      else if 0x61 \<le> b \<and> b \<le> 0x66 then Some (b - 0x61 + 10)
      else if 0x41 \<le> b \<and> b \<le> 0x46 then Some (b - 0x41 + 10)
      else None)"

fun hex_pairs :: "bytes \<Rightarrow> bytes option" where
  "hex_pairs (h # l # src) =
     (case hex_nibble h of None \<Rightarrow> None
      | Some hi \<Rightarrow>
          (case hex_nibble l of None \<Rightarrow> None
           | Some lo \<Rightarrow> map_option (\<lambda>out. (push_bit 4 hi OR lo) # out) (hex_pairs src)))"
| "hex_pairs _ = Some []"

text \<open>The decoded bytes, for an output buffer of \<open>cap\<close> bytes.\<close>

definition hex_decode :: "bytes \<Rightarrow> nat \<Rightarrow> bytes option" where
  "hex_decode src cap =
     (if length src mod 2 \<noteq> 0 then None
      else if length src div 2 > cap then None
      else hex_pairs src)"

section \<open>The history is the last lines\<close>

text \<open>A line as it is kept: cut to \<open>MAX_LINE\<close> bytes, and shown as empty when that splits a character.\<close>

definition kept_line :: "bytes \<Rightarrow> bytes" where
  "kept_line s = (case from_utf8 (take MAX_LINE s) of Some t \<Rightarrow> t | None \<Rightarrow> [])"

text \<open>The ring after the lines \<open>xs\<close>: line \<open>j\<close> is in slot \<open>j mod HISTORY_LEN\<close> while it is one of the last ones.\<close>

definition ring_of :: "bytes list \<Rightarrow> history_buf \<Rightarrow> bool" where
  "ring_of xs h \<longleftrightarrow> hhead h = length xs mod HISTORY_LEN \<and> hlen h = min (length xs) HISTORY_LEN
     \<and> (\<forall>j < length xs. length xs \<le> j + HISTORY_LEN \<longrightarrow>
          mem_read (hlines h (j mod HISTORY_LEN)) 0 (hlens h (j mod HISTORY_LEN)) = take MAX_LINE (xs ! j))"

lemma ring_of_new: "ring_of [] history_new"
  by (simp add: ring_of_def history_new_def)

lemma ring_of_push: "ring_of xs h \<Longrightarrow> ring_of (xs @ [s]) (history_push s h)"
proof -
  assume r: "ring_of xs h"
  have slot: "j mod HISTORY_LEN \<noteq> length xs mod HISTORY_LEN" if "j < length xs" "Suc (length xs) \<le> j + HISTORY_LEN" for j
  proof
    assume "j mod HISTORY_LEN = length xs mod HISTORY_LEN"
    then have "HISTORY_LEN dvd length xs - j" using that(1) by (metis mod_eq_dvd_iff_nat less_imp_le)
    then show False using that dvd_imp_le [of HISTORY_LEN "length xs - j"] by (auto simp: HISTORY_LEN_def)
  qed
  have old: "mem_read (hlines h (j mod HISTORY_LEN)) 0 (hlens h (j mod HISTORY_LEN)) = take MAX_LINE (xs ! j)"
    if "j < length xs" "length xs \<le> j + HISTORY_LEN" for j
    using r that by (simp add: ring_of_def)
  have "mem_read (hlines (history_push s h) (j mod HISTORY_LEN)) 0 (hlens (history_push s h) (j mod HISTORY_LEN))
      = take MAX_LINE ((xs @ [s]) ! j)" if "j < Suc (length xs)" "Suc (length xs) \<le> j + HISTORY_LEN" for j
    using that slot [of j] old [of j] r
    by (cases "j = length xs") (auto simp: ring_of_def history_push_def Let_def nth_append min_def)
  moreover have "hhead (history_push s h) = length (xs @ [s]) mod HISTORY_LEN" "hlen (history_push s h) = min (length (xs @ [s])) HISTORY_LEN"
    using r by (auto simp: ring_of_def history_push_def Let_def mod_Suc_eq)
  ultimately show ?thesis by (simp add: ring_of_def)
qed

lemma ring_of_pushes: "ring_of xs (fold history_push xs history_new)"
proof (induction xs rule: rev_induct)
  case (snoc s xs)
  then show ?case by (simp add: ring_of_push)
qed (simp add: ring_of_new)

text \<open>
  The history ring shows the last 16 lines. After any sequence of pushed lines, the entries that
  \<open>history\<close> lists are the last (at most) 16 of them, oldest first, each cut to 128 bytes.
\<close>

theorem history_shows_last_lines:
  "map (history_get (fold history_push xs history_new)) [0..<hlen (fold history_push xs history_new)]
     = map kept_line (drop (length xs - HISTORY_LEN) xs)"
proof (rule nth_equalityI)
  let ?h = "fold history_push xs history_new"
  note r = ring_of_pushes [of xs, unfolded ring_of_def]
  show "length (map (history_get ?h) [0..<hlen ?h]) = length (map kept_line (drop (length xs - HISTORY_LEN) xs))"
    using r by auto
  fix i assume "i < length (map (history_get ?h) [0..<hlen ?h])"
  then have i: "i < min (length xs) HISTORY_LEN" using r by simp
  let ?j = "length xs - HISTORY_LEN + i"
  have j: "?j < length xs" "length xs \<le> ?j + HISTORY_LEN" using i by auto
  have "(if hlen ?h < HISTORY_LEN then 0 else hhead ?h) mod HISTORY_LEN = (length xs - HISTORY_LEN) mod HISTORY_LEN"
  proof (cases "length xs < HISTORY_LEN")
    case False
    then obtain m where "length xs = m + HISTORY_LEN" by (metis add.commute le_Suc_ex not_less)
    then show ?thesis using r by simp
  qed (use r in auto)
  then have "((if hlen ?h < HISTORY_LEN then 0 else hhead ?h) + i) mod HISTORY_LEN = ?j mod HISTORY_LEN"
    by (metis mod_add_left_eq)
  then have "history_get ?h i = kept_line (xs ! ?j)"
    using r j by (simp add: history_get_def kept_line_def)
  then show "map (history_get ?h) [0..<hlen ?h] ! i = map kept_line (drop (length xs - HISTORY_LEN) xs) ! i"
    using i r by (auto simp: min_def split: if_splits)
qed

section \<open>Words and numbers read back\<close>

text \<open>How a user writes a word: as it is where possible, in double quotes otherwise.\<close>

definition plain_word :: "bytes \<Rightarrow> bool" where
  "plain_word w \<longleftrightarrow> w \<noteq> [] \<and> hd w \<noteq> 0x22 \<and> list_all (\<lambda>b. \<not> blank b) w"

definition quoted :: "bytes \<Rightarrow> bytes" where
  "quoted w = (if plain_word w then w else 0x22 # w @ [0x22])"

definition command_line :: "bytes list \<Rightarrow> bytes" where
  "command_line ws = concat (map (\<lambda>w. quoted w @ [0x20]) ws)"

definition can_write :: "bytes \<Rightarrow> bool" where
  "can_write w \<longleftrightarrow> plain_word w \<or> 0x22 \<notin> set w"

lemma takeWhile_stop: "list_all P xs \<Longrightarrow> \<not> P y \<Longrightarrow> takeWhile P (xs @ y # ys) = xs"
  "list_all P xs \<Longrightarrow> \<not> P y \<Longrightarrow> dropWhile P (xs @ y # ys) = y # ys"
  by (induction xs) auto

lemma tokenize_blank: "blank b \<Longrightarrow> tokenize_from (b # bs) out = tokenize_from bs out"
  by (subst (1 2) tokenize_from.simps) simp

lemma next_word_quoted:
  assumes "can_write w"
  shows "next_word (quoted w @ 0x20 # rest) = (w, 0x20 # rest)"
proof (cases "plain_word w")
  case True
  then show ?thesis
    by (cases w) (auto simp: quoted_def next_word_def plain_word_def takeWhile_stop blank_def)
next
  case False
  then have "list_all (\<lambda>b. b \<noteq> 0x22) w" using assms by (auto simp: can_write_def list_all_iff)
  then show ?thesis
    using False by (simp add: quoted_def next_word_def takeWhile_stop)
qed

lemma tokenize_quoted:
  assumes "can_write w"
  shows "tokenize_from (quoted w @ 0x20 # rest) out =
    (if length out \<ge> MAX_ARGS then Err TooManyArgs else tokenize_from rest (out @ [w]))"
proof -
  have "quoted w \<noteq> []" "\<not> blank (hd (quoted w))"
    by (auto simp: quoted_def plain_word_def blank_def list_all_iff hd_in_set)
  then have "dropWhile blank (quoted w @ 0x20 # rest) = quoted w @ 0x20 # rest"
    by (cases "quoted w") auto
  then show ?thesis
    by (subst tokenize_from.simps) (simp add: next_word_quoted [OF assms] tokenize_blank blank_def)
qed

lemma tokenize_command_line:
  "list_all can_write ws \<Longrightarrow> tokenize_from (command_line ws) out =
    (if ws = [] \<or> length out + length ws \<le> MAX_ARGS then Ok (out @ ws) else Err TooManyArgs)"
proof (induction ws arbitrary: out)
  case Nil
  then show ?case by (simp add: command_line_def tokenize_from.simps)
next
  case (Cons w ws)
  have "command_line (w # ws) = quoted w @ 0x20 # command_line ws" by (simp add: command_line_def)
  then show ?case using Cons by (auto simp: tokenize_quoted)
qed

text \<open>
  The tokenizer reads back what a user writes. Up to eight words, written as they are or in quotes when
  they are empty or contain blanks, are read as exactly those words; more than eight are the error.
\<close>

theorem tokenize_reads_back:
  assumes "list_all can_write ws"
  shows "tokenize (command_line ws) = (if length ws \<le> MAX_ARGS then Ok ws else Err TooManyArgs)"
  using tokenize_command_line [OF assms, of "[]"] by (auto simp: tokenize_def)

theorem tokenize_reads_back_witness:
  "tokenize (command_line [str_bytes ''write'', str_bytes ''my file'', []]) = Ok [str_bytes ''write'', str_bytes ''my file'', []]"
proof -
  have "list_all can_write [str_bytes ''write'', str_bytes ''my file'', []]" by code_simp
  from tokenize_reads_back [OF this] show ?thesis by (simp add: MAX_ARGS_def)
qed

text \<open>The checked accumulation computes the value, or fails as soon as it is too large.\<close>

definition dec_from :: "nat \<Rightarrow> bytes \<Rightarrow> nat" where
  "dec_from = foldl (\<lambda>v b. v * 10 + digit_value b)"

lemma dec_from_ge: "v \<le> dec_from v bs"
proof (induction bs arbitrary: v)
  case (Cons b bs)
  have "v \<le> v * 10 + digit_value b" by simp
  also have "\<dots> \<le> dec_from (v * 10 + digit_value b) bs" by (rule Cons)
  finally show ?case by (simp add: dec_from_def)
qed (simp add: dec_from_def)

lemma dec_checked_spec:
  "v \<le> m \<Longrightarrow> dec_checked m v bs = (if list_all is_dec bs \<and> dec_from v bs \<le> m then Some (dec_from v bs) else None)"
proof (induction bs arbitrary: v)
  case (Cons b bs)
  have "dec_from v (b # bs) = dec_from (v * 10 + digit_value b) bs" by (simp add: dec_from_def)
  then show ?case
    using Cons dec_from_ge [of "v * 10 + digit_value b" bs] by auto
qed (simp add: dec_from_def)

definition int_str :: "int \<Rightarrow> bytes" where
  "int_str i = (if i < 0 then 0x2D # dec_str (nat (- i)) else dec_str (nat i))"

lemma dec_checked_str: "dec_checked m 0 (dec_str n) = (if n \<le> m then Some n else None)"
  using dec_val_str [of n] dec_str_digits [of n]
  by (simp add: dec_checked_spec dec_val_def dec_from_def is_dec_def [abs_def])

lemma dec_str_head: "dec_str n \<noteq> [] \<and> hd (dec_str n) \<noteq> 0x2D"
proof -
  have "\<not> (0x30 :: u8) \<le> 0x2D" by simp
  then show ?thesis using dec_str_digits [of n] dec_str_nonempty [of n] by (cases "dec_str n") auto
qed

text \<open>
  Numerals are read back, except one. The decimal numeral of every 32-bit integer is parsed to it,
  but the smallest one is rejected, since its magnitude does not fit; a numeral of any natural number is
  parsed as a \<open>usize\<close> if it fits.
\<close>

theorem numerals_read_back:
  assumes "- (2 ^ 31) \<le> i" and "i < 2 ^ 31"
  shows "parse_i32 (int_str i) = (if i = - (2 ^ 31) then None else Some (word_of_int i))
    \<and> parse_usize (dec_str n) = (if n < 2 ^ 64 then Some n else None)"
proof (rule conjI [rotated])
  show "parse_usize (dec_str n) = (if n < 2 ^ 64 then Some n else None)"
    using dec_str_head [of n] by (auto simp: parse_usize_def dec_checked_str)
  have nat: "word_of_nat (nat j) = (word_of_int j :: i32)" if "0 \<le> j" for j using that by simp
  show "parse_i32 (int_str i) = (if i = - (2 ^ 31) then None else Some (word_of_int i))"
    using assms dec_str_head [of "nat i"] dec_str_head [of "nat (- i)"]
    by (auto simp: parse_i32_def int_str_def dec_checked_str nat Let_def)
qed

theorem numerals_read_back_witness:
  "parse_i32 (int_str (- 2147483648)) = None \<and> parse_i32 (int_str (- 2147483647)) = Some (word_of_int (- 2147483647))"
  using numerals_read_back [of "- 2147483648"] numerals_read_back [of "- 2147483647"] by simp

definition hex_digit :: "u8 \<Rightarrow> u8" where
  "hex_digit d = (if d < 10 then 0x30 + d else 0x61 + (d - 10))"

definition hex_encode :: "bytes \<Rightarrow> bytes" where
  "hex_encode bs = concat (map (\<lambda>b. [hex_digit (drop_bit 4 b), hex_digit (b AND 0xF)]) bs)"

lemma hex_digits: "list_all (\<lambda>n. hex_nibble (hex_digit (word_of_nat n)) = Some (word_of_nat n)) [0..<16]"
  by code_simp

lemma hex_nibble_digit: "d < 16 \<Longrightarrow> hex_nibble (hex_digit d) = Some d"
  using hex_digits by (auto simp: list_all_iff word_less_nat_alt dest!: bspec [of _ _ "unat d"])

lemma nibbles: "drop_bit 4 b < (16 :: u8)" "b AND 0xF < (16 :: u8)" "push_bit 4 (drop_bit 4 b) OR b AND 0xF = (b :: u8)"
proof -
  have u: "unat b < 2 ^ LENGTH(8)" by (rule unsigned_less)
  show "drop_bit 4 b < 16"
    using u by (simp add: word_less_nat_alt unsigned_drop_bit_eq drop_bit_eq_div unat_div less_mult_imp_div_less)
  have m: "b AND 0xF = take_bit 4 b" by (simp add: take_bit_eq_mask mask_eq_exp_minus_1)
  show "b AND 0xF < 16" unfolding m by (simp add: word_less_nat_alt unsigned_take_bit_eq take_bit_eq_mod unat_mod)
  show "push_bit 4 (drop_bit 4 b) OR b AND 0xF = b" unfolding m
    by (rule bit_eqI) (auto simp: bit_simps)
qed

text \<open>The data of \<open>write\<close> are decoded from their hexadecimal form, if they fit the buffer.\<close>

lemma hex_decode_encode: "hex_decode (hex_encode bs) cap = (if length bs \<le> cap then Some bs else None)"
proof -
  have "length (hex_encode bs) = 2 * length bs" by (induction bs) (auto simp: hex_encode_def)
  moreover have "hex_pairs (hex_encode bs) = Some bs"
    by (induction bs) (auto simp: hex_encode_def hex_nibble_digit nibbles)
  ultimately show ?thesis by (simp add: hex_decode_def)
qed

section \<open>Paths\<close>

lemma get_set_cwd:
  assumes "p \<noteq> []"
  shows "fst (get_cwd (set_cwd p d)) = (case from_utf8 (take CWD_MAX p) of Some s \<Rightarrow> s | None \<Rightarrow> str_bytes ''/'')"
proof -
  have "take (min (length p) CWD_MAX) p = take CWD_MAX p" by (simp add: min_def)
  then show ?thesis
    using assms by (auto simp: get_cwd_def set_cwd_def Let_def CWD_MAX_def min_def split: if_splits)
qed

text \<open>A normalised absolute path: it begins with a slash and does not end with one, unless it is the root.\<close>

definition normal_path :: "bytes \<Rightarrow> bool" where
  "normal_path p \<longleftrightarrow> p \<noteq> [] \<and> hd p = 0x2F \<and> (p = [0x2F] \<or> last p \<noteq> 0x2F)"

lemma trim_end_last: "trim_end_matches b s = [] \<or> last (trim_end_matches b s) \<noteq> b"
  using hd_dropWhile [of "\<lambda>x. x = b" "rev s"] by (auto simp: trim_end_matches_def last_rev)

lemma trim_end_prefix: "\<exists>t. s = trim_end_matches b s @ t"
  by (rule exI [of _ "rev (takeWhile (\<lambda>x. x = b) (rev s))"]) (simp add: trim_end_matches_def flip: rev_append)

lemma hd_trim_end: "trim_end_matches b s \<noteq> [] \<Longrightarrow> hd (trim_end_matches b s) = hd s"
  by (metis hd_append2 trim_end_prefix)

text \<open>
  \<open>cd\<close> resolves to normalised absolute paths. From a normalised working directory every target, relative,
  absolute or \<open>..\<close>, gives a normalised absolute path, and \<open>..\<close> after entering a directory leads back.
\<close>

theorem resolve_normal:
  assumes "normal_path cwd" and "d \<noteq> []" and "0x2F \<notin> set d" and "d \<noteq> str_bytes ''..''"
  shows "normal_path (resolve cwd target) \<and> resolve (resolve cwd d) (str_bytes ''..'') = cwd"
proof
  have root: "str_bytes ''/'' = [0x2F]" by (simp add: str_bytes_def)
  define raw where "raw = (if starts_with target [0x2F] then target
        else if target = str_bytes ''..'' then
          (case rfind 0x2F cwd of None \<Rightarrow> str_bytes ''/'' | Some pos \<Rightarrow> if pos = 0 then str_bytes ''/'' else take pos cwd)
        else (if ends_with cwd [0x2F] then cwd else cwd @ [0x2F]) @ target)"
  have "raw \<noteq> []" "hd raw = 0x2F"
    using assms(1) by (auto simp: raw_def root normal_path_def starts_with_iff hd_append split: option.split dest!: rfind_Some)
  moreover have "resolve cwd target = (if trim_end_matches 0x2F raw = [] then [0x2F] else trim_end_matches 0x2F raw)"
    by (simp add: resolve_def raw_def root)
  ultimately show "normal_path (resolve cwd target)"
    using hd_trim_end [of "0x2F" raw] trim_end_last [of "0x2F" raw] by (auto simp: normal_path_def)
  have d: "\<not> starts_with d [0x2F]" "last d \<noteq> 0x2F" using assms(2,3) by (auto simp: starts_with_iff) (metis last_in_set)
  have trim: "trim_end_matches 0x2F s = s" if "s \<noteq> []" "last s \<noteq> 0x2F" for s
    using that by (cases s rule: rev_cases) (auto simp: trim_end_matches_def)
  let ?base = "if cwd = [0x2F] then [] else cwd"
  have slash: "(if ends_with cwd [0x2F] then cwd else cwd @ [0x2F]) = ?base @ [0x2F]"
    using assms(1) by (cases cwd rule: rev_cases) (auto simp: ends_with_iff normal_path_def)
  have into: "resolve cwd d = ?base @ 0x2F # d"
    using assms(2,4) d trim [of "?base @ 0x2F # d"] by (simp add: resolve_def slash Let_def split: if_splits)
  have rf: "rfind 0x2F (?base @ 0x2F # d) = Some (length ?base)" by (rule rfind_split [OF assms(3)])
  have "starts_with (str_bytes ''..'') [0x2F] = False" by (simp add: str_bytes_def)
  then have up: "resolve (?base @ 0x2F # d) (str_bytes ''..'') =
      (let t = trim_end_matches 0x2F (if ?base = [] then [0x2F] else ?base) in if t = [] then [0x2F] else t)"
    unfolding resolve_def rf root by (simp add: Let_def)
  show "resolve (resolve cwd d) (str_bytes ''..'') = cwd"
  proof (cases "cwd = [0x2F]")
    case True
    then show ?thesis unfolding into up by (simp add: trim_end_matches_def)
  next
    case False
    then show ?thesis unfolding into up using assms(1) trim [of cwd] by (simp add: normal_path_def)
  qed
qed

theorem resolve_normal_witness:
  "normal_path (resolve (str_bytes ''/roms'') (str_bytes ''../..'')) \<and> resolve (resolve (str_bytes ''/roms'') (str_bytes ''nes'')) (str_bytes ''..'') = str_bytes ''/roms''"
proof -
  have "normal_path (str_bytes ''/roms'')" "str_bytes ''nes'' \<noteq> []" "0x2F \<notin> set (str_bytes ''nes'')" "str_bytes ''nes'' \<noteq> str_bytes ''..''"
    by code_simp+
  from resolve_normal [OF this] show ?thesis by blast
qed

end
