(* ===== verification/Wasm_Emitter.thy ===== *)
theory Wasm_Emitter
  imports Imports Floats
begin

text \<open>
  The output side of the assembler (\<open>kernel/src/shell/commands/asm.rs\<close>): its module representation and the emitter of
  WebAssembly binaries. The kernel reads the binary back with independent code, the loader and the section
  parsers of the interpreter; here the two sides are shown to agree on every module within the limits.
\<close>

section \<open>Modules\<close>

datatype val_type = TI32 | TI64 | TF32 | TF64

primrec val_type_byte :: "val_type \<Rightarrow> u8" where
  "val_type_byte TI32 = 0x7F"
| "val_type_byte TI64 = 0x7E"
| "val_type_byte TF32 = 0x7D"
| "val_type_byte TF64 = 0x7C"

record func_type =
  ft_params :: "val_type list"
  ft_results :: "val_type list"

text \<open>
  The instructions. The arithmetic and the memory instructions are grouped by type, each group a
  datatype of its own; the memory instructions carry \<open>offset\<close> and \<open>align\<close>, in this order. Floating-point
  constants are the bits of an \<open>f32\<close>, also those of \<open>f64.const\<close>.
\<close>

datatype i32_op =
    I32Add | I32Sub | I32Mul | I32DivS | I32DivU | I32RemS | I32RemU
  | I32And | I32Or | I32Xor | I32Shl | I32ShrS | I32ShrU
  | I32Eqz | I32Eq | I32Ne | I32LtS | I32LtU | I32GtS | I32GtU | I32LeS | I32LeU | I32GeS | I32GeU

datatype i64_op = I64Add | I64Sub | I64Mul | I64And | I64Or | I64Xor | I64Eqz | I64Eq | I64Ne

datatype float_op = F32Add | F32Sub | F32Mul | F32Div | F64Add | F64Sub | F64Mul | F64Div

datatype mem_op = I32Load | I32Store | I32Load8S | I32Load8U | I32Store8

datatype instr =
    Unreachable | Nop | Return | Drop
  | LocalGet u32 | LocalSet u32 | LocalTee u32
  | I32Const i32 | I64Const i32 | F32Const u32 | F64Const u32
  | OpI32 i32_op | OpI64 i64_op | OpFloat float_op
  | OpMem mem_op u32 u32
  | Call u32
  | If u8 | Else | Loop u8 | Block u8 | Br u32 | BrIf u32 | End
  | Select

record func_def =
  fd_type :: u32
  fd_locals :: "val_type list"
  fd_body :: "instr list"

record import_def =
  id_module :: bytes
  id_name :: bytes
  id_type :: u32

record export_def =
  ed_name :: bytes
  ed_kind :: u8
  ed_index :: u32

record memory_def =
  md_min :: u32
  md_max :: "u32 option"

record data_seg =
  ds_mem :: u32
  ds_offset :: i32
  ds_bytes :: bytes

record wat_module =
  m_types :: "func_type list"
  m_imports :: "import_def list"
  m_funcs :: "func_def list"
  m_memories :: "memory_def list"
  m_exports :: "export_def list"
  m_data :: "data_seg list"

section \<open>Emission\<close>

text \<open>Every method of \<open>WasmEmitter\<close> appends to the buffer; here it returns what it appends.\<close>

definition write_bytes :: "bytes \<Rightarrow> bytes" where
  "write_bytes bs = write_leb128_u32 (word_of_nat (length bs)) @ bs"

definition emit_section :: "u8 \<Rightarrow> bytes \<Rightarrow> bytes" where
  "emit_section sid inner = sid # write_leb128_u32 (word_of_nat (length inner)) @ inner"

definition emit_count :: "'a list \<Rightarrow> bytes" where
  "emit_count xs = write_leb128_u32 (word_of_nat (length xs))"

definition emit_types :: "wat_module \<Rightarrow> bytes" where
  "emit_types m = emit_count (m_types m) @ concat (map (\<lambda>ft.
     0x60 # emit_count (ft_params ft) @ map val_type_byte (ft_params ft)
       @ emit_count (ft_results ft) @ map val_type_byte (ft_results ft)) (m_types m))"

definition emit_imports :: "wat_module \<Rightarrow> bytes" where
  "emit_imports m = emit_count (m_imports m) @ concat (map (\<lambda>imp.
     write_bytes (id_module imp) @ write_bytes (id_name imp) @ [0x00] @ write_leb128_u32 (id_type imp)) (m_imports m))"

definition emit_functions :: "wat_module \<Rightarrow> bytes" where
  "emit_functions m = emit_count (m_funcs m) @ concat (map (\<lambda>f. write_leb128_u32 (fd_type f)) (m_funcs m))"

definition emit_memories :: "wat_module \<Rightarrow> bytes" where
  "emit_memories m = emit_count (m_memories m) @ concat (map (\<lambda>mem.
     case md_max mem of
       Some mx \<Rightarrow> 0x01 # write_leb128_u32 (md_min mem) @ write_leb128_u32 mx
     | None \<Rightarrow> 0x00 # write_leb128_u32 (md_min mem)) (m_memories m))"

definition emit_exports :: "wat_module \<Rightarrow> bytes" where
  "emit_exports m = emit_count (m_exports m) @ concat (map (\<lambda>e.
     write_bytes (ed_name e) @ [ed_kind e] @ write_leb128_u32 (ed_index e)) (m_exports m))"

definition emit_data_count :: "wat_module \<Rightarrow> bytes" where
  "emit_data_count m = emit_count (m_data m)"

definition emit_data :: "wat_module \<Rightarrow> bytes" where
  "emit_data m = emit_count (m_data m) @ concat (map (\<lambda>seg.
     [0x00, 0x41] @ write_leb128_i32 (ds_offset seg) @ [0x0B] @ write_bytes (ds_bytes seg)) (m_data m))"

text \<open>Run-length coding of the local declarations: the groups so far, newest first in the accumulator.\<close>

fun compress_into :: "(u32 \<times> val_type) list \<Rightarrow> val_type list \<Rightarrow> (unit, (u32 \<times> val_type) list) result" where
  "compress_into groups [] = Ok (rev groups)"
| "compress_into [] (ty # tys) = compress_into [(1, ty)] tys"
| "compress_into ((n, t) # groups) (ty # tys) =
     (if t = ty then
        if unat n + 1 \<ge> 2 ^ 32 then Panic else compress_into ((n + 1, t) # groups) tys
      else compress_into ((1, ty) # (n, t) # groups) tys)"

definition compress_locals :: "val_type list \<Rightarrow> (unit, (u32 \<times> val_type) list) result" where
  "compress_locals tys = compress_into [] tys"

primrec i32_op_byte :: "i32_op \<Rightarrow> u8" where
  "i32_op_byte I32Add = 0x6A" | "i32_op_byte I32Sub = 0x6B" | "i32_op_byte I32Mul = 0x6C"
| "i32_op_byte I32DivS = 0x6D" | "i32_op_byte I32DivU = 0x6E" | "i32_op_byte I32RemS = 0x6F" | "i32_op_byte I32RemU = 0x70"
| "i32_op_byte I32And = 0x71" | "i32_op_byte I32Or = 0x72" | "i32_op_byte I32Xor = 0x73"
| "i32_op_byte I32Shl = 0x74" | "i32_op_byte I32ShrS = 0x75" | "i32_op_byte I32ShrU = 0x76"
| "i32_op_byte I32Eqz = 0x45" | "i32_op_byte I32Eq = 0x46" | "i32_op_byte I32Ne = 0x47"
| "i32_op_byte I32LtS = 0x48" | "i32_op_byte I32LtU = 0x49" | "i32_op_byte I32GtS = 0x4A" | "i32_op_byte I32GtU = 0x4B"
| "i32_op_byte I32LeS = 0x4C" | "i32_op_byte I32LeU = 0x4D" | "i32_op_byte I32GeS = 0x4E" | "i32_op_byte I32GeU = 0x4F"

primrec i64_op_byte :: "i64_op \<Rightarrow> u8" where
  "i64_op_byte I64Add = 0x7C" | "i64_op_byte I64Sub = 0x7D" | "i64_op_byte I64Mul = 0x7E"
| "i64_op_byte I64And = 0x83" | "i64_op_byte I64Or = 0x84" | "i64_op_byte I64Xor = 0x85"
| "i64_op_byte I64Eqz = 0x50" | "i64_op_byte I64Eq = 0x51" | "i64_op_byte I64Ne = 0x52"

primrec float_op_byte :: "float_op \<Rightarrow> u8" where
  "float_op_byte F32Add = 0x92" | "float_op_byte F32Sub = 0x93" | "float_op_byte F32Mul = 0x94" | "float_op_byte F32Div = 0x95"
| "float_op_byte F64Add = 0xA0" | "float_op_byte F64Sub = 0xA1" | "float_op_byte F64Mul = 0xA2" | "float_op_byte F64Div = 0xA3"

primrec mem_op_byte :: "mem_op \<Rightarrow> u8" where
  "mem_op_byte I32Load = 0x28" | "mem_op_byte I32Store = 0x36" | "mem_op_byte I32Load8S = 0x2C"
| "mem_op_byte I32Load8U = 0x2D" | "mem_op_byte I32Store8 = 0x3A"

text \<open>The widening of an \<open>f64.const\<close>, the conversion \<open>as f64\<close>.\<close>

definition widen_f32 :: "float_env \<Rightarrow> u32 \<Rightarrow> u64" where
  "widen_f32 fe f = word_of_int (float_to_float F32 F64 (nan64 fe (uint f) (uint f)) (uint f))"

primrec emit_instr :: "float_env \<Rightarrow> instr \<Rightarrow> bytes" where
  "emit_instr fe Unreachable = [0x00]"
| "emit_instr fe Nop = [0x01]"
| "emit_instr fe Return = [0x0F]"
| "emit_instr fe Drop = [0x1A]"
| "emit_instr fe Select = [0x1B]"
| "emit_instr fe End = [0x0B]"
| "emit_instr fe Else = [0x05]"
| "emit_instr fe (Block bt) = [0x02, bt]"
| "emit_instr fe (Loop bt) = [0x03, bt]"
| "emit_instr fe (If bt) = [0x04, bt]"
| "emit_instr fe (Br l) = 0x0C # write_leb128_u32 l"
| "emit_instr fe (BrIf l) = 0x0D # write_leb128_u32 l"
| "emit_instr fe (Call i) = 0x10 # write_leb128_u32 i"
| "emit_instr fe (LocalGet i) = 0x20 # write_leb128_u32 i"
| "emit_instr fe (LocalSet i) = 0x21 # write_leb128_u32 i"
| "emit_instr fe (LocalTee i) = 0x22 # write_leb128_u32 i"
| "emit_instr fe (I32Const n) = 0x41 # write_leb128_i32 n"
| "emit_instr fe (I64Const n) = 0x42 # write_leb128_i32 n"
| "emit_instr fe (F32Const f) = 0x43 # le_bytes32 f"
| "emit_instr fe (F64Const f) = 0x44 # le_bytes64 (widen_f32 fe f)"
| "emit_instr fe (OpMem q offset align) = mem_op_byte q # write_leb128_u32 align @ write_leb128_u32 offset"
| "emit_instr fe (OpI32 q) = [i32_op_byte q]"
| "emit_instr fe (OpI64 q) = [i64_op_byte q]"
| "emit_instr fe (OpFloat q) = [float_op_byte q]"

definition emit_body :: "float_env \<Rightarrow> instr list \<Rightarrow> bytes" where
  "emit_body fe is = concat (map (emit_instr fe) is) @ [0x0B]"

definition emit_func :: "float_env \<Rightarrow> func_def \<Rightarrow> (unit, bytes) result" where
  "emit_func fe f =
     rbind (compress_locals (fd_locals f)) (\<lambda>groups.
     Ok (write_bytes (emit_count groups @ concat (map (\<lambda>(n, ty). write_leb128_u32 n @ [val_type_byte ty]) groups)
       @ emit_body fe (fd_body f))))"

fun emit_funcs :: "float_env \<Rightarrow> func_def list \<Rightarrow> (unit, bytes) result" where
  "emit_funcs fe [] = Ok []"
| "emit_funcs fe (f # fs) = rbind (emit_func fe f) (\<lambda>b. rbind (emit_funcs fe fs) (\<lambda>bs. Ok (b @ bs)))"

definition emit_code :: "float_env \<Rightarrow> wat_module \<Rightarrow> (unit, bytes) result" where
  "emit_code fe m = rbind (emit_funcs fe (m_funcs m)) (\<lambda>bs. Ok (emit_count (m_funcs m) @ bs))"

definition emit_if :: "bool \<Rightarrow> bytes \<Rightarrow> bytes" where
  "emit_if present sec = (if present then sec else [])"

definition emit_module :: "float_env \<Rightarrow> wat_module \<Rightarrow> (unit, bytes) result" where
  "emit_module fe m =
     rbind (if m_funcs m \<noteq> [] then rbind (emit_code fe m) (\<lambda>c. Ok (emit_section 0x0A c)) else Ok []) (\<lambda>code.
     Ok ([0x00, 0x61, 0x73, 0x6D] @ [0x01, 0x00, 0x00, 0x00]
       @ emit_if (m_types m \<noteq> []) (emit_section 0x01 (emit_types m))
       @ emit_if (m_imports m \<noteq> []) (emit_section 0x02 (emit_imports m))
       @ emit_if (m_funcs m \<noteq> []) (emit_section 0x03 (emit_functions m))
       @ emit_if (m_memories m \<noteq> []) (emit_section 0x05 (emit_memories m))
       @ emit_if (m_exports m \<noteq> []) (emit_section 0x07 (emit_exports m))
       @ emit_if (m_data m \<noteq> [] \<and> m_memories m \<noteq> []) (emit_section 0x0C (emit_data_count m))
       @ code
       @ emit_if (m_data m \<noteq> []) (emit_section 0x0B (emit_data m))))"

section \<open>Sections as the loader sees them\<close>

text \<open>A module within the limits: counts and lengths fit 32 bits, names are UTF-8.\<close>

definition func_bytes :: "float_env \<Rightarrow> func_def \<Rightarrow> bytes" where
  "func_bytes fe f = (case emit_func fe f of Ok b \<Rightarrow> b | _ \<Rightarrow> [])"

definition code_bytes :: "float_env \<Rightarrow> wat_module \<Rightarrow> bytes" where
  "code_bytes fe m = emit_count (m_funcs m) @ concat (map (func_bytes fe) (m_funcs m))"

text \<open>The sections of a module with their numbers, in the order of emission.\<close>

definition module_secs :: "float_env \<Rightarrow> wat_module \<Rightarrow> (u8 \<times> bytes) list" where
  "module_secs fe m =
     (if m_types m \<noteq> [] then [(1, emit_types m)] else [])
   @ (if m_imports m \<noteq> [] then [(2, emit_imports m)] else [])
   @ (if m_funcs m \<noteq> [] then [(3, emit_functions m)] else [])
   @ (if m_memories m \<noteq> [] then [(5, emit_memories m)] else [])
   @ (if m_exports m \<noteq> [] then [(7, emit_exports m)] else [])
   @ (if m_data m \<noteq> [] \<and> m_memories m \<noteq> [] then [(12, emit_data_count m)] else [])
   @ (if m_funcs m \<noteq> [] then [(10, code_bytes fe m)] else [])
   @ (if m_data m \<noteq> [] then [(11, emit_data m)] else [])"

definition module_fits :: "float_env \<Rightarrow> wat_module \<Rightarrow> bool" where
  "module_fits fe m \<longleftrightarrow> list_all (\<lambda>f. length (fd_locals f) < 2 ^ 32) (m_funcs m)
     \<and> list_all (\<lambda>(i, d). length d < 2 ^ 32) (module_secs fe m)"

text \<open>Run-length coding keeps the number of locals.\<close>

lemma compress_into_total:
  assumes "sum_list (map (unat \<circ> fst) groups) + length tys < 2 ^ 32"
  shows "\<exists>gs. compress_into groups tys = Ok gs \<and> sum_list (map (unat \<circ> fst) gs) = sum_list (map (unat \<circ> fst) groups) + length tys"
  using assms
proof (induction groups tys rule: compress_into.induct)
  case (1 groups)
  have "sum_list (map f (rev xs)) = (sum_list (map f xs) :: nat)" for f and xs :: "(u32 \<times> val_type) list"
    by (metis rev_map sum_list_rev)
  then show ?case by simp
next
  case (2 ty tys)
  then show ?case by simp
next
  case (3 n t groups ty tys)
  have "unat n + 1 < 2 ^ 32" using 3(3) by simp
  then have n: "unat (n + 1) = unat n + 1" by (simp add: unat_word_ariths)
  show ?case using 3 n by simp
qed

lemma emit_func_ok:
  assumes "length (fd_locals f) < 2 ^ 32"
  obtains gs where "compress_locals (fd_locals f) = Ok gs" "sum_list (map (unat \<circ> fst) gs) = length (fd_locals f)"
    "emit_func fe f = Ok (func_bytes fe f)"
    "func_bytes fe f = write_bytes (emit_count gs @ concat (map (\<lambda>(n, ty). write_leb128_u32 n @ [val_type_byte ty]) gs) @ emit_body fe (fd_body f))"
proof -
  obtain gs where gs: "compress_locals (fd_locals f) = Ok gs" "sum_list (map (unat \<circ> fst) gs) = length (fd_locals f)"
    using compress_into_total [of "[]" "fd_locals f"] assms unfolding compress_locals_def by fastforce
  let ?b = "write_bytes (emit_count gs @ concat (map (\<lambda>(n, ty). write_leb128_u32 n @ [val_type_byte ty]) gs) @ emit_body fe (fd_body f))"
  have e: "emit_func fe f = Ok ?b" unfolding emit_func_def gs by simp
  have b: "func_bytes fe f = ?b" unfolding func_bytes_def e by simp
  show thesis by (rule that [OF gs e [folded b] b])
qed

lemma emit_func_total: "length (fd_locals f) < 2 ^ 32 \<Longrightarrow> emit_func fe f = Ok (func_bytes fe f)"
  by (rule emit_func_ok)

lemma emit_funcs_ok: "list_all (\<lambda>f. length (fd_locals f) < 2 ^ 32) fs \<Longrightarrow> emit_funcs fe fs = Ok (concat (map (func_bytes fe) fs))"
  by (induction fs) (simp_all add: emit_func_total)

lemma emit_module_secs:
  assumes "module_fits fe m"
  shows "emit_module fe m = Ok (MAGIC @ VERSION @ concat (map section_bytes (module_secs fe m)))"
proof -
  have c: "emit_code fe m = Ok (code_bytes fe m)"
    using assms emit_funcs_ok [of "m_funcs m" fe] unfolding emit_code_def code_bytes_def module_fits_def by simp
  have s: "emit_section i d = section_bytes (i, d)" for i d by (simp add: emit_section_def section_bytes_def)
  show ?thesis
    unfolding emit_module_def emit_if_def module_secs_def s c MAGIC_def VERSION_def
    by (cases "m_funcs m = []") simp_all
qed

definition present :: "bool \<Rightarrow> bytes \<Rightarrow> bytes option" where
  "present b d = (if b then Some d else None)"

definition loaded :: "float_env \<Rightarrow> wat_module \<Rightarrow> module" where
  "loaded fe m = \<lparr>type_section = present (m_types m \<noteq> []) (emit_types m), import_section = present (m_imports m \<noteq> []) (emit_imports m),
     function_section = present (m_funcs m \<noteq> []) (emit_functions m), table_section = None,
     memory_section = present (m_memories m \<noteq> []) (emit_memories m), global_section = None,
     export_section = present (m_exports m \<noteq> []) (emit_exports m), element_section = None,
     code_section = present (m_funcs m \<noteq> []) (code_bytes fe m), data_section = present (m_data m \<noteq> []) (emit_data m)\<rparr>"

lemma load_emitted:
  assumes "module_fits fe m"
  shows "\<exists>bin. emit_module fe m = Ok bin \<and> load bin = Ok (loaded fe m)"
proof -
  have "\<forall>(i, d) \<in> set (module_secs fe m). length d < 2 ^ 32"
    using assms by (simp add: module_fits_def list_all_iff)
  note load_concat [OF this]
  moreover have "fold (\<lambda>(i, d). set_section i d) (module_secs fe m) empty_module = loaded fe m"
    by (simp add: module_secs_def loaded_def present_def set_section_def empty_module_def)
  ultimately show ?thesis using emit_module_secs [OF assms] by simp
qed

section \<open>Each section read back\<close>

lemma placed_self: "placed (xs @ ys) (length xs) ys"
  by (simp add: placed_def)

lemma read_count: "length xs < 2 ^ 32 \<Longrightarrow> read_u32_leb128 (emit_count xs @ rest) = Some (word_of_nat (length xs), length (emit_count xs))"
  by (simp add: emit_count_def)

lemma placed_count:
  "placed bs cur (emit_count xs @ rest) \<Longrightarrow> read_u32_at bs cur e = Ok (word_of_nat (length xs), length (emit_count xs))
     \<and> placed bs (cur + length (emit_count xs)) rest"
  by (simp add: emit_count_def placed_append placed_leb)

definition type_entry :: "func_type \<Rightarrow> bytes" where
  "type_entry ft = 0x60 # emit_count (ft_params ft) @ map val_type_byte (ft_params ft)
       @ emit_count (ft_results ft) @ map val_type_byte (ft_results ft)"

definition store_list :: "nat \<Rightarrow> 'a list \<Rightarrow> 'a arr \<Rightarrow> 'a arr" where
  "store_list i xs a = (\<lambda>j. if i \<le> j \<and> j < i + length xs then xs ! (j - i) else a j)"

lemma store_list_Cons: "store_list (Suc i) xs (a(i := x)) = store_list i (x # xs) a"
  by (rule ext) (auto simp: store_list_def nth_Cons' Suc_diff_le)

lemma store_list_Nil [simp]: "store_list i [] a = a"
  by (rule ext) (auto simp: store_list_def)

lemma type_loop_placed:
  assumes "placed bs cur (concat (map type_entry fts))" and "list_all (\<lambda>ft. length (ft_params ft) < 2 ^ 32 \<and> length (ft_results ft) < 2 ^ 32) fts"
  shows "type_loop bs (length fts) i cur p r
    = Ok (store_list i (map (\<lambda>ft. length (ft_params ft)) fts) p, store_list i (map (\<lambda>ft. length (ft_results ft)) fts) r)"
  using assms
proof (induction fts arbitrary: i cur p r)
  case (Cons ft fts)
  let ?p = "ft_params ft" and ?r = "ft_results ft"
  have here: "placed bs cur (type_entry ft)" and rest: "placed bs (cur + length (type_entry ft)) (concat (map type_entry fts))"
    using Cons.prems(1) by (simp_all add: placed_append)
  have a: "cur < length bs" and b: "placed bs (cur + 1) (emit_count ?p @ map val_type_byte ?p @ emit_count ?r @ map val_type_byte ?r)"
    using here by (simp_all add: type_entry_def placed_Cons)
  note c = placed_count [OF b, where e = MalformedCode]
  then have d: "placed bs (cur + 1 + length (emit_count ?p) + length ?p) (emit_count ?r @ map val_type_byte ?r)"
    by (simp add: placed_append)
  note e = placed_count [OF d, where e = MalformedCode]
  have l: "cur + 1 + length (emit_count ?p) + length ?p + length (emit_count ?r) + length ?r = cur + length (type_entry ft)"
    by (simp add: type_entry_def)
  have "type_loop bs (length fts) (Suc i) (cur + length (type_entry ft)) (p(i := length ?p)) (r(i := length ?r))
      = Ok (store_list i (map (\<lambda>ft. length (ft_params ft)) (ft # fts)) p, store_list i (map (\<lambda>ft. length (ft_results ft)) (ft # fts)) r)"
    using Cons.prems(2) by (simp only: Cons.IH [OF rest] list.map list.pred_inject store_list_Cons)
  then have ih: "type_loop bs (length fts) (Suc i) (Suc (cur + length (emit_count ?p) + length ?p + length (emit_count ?r) + length ?r))
        (p(i := length ?p)) (r(i := length ?r))
      = Ok (store_list i (map (\<lambda>ft. length (ft_params ft)) (ft # fts)) p, store_list i (map (\<lambda>ft. length (ft_results ft)) (ft # fts)) r)"
    using l by (simp only: add_Suc add_Suc_right One_nat_def add_0_right)
  show ?case
    using a c e Cons.prems(2) by (simp add: Let_def ih [simplified list.map] del: fun_upd_apply)
qed simp

lemma types_read_back:
  assumes "length (m_types m) \<le> MAX_TYPES" and "list_all (\<lambda>ft. length (ft_params ft) < 2 ^ 32 \<and> length (ft_results ft) < 2 ^ 32) (m_types m)"
  shows "parse_type_section (emit_types m) p r = Ok (length (m_types m), store_list 0 (map (\<lambda>ft. length (ft_params ft)) (m_types m)) p,
     store_list 0 (map (\<lambda>ft. length (ft_results ft)) (m_types m)) r)"
proof -
  have e: "emit_types m = emit_count (m_types m) @ concat (map type_entry (m_types m))"
    by (simp add: emit_types_def type_entry_def [abs_def])
  have n: "length (m_types m) < 2 ^ 32" using assms(1) by (simp add: MAX_TYPES_def)
  have "type_loop (emit_types m) (length (m_types m)) 0 (length (emit_count (m_types m))) p r
      = Ok (store_list 0 (map (\<lambda>ft. length (ft_params ft)) (m_types m)) p, store_list 0 (map (\<lambda>ft. length (ft_results ft)) (m_types m)) r)"
    unfolding e by (rule type_loop_placed [OF placed_self assms(2)])
  then show ?thesis
    using assms(1) n read_count [OF n, of "concat (map type_entry (m_types m))"]
    by (simp add: parse_type_section_def flip: e)
qed

lemma functions_read_back:
  assumes "length (m_funcs m) \<le> MAX_FUNCS"
  shows "parse_function_section (emit_functions m) out = Ok (store_list 0 (map (\<lambda>f. unat (fd_type f)) (m_funcs m)) out)"
proof -
  have loop: "function_loop bs (length fs) i cur out = Ok (store_list i (map (\<lambda>f. unat (fd_type f)) fs) out)"
    if "placed bs cur (concat (map (\<lambda>f. write_leb128_u32 (fd_type f)) fs))" for bs i cur out and fs :: "func_def list"
    using that
  proof (induction fs arbitrary: i cur out)
    case (Cons f fs)
    have here: "placed bs cur (write_leb128_u32 (fd_type f))"
      and rest: "placed bs (cur + length (write_leb128_u32 (fd_type f))) (concat (map (\<lambda>f. write_leb128_u32 (fd_type f)) fs))"
      using Cons.prems by (simp_all add: placed_append)
    show ?case by (simp add: placed_leb [OF here] Cons.IH [OF rest] store_list_Cons store_list_Cons [unfolded fun_upd_def])
  qed simp
  have n: "length (m_funcs m) < 2 ^ 32" using assms by (simp add: MAX_FUNCS_def)
  have "function_loop (emit_functions m) (length (m_funcs m)) 0 (length (emit_count (m_funcs m))) out
      = Ok (store_list 0 (map (\<lambda>f. unat (fd_type f)) (m_funcs m)) out)"
    by (rule loop) (simp add: emit_functions_def placed_self)
  then show ?thesis
    using assms n by (simp add: parse_function_section_def emit_functions_def read_count [OF n])
qed

text \<open>The code section: one entry.\<close>

definition group_bytes :: "u32 \<times> val_type \<Rightarrow> bytes" where
  "group_bytes = (\<lambda>(n, ty). write_leb128_u32 n @ [val_type_byte ty])"

lemma locals_loop_groups:
  "placed entry lc (concat (map group_bytes gs)) \<Longrightarrow>
     locals_loop entry (length gs) lc tot = Ok (lc + length (concat (map group_bytes gs)), tot + sum_list (map (unat \<circ> fst) gs))"
proof (induction gs arbitrary: lc tot)
  case (Cons g gs)
  obtain n ty where g: "g = (n, ty)" by (cases g)
  have here: "placed entry lc (write_leb128_u32 n)"
    and rest: "placed entry (lc + length (write_leb128_u32 n) + 1) (concat (map group_bytes gs))"
    using Cons.prems by (simp_all add: g group_bytes_def placed_append placed_Cons)
  show ?case
    using Cons.IH [OF rest, of "tot + unat n"] by (simp add: g placed_leb [OF here] group_bytes_def)
qed simp

lemma length_le_concat: "(\<And>x. x \<in> set xs \<Longrightarrow> 0 < length (f x)) \<Longrightarrow> length xs \<le> length (concat (map f xs))"
proof (induction xs)
  case (Cons x xs)
  then have "0 < length (f x)" "length xs \<le> length (concat (map f xs))" by simp_all
  then show ?case by (simp only: list.map concat.simps length_append list.size)
qed simp

lemma code_step:
  assumes "placed bs cur (func_bytes fe f)" and "length (fd_locals f) < 2 ^ 32" and "length (func_bytes fe f) < 2 ^ 32"
  shows "code_loop bs (Suc k) i cur b l = code_loop bs k (Suc i) (cur + length (func_bytes fe f))
    (b(i := emit_body fe (fd_body f))) (l(i := length (fd_locals f)))"
proof -
  obtain gs where gs: "sum_list (map (unat \<circ> fst) gs) = length (fd_locals f)"
      "func_bytes fe f = write_bytes (emit_count gs @ concat (map group_bytes gs) @ emit_body fe (fd_body f))"
    using emit_func_ok [OF assms(2), of fe] unfolding group_bytes_def by metis
  define p where "p = emit_count gs @ concat (map group_bytes gs) @ emit_body fe (fd_body f)"
  let ?n = "length (write_leb128_u32 (word_of_nat (length p)))"
  have fb: "func_bytes fe f = write_leb128_u32 (word_of_nat (length p)) @ p"
    using gs(2) by (simp add: p_def write_bytes_def)
  have here: "placed bs cur (write_leb128_u32 (word_of_nat (length p)))" and body: "placed bs (cur + ?n) p"
    using assms(1) by (simp_all add: fb placed_append)
  have plen: "length p < 2 ^ 32" using assms(3) by (simp add: fb)
  have "length gs \<le> length (concat (map group_bytes gs))"
    by (rule length_le_concat) (auto simp: group_bytes_def)
  then have glen: "length gs < 2 ^ 32" using plen by (simp add: p_def)
  have count: "read_u32_leb128 p = Some (word_of_nat (length gs), length (emit_count gs))"
    unfolding p_def by (rule read_count [OF glen])
  have "placed p (length (emit_count gs)) (concat (map group_bytes gs) @ emit_body fe (fd_body f))"
    unfolding p_def by (rule placed_self)
  then have "placed p (length (emit_count gs)) (concat (map group_bytes gs))" by (simp add: placed_append)
  note loc = locals_loop_groups [OF this, of 0, unfolded gs(1)]
  let ?lc = "length (emit_count gs) + length (concat (map group_bytes gs))"
  have dr: "drop ?lc p = emit_body fe (fd_body f)" and le: "?lc \<le> length p" by (simp_all add: p_def)
  have sl: "slice bs (cur + ?n) (cur + ?n + length p) = (Ok p :: (interp_error, bytes) result)"
    and en: "cur + ?n + length p \<le> length bs"
    using body by (simp_all add: placed_def slice_def)
  have u: "unat (word_of_nat (length p) :: u32) = length p" "unat (word_of_nat (length gs) :: u32) = length gs"
    using plen glen by simp_all
  have l: "cur + length (func_bytes fe f) = cur + ?n + length p" by (simp add: fb)
  show ?thesis
    unfolding l using le en
    by (simp add: placed_leb [OF here] Let_def u sl count loc [simplified] dr [simplified] del: fun_upd_apply)
qed

lemma code_loop_placed:
  assumes "placed bs cur (concat (map (func_bytes fe) fs))"
    and "list_all (\<lambda>f. length (fd_locals f) < 2 ^ 32 \<and> length (func_bytes fe f) < 2 ^ 32) fs"
  shows "code_loop bs (length fs) i cur b l
    = Ok (store_list i (map (\<lambda>f. emit_body fe (fd_body f)) fs) b, store_list i (map (\<lambda>f. length (fd_locals f)) fs) l)"
  using assms
proof (induction fs arbitrary: i cur b l)
  case (Cons f fs)
  have here: "placed bs cur (func_bytes fe f)"
    and rest: "placed bs (cur + length (func_bytes fe f)) (concat (map (func_bytes fe) fs))"
    using Cons.prems(1) by (simp_all add: placed_append)
  have lim: "length (fd_locals f) < 2 ^ 32" "length (func_bytes fe f) < 2 ^ 32"
    "list_all (\<lambda>f. length (fd_locals f) < 2 ^ 32 \<and> length (func_bytes fe f) < 2 ^ 32) fs"
    using Cons.prems(2) by simp_all
  show ?case
    by (simp only: length_Cons code_step [OF here lim(1,2)] Cons.IH [OF rest lim(3)] store_list_Cons list.map)
qed simp

lemma length_in_concat: "x \<in> set xs \<Longrightarrow> length (f x) \<le> length (concat (map f xs))"
  by (induction xs) auto

lemma code_read_back:
  assumes "list_all (\<lambda>f. length (fd_locals f) < 2 ^ 32) (m_funcs m)" and "length (code_bytes fe m) < 2 ^ 32"
    and "length (m_funcs m) \<le> MAX_FUNCS"
  shows "parse_code_section (code_bytes fe m) b l = Ok (length (m_funcs m),
     store_list 0 (map (\<lambda>f. emit_body fe (fd_body f)) (m_funcs m)) b, store_list 0 (map (\<lambda>f. length (fd_locals f)) (m_funcs m)) l)"
proof -
  have "length (func_bytes fe f) < 2 ^ 32" if "f \<in> set (m_funcs m)" for f
    using length_in_concat [OF that, of "func_bytes fe"] assms(2) by (simp add: code_bytes_def)
  then have "list_all (\<lambda>f. length (fd_locals f) < 2 ^ 32 \<and> length (func_bytes fe f) < 2 ^ 32) (m_funcs m)"
    using assms(1) by (simp add: list_all_iff)
  note loop = code_loop_placed [OF placed_self this, of "emit_count (m_funcs m)" 0 b l, folded code_bytes_def]
  have "placed (code_bytes fe m) 0 (emit_count (m_funcs m) @ concat (map (func_bytes fe) (m_funcs m)))"
    by (simp add: code_bytes_def placed_def)
  note count = placed_count [OF this, where e = MalformedCode]
  have u: "unat (word_of_nat (length (m_funcs m)) :: u32) = length (m_funcs m)"
    using assms(3) by (simp add: MAX_FUNCS_def)
  show ?thesis using assms(3) count loop by (simp add: parse_code_section_def u)
qed

definition as_import :: "import_def \<Rightarrow> import" where
  "as_import i = (id_module i, id_name i, FuncImport (id_type i))"

lemma imports_encoded: "emit_imports m = encode_imports (map as_import (m_imports m))"
  by (simp add: emit_imports_def encode_imports_def emit_count_def import_bytes_def as_import_def name_bytes_def write_bytes_def
      comp_def)

lemma func_imports_as_import: "func_imports (map as_import is) = map (\<lambda>i. (id_module i, id_name i, id_type i)) is"
  by (induction "is") (simp_all add: as_import_def)

definition as_export :: "export_def \<Rightarrow> bytes \<times> u8 \<times> u32" where
  "as_export e = (ed_name e, ed_kind e, ed_index e)"

lemma exports_read_back:
  assumes "list_all (\<lambda>e. length (ed_name e) < 2 ^ 32 \<and> utf8_valid (ed_name e)) (m_exports m)" and "length (m_exports m) < 2 ^ 32"
    and "export_section md = present (m_exports m \<noteq> []) (emit_exports m)"
  shows "find_export md name = (case find (\<lambda>e. ed_kind e = 0 \<and> ed_name e = name) (m_exports m) of None \<Rightarrow> Err () | Some e \<Rightarrow> Ok (ed_index e))"
proof (cases "m_exports m = []")
  case True
  then show ?thesis using assms(3) by (simp add: find_export_def present_def)
next
  case False
  let ?es = "map as_export (m_exports m)"
  have sec: "export_section md = Some (emit_count (m_exports m) @ concat (map export_bytes ?es))"
    using assms(3) False by (simp add: present_def emit_exports_def export_bytes_def as_export_def write_bytes_def comp_def)
  have "\<forall>(nm, kind, idx) \<in> set ?es. length nm < 2 ^ 32 \<and> utf8_valid nm"
    using assms(1) by (auto simp: as_export_def list_all_iff)
  note loop = find_export_concat [OF this, of "emit_count (m_exports m)" "[]" name]
  have count: "read_u32_at (emit_count (m_exports m) @ concat (map export_bytes ?es)) 0 ()
      = Ok (word_of_nat (length (m_exports m)), length (emit_count (m_exports m)))"
    using read_u32_at_written [of "[]" "word_of_nat (length (m_exports m))"] by (simp add: emit_count_def)
  have fnd: "find (\<lambda>(nm, kind, idx). kind = 0 \<and> nm = name) (map as_export xs)
      = map_option as_export (find (\<lambda>e. ed_kind e = 0 \<and> ed_name e = name) xs)" for xs
    by (induction xs) (simp_all add: as_export_def)
  have "find (\<lambda>(nm, kind, idx). kind = 0 \<and> nm = name) ?es = map_option as_export (find (\<lambda>e. ed_kind e = 0 \<and> ed_name e = name) (m_exports m))"
    by (rule fnd)
  then show ?thesis
    using assms(2) loop by (simp add: find_export_def sec count del: map_map) (simp add: as_export_def split: option.split)
qed

lemma memory_read_back:
  assumes "length (m_memories m) < 2 ^ 32" and "m_memories m \<noteq> []"
  shows "read_memory_min_pages (emit_memories m) = Ok (md_min (hd (m_memories m)))"
proof -
  obtain mem ms where ms: "m_memories m = mem # ms" using assms(2) by (cases "m_memories m") auto
  obtain flag post where e: "emit_memories m = emit_count (m_memories m) @ flag # write_leb128_u32 (md_min mem) @ post"
    by (cases "md_max mem") (auto simp: emit_memories_def ms)
  have nz: "(word_of_nat (length (m_memories m)) :: u32) \<noteq> 0"
  proof
    assume "(word_of_nat (length (m_memories m)) :: u32) = 0"
    then have "unat (word_of_nat (length (m_memories m)) :: u32) = 0" by simp
    then show False using assms by simp
  qed
  have "slice_from (emit_memories m) (length (emit_count (m_memories m)) + 1) = (Ok (write_leb128_u32 (md_min mem) @ post) :: ('e, bytes) result)"
    using slice_from_append [of "emit_count (m_memories m) @ [flag]" "write_leb128_u32 (md_min mem) @ post"] by (simp add: e)
  then show ?thesis
    using nz read_count [OF assms(1), of "flag # write_leb128_u32 (md_min mem) @ post", folded e]
    by (simp add: read_memory_min_pages_def ms e)
qed

text \<open>Data segments are written where their offsets say.\<close>

lemma placed_leb_i32: "placed bs cur (write_leb128_i32 v) \<Longrightarrow> read_i32_at bs cur e = Ok (v, length (write_leb128_i32 v))"
proof -
  let ?w = "write_leb128_i32 v"
  assume p: "placed bs cur ?w"
  then have "drop cur bs = ?w @ drop (cur + length ?w) bs"
    by (metis placed_def append_take_drop_id drop_drop add.commute)
  with p show ?thesis by (simp add: read_i32_at_def placed_def)
qed

lemma placed_Nil: "placed bs cur [] \<longleftrightarrow> cur \<le> length bs"
  by (simp add: placed_def)

definition seg_bytes :: "data_seg \<Rightarrow> bytes" where
  "seg_bytes seg = [0x00, 0x41] @ write_leb128_i32 (ds_offset seg) @ [0x0B] @ write_bytes (ds_bytes seg)"

definition seg_start :: "data_seg \<Rightarrow> nat" where
  "seg_start seg = unat (of_i32 (ds_offset seg))"

definition write_seg :: "data_seg \<Rightarrow> u8 arr \<Rightarrow> u8 arr" where
  "write_seg seg m = mem_write m (seg_start seg) (ds_bytes seg)"

definition seg_fits :: "nat \<Rightarrow> data_seg \<Rightarrow> bool" where
  "seg_fits mlen seg \<longleftrightarrow> seg_start seg + length (ds_bytes seg) \<le> mlen"

lemma segment_read_back:
  assumes "placed sec cur (seg_bytes seg)" and "seg_fits mlen seg" and "mlen < 2 ^ 32"
  shows "init_segment sec mlen cur m = (Ok (cur + length (seg_bytes seg)), write_seg seg m)"
proof -
  define wo where "wo = write_leb128_i32 (ds_offset seg)"
  define wl where "wl = write_leb128_u32 (word_of_nat (length (ds_bytes seg)))"
  define c where "c = cur + 2 + length wo"
  have len: "length (ds_bytes seg) < 2 ^ 32" using assms(2,3) by (simp add: seg_fits_def)
  have z: "write_leb128_u32 0 = [0]" by (subst write_leb128_u32.simps) simp
  have sb: "seg_bytes seg = write_leb128_u32 0 @ 0x41 # wo @ 0x0B # wl @ ds_bytes seg"
    by (simp add: seg_bytes_def write_bytes_def wo_def wl_def z)
  have p: "placed sec cur (write_leb128_u32 0)" "cur + 1 < length sec" "sec ! (cur + 1) = 0x41"
      "placed sec (cur + 2) wo" "c < length sec" "sec ! c = 0x0B" "placed sec (c + 1) wl"
      "placed sec (c + 1 + length wl) (ds_bytes seg)"
    using assms(1) unfolding sb by (simp_all add: placed_append placed_Cons placed_Nil z c_def add.assoc)
  have r0: "read_u32_at sec cur () = Ok (0, 1)" using placed_leb [OF p(1), of "()"] by (simp add: z)
  have r1: "read_i32_at sec (cur + 2) () = Ok (ds_offset seg, length wo)"
    using placed_leb_i32 p(4) by (simp add: wo_def)
  have r2: "read_u32_at sec (c + 1) () = Ok (word_of_nat (length (ds_bytes seg)), length wl)"
    using placed_leb p(7) by (simp add: wl_def)
  have body: "take (length (ds_bytes seg)) (drop (c + 1 + length wl) sec) = ds_bytes seg"
    and "end": "c + 1 + length wl + length (ds_bytes seg) \<le> length sec"
    using p(8) by (simp_all add: placed_def)
  have u: "unat (word_of_nat (length (ds_bytes seg)) :: u32) = length (ds_bytes seg)" using len by simp
  have dst: "min (saturating_add_usize (seg_start seg) (length (ds_bytes seg))) mlen = seg_start seg + length (ds_bytes seg)"
    using assms(2,3) by (simp add: seg_fits_def saturating_add_usize_def)
  have l: "cur + length (seg_bytes seg) = c + 1 + length wl + length (ds_bytes seg)"
    by (simp add: sb z c_def)
  have r1': "read_i32_at sec (cur + 1 + 1) () = Ok (ds_offset seg, length wo)" using r1 by simp
  have c': "cur + 1 + 1 + length wo = c" by (simp add: c_def)
  have n: "\<not> length sec \<le> cur + 1" "\<not> length sec \<le> c" "\<not> length sec < c + 1 + length wl + length (ds_bytes seg)"
      "\<not> seg_start seg + length (ds_bytes seg) < seg_start seg"
    using p(2,5) "end" by simp_all
  show ?thesis
    unfolding l init_segment_def sm_defs r0
    by (simp only: result.case prod.case Let_def r1' c' r2 u n p(3,6) dst seg_start_def [symmetric]
        simp_thms if_False if_True add_diff_cancel_left' body write_seg_def)
qed

lemma data_read_back:
  assumes "list_all (seg_fits mlen) (m_data m)" and "mlen < 2 ^ 32" and "length (m_data m) < 2 ^ 32"
  shows "init_memory (emit_data m) mlen a = (Ok (), fold write_seg (m_data m) a)"
proof -
  have loop: "init_loop sec mlen (length segs) cur a = (Ok (), fold write_seg segs a)"
    if "placed sec cur (concat (map seg_bytes segs))" and "list_all (seg_fits mlen) segs" for sec cur segs a
    using that
  proof (induction segs arbitrary: cur a)
    case (Cons seg segs)
    have here: "placed sec cur (seg_bytes seg)" and rest: "placed sec (cur + length (seg_bytes seg)) (concat (map seg_bytes segs))"
      using Cons.prems(1) by (simp_all add: placed_append)
    show ?case
      using Cons.prems(2) Cons.IH [OF rest]
      by (simp add: sbind_def segment_read_back [OF here _ assms(2)])
  qed (simp add: ret_def)
  have e: "emit_data m = emit_count (m_data m) @ concat (map seg_bytes (m_data m))"
    by (simp add: emit_data_def seg_bytes_def [abs_def])
  have u: "unat (word_of_nat (length (m_data m)) :: u32) = length (m_data m)" using assms(3) by simp
  have "init_loop (emit_data m) mlen (length (m_data m)) (length (emit_count (m_data m))) a = (Ok (), fold write_seg (m_data m) a)"
    by (rule loop [OF _ assms(1)]) (simp add: e placed_self)
  then show ?thesis
    by (simp add: init_memory_def read_count [OF assms(3), of "concat (map seg_bytes (m_data m))", folded e] sm_defs u)
qed

section \<open>The assembled module runs\<close>

text \<open>The limits of the interpreter and of the encoding.\<close>

definition module_ok :: "float_env \<Rightarrow> wat_module \<Rightarrow> bool" where
  "module_ok fe m \<longleftrightarrow> module_fits fe m \<and> m_funcs m \<noteq> []
     \<and> length (m_types m) \<le> MAX_TYPES \<and> length (m_imports m) + length (m_funcs m) \<le> MAX_FUNCS
     \<and> length (m_memories m) < 2 ^ 32 \<and> length (m_exports m) < 2 ^ 32 \<and> length (m_data m) < 2 ^ 32
     \<and> list_all (\<lambda>ft. length (ft_params ft) < 2 ^ 32 \<and> length (ft_results ft) < 2 ^ 32) (m_types m)
     \<and> list_all (\<lambda>i. import_ok (as_import i)) (m_imports m)
     \<and> list_all (\<lambda>e. length (ed_name e) < 2 ^ 32 \<and> utf8_valid (ed_name e)) (m_exports m)
     \<and> list_all (seg_fits SLOT_BYTES) (m_data m)"

lemma fill_func_types_apply:
  "fill_func_types k n fti aft j = (if k \<le> j \<and> j < k + n \<and> j < MAX_FUNCS then fti (j - k) else aft j)"
  by (induction n) (auto simp: fill_func_types_def)

text \<open>What the emitter promises: an interpreter built from the binary holds the module it was given.\<close>

definition runs_module :: "float_env \<Rightarrow> wat_module \<Rightarrow> 'k interp \<Rightarrow> bool" where
  "runs_module fe m s \<longleftrightarrow>
     type_count s = length (m_types m) \<and> body_count s = length (m_funcs m) \<and> import_count s = length (m_imports m)
   \<and> global_count s = 0 \<and> table_size s = 0
   \<and> (\<forall>i < length (m_types m). type_param_counts s i = length (ft_params (m_types m ! i))
        \<and> type_result_counts s i = length (ft_results (m_types m ! i)))
   \<and> (\<forall>i < length (m_imports m). all_func_types s i = unat (id_type (m_imports m ! i)))
   \<and> (\<forall>i < length (m_funcs m). bodies s i = emit_body fe (fd_body (m_funcs m ! i))
        \<and> local_counts s i = length (fd_locals (m_funcs m ! i))
        \<and> all_func_types s (length (m_imports m) + i) = unat (fd_type (m_funcs m ! i)))"

lemma interp_of_module:
  assumes "module_ok fe m"
  shows "\<exists>s. interp_new (loaded fe m) (length (m_imports m)) memory mlen hosts pages w = Ok s \<and> runs_module fe m s"
proof -
  note ok = assms [unfolded module_ok_def module_fits_def]
  have ty: "opt_section (type_section (loaded fe m)) (\<lambda>tb. parse_type_section tb (\<lambda>_. 0) (\<lambda>_. 0)) (0, \<lambda>_. 0, \<lambda>_. 0)
      = Ok (length (m_types m), store_list 0 (map (\<lambda>ft. length (ft_params ft)) (m_types m)) (\<lambda>_. 0),
          store_list 0 (map (\<lambda>ft. length (ft_results ft)) (m_types m)) (\<lambda>_. 0))"
    using types_read_back [of m] ok by (simp add: loaded_def present_def)
  have fn: "opt_section (function_section (loaded fe m)) (\<lambda>fb. parse_function_section fb (\<lambda>_. 0)) (\<lambda>_. 0)
      = Ok (store_list 0 (map (\<lambda>f. unat (fd_type f)) (m_funcs m)) (\<lambda>_. 0))"
    using functions_read_back [of m] ok by (simp add: loaded_def present_def)
  have "(10, code_bytes fe m) \<in> set (module_secs fe m)" using ok by (simp add: module_secs_def)
  then have "length (code_bytes fe m) < 2 ^ 32" using ok by (auto simp: list_all_iff)
  then have co: "parse_code_section (code_bytes fe m) (\<lambda>_. []) (\<lambda>_. 0) = Ok (length (m_funcs m),
      store_list 0 (map (\<lambda>f. emit_body fe (fd_body f)) (m_funcs m)) (\<lambda>_. []), store_list 0 (map (\<lambda>f. length (fd_locals f)) (m_funcs m)) (\<lambda>_. 0))"
    using ok by (intro code_read_back) auto
  have cs: "code_section (loaded fe m) = Some (code_bytes fe m)" "global_section (loaded fe m) = None" "element_section (loaded fe m) = None"
    using ok by (simp_all add: loaded_def present_def)
  let ?tys = "map id_type (m_imports m)"
  have im: "opt_section (import_section (loaded fe m)) (\<lambda>ib. rbind (parse_import_func_types ib (\<lambda>_. 0)) (\<lambda>(_, out). Ok out)) (\<lambda>_. 0)
      = Ok (set_types 0 ?tys (\<lambda>_. 0))"
  proof (cases "m_imports m = []")
    case True
    then show ?thesis by (auto simp: loaded_def present_def set_types_def)
  next
    case False
    have "\<forall>i \<in> set (map as_import (m_imports m)). import_ok i" and "length (map as_import (m_imports m)) < 2 ^ 32"
      using ok by (auto simp: list_all_iff MAX_FUNCS_def)
    from import_parsers_section(3) [OF this] False show ?thesis
      by (simp add: loaded_def present_def imports_encoded func_imports_as_import comp_def)
  qed
  show ?thesis
    using ok by (auto simp: interp_new_def ty fn cs co im runs_module_def store_list_def set_types_def fill_func_types_apply)
qed


definition demo_module :: wat_module where
  "demo_module = \<lparr>m_types = [\<lparr>ft_params = [TI32, TI32], ft_results = [TI32]\<rparr>], m_imports = [],
     m_funcs = [\<lparr>fd_type = 0, fd_locals = [TI32, TI32, TI64], fd_body = [LocalGet 0, LocalGet 1, OpI32 I32Add]\<rparr>],
     m_memories = [\<lparr>md_min = 1, md_max = None\<rparr>], m_exports = [\<lparr>ed_name = str_bytes ''add'', ed_kind = 0, ed_index = 0\<rparr>],
     m_data = [\<lparr>ds_mem = 0, ds_offset = 16, ds_bytes = [1, 2]\<rparr>]\<rparr>"

lemma demo_module_ok: "module_ok fe demo_module"
proof -
  have w: "write_leb128_u32 0 = [0]" "write_leb128_u32 1 = [1]" "write_leb128_u32 2 = [2]" "write_leb128_u32 3 = [3]" "write_leb128_u32 11 = [11]"
    by (subst write_leb128_u32.simps, simp)+
  have w': "write_leb128_i32 16 = [16]" by (subst write_leb128_i32.simps, simp)
  have "list_all (\<lambda>(i, d). length d < 2 ^ 32) (module_secs fe demo_module)"
    by (simp add: demo_module_def module_secs_def emit_types_def emit_functions_def emit_memories_def emit_exports_def emit_data_count_def
        emit_data_def code_bytes_def func_bytes_def emit_func_def compress_locals_def emit_body_def write_bytes_def emit_count_def w w' str_bytes_def)
  then show ?thesis
    by (simp add: module_ok_def module_fits_def) (simp add: demo_module_def MAX_TYPES_def MAX_FUNCS_def str_bytes_def utf8_valid.simps
        seg_fits_def seg_start_def of_i32_def SLOT_BYTES_def MAX_MEM_PAGES_def PAGE_SIZE_def)
qed


end
