(* ===== verification/Wat_Lexer.thy ===== *)
theory Wat_Lexer
  imports Wasm_Emitter Shell_Words
begin

text \<open>
  The tokenizer of the assembler (\<open>kernel/src/shell/commands/asm.rs\<close>). It walks over the bytes of the source and treats each
  byte as a Latin-1 character; the text of a token is a slice of the source, which panics when an end of it
  is inside a character. The position only moves forward, so the state is the rest of the source.
\<close>

section \<open>Tokens\<close>

datatype token = LParen | RParen | Keyword bytes | Identifier bytes | IntLit i32 | FloatLit u32 | StringLiteral bytes

text \<open>\<open>char::is_whitespace\<close> and \<open>char::is_alphanumeric\<close> on the characters up to 255.\<close>

definition is_whitespace :: "u8 \<Rightarrow> bool" where
  "is_whitespace b \<longleftrightarrow> (9 \<le> b \<and> b \<le> 13) \<or> b = 0x20 \<or> b = 0x85 \<or> b = 0xA0"

definition is_alphanumeric :: "u8 \<Rightarrow> bool" where
  "is_alphanumeric b \<longleftrightarrow> is_dec b \<or> (0x41 \<le> b \<and> b \<le> 0x5A) \<or> (0x61 \<le> b \<and> b \<le> 0x7A)
     \<or> b \<in> {0xAA, 0xB2, 0xB3, 0xB5, 0xB9, 0xBA, 0xBC, 0xBD, 0xBE} \<or> (0xC0 \<le> b \<and> b \<noteq> 0xD7 \<and> b \<noteq> 0xF7)"

text \<open>The slice of the source between two positions, each given by what follows it.\<close>

definition boundary :: "bytes \<Rightarrow> bool" where
  "boundary r \<longleftrightarrow> (case r of [] \<Rightarrow> True | b # _ \<Rightarrow> \<not> utf8_cont b)"

definition str_slice :: "bytes \<Rightarrow> bytes \<Rightarrow> (unit, bytes) result" where
  "str_slice from_here to_here =
     (if boundary from_here \<and> boundary to_here then Ok (take (length from_here - length to_here) from_here) else Panic)"

section \<open>Numbers\<close>

text \<open>
  The loop of \<open>parse_i32\<close>: characters that are no digits are skipped, and the accumulation panics on overflow.
\<close>

fun wat_digits :: "int \<Rightarrow> bytes \<Rightarrow> (unit, int) result" where
  "wat_digits res [] = Ok res"
| "wat_digits res (c # cs) =
     (if is_dec c then
        (if res * 10 + uint (c - 0x30) \<ge> 2 ^ 31 then Panic else wat_digits (res * 10 + uint (c - 0x30)) cs)
      else wat_digits res cs)"

definition wat_parse_i32 :: "bytes \<Rightarrow> (unit, i32) result" where
  "wat_parse_i32 s =
     (case s of
        c # cs \<Rightarrow> if c = 0x2D then rbind (wat_digits 0 cs) (\<lambda>n. Ok (word_of_int (- n)))
                 else rbind (wat_digits 0 s) (\<lambda>n. Ok (word_of_int n))
      | [] \<Rightarrow> Ok 0)"

definition f32_add :: "float_env \<Rightarrow> int \<Rightarrow> int \<Rightarrow> int" where
  "f32_add fe a b = f_add F32 (nan32 fe a b) a b"

definition f32_mul :: "float_env \<Rightarrow> int \<Rightarrow> int \<Rightarrow> int" where
  "f32_mul fe a b = f_mul F32 (nan32 fe a b) a b"

definition f32_div :: "float_env \<Rightarrow> int \<Rightarrow> int \<Rightarrow> int" where
  "f32_div fe a b = f_div F32 (nan32 fe a b) a b"

text \<open>The digits after the point, with the sum and the divisor so far; \<open>c as u8 - b'0'\<close> can underflow.\<close>

fun frac_loop :: "float_env \<Rightarrow> int \<Rightarrow> int \<Rightarrow> bytes \<Rightarrow> (unit, int) result" where
  "frac_loop fe f dv [] = Ok f"
| "frac_loop fe f dv (c # cs) =
     (if c < 0x30 then Panic
      else frac_loop fe (f32_add fe f (f32_div fe (int_to_float F32 (uint (c - 0x30))) dv))
             (f32_mul fe dv (int_to_float F32 10)) cs)"

definition parse_f32 :: "float_env \<Rightarrow> bytes \<Rightarrow> (unit, u32) result" where
  "parse_f32 fe s =
     (let t = trim_start_matches 0x2D s; after = dropWhile (\<lambda>c. c \<noteq> 0x2E) t in
      rbind (wat_parse_i32 (takeWhile (\<lambda>c. c \<noteq> 0x2E) t)) (\<lambda>i.
      rbind (case after of
               [] \<Rightarrow> Ok (int_to_float F32 0)
             | _ # frac \<Rightarrow> frac_loop fe (int_to_float F32 0) (int_to_float F32 10) (takeWhile (\<lambda>c. c \<noteq> 0x2E) frac)) (\<lambda>frac.
      let r = f32_add fe (int_to_float F32 (sint i)) frac in
      Ok (word_of_int (if starts_with s [0x2D] then f_neg F32 r else r)))))"

section \<open>The tokenizer\<close>

function skip_whitespace_and_comments :: "bytes \<Rightarrow> bytes" where
  "skip_whitespace_and_comments r =
     (case r of
        [] \<Rightarrow> []
      | c # cs \<Rightarrow>
          if is_whitespace c then skip_whitespace_and_comments cs
          else if c = 0x3B \<and> cs \<noteq> [] \<and> hd cs = 0x3B then
            skip_whitespace_and_comments (dropWhile (\<lambda>c. c \<noteq> 0x0A) (tl cs))
          else r)"
  by pat_completeness auto
termination
proof (relation "measure length")
  fix r c and cs :: bytes
  assume "r = c # cs"
  moreover have "length (dropWhile (\<lambda>c. c \<noteq> 0x0A) (tl cs)) \<le> length cs"
    by (rule le_trans [OF length_dropWhile_le]) simp
  ultimately show "(dropWhile (\<lambda>c. c \<noteq> 0x0A) (tl cs), r) \<in> measure length" by simp
qed auto

declare skip_whitespace_and_comments.simps [simp del]

lemma skip_simps [simp]:
  "skip_whitespace_and_comments [] = []"
  "skip_whitespace_and_comments (c # cs) =
     (if is_whitespace c then skip_whitespace_and_comments cs
      else if c = 0x3B \<and> cs \<noteq> [] \<and> hd cs = 0x3B then skip_whitespace_and_comments (dropWhile (\<lambda>c. c \<noteq> 0x0A) (tl cs))
      else c # cs)"
  by (subst skip_whitespace_and_comments.simps, simp)+

definition ident_char :: "u8 \<Rightarrow> bool" where
  "ident_char c \<longleftrightarrow> is_alphanumeric c \<or> c = 0x5F \<or> c = 0x2D \<or> c = 0x2E"

definition read_identifier :: "bytes \<Rightarrow> (unit, token \<times> bytes) result" where
  "read_identifier r =
     (let r' = dropWhile ident_char (tl r) in
      rbind (str_slice r r') (\<lambda>s. Ok (Identifier s, r')))"

definition read_string :: "bytes \<Rightarrow> (unit, token \<times> bytes) result" where
  "read_string r =
     (let r' = dropWhile (\<lambda>c. c \<noteq> 0x22) (tl r) in
      rbind (str_slice (tl r) r') (\<lambda>s. Ok (StringLiteral s, tl r')))"

definition num_char :: "u8 \<Rightarrow> bool" where
  "num_char c \<longleftrightarrow> c = 0x2E \<or> is_dec c"

definition read_number :: "float_env \<Rightarrow> bytes \<Rightarrow> (unit, token \<times> bytes) result" where
  "read_number fe r =
     (let r1 = (if hd r = 0x2D then tl r else r); r' = dropWhile num_char r1; is_float = (0x2E \<in> set (takeWhile num_char r1)) in
      rbind (str_slice r r') (\<lambda>s.
      if is_float then rbind (parse_f32 fe s) (\<lambda>f. Ok (FloatLit f, r'))
      else rbind (wat_parse_i32 s) (\<lambda>n. Ok (IntLit n, r'))))"

definition keyword_char :: "u8 \<Rightarrow> bool" where
  "keyword_char c \<longleftrightarrow> \<not> is_whitespace c \<and> c \<noteq> 0x28 \<and> c \<noteq> 0x29"

definition read_keyword :: "bytes \<Rightarrow> (unit, token \<times> bytes) result" where
  "read_keyword r =
     (let r' = dropWhile keyword_char r in
      rbind (str_slice r r') (\<lambda>s. Ok (Keyword s, r')))"

definition next_token :: "float_env \<Rightarrow> bytes \<Rightarrow> (unit, token option \<times> bytes) result" where
  "next_token fe src =
     (let r = skip_whitespace_and_comments src in
      case r of
        [] \<Rightarrow> Ok (None, [])
      | c # cs \<Rightarrow>
          if c = 0x28 then Ok (Some LParen, cs)
          else if c = 0x29 then Ok (Some RParen, cs)
          else rbind (if c = 0x24 then read_identifier r
                      else if c = 0x22 then read_string r
                      else if is_dec c \<or> c = 0x2D then read_number fe r
                      else read_keyword r) (\<lambda>(t, r'). Ok (Some t, r')))"

section \<open>String literals\<close>

definition is_ascii_hexdigit :: "u8 \<Rightarrow> bool" where
  "is_ascii_hexdigit b \<longleftrightarrow> is_dec b \<or> (0x61 \<le> b \<and> b \<le> 0x66) \<or> (0x41 \<le> b \<and> b \<le> 0x46)"

definition wat_hex_digit :: "u8 \<Rightarrow> u8" where
  "wat_hex_digit b =
     (if is_dec b then b - 0x30
      else if 0x61 \<le> b \<and> b \<le> 0x66 then b - 0x61 + 10
      else if 0x41 \<le> b \<and> b \<le> 0x46 then b - 0x41 + 10
      else 0)"

definition simple_escape :: "u8 \<Rightarrow> u8 option" where
  "simple_escape b =
     (if b = 0x6E then Some 0x0A else if b = 0x74 then Some 0x09 else if b = 0x72 then Some 0x0D
      else if b = 0x22 then Some 0x22 else if b = 0x5C then Some 0x5C else if b = 0x30 then Some 0 else None)"

fun unescape_wat_string :: "bytes \<Rightarrow> bytes" where
  "unescape_wat_string [] = []"
| "unescape_wat_string [b] = [b]"
| "unescape_wat_string (b # e # bs) =
     (if b = 0x5C then
        (case simple_escape e of
           Some v \<Rightarrow> v # unescape_wat_string bs
         | None \<Rightarrow>
             (case bs of
                h # hs \<Rightarrow>
                  if is_ascii_hexdigit e \<and> is_ascii_hexdigit h
                  then (push_bit 4 (wat_hex_digit e) OR wat_hex_digit h) # unescape_wat_string hs
                  else b # unescape_wat_string (e # bs)
              | [] \<Rightarrow> b # unescape_wat_string (e # bs)))
      else b # unescape_wat_string (e # bs))"

section \<open>The tokenizer makes progress\<close>

lemma skip_length: "length (skip_whitespace_and_comments r) \<le> length r"
proof (induction r rule: skip_whitespace_and_comments.induct)
  case (1 r)
  show ?case
  proof (cases r)
    case (Cons c cs)
    have "length (dropWhile (\<lambda>c. c \<noteq> 0x0A) (tl cs)) \<le> length cs" by (rule le_trans [OF length_dropWhile_le]) simp
    then show ?thesis using 1 Cons by (auto simp: le_Suc_eq)
  qed simp
qed

lemma skip_head: "skip_whitespace_and_comments r = c # cs \<Longrightarrow> \<not> is_whitespace c"
proof (induction r rule: skip_whitespace_and_comments.induct)
  case (1 r)
  then show ?case by (cases r) (auto split: if_splits)
qed

lemma next_token_Some: "next_token fe r = Ok (Some t, r') \<Longrightarrow> length r' < length r"
proof -
  assume a: "next_token fe r = Ok (Some t, r')"
  obtain c cs where s: "skip_whitespace_and_comments r = c # cs"
    using a by (cases "skip_whitespace_and_comments r") (auto simp: next_token_def)
  have "keyword_char c" if "c \<noteq> 0x28" "c \<noteq> 0x29" using skip_head [OF s] that by (simp add: keyword_char_def)
  then have "length r' \<le> length cs"
    using a length_dropWhile_le [of ident_char cs] length_dropWhile_le [of "\<lambda>c. c \<noteq> 0x22" cs]
      length_dropWhile_le [of num_char cs] length_dropWhile_le [of keyword_char cs]
    by (auto simp: next_token_def s res_simps read_identifier_def read_string_def read_number_def read_keyword_def
        Let_def num_char_def [of c] split: if_splits)
  then show ?thesis using skip_length [of r] s by simp
qed

lemma next_token_None: "next_token fe r = Ok (None, r') \<Longrightarrow> r' = []"
  by (auto simp: next_token_def Let_def res_simps split: list.splits if_splits)

lemma wat_digits_not_Hang: "wat_digits n s \<noteq> Hang" "wat_digits n s \<noteq> Err e"
  by (induction n s rule: wat_digits.induct) auto

lemma frac_loop_not_Hang: "frac_loop fe f d s \<noteq> Hang"
  by (induction fe f d s rule: frac_loop.induct) auto

lemma wat_parse_i32_not_Hang: "wat_parse_i32 s \<noteq> Hang" "wat_parse_i32 s \<noteq> Err e"
  by (auto simp: wat_parse_i32_def wat_digits_not_Hang res_simps rbind_eq_Err split: list.split)

lemma str_slice_not_Hang: "str_slice a b \<noteq> Hang"
  by (simp add: str_slice_def)

lemma frac_loop_not_Err: "frac_loop fe f d s \<noteq> Err e"
  by (induction fe f d s rule: frac_loop.induct) auto

lemma str_slice_not_Err: "str_slice a b \<noteq> Err e"
  by (simp add: str_slice_def)

lemma next_token_not_Err: "next_token fe r \<noteq> Err e"
  by (auto simp: next_token_def read_identifier_def read_string_def read_number_def read_keyword_def parse_f32_def Let_def
      rbind_eq_Err str_slice_not_Err wat_parse_i32_not_Hang frac_loop_not_Err split: list.split)

lemma next_token_not_Hang: "next_token fe r \<noteq> Hang"
  by (auto simp: next_token_def read_identifier_def read_string_def read_number_def read_keyword_def parse_f32_def Let_def
      res_simps str_slice_not_Hang wat_parse_i32_not_Hang frac_loop_not_Hang split: list.split)

end
