(* ===== verification/Wat_Parser.thy ===== *)
theory Wat_Parser
  imports Wat_Lexer
begin

text \<open>
  The parser of the assembler (\<open>kernel/src/shell/commands/asm.rs\<close>): recursive descent with one token of lookahead and one
  token that can be put back. A malformed source panics. The loops and the mutual recursion carry fuel;
  that the fuel is enough, and so that the parser always returns, is shown below.
\<close>

section \<open>State\<close>

record parser =
  tok_rest :: bytes
  lookahead :: "token option"
  unget :: "token option"
  func_names :: "(bytes \<times> u32) list"
  type_names :: "(bytes \<times> u32) list"
  local_names :: "(bytes \<times> u32) list"
  pmod :: wat_module

text \<open>The \<open>Module\<close> that the methods receive as \<open>&mut\<close> is the last field.\<close>

type_synonym 'a pm = "(parser, unit, 'a) sm"

definition hang :: "'a pm" where
  "hang = (\<lambda>s. (Hang, s))"

definition empty_wat :: wat_module where
  "empty_wat = \<lparr>m_types = [], m_imports = [], m_funcs = [], m_memories = [], m_exports = [], m_data = []\<rparr>"

definition parser_new :: "float_env \<Rightarrow> bytes \<Rightarrow> (unit, parser) result" where
  "parser_new fe src =
     rbind (next_token fe src) (\<lambda>(t, r).
     Ok \<lparr>tok_rest = r, lookahead = t, unget = None, func_names = [], type_names = [], local_names = [], pmod = empty_wat\<rparr>)"

section \<open>Tokens\<close>

definition bump :: "float_env \<Rightarrow> unit pm" where
  "bump fe = (\<lambda>s.
     case unget s of
       Some t \<Rightarrow> (Ok (), s\<lparr>unget := None, lookahead := Some t\<rparr>)
     | None \<Rightarrow>
         (case next_token fe (tok_rest s) of
            Ok (t, r) \<Rightarrow> (Ok (), s\<lparr>lookahead := t, tok_rest := r\<rparr>)
          | Err e \<Rightarrow> (Err e, s)
          | Panic \<Rightarrow> (Panic, s)
          | Hang \<Rightarrow> (Hang, s)))"

definition unget_lparen :: "unit pm" where
  "unget_lparen = modify (\<lambda>s. s\<lparr>unget := lookahead s, lookahead := Some LParen\<rparr>)"

definition kw :: "string \<Rightarrow> token option" where
  "kw w = Some (Keyword (str_bytes w))"

definition expect :: "float_env \<Rightarrow> token option \<Rightarrow> unit pm" where
  "expect fe t = sbind (gets lookahead) (\<lambda>l. if l = t then bump fe else panic)"

definition expect_lparen :: "float_env \<Rightarrow> unit pm" where
  "expect_lparen fe = expect fe (Some LParen)"

definition expect_rparen :: "float_env \<Rightarrow> unit pm" where
  "expect_rparen fe = expect fe (Some RParen)"

definition expect_keyword :: "float_env \<Rightarrow> string \<Rightarrow> unit pm" where
  "expect_keyword fe w = expect fe (kw w)"

text \<open>The patterns of the matches on the lookahead.\<close>

fun ident_of :: "token option \<Rightarrow> bytes option" where
  "ident_of (Some (Identifier ident)) = Some ident"
| "ident_of _ = None"

fun keyword_of :: "token option \<Rightarrow> bytes option" where
  "keyword_of (Some (Keyword k)) = Some k"
| "keyword_of _ = None"

fun int_of :: "token option \<Rightarrow> i32 option" where
  "int_of (Some (IntLit n)) = Some n"
| "int_of _ = None"

fun float_of :: "token option \<Rightarrow> u32 option" where
  "float_of (Some (FloatLit f)) = Some f"
| "float_of _ = None"

fun string_of :: "token option \<Rightarrow> bytes option" where
  "string_of (Some (StringLiteral s)) = Some s"
| "string_of _ = None"

definition try_identifier :: "float_env \<Rightarrow> bytes option pm" where
  "try_identifier fe = sbind (gets lookahead) (\<lambda>l.
     case ident_of l of Some ident \<Rightarrow> sthen (bump fe) (ret (Some ident)) | None \<Rightarrow> ret None)"

definition expect_string :: "float_env \<Rightarrow> bytes pm" where
  "expect_string fe = sbind (gets lookahead) (\<lambda>l.
     case string_of l of Some s \<Rightarrow> sthen (bump fe) (ret (unescape_wat_string s)) | None \<Rightarrow> panic)"

text \<open>\<open>match self.lookahead { Some(Token::Int(n)) => { self.bump(); n } _ => 0 }\<close>\<close>

definition int_or :: "float_env \<Rightarrow> i32 pm \<Rightarrow> i32 pm" where
  "int_or fe other = sbind (gets lookahead) (\<lambda>l.
     case int_of l of Some n \<Rightarrow> sthen (bump fe) (ret n) | None \<Rightarrow> other)"

text \<open>
  A depth beyond the range of \<open>i32\<close> would take a source of 2 GiB.
\<close>

primrec skip_list :: "float_env \<Rightarrow> nat \<Rightarrow> nat \<Rightarrow> unit pm" where
  "skip_list fe 0 depth = hang"
| "skip_list fe (Suc n) depth =
     (if depth = 0 then ret ()
      else sbind (gets lookahead) (\<lambda>l.
        case l of
          None \<Rightarrow> panic
        | Some t \<Rightarrow> sthen (bump fe)
            (skip_list fe n (if t = LParen then depth + 1 else if t = RParen then depth - 1 else depth))))"

definition skip_rest_of_list :: "float_env \<Rightarrow> nat \<Rightarrow> unit pm" where
  "skip_rest_of_list fe n = skip_list fe n 1"

section \<open>Types\<close>

definition val_type_from_kw :: "bytes \<Rightarrow> val_type option" where
  "val_type_from_kw k =
     (if k = str_bytes ''i32'' then Some TI32 else if k = str_bytes ''i64'' then Some TI64
      else if k = str_bytes ''f32'' then Some TF32 else if k = str_bytes ''f64'' then Some TF64 else None)"

definition val_type_of :: "token option \<Rightarrow> val_type option" where
  "val_type_of l = (case keyword_of l of Some k \<Rightarrow> val_type_from_kw k | None \<Rightarrow> None)"

text \<open>\<open>while let Some(Keyword(kw)) = self.lookahead { if let Some(vt) = from_kw(kw) { out.push(vt); self.bump(); } else { break; } }\<close>\<close>

primrec val_types :: "float_env \<Rightarrow> nat \<Rightarrow> val_type list \<Rightarrow> val_type list pm" where
  "val_types fe 0 out = hang"
| "val_types fe (Suc n) out = sbind (gets lookahead) (\<lambda>l.
     case val_type_of l of
       Some vt \<Rightarrow> sthen (bump fe) (val_types fe n (out @ [vt]))
     | None \<Rightarrow> ret out)"

definition intern_type :: "func_type \<Rightarrow> func_type list \<Rightarrow> u32 \<times> func_type list" where
  "intern_type ft types =
     (case find (\<lambda>i. types ! i = ft) [0..<length types] of
        Some i \<Rightarrow> (word_of_nat i, types)
      | None \<Rightarrow> (word_of_nat (length types), types @ [ft]))"

definition upd_mod :: "(wat_module \<Rightarrow> wat_module) \<Rightarrow> unit pm" where
  "upd_mod f = modify (\<lambda>s. s\<lparr>pmod := f (pmod s)\<rparr>)"

definition intern :: "val_type list \<Rightarrow> val_type list \<Rightarrow> u32 pm" where
  "intern params results = sbind (gets (\<lambda>s. intern_type \<lparr>ft_params = params, ft_results = results\<rparr> (m_types (pmod s)))) (\<lambda>(idx, types).
     sthen (upd_mod (\<lambda>m. m\<lparr>m_types := types\<rparr>)) (ret idx))"

definition parse_param_or_result_group :: "float_env \<Rightarrow> nat \<Rightarrow> val_type list \<times> val_type list \<Rightarrow> (val_type list \<times> val_type list) pm" where
  "parse_param_or_result_group fe n = (\<lambda>(params, results). sbind (gets lookahead) (\<lambda>l.
     if l = kw ''param'' then
       sthen (bump fe) (sthen (try_identifier fe) (sbind (val_types fe n params) (\<lambda>params.
       sthen (expect_rparen fe) (ret (params, results)))))
     else if l = kw ''result'' then
       sthen (bump fe) (sbind (val_types fe n results) (\<lambda>results.
       sthen (expect_rparen fe) (ret (params, results))))
     else sthen (skip_rest_of_list fe n) (ret (params, results))))"

primrec type_groups :: "float_env \<Rightarrow> nat \<Rightarrow> val_type list \<times> val_type list \<Rightarrow> (val_type list \<times> val_type list) pm" where
  "type_groups fe 0 pr = hang"
| "type_groups fe (Suc n) pr = sbind (gets lookahead) (\<lambda>l.
     if l = Some LParen then
       sthen (expect_lparen fe) (sbind (parse_param_or_result_group fe n pr) (type_groups fe n))
     else ret pr)"

definition parse_func_type_fields :: "float_env \<Rightarrow> nat \<Rightarrow> (val_type list \<times> val_type list) pm" where
  "parse_func_type_fields fe n = type_groups fe n ([], [])"

definition finish_inline_func_type_after_lparen :: "float_env \<Rightarrow> nat \<Rightarrow> (val_type list \<times> val_type list) pm" where
  "finish_inline_func_type_after_lparen fe n = sbind (parse_param_or_result_group fe n ([], [])) (type_groups fe n)"

definition name_index :: "(bytes \<times> u32) list \<Rightarrow> bytes \<Rightarrow> u32 option" where
  "name_index names ident = map_option snd (find (\<lambda>(n, _). n = ident) names)"

definition resolve_type_name :: "bytes \<Rightarrow> u32 pm" where
  "resolve_type_name ident = sbind (gets type_names) (\<lambda>names.
     case name_index names ident of
       Some idx \<Rightarrow> ret idx
     | None \<Rightarrow> lift (wat_parse_i32 (trim_start_matches 0x24 ident)))"

definition type_index :: "float_env \<Rightarrow> u32 pm" where
  "type_index fe = sbind (gets lookahead) (\<lambda>l.
     case ident_of l of
       Some ident \<Rightarrow> sthen (bump fe) (resolve_type_name ident)
     | None \<Rightarrow> int_or fe panic)"

definition parse_type_use :: "float_env \<Rightarrow> nat \<Rightarrow> u32 pm" where
  "parse_type_use fe n = sbind (gets lookahead) (\<lambda>l.
     if l = Some LParen then
       sthen (expect_lparen fe) (sbind (gets lookahead) (\<lambda>l.
       if l = kw ''type'' then
         sthen (bump fe) (sbind (type_index fe) (\<lambda>idx.
         sthen (expect_rparen fe) (sthen (parse_func_type_fields fe n) (ret idx))))
       else sbind (finish_inline_func_type_after_lparen fe n) (\<lambda>(params, results). intern params results)))
     else intern [] [])"

definition parse_type_def :: "float_env \<Rightarrow> nat \<Rightarrow> unit pm" where
  "parse_type_def fe n =
     sthen (bump fe) (sbind (try_identifier fe) (\<lambda>name.
     sthen (expect_lparen fe) (sthen (expect_keyword fe ''func'')
     (sbind (parse_func_type_fields fe n) (\<lambda>(params, results).
     sthen (expect_rparen fe)
     (sbind (gets (\<lambda>s. word_of_nat (length (m_types (pmod s))))) (\<lambda>idx.
     sthen (upd_mod (\<lambda>m. m\<lparr>m_types := m_types m @ [\<lparr>ft_params = params, ft_results = results\<rparr>]\<rparr>))
     (sthen (case name of Some nm \<Rightarrow> modify (\<lambda>s. s\<lparr>type_names := type_names s @ [(nm, idx)]\<rparr>) | None \<Rightarrow> ret ())
     (expect_rparen fe)))))))))"

definition push_func_name :: "bytes option \<Rightarrow> u32 \<Rightarrow> unit pm" where
  "push_func_name name fidx =
     (case name of Some nm \<Rightarrow> modify (\<lambda>s. s\<lparr>func_names := func_names s @ [(nm, fidx)]\<rparr>) | None \<Rightarrow> ret ())"

definition push_import :: "bytes \<Rightarrow> bytes \<Rightarrow> u32 \<Rightarrow> unit pm" where
  "push_import m nm ty = upd_mod (\<lambda>w. w\<lparr>m_imports := m_imports w @ [\<lparr>id_module = m, id_name = nm, id_type = ty\<rparr>]\<rparr>)"

definition parse_import :: "float_env \<Rightarrow> nat \<Rightarrow> unit pm" where
  "parse_import fe n =
     sthen (bump fe) (sbind (expect_string fe) (\<lambda>mod_bytes. sbind (expect_string fe) (\<lambda>name_bytes.
     sthen (expect_lparen fe) (sbind (gets lookahead) (\<lambda>l.
     if l = kw ''func'' then
       sthen (bump fe) (sbind (gets (\<lambda>s. word_of_nat (length (m_imports (pmod s))))) (\<lambda>fidx.
       sbind (try_identifier fe) (\<lambda>name.
       sthen (push_func_name name fidx) (sbind (parse_type_use fe n) (\<lambda>type_idx.
       sthen (push_import mod_bytes name_bytes type_idx)
       (sthen (expect_rparen fe) (expect_rparen fe)))))))
     else skip_rest_of_list fe n)))))"

section \<open>Instructions\<close>

definition parse_block_type :: "float_env \<Rightarrow> u8 pm" where
  "parse_block_type fe = sbind (gets lookahead) (\<lambda>l.
     if l = Some LParen then
       sthen (bump fe) (sbind (gets lookahead) (\<lambda>l.
       if l = kw ''result'' then
         sthen (bump fe) (sbind (gets lookahead) (\<lambda>l.
         sthen (bump fe) (sthen (expect_rparen fe)
         (ret (case val_type_of l of Some v \<Rightarrow> val_type_byte v | None \<Rightarrow> 0x40)))))
       else sthen unget_lparen (ret 0x40)))
     else ret 0x40)"

text \<open>\<open>Some rest\<close> if the lookahead is a keyword with the prefix.\<close>

definition keyword_suffix :: "string \<Rightarrow> token option \<Rightarrow> bytes option" where
  "keyword_suffix p l = (case keyword_of l of
     Some k \<Rightarrow> if starts_with k (str_bytes p) then Some (drop (length p) k) else None | None \<Rightarrow> None)"

primrec memarg_loop :: "float_env \<Rightarrow> nat \<Rightarrow> u32 \<Rightarrow> u32 \<Rightarrow> (u32 \<times> u32) pm" where
  "memarg_loop fe 0 offset align = hang"
| "memarg_loop fe (Suc n) offset align = sbind (gets lookahead) (\<lambda>l.
     case keyword_suffix ''offset='' l of
       Some k \<Rightarrow> sbind (lift (wat_parse_i32 k)) (\<lambda>v. sthen (bump fe) (memarg_loop fe n v align))
     | None \<Rightarrow>
         (case keyword_suffix ''align='' l of
            Some k \<Rightarrow> sbind (lift (wat_parse_i32 k)) (\<lambda>v. sthen (bump fe) (memarg_loop fe n offset v))
          | None \<Rightarrow> ret (offset, align)))"

definition parse_memarg :: "float_env \<Rightarrow> nat \<Rightarrow> (u32 \<times> u32) pm" where
  "parse_memarg fe n = memarg_loop fe n 0 0"

definition parse_label_idx :: "float_env \<Rightarrow> u32 pm" where
  "parse_label_idx fe = int_or fe (sbind (gets lookahead) (\<lambda>l.
     case ident_of l of Some _ \<Rightarrow> sthen (bump fe) (ret 0) | None \<Rightarrow> ret 0))"

definition parse_local_or_func_idx :: "float_env \<Rightarrow> u32 pm" where
  "parse_local_or_func_idx fe = int_or fe (sbind (gets lookahead) (\<lambda>l.
     case ident_of l of
       Some ident \<Rightarrow> sthen (bump fe) (sbind (gets local_names) (\<lambda>names.
         case name_index names ident of
           Some idx \<Rightarrow> ret idx
         | None \<Rightarrow> lift (wat_parse_i32 (trim_start_matches 0x24 ident))))
     | None \<Rightarrow> ret 0))"

definition parse_func_idx :: "float_env \<Rightarrow> u32 pm" where
  "parse_func_idx fe = int_or fe (sbind (gets lookahead) (\<lambda>l.
     case ident_of l of
       Some ident \<Rightarrow> sthen (bump fe) (sbind (gets func_names) (\<lambda>names.
         ret (case name_index names ident of Some idx \<Rightarrow> idx | None \<Rightarrow> 0)))
     | None \<Rightarrow> ret 0))"

definition float_const :: "float_env \<Rightarrow> u32 pm" where
  "float_const fe = sbind (gets lookahead) (\<lambda>l.
     case float_of l of
       Some f \<Rightarrow> sthen (bump fe) (ret f)
     | None \<Rightarrow>
         (case int_of l of
            Some n \<Rightarrow> sthen (bump fe) (ret (word_of_int (int_to_float F32 (sint n))))
          | None \<Rightarrow> ret 0))"

text \<open>The instructions without operands and the memory instructions, by their keywords.\<close>

definition PLAIN_OPS :: "(string \<times> instr) list" where
  "PLAIN_OPS = [
     (''else'', Else), (''end'', End), (''return'', Return), (''drop'', Drop), (''select'', Select),
     (''unreachable'', Unreachable), (''nop'', Nop),
     (''i32.add'', OpI32 I32Add), (''i32.sub'', OpI32 I32Sub), (''i32.mul'', OpI32 I32Mul), (''i32.div_s'', OpI32 I32DivS),
     (''i32.div_u'', OpI32 I32DivU), (''i32.rem_s'', OpI32 I32RemS), (''i32.rem_u'', OpI32 I32RemU),
     (''i32.and'', OpI32 I32And), (''i32.or'', OpI32 I32Or), (''i32.xor'', OpI32 I32Xor),
     (''i32.shl'', OpI32 I32Shl), (''i32.shr_s'', OpI32 I32ShrS), (''i32.shr_u'', OpI32 I32ShrU),
     (''i32.eqz'', OpI32 I32Eqz), (''i32.eq'', OpI32 I32Eq), (''i32.ne'', OpI32 I32Ne),
     (''i32.lt_s'', OpI32 I32LtS), (''i32.lt_u'', OpI32 I32LtU), (''i32.gt_s'', OpI32 I32GtS), (''i32.gt_u'', OpI32 I32GtU),
     (''i32.le_s'', OpI32 I32LeS), (''i32.le_u'', OpI32 I32LeU), (''i32.ge_s'', OpI32 I32GeS), (''i32.ge_u'', OpI32 I32GeU),
     (''i64.add'', OpI64 I64Add), (''i64.sub'', OpI64 I64Sub), (''i64.mul'', OpI64 I64Mul),
     (''i64.and'', OpI64 I64And), (''i64.or'', OpI64 I64Or), (''i64.xor'', OpI64 I64Xor),
     (''i64.eqz'', OpI64 I64Eqz), (''i64.eq'', OpI64 I64Eq), (''i64.ne'', OpI64 I64Ne),
     (''f32.add'', OpFloat F32Add), (''f32.sub'', OpFloat F32Sub), (''f32.mul'', OpFloat F32Mul), (''f32.div'', OpFloat F32Div),
     (''f64.add'', OpFloat F64Add), (''f64.sub'', OpFloat F64Sub), (''f64.mul'', OpFloat F64Mul), (''f64.div'', OpFloat F64Div)]"

definition MEM_OPS :: "(string \<times> mem_op) list" where
  "MEM_OPS = [(''i32.load'', I32Load), (''i32.store'', I32Store), (''i32.load8_s'', I32Load8S), (''i32.load8_u'', I32Load8U),
     (''i32.store8'', I32Store8)]"

definition op_named :: "(string \<times> 'a) list \<Rightarrow> bytes \<Rightarrow> 'a option" where
  "op_named ops k = map_option snd (find (\<lambda>(w, _). str_bytes w = k) ops)"

definition build_instr :: "float_env \<Rightarrow> nat \<Rightarrow> bytes \<Rightarrow> instr option pm" where
  "build_instr fe n k =
     (if k = str_bytes ''i32.const'' then sbind (int_or fe (ret 0)) (\<lambda>v. ret (Some (I32Const v)))
      else if k = str_bytes ''i64.const'' then sbind (int_or fe (ret 0)) (\<lambda>v. ret (Some (I64Const v)))
      else if k = str_bytes ''f32.const'' then sbind (float_const fe) (\<lambda>v. ret (Some (F32Const v)))
      else if k = str_bytes ''f64.const'' then sbind (float_const fe) (\<lambda>v. ret (Some (F64Const v)))
      else if k = str_bytes ''local.get'' \<or> k = str_bytes ''get_local'' then
        sbind (parse_local_or_func_idx fe) (\<lambda>i. ret (Some (LocalGet i)))
      else if k = str_bytes ''local.set'' \<or> k = str_bytes ''set_local'' then
        sbind (parse_local_or_func_idx fe) (\<lambda>i. ret (Some (LocalSet i)))
      else if k = str_bytes ''local.tee'' \<or> k = str_bytes ''tee_local'' then
        sbind (parse_local_or_func_idx fe) (\<lambda>i. ret (Some (LocalTee i)))
      else if k = str_bytes ''call'' then sbind (parse_func_idx fe) (\<lambda>i. ret (Some (Call i)))
      else if k = str_bytes ''br'' then sbind (parse_label_idx fe) (\<lambda>i. ret (Some (Br i)))
      else if k = str_bytes ''br_if'' then sbind (parse_label_idx fe) (\<lambda>i. ret (Some (BrIf i)))
      else if k = str_bytes ''if'' then sbind (parse_block_type fe) (\<lambda>bt. ret (Some (If bt)))
      else if k = str_bytes ''loop'' then sbind (parse_block_type fe) (\<lambda>bt. ret (Some (Loop bt)))
      else if k = str_bytes ''block'' then sbind (parse_block_type fe) (\<lambda>bt. ret (Some (Block bt)))
      else case op_named MEM_OPS k of
        Some q \<Rightarrow> sbind (parse_memarg fe n) (\<lambda>(offset, align). ret (Some (OpMem q offset align)))
      | None \<Rightarrow> ret (op_named PLAIN_OPS k))"

definition parse_plain_instr :: "float_env \<Rightarrow> nat \<Rightarrow> instr option pm" where
  "parse_plain_instr fe n = sbind (gets lookahead) (\<lambda>l.
     case keyword_of l of Some k \<Rightarrow> sthen (bump fe) (build_instr fe n k) | None \<Rightarrow> ret None)"

definition opt_list :: "'a option \<Rightarrow> 'a list" where
  "opt_list x = (case x of Some a \<Rightarrow> [a] | None \<Rightarrow> [])"

definition assemble_if :: "instr list \<Rightarrow> u8 \<Rightarrow> instr list \<Rightarrow> instr list \<Rightarrow> instr list" where
  "assemble_if cond bt ts es = cond @ [If bt] @ ts @ (if es \<noteq> [] then Else # es else []) @ [End]"

text \<open>
  The bodies of the mutually recursive methods, over the recursive calls as arguments. \<open>operands_step\<close> is one iteration of the
  loop in \<open>parse_folded_instr\<close> and \<open>clauses_step\<close> of the one in \<open>parse_folded_if\<close>, which collects the condition up to a \<open>then\<close> clause.
\<close>

definition instrs_step :: "float_env \<Rightarrow> nat \<Rightarrow> instr list pm \<Rightarrow> instr list pm \<Rightarrow> instr list pm" where
  "instrs_step fe n folded instrs = sbind (gets lookahead) (\<lambda>l.
     if l = None \<or> l = Some RParen then ret []
     else if l = Some LParen then sthen (bump fe) (sbind folded (\<lambda>xs. sbind instrs (\<lambda>ys. ret (xs @ ys))))
     else if keyword_of l \<noteq> None then sbind (parse_plain_instr fe n) (\<lambda>i. sbind instrs (\<lambda>ys. ret (opt_list i @ ys)))
     else sthen (bump fe) instrs)"

definition folded_step :: "float_env \<Rightarrow> nat \<Rightarrow> instr list pm \<Rightarrow> instr list pm \<Rightarrow> instr list pm \<Rightarrow> instr list pm" where
  "folded_step fe n folded_if folded_block operands = sbind (gets lookahead) (\<lambda>l.
     if l = kw ''if'' then folded_if
     else if l = kw ''block'' \<or> l = kw ''loop'' then folded_block
     else case keyword_of l of
       Some k \<Rightarrow> sthen (bump fe) (sbind (build_instr fe n k) (\<lambda>op. sbind operands (\<lambda>subs.
         sthen (expect_rparen fe) (ret (subs @ opt_list op)))))
     | None \<Rightarrow> sthen (skip_rest_of_list fe n) (ret []))"

definition operands_step :: "float_env \<Rightarrow> instr list pm \<Rightarrow> instr list pm \<Rightarrow> instr list pm" where
  "operands_step fe folded operands = sbind (gets lookahead) (\<lambda>l.
     if l = Some LParen then sthen (bump fe) (sbind folded (\<lambda>xs. sbind operands (\<lambda>ys. ret (xs @ ys))))
     else ret [])"

definition if_step :: "float_env \<Rightarrow> nat \<Rightarrow> (instr list \<times> instr list) pm \<Rightarrow> instr list pm \<Rightarrow> instr list pm" where
  "if_step fe n clauses instrs =
     sthen (bump fe) (sthen (try_identifier fe) (sbind (parse_block_type fe) (\<lambda>bt.
     sbind clauses (\<lambda>(cond, ts).
     sbind (sbind (gets lookahead) (\<lambda>l.
       if l = Some LParen then
         sthen (bump fe) (sbind (gets lookahead) (\<lambda>l.
         if l = kw ''else'' then sthen (bump fe) (sbind instrs (\<lambda>es. sthen (expect_rparen fe) (ret es)))
         else sthen (skip_rest_of_list fe n) (ret [])))
       else ret [])) (\<lambda>es.
     sthen (expect_rparen fe) (ret (assemble_if cond bt ts es)))))))"

definition clauses_step :: "float_env \<Rightarrow> instr list pm \<Rightarrow> instr list pm \<Rightarrow> (instr list \<times> instr list) pm \<Rightarrow> (instr list \<times> instr list) pm" where
  "clauses_step fe instrs folded clauses = sbind (gets lookahead) (\<lambda>l.
     if l = Some LParen then
       sthen (bump fe) (sbind (gets lookahead) (\<lambda>l.
       if l = kw ''then'' then sthen (bump fe) (sbind instrs (\<lambda>ts. sthen (expect_rparen fe) (ret ([], ts))))
       else sbind folded (\<lambda>xs. sbind clauses (\<lambda>(cond, ts). ret (xs @ cond, ts)))))
     else ret ([], []))"

definition block_step :: "float_env \<Rightarrow> instr list pm \<Rightarrow> instr list pm" where
  "block_step fe instrs = sbind (gets lookahead) (\<lambda>l.
     sthen (bump fe) (sthen (try_identifier fe) (sbind (parse_block_type fe) (\<lambda>bt.
     sbind instrs (\<lambda>body.
     sthen (expect_rparen fe) (ret ((if l = kw ''loop'' then Loop bt else Block bt) # body @ [End])))))))"

text \<open>The recursion itself.\<close>

fun parse_instrs :: "float_env \<Rightarrow> nat \<Rightarrow> instr list pm"
  and parse_folded_instr :: "float_env \<Rightarrow> nat \<Rightarrow> instr list pm"
  and operands :: "float_env \<Rightarrow> nat \<Rightarrow> instr list pm"
  and parse_folded_if :: "float_env \<Rightarrow> nat \<Rightarrow> instr list pm"
  and if_clauses :: "float_env \<Rightarrow> nat \<Rightarrow> (instr list \<times> instr list) pm"
  and parse_folded_block_or_loop :: "float_env \<Rightarrow> nat \<Rightarrow> instr list pm" where
  "parse_instrs fe 0 = hang"
| "parse_instrs fe (Suc n) = instrs_step fe n (parse_folded_instr fe n) (parse_instrs fe n)"
| "parse_folded_instr fe 0 = hang"
| "parse_folded_instr fe (Suc n) = folded_step fe n (parse_folded_if fe n) (parse_folded_block_or_loop fe n) (operands fe n)"
| "operands fe 0 = hang"
| "operands fe (Suc n) = operands_step fe (parse_folded_instr fe n) (operands fe n)"
| "parse_folded_if fe 0 = hang"
| "parse_folded_if fe (Suc n) = if_step fe n (if_clauses fe n) (parse_instrs fe n)"
| "if_clauses fe 0 = hang"
| "if_clauses fe (Suc n) = clauses_step fe (parse_instrs fe n) (parse_folded_instr fe n) (if_clauses fe n)"
| "parse_folded_block_or_loop fe 0 = hang"
| "parse_folded_block_or_loop fe (Suc n) = block_step fe (parse_instrs fe n)"

section \<open>Functions\<close>

text \<open>
  The local variables of \<open>parse_func_def\<close>. The index of the next local would exceed 32 bits only in a source of
  more than 4 GiB.
\<close>

record fhead =
  h_type_parsed :: bool
  h_type_idx :: u32
  h_params :: "val_type list"
  h_results :: "val_type list"
  h_locals :: "val_type list"
  h_next :: nat

definition fhead_new :: fhead where
  "fhead_new = \<lparr>h_type_parsed = False, h_type_idx = 0, h_params = [], h_results = [], h_locals = [], h_next = 0\<rparr>"

text \<open>\<open>if !type_parsed { type_idx = intern_type(..); }\<close>\<close>

definition fix_type :: "fhead \<Rightarrow> fhead pm" where
  "fix_type h = (if h_type_parsed h then ret h
     else sbind (intern (h_params h) (h_results h)) (\<lambda>i. ret (h\<lparr>h_type_idx := i, h_type_parsed := True\<rparr>)))"

text \<open>
  The types of a \<open>param\<close> or \<open>local\<close> group: a named one is followed by one type, an unnamed one by any number.
\<close>

definition group_types :: "float_env \<Rightarrow> nat \<Rightarrow> nat \<Rightarrow> val_type list pm" where
  "group_types fe n next_local = sbind (try_identifier fe) (\<lambda>name.
     case name of
       Some nm \<Rightarrow> sbind (gets lookahead) (\<lambda>l.
         case val_type_of l of
           Some vt \<Rightarrow> sthen (modify (\<lambda>s. s\<lparr>local_names := local_names s @ [(nm, word_of_nat next_local)]\<rparr>))
             (sthen (bump fe) (ret [vt]))
         | None \<Rightarrow> ret [])
     | None \<Rightarrow> val_types fe n [])"

definition push_func :: "u32 \<Rightarrow> val_type list \<Rightarrow> instr list \<Rightarrow> unit pm" where
  "push_func ty ls body = upd_mod (\<lambda>m. m\<lparr>m_funcs := m_funcs m @ [\<lparr>fd_type = ty, fd_locals = ls, fd_body = body\<rparr>]\<rparr>)"

definition push_export :: "bytes \<Rightarrow> u8 \<Rightarrow> u32 \<Rightarrow> unit pm" where
  "push_export nm knd idx = upd_mod (\<lambda>m. m\<lparr>m_exports := m_exports m @ [\<lparr>ed_name = nm, ed_kind = knd, ed_index = idx\<rparr>]\<rparr>)"

text \<open>One group of the header, its parenthesis consumed; \<open>None\<close> when the definition has been completed.\<close>

definition head_group :: "float_env \<Rightarrow> nat \<Rightarrow> u32 \<Rightarrow> fhead \<Rightarrow> fhead option pm" where
  "head_group fe n fidx h = sbind (gets lookahead) (\<lambda>l.
     if l = kw ''export'' then
       sthen (bump fe) (sbind (expect_string fe) (\<lambda>nm. sthen (expect_rparen fe) (sthen (push_export nm 0 fidx) (ret (Some h)))))
     else if l = kw ''import'' then
       sthen (bump fe) (sbind (expect_string fe) (\<lambda>m. sbind (expect_string fe) (\<lambda>nm. sthen (expect_rparen fe)
       (sbind (intern (h_params h) (h_results h)) (\<lambda>ti. sthen (push_import m nm ti) (sthen (expect_rparen fe) (ret None)))))))
     else if l = kw ''type'' then
       sthen (bump fe) (sbind (type_index fe) (\<lambda>i. sthen (expect_rparen fe) (ret (Some (h\<lparr>h_type_idx := i, h_type_parsed := True\<rparr>)))))
     else if l = kw ''param'' then
       sthen (bump fe) (sbind (group_types fe n (h_next h)) (\<lambda>ts. sthen (expect_rparen fe)
       (ret (Some (h\<lparr>h_params := h_params h @ ts, h_next := h_next h + length ts\<rparr>)))))
     else if l = kw ''result'' then
       sthen (bump fe) (sbind (val_types fe n (h_results h)) (\<lambda>rs. sthen (expect_rparen fe) (ret (Some (h\<lparr>h_results := rs\<rparr>)))))
     else if l = kw ''local'' then
       sbind (fix_type h) (\<lambda>h. sthen (bump fe) (sbind (group_types fe n (h_next h)) (\<lambda>ts. sthen (expect_rparen fe)
       (ret (Some (h\<lparr>h_locals := h_locals h @ ts, h_next := h_next h + length ts\<rparr>))))))
     else
       sbind (fix_type h) (\<lambda>h. sbind (parse_folded_instr fe n) (\<lambda>xs. sbind (parse_instrs fe n) (\<lambda>ys.
       sthen (push_func (h_type_idx h) (h_locals h) (xs @ ys)) (sthen (expect_rparen fe) (ret None))))))"

primrec head_loop :: "float_env \<Rightarrow> nat \<Rightarrow> u32 \<Rightarrow> fhead \<Rightarrow> fhead option pm" where
  "head_loop fe 0 fidx h = hang"
| "head_loop fe (Suc n) fidx h = sbind (gets lookahead) (\<lambda>l.
     if l = Some LParen then
       sthen (bump fe) (sbind (head_group fe n fidx h) (\<lambda>r.
       case r of Some h \<Rightarrow> head_loop fe n fidx h | None \<Rightarrow> ret None))
     else ret (Some h))"

definition parse_func_def :: "float_env \<Rightarrow> nat \<Rightarrow> unit pm" where
  "parse_func_def fe n =
     sthen (bump fe) (sbind (try_identifier fe) (\<lambda>name.
     sbind (gets (\<lambda>s. word_of_nat (length (m_imports (pmod s)) + length (m_funcs (pmod s))))) (\<lambda>fidx.
     sthen (push_func_name name fidx)
     (sthen (modify (\<lambda>s. s\<lparr>local_names := []\<rparr>))
     (sbind (head_loop fe n fidx fhead_new) (\<lambda>r.
     case r of
       None \<Rightarrow> ret ()
     | Some h \<Rightarrow> sbind (fix_type h) (\<lambda>h. sbind (parse_instrs fe n) (\<lambda>body.
         sthen (push_func (h_type_idx h) (h_locals h) body) (expect_rparen fe)))))))))"

section \<open>Memories, exports, data\<close>

definition parse_memory :: "float_env \<Rightarrow> nat \<Rightarrow> unit pm" where
  "parse_memory fe n =
     sthen (bump fe) (sthen (try_identifier fe)
     (sbind (sbind (gets lookahead) (\<lambda>l.
        if l = Some LParen then
          sthen (bump fe) (sbind (gets lookahead) (\<lambda>l.
          if l = kw ''import'' then sthen (skip_rest_of_list fe n) (sthen (expect_rparen fe) (ret True))
          else sthen (skip_rest_of_list fe n) (ret False)))
        else ret False)) (\<lambda>finished.
      if finished then ret ()
      else
        sbind (int_or fe (ret 0)) (\<lambda>mn.
        sbind (sbind (gets lookahead) (\<lambda>l. case int_of l of Some v \<Rightarrow> sthen (bump fe) (ret (Some v)) | None \<Rightarrow> ret None)) (\<lambda>mx.
        sthen (upd_mod (\<lambda>m. m\<lparr>m_memories := m_memories m @ [\<lparr>md_min = mn, md_max = mx\<rparr>]\<rparr>)) (expect_rparen fe))))))"

definition export_kind :: "token option \<Rightarrow> u8 option" where
  "export_kind l = (if l = kw ''func'' then Some 0 else if l = kw ''memory'' then Some 2
     else if l = kw ''table'' then Some 1 else if l = kw ''global'' then Some 3 else None)"

definition parse_export :: "float_env \<Rightarrow> nat \<Rightarrow> unit pm" where
  "parse_export fe n =
     sthen (bump fe) (sbind (expect_string fe) (\<lambda>nm. sthen (expect_lparen fe)
     (sbind (gets lookahead) (\<lambda>l.
     case export_kind l of
       None \<Rightarrow> sthen (skip_rest_of_list fe n) (expect_rparen fe)
     | Some knd \<Rightarrow>
         sthen (bump fe) (sbind (parse_func_idx fe) (\<lambda>idx.
         sthen (expect_rparen fe) (sthen (expect_rparen fe) (push_export nm knd idx))))))))"

primrec data_strings :: "float_env \<Rightarrow> nat \<Rightarrow> bytes pm" where
  "data_strings fe 0 = hang"
| "data_strings fe (Suc n) = sbind (gets lookahead) (\<lambda>l.
     if string_of l \<noteq> None then sbind (expect_string fe) (\<lambda>b. sbind (data_strings fe n) (\<lambda>bs. ret (b @ bs)))
     else ret [])"

definition parse_data :: "float_env \<Rightarrow> nat \<Rightarrow> unit pm" where
  "parse_data fe n =
     sthen (bump fe) (sbind (int_or fe (ret 0)) (\<lambda>mem_idx.
     sbind (sbind (gets lookahead) (\<lambda>l.
       if l = Some LParen then
         sthen (bump fe) (sbind (gets lookahead) (\<lambda>l.
         sthen (if l = kw ''offset'' then sthen (bump fe) (bump fe) else ret ())
         (sthen (expect_keyword fe ''i32.const'') (sbind (int_or fe (ret 0)) (\<lambda>v. sthen (expect_rparen fe) (ret v))))))
       else ret 0)) (\<lambda>offset.
     sbind (data_strings fe n) (\<lambda>bs.
     sthen (upd_mod (\<lambda>m. m\<lparr>m_data := m_data m @ [\<lparr>ds_mem = mem_idx, ds_offset = offset, ds_bytes = bs\<rparr>]\<rparr>))
     (expect_rparen fe)))))"

section \<open>Modules\<close>

definition parse_field :: "float_env \<Rightarrow> nat \<Rightarrow> unit pm" where
  "parse_field fe n = sbind (gets lookahead) (\<lambda>l.
     if l = kw ''type'' then parse_type_def fe n
     else if l = kw ''import'' then parse_import fe n
     else if l = kw ''func'' then parse_func_def fe n
     else if l = kw ''memory'' then parse_memory fe n
     else if l = kw ''export'' then parse_export fe n
     else if l = kw ''data'' then parse_data fe n
     else if l = kw ''table'' \<or> l = kw ''elem'' \<or> l = kw ''global'' \<or> l = kw ''start'' then
       sthen (bump fe) (skip_rest_of_list fe n)
     else skip_rest_of_list fe n)"

primrec fields_loop :: "float_env \<Rightarrow> nat \<Rightarrow> unit pm" where
  "fields_loop fe 0 = hang"
| "fields_loop fe (Suc n) = sbind (gets lookahead) (\<lambda>l.
     if l = Some LParen then sthen (expect_lparen fe) (sthen (parse_field fe n) (fields_loop fe n)) else ret ())"

definition parse_module :: "float_env \<Rightarrow> nat \<Rightarrow> wat_module pm" where
  "parse_module fe n =
     sthen (expect_lparen fe) (sthen (expect_keyword fe ''module'') (sthen (try_identifier fe)
     (sthen (fields_loop fe n) (sthen (expect_rparen fe) (gets pmod)))))"

text \<open>The middle of \<open>asm::run\<close>: from the text of the source to the module, with the given fuel, and to the binary.\<close>

definition parse_wat :: "float_env \<Rightarrow> nat \<Rightarrow> bytes \<Rightarrow> (unit, wat_module) result" where
  "parse_wat fe n src = rbind (parser_new fe src) (\<lambda>p. fst (parse_module fe n p))"

definition wat_fuel :: "bytes \<Rightarrow> nat" where
  "wat_fuel src = 6 * length src + 1"

definition assemble :: "float_env \<Rightarrow> bytes \<Rightarrow> (unit, bytes) result" where
  "assemble fe src = rbind (parse_wat fe (wat_fuel src) src) (emit_module fe)"

section \<open>The parser always returns\<close>

text \<open>
  What is left to read: the rest of the source and the tokens held. \<open>within j k m\<close>: started with at most
  \<open>j\<close> left, \<open>m\<close> returns a value or panics, and if it returns normally at most \<open>k\<close> is left.
\<close>

definition held :: "token option \<Rightarrow> nat" where
  "held t = (case t of None \<Rightarrow> 0 | Some _ \<Rightarrow> 1)"

definition left :: "parser \<Rightarrow> nat" where
  "left s = 2 * length (tok_rest s) + (if unget s = None then held (lookahead s) else 2)"

definition within :: "nat \<Rightarrow> nat \<Rightarrow> 'a pm \<Rightarrow> bool" where
  "within j k m \<longleftrightarrow> (\<forall>s. left s \<le> j \<longrightarrow>
     (case m s of (Ok x, s') \<Rightarrow> left s' \<le> k | (Panic, s') \<Rightarrow> True | _ \<Rightarrow> False))"

named_theorems within_rules

lemma withinI: "(\<And>s. left s \<le> j \<Longrightarrow> case m s of (Ok x, s') \<Rightarrow> left s' \<le> k | (Panic, s') \<Rightarrow> True | _ \<Rightarrow> False) \<Longrightarrow> within j k m"
  by (simp add: within_def)

lemma within_ret [within_rules]: "j \<le> k \<Longrightarrow> within j k (ret x)"
  by (simp add: within_def ret_def)

lemma within_panic [within_rules]: "within j k panic"
  by (simp add: within_def panic_def)

lemma within_gets: "j \<le> k \<Longrightarrow> within j k (gets f)"
  by (simp add: within_def gets_def)

lemma within_lift: "r \<noteq> Hang \<Longrightarrow> (\<And>e. r \<noteq> Err e) \<Longrightarrow> j \<le> k \<Longrightarrow> within j k (lift r)"
  by (cases r) (simp_all add: within_def lift_def)

lemma within_modify: "(\<And>s. left (f s) = left s) \<Longrightarrow> j \<le> k \<Longrightarrow> within j k (modify f)"
  by (simp add: within_def modify_def)

lemma within_sbind: "within j l m \<Longrightarrow> (\<And>x. within l k (f x)) \<Longrightarrow> within j k (sbind m f)"
  unfolding within_def sbind_def
  by (intro allI impI, drule_tac x = s in spec) (force split: prod.splits result.splits)

lemma within_mono: "within j k m \<Longrightarrow> i \<le> j \<Longrightarrow> k \<le> l \<Longrightarrow> within i l m"
  by (force simp: within_def split: prod.splits result.splits)

lemma within_sthen: "within j l m \<Longrightarrow> within l k m' \<Longrightarrow> within j k (sthen m m')"
  unfolding sthen_def by (rule within_sbind)

lemma within_if [within_rules]: "(c \<Longrightarrow> within j k a) \<Longrightarrow> (\<not> c \<Longrightarrow> within j k b) \<Longrightarrow> within j k (if c then a else b)"
  by simp

lemma within_case_option [within_rules]:
  "within j k a \<Longrightarrow> (\<And>x. within j k (f x)) \<Longrightarrow> within j k (case_option a f x)"
  by (cases x) simp_all

lemma within_case_prod [within_rules]: "(\<And>a b. within j k (f a b)) \<Longrightarrow> within j k (case_prod f p)"
  by (cases p) simp

lemma within_read [within_rules]: "(\<And>x. within j k (f x)) \<Longrightarrow> within j k (sbind (gets g) f)"
  by (simp add: within_def sbind_def gets_def)

text \<open>Behind a token of lookahead there is something left.\<close>

lemma within_look: "within j k (f None) \<Longrightarrow> (\<And>t. 0 < j \<Longrightarrow> within j k (f (Some t))) \<Longrightarrow> within j k (sbind (gets lookahead) f)"
proof (rule withinI)
  fix s assume a: "within j k (f None)" "\<And>t. 0 < j \<Longrightarrow> within j k (f (Some t))" "left s \<le> j"
  have "within j k (f (lookahead s))"
    using a by (cases "lookahead s") (auto simp: left_def held_def split: if_splits)
  then show "case sbind (gets lookahead) f s of (Ok x, s') \<Rightarrow> left s' \<le> k | (Panic, s') \<Rightarrow> True | _ \<Rightarrow> False"
    using a(3) by (simp add: within_def sbind_def gets_def)
qed

lemma within_bump: "within j (j - 1) (bump fe)"
proof (rule withinI)
  fix s assume j: "left s \<le> j"
  show "case bump fe s of (Ok x, s') \<Rightarrow> left s' \<le> j - 1 | (Panic, s') \<Rightarrow> True | _ \<Rightarrow> False"
  proof (cases "unget s")
    case (Some t)
    then show ?thesis using j by (simp add: bump_def left_def held_def)
  next
    case None
    show ?thesis
    proof (cases "next_token fe (tok_rest s)")
      case (Ok p)
      obtain t r where p: "p = (t, r)" by (cases p)
      show ?thesis
      proof (cases t)
        case None
        then have "r = []" using Ok p next_token_None by blast
        then show ?thesis using \<open>unget s = None\<close> Ok p None by (simp add: bump_def left_def held_def)
      next
        case (Some t')
        then have "length r < length (tok_rest s)" using Ok p next_token_Some by blast
        then show ?thesis using \<open>unget s = None\<close> Ok p Some j by (simp add: bump_def left_def held_def)
      qed
    qed (use None next_token_not_Hang next_token_not_Err in \<open>auto simp: bump_def\<close>)
  qed
qed

lemma within_bump_then [within_rules]: "within (j - 1) k m \<Longrightarrow> within j k (sthen (bump fe) m)"
  by (rule within_sthen [OF within_bump])

text \<open>Computations that never add to what is left.\<close>

definition settles :: "'a pm \<Rightarrow> bool" where
  "settles m \<longleftrightarrow> (\<forall>j. within j j m)"

named_theorems settles_rules

lemma within_settles: "settles m \<Longrightarrow> j \<le> k \<Longrightarrow> within j k m"
  by (auto simp: settles_def intro: within_mono)

lemma within_settles_bind [within_rules]: "settles m \<Longrightarrow> (\<And>x. within j k (f x)) \<Longrightarrow> within j k (sbind m f)"
  by (rule within_sbind [where l = j]) (auto intro: within_settles)

lemma within_settles_then [within_rules]: "settles m \<Longrightarrow> within j k m' \<Longrightarrow> within j k (sthen m m')"
  unfolding sthen_def by (rule within_settles_bind)

lemma settlesI: "(\<And>j. within j j m) \<Longrightarrow> settles m"
  by (simp add: settles_def)

lemma settles_bump [settles_rules]: "settles (bump fe)"
  by (rule settlesI, rule within_mono [OF within_bump]) auto

lemma settles_prims [settles_rules]:
  "settles (ret x)" "settles panic" "settles (gets f)" "settles (upd_mod g)" "settles (push_func_name name fidx)" "settles (push_import m nm ty)"
  "settles (push_func ty ls body)" "settles (push_export nm knd idx)" "settles (lift (wat_parse_i32 b))"
  by (auto intro!: settlesI within_rules within_gets within_modify within_lift within_case_option
      simp: upd_mod_def left_def push_func_name_def push_import_def push_func_def push_export_def wat_parse_i32_not_Hang)

lemma settles_modify: "(\<And>s. left (f s) = left s) \<Longrightarrow> settles (modify f)"
  by (rule settlesI, rule within_modify) auto

lemma settles_sbind [settles_rules]: "settles m \<Longrightarrow> (\<And>x. settles (f x)) \<Longrightarrow> settles (sbind m f)"
  by (auto simp: settles_def intro: within_sbind)

lemma settles_sthen [settles_rules]: "settles m \<Longrightarrow> settles m' \<Longrightarrow> settles (sthen m m')"
  unfolding sthen_def by (rule settles_sbind)

lemma settles_if [settles_rules]: "(c \<Longrightarrow> settles a) \<Longrightarrow> (\<not> c \<Longrightarrow> settles b) \<Longrightarrow> settles (if c then a else b)"
  by simp

lemma settles_case_option [settles_rules]: "settles a \<Longrightarrow> (\<And>x. settles (f x)) \<Longrightarrow> settles (case_option a f x)"
  by (cases x) simp_all

lemma settles_case_prod [settles_rules]: "(\<And>a b. settles (f a b)) \<Longrightarrow> settles (case_prod f p)"
  by (cases p) simp

lemma settles_tokens [settles_rules]:
  "settles (expect fe t)" "settles (expect_lparen fe)" "settles (expect_rparen fe)" "settles (expect_keyword fe w)"
  "settles (try_identifier fe)" "settles (expect_string fe)" "settles other \<Longrightarrow> settles (int_or fe other)" "settles (float_const fe)"
  "settles (resolve_type_name ident)" "settles (type_index fe)" "settles (intern ps rs)" "settles (parse_label_idx fe)"
  "settles (parse_local_or_func_idx fe)" "settles (parse_func_idx fe)" "settles (fix_type h)"
  unfolding expect_lparen_def expect_rparen_def expect_keyword_def expect_def try_identifier_def expect_string_def int_or_def
    float_const_def resolve_type_name_def type_index_def intern_def parse_label_idx_def parse_local_or_func_idx_def parse_func_idx_def
    fix_type_def
  by (intro settles_rules; assumption)+

lemma within_unget: "within j (Suc j) unget_lparen"
  by (auto simp: within_def unget_lparen_def modify_def left_def held_def split: option.splits)

lemma settles_parse_block_type [settles_rules]: "settles (parse_block_type fe)"
proof (rule settlesI)
  fix j
  show "within j j (parse_block_type fe)"
    unfolding parse_block_type_def
  proof (rule within_look)
    fix t assume "0 < j"
    then have "within (j - 1) j (sthen unget_lparen (ret x))" for x :: u8
      using within_sthen [OF within_unget [of "j - 1"] within_ret [of "Suc (j - 1)" j x]] by simp
    then show "within j j (if Some t = Some LParen then sthen (bump fe) (sbind (gets lookahead) (\<lambda>l.
         if l = kw ''result'' then sthen (bump fe) (sbind (gets lookahead) (\<lambda>l. sthen (bump fe) (sthen (expect_rparen fe)
             (ret (case val_type_of l of Some v \<Rightarrow> val_type_byte v | None \<Rightarrow> 0x40)))))
         else sthen unget_lparen (ret 0x40))) else ret 0x40)"
      by (cases "t = LParen") (auto intro!: within_bump_then within_read within_if within_ret within_settles_then [OF settles_tokens(3)])
  qed (intro within_rules, simp_all)
qed

text \<open>Steps through computations that settle, and through loops with enough fuel.\<close>

lemma within_seq: "within j j m \<Longrightarrow> (\<And>x. within j k (f x)) \<Longrightarrow> within j k (sbind m f)"
  by (rule within_sbind)

lemma within_seq_then: "within j j m \<Longrightarrow> within j k m' \<Longrightarrow> within j k (sthen m m')"
  by (rule within_sthen)

lemma within_tail: "within j j m \<Longrightarrow> j \<le> k \<Longrightarrow> within j k m"
  by (rule within_mono [where j = j]) auto

lemmas within_steps = within_ret within_panic within_if within_case_option within_case_prod within_bump_then within_read
  settles_prims [THEN within_settles_bind] settles_prims [THEN within_settles_then]
  settles_tokens(1-6) [THEN within_settles_bind] settles_tokens(1-6) [THEN within_settles_then]
  settles_tokens(7) [THEN within_settles_bind]
  settles_tokens(8-15) [THEN within_settles_bind] settles_tokens(8-15) [THEN within_settles_then]
  settles_parse_block_type [THEN within_settles_bind]
  settles_tokens(1-4) [THEN within_settles] settles_prims(4-8) [THEN within_settles] settles_tokens(10,11) [THEN within_settles]

lemma within_skip_list: "j < n \<Longrightarrow> within j j (skip_list fe n d)"
proof (induction n arbitrary: j d)
  case (Suc n)
  have ih: "within (j - 1) j (skip_list fe n d)" if "0 < j" for d
    by (rule within_tail [OF Suc.IH]) (use Suc.prems that in auto)
  show ?case unfolding skip_list.simps
    by (rule within_if, simp add: within_ret, rule within_look) (auto intro!: within_panic within_bump_then ih)
qed simp

lemma within_skip: "j < n \<Longrightarrow> within j j (skip_rest_of_list fe n)"
  by (simp add: skip_rest_of_list_def within_skip_list)

lemma within_val_types: "j < n \<Longrightarrow> within j j (val_types fe n out)"
proof (induction n arbitrary: j out)
  case (Suc n)
  have ih: "within (j - 1) j (val_types fe n out)" if "0 < j" for out
    by (rule within_tail [OF Suc.IH]) (use Suc.prems that in auto)
  show ?case unfolding val_types.simps
    by (rule within_look) (auto simp: val_type_of_def intro!: within_steps ih)
qed simp

lemma within_memarg_loop: "j < n \<Longrightarrow> within j j (memarg_loop fe n offset align)"
proof (induction n arbitrary: j offset align)
  case (Suc n)
  have ih: "within (j - 1) j (memarg_loop fe n offset align)" if "0 < j" for offset align
    by (rule within_tail [OF Suc.IH]) (use Suc.prems that in auto)
  show ?case unfolding memarg_loop.simps
    by (rule within_look) (auto simp: keyword_suffix_def intro!: within_steps ih)
qed simp

lemma within_data_strings: "j < n \<Longrightarrow> within j j (data_strings fe n)"
proof (induction n arbitrary: j)
  case (Suc n)
  have es: "within j (j - 1) (expect_string fe)" for j
    unfolding expect_string_def by (intro within_steps) simp
  have ih: "within (j - 1) (j - 1) (data_strings fe n)" if "0 < j"
    by (rule Suc.IH) (use Suc.prems that in auto)
  show ?case unfolding data_strings.simps
    by (rule within_look) (auto intro!: within_if within_ret within_sbind [OF es] within_sbind [OF ih])
qed simp

lemma within_group: "j < n \<Longrightarrow> within j j (parse_param_or_result_group fe n pr)"
  unfolding parse_param_or_result_group_def
  by (intro within_steps within_seq [OF within_val_types] within_seq_then [OF within_skip]) auto

lemma within_type_groups: "j < n \<Longrightarrow> within j j (type_groups fe n pr)"
proof (induction n arbitrary: j pr)
  case (Suc n)
  have g: "within (j - 1) (j - 1) (parse_param_or_result_group fe n pr)" if "0 < j" for pr
    by (rule within_group) (use Suc.prems that in auto)
  have ih: "within (j - 1) j (type_groups fe n pr)" if "0 < j" for pr
    by (rule within_tail [OF Suc.IH]) (use Suc.prems that in auto)
  have lp: "within j (j - 1) (expect_lparen fe)"
    unfolding expect_lparen_def expect_def by (intro within_read within_if within_panic within_bump)
  show ?case unfolding type_groups.simps
    by (rule within_look) (auto intro!: within_if within_ret within_sthen [OF lp] within_sbind [OF g] ih)
qed simp

lemma within_build_instr: "j < n \<Longrightarrow> within j j (build_instr fe n k)"
proof -
  assume "j < n"
  note ma = within_memarg_loop [OF this, of fe 0 0, folded parse_memarg_def]
  have r: "settles (ret (0 :: 32 word))" by (rule settles_prims)
  show ?thesis
    unfolding build_instr_def
    by (intro within_steps settles_tokens(7) [OF r, THEN within_settles_bind] within_seq [OF ma]) auto
qed

lemma within_plain_instr: "j < n \<Longrightarrow> keyword_of l \<noteq> None \<Longrightarrow> within j (j - 1) (case keyword_of l of Some k \<Rightarrow> sthen (bump fe) (build_instr fe n k) | None \<Rightarrow> ret None)"
  by (auto intro!: within_bump_then within_build_instr less_imp_diff_less)

lemma parse_plain_instr_bind:
  "sbind (gets lookahead) (\<lambda>l. if P l then A l else if Q l then B l else if keyword_of l \<noteq> None then sbind (parse_plain_instr fe n) f else C l)
   = sbind (gets lookahead) (\<lambda>l. if P l then A l else if Q l then B l
       else if keyword_of l \<noteq> None then sbind (case keyword_of l of Some k \<Rightarrow> sthen (bump fe) (build_instr fe n k) | None \<Rightarrow> ret None) f else C l)"
  by (rule ext) (simp add: parse_plain_instr_def sbind_def gets_def)

text \<open>
  The mutual recursion needs three units of fuel for each unit left: a nested expression is entered
  through \<open>parse_folded_instr\<close>, which may call the parser of a block before anything is consumed.
\<close>

lemma within_instrs:
  "(3 * j + 1 \<le> n \<longrightarrow> within j j (parse_instrs fe n)) \<and> (3 * j + 3 \<le> n \<longrightarrow> within j j (parse_folded_instr fe n))
   \<and> (3 * j + 1 \<le> n \<longrightarrow> within j j (operands fe n)) \<and> (3 * j + 2 \<le> n \<longrightarrow> within j j (parse_folded_if fe n))
   \<and> (3 * j + 1 \<le> n \<longrightarrow> within j j (if_clauses fe n)) \<and> (3 * j + 2 \<le> n \<longrightarrow> within j j (parse_folded_block_or_loop fe n))"
proof (induction n arbitrary: j)
  case (Suc n)
  note i1 = Suc.IH [THEN conjunct1, rule_format] and i2 = Suc.IH [THEN conjunct2, THEN conjunct1, rule_format]
    and i3 = Suc.IH [THEN conjunct2, THEN conjunct2, THEN conjunct1, rule_format]
    and i4 = Suc.IH [THEN conjunct2, THEN conjunct2, THEN conjunct2, THEN conjunct1, rule_format]
    and i5 = Suc.IH [THEN conjunct2, THEN conjunct2, THEN conjunct2, THEN conjunct2, THEN conjunct1, rule_format]
    and i6 = Suc.IH [THEN conjunct2, THEN conjunct2, THEN conjunct2, THEN conjunct2, THEN conjunct2, rule_format]
  note fuel = within_tail [OF i1] within_seq [OF i1] within_seq [OF i2] within_seq [OF i3] within_seq [OF i5]
    within_tail [OF i4] within_tail [OF i6] within_seq [OF within_build_instr] within_seq_then [OF within_skip]
    within_sbind [OF within_plain_instr]
  have "within j j (parse_instrs fe (Suc n))" if "3 * j + 1 \<le> Suc n"
    unfolding parse_instrs.simps instrs_step_def parse_plain_instr_bind
    by (rule within_look; intro within_if fuel within_steps) (use that in auto)
  moreover have "within j j (parse_folded_instr fe (Suc n))" if "3 * j + 3 \<le> Suc n"
    unfolding parse_folded_instr.simps folded_step_def
    by (rule within_look; intro within_if fuel within_steps) (use that in auto)
  moreover have "within j j (operands fe (Suc n))" if "3 * j + 1 \<le> Suc n"
    unfolding operands.simps operands_step_def
    by (rule within_look; intro within_if fuel within_steps) (use that in auto)
  moreover have "within j j (parse_folded_if fe (Suc n))" if "3 * j + 2 \<le> Suc n"
  proof -
    have "within i i (sbind (gets lookahead) (\<lambda>l. if l = Some LParen then sthen (bump fe) (sbind (gets lookahead) (\<lambda>l.
           if l = kw ''else'' then sthen (bump fe) (sbind (parse_instrs fe n) (\<lambda>es. sthen (expect_rparen fe) (ret es)))
           else sthen (skip_rest_of_list fe n) (ret []))) else ret []))" if "3 * i + 1 \<le> n" for i
      by (intro within_if fuel within_steps) (use that in auto)
    note es = within_seq [OF this]
    show ?thesis unfolding parse_folded_if.simps if_step_def
      by (intro es within_if fuel within_steps) (use that in auto)
  qed
  moreover have "within j j (if_clauses fe (Suc n))" if "3 * j + 1 \<le> Suc n"
    unfolding if_clauses.simps clauses_step_def
    by (rule within_look; intro within_if fuel within_steps) (use that in auto)
  moreover have "within j j (parse_folded_block_or_loop fe (Suc n))" if "3 * j + 2 \<le> Suc n"
    unfolding parse_folded_block_or_loop.simps block_step_def
    by (intro within_if fuel within_steps) (use that in auto)
  ultimately show ?case by blast
qed simp

lemmas within_fuel = within_instrs [THEN conjunct1, rule_format]
  within_instrs [THEN conjunct2, THEN conjunct1, rule_format]

lemma within_type_use: "j < n \<Longrightarrow> within j j (parse_type_use fe n)"
  unfolding parse_type_use_def parse_func_type_fields_def finish_inline_func_type_after_lparen_def sbind_assoc
  by (intro within_steps within_seq_then [OF within_type_groups] within_seq [OF within_group] within_seq [OF within_type_groups]) auto

lemma within_group_types: "j < n \<Longrightarrow> within j j (group_types fe n i)"
  unfolding group_types_def
  by (intro within_steps within_val_types within_settles_then [OF settles_modify]) (auto simp: left_def)

lemma within_head_group: "3 * j + 3 \<le> n \<Longrightarrow> within j j (head_group fe n fidx h)"
  unfolding head_group_def
  by (intro within_steps within_seq [OF within_group_types] within_seq [OF within_val_types] within_seq [OF within_fuel(1)]
      within_seq [OF within_fuel(2)]) auto

lemma within_head_loop: "3 * j + 1 \<le> n \<Longrightarrow> within j j (head_loop fe n fidx h)"
proof (induction n arbitrary: j h)
  case (Suc n)
  have ih: "within (j - 1) j (head_loop fe n fidx h)" if "0 < j" for h
    by (rule within_tail [OF Suc.IH]) (use Suc.prems that in auto)
  show ?case unfolding head_loop.simps
    by (rule within_look; intro within_if within_ret within_bump_then within_seq [OF within_head_group] within_case_option ih)
      (use Suc.prems in auto)
qed simp

lemma within_field:
  assumes "3 * j + 1 \<le> n"
  shows "within j j (parse_field fe n)"
proof -
  have r: "settles (ret (0 :: 32 word))" by (rule settles_prims)
  note z = settles_tokens(7) [OF r, THEN within_settles_bind]
  have ty: "within j j (parse_type_def fe n)"
    unfolding parse_type_def_def parse_func_type_fields_def
    by (intro within_steps within_seq [OF within_type_groups] within_settles_then [OF settles_case_option] settles_modify settles_prims)
      (use assms in \<open>auto simp: left_def\<close>)
  have im: "within j j (parse_import fe n)"
    unfolding parse_import_def
    by (intro within_steps within_seq [OF within_type_use] within_tail [OF within_skip]) (use assms in auto)
  have fn: "within j j (parse_func_def fe n)"
    unfolding parse_func_def_def
    by (intro within_steps within_seq [OF within_head_loop] within_seq [OF within_fuel(1)] within_settles_then [OF settles_modify])
      (use assms in \<open>auto simp: left_def\<close>)
  have skip: "within j j (sbind (gets lookahead) (\<lambda>l. if l = Some LParen then sthen (bump fe) (sbind (gets lookahead) (\<lambda>l.
          if l = kw ''import'' then sthen (skip_rest_of_list fe n) (sthen (expect_rparen fe) (ret True))
          else sthen (skip_rest_of_list fe n) (ret False))) else ret False))" if "3 * j + 1 \<le> n" for j
    by (intro within_if within_steps within_seq_then [OF within_skip]) (use that in auto)
  have mx: "settles (sbind (gets lookahead) (\<lambda>l. case int_of l of Some v \<Rightarrow> sthen (bump fe) (ret (Some v)) | None \<Rightarrow> ret None))"
    by (intro settles_rules)
  have me: "within j j (parse_memory fe n)"
    unfolding parse_memory_def
    by (intro within_bump_then within_settles_then [OF settles_tokens(5)] within_seq [OF skip] within_if within_ret z within_settles_bind [OF mx]
        within_steps) (use assms in auto)
  have ex: "within j j (parse_export fe n)"
    unfolding parse_export_def
    by (intro within_steps within_seq_then [OF within_skip]) (use assms in auto)
  have off: "settles (sbind (gets lookahead) (\<lambda>l. if l = Some LParen then sthen (bump fe) (sbind (gets lookahead) (\<lambda>l.
         sthen (if l = kw ''offset'' then sthen (bump fe) (bump fe) else ret ())
         (sthen (expect_keyword fe ''i32.const'') (sbind (int_or fe (ret 0)) (\<lambda>v. sthen (expect_rparen fe) (ret v)))))) else ret 0))"
    by (intro settles_rules)
  have da: "within j j (parse_data fe n)"
    unfolding parse_data_def
    by (intro within_bump_then z within_settles_bind [OF off] within_seq [OF within_data_strings] within_steps) (use assms in auto)
  show ?thesis
    unfolding parse_field_def
    by (intro within_read within_if ty im fn me ex da within_bump_then within_tail [OF within_skip]) (use assms in auto)
qed

lemma within_fields_loop: "3 * j + 1 \<le> n \<Longrightarrow> within j j (fields_loop fe n)"
proof (induction n arbitrary: j)
  case (Suc n)
  have lp: "within j (j - 1) (expect_lparen fe)"
    unfolding expect_lparen_def expect_def by (intro within_read within_if within_panic within_bump)
  have ih: "within (j - 1) j (fields_loop fe n)" if "0 < j"
    by (rule within_tail [OF Suc.IH]) (use Suc.prems that in auto)
  show ?case unfolding fields_loop.simps
    by (rule within_look; intro within_if within_ret within_sthen [OF lp] within_seq_then [OF within_field] ih) (use Suc.prems in auto)
qed simp

lemma within_module: "3 * j + 1 \<le> n \<Longrightarrow> within j j (parse_module fe n)"
  unfolding parse_module_def
  by (intro within_steps within_seq_then [OF within_fields_loop] within_gets) auto

text \<open>More fuel changes nothing: \<open>more m m'\<close> says that \<open>m'\<close> does what \<open>m\<close> does wherever that returns.\<close>

definition more :: "'a pm \<Rightarrow> 'a pm \<Rightarrow> bool" where
  "more m m' \<longleftrightarrow> (\<forall>s. fst (m s) \<noteq> Hang \<longrightarrow> m' s = m s)"

named_theorems more_rules

lemma more_refl: "more m m"
  by (simp add: more_def)

lemma more_hang: "more hang m"
  by (simp add: more_def hang_def)

lemma more_sbind [more_rules]: "more m m' \<Longrightarrow> (\<And>x. more (f x) (f' x)) \<Longrightarrow> more (sbind m f) (sbind m' f')"
  by (fastforce simp: more_def sbind_def split: prod.splits result.splits)

lemma more_sthen [more_rules]: "more m m' \<Longrightarrow> more k k' \<Longrightarrow> more (sthen m k) (sthen m' k')"
  unfolding sthen_def by (rule more_sbind)

lemma more_if [more_rules]: "more a a' \<Longrightarrow> more b b' \<Longrightarrow> more (if c then a else b) (if c then a' else b')"
  by simp

lemma more_case_option [more_rules]: "more a a' \<Longrightarrow> (\<And>x. more (f x) (f' x)) \<Longrightarrow> more (case_option a f x) (case_option a' f' x)"
  by (cases x) simp_all

lemma more_case_prod [more_rules]: "(\<And>a b. more (f a b) (f' a b)) \<Longrightarrow> more (case_prod f p) (case_prod f' p)"
  by (cases p) simp

lemma more_skip_list [more_rules]: "more (skip_list fe n d) (skip_list fe (n + k) d)"
  by (induction n arbitrary: d) (auto simp: more_hang intro!: more_rules more_refl)

lemma more_val_types [more_rules]: "more (val_types fe n out) (val_types fe (n + k) out)"
  by (induction n arbitrary: out) (auto simp: more_hang intro!: more_rules more_refl)

lemma more_memarg_loop [more_rules]: "more (memarg_loop fe n a b) (memarg_loop fe (n + k) a b)"
  by (induction n arbitrary: a b) (auto simp: more_hang intro!: more_rules more_refl)

lemma more_data_strings [more_rules]: "more (data_strings fe n) (data_strings fe (n + k))"
  by (induction n) (auto simp: more_hang intro!: more_rules more_refl)

lemma more_skip [more_rules]: "more (skip_rest_of_list fe n) (skip_rest_of_list fe (n + k))"
  unfolding skip_rest_of_list_def by (rule more_skip_list)

lemma more_group [more_rules]: "more (parse_param_or_result_group fe n pr) (parse_param_or_result_group fe (n + k) pr)"
  unfolding parse_param_or_result_group_def by (auto intro!: more_rules more_refl)

lemma more_type_groups [more_rules]: "more (type_groups fe n pr) (type_groups fe (n + k) pr)"
  by (induction n arbitrary: pr) (auto simp: more_hang intro!: more_rules more_refl)

lemma more_build_instr [more_rules]: "more (build_instr fe n w) (build_instr fe (n + k) w)"
  unfolding build_instr_def parse_memarg_def by (intro more_rules more_refl)

lemma more_plain_instr [more_rules]: "more (parse_plain_instr fe n) (parse_plain_instr fe (n + k))"
  unfolding parse_plain_instr_def by (intro more_rules more_refl)

lemma more_instrs:
  "more (parse_instrs fe n) (parse_instrs fe (n + k)) \<and> more (parse_folded_instr fe n) (parse_folded_instr fe (n + k))
   \<and> more (operands fe n) (operands fe (n + k)) \<and> more (parse_folded_if fe n) (parse_folded_if fe (n + k))
   \<and> more (if_clauses fe n) (if_clauses fe (n + k)) \<and> more (parse_folded_block_or_loop fe n) (parse_folded_block_or_loop fe (n + k))"
proof (induction n)
  case (Suc n)
  then show ?case
    unfolding add_Suc parse_instrs.simps parse_folded_instr.simps operands.simps parse_folded_if.simps if_clauses.simps
      parse_folded_block_or_loop.simps instrs_step_def folded_step_def operands_step_def if_step_def clauses_step_def block_step_def
    by (elim conjE) (intro conjI; (intro more_rules | assumption | rule more_refl)+)
qed (simp add: more_hang)

lemmas more_instr_rules [more_rules] = more_instrs [THEN conjunct1] more_instrs [THEN conjunct2, THEN conjunct1]

lemma more_head_group [more_rules]: "more (head_group fe n fidx h) (head_group fe (n + k) fidx h)"
  unfolding head_group_def group_types_def by (intro more_rules more_refl)

lemma more_head_loop [more_rules]: "more (head_loop fe n fidx h) (head_loop fe (n + k) fidx h)"
  by (induction n arbitrary: h) (auto simp: more_hang intro!: more_rules more_refl)

lemma more_field [more_rules]: "more (parse_field fe n) (parse_field fe (n + k))"
  unfolding parse_field_def parse_type_def_def parse_import_def parse_func_def_def parse_memory_def parse_export_def parse_data_def
    parse_type_use_def parse_func_type_fields_def finish_inline_func_type_after_lparen_def
  by (intro more_rules more_refl)

lemma more_fields_loop [more_rules]: "more (fields_loop fe n) (fields_loop fe (n + k))"
  by (induction n) (auto simp: more_hang intro!: more_rules more_refl)

lemma more_module: "more (parse_module fe n) (parse_module fe (n + k))"
  unfolding parse_module_def by (intro more_rules more_refl)

lemma parse_wat_cases:
  assumes "wat_fuel src \<le> n"
  shows "parse_wat fe n src = Panic \<or> (\<exists>m. parse_wat fe n src = Ok m)"
proof (cases "next_token fe src")
  case (Ok p)
  obtain t r where p: "p = (t, r)" by (cases p)
  let ?s = "\<lparr>tok_rest = r, lookahead = t, unget = None, func_names = [], type_names = [], local_names = [], pmod = empty_wat\<rparr>"
  have "left ?s \<le> 2 * length src"
  proof (cases t)
    case None
    then show ?thesis using Ok p next_token_None [of fe src r] by (simp add: left_def held_def)
  next
    case (Some t')
    then have "length r < length src" using Ok p next_token_Some [of fe src t' r] by simp
    then show ?thesis using Some by (simp add: left_def held_def)
  qed
  moreover have "within (2 * length src) (2 * length src) (parse_module fe n)"
    by (rule within_module) (use assms in \<open>simp add: wat_fuel_def\<close>)
  ultimately show ?thesis
    using Ok p by (cases "parse_module fe n ?s"; cases "fst (parse_module fe n ?s)")
      (auto simp: parse_wat_def parser_new_def within_def split: prod.splits)
qed (auto simp: parse_wat_def parser_new_def next_token_not_Hang next_token_not_Err)

text \<open>
  C23: The parser always returns. Whatever the source, six units of fuel for every byte of it are enough: parsing ends
  with a module or in a panic, and more fuel gives the same outcome.
\<close>

theorem parse_wat_returns:
  assumes "wat_fuel src \<le> n"
  shows "parse_wat fe n src = parse_wat fe (wat_fuel src) src
    \<and> (parse_wat fe n src = Panic \<or> (\<exists>m. parse_wat fe n src = Ok m))"
proof
  obtain k where n: "n = wat_fuel src + k" using assms le_Suc_ex by blast
  have "fst (parse_module fe (wat_fuel src) p) \<noteq> Hang" if "parser_new fe src = Ok p" for p
    using parse_wat_cases [of src "wat_fuel src" fe] that by (auto simp: parse_wat_def)
  then show "parse_wat fe n src = parse_wat fe (wat_fuel src) src"
    using more_module [of fe "wat_fuel src" k] by (cases "parser_new fe src") (auto simp: n parse_wat_def more_def)
qed (rule parse_wat_cases [OF assms])

theorem parse_wat_returns_witness:
  "\<forall>fe. parse_wat fe 5000 (str_bytes ''(module)'') = parse_wat fe (wat_fuel (str_bytes ''(module)'')) (str_bytes ''(module)'')"
  using parse_wat_returns [of "str_bytes ''(module)''" 5000] by (simp add: wat_fuel_def str_bytes_def)

end
