(* ===== verification/Wat_Printer.thy ===== *)
theory Wat_Printer
  imports Wat_Parser
begin

text \<open>
  The assembler read back: a printer of modules in the text format, and the proof that the tokenizer and
  the parser recover the module from its text. The printer is specification; the kernel has none.
\<close>

section \<open>The token stream of a parser state\<close>

text \<open>The tokens of a text, up to its end or to the first one that panics.\<close>

function lex_all :: "float_env \<Rightarrow> bytes \<Rightarrow> token list" where
  "lex_all fe r = (case next_token fe r of Ok (Some t, r') \<Rightarrow> t # lex_all fe r' | _ \<Rightarrow> [])"
  by pat_completeness auto
termination
  by (relation "measure (length \<circ> snd)") (auto dest: next_token_Some)

function lex_ok :: "float_env \<Rightarrow> bytes \<Rightarrow> bool" where
  "lex_ok fe r = (case next_token fe r of Ok (Some t, r') \<Rightarrow> lex_ok fe r' | Ok (None, r') \<Rightarrow> True | _ \<Rightarrow> False)"
  by pat_completeness auto
termination
  by (relation "measure (length \<circ> snd)") (auto dest: next_token_Some)

declare lex_all.simps [simp del] lex_ok.simps [simp del]

lemma lex_step: "next_token fe r = Ok (Some t, r') \<Longrightarrow> lex_all fe r = t # lex_all fe r' \<and> (lex_ok fe r \<longleftrightarrow> lex_ok fe r')"
  by (simp add: lex_all.simps [of fe r] lex_ok.simps [of fe r])

lemma lex_end: "next_token fe r = Ok (None, r') \<Longrightarrow> lex_all fe r = [] \<and> lex_ok fe r"
  by (simp add: lex_all.simps [of fe r] lex_ok.simps [of fe r])

definition toks :: "float_env \<Rightarrow> parser \<Rightarrow> token list" where
  "toks fe s = opt_list (lookahead s) @ opt_list (unget s) @ lex_all fe (tok_rest s)"

definition ready :: "float_env \<Rightarrow> parser \<Rightarrow> bool" where
  "ready fe s \<longleftrightarrow> lex_ok fe (tok_rest s) \<and> (lookahead s = None \<longrightarrow> unget s = None \<and> lex_all fe (tok_rest s) = [])"

definition head_of :: "'a list \<Rightarrow> 'a option" where
  "head_of xs = (case xs of [] \<Rightarrow> None | x # _ \<Rightarrow> Some x)"

lemma head_of_simps [simp]: "head_of [] = None" "head_of (x # xs) = Some x"
  by (simp_all add: head_of_def)

lemma lookahead_toks: "ready fe s \<Longrightarrow> lookahead s = head_of (toks fe s)"
  by (cases "lookahead s") (auto simp: ready_def toks_def opt_list_def)

definition nxt :: "float_env \<Rightarrow> parser \<Rightarrow> parser" where
  "nxt fe s = snd (bump fe s)"

lemma lex_ok_next: "lex_ok fe r \<Longrightarrow> \<exists>t r'. next_token fe r = Ok (t, r') \<and> lex_ok fe r' \<and> lex_all fe r = opt_list t @ lex_all fe r'
    \<and> (t = None \<longrightarrow> lex_all fe r' = [])"
proof -
  assume ok: "lex_ok fe r"
  then obtain t r' where n: "next_token fe r = Ok (t, r')"
    by (cases "next_token fe r") (auto simp: lex_ok.simps [of fe r])
  have e: "next_token fe [] = Ok (None, [])" by (simp add: next_token_def)
  show ?thesis
  proof (cases t)
    case None
    then show ?thesis using n next_token_None [of fe r r'] lex_end [OF e] lex_end [of fe r] by (simp add: opt_list_def)
  next
    case (Some a)
    then show ?thesis using n ok lex_step [of fe r a r'] by (simp add: opt_list_def)
  qed
qed

lemma bump_ready:
  assumes "ready fe s"
  shows "bump fe s = (Ok (), nxt fe s) \<and> ready fe (nxt fe s) \<and> toks fe (nxt fe s) = tl (toks fe s)"
proof (cases "unget s")
  case None
  obtain t r' where n: "next_token fe (tok_rest s) = Ok (t, r')" "lex_ok fe r'" "lex_all fe (tok_rest s) = opt_list t @ lex_all fe r'"
      "t = None \<longrightarrow> lex_all fe r' = []"
    using lex_ok_next [of fe "tok_rest s"] assms by (auto simp: ready_def)
  then show ?thesis
    using assms None by (cases "lookahead s") (auto simp: nxt_def bump_def ready_def toks_def opt_list_def split: option.splits)
next
  case (Some u)
  then show ?thesis
    using assms by (cases "lookahead s") (auto simp: nxt_def bump_def ready_def toks_def opt_list_def)
qed

lemma nxt_fields [simp]:
  "func_names (nxt fe s) = func_names s" "type_names (nxt fe s) = type_names s" "local_names (nxt fe s) = local_names s"
  "pmod (nxt fe s) = pmod s"
  by (auto simp: nxt_def bump_def split: option.splits result.splits prod.splits)

lemma ready_upd [simp]:
  "ready fe (s\<lparr>pmod := m\<rparr>) = ready fe s" "ready fe (s\<lparr>local_names := ln\<rparr>) = ready fe s"
  "toks fe (s\<lparr>pmod := m\<rparr>) = toks fe s" "toks fe (s\<lparr>local_names := ln\<rparr>) = toks fe s"
  by (simp_all add: ready_def toks_def)

section \<open>The text of a token\<close>

definition plain_keyword :: "bytes \<Rightarrow> bool" where
  "plain_keyword k \<longleftrightarrow> k \<noteq> [] \<and> list_all (\<lambda>c. 0x21 \<le> c \<and> c < 0x7F \<and> c \<noteq> 0x28 \<and> c \<noteq> 0x29) k
     \<and> (case k of c # _ \<Rightarrow> 0x61 \<le> c \<and> c \<le> 0x7A | [] \<Rightarrow> False)"

primrec tok_text :: "token \<Rightarrow> bytes" where
  "tok_text LParen = [0x28]"
| "tok_text RParen = [0x29]"
| "tok_text (Keyword k) = k"
| "tok_text (Identifier i) = i"
| "tok_text (IntLit n) = int_str (sint n)"
| "tok_text (FloatLit f) = []"
| "tok_text (StringLiteral s) = 0x22 # s @ [0x22]"

primrec tok_plain :: "token \<Rightarrow> bool" where
  "tok_plain LParen = True"
| "tok_plain RParen = True"
| "tok_plain (Keyword k) = plain_keyword k"
| "tok_plain (Identifier i) = False"
| "tok_plain (IntLit n) = (n \<noteq> 0x80000000)"
| "tok_plain (FloatLit f) = False"
| "tok_plain (StringLiteral s) = (ascii s \<and> 0x22 \<notin> set s)"

definition render :: "token list \<Rightarrow> bytes" where
  "render ts = concat (map (\<lambda>t. tok_text t @ [0x20]) ts)"

lemma ws_space [simp]: "is_whitespace 0x20" "\<not> utf8_cont 0x20" "\<not> keyword_char 0x20" "\<not> num_char 0x20"
  by (simp_all add: is_whitespace_def utf8_cont_def keyword_char_def num_char_def is_dec_def)

lemma skip_space [simp]: "next_token fe (0x20 # r) = next_token fe r"
  by (simp add: next_token_def)

lemma boundary_ascii: "c < 0x80 \<Longrightarrow> boundary (c # r)"
  by (simp add: boundary_def utf8_cont_def not_le)

lemma dropWhile_stop: "list_all P xs \<Longrightarrow> \<not> P y \<Longrightarrow> dropWhile P (xs @ y # ys) = y # ys \<and> takeWhile P (xs @ y # ys) = xs"
  by (induction xs) auto

lemma keyword_char_plain: "0x21 \<le> c \<Longrightarrow> c < 0x7F \<Longrightarrow> c \<noteq> 0x28 \<Longrightarrow> c \<noteq> 0x29 \<Longrightarrow> keyword_char c"
proof -
  assume a: "0x21 \<le> c" "c < 0x7F" "c \<noteq> 0x28" "c \<noteq> 0x29"
  have "\<not> c \<le> 13" using order.trans [OF a(1), of 13] by auto
  moreover have "c \<noteq> 0x20" "c \<noteq> 0x85" "c \<noteq> 0xA0" using a(1,2) by auto
  ultimately show ?thesis using a(3,4) by (simp add: keyword_char_def is_whitespace_def)
qed

lemma keyword_token:
  assumes "plain_keyword k"
  shows "next_token fe (k @ 0x20 # r) = Ok (Some (Keyword k), 0x20 # r)"
proof -
  obtain c cs where k: "k = c # cs" and c: "0x61 \<le> c" "c \<le> 0x7A" using assms by (auto simp: plain_keyword_def split: list.splits)
  have all: "list_all keyword_char k"
    using assms keyword_char_plain by (simp add: plain_keyword_def list_all_iff)
  have c': "\<not> is_whitespace c" "c \<noteq> 0x3B" "c \<noteq> 0x28" "c \<noteq> 0x29" "c \<noteq> 0x24" "c \<noteq> 0x22" "\<not> is_dec c" "c \<noteq> 0x2D" "c < 0x80"
    using c by (auto simp: is_whitespace_def is_dec_def word_le_nat_alt word_less_nat_alt)
  have "read_keyword (k @ 0x20 # r) = Ok (Keyword k, 0x20 # r)"
    using c'(9) dropWhile_stop [OF all, of "0x20" r] by (simp add: read_keyword_def str_slice_def k boundary_ascii)
  then show ?thesis using c' by (simp add: next_token_def k)
qed

lemma string_token:
  assumes "ascii s" and "0x22 \<notin> set s"
  shows "next_token fe (0x22 # s @ 0x22 # r) = Ok (Some (StringLiteral s), r)"
proof -
  have "list_all (\<lambda>c. c \<noteq> 0x22) s" using assms(2) by (auto simp: list_all_iff)
  then have "dropWhile (\<lambda>c. c \<noteq> 0x22) (s @ 0x22 # r) = 0x22 # r" using dropWhile_stop [of "\<lambda>c. c \<noteq> 0x22" s "0x22" r] by simp
  moreover have "boundary (s @ 0x22 # r)" using assms(1) by (cases s) (simp_all add: boundary_ascii)
  ultimately have "read_string (0x22 # s @ 0x22 # r) = Ok (StringLiteral s, r)"
    by (simp add: read_string_def str_slice_def boundary_ascii)
  then show ?thesis by (simp add: next_token_def is_whitespace_def)
qed

lemma wat_digits_dec:
  "list_all is_dec bs \<Longrightarrow> dec_from v bs < 2 ^ 31 \<Longrightarrow> wat_digits (int v) bs = Ok (int (dec_from v bs))"
proof (induction bs arbitrary: v)
  case (Cons b bs)
  have d: "int v * 10 + uint (b - 0x30) = int (v * 10 + digit_value b)" by (simp add: digit_value_def)
  have e: "dec_from v (b # bs) = dec_from (v * 10 + digit_value b) bs" by (simp add: dec_from_def)
  have "v * 10 + digit_value b < 2 ^ 31"
    using Cons.prems(2) dec_from_ge [of "v * 10 + digit_value b" bs] by (simp add: e)
  then have "int (v * 10 + digit_value b) < int (2 ^ 31)" by (simp only: of_nat_less_iff)
  then have "\<not> int v * 10 + uint (b - 0x30) \<ge> 2 ^ 31" unfolding d by simp
  moreover have "wat_digits (int v * 10 + uint (b - 0x30)) bs = Ok (int (dec_from v (b # bs)))"
    unfolding d e by (rule Cons.IH) (use Cons.prems e in auto)
  ultimately show ?case using Cons.prems by simp
qed (simp add: dec_from_def)

lemma wat_digits_str: "n < 2 ^ 31 \<Longrightarrow> wat_digits 0 (dec_str n) = Ok (int n)"
  using wat_digits_dec [of "dec_str n" 0] dec_val_str [of n] dec_str_digits [of n]
  by (simp add: dec_val_def dec_from_def is_dec_def [abs_def])

lemma parse_int_str:
  assumes "- (2 ^ 31) < i" and "i < 2 ^ 31"
  shows "wat_parse_i32 (int_str i) = Ok (word_of_int i)"
proof (cases "i < 0")
  case True
  then show ?thesis using assms wat_digits_str [of "nat (- i)"] by (simp add: wat_parse_i32_def int_str_def)
next
  case False
  then have "wat_digits 0 (dec_str (nat i)) = Ok i" using assms wat_digits_str [of "nat i"] by simp
  then show ?thesis using False dec_str_head [of "nat i"] by (auto simp: wat_parse_i32_def int_str_def split: list.split)
qed

lemma parse_sint:
  assumes "v \<noteq> 0x80000000"
  shows "wat_parse_i32 (int_str (sint v)) = Ok v"
proof -
  have "sint v \<noteq> - (2 ^ 31)"
  proof
    assume "sint v = - (2 ^ 31)"
    then have "word_of_int (sint v) = (word_of_int (- (2 ^ 31)) :: i32)" by (rule arg_cong)
    then show False using assms by simp
  qed
  then show ?thesis
    using parse_int_str [of "sint v"] sint_greater_eq [of v] sint_less [of v] by (simp add: order_less_le)
qed

lemma int_token:
  assumes "n \<noteq> 0x80000000"
  shows "next_token fe (int_str (sint n) @ 0x20 # r) = Ok (Some (IntLit n), 0x20 # r)"
proof -
  let ?s = "int_str (sint n)"
  obtain sgn ds where s: "?s = sgn @ ds" and sgn: "sgn = [] \<or> sgn = [0x2D]" and ds: "list_all is_dec ds" "ds \<noteq> []"
  proof (cases "sint n < 0")
    case True
    show thesis
      by (rule that [of "[0x2D]" "dec_str (nat (- sint n))"])
        (use True dec_str_digits dec_str_nonempty in \<open>simp_all add: int_str_def is_dec_def [abs_def]\<close>)
  next
    case False
    show thesis
      by (rule that [of "[]" "dec_str (nat (sint n))"])
        (use False dec_str_digits dec_str_nonempty in \<open>simp_all add: int_str_def is_dec_def [abs_def]\<close>)
  qed
  have dig: "num_char = (\<lambda>c. c = 0x2E \<or> is_dec c)" by (simp add: num_char_def [abs_def])
  have num: "list_all num_char ds" using ds(1) by (auto simp: num_char_def list_all_iff)
  have nodot: "0x2E \<notin> set ds" using ds(1) by (auto simp: list_all_iff is_dec_def)
  note st = dropWhile_stop [OF num, of "0x20" r]
  obtain d ds' where d: "ds = d # ds'" "is_dec d" using ds by (cases ds) auto
  then have d': "\<not> is_whitespace d" "d \<noteq> 0x3B" "d \<noteq> 0x28" "d \<noteq> 0x29" "d \<noteq> 0x24" "d \<noteq> 0x22" "d \<noteq> 0x2D" "d < 0x80"
    by (auto simp: is_whitespace_def is_dec_def word_le_nat_alt word_less_nat_alt)
  have "read_number fe (?s @ 0x20 # r) = Ok (IntLit n, 0x20 # r)"
    using sgn
  proof
    assume "sgn = []"
    then show ?thesis
      using s st nodot d d' parse_sint [OF assms] by (simp add: read_number_def str_slice_def boundary_ascii)
  next
    assume "sgn = [0x2D]"
    then show ?thesis
      using s st nodot parse_sint [OF assms] by (simp add: read_number_def str_slice_def boundary_ascii)
  qed
  then show ?thesis
    using sgn s d d' by (auto simp: next_token_def is_whitespace_def)
qed

lemma token_text:
  assumes "tok_plain t"
  shows "\<exists>r'. next_token fe (tok_text t @ 0x20 # r) = Ok (Some t, r') \<and> lex_all fe r' = lex_all fe r \<and> (lex_ok fe r' \<longleftrightarrow> lex_ok fe r)"
proof -
  have sp: "lex_all fe (0x20 # r) = lex_all fe r" "lex_ok fe (0x20 # r) \<longleftrightarrow> lex_ok fe r"
    by (simp_all add: lex_all.simps [of fe "0x20 # r"] lex_all.simps [of fe r] lex_ok.simps [of fe "0x20 # r"] lex_ok.simps [of fe r])
  show ?thesis
  proof (cases t)
    case LParen
    then show ?thesis using sp by (auto simp: next_token_def is_whitespace_def)
  next
    case RParen
    then show ?thesis using sp by (auto simp: next_token_def is_whitespace_def)
  next
    case (Keyword k)
    then show ?thesis using sp assms keyword_token [of k fe r] by auto
  next
    case (IntLit n)
    then show ?thesis using sp assms int_token [of n fe r] by auto
  next
    case (StringLiteral s)
    then show ?thesis using sp assms string_token [of s fe "0x20 # r"] by auto
  qed (use assms in simp_all)
qed

lemma lex_render: "list_all tok_plain ts \<Longrightarrow> lex_all fe (render ts) = ts \<and> lex_ok fe (render ts)"
proof (induction ts)
  case Nil
  then show ?case using lex_end [of fe "[]"] by (simp add: render_def next_token_def)
next
  case (Cons t ts)
  obtain r' where "next_token fe (tok_text t @ 0x20 # render ts) = Ok (Some t, r')" "lex_all fe r' = lex_all fe (render ts)"
      "lex_ok fe r' \<longleftrightarrow> lex_ok fe (render ts)"
    using token_text [of t fe "render ts"] Cons.prems by auto
  then show ?case using lex_step [of fe "tok_text t @ 0x20 # render ts" t r'] Cons by (simp add: render_def)
qed

section \<open>String literals\<close>

definition escape_byte :: "u8 \<Rightarrow> bytes" where
  "escape_byte b =
     (if b = 0 then [0x5C, 0x30]
      else if b = 0x5C then [0x5C, 0x5C]
      else if b = 0x22 \<or> 0x7F \<le> b then [0x5C, hex_digit (drop_bit 4 b), hex_digit (b AND 0xF)]
      else [b])"

definition escape :: "bytes \<Rightarrow> bytes" where
  "escape bs = concat (map escape_byte bs)"

lemma hex_digit_facts:
  "list_all (\<lambda>n. let d = word_of_nat n in is_ascii_hexdigit (hex_digit d) \<and> wat_hex_digit (hex_digit d) = d \<and> hex_digit d < 0x80
      \<and> hex_digit d \<noteq> 0x22 \<and> (d \<noteq> 0 \<longrightarrow> simple_escape (hex_digit d) = None)) [0..<16]"
  by code_simp

lemma hex_digit_ok:
  assumes "d < 16"
  shows "is_ascii_hexdigit (hex_digit d)" "wat_hex_digit (hex_digit d) = d" "hex_digit d < 0x80" "hex_digit d \<noteq> 0x22"
    "d \<noteq> 0 \<Longrightarrow> simple_escape (hex_digit d) = None"
  using hex_digit_facts assms
  by (auto simp: list_all_iff Let_def word_less_nat_alt dest!: bspec [of _ _ "unat d"])

lemma unescape_byte: "unescape_wat_string (escape_byte b @ r) = b # unescape_wat_string r"
proof -
  have hi: "drop_bit 4 b \<noteq> 0" if "b = 0x22 \<or> 0x7F \<le> b"
  proof
    assume z: "drop_bit 4 b = 0"
    have "push_bit 4 (drop_bit 4 b) OR b AND 0xF = b" by (rule nibbles)
    then have "b AND 0xF = b" by (simp add: z)
    then have "b < 16" using nibbles(2) [of b] by simp
    then show False using that by (auto simp: word_less_nat_alt word_le_nat_alt)
  qed
  note h = hex_digit_ok [OF nibbles(1) [of b]] and l = hex_digit_ok [OF nibbles(2) [of b]]
  show ?thesis
  proof (cases "b = 0x22 \<or> 0x7F \<le> b")
    case True
    then have "b \<noteq> 0" "b \<noteq> 0x5C" by (auto simp: word_le_nat_alt)
    then show ?thesis using True h l hi [OF True] by (simp add: escape_byte_def nibbles(3))
  next
    case False
    show ?thesis
    proof (cases "b = 0 \<or> b = 0x5C")
      case True
      then show ?thesis by (elim disjE) (simp_all add: escape_byte_def simple_escape_def)
    next
      case neq: False
      then show ?thesis using False by (cases r) (simp_all add: escape_byte_def)
    qed
  qed
qed

lemma unescape_escape: "unescape_wat_string (escape bs) = bs"
  by (induction bs) (simp_all add: escape_def unescape_byte)

lemma escape_plain: "tok_plain (StringLiteral (escape bs))"
proof -
  have "ascii (escape_byte b) \<and> 0x22 \<notin> set (escape_byte b)" for b
  proof -
    note h = hex_digit_ok(3,4) [OF nibbles(1) [of b]] and l = hex_digit_ok(3,4) [OF nibbles(2) [of b]]
    have "b < 0x80" if "\<not> 0x7F \<le> b" using that order.strict_trans [of b "0x7F" "0x80"] by simp
    then show ?thesis
      unfolding escape_byte_def using h l
      by (simp only: ascii_simps list.set insert_iff empty_iff split: if_split) simp
  qed
  then show ?thesis by (induction bs) (auto simp: escape_def)
qed

section \<open>The tokens of an instruction\<close>

definition kwt :: "string \<Rightarrow> token" where
  "kwt w = Keyword (str_bytes w)"

primrec vt_name :: "val_type \<Rightarrow> string" where
  "vt_name TI32 = ''i32''"
| "vt_name TI64 = ''i64''"
| "vt_name TF32 = ''f32''"
| "vt_name TF64 = ''f64''"

definition block_val :: "u8 \<Rightarrow> val_type option" where
  "block_val bt = find (\<lambda>v. val_type_byte v = bt) [TI32, TI64, TF32, TF64]"

definition block_toks :: "u8 \<Rightarrow> token list" where
  "block_toks bt = (case block_val bt of None \<Rightarrow> [] | Some v \<Rightarrow> [LParen, kwt ''result'', kwt (vt_name v), RParen])"

definition op_name :: "(string \<times> 'a) list \<Rightarrow> 'a \<Rightarrow> string" where
  "op_name ops i = (case find (\<lambda>(w, j). j = i) ops of Some (w, _) \<Rightarrow> w | None \<Rightarrow> [])"

fun instr_toks :: "instr \<Rightarrow> token list" where
  "instr_toks (LocalGet i) = [kwt ''local.get'', IntLit i]"
| "instr_toks (LocalSet i) = [kwt ''local.set'', IntLit i]"
| "instr_toks (LocalTee i) = [kwt ''local.tee'', IntLit i]"
| "instr_toks (I32Const v) = [kwt ''i32.const'', IntLit v]"
| "instr_toks (I64Const v) = [kwt ''i64.const'', IntLit v]"
| "instr_toks (Call i) = [kwt ''call'', IntLit i]"
| "instr_toks (Br l) = [kwt ''br'', IntLit l]"
| "instr_toks (BrIf l) = [kwt ''br_if'', IntLit l]"
| "instr_toks (If bt) = kwt ''if'' # block_toks bt"
| "instr_toks (Loop bt) = kwt ''loop'' # block_toks bt"
| "instr_toks (Block bt) = kwt ''block'' # block_toks bt"
| "instr_toks (OpMem q offset align) = [kwt (op_name MEM_OPS q), Keyword (str_bytes ''offset='' @ int_str (sint offset)),
     Keyword (str_bytes ''align='' @ int_str (sint align))]"
| "instr_toks i = [kwt (op_name PLAIN_OPS i)]"

definition small :: "u32 \<Rightarrow> bool" where
  "small v \<longleftrightarrow> v \<noteq> 0x80000000"

fun instr_plain :: "instr \<Rightarrow> bool" where
  "instr_plain (LocalGet i) = small i"
| "instr_plain (LocalSet i) = small i"
| "instr_plain (LocalTee i) = small i"
| "instr_plain (I32Const v) = small v"
| "instr_plain (I64Const v) = small v"
| "instr_plain (F32Const f) = False"
| "instr_plain (F64Const f) = False"
| "instr_plain (Call i) = small i"
| "instr_plain (Br l) = small l"
| "instr_plain (BrIf l) = small l"
| "instr_plain (If bt) = (bt = 0x40 \<or> block_val bt \<noteq> None)"
| "instr_plain (Loop bt) = (bt = 0x40 \<or> block_val bt \<noteq> None)"
| "instr_plain (Block bt) = (bt = 0x40 \<or> block_val bt \<noteq> None)"
| "instr_plain (OpMem q offset align) = (small offset \<and> small align)"
| "instr_plain i = True"

lemma str_bytes_eq [simp]: "str_bytes a = str_bytes b \<longleftrightarrow> a = b"
proof -
  have "inj (of_char :: char \<Rightarrow> u8)"
  proof (rule injI)
    fix c d :: char
    assume "(of_char c :: u8) = of_char d"
    then have "unat (word_of_nat (of_char c) :: u8) = unat (word_of_nat (of_char d) :: u8)" by (simp add: of_nat_of_char)
    then have "(of_char c :: nat) = of_char d" by (simp add: unat_word_of_nat)
    then show "c = d" by simp
  qed
  then show ?thesis by (simp add: str_bytes_def inj_map_eq_map)
qed

lemma kw_kwt: "kw w = Some (kwt w)"
  by (simp add: kw_def kwt_def)

lemma kwt_eq [simp]: "kwt a = kwt b \<longleftrightarrow> a = b" "kwt a \<noteq> LParen" "kwt a \<noteq> RParen" "LParen \<noteq> kwt a" "RParen \<noteq> kwt a"
  "kwt a \<noteq> IntLit n" "kwt a \<noteq> StringLiteral x"
  by (auto simp: kwt_def)

lemma pattern_kwt [simp]: "keyword_of (Some (kwt a)) = Some (str_bytes a)" "ident_of (Some (kwt a)) = None" "int_of (Some (kwt a)) = None"
  "string_of (Some (kwt a)) = None"
  by (simp_all add: kwt_def)

section \<open>Running the parser on a token stream\<close>

lemma bump_run [simp]: "ready fe s \<Longrightarrow> bump fe s = (Ok (), nxt fe s)" "ready fe s \<Longrightarrow> ready fe (nxt fe s)"
  "ready fe s \<Longrightarrow> toks fe (nxt fe s) = tl (toks fe s)"
  using bump_ready [of fe s] by simp_all

lemma run_look: "ready fe s \<Longrightarrow> sbind (gets lookahead) f s = f (head_of (toks fe s)) s"
  by (simp add: sbind_def gets_def lookahead_toks)

lemma run_bump: "ready fe s \<Longrightarrow> sthen (bump fe) m s = m (nxt fe s)"
  by (simp add: sthen_def sbind_def)

lemma run_expect: "ready fe s \<Longrightarrow> head_of (toks fe s) = t \<Longrightarrow> expect fe t s = (Ok (), nxt fe s)"
  by (simp add: expect_def run_look)

lemma run_parens:
  "ready fe s \<Longrightarrow> head_of (toks fe s) = Some LParen \<Longrightarrow> expect_lparen fe s = (Ok (), nxt fe s)"
  "ready fe s \<Longrightarrow> head_of (toks fe s) = Some RParen \<Longrightarrow> expect_rparen fe s = (Ok (), nxt fe s)"
  "ready fe s \<Longrightarrow> head_of (toks fe s) = Some (kwt w) \<Longrightarrow> expect_keyword fe w s = (Ok (), nxt fe s)"
  by (simp_all add: expect_lparen_def expect_rparen_def expect_keyword_def kw_kwt run_expect)

lemma run_no_ident: "ready fe s \<Longrightarrow> ident_of (head_of (toks fe s)) = None \<Longrightarrow> try_identifier fe s = (Ok None, s)"
  by (simp add: try_identifier_def run_look ret_def)

lemma run_int: "ready fe s \<Longrightarrow> head_of (toks fe s) = Some (IntLit n) \<Longrightarrow> int_or fe other s = (Ok n, nxt fe s)"
  by (simp add: int_or_def run_look run_bump ret_def)

lemma run_no_int: "ready fe s \<Longrightarrow> int_of (head_of (toks fe s)) = None \<Longrightarrow> int_or fe other s = other s"
  by (simp add: int_or_def run_look)

lemma run_string: "ready fe s \<Longrightarrow> head_of (toks fe s) = Some (StringLiteral (escape bs)) \<Longrightarrow> expect_string fe s = (Ok bs, nxt fe s)"
  by (simp add: expect_string_def run_look run_bump ret_def unescape_escape)

lemma run_ok: "m s = (Ok x, s') \<Longrightarrow> sbind m f s = f x s'" "m s = (Ok x, s') \<Longrightarrow> sthen m k s = k s'"
  by (rule run_step; assumption)+

definition skip_toks :: "float_env \<Rightarrow> nat \<Rightarrow> parser \<Rightarrow> parser" where
  "skip_toks fe k = (nxt fe ^^ k)"

lemma skip_toks_simps [simp]:
  "skip_toks fe 0 s = s" "ready fe s \<Longrightarrow> ready fe (skip_toks fe k s)" "ready fe s \<Longrightarrow> toks fe (skip_toks fe k s) = drop k (toks fe s)"
  "func_names (skip_toks fe k s) = func_names s" "type_names (skip_toks fe k s) = type_names s"
  "local_names (skip_toks fe k s) = local_names s" "pmod (skip_toks fe k s) = pmod s"
proof -
  have "ready fe s \<Longrightarrow> ready fe (skip_toks fe k s) \<and> toks fe (skip_toks fe k s) = drop k (toks fe s)"
    by (induction k) (simp_all add: skip_toks_def drop_Suc tl_drop)
  then show "ready fe s \<Longrightarrow> ready fe (skip_toks fe k s)" "ready fe s \<Longrightarrow> toks fe (skip_toks fe k s) = drop k (toks fe s)" by simp_all
  show "func_names (skip_toks fe k s) = func_names s" "type_names (skip_toks fe k s) = type_names s"
    "local_names (skip_toks fe k s) = local_names s" "pmod (skip_toks fe k s) = pmod s"
    by (induction k) (simp_all add: skip_toks_def)
qed (simp add: skip_toks_def)

lemma skip_toks_nxt: "skip_toks fe k (nxt fe s) = skip_toks fe (Suc k) s" "nxt fe s = skip_toks fe 1 s"
    "skip_toks fe j (skip_toks fe k s) = skip_toks fe (k + j) s"
  by (simp_all add: skip_toks_def funpow_swap1 funpow_add add.commute [of k])

text \<open>Keyword of an instruction: it is found in the tables and is none of the special ones.\<close>

definition SPECIAL_OPS :: "string list" where
  "SPECIAL_OPS = [''i32.const'', ''i64.const'', ''f32.const'', ''f64.const'', ''local.get'', ''get_local'', ''local.set'', ''set_local'',
     ''local.tee'', ''tee_local'', ''call'', ''br'', ''br_if'', ''if'', ''loop'', ''block'']"

lemma op_named_str: "op_named ops (str_bytes w) = map_option snd (find (\<lambda>(v, _). v = w) ops)"
  by (simp add: op_named_def case_prod_beta)

lemma build_by_table:
  assumes "w \<notin> set SPECIAL_OPS"
  shows "build_instr fe n (str_bytes w) = (case op_named MEM_OPS (str_bytes w) of
      Some q \<Rightarrow> sbind (parse_memarg fe n) (\<lambda>(offset, align). ret (Some (OpMem q offset align)))
    | None \<Rightarrow> ret (op_named PLAIN_OPS (str_bytes w)))"
  using assms by (simp add: build_instr_def SPECIAL_OPS_def)

text \<open>The words of the tables: of lower-case letters, digits, points and underscores, and not beginning like a memory operand.\<close>

definition LETTERS :: string where "LETTERS = ''abcdefghijklmnopqrstuvwxyz''"
definition WORD_CHARS :: string where "WORD_CHARS = LETTERS @ ''0123456789._''"

definition op_word :: "string \<Rightarrow> bool" where
  "op_word w \<longleftrightarrow> w \<noteq> [] \<and> list_all (\<lambda>c. c \<in> set WORD_CHARS) w \<and> hd w \<in> set LETTERS"

lemma op_words: "list_all (\<lambda>(w, i). op_word w) PLAIN_OPS" "list_all (\<lambda>(w, q). op_word w) MEM_OPS" "list_all op_word SPECIAL_OPS"
  by code_simp+

lemma word_chars:
  "list_all (\<lambda>c. 0x21 \<le> (of_char c :: u8) \<and> (of_char c :: u8) < 0x7F \<and> (of_char c :: u8) \<noteq> 0x28 \<and> (of_char c :: u8) \<noteq> 0x29
     \<and> (of_char c :: u8) \<noteq> 0x3D) WORD_CHARS"
  "list_all (\<lambda>c. 0x61 \<le> (of_char c :: u8) \<and> (of_char c :: u8) \<le> 0x7A) LETTERS"
  by code_simp+

lemma op_word_keyword: "op_word w \<Longrightarrow> plain_keyword (str_bytes w) \<and> 0x3D \<notin> set (str_bytes w)"
  using word_chars by (cases w) (auto simp: op_word_def plain_keyword_def str_bytes_def list_all_iff)

lemma op_word_no_operand: "op_word w \<Longrightarrow> keyword_suffix ''offset='' (Some (kwt w)) = None \<and> keyword_suffix ''align='' (Some (kwt w)) = None"
  using op_word_keyword [of w] by (auto simp: keyword_suffix_def starts_with_iff) (auto simp: str_bytes_def)

lemma tables_disjoint:
  "distinct (map fst PLAIN_OPS)" "distinct (map fst MEM_OPS)"
  "list_all (\<lambda>(w, i). w \<notin> set SPECIAL_OPS) PLAIN_OPS" "list_all (\<lambda>(w, q). w \<notin> set SPECIAL_OPS) MEM_OPS"
  "list_all (\<lambda>(w, i). list_all (\<lambda>(v, q). v \<noteq> w) MEM_OPS) PLAIN_OPS"
  by code_simp+

lemma find_named: "distinct (map fst ops) \<Longrightarrow> (w, i) \<in> set ops \<Longrightarrow> op_named ops (str_bytes w) = Some i"
  unfolding op_named_str by (induction ops) (auto simp: rev_image_eqI)

lemma plain_built: "(w, i) \<in> set PLAIN_OPS \<Longrightarrow> build_instr fe n (str_bytes w) = ret (Some i)"
proof -
  assume i: "(w, i) \<in> set PLAIN_OPS"
  then have "op_named MEM_OPS (str_bytes w) = None"
    using tables_disjoint(5) by (auto simp: op_named_str find_None_iff list_all_iff)
  then show ?thesis
    using i tables_disjoint(3) build_by_table [of w fe n] find_named [OF tables_disjoint(1) i] by (auto simp: list_all_iff)
qed

lemma mem_built:
  assumes q: "(w, q) \<in> set MEM_OPS"
  shows "build_instr fe n (str_bytes w) = sbind (parse_memarg fe n) (\<lambda>(offset, align). ret (Some (OpMem q offset align)))"
  using q tables_disjoint(4) build_by_table [of w fe n] find_named [OF tables_disjoint(2) q] by (auto simp: list_all_iff)

definition tabled :: "instr \<Rightarrow> bool" where
  "tabled i \<longleftrightarrow> (\<exists>w. (w, i) \<in> set PLAIN_OPS)"

lemma op_name_in: "(w, i) \<in> set ops \<Longrightarrow> (op_name ops i, i) \<in> set ops"
  by (induction ops) (auto simp: op_name_def)

lemma tabled_i32: "tabled (OpI32 a)" by (cases a) (simp_all add: tabled_def PLAIN_OPS_def)
lemma tabled_i64: "tabled (OpI64 b)" by (cases b) (simp_all add: tabled_def PLAIN_OPS_def)
lemma tabled_float: "tabled (OpFloat c)" by (cases c) (simp_all add: tabled_def PLAIN_OPS_def)

lemma tabled_rest: "tabled Unreachable" "tabled Nop" "tabled Return" "tabled Drop" "tabled Else" "tabled End" "tabled Select"
  by (simp_all add: tabled_def PLAIN_OPS_def)

lemma mem_op_in: "(op_name MEM_OPS q, q) \<in> set MEM_OPS"
  by (cases q) (simp_all add: op_name_def MEM_OPS_def)

lemmas tabled_all = tabled_i32 tabled_i64 tabled_float tabled_rest

lemma tabled_toks: "tabled i \<Longrightarrow> instr_toks i = [kwt (op_name PLAIN_OPS i)] \<Longrightarrow> ready fe s \<Longrightarrow> toks fe s = instr_toks i @ ts \<Longrightarrow>
    parse_plain_instr fe n s = (Ok (Some i), skip_toks fe (length (instr_toks i)) s)"
proof -
  assume a: "tabled i" "instr_toks i = [kwt (op_name PLAIN_OPS i)]" "ready fe s" "toks fe s = instr_toks i @ ts"
  have "build_instr fe n (str_bytes (op_name PLAIN_OPS i)) = ret (Some i)"
    using a(1) op_name_in plain_built unfolding tabled_def by metis
  then show ?thesis
    using a by (simp add: parse_plain_instr_def run_look [of fe] run_bump ret_def skip_toks_nxt(2) [symmetric] flip: One_nat_def)
qed

text \<open>Block types.\<close>

lemma block_val_Some: "block_val bt = Some v \<Longrightarrow> val_type_byte v = bt"
  by (auto simp: block_val_def split: if_splits)

lemma val_type_kwt [simp]: "val_type_of (Some (kwt (vt_name v))) = Some v"
  by (cases v) (simp_all add: val_type_of_def val_type_from_kw_def)

lemma run_block_type:
  assumes "bt = 0x40 \<or> block_val bt \<noteq> None" and "ready fe s" and "toks fe s = block_toks bt @ t # ts" and "t \<noteq> LParen"
  shows "parse_block_type fe s = (Ok bt, skip_toks fe (length (block_toks bt)) s)"
proof (cases "block_val bt")
  case None
  then show ?thesis using assms by (simp add: parse_block_type_def run_look [of fe] block_toks_def ret_def)
next
  case (Some v)
  then show ?thesis
    using assms block_val_Some [OF Some]
    by (simp add: parse_block_type_def run_look [of fe] run_bump block_toks_def kw_kwt run_ok run_parens ret_def skip_toks_def numeral_eq_Suc)
qed

text \<open>One instruction, and a sequence of them. What follows an instruction decides where a memory operand or a block type ends.\<close>

definition follows :: "token \<Rightarrow> bool" where
  "follows t \<longleftrightarrow> t \<noteq> LParen \<and> keyword_suffix ''offset='' (Some t) = None \<and> keyword_suffix ''align='' (Some t) = None"

lemma keyword_suffix_self: "keyword_suffix p (Some (Keyword (str_bytes p @ r))) = Some r"
  by (simp add: keyword_suffix_def starts_with_iff str_bytes_def)

lemma keyword_suffix_other: "keyword_suffix ''offset='' (Some (Keyword (str_bytes ''align='' @ r))) = None"
  by (simp add: keyword_suffix_def str_bytes_def)

lemma run_memarg:
  assumes "small offset" and "small align" and "ready fe s" and "follows t"
    and "toks fe s = Keyword (str_bytes ''offset='' @ int_str (sint offset)) # Keyword (str_bytes ''align='' @ int_str (sint align)) # t # ts"
  shows "parse_memarg fe (Suc (Suc (Suc n))) s = (Ok (offset, align), skip_toks fe 2 s)"
proof -
  have p: "wat_parse_i32 (int_str (sint v)) = Ok v" if "small v" for v
    using that by (simp add: small_def parse_sint)
  show ?thesis
    using assms by (simp add: parse_memarg_def run_look [of fe] run_bump keyword_suffix_self keyword_suffix_other run_lift p ret_def
        skip_toks_def numeral_eq_Suc follows_def)
qed

lemma run_instr:
  assumes "instr_plain i" and "ready fe s" and "toks fe s = instr_toks i @ t # ts" and "follows t" and "3 \<le> n"
  shows "parse_plain_instr fe n s = (Ok (Some i), skip_toks fe (length (instr_toks i)) s)"
proof -
  obtain k where n: "n = Suc (Suc (Suc k))" using le_Suc_ex [OF assms(5)] by (auto simp: numeral_3_eq_3)
  have t: "t \<noteq> LParen" using assms(4) by (simp add: follows_def)
  note bt = run_block_type [OF _ bump_run(2) [OF assms(2)], of _ t ts]
  note one = parse_plain_instr_def run_look [of fe] run_bump build_instr_def parse_local_or_func_idx_def parse_func_idx_def parse_label_idx_def
    run_ok(1) [OF run_int] ret_def
  note step = skip_toks_def numeral_eq_Suc
  show ?thesis
  proof (cases i)
    case (OpMem q offset align)
    note m = run_memarg [OF _ _ bump_run(2) [OF assms(2)] assms(4), of offset align ts k]
    show ?thesis
      using assms OpMem m by (simp add: parse_plain_instr_def run_look [of fe] run_bump mem_built [OF mem_op_in] n run_ok ret_def step)
  next
    case (If b)
    then show ?thesis using assms t bt [of b] by (simp add: parse_plain_instr_def run_look [of fe] run_bump build_instr_def run_ok ret_def skip_toks_nxt)
  next
    case (Loop b)
    then show ?thesis using assms t bt [of b] by (simp add: parse_plain_instr_def run_look [of fe] run_bump build_instr_def run_ok ret_def skip_toks_nxt)
  next
    case (Block b)
    then show ?thesis using assms t bt [of b] by (simp add: parse_plain_instr_def run_look [of fe] run_bump build_instr_def run_ok ret_def skip_toks_nxt)
  qed (use assms tabled_toks [OF _ _ assms(2,3), of n] in \<open>simp_all add: tabled_all one step\<close>)
qed

lemma instr_first: "instr_plain i \<Longrightarrow> \<exists>w ts. instr_toks i = kwt w # ts \<and> op_word w"
proof -
  have t: "op_word (op_name PLAIN_OPS j)" if "tabled j" for j
    using that op_name_in [of _ j PLAIN_OPS] op_words(1) by (auto simp: tabled_def list_all_iff)
  have m: "op_word (op_name MEM_OPS q)" for q using mem_op_in [of q] op_words(2) by (auto simp: list_all_iff)
  show "instr_plain i \<Longrightarrow> \<exists>w ts. instr_toks i = kwt w # ts \<and> op_word w"
    using op_words(3) by (cases i) (auto simp: t tabled_all m SPECIAL_OPS_def)
qed

lemma follows_instr: "list_all instr_plain is \<Longrightarrow> \<exists>t ts'. concat (map instr_toks is) @ RParen # ts = t # ts' \<and> follows t"
proof (cases "is")
  case Nil
  then show ?thesis by (simp add: follows_def keyword_suffix_def)
next
  case (Cons i js)
  assume "list_all instr_plain is"
  then obtain w us where "instr_toks i = kwt w # us" "op_word w" using instr_first [of i] Cons by auto
  then show ?thesis using Cons op_word_no_operand [of w] by (simp add: follows_def)
qed

lemma run_instrs:
  assumes "list_all instr_plain is" and "ready fe s" and "toks fe s = concat (map instr_toks is) @ RParen # ts" and "length is + 4 \<le> n"
  shows "parse_instrs fe n s = (Ok is, skip_toks fe (length (concat (map instr_toks is))) s)"
  using assms
proof (induction "is" arbitrary: s n)
  case Nil
  then obtain k where "n = Suc k" by (cases n) auto
  then show ?case using Nil by (simp add: instrs_step_def run_look [of fe] ret_def)
next
  case (Cons i js)
  then obtain k where n: "n = Suc k" "length js + 4 \<le> k" by (cases n) auto
  obtain t ts' where f: "concat (map instr_toks js) @ RParen # ts = t # ts'" "follows t"
    using follows_instr [of js ts] Cons.prems(1) by auto
  obtain w us where w: "instr_toks i = kwt w # us" using instr_first [of i] Cons.prems(1) by auto
  let ?s = "skip_toks fe (length (instr_toks i)) s"
  have "parse_plain_instr fe k s = (Ok (Some i), ?s)"
    by (rule run_instr [OF _ Cons.prems(2) _ f(2), of i ts']) (use Cons.prems n f in auto)
  moreover have "parse_instrs fe k ?s = (Ok js, skip_toks fe (length (concat (map instr_toks js))) ?s)"
    by (rule Cons.IH) (use Cons.prems n in auto)
  ultimately show ?case
    using Cons.prems w by (simp add: n instrs_step_def run_look [of fe] run_ok opt_list_def ret_def skip_toks_nxt)
qed

section \<open>Fields of a module\<close>

datatype field = FType func_type | FImport import_def | FFunc func_def | FMemory memory_def | FExport export_def | FData data_seg

definition vts :: "val_type list \<Rightarrow> token list" where
  "vts vs = map (\<lambda>v. kwt (vt_name v)) vs"

definition export_word :: "u8 \<Rightarrow> string" where
  "export_word k = (if k = 0 then ''func'' else if k = 1 then ''table'' else if k = 2 then ''memory'' else ''global'')"

text \<open>The tokens of a field behind its opening parenthesis.\<close>

primrec field_toks :: "field \<Rightarrow> token list" where
  "field_toks (FType ft) = [kwt ''type'', LParen, kwt ''func'', LParen, kwt ''param''] @ vts (ft_params ft)
     @ [RParen, LParen, kwt ''result''] @ vts (ft_results ft) @ [RParen, RParen, RParen]"
| "field_toks (FImport i) = [kwt ''import'', StringLiteral (escape (id_module i)), StringLiteral (escape (id_name i)),
     LParen, kwt ''func'', LParen, kwt ''type'', IntLit (id_type i), RParen, RParen, RParen]"
| "field_toks (FFunc f) = [kwt ''func'', LParen, kwt ''type'', IntLit (fd_type f), RParen, LParen, kwt ''local''] @ vts (fd_locals f)
     @ [RParen] @ concat (map instr_toks (fd_body f)) @ [RParen]"
| "field_toks (FMemory m) = [kwt ''memory'', IntLit (md_min m)] @ (case md_max m of Some x \<Rightarrow> [IntLit x] | None \<Rightarrow> []) @ [RParen]"
| "field_toks (FExport e) = [kwt ''export'', StringLiteral (escape (ed_name e)), LParen, kwt (export_word (ed_kind e)), IntLit (ed_index e),
     RParen, RParen]"
| "field_toks (FData d) = [kwt ''data'', IntLit (ds_mem d), LParen, kwt ''i32.const'', IntLit (ds_offset d), RParen,
     StringLiteral (escape (ds_bytes d)), RParen]"

primrec field_plain :: "field \<Rightarrow> bool" where
  "field_plain (FType ft) = True"
| "field_plain (FImport i) = small (id_type i)"
| "field_plain (FFunc f) = (small (fd_type f) \<and> list_all instr_plain (fd_body f))"
| "field_plain (FMemory m) = (small (md_min m) \<and> (case md_max m of Some x \<Rightarrow> small x | None \<Rightarrow> True))"
| "field_plain (FExport e) = (ed_kind e \<le> 3 \<and> small (ed_index e))"
| "field_plain (FData d) = (small (ds_mem d) \<and> small (ds_offset d))"

primrec add_field :: "field \<Rightarrow> wat_module \<Rightarrow> wat_module" where
  "add_field (FType x) m = m\<lparr>m_types := m_types m @ [x]\<rparr>"
| "add_field (FImport x) m = m\<lparr>m_imports := m_imports m @ [x]\<rparr>"
| "add_field (FFunc x) m = m\<lparr>m_funcs := m_funcs m @ [x]\<rparr>"
| "add_field (FMemory x) m = m\<lparr>m_memories := m_memories m @ [x]\<rparr>"
| "add_field (FExport x) m = m\<lparr>m_exports := m_exports m @ [x]\<rparr>"
| "add_field (FData x) m = m\<lparr>m_data := m_data m @ [x]\<rparr>"

lemma run_val_types:
  assumes "ready fe s" and "toks fe s = vts vs @ RParen # ts" and "length vs < n"
  shows "val_types fe n out s = (Ok (out @ vs), skip_toks fe (length vs) s)"
  using assms
proof (induction vs arbitrary: s n out)
  case Nil
  then obtain k where "n = Suc k" by (cases n) auto
  then show ?case using Nil by (simp add: run_look [of fe] vts_def val_type_of_def ret_def)
next
  case (Cons v vs)
  then obtain k where n: "n = Suc k" by (cases n) auto
  have "val_types fe k (out @ [v]) (nxt fe s) = (Ok ((out @ [v]) @ vs), skip_toks fe (length vs) (nxt fe s))"
    by (rule Cons.IH) (use Cons.prems n in \<open>auto simp: vts_def\<close>)
  then show ?case using Cons.prems by (simp add: n run_look [of fe] vts_def run_bump skip_toks_nxt)
qed

lemma nxt_upd [simp]: "nxt fe (s\<lparr>pmod := m\<rparr>) = (nxt fe s)\<lparr>pmod := m\<rparr>" "nxt fe (s\<lparr>local_names := ln\<rparr>) = (nxt fe s)\<lparr>local_names := ln\<rparr>"
  by (auto simp: nxt_def bump_def split: option.splits result.splits prod.splits)

lemma run_modify': "sthen (modify f) k s = k (f s)" "sthen (upd_mod g) k s = k (s\<lparr>pmod := g (pmod s)\<rparr>)"
    "upd_mod g s = (Ok (), s\<lparr>pmod := g (pmod s)\<rparr>)"
  by (simp_all add: upd_mod_def sthen_def sbind_def modify_def)

definition parsed :: "float_env \<Rightarrow> unit pm \<Rightarrow> parser \<Rightarrow> token list \<Rightarrow> wat_module \<Rightarrow> bool" where
  "parsed fe p s ts m \<longleftrightarrow> (\<exists>s'. p s = (Ok (), s') \<and> ready fe s' \<and> toks fe s' = ts \<and> pmod s' = m)"

lemma parsedI: "p s = (Ok (), s') \<Longrightarrow> ready fe s' \<Longrightarrow> toks fe s' = ts \<Longrightarrow> pmod s' = m \<Longrightarrow> parsed fe p s ts m"
  by (auto simp: parsed_def)

lemma run_string_then: "ready fe s \<Longrightarrow> head_of (toks fe s) = Some (StringLiteral (escape bs)) \<Longrightarrow> sbind (expect_string fe) f s = f bs (nxt fe s)"
  by (simp add: run_ok run_string)

lemma seq_assoc: "sbind (sthen a b) f = sthen a (sbind b f)" "sthen (sbind a g) c = sbind a (\<lambda>x. sthen (g x) c)"
    "sthen (sthen a b) c = sthen a (sthen b c)" "sbind (sbind a g) f = sbind a (\<lambda>x. sbind (g x) f)"
  by (simp_all add: sthen_def sbind_assoc)

lemma run_memory:
  assumes "ready fe s" and "toks fe s = field_toks (FMemory x) @ ts"
  shows "parsed fe (parse_memory fe n) s ts (add_field (FMemory x) (pmod s))"
proof -
  obtain mn mx where x: "x = \<lparr>md_min = mn, md_max = mx\<rparr>" by (cases x)
  show ?thesis
    by (rule parsedI [where s' = "(skip_toks fe (length (field_toks (FMemory x))) s)\<lparr>pmod := add_field (FMemory x) (pmod s)\<rparr>"])
      (use assms x in \<open>cases mx; simp add: parse_memory_def seq_assoc run_look [of fe] run_bump run_no_ident run_ok run_int run_modify'
          run_parens run_ret skip_toks_def\<close>)+
qed

lemma run_export:
  assumes "ready fe s" and "toks fe s = field_toks (FExport x) @ ts" and "ed_kind x \<le> 3"
  shows "parsed fe (parse_export fe n) s ts (add_field (FExport x) (pmod s))"
proof -
  obtain nm knd i where x: "x = \<lparr>ed_name = nm, ed_kind = knd, ed_index = i\<rparr>" by (cases x)
  have "unat knd \<in> {0, 1, 2, 3}" using assms(3) x by (auto simp: word_le_nat_alt)
  then have k: "export_kind (Some (kwt (export_word knd))) = Some knd"
    by (auto simp: export_kind_def export_word_def kw_kwt word_unat_eq_iff)
  show ?thesis
    by (rule parsedI [where s' = "(skip_toks fe 7 s)\<lparr>pmod := add_field (FExport x) (pmod s)\<rparr>"])
      (use assms x k in \<open>simp_all add: parse_export_def parse_func_idx_def push_export_def run_look [of fe] run_bump run_string_then run_ok
          run_int run_modify' run_parens run_ret skip_toks_def numeral_eq_Suc\<close>)
qed

lemma run_data:
  assumes "ready fe s" and "toks fe s = field_toks (FData x) @ ts" and "3 \<le> n"
  shows "parsed fe (parse_data fe n) s ts (add_field (FData x) (pmod s))"
proof -
  obtain m off bs where x: "x = \<lparr>ds_mem = m, ds_offset = off, ds_bytes = bs\<rparr>" by (cases x)
  obtain k where n: "n = Suc (Suc (Suc k))" using le_Suc_ex [OF assms(3)] by (auto simp: numeral_3_eq_3)
  show ?thesis
    by (rule parsedI [where s' = "(skip_toks fe 8 s)\<lparr>pmod := add_field (FData x) (pmod s)\<rparr>"])
      (use assms x n in \<open>simp_all add: parse_data_def seq_assoc run_look [of fe] run_bump run_string_then run_ok kw_kwt
          run_int run_modify' run_parens run_ret skip_toks_def numeral_eq_Suc\<close>)
qed

lemma run_import:
  assumes "ready fe s" and "toks fe s = field_toks (FImport x) @ ts" and "3 \<le> n"
  shows "parsed fe (parse_import fe n) s ts (add_field (FImport x) (pmod s))"
proof -
  obtain m nm ty where x: "x = \<lparr>id_module = m, id_name = nm, id_type = ty\<rparr>" by (cases x)
  obtain k where n: "n = Suc (Suc (Suc k))" using le_Suc_ex [OF assms(3)] by (auto simp: numeral_3_eq_3)
  show ?thesis
    by (rule parsedI [where s' = "(skip_toks fe 11 s)\<lparr>pmod := add_field (FImport x) (pmod s)\<rparr>"])
      (use assms x n in \<open>simp_all add: parse_import_def parse_type_use_def type_index_def parse_func_type_fields_def push_func_name_def
          push_import_def seq_assoc run_gets lookahead_toks [of fe] run_bump run_string_then run_no_ident run_ok kw_kwt run_int run_modify' run_parens run_ret
          skip_toks_def numeral_eq_Suc\<close>)
qed

lemma length_vts [simp]: "length (vts vs) = length vs"
  by (simp add: vts_def)

lemma run_group:
  assumes "ready fe s" and "toks fe s = kwt w # vts vs @ RParen # ts" and "length vs < n"
  shows "w = ''param'' \<Longrightarrow> parse_param_or_result_group fe n (p, r) s = (Ok (p @ vs, r), skip_toks fe (length vs + 2) s)"
    and "w = ''result'' \<Longrightarrow> parse_param_or_result_group fe n (p, r) s = (Ok (p, r @ vs), skip_toks fe (length vs + 2) s)"
proof -
  have t: "toks fe (nxt fe s) = vts vs @ RParen # ts" using assms(1,2) by simp
  note v = run_val_types [OF bump_run(2) [OF assms(1)] t assms(3)]
  have nid: "ident_of (head_of (vts vs @ RParen # ts)) = None" by (cases vs) (simp_all add: vts_def)
  have d: "drop (length vs) (vts vs @ RParen # ts) = RParen # ts" by (simp add: vts_def)
  note rp = run_parens(2) [of fe "skip_toks fe (length vs) (nxt fe s)"]
  have e: "nxt fe (skip_toks fe (length vs) (nxt fe s)) = skip_toks fe (length vs + 2) s"
    by (simp add: skip_toks_def funpow_swap1)
  show "w = ''param'' \<Longrightarrow> parse_param_or_result_group fe n (p, r) s = (Ok (p @ vs, r), skip_toks fe (length vs + 2) s)"
    using assms t nid d rp by (simp add: parse_param_or_result_group_def run_look [of fe] run_bump kw_kwt run_ok run_no_ident v
        rp run_ret e)
  show "w = ''result'' \<Longrightarrow> parse_param_or_result_group fe n (p, r) s = (Ok (p, r @ vs), skip_toks fe (length vs + 2) s)"
    using assms t d rp by (simp add: parse_param_or_result_group_def run_look [of fe] run_bump kw_kwt run_ok v rp run_ret e)
qed

lemma run_type_fields:
  assumes "ready fe s" and "toks fe s = LParen # kwt ''param'' # vts ps @ RParen # LParen # kwt ''result'' # vts rs @ RParen # RParen # ts"
    and "length ps + length rs + 3 \<le> n"
  shows "parse_func_type_fields fe n s = (Ok (ps, rs), skip_toks fe (length ps + length rs + 6) s)"
proof -
  obtain k where n: "n = Suc (Suc (Suc k))" "length ps + length rs \<le> k" using le_Suc_ex [OF assms(3)] by (auto simp: eval_nat_numeral)
  let ?s1 = "nxt fe s" and ?k1 = "length ps + 2"
  have g1: "parse_param_or_result_group fe (Suc (Suc k)) ([], []) ?s1 = (Ok (ps, []), skip_toks fe ?k1 ?s1)"
    using run_group(1) [of fe ?s1 "''param''" ps _ "Suc (Suc k)" "[]" "[]"] assms(1,2) n by simp
  let ?s2 = "nxt fe (skip_toks fe ?k1 ?s1)"
  have t2: "toks fe (skip_toks fe ?k1 ?s1) = LParen # kwt ''result'' # vts rs @ RParen # RParen # ts"
    using assms(1,2) by (simp add: vts_def)
  have g2: "parse_param_or_result_group fe (Suc k) (ps, []) ?s2 = (Ok (ps, rs), skip_toks fe (length rs + 2) ?s2)"
    using run_group(2) [of fe ?s2 "''result''" rs _ "Suc k" ps "[]"] assms(1) t2 n by simp
  have t3: "toks fe (skip_toks fe (length rs + 2) ?s2) = RParen # ts" using assms(1) t2 by (simp add: vts_def)
  have e: "skip_toks fe (length rs + 2) ?s2 = skip_toks fe (length ps + length rs + 6) s"
    unfolding skip_toks_nxt(2) [of fe] skip_toks_nxt(3) by (rule arg_cong [where f = "\<lambda>k. skip_toks fe k s"]) simp
  show ?thesis
    using assms(1,2) t2 t3 by (simp add: parse_func_type_fields_def n run_look [of fe] run_ok run_parens(1) g1 [simplified] g2 [simplified] run_ret e [simplified])
qed

lemma run_type_def:
  assumes "ready fe s" and "toks fe s = field_toks (FType x) @ ts" and "length (field_toks (FType x)) \<le> n"
  shows "parsed fe (parse_type_def fe n) s ts (add_field (FType x) (pmod s))"
proof -
  obtain ps rs where x: "x = \<lparr>ft_params = ps, ft_results = rs\<rparr>" by (cases x)
  let ?s = "nxt fe (nxt fe (nxt fe s))" and ?k = "length ps + length rs + 6"
  have t: "toks fe ?s = LParen # kwt ''param'' # vts ps @ RParen # LParen # kwt ''result'' # vts rs @ RParen # RParen # RParen # ts"
    using assms(1,2) x by simp
  have f: "parse_func_type_fields fe n ?s = (Ok (ps, rs), skip_toks fe ?k ?s)"
    by (rule run_type_fields [OF _ t]) (use assms x in simp_all)
  let ?A = "LParen # kwt ''param'' # vts ps @ RParen # LParen # kwt ''result'' # vts rs @ [RParen]"
  have a: "toks fe ?s = ?A @ RParen # RParen # ts" "length ?A = ?k" using t by simp_all
  have "toks fe (skip_toks fe ?k ?s) = drop (length ?A) (?A @ RParen # RParen # ts)"
    using assms(1) by (simp only: a skip_toks_simps(3) [of fe ?s] bump_run)
  also have "\<dots> = RParen # RParen # ts" by (metis append_eq_conv_conj)
  finally have d: "toks fe (skip_toks fe ?k ?s) = RParen # RParen # ts" .
  let ?u = "skip_toks fe ?k ?s"
  have r: "ready fe ?u" using assms(1) by simp
  show ?thesis
    by (rule parsedI [where s' = "(nxt fe (nxt fe ?u))\<lparr>pmod := add_field (FType x) (pmod s)\<rparr>"])
      (use assms(1,2) x f r d in \<open>simp_all add: parse_type_def_def run_bump run_ok run_no_ident run_parens run_gets run_modify' run_ret\<close>)
qed

lemma run_locals:
  assumes "ready fe s" and "toks fe s = vts vs @ RParen # ts" and "length vs < n"
  shows "group_types fe n i s = (Ok vs, skip_toks fe (length vs) s)"
proof -
  have "ident_of (head_of (vts vs @ RParen # ts)) = None" by (cases vs) (simp_all add: vts_def)
  then show ?thesis using assms run_val_types [OF assms, of "[]"] by (simp add: group_types_def run_ok run_no_ident)
qed

lemma run_func:
  assumes "ready fe s" and "toks fe s = field_toks (FFunc x) @ ts" and "length (field_toks (FFunc x)) + 4 \<le> n" and "list_all instr_plain (fd_body x)"
  shows "parsed fe (parse_func_def fe n) s ts (add_field (FFunc x) (pmod s))"
proof -
  obtain ty ls body where x: "x = \<lparr>fd_type = ty, fd_locals = ls, fd_body = body\<rparr>" by (cases x)
  obtain k where n: "n = Suc (Suc (Suc k))" using le_Suc_ex [OF assms(3)] by (auto simp: eval_nat_numeral)
  let ?b = "concat (map instr_toks body) @ RParen # ts"
  define s0 where "s0 = (nxt fe s)\<lparr>local_names := []\<rparr>"
  have s0: "ready fe s0" "toks fe s0 = LParen # kwt ''type'' # IntLit ty # RParen # LParen # kwt ''local'' # vts ls @ RParen # ?b" "pmod s0 = pmod s"
    using assms(1,2) x by (simp_all add: s0_def)
  define s1 where "s1 = nxt fe (nxt fe (nxt fe (nxt fe (nxt fe (nxt fe s0)))))"
  have s1: "ready fe s1" "toks fe s1 = vts ls @ RParen # ?b" "pmod s1 = pmod s" using s0 by (simp_all add: s1_def)
  define s2 where "s2 = nxt fe (skip_toks fe (length ls) s1)"
  have s2: "ready fe s2" "toks fe s2 = ?b" "pmod s2 = pmod s" using s1 by (simp_all add: s2_def)
  have rp: "expect_rparen fe (skip_toks fe (length ls) s1) = (Ok (), s2)" using s1 by (simp add: s2_def run_parens)
  have lv: "group_types fe (Suc k) 0 s1 = (Ok ls, skip_toks fe (length ls) s1)"
    by (rule run_locals [OF s1(1,2)]) (use assms(3) x n in simp)
  obtain t ts' where nl: "?b = t # ts'" "t \<noteq> LParen" using follows_instr [of body ts] assms(4) x by (auto simp: follows_def)
  let ?h = "fhead_new\<lparr>h_type_idx := ty, h_type_parsed := True, h_locals := ls, h_next := length ls\<rparr>"
  have hd: "head_loop fe n fidx fhead_new s0 = (Ok (Some ?h), s2)" for fidx
    using s0 s2 nl rp lv by (simp add: n run_look [of fe] run_bump head_group_def kw_kwt type_index_def run_int run_ok run_parens run_ret seq_assoc
        fix_type_def fhead_new_def s1_def)
  have bd: "parse_instrs fe n s2 = (Ok body, skip_toks fe (length (concat (map instr_toks body))) s2)"
    by (rule run_instrs [OF _ s2(1,2)]) (use assms(3,4) x n length_le_concat [of body instr_toks] instr_first in \<open>fastforce simp: list_all_iff\<close>)+
  let ?u = "skip_toks fe (length (concat (map instr_toks body))) s2"
  have u: "ready fe ?u" "toks fe ?u = RParen # ts" using s2 by simp_all
  show ?thesis
    by (rule parsedI [where s' = "(nxt fe ?u)\<lparr>pmod := add_field (FFunc x) (pmod s)\<rparr>"])
      (use assms(1,2) x u s2 hd bd in \<open>simp_all add: parse_func_def_def run_bump run_ok run_no_ident push_func_name_def run_gets run_modify' run_ret
          s0_def [symmetric] fix_type_def push_func_def run_parens\<close>)
qed

lemma run_field:
  assumes "field_plain f" and "ready fe s" and "toks fe s = field_toks f @ ts" and "length (field_toks f) + 4 \<le> n"
  shows "parsed fe (parse_field fe n) s ts (add_field f (pmod s))"
proof -
  have h: "parse_field fe n s = (case f of FType _ \<Rightarrow> parse_type_def fe n s | FImport _ \<Rightarrow> parse_import fe n s | FFunc _ \<Rightarrow> parse_func_def fe n s
      | FMemory _ \<Rightarrow> parse_memory fe n s | FExport _ \<Rightarrow> parse_export fe n s | FData _ \<Rightarrow> parse_data fe n s)"
    using assms(2,3) by (cases f) (simp_all add: parse_field_def run_look [of fe] kw_kwt)
  show ?thesis
  proof (cases f)
    case (FType x)
    then show ?thesis using run_type_def [of fe s x ts n] assms h by (simp add: parsed_def)
  next
    case (FImport x)
    then show ?thesis using run_import [of fe s x ts n] assms h by (simp add: parsed_def)
  next
    case (FFunc x)
    then show ?thesis using run_func [of fe s x ts n] assms h by (simp add: parsed_def)
  next
    case (FMemory x)
    then show ?thesis using run_memory [of fe s x ts n] assms h by (simp add: parsed_def)
  next
    case (FExport x)
    then show ?thesis using run_export [of fe s x ts n] assms h by (simp add: parsed_def)
  next
    case (FData x)
    then show ?thesis using run_data [of fe s x ts n] assms h by (simp add: parsed_def)
  qed
qed

definition fields_toks :: "field list \<Rightarrow> token list" where
  "fields_toks fs = concat (map (\<lambda>f. LParen # field_toks f) fs)"

lemma run_fields:
  assumes "list_all field_plain fs" and "ready fe s" and "toks fe s = fields_toks fs @ RParen # ts" and "length (fields_toks fs) + 5 \<le> n"
  shows "parsed fe (fields_loop fe n) s (RParen # ts) (fold add_field fs (pmod s))"
  using assms
proof (induction fs arbitrary: s n)
  case Nil
  then obtain k where "n = Suc k" by (cases n) auto
  then show ?case using Nil by (simp add: parsed_def run_look [of fe] fields_toks_def run_ret)
next
  case (Cons f fs)
  then obtain k where n: "n = Suc k" "length (field_toks f) + length (fields_toks fs) + 5 \<le> k"
    by (cases n) (auto simp: fields_toks_def)
  have t: "toks fe s = LParen # field_toks f @ fields_toks fs @ RParen # ts"
    using Cons.prems(3) by (simp add: fields_toks_def)
  have "parsed fe (parse_field fe k) (nxt fe s) (fields_toks fs @ RParen # ts) (add_field f (pmod (nxt fe s)))"
    by (rule run_field) (use Cons.prems n t in auto)
  then obtain s1 where s1: "parse_field fe k (nxt fe s) = (Ok (), s1)" "ready fe s1" "toks fe s1 = fields_toks fs @ RParen # ts"
      "pmod s1 = add_field f (pmod s)"
    by (auto simp: parsed_def)
  have "parsed fe (fields_loop fe k) s1 (RParen # ts) (fold add_field fs (pmod s1))"
    by (rule Cons.IH) (use Cons.prems n s1 in auto)
  then show ?case
    using Cons.prems(2) t s1 by (simp add: parsed_def n run_look [of fe] run_ok run_parens)
qed

section \<open>Modules\<close>

definition module_fields :: "wat_module \<Rightarrow> field list" where
  "module_fields m = map FType (m_types m) @ map FImport (m_imports m) @ map FFunc (m_funcs m) @ map FMemory (m_memories m)
     @ map FExport (m_exports m) @ map FData (m_data m)"

definition module_toks :: "wat_module \<Rightarrow> token list" where
  "module_toks m = LParen # kwt ''module'' # fields_toks (module_fields m) @ [RParen]"

definition print_wat :: "wat_module \<Rightarrow> bytes" where
  "print_wat m = render (module_toks m)"

definition module_plain :: "wat_module \<Rightarrow> bool" where
  "module_plain m \<longleftrightarrow> list_all field_plain (module_fields m)"

lemma add_fields: "fold add_field (module_fields m) empty_wat = m"
proof -
  have "fold add_field (map FType xs) m = m\<lparr>m_types := m_types m @ xs\<rparr>" for xs m by (induction xs arbitrary: m) auto
  moreover have "fold add_field (map FImport xs) m = m\<lparr>m_imports := m_imports m @ xs\<rparr>" for xs m by (induction xs arbitrary: m) auto
  moreover have "fold add_field (map FFunc xs) m = m\<lparr>m_funcs := m_funcs m @ xs\<rparr>" for xs m by (induction xs arbitrary: m) auto
  moreover have "fold add_field (map FMemory xs) m = m\<lparr>m_memories := m_memories m @ xs\<rparr>" for xs m by (induction xs arbitrary: m) auto
  moreover have "fold add_field (map FExport xs) m = m\<lparr>m_exports := m_exports m @ xs\<rparr>" for xs m by (induction xs arbitrary: m) auto
  moreover have "fold add_field (map FData xs) m = m\<lparr>m_data := m_data m @ xs\<rparr>" for xs m by (induction xs arbitrary: m) auto
  ultimately show ?thesis by (simp add: module_fields_def empty_wat_def)
qed

lemma words_plain:
  "list_all op_word [''module'', ''type'', ''func'', ''param'', ''result'', ''import'', ''local'', ''memory'', ''export'', ''table'', ''global'',
     ''data'', ''i32.const'', ''i32'', ''i64'', ''f32'', ''f64'']"
  by code_simp

lemma kwt_plain: "op_word w \<Longrightarrow> tok_plain (kwt w)"
  by (simp add: kwt_def op_word_keyword)

lemma vts_plain: "list_all tok_plain (vts vs)"
proof -
  have "tok_plain (kwt (vt_name v))" for v using words_plain by (cases v) (simp_all add: kwt_plain)
  then show ?thesis by (simp add: vts_def list_all_iff)
qed

lemma int_str_chars: "list_all (\<lambda>c. 0x21 \<le> c \<and> c < 0x7F \<and> c \<noteq> 0x28 \<and> c \<noteq> (0x29 :: u8)) (int_str i)"
proof -
  have "0x21 \<le> c \<and> c < 0x7F \<and> c \<noteq> 0x28 \<and> c \<noteq> 0x29" if "0x30 \<le> c \<and> c \<le> 0x39" for c :: u8
    using that order.trans [of "0x21" "0x30" c] order.strict_trans1 [of c "0x39" "0x7F"] by auto
  then show ?thesis
    using dec_str_digits [of "nat i"] dec_str_digits [of "nat (- i)"] by (auto simp: int_str_def list_all_iff)
qed

lemma operand_plain: "plain_keyword (str_bytes ''offset='' @ int_str i)" "plain_keyword (str_bytes ''align='' @ int_str i)"
  using int_str_chars [of i] by (simp_all add: plain_keyword_def str_bytes_def)

lemma instr_toks_plain: "instr_plain i \<Longrightarrow> list_all tok_plain (instr_toks i)"
proof -
  assume p: "instr_plain i"
  obtain w ts where w: "instr_toks i = kwt w # ts" "op_word w" using instr_first [OF p] by blast
  have r: "tok_plain (kwt ''result'')" using words_plain by (simp add: kwt_plain)
  have v: "tok_plain (kwt (vt_name v))" for v using vts_plain [of "[v]"] by (simp add: vts_def)
  have b: "list_all tok_plain (block_toks bt)" for bt using r v by (simp add: block_toks_def split: option.split)
  have "list_all tok_plain ts"
    using w(1) p b by (cases i) (auto simp: small_def operand_plain)
  then show ?thesis using w kwt_plain by simp
qed

lemma field_toks_plain: "field_plain f \<Longrightarrow> list_all tok_plain (field_toks f)"
proof (cases f)
  case (FFunc x)
  assume "field_plain f"
  then have "list_all tok_plain (concat (map instr_toks (fd_body x)))" using FFunc instr_toks_plain by (auto simp: list_all_iff)
  then show ?thesis using FFunc \<open>field_plain f\<close> words_plain vts_plain by (simp add: kwt_plain small_def)
qed (use words_plain vts_plain escape_plain in \<open>auto simp: kwt_plain small_def export_word_def split: option.splits\<close>)

lemma module_toks_plain: "module_plain m \<Longrightarrow> list_all tok_plain (module_toks m)"
proof -
  assume p: "module_plain m"
  have "list_all tok_plain (fields_toks fs)" if "list_all field_plain fs" for fs
    using that field_toks_plain by (auto simp: fields_toks_def list_all_iff)
  then show ?thesis using p words_plain by (simp add: module_toks_def module_plain_def kwt_plain)
qed

lemma length_render: "length ts \<le> length (render ts)"
  unfolding render_def by (rule length_le_concat) simp

lemma parse_print:
  assumes "module_plain m"
  shows "parse_wat fe (wat_fuel (print_wat m)) (print_wat m) = Ok m"
proof -
  let ?src = "print_wat m"
  have lex: "lex_all fe ?src = module_toks m" "lex_ok fe ?src"
    using lex_render [OF module_toks_plain [OF assms], of fe] by (simp_all add: print_wat_def)
  obtain t r where nt: "next_token fe ?src = Ok (t, r)" "lex_ok fe r" "module_toks m = opt_list t @ lex_all fe r" "t = None \<longrightarrow> lex_all fe r = []"
    using lex_ok_next [OF lex(2)] lex(1) by auto
  define p where "p = \<lparr>tok_rest = r, lookahead = t, unget = None, func_names = [], type_names = [], local_names = [], pmod = empty_wat\<rparr>"
  have new: "parser_new fe ?src = Ok p" using nt(1) by (simp add: parser_new_def p_def)
  have p: "ready fe p" "toks fe p = LParen # kwt ''module'' # fields_toks (module_fields m) @ [RParen]" "pmod p = empty_wat"
    using nt by (simp_all add: ready_def toks_def p_def opt_list_def module_toks_def)
  have s2: "ready fe (nxt fe (nxt fe p))" "toks fe (nxt fe (nxt fe p)) = fields_toks (module_fields m) @ [RParen]" using p by simp_all
  have nid: "ident_of (head_of (fields_toks (module_fields m) @ [RParen])) = None"
    by (cases "module_fields m") (simp_all add: fields_toks_def)
  have "length (module_toks m) \<le> length ?src" unfolding print_wat_def by (rule length_render)
  then have "length (fields_toks (module_fields m)) + 5 \<le> wat_fuel ?src"
    by (simp add: module_toks_def wat_fuel_def)
  then have "parsed fe (fields_loop fe (wat_fuel ?src)) (nxt fe (nxt fe p)) [RParen] (fold add_field (module_fields m) (pmod (nxt fe (nxt fe p))))"
    using assms s2 by (intro run_fields) (auto simp: module_plain_def)
  then obtain s3 where s3: "fields_loop fe (wat_fuel ?src) (nxt fe (nxt fe p)) = (Ok (), s3)" "ready fe s3" "toks fe s3 = [RParen]" "pmod s3 = m"
    by (auto simp: parsed_def add_fields p(3))
  have "parse_module fe (wat_fuel ?src) p = (Ok m, nxt fe s3)"
    using p s2 s3 nid by (simp add: parse_module_def run_ok run_parens run_no_ident gets_def)
  then show ?thesis by (simp add: parse_wat_def new)
qed



text \<open>
  From text to running code. If the module is also within the limits of the interpreter, the binary that the
  assembler makes of its text loads, and an interpreter built from it holds the functions of the module.
\<close>

theorem assembled_text_runs:
  assumes "module_plain m" and "module_ok fe m"
  shows "\<exists>bin md s. assemble fe (print_wat m) = Ok bin \<and> load bin = Ok md
    \<and> interp_new md (length (m_imports m)) memory mlen hosts pages w = Ok s \<and> runs_module fe m s"
proof -
  obtain bin where "emit_module fe m = Ok bin" "load bin = Ok (loaded fe m)"
    using load_emitted [of fe m] assms(2) by (auto simp: module_ok_def)
  then show ?thesis
    using interp_of_module [OF assms(2), of memory mlen hosts pages w] parse_print [OF assms(1), of fe] by (auto simp: assemble_def)
qed

theorem assembled_text_runs_witness:
  "\<forall>fe. \<exists>bin md s. assemble fe (print_wat demo_module) = Ok bin \<and> load bin = Ok md
    \<and> interp_new md 0 (\<lambda>_. 0) 0 (\<lambda>_. None) 0 (undefined :: unit world) = Ok s \<and> bodies s 0 = [0x20, 0, 0x20, 1, 0x6A, 0x0B]"
proof
  fix fe
  have "module_plain demo_module" by (simp add: module_plain_def module_fields_def demo_module_def small_def)
  from assembled_text_runs [OF this demo_module_ok, of fe "\<lambda>_. 0" 0 "\<lambda>_. None" 0 "undefined :: unit world"]
  obtain bin md s where "assemble fe (print_wat demo_module) = Ok bin" "load bin = Ok md"
      "interp_new md (length (m_imports demo_module)) (\<lambda>_. 0) 0 (\<lambda>_. None) 0 (undefined :: unit world) = Ok s" "runs_module fe demo_module s"
    by blast
  moreover have "write_leb128_u32 0 = [0]" "write_leb128_u32 1 = [1]" by (subst write_leb128_u32.simps, simp)+
  ultimately show "\<exists>bin md s. assemble fe (print_wat demo_module) = Ok bin \<and> load bin = Ok md
    \<and> interp_new md 0 (\<lambda>_. 0) 0 (\<lambda>_. None) 0 (undefined :: unit world) = Ok s \<and> bodies s 0 = [0x20, 0, 0x20, 1, 0x6A, 0x0B]"
    by (auto simp: runs_module_def demo_module_def emit_body_def)
qed

section \<open>Sources it misreads\<close>

text \<open>
  A hexadecimal escape of a byte below 16 is read as a NUL byte followed by a character.
\<close>

lemma hex_escape_misread: "d \<noteq> 0x5C \<Longrightarrow> unescape_wat_string [0x5C, 0x30, d] = [0, d]"
  by (simp add: simple_escape_def)

text \<open>
  C36: A malformed source panics the kernel. Whatever source does not begin with \<open>(module\<close>, an empty file for instance, is
  not reported as an error: the parser panics.
\<close>

theorem malformed_source_panics:
  assumes "lex_ok fe src" and "\<nexists>ts. lex_all fe src = LParen # kwt ''module'' # ts"
  shows "assemble fe src = Panic"
proof -
  obtain t r where nt: "next_token fe src = Ok (t, r)" "lex_ok fe r" "lex_all fe src = opt_list t @ lex_all fe r" "t = None \<longrightarrow> lex_all fe r = []"
    using lex_ok_next [OF assms(1)] by auto
  define p where "p = \<lparr>tok_rest = r, lookahead = t, unget = None, func_names = [], type_names = [], local_names = [], pmod = empty_wat\<rparr>"
  have p: "ready fe p" "toks fe p = lex_all fe src" using nt by (simp_all add: ready_def toks_def p_def opt_list_def)
  have "fst (parse_module fe n p) = Panic" for n
  proof (cases "head_of (lex_all fe src) = Some LParen")
    case False
    then show ?thesis
      using p by (simp add: parse_module_def sthen_def sbind_def expect_lparen_def expect_def run_look [of fe] run_panic gets_def lookahead_toks [of fe])
  next
    case True
    then obtain us where us: "lex_all fe src = LParen # us" by (cases "lex_all fe src") auto
    then have "head_of us \<noteq> Some (kwt ''module'')" using assms(2) by (cases us) auto
    then have "expect_keyword fe ''module'' (nxt fe p) = (Panic, nxt fe p)"
      using p us by (simp add: expect_keyword_def expect_def run_look [of fe] kw_kwt run_panic)
    moreover have "expect_lparen fe p = (Ok (), nxt fe p)" using p us by (simp add: run_parens)
    ultimately show ?thesis by (simp add: parse_module_def run_ok) (simp add: sthen_def sbind_def)
  qed
  then show ?thesis using nt(1) by (simp add: assemble_def parse_wat_def parser_new_def p_def)
qed

theorem malformed_source_panics_witness: "\<forall>fe. assemble fe [] = Panic"
proof
  fix fe
  have "next_token fe [] = Ok (None, [])" by (simp add: next_token_def)
  from malformed_source_panics [of fe "[]"] lex_end [OF this] show "assemble fe [] = Panic" by simp
qed

end
