(* ===== verification/Display.thy ===== *)
theory Display
  imports Font Shell_Words
begin

text \<open>
  The text renderer of \<open>vga.rs\<close>: the framebuffer, the cursor, the escape sequences, and the two functions that draw
  pixels for programs. The framebuffer is raw memory written through a pointer: a write or copy beyond its
  length is undefined behaviour in the source and the error \<open>OutOfBounds\<close> here, so that its absence is a theorem.
  The screen is then shown to implement a terminal, a grid of characters with a cursor.
\<close>

section \<open>The framebuffer\<close>

datatype vga_fault = OutOfBounds

text \<open>
  The fields of the boot loader's \<open>FrameBufferInfo\<close>, and of its pixel formats the only one that is told apart.
\<close>

datatype PixelFormat = Bgr | OtherFormat

record FrameBufferInfo =
  width :: nat
  height :: nat
  stride :: nat
  bytes_per_pixel :: nat
  pixel_format :: PixelFormat

type_synonym color = "u8 \<times> u8 \<times> u8"

record VgaBuffer =
  fb :: "nat \<Rightarrow> u8"
  buf_len :: nat
  info :: FrameBufferInfo
  col :: nat
  row :: nat
  saved_col :: nat
  saved_row :: nat
  fg :: color
  bg :: color

type_synonym 'a vm = "(VgaBuffer, vga_fault, 'a) sm"

definition CHAR_W :: nat where "CHAR_W = 8"
definition CHAR_H :: nat where "CHAR_H = 8"

text \<open>The palette: the eight colours in the order of their codes, normal and bright.\<close>

definition PALETTE :: "color list" where
  "PALETTE = [(0, 0, 0), (170, 0, 0), (0, 170, 0), (170, 170, 0), (0, 0, 170), (170, 0, 170), (0, 170, 170), (170, 170, 170)]"

definition BRIGHT_PALETTE :: "color list" where
  "BRIGHT_PALETTE = [(85, 85, 85), (255, 85, 85), (85, 255, 85), (255, 255, 85), (85, 85, 255), (255, 85, 255),
     (85, 255, 255), (255, 255, 255)]"

definition BLACK :: color where "BLACK = (0, 0, 0)"
definition BRIGHT_WHITE :: color where "BRIGHT_WHITE = (255, 255, 255)"

definition vga_new :: "(nat \<Rightarrow> u8) \<Rightarrow> nat \<Rightarrow> FrameBufferInfo \<Rightarrow> VgaBuffer" where
  "vga_new b n i = \<lparr>fb = b, buf_len = n, info = i, col = 0, row = 0, saved_col = 0, saved_row = 0,
     fg = BRIGHT_WHITE, bg = BLACK\<rparr>"

definition cols :: "VgaBuffer \<Rightarrow> nat" where
  "cols v = width (info v) div CHAR_W"

definition rows :: "VgaBuffer \<Rightarrow> nat" where
  "rows v = height (info v) div CHAR_H"

definition row_bytes :: "VgaBuffer \<Rightarrow> nat" where
  "row_bytes v = CHAR_H * stride (info v) * bytes_per_pixel (info v)"

text \<open>\<open>write_volatile\<close>, \<open>ptr::copy\<close> and \<open>ptr::write_bytes\<close> (of zeros) at offsets from the start of the buffer.\<close>

definition write_volatile :: "nat \<Rightarrow> u8 \<Rightarrow> unit vm" where
  "write_volatile off b = (\<lambda>v. if off < buf_len v then (Ok (), v\<lparr>fb := (fb v)(off := b)\<rparr>) else (Err OutOfBounds, v))"

definition ptr_copy :: "nat \<Rightarrow> nat \<Rightarrow> nat \<Rightarrow> unit vm" where
  "ptr_copy src dst n = (\<lambda>v.
     if src + n \<le> buf_len v \<and> dst + n \<le> buf_len v
     then (Ok (), v\<lparr>fb := \<lambda>i. if dst \<le> i \<and> i < dst + n then fb v (src + (i - dst)) else fb v i\<rparr>)
     else (Err OutOfBounds, v))"

definition ptr_zero :: "nat \<Rightarrow> nat \<Rightarrow> unit vm" where
  "ptr_zero dst n = (\<lambda>v.
     if dst + n \<le> buf_len v then (Ok (), v\<lparr>fb := \<lambda>i. if dst \<le> i \<and> i < dst + n then 0 else fb v i\<rparr>)
     else (Err OutOfBounds, v))"

text \<open>A \<open>for\<close> loop over the elements of a range.\<close>

primrec for_in :: "'i list \<Rightarrow> ('i \<Rightarrow> ('s, 'e, unit) sm) \<Rightarrow> ('s, 'e, unit) sm" where
  "for_in [] f = ret ()"
| "for_in (i # is) f = sthen (f i) (for_in is f)"

definition USIZE_MAX :: nat where "USIZE_MAX = 2 ^ 64 - 1"

definition put_pixel :: "nat \<Rightarrow> nat \<Rightarrow> color \<Rightarrow> unit vm" where
  "put_pixel x y c = sbind (gets (\<lambda>v. v)) (\<lambda>v.
     let bpp = bytes_per_pixel (info v); off = (y * stride (info v) + x) * bpp; (r, g, b) = c in
     if y * stride (info v) + x > USIZE_MAX \<or> off + bpp > USIZE_MAX then panic
     else if off + bpp > buf_len v then ret ()
     else case pixel_format (info v) of
       Bgr \<Rightarrow> sthen (write_volatile off b) (sthen (write_volatile (off + 1) g) (write_volatile (off + 2) r))
     | _ \<Rightarrow> sthen (write_volatile off r) (sthen (write_volatile (off + 1) g) (write_volatile (off + 2) b)))"

text \<open>
  The nested loops over the pixels of a rectangle, each pixel's colour a function of its coordinates. Every caller
  paints the eight pixel rows of one character row, from column \<open>a\<close> up to column \<open>b\<close>.
\<close>

definition paint :: "nat \<Rightarrow> nat \<Rightarrow> nat \<Rightarrow> (nat \<Rightarrow> nat \<Rightarrow> color) \<Rightarrow> unit vm" where
  "paint py a b f = for_in [0..<CHAR_H] (\<lambda>row_i. for_in [a..<b] (\<lambda>col_i. put_pixel col_i (py + row_i) (f col_i row_i)))"

section \<open>Erasing and scrolling\<close>

definition scroll_up :: "unit vm" where
  "scroll_up = sbind (gets (\<lambda>v. v)) (\<lambda>v.
     let rb = row_bytes v; total_rows = rows v in
     if total_rows = 0 then ret ()
     else sthen (ptr_copy rb 0 ((total_rows - 1) * rb)) (ptr_zero ((total_rows - 1) * rb) rb))"

definition clear_to_end_of_line :: "unit vm" where
  "clear_to_end_of_line = sbind (gets (\<lambda>v. v)) (\<lambda>v.
     paint (row v * CHAR_H) (col v * CHAR_W) (cols v * CHAR_W) (\<lambda>_ _. bg v))"

definition clear_to_start_of_line :: "unit vm" where
  "clear_to_start_of_line = sbind (gets (\<lambda>v. v)) (\<lambda>v.
     paint (row v * CHAR_H) 0 ((col v + 1) * CHAR_W) (\<lambda>_ _. bg v))"

definition clear_to_end_of_screen :: "unit vm" where
  "clear_to_end_of_screen = sthen clear_to_end_of_line (sbind (gets (\<lambda>v. v)) (\<lambda>v.
     let next_row = row v + 1; total_rows = rows v in
     if next_row < total_rows then ptr_zero (next_row * row_bytes v) ((total_rows - next_row) * row_bytes v) else ret ()))"

definition clear_to_start_of_screen :: "unit vm" where
  "clear_to_start_of_screen = sthen
     (sbind (gets (\<lambda>v. v)) (\<lambda>v. if row v > 0 then ptr_zero 0 (row v * row_bytes v) else ret ()))
     clear_to_start_of_line"

definition clear_screen :: "unit vm" where
  "clear_screen = sthen (sbind (gets buf_len) (\<lambda>n. ptr_zero 0 n)) (modify (\<lambda>v. v\<lparr>col := 0, row := 0\<rparr>))"

definition clear_line :: "unit vm" where
  "clear_line = sthen
     (sbind (gets (\<lambda>v. v)) (\<lambda>v. paint (row v * CHAR_H) 0 (cols v * CHAR_W) (\<lambda>_ _. bg v)))
     (modify (\<lambda>v. v\<lparr>col := 0\<rparr>))"

definition insert_lines :: "nat \<Rightarrow> unit vm" where
  "insert_lines n0 = sbind (gets (\<lambda>v. v)) (\<lambda>v.
     let total_rows = rows v; n = min n0 (total_rows - row v); rb = row_bytes v; rows_to_move = total_rows - row v - n in
     if row v > total_rows then panic
     else sthen (if rows_to_move > 0 then ptr_copy (row v * rb) ((row v + n) * rb) (rows_to_move * rb) else ret ())
       (ptr_zero (row v * rb) (n * rb)))"

definition delete_lines :: "nat \<Rightarrow> unit vm" where
  "delete_lines n0 = sbind (gets (\<lambda>v. v)) (\<lambda>v.
     let total_rows = rows v; n = min n0 (total_rows - row v); rb = row_bytes v; rows_to_move = total_rows - row v - n in
     if row v > total_rows then panic
     else sthen (if rows_to_move > 0 then ptr_copy ((row v + n) * rb) (row v * rb) (rows_to_move * rb) else ret ())
       (ptr_zero ((total_rows - n) * rb) (n * rb)))"

section \<open>Characters\<close>

definition set_color :: "u8 \<Rightarrow> VgaBuffer \<Rightarrow> VgaBuffer" where
  "set_color code v =
     (if code = 0 then v\<lparr>fg := BRIGHT_WHITE, bg := BLACK\<rparr>
      else if 30 \<le> code \<and> code \<le> 37 then v\<lparr>fg := PALETTE ! unat (code - 30)\<rparr>
      else if 40 \<le> code \<and> code \<le> 47 then v\<lparr>bg := PALETTE ! unat (code - 40)\<rparr>
      else if 90 \<le> code \<and> code \<le> 97 then v\<lparr>fg := BRIGHT_PALETTE ! unat (code - 90)\<rparr>
      else if 100 \<le> code \<and> code \<le> 107 then v\<lparr>bg := BRIGHT_PALETTE ! unat (code - 100)\<rparr>
      else v)"

definition glyph :: "u32 \<Rightarrow> u8 list" where
  "glyph c = (if 32 \<le> c \<and> c \<le> 126 then FONT ! unat (c - 32) else FONT ! 0)"

text \<open>The colour of a pixel of a glyph: bit 7 of a row is on the left.\<close>

definition glyph_pixel :: "u32 \<Rightarrow> color \<Rightarrow> color \<Rightarrow> nat \<Rightarrow> nat \<Rightarrow> color" where
  "glyph_pixel c f b col_i row_i = (if drop_bit (7 - col_i) (glyph c ! row_i) AND 1 = 1 then f else b)"

definition scroll_past_end :: "unit vm" where
  "scroll_past_end = sbind (gets (\<lambda>v. v)) (\<lambda>v.
     if row v \<ge> rows v then sthen scroll_up
       (if rows v = 0 then panic else modify (\<lambda>v. v\<lparr>row := rows v - 1\<rparr>))
     else ret ())"

definition backspace :: "unit vm" where
  "backspace = sthen
     (sbind (gets (\<lambda>v. v)) (\<lambda>v.
        if col v > 0 then modify (\<lambda>v. v\<lparr>col := col v - 1\<rparr>)
        else if row v > 0 then
          (if cols v = 0 then panic else modify (\<lambda>v. v\<lparr>row := row v - 1, col := cols v - 1\<rparr>))
        else ret ()))
     (sbind (gets (\<lambda>v. v)) (\<lambda>v. paint (row v * CHAR_H) (col v * CHAR_W) (col v * CHAR_W + CHAR_W) (\<lambda>_ _. BLACK)))"

definition draw_char :: "u32 \<Rightarrow> unit vm" where
  "draw_char c = sthen
     (sbind (gets (\<lambda>v. v)) (\<lambda>v. paint (row v * CHAR_H) (col v * CHAR_W) (col v * CHAR_W + CHAR_W)
        (\<lambda>x row_i. glyph_pixel c (fg v) (bg v) (x - col v * CHAR_W) row_i)))
     (modify (\<lambda>v. if col v + 1 \<ge> cols v then v\<lparr>col := 0, row := row v + 1\<rparr> else v\<lparr>col := col v + 1\<rparr>))"

definition write_char :: "u32 \<Rightarrow> unit vm" where
  "write_char c = sthen
     (if c = 0x0A then modify (\<lambda>v. v\<lparr>col := 0, row := row v + 1\<rparr>)
      else if c = 0x0D then modify (\<lambda>v. v\<lparr>col := 0\<rparr>)
      else if c = 0x08 then backspace
      else draw_char c)
     scroll_past_end"

section \<open>Escape sequences\<close>

definition set_cursor_position :: "nat \<Rightarrow> nat \<Rightarrow> unit vm" where
  "set_cursor_position r c = sbind (gets (\<lambda>v. v)) (\<lambda>v.
     if rows v = 0 \<or> cols v = 0 then panic
     else modify (\<lambda>v. v\<lparr>row := min r (rows v - 1), col := min c (cols v - 1)\<rparr>))"

text \<open>\<open>split(';')\<close>: the pieces between the separators, a single empty one for the empty string.\<close>

fun split_on :: "u8 \<Rightarrow> bytes \<Rightarrow> bytes list" where
  "split_on d [] = [[]]"
| "split_on d (b # bs) = (if b = d then [] # split_on d bs else (b # hd (split_on d bs)) # tl (split_on d bs))"

text \<open>\<open>part.parse().unwrap_or(0)\<close> for an unsigned type with the given largest value.\<close>

definition parse_or_0 :: "nat \<Rightarrow> bytes \<Rightarrow> nat" where
  "parse_or_0 maxv s = (if s = [] then 0 else case dec_checked maxv 0 s of Some n \<Rightarrow> n | None \<Rightarrow> 0)"

text \<open>The first two parameters (\<open>splitn(3, ';').take(2)\<close>), zero when they are missing.\<close>

definition csi_param :: "bytes \<Rightarrow> nat \<Rightarrow> nat" where
  "csi_param s i = (if i < length (split_on 0x3B s) then parse_or_0 USIZE_MAX (split_on 0x3B s ! i) else 0)"

definition down :: "nat \<Rightarrow> unit vm" where
  "down n = sbind (gets (\<lambda>v. v)) (\<lambda>v.
     if row v + n > USIZE_MAX then panic else modify (\<lambda>v. v\<lparr>row := min (row v + n) (rows v - 1)\<rparr>))"

definition right :: "nat \<Rightarrow> unit vm" where
  "right n = sbind (gets (\<lambda>v. v)) (\<lambda>v.
     if col v + n > USIZE_MAX then panic else modify (\<lambda>v. v\<lparr>col := min (col v + n) (cols v - 1)\<rparr>))"

abbreviation ch :: "char \<Rightarrow> u32" where "ch \<equiv> of_char"

definition csi_command :: "u32 \<Rightarrow> bytes \<Rightarrow> unit vm" where
  "csi_command cmd s =
     (let p0 = csi_param s 0; p1 = csi_param s 1; n = max p0 1 in
      if cmd = ch CHR ''m'' then
        (if s = [] then modify (set_color 0)
         else for_in (split_on 0x3B s) (\<lambda>part. modify (set_color (word_of_nat (parse_or_0 255 part)))))
      else if cmd = ch CHR ''J'' then
        (if p0 = 0 then clear_to_end_of_screen else if p0 = 1 then clear_to_start_of_screen
         else if p0 = 2 then clear_screen else ret ())
      else if cmd = ch CHR ''K'' then
        (if p0 = 0 then clear_to_end_of_line else if p0 = 1 then clear_to_start_of_line
         else if p0 = 2 then clear_line else ret ())
      else if cmd = ch CHR ''H'' \<or> cmd = ch CHR ''f'' then set_cursor_position (p0 - 1) (p1 - 1)
      else if cmd = ch CHR ''A'' then modify (\<lambda>v. v\<lparr>row := row v - n\<rparr>)
      else if cmd = ch CHR ''F'' then modify (\<lambda>v. v\<lparr>row := row v - n, col := 0\<rparr>)
      else if cmd = ch CHR ''B'' then down n
      else if cmd = ch CHR ''E'' then sthen (down n) (modify (\<lambda>v. v\<lparr>col := 0\<rparr>))
      else if cmd = ch CHR ''C'' then right n
      else if cmd = ch CHR ''D'' then modify (\<lambda>v. v\<lparr>col := col v - n\<rparr>)
      else if cmd = ch CHR ''G'' then modify (\<lambda>v. v\<lparr>col := min (p0 - 1) (cols v - 1)\<rparr>)
      else if cmd = ch CHR ''d'' then modify (\<lambda>v. v\<lparr>row := min (p0 - 1) (rows v - 1)\<rparr>)
      else if cmd = ch CHR ''s'' then modify (\<lambda>v. v\<lparr>saved_row := row v, saved_col := col v\<rparr>)
      else if cmd = ch CHR ''u'' then modify (\<lambda>v. v\<lparr>row := saved_row v, col := saved_col v\<rparr>)
      else if cmd = ch CHR ''L'' then insert_lines n
      else if cmd = ch CHR ''M'' then delete_lines n
      else ret ())"

text \<open>\<open>s.chars()\<close>: the characters of a string, from its UTF-8 encoding.\<close>

fun str_chars :: "bytes \<Rightarrow> u32 list" where
  "str_chars [] = []"
| "str_chars (b # bs) =
     (if b < 0x80 then ucast b # str_chars bs
      else if b < 0xE0 then
        (case bs of c # bs' \<Rightarrow> (push_bit 6 (ucast (b AND 0x1F)) OR ucast (c AND 0x3F)) # str_chars bs' | _ \<Rightarrow> [])
      else if b < 0xF0 then
        (case bs of c # d # bs' \<Rightarrow>
           (push_bit 12 (ucast (b AND 0x0F)) OR push_bit 6 (ucast (c AND 0x3F)) OR ucast (d AND 0x3F)) # str_chars bs' | _ \<Rightarrow> [])
      else
        (case bs of c # d # e # bs' \<Rightarrow>
           (push_bit 18 (ucast (b AND 0x07)) OR push_bit 12 (ucast (c AND 0x3F)) OR push_bit 6 (ucast (d AND 0x3F))
             OR ucast (e AND 0x3F)) # str_chars bs' | _ \<Rightarrow> []))"

text \<open>Digits and semicolons up to the command character.\<close>

definition param_char :: "u32 \<Rightarrow> bool" where
  "param_char c \<longleftrightarrow> (0x30 \<le> c \<and> c \<le> 0x39) \<or> c = 0x3B"

definition param_str :: "u32 list \<Rightarrow> bytes" where
  "param_str cs = map ucast (takeWhile param_char cs)"

function ansi_loop :: "u32 list \<Rightarrow> unit vm" where
  "ansi_loop [] = ret ()"
| "ansi_loop (c # cs) =
     (if c \<noteq> 0x1B then sthen (write_char c) (ansi_loop cs)
      else case cs of
        [] \<Rightarrow> ret ()
      | d # ds \<Rightarrow>
          if d \<noteq> ch CHR ''['' then ansi_loop ds
          else case dropWhile param_char ds of
            [] \<Rightarrow> ret ()
          | cmd # rest \<Rightarrow> sthen (csi_command cmd (param_str ds)) (ansi_loop rest))"
  by pat_completeness auto
termination
proof (relation "measure length")
  fix c d cmd :: u32 and cs ds rest :: "u32 list"
  assume "cs = d # ds" "dropWhile param_char ds = cmd # rest"
  then show "(rest, c # cs) \<in> measure length" using length_dropWhile_le [of param_char ds] by simp
qed auto

definition parse_ansi :: "bytes \<Rightarrow> unit vm" where
  "parse_ansi s = ansi_loop (str_chars s)"

section \<open>The global writer\<close>

definition with_writer :: "unit vm \<Rightarrow> (VgaBuffer option, vga_fault, unit) sm" where
  "with_writer m = (\<lambda>w. case w of None \<Rightarrow> (Ok (), None) | Some v \<Rightarrow> (let (r, v') = m v in (r, Some v')))"

definition vga_init :: "(nat \<Rightarrow> u8) \<Rightarrow> nat \<Rightarrow> FrameBufferInfo \<Rightarrow> (VgaBuffer option, vga_fault, unit) sm" where
  "vga_init b n i = sthen (modify (\<lambda>_. Some (vga_new b n i))) (with_writer clear_screen)"

definition vga_clear_screen :: "(VgaBuffer option, vga_fault, unit) sm" where
  "vga_clear_screen = with_writer clear_screen"

definition unpack_rgb :: "u32 \<Rightarrow> color" where
  "unpack_rgb rgb = (ucast (drop_bit 16 rgb AND 0xFF), ucast (drop_bit 8 rgb AND 0xFF), ucast (rgb AND 0xFF))"

text \<open>The body of the loop of \<open>blit_rgb32\<close> is that of \<open>put_pixel\<close>, written out with the lock held.\<close>

definition vga_blit_rgb32 :: "u32 list \<Rightarrow> nat \<Rightarrow> nat \<Rightarrow> (VgaBuffer option, vga_fault, unit) sm" where
  "vga_blit_rgb32 buf w h = with_writer (for_in [0..<h] (\<lambda>y. for_in [0..<w] (\<lambda>x.
     sbind (lift (index buf (y * w + x))) (\<lambda>rgb. put_pixel x y (unpack_rgb rgb)))))"

definition vga_set_pixel :: "i32 \<Rightarrow> i32 \<Rightarrow> u32 \<Rightarrow> (VgaBuffer option, vga_fault, unit) sm" where
  "vga_set_pixel x y rgb =
     (if sint x < 0 \<or> sint y < 0 then ret () else with_writer (put_pixel (unat x) (unat y) (unpack_rgb rgb)))"

definition vga_print :: "bytes \<Rightarrow> (VgaBuffer option, vga_fault, unit) sm" where
  "vga_print s = with_writer (parse_ansi s)"

section \<open>What a frame shows\<close>

text \<open>The colour of a pixel, read back from its bytes.\<close>

definition pic :: "FrameBufferInfo \<Rightarrow> (nat \<Rightarrow> u8) \<Rightarrow> nat \<Rightarrow> nat \<Rightarrow> color" where
  "pic i b x y = (let off = (y * stride i + x) * bytes_per_pixel i in
     case pixel_format i of Bgr \<Rightarrow> (b (off + 2), b (off + 1), b off) | _ \<Rightarrow> (b off, b (off + 1), b (off + 2)))"

text \<open>
  A usable mode: at least one character, three bytes for a pixel, the visible lines inside the buffer, and lines of less
  than 4 GiB.
\<close>

definition mode_ok :: "FrameBufferInfo \<Rightarrow> nat \<Rightarrow> bool" where
  "mode_ok i n \<longleftrightarrow> CHAR_W \<le> width i \<and> CHAR_H \<le> height i \<and> width i \<le> stride i \<and> 3 \<le> bytes_per_pixel i
     \<and> height i * (stride i * bytes_per_pixel i) \<le> n \<and> n \<le> USIZE_MAX \<and> stride i * bytes_per_pixel i < 2 ^ 32"

lemma offset_split:
  fixes x y s k p :: nat
  assumes "x < s" "k < p"
  shows "((y * s + x) * p + k) div (s * p) = y" "m * (s * p) \<le> (y * s + x) * p + k \<longleftrightarrow> m \<le> y"
    "(y * s + x) * p + k < m * (s * p) \<longleftrightarrow> y < m"
proof -
  have "x * p + k < x * p + p" using assms by simp
  also have "\<dots> \<le> s * p" using mult_le_mono1 [of "Suc x" s p] assms by simp
  finally have l: "x * p + k < s * p" .
  have e: "(y * s + x) * p + k = x * p + k + y * (s * p)" by (simp add: algebra_simps)
  have "(x * p + k + y * (s * p)) div (s * p) = y + (x * p + k) div (s * p)"
    by (rule div_mult_self1) (use l in linarith)
  then show d: "((y * s + x) * p + k) div (s * p) = y" unfolding e using l by (simp only: div_less add_0_right)
  have "0 < s * p" using l by linarith
  then show le: "m * (s * p) \<le> (y * s + x) * p + k \<longleftrightarrow> m \<le> y" for m
    using d less_eq_div_iff_mult_less_eq [of "s * p" m "(y * s + x) * p + k"] by (simp only:)
  show "(y * s + x) * p + k < m * (s * p) \<longleftrightarrow> y < m" using le [of m] by linarith
qed

lemma offset_unique:
  fixes x y x' y' s k k' p :: nat
  assumes "x < s" "k < p" "x' < s" "k' < p" "(y * s + x) * p + k = (y' * s + x') * p + k'"
  shows "x = x' \<and> y = y' \<and> k = k'"
proof -
  have "y = y'" using offset_split(1) [OF assms(1,2), of y] offset_split(1) [OF assms(3,4), of y'] assms(5) by metis
  moreover have "((u * p + j) div p) = u" if "j < p" for u j using that by (simp add: div_less)
  then have "y * s + x = y' * s + x'" using assms(2,4,5) by metis
  ultimately show ?thesis using assms(5) by simp
qed

lemma put_pixel_run:
  assumes ok: "mode_ok (info v) (buf_len v)" and xy: "x < stride (info v)" "y < height (info v)"
  shows "\<exists>b. put_pixel x y c v = (Ok (), v\<lparr>fb := b\<rparr>)
    \<and> (\<forall>x' y'. x' < stride (info v) \<longrightarrow> pic (info v) b x' y' = (if x' = x \<and> y' = y then c else pic (info v) (fb v) x' y'))"
proof -
  let ?s = "stride (info v)" and ?p = "bytes_per_pixel (info v)"
  let ?o = "(y * ?s + x) * ?p"
  have p: "3 \<le> ?p" using ok by (simp add: mode_ok_def)
  have "?o + (?p - 1) < height (info v) * (?s * ?p)"
    using offset_split(3) [of x ?s "?p - 1" ?p y "height (info v)"] xy p by simp
  then have in_buf: "?o + ?p \<le> buf_len v" using ok p unfolding mode_ok_def by linarith
  have "buf_len v \<le> USIZE_MAX" using ok by (simp add: mode_ok_def)
  moreover have "y * ?s + x \<le> ?o" using p by simp
  ultimately have fits: "\<not> y * ?s + x > USIZE_MAX" "\<not> ?o + ?p > USIZE_MAX" "\<not> ?o + ?p > buf_len v" using in_buf by linarith+
  then have run: "put_pixel x y c v = (Ok (), v\<lparr>fb := case pixel_format (info v) of
      Bgr \<Rightarrow> (fb v)(?o := snd (snd c), ?o + 1 := fst (snd c), ?o + 2 := fst c)
    | _ \<Rightarrow> (fb v)(?o := fst c, ?o + 1 := fst (snd c), ?o + 2 := snd (snd c))\<rparr>)"
    using p in_buf by (cases c; cases "pixel_format (info v)")
      (simp_all add: put_pixel_def run_gets write_volatile_def sthen_def sbind_def [of "\<lambda>v. if _ v then _ v else _ v"] Let_def)
  let ?b = "case pixel_format (info v) of
      Bgr \<Rightarrow> (fb v)(?o := snd (snd c), ?o + 1 := fst (snd c), ?o + 2 := fst c)
    | _ \<Rightarrow> (fb v)(?o := fst c, ?o + 1 := fst (snd c), ?o + 2 := snd (snd c))"
  have "pic (info v) ?b x' y' = (if x' = x \<and> y' = y then c else pic (info v) (fb v) x' y')" if x': "x' < ?s" for x' y'
  proof (cases "x' = x \<and> y' = y")
    case True
    then show ?thesis by (cases c) (simp add: pic_def Let_def split: PixelFormat.split)
  next
    case False
    have ne: "(y' * ?s + x') * ?p + k' \<noteq> ?o + k" if "k < 3" "k' < 3" for k k'
      using offset_unique [of x' ?s k' ?p x k y' y] that x' False xy(1) p by auto
    have keep: "?b ((y' * ?s + x') * ?p + k') = fb v ((y' * ?s + x') * ?p + k')" if "k' < 3" for k'
      using ne [of 0 k'] ne [of 1 k'] ne [of 2 k'] that by (simp split: PixelFormat.split)
    show ?thesis
      using False keep [of 0] keep [of 1] keep [of 2] by (simp only: pic_def Let_def add_0_right) (simp split: PixelFormat.split)
  qed
  with run show ?thesis by blast
qed

text \<open>Loops that paint pixels.\<close>

lemma for_in_append: "for_in (xs @ ys) f = sthen (for_in xs f) (for_in ys f)"
  by (induction xs) (simp_all add: sthen_def sbind_assoc)

lemma for_in_map: "for_in (map h xs) f = for_in xs (\<lambda>x. f (h x))"
  by (induction xs) simp_all

lemma for_in_nested: "for_in xs (\<lambda>x. for_in ys (g x)) = for_in (List.product xs ys) (\<lambda>(x, y). g x y)"
  by (induction xs) (simp_all add: for_in_append for_in_map)

lemma for_pixels:
  assumes "mode_ok (info v) (buf_len v)" and "\<And>x y. (x, y) \<in> set ps \<Longrightarrow> x < stride (info v) \<and> y < height (info v)"
  shows "\<exists>b. for_in ps (\<lambda>(x, y). put_pixel x y (f x y)) v = (Ok (), v\<lparr>fb := b\<rparr>)
    \<and> (\<forall>x y. x < stride (info v) \<longrightarrow> pic (info v) b x y = (if (x, y) \<in> set ps then f x y else pic (info v) (fb v) x y))"
  using assms
proof (induction ps arbitrary: v)
  case Nil
  then show ?case by (auto simp: ret_def intro: exI [of _ "fb v"])
next
  case (Cons p ps)
  obtain x y where p: "p = (x, y)" by (cases p)
  obtain b where b: "put_pixel x y (f x y) v = (Ok (), v\<lparr>fb := b\<rparr>)"
    "\<forall>x' y'. x' < stride (info v) \<longrightarrow> pic (info v) b x' y' = (if x' = x \<and> y' = y then f x y else pic (info v) (fb v) x' y')"
    using put_pixel_run [OF Cons.prems(1), of x y "f x y"] Cons.prems(2) p by auto
  obtain b' where b': "for_in ps (\<lambda>(x, y). put_pixel x y (f x y)) (v\<lparr>fb := b\<rparr>) = (Ok (), v\<lparr>fb := b'\<rparr>)"
    "\<forall>x y. x < stride (info v) \<longrightarrow> pic (info v) b' x y = (if (x, y) \<in> set ps then f x y else pic (info v) b x y)"
    using Cons.IH [of "v\<lparr>fb := b\<rparr>"] Cons.prems(1) Cons.prems(2) [OF list.set_intros(2)] by auto
  show ?case
    by (rule exI [of _ b']) (use b b' p in \<open>auto simp: run_step(2) [of "put_pixel x y (f x y)" v, OF b(1)]\<close>)
qed

lemma paint_run:
  assumes ok: "mode_ok (info v) (buf_len v)" and "b \<le> stride (info v)" "py + CHAR_H \<le> height (info v)"
  shows "\<exists>b'. paint py a b f v = (Ok (), v\<lparr>fb := b'\<rparr>)
    \<and> (\<forall>x y. x < stride (info v) \<longrightarrow> pic (info v) b' x y =
         (if a \<le> x \<and> x < b \<and> py \<le> y \<and> y < py + CHAR_H then f x (y - py) else pic (info v) (fb v) x y))"
proof -
  let ?ps = "map (\<lambda>(i, x). (x, py + i)) (List.product [0..<CHAR_H] [a..<b])"
  have e: "paint py a b f = for_in ?ps (\<lambda>(x, y). put_pixel x y (f x (y - py)))"
    by (simp add: paint_def for_in_nested for_in_map case_prod_beta')
  have m: "(x, y) \<in> set ?ps \<longleftrightarrow> a \<le> x \<and> x < b \<and> py \<le> y \<and> y < py + CHAR_H" for x y
    by (auto simp: image_iff intro!: bexI [of _ "y - py"])
  show ?thesis
    unfolding e using for_pixels [OF ok, of ?ps "\<lambda>x y. f x (y - py)"] assms(2,3) by (simp only: m) auto
qed

text \<open>Moving and clearing whole lines of pixels.\<close>

definition line_bytes :: "FrameBufferInfo \<Rightarrow> nat" where
  "line_bytes i = stride i * bytes_per_pixel i"

lemma pic_lines:
  assumes "mode_ok i n" "x < stride i"
  shows "\<And>b m k. pic i (\<lambda>o'. if m * line_bytes i \<le> o' \<and> o' < m * line_bytes i + k * line_bytes i then g o' else b o') x y
      = (if m \<le> y \<and> y < m + k then pic i g x y else pic i b x y)"
proof -
  fix b m k
  let ?s = "stride i" and ?p = "bytes_per_pixel i"
  have p: "0 < ?p" "1 < ?p" "2 < ?p" using assms(1) by (auto simp: mode_ok_def)
  have "m * (?s * ?p) + k * (?s * ?p) = (m + k) * (?s * ?p)" by (simp add: algebra_simps)
  note iff = this offset_split(2,3) [OF assms(2) p(1), unfolded add_0_right] offset_split(2,3) [OF assms(2) p(2)] offset_split(2,3) [OF assms(2) p(3)]
  show "pic i (\<lambda>o'. if m * line_bytes i \<le> o' \<and> o' < m * line_bytes i + k * line_bytes i then g o' else b o') x y
      = (if m \<le> y \<and> y < m + k then pic i g x y else pic i b x y)"
    unfolding pic_def line_bytes_def Let_def iff by (auto split: PixelFormat.split)
qed

lemma pic_shift:
  assumes "m \<le> y"
  shows "pic i (\<lambda>o'. b (l * line_bytes i + (o' - m * line_bytes i))) x y = pic i b x (y - m + l)"
proof -
  let ?s = "stride i" and ?p = "bytes_per_pixel i"
  obtain d where y: "y = m + d" using assms le_Suc_ex by blast
  have "l * (?s * ?p) + ((y * ?s + x) * ?p + k - m * (?s * ?p)) = ((y - m + l) * ?s + x) * ?p + k" for k
    unfolding y by (simp add: algebra_simps)
  from this [of 0] this [of 1] this [of 2] show ?thesis
    by (simp add: pic_def line_bytes_def Let_def split: PixelFormat.split)
qed

lemma pic_zero: "pic i (\<lambda>_. 0) x y = BLACK"
  by (simp add: pic_def Let_def BLACK_def split: PixelFormat.split)

lemma zero_lines:
  assumes ok: "mode_ok (info v) (buf_len v)" and "m + k \<le> height (info v)"
  shows "\<exists>b. ptr_zero (m * line_bytes (info v)) (k * line_bytes (info v)) v = (Ok (), v\<lparr>fb := b\<rparr>)
    \<and> (\<forall>x y. x < stride (info v) \<longrightarrow> pic (info v) b x y = (if m \<le> y \<and> y < m + k then BLACK else pic (info v) (fb v) x y))"
proof -
  have "m * line_bytes (info v) + k * line_bytes (info v) \<le> height (info v) * line_bytes (info v)"
    using mult_le_mono1 [OF assms(2), of "line_bytes (info v)"] by (simp add: algebra_simps)
  then have "m * line_bytes (info v) + k * line_bytes (info v) \<le> buf_len v"
    using ok by (simp add: mode_ok_def line_bytes_def)
  then show ?thesis
    by (auto simp: ptr_zero_def pic_lines [OF ok] pic_zero intro!: exI)
qed

lemma copy_lines:
  assumes ok: "mode_ok (info v) (buf_len v)" and "l + k \<le> height (info v)" "m + k \<le> height (info v)"
  shows "\<exists>b. ptr_copy (l * line_bytes (info v)) (m * line_bytes (info v)) (k * line_bytes (info v)) v = (Ok (), v\<lparr>fb := b\<rparr>)
    \<and> (\<forall>x y. x < stride (info v) \<longrightarrow> pic (info v) b x y =
         (if m \<le> y \<and> y < m + k then pic (info v) (fb v) x (y - m + l) else pic (info v) (fb v) x y))"
proof -
  have "j * line_bytes (info v) + k * line_bytes (info v) \<le> buf_len v" if "j + k \<le> height (info v)" for j
    using mult_le_mono1 [OF that, of "line_bytes (info v)"] ok by (simp add: algebra_simps mode_ok_def line_bytes_def)
  then show ?thesis
    using assms(2,3) by (auto simp: ptr_copy_def pic_lines [OF ok] pic_shift intro!: exI)
qed

section \<open>The terminal\<close>

text \<open>
  What the text of a screen means: a grid of cells, each a character in two colours, blank, or pixels a program has drawn, with a cursor, a saved
  cursor and the current colours. The source interleaves reading escape sequences with drawing; here a text is first
  a list of events.
\<close>

datatype cell = Glyph u32 color color | Blank color | Raw "nat \<Rightarrow> nat \<Rightarrow> color"

primrec cell_pixel :: "cell \<Rightarrow> nat \<Rightarrow> nat \<Rightarrow> color" where
  "cell_pixel (Glyph c f b) x y = glyph_pixel c f b x y"
| "cell_pixel (Blank b) x y = b"
| "cell_pixel (Raw p) x y = p x y"

record terminal =
  t_cells :: "nat \<Rightarrow> nat \<Rightarrow> cell"
  t_row :: nat
  t_col :: nat
  t_saved_row :: nat
  t_saved_col :: nat
  t_fg :: color
  t_bg :: color

definition fill :: "(nat \<Rightarrow> nat \<Rightarrow> bool) \<Rightarrow> cell \<Rightarrow> terminal \<Rightarrow> terminal" where
  "fill P x t = t\<lparr>t_cells := \<lambda>r c. if P r c then x else t_cells t r c\<rparr>"

text \<open>Insert or delete \<open>n\<close> lines at the cursor, and scroll when the cursor has left the last line.\<close>

definition term_insert :: "nat \<Rightarrow> nat \<Rightarrow> terminal \<Rightarrow> terminal" where
  "term_insert R n t = t\<lparr>t_cells := \<lambda>r. if r < t_row t then t_cells t r
     else if r < t_row t + n then (\<lambda>_. Blank BLACK) else t_cells t (r - n)\<rparr>"

definition term_delete :: "nat \<Rightarrow> nat \<Rightarrow> terminal \<Rightarrow> terminal" where
  "term_delete R n t = t\<lparr>t_cells := \<lambda>r. if r < t_row t then t_cells t r
     else if r + n < R then t_cells t (r + n) else (\<lambda>_. Blank BLACK)\<rparr>"

definition term_scroll :: "nat \<Rightarrow> terminal \<Rightarrow> terminal" where
  "term_scroll R t = (if t_row t < R then t
     else t\<lparr>t_cells := \<lambda>r. if r + 1 < R then t_cells t (r + 1) else (\<lambda>_. Blank BLACK), t_row := R - 1\<rparr>)"

definition term_back :: "nat \<Rightarrow> terminal \<Rightarrow> terminal" where
  "term_back C t = (if 0 < t_col t then t\<lparr>t_col := t_col t - 1\<rparr>
     else if 0 < t_row t then t\<lparr>t_row := t_row t - 1, t_col := C - 1\<rparr> else t)"

definition term_advance :: "nat \<Rightarrow> terminal \<Rightarrow> terminal" where
  "term_advance C t = (if t_col t + 1 < C then t\<lparr>t_col := t_col t + 1\<rparr> else t\<lparr>t_col := 0, t_row := t_row t + 1\<rparr>)"

definition at_cursor :: "terminal \<Rightarrow> nat \<Rightarrow> nat \<Rightarrow> bool" where
  "at_cursor t r c \<longleftrightarrow> r = t_row t \<and> c = t_col t"

definition term_char :: "nat \<Rightarrow> nat \<Rightarrow> u32 \<Rightarrow> terminal \<Rightarrow> terminal" where
  "term_char R C c t = term_scroll R
     (if c = 0x0A then t\<lparr>t_col := 0, t_row := t_row t + 1\<rparr>
      else if c = 0x0D then t\<lparr>t_col := 0\<rparr>
      else if c = 0x08 then fill (at_cursor (term_back C t)) (Blank BLACK) (term_back C t)
      else term_advance C (fill (at_cursor t) (Glyph c (t_fg t) (t_bg t)) t))"

definition term_color :: "u8 \<Rightarrow> terminal \<Rightarrow> terminal" where
  "term_color code t =
     (if code = 0 then t\<lparr>t_fg := BRIGHT_WHITE, t_bg := BLACK\<rparr>
      else if 30 \<le> code \<and> code \<le> 37 then t\<lparr>t_fg := PALETTE ! unat (code - 30)\<rparr>
      else if 40 \<le> code \<and> code \<le> 47 then t\<lparr>t_bg := PALETTE ! unat (code - 40)\<rparr>
      else if 90 \<le> code \<and> code \<le> 97 then t\<lparr>t_fg := BRIGHT_PALETTE ! unat (code - 90)\<rparr>
      else if 100 \<le> code \<and> code \<le> 107 then t\<lparr>t_bg := BRIGHT_PALETTE ! unat (code - 100)\<rparr>
      else t)"

definition term_csi :: "nat \<Rightarrow> nat \<Rightarrow> u32 \<Rightarrow> bytes \<Rightarrow> terminal \<Rightarrow> terminal" where
  "term_csi R C cmd s t =
     (let p0 = csi_param s 0; p1 = csi_param s 1; n = max p0 1; r0 = t_row t; c0 = t_col t in
      if cmd = ch CHR ''m'' then
        (if s = [] then term_color 0 t else fold (\<lambda>p. term_color (word_of_nat (parse_or_0 255 p))) (split_on 0x3B s) t)
      else if cmd = ch CHR ''J'' then
        (if p0 = 0 then fill (\<lambda>r c. r0 < r) (Blank BLACK) (fill (\<lambda>r c. r = r0 \<and> c0 \<le> c) (Blank (t_bg t)) t)
         else if p0 = 1 then fill (\<lambda>r c. r = r0 \<and> c \<le> c0) (Blank (t_bg t)) (fill (\<lambda>r c. r < r0) (Blank BLACK) t)
         else if p0 = 2 then (fill (\<lambda>r c. True) (Blank BLACK) t)\<lparr>t_row := 0, t_col := 0\<rparr> else t)
      else if cmd = ch CHR ''K'' then
        (if p0 = 0 then fill (\<lambda>r c. r = r0 \<and> c0 \<le> c) (Blank (t_bg t)) t
         else if p0 = 1 then fill (\<lambda>r c. r = r0 \<and> c \<le> c0) (Blank (t_bg t)) t
         else if p0 = 2 then (fill (\<lambda>r c. r = r0) (Blank (t_bg t)) t)\<lparr>t_col := 0\<rparr> else t)
      else if cmd = ch CHR ''H'' \<or> cmd = ch CHR ''f'' then t\<lparr>t_row := min (p0 - 1) (R - 1), t_col := min (p1 - 1) (C - 1)\<rparr>
      else if cmd = ch CHR ''A'' then t\<lparr>t_row := r0 - n\<rparr>
      else if cmd = ch CHR ''F'' then t\<lparr>t_row := r0 - n, t_col := 0\<rparr>
      else if cmd = ch CHR ''B'' then t\<lparr>t_row := min (r0 + n) (R - 1)\<rparr>
      else if cmd = ch CHR ''E'' then t\<lparr>t_row := min (r0 + n) (R - 1), t_col := 0\<rparr>
      else if cmd = ch CHR ''C'' then t\<lparr>t_col := min (c0 + n) (C - 1)\<rparr>
      else if cmd = ch CHR ''D'' then t\<lparr>t_col := c0 - n\<rparr>
      else if cmd = ch CHR ''G'' then t\<lparr>t_col := min (p0 - 1) (C - 1)\<rparr>
      else if cmd = ch CHR ''d'' then t\<lparr>t_row := min (p0 - 1) (R - 1)\<rparr>
      else if cmd = ch CHR ''s'' then t\<lparr>t_saved_row := r0, t_saved_col := c0\<rparr>
      else if cmd = ch CHR ''u'' then t\<lparr>t_row := t_saved_row t, t_col := t_saved_col t\<rparr>
      else if cmd = ch CHR ''L'' then term_insert R n t
      else if cmd = ch CHR ''M'' then term_delete R n t
      else t)"

datatype ansi_event = Char u32 | Csi u32 bytes

function ansi_events :: "u32 list \<Rightarrow> ansi_event list" where
  "ansi_events [] = []"
| "ansi_events (c # cs) =
     (if c \<noteq> 0x1B then Char c # ansi_events cs
      else case cs of
        [] \<Rightarrow> []
      | d # ds \<Rightarrow>
          if d \<noteq> ch CHR ''['' then ansi_events ds
          else case dropWhile param_char ds of [] \<Rightarrow> [] | cmd # rest \<Rightarrow> Csi cmd (param_str ds) # ansi_events rest)"
  by pat_completeness auto
termination
proof (relation "measure length")
  fix c d cmd :: u32 and cs ds rest :: "u32 list"
  assume "cs = d # ds" "dropWhile param_char ds = cmd # rest"
  then show "(rest, c # cs) \<in> measure length" using length_dropWhile_le [of param_char ds] by simp
qed auto

primrec term_event :: "nat \<Rightarrow> nat \<Rightarrow> ansi_event \<Rightarrow> terminal \<Rightarrow> terminal" where
  "term_event R C (Char c) = term_char R C c"
| "term_event R C (Csi cmd s) = term_csi R C cmd s"

text \<open>The concrete interpreter as a loop over events.\<close>

primrec do_event :: "ansi_event \<Rightarrow> unit vm" where
  "do_event (Char c) = write_char c"
| "do_event (Csi cmd s) = csi_command cmd s"

lemma ansi_loop_events: "ansi_loop cs = for_in (ansi_events cs) do_event"
  by (induction cs rule: ansi_loop.induct) (auto split: list.split simp del: dropWhile_eq_Nil_conv)

text \<open>The cursor and the saved cursor are on the screen.\<close>

definition on_screen :: "nat \<Rightarrow> nat \<Rightarrow> terminal \<Rightarrow> bool" where
  "on_screen R C t \<longleftrightarrow> t_row t < R \<and> t_col t < C \<and> t_saved_row t < R \<and> t_saved_col t < C"

lemma fill_fields [simp]:
  "t_row (fill P x t) = t_row t" "t_col (fill P x t) = t_col t" "t_saved_row (fill P x t) = t_saved_row t"
  "t_saved_col (fill P x t) = t_saved_col t" "t_fg (fill P x t) = t_fg t" "t_bg (fill P x t) = t_bg t"
  "t_cells (fill P x t) r c = (if P r c then x else t_cells t r c)"
  by (simp_all add: fill_def)

lemma term_color_fields [simp]:
  "t_row (term_color k t) = t_row t" "t_col (term_color k t) = t_col t" "t_saved_row (term_color k t) = t_saved_row t"
  "t_saved_col (term_color k t) = t_saved_col t"
  by (simp_all add: term_color_def)

lemma on_screen_colors: "on_screen R C t \<Longrightarrow> on_screen R C (fold (\<lambda>p. term_color (k p)) ps t)"
  by (induction ps arbitrary: t) (simp_all add: on_screen_def)

lemma on_screen_char: "on_screen R C t \<Longrightarrow> on_screen R C (term_char R C c t)"
  by (auto simp: on_screen_def term_char_def term_scroll_def term_back_def term_advance_def)

lemma on_screen_if: "on_screen R C x \<Longrightarrow> on_screen R C y \<Longrightarrow> on_screen R C (if b then x else y)"
  by simp

lemma on_screen_csi:
  assumes "on_screen R C t" shows "on_screen R C (term_csi R C cmd s t)"
  unfolding term_csi_def Let_def
  by (intro on_screen_if on_screen_colors assms)
    (use assms in \<open>simp_all add: on_screen_def term_insert_def term_delete_def min.strict_coboundedI2 less_imp_diff_less\<close>)

lemma on_screen_event: "on_screen R C t \<Longrightarrow> on_screen R C (term_event R C e t)"
  by (cases e) (simp_all add: on_screen_char on_screen_csi)

section \<open>The screen implements the terminal\<close>

abbreviation "grid_rows i \<equiv> height i div CHAR_H"
abbreviation "grid_cols i \<equiv> width i div CHAR_W"

definition shows_grid :: "FrameBufferInfo \<Rightarrow> (nat \<Rightarrow> u8) \<Rightarrow> (nat \<Rightarrow> nat \<Rightarrow> cell) \<Rightarrow> bool" where
  "shows_grid i b g \<longleftrightarrow> (\<forall>r c y x. r < grid_rows i \<and> c < grid_cols i \<and> y < CHAR_H \<and> x < CHAR_W \<longrightarrow>
     pic i b (c * CHAR_W + x) (r * CHAR_H + y) = cell_pixel (g r c) x y)"

definition displays :: "FrameBufferInfo \<Rightarrow> nat \<Rightarrow> VgaBuffer \<Rightarrow> terminal \<Rightarrow> bool" where
  "displays i n v t \<longleftrightarrow> info v = i \<and> buf_len v = n \<and> row v = t_row t \<and> col v = t_col t \<and> saved_row v = t_saved_row t
     \<and> saved_col v = t_saved_col t \<and> fg v = t_fg t \<and> bg v = t_bg t \<and> shows_grid i (fb v) (t_cells t)"

text \<open>From states that display a terminal, the computation ends well and displays the result of the function.\<close>

definition draws :: "FrameBufferInfo \<Rightarrow> nat \<Rightarrow> (terminal \<Rightarrow> bool) \<Rightarrow> unit vm \<Rightarrow> (terminal \<Rightarrow> terminal) \<Rightarrow> bool" where
  "draws i n P m f \<longleftrightarrow> (\<forall>v t. displays i n v t \<and> P t \<longrightarrow> (\<exists>v'. m v = (Ok (), v') \<and> displays i n v' (f t)))"

lemma drawsI: "(\<And>v t. displays i n v t \<Longrightarrow> P t \<Longrightarrow> \<exists>v'. m v = (Ok (), v') \<and> displays i n v' (f t)) \<Longrightarrow> draws i n P m f"
  by (simp add: draws_def)

lemma draws_seq:
  assumes "draws i n P m f" "draws i n Q k g" "\<And>t. P t \<Longrightarrow> Q (f t)"
  shows "draws i n P (sthen m k) (\<lambda>t. g (f t))"
  using assms unfolding draws_def sthen_eq_Ok by blast

lemma draws_look:
  assumes "\<And>v t. displays i n v t \<Longrightarrow> P t \<Longrightarrow> draws i n (\<lambda>t'. t' = t) (m v) f"
  shows "draws i n P (sbind (gets (\<lambda>v. v)) m) f"
  by (rule drawsI) (use assms in \<open>simp add: run_gets draws_def\<close>)

lemma draws_ret: "draws i n P (ret ()) (\<lambda>t. t)"
  by (simp add: draws_def ret_def)

lemma draws_cond:
  "(b \<Longrightarrow> draws i n P m f) \<Longrightarrow> (\<not> b \<Longrightarrow> draws i n P k g) \<Longrightarrow> draws i n P (if b then m else k) (\<lambda>t. if b then f t else g t)"
  by (simp add: draws_def)

lemma draws_modify:
  "(\<And>v t. displays i n v t \<Longrightarrow> P t \<Longrightarrow> displays i n (h v) (f t)) \<Longrightarrow> draws i n P (modify h) f"
  by (simp add: draws_def modify_def)

lemma draws_weaken: "draws i n Q m f \<Longrightarrow> (\<And>t. P t \<Longrightarrow> Q t \<and> f t = g t) \<Longrightarrow> draws i n P m g"
  unfolding draws_def by metis

lemma displays_redraw:
  assumes "displays i n v t" and "shows_grid i b (t_cells t')" and "t' = t\<lparr>t_cells := t_cells t'\<rparr>"
  shows "displays i n (v\<lparr>fb := b\<rparr>) t'"
proof -
  have "t_row t' = t_row t" "t_col t' = t_col t" "t_saved_row t' = t_saved_row t" "t_saved_col t' = t_saved_col t" "t_fg t' = t_fg t" "t_bg t' = t_bg t"
    using arg_cong [OF assms(3), of t_row] arg_cong [OF assms(3), of t_col] arg_cong [OF assms(3), of t_saved_row]
      arg_cong [OF assms(3), of t_saved_col] arg_cong [OF assms(3), of t_fg] arg_cong [OF assms(3), of t_bg] by simp_all
  then show ?thesis using assms(1,2) by (simp add: displays_def)
qed

lemma grid_inside:
  assumes "mode_ok i n" "c < grid_cols i" "x < CHAR_W"
  shows "c * CHAR_W + x < stride i" and "c \<le> grid_cols i \<Longrightarrow> c * CHAR_W \<le> stride i"
  using assms unfolding mode_ok_def CHAR_W_def by linarith+

lemma grid_height: "r < grid_rows i \<Longrightarrow> r * CHAR_H + CHAR_H \<le> height i"
  unfolding CHAR_H_def by linarith

text \<open>Painting a run of cells of a row, clearing rows, moving rows.\<close>

lemma draws_paint:
  assumes ok: "mode_ok i n" and r: "r < grid_rows i" and cb: "cb \<le> grid_cols i"
    and f: "\<And>c x y. ca \<le> c \<Longrightarrow> c < cb \<Longrightarrow> x < CHAR_W \<Longrightarrow> y < CHAR_H \<Longrightarrow> f (c * CHAR_W + x) y = cell_pixel (g c) x y"
  shows "draws i n P (paint (r * CHAR_H) (ca * CHAR_W) (cb * CHAR_W) f)
    (\<lambda>t. t\<lparr>t_cells := \<lambda>r' c. if r' = r \<and> ca \<le> c \<and> c < cb then g c else t_cells t r' c\<rparr>)"
proof (rule drawsI)
  fix v t assume d: "displays i n v t"
  then have i: "info v = i" "buf_len v = n" and gr: "shows_grid i (fb v) (t_cells t)" by (auto simp: displays_def)
  have "cb * CHAR_W \<le> stride i" using ok cb unfolding mode_ok_def CHAR_W_def by linarith
  then obtain b where b: "paint (r * CHAR_H) (ca * CHAR_W) (cb * CHAR_W) f v = (Ok (), v\<lparr>fb := b\<rparr>)"
    "\<And>x y. x < stride i \<Longrightarrow> pic i b x y = (if ca * CHAR_W \<le> x \<and> x < cb * CHAR_W \<and> r * CHAR_H \<le> y \<and> y < r * CHAR_H + CHAR_H
       then f x (y - r * CHAR_H) else pic i (fb v) x y)"
    using paint_run [of v "cb * CHAR_W" "r * CHAR_H" "ca * CHAR_W" f] ok i grid_height [OF r] by auto
  have cells: "(ca * CHAR_W \<le> c * CHAR_W + x \<and> c * CHAR_W + x < cb * CHAR_W \<and> r * CHAR_H \<le> r' * CHAR_H + y
      \<and> r' * CHAR_H + y < r * CHAR_H + CHAR_H) = (r' = r \<and> ca \<le> c \<and> c < cb)" if "x < CHAR_W" "y < CHAR_H" for c x r' y
    using that unfolding CHAR_W_def CHAR_H_def by linarith
  have at: "pic i b (c * CHAR_W + x) (r' * CHAR_H + y) = (if r' = r \<and> ca \<le> c \<and> c < cb then cell_pixel (g c) x y
      else pic i (fb v) (c * CHAR_W + x) (r' * CHAR_H + y))" if "c < grid_cols i" "x < CHAR_W" "y < CHAR_H" for c x r' y
    unfolding b(2) [OF grid_inside(1) [OF ok that(1,2)]] cells [OF that(2,3)] using f that by auto
  have "shows_grid i b (\<lambda>r' c. if r' = r \<and> ca \<le> c \<and> c < cb then g c else t_cells t r' c)"
    using gr unfolding shows_grid_def by (auto simp: at)
  then show "\<exists>v'. paint (r * CHAR_H) (ca * CHAR_W) (cb * CHAR_W) f v = (Ok (), v')
      \<and> displays i n v' (t\<lparr>t_cells := \<lambda>r' c. if r' = r \<and> ca \<le> c \<and> c < cb then g c else t_cells t r' c\<rparr>)"
    using b(1) displays_redraw [OF d] by simp
qed

definition grid_bytes :: "FrameBufferInfo \<Rightarrow> nat" where
  "grid_bytes i = CHAR_H * line_bytes i"

lemma grid_bytes_lines: "r * grid_bytes i = (r * CHAR_H) * line_bytes i"
  by (simp add: grid_bytes_def)

lemma displays_geometry: "displays i n v t \<Longrightarrow> row_bytes v = grid_bytes i \<and> rows v = grid_rows i \<and> cols v = grid_cols i"
  by (simp add: displays_def row_bytes_def grid_bytes_def line_bytes_def rows_def cols_def)

lemma draws_zero_rows:
  assumes ok: "mode_ok i n" and "m + k \<le> grid_rows i"
  shows "draws i n P (ptr_zero (m * grid_bytes i) (k * grid_bytes i)) (fill (\<lambda>r c. m \<le> r \<and> r < m + k) (Blank BLACK))"
proof (rule drawsI)
  fix v t assume d: "displays i n v t"
  then have i: "info v = i" "buf_len v = n" and gr: "shows_grid i (fb v) (t_cells t)" by (auto simp: displays_def)
  have "m * CHAR_H + k * CHAR_H \<le> height i" using assms(2) unfolding CHAR_H_def by linarith
  then obtain b where b: "ptr_zero (m * grid_bytes i) (k * grid_bytes i) v = (Ok (), v\<lparr>fb := b\<rparr>)"
    "\<And>x y. x < stride i \<Longrightarrow> pic i b x y = (if m * CHAR_H \<le> y \<and> y < m * CHAR_H + k * CHAR_H then BLACK else pic i (fb v) x y)"
    using zero_lines [of v "m * CHAR_H" "k * CHAR_H"] ok i by (auto simp: grid_bytes_lines)
  have "(m * CHAR_H \<le> r * CHAR_H + y \<and> r * CHAR_H + y < m * CHAR_H + k * CHAR_H) = (m \<le> r \<and> r < m + k)" if "y < CHAR_H" for r y
    using that unfolding CHAR_H_def by linarith
  then have "shows_grid i b (t_cells (fill (\<lambda>r c. m \<le> r \<and> r < m + k) (Blank BLACK) t))"
    using gr unfolding shows_grid_def by (auto simp: b(2) grid_inside [OF ok])
  then show "\<exists>v'. ptr_zero (m * grid_bytes i) (k * grid_bytes i) v = (Ok (), v')
      \<and> displays i n v' (fill (\<lambda>r c. m \<le> r \<and> r < m + k) (Blank BLACK) t)"
    using b(1) displays_redraw [OF d] by (simp add: fill_def)
qed

lemma draws_copy_rows:
  assumes ok: "mode_ok i n" and "l + k \<le> grid_rows i" "m + k \<le> grid_rows i"
  shows "draws i n P (ptr_copy (l * grid_bytes i) (m * grid_bytes i) (k * grid_bytes i))
    (\<lambda>t. t\<lparr>t_cells := \<lambda>r. if m \<le> r \<and> r < m + k then t_cells t (r - m + l) else t_cells t r\<rparr>)"
proof (rule drawsI)
  fix v t assume d: "displays i n v t"
  then have i: "info v = i" "buf_len v = n" and gr: "shows_grid i (fb v) (t_cells t)" by (auto simp: displays_def)
  have "l * CHAR_H + k * CHAR_H \<le> height i" "m * CHAR_H + k * CHAR_H \<le> height i"
    using assms(2,3) unfolding CHAR_H_def by linarith+
  then obtain b where b: "ptr_copy (l * grid_bytes i) (m * grid_bytes i) (k * grid_bytes i) v = (Ok (), v\<lparr>fb := b\<rparr>)"
    "\<And>x y. x < stride i \<Longrightarrow> pic i b x y = (if m * CHAR_H \<le> y \<and> y < m * CHAR_H + k * CHAR_H
       then pic i (fb v) x (y - m * CHAR_H + l * CHAR_H) else pic i (fb v) x y)"
    using copy_lines [of v "l * CHAR_H" "k * CHAR_H" "m * CHAR_H"] ok i by (auto simp: grid_bytes_lines)
  have "(m * CHAR_H \<le> r * CHAR_H + y \<and> r * CHAR_H + y < m * CHAR_H + k * CHAR_H) = (m \<le> r \<and> r < m + k)" if "y < CHAR_H" for r y
    using that unfolding CHAR_H_def by linarith
  moreover have "r * CHAR_H + y - m * CHAR_H + l * CHAR_H = (r - m + l) * CHAR_H + y" if "m \<le> r" for r y
    using that by (auto simp: le_iff_add algebra_simps)
  moreover have "r - m + l < grid_rows i" if "m \<le> r" "r < m + k" for r using that assms(2) by linarith
  ultimately have "shows_grid i b (\<lambda>r. if m \<le> r \<and> r < m + k then t_cells t (r - m + l) else t_cells t r)"
    using gr unfolding shows_grid_def by (auto simp: b(2) grid_inside [OF ok])
  then show "\<exists>v'. ptr_copy (l * grid_bytes i) (m * grid_bytes i) (k * grid_bytes i) v = (Ok (), v')
      \<and> displays i n v' (t\<lparr>t_cells := \<lambda>r. if m \<le> r \<and> r < m + k then t_cells t (r - m + l) else t_cells t r\<rparr>)"
    using b(1) displays_redraw [OF d] by simp
qed

text \<open>The operations of the renderer, one by one.\<close>

lemma displays_fields:
  assumes "displays i n v t"
  shows "row v = t_row t" "col v = t_col t" "saved_row v = t_saved_row t" "saved_col v = t_saved_col t" "fg v = t_fg t"
    "bg v = t_bg t" "row_bytes v = grid_bytes i" "rows v = grid_rows i" "cols v = grid_cols i" "buf_len v = n"
  using assms displays_geometry [OF assms] by (simp_all add: displays_def)

lemma displays_cursor:
  "displays i n v t \<Longrightarrow> displays i n (v\<lparr>row := a, col := b\<rparr>) (t\<lparr>t_row := a, t_col := b\<rparr>)"
  "displays i n v t \<Longrightarrow> displays i n (v\<lparr>row := a\<rparr>) (t\<lparr>t_row := a\<rparr>)"
  "displays i n v t \<Longrightarrow> displays i n (v\<lparr>col := b\<rparr>) (t\<lparr>t_col := b\<rparr>)"
  "displays i n v t \<Longrightarrow> displays i n (v\<lparr>saved_row := a, saved_col := b\<rparr>) (t\<lparr>t_saved_row := a, t_saved_col := b\<rparr>)"
  "displays i n v t \<Longrightarrow> displays i n (v\<lparr>col := b, row := a\<rparr>) (t\<lparr>t_col := b, t_row := a\<rparr>)"
  by (simp_all add: displays_def)

lemma displays_color: "displays i n v t \<Longrightarrow> displays i n (set_color k v) (term_color k t)"
  by (simp add: displays_def set_color_def term_color_def)

lemma draws_cells:
  assumes "draws i n P m f" and "\<And>t r c. P t \<Longrightarrow> r < grid_rows i \<Longrightarrow> c < grid_cols i \<Longrightarrow> t_cells (g t) r c = t_cells (f t) r c"
    and "\<And>t. P t \<Longrightarrow> g t = (f t)\<lparr>t_cells := t_cells (g t)\<rparr>"
  shows "draws i n P m g"
proof (rule drawsI)
  fix v t assume "displays i n v t" "P t"
  then obtain v' where v': "m v = (Ok (), v')" "displays i n v' (f t)" using assms(1) by (auto simp: draws_def)
  moreover have "shows_grid i (fb v') (t_cells (g t))"
    using v'(2) assms(2) [OF \<open>P t\<close>] by (simp add: displays_def shows_grid_def)
  ultimately show "\<exists>v'. m v = (Ok (), v') \<and> displays i n v' (g t)"
    using displays_redraw [OF v'(2), of "fb v'" "g t"] assms(3) [OF \<open>P t\<close>] by auto
qed

lemma draws_erase:
  assumes "mode_ok i n" "r < grid_rows i" "cb \<le> grid_cols i"
    and "\<And>r' c. r' < grid_rows i \<Longrightarrow> c < grid_cols i \<Longrightarrow> Q r' c \<longleftrightarrow> r' = r \<and> ca \<le> c \<and> c < cb" and "f t = fill Q (Blank b) t"
  shows "draws i n (\<lambda>t'. t' = t) (paint (r * CHAR_H) (ca * CHAR_W) (cb * CHAR_W) (\<lambda>_ _. b)) f"
  by (rule draws_cells [OF draws_paint [OF assms(1-3), where g = "\<lambda>_. Blank b"]]) (auto simp: assms(4,5) fill_def)

lemma draws_end_of_line:
  assumes "mode_ok i n"
  shows "draws i n (on_screen (grid_rows i) (grid_cols i)) clear_to_end_of_line
    (\<lambda>t. fill (\<lambda>r c. r = t_row t \<and> t_col t \<le> c) (Blank (t_bg t)) t)"
  unfolding clear_to_end_of_line_def
  by (rule draws_look, rule draws_erase [OF assms]) (auto simp: displays_fields on_screen_def)

lemma draws_start_of_line:
  assumes "mode_ok i n"
  shows "draws i n (on_screen (grid_rows i) (grid_cols i)) clear_to_start_of_line
    (\<lambda>t. fill (\<lambda>r c. r = t_row t \<and> c \<le> t_col t) (Blank (t_bg t)) t)"
  unfolding clear_to_start_of_line_def
  by (rule draws_look, rule draws_erase [OF assms, where ca = 0, unfolded mult_0]) (auto simp: displays_fields on_screen_def)

lemma draws_zero:
  assumes "mode_ok i n" "a = m * grid_bytes i" "b = k * grid_bytes i" "m + k \<le> grid_rows i"
    and "\<And>r c. r < grid_rows i \<Longrightarrow> c < grid_cols i \<Longrightarrow> Q r c \<longleftrightarrow> m \<le> r \<and> r < m + k" and "f t = fill Q (Blank BLACK) t"
  shows "draws i n (\<lambda>t'. t' = t) (ptr_zero a b) f"
  unfolding assms(2,3)
  by (rule draws_cells [OF draws_zero_rows [OF assms(1,4)]]) (auto simp: assms(5,6) fill_def)

lemma draws_end_of_screen:
  assumes "mode_ok i n"
  shows "draws i n (on_screen (grid_rows i) (grid_cols i)) clear_to_end_of_screen (\<lambda>t.
    fill (\<lambda>r c. t_row t < r) (Blank BLACK) (fill (\<lambda>r c. r = t_row t \<and> t_col t \<le> c) (Blank (t_bg t)) t))"
proof -
  let ?on = "on_screen (grid_rows i) (grid_cols i)"
  have "draws i n ?on (sbind (gets (\<lambda>v. v)) (\<lambda>v. let next_row = row v + 1; total_rows = rows v in
     if next_row < total_rows then ptr_zero (next_row * row_bytes v) ((total_rows - next_row) * row_bytes v) else ret ()))
     (\<lambda>t. fill (\<lambda>r c. t_row t < r) (Blank BLACK) t)"
  proof (rule draws_look, unfold Let_def, goal_cases)
    case (1 v t)
    then show ?case
    proof (cases "row v + 1 < rows v")
      case True
      then show ?thesis
        using 1 by (simp add: displays_fields) (rule draws_zero [OF assms, where m = "t_row t + 1"], auto)
    next
      case False
      then show ?thesis
        using 1 by simp (rule draws_cells [OF draws_ret], auto simp: displays_fields on_screen_def fill_def)
    qed
  qed
  from draws_seq [OF draws_end_of_line [OF assms] this] show ?thesis
    by (simp add: clear_to_end_of_screen_def on_screen_def)
qed

lemma draws_start_of_screen:
  assumes "mode_ok i n"
  shows "draws i n (on_screen (grid_rows i) (grid_cols i)) clear_to_start_of_screen (\<lambda>t.
    fill (\<lambda>r c. r = t_row t \<and> c \<le> t_col t) (Blank (t_bg t)) (fill (\<lambda>r c. r < t_row t) (Blank BLACK) t))"
proof -
  let ?on = "on_screen (grid_rows i) (grid_cols i)"
  have "draws i n ?on (sbind (gets (\<lambda>v. v)) (\<lambda>v. if row v > 0 then ptr_zero 0 (row v * row_bytes v) else ret ()))
     (\<lambda>t. fill (\<lambda>r c. r < t_row t) (Blank BLACK) t)"
  proof (rule draws_look, goal_cases)
    case (1 v t)
    then show ?case
    proof (cases "row v > 0")
      case True
      then show ?thesis
        using 1 by (simp add: displays_fields) (rule draws_zero [OF assms, where m = 0], auto simp: on_screen_def)
    next
      case False
      then show ?thesis
        using 1 by simp (rule draws_cells [OF draws_ret], auto simp: displays_fields fill_def)
    qed
  qed
  from draws_seq [OF this draws_start_of_line [OF assms]] show ?thesis
    by (simp add: clear_to_start_of_screen_def on_screen_def)
qed

lemma draws_clear_line:
  assumes "mode_ok i n"
  shows "draws i n (on_screen (grid_rows i) (grid_cols i)) clear_line
    (\<lambda>t. (fill (\<lambda>r c. r = t_row t) (Blank (t_bg t)) t)\<lparr>t_col := 0\<rparr>)"
proof -
  have "draws i n (on_screen (grid_rows i) (grid_cols i))
      (sbind (gets (\<lambda>v. v)) (\<lambda>v. paint (row v * CHAR_H) 0 (cols v * CHAR_W) (\<lambda>_ _. bg v)))
      (\<lambda>t. fill (\<lambda>r c. r = t_row t) (Blank (t_bg t)) t)"
    by (rule draws_look, rule draws_erase [OF assms, where ca = 0, unfolded mult_0]) (auto simp: displays_fields on_screen_def)
  from draws_seq [OF this draws_modify [of i n "\<lambda>_. True" _ "\<lambda>t. t\<lparr>t_col := 0\<rparr>"]] show ?thesis
    unfolding clear_line_def using displays_cursor by blast
qed

lemma draws_clear_screen:
  assumes "mode_ok i n"
  shows "draws i n P clear_screen (\<lambda>t. (fill (\<lambda>r c. True) (Blank BLACK) t)\<lparr>t_row := 0, t_col := 0\<rparr>)"
proof (rule drawsI)
  fix v t assume d: "displays i n v t"
  have z: "pic i (\<lambda>o'. if o' < n then 0 else fb v o') x y = BLACK" if "x < stride i" "y < height i" for x y
  proof -
    have p: "2 < bytes_per_pixel i" "1 < bytes_per_pixel i" "0 < bytes_per_pixel i" using assms by (auto simp: mode_ok_def)
    have "(y * stride i + x) * bytes_per_pixel i + 2 < height i * (stride i * bytes_per_pixel i)"
      using offset_split(3) [OF that(1) p(1), of y "height i"] that(2) by simp
    then have "(y * stride i + x) * bytes_per_pixel i + 2 < n" using assms by (simp add: mode_ok_def)
    then show ?thesis by (simp add: pic_def Let_def BLACK_def split: PixelFormat.split)
  qed
  have "shows_grid i (\<lambda>o'. if o' < n then 0 else fb v o') (\<lambda>_ _. Blank BLACK)"
    using grid_inside [OF assms] grid_height by (fastforce simp: shows_grid_def intro!: z)
  then show "\<exists>v'. clear_screen v = (Ok (), v') \<and> displays i n v' ((fill (\<lambda>r c. True) (Blank BLACK) t)\<lparr>t_row := 0, t_col := 0\<rparr>)"
    using d by (simp add: clear_screen_def displays_def ptr_zero_def sthen_def sbind_def gets_def modify_def fill_def)
qed

text \<open>Moving rows, then clearing those left behind.\<close>

lemma draws_move:
  assumes "mode_ok i n" "l + k \<le> grid_rows i" "m + k \<le> grid_rows i" "z + j \<le> grid_rows i"
    and "\<And>r. r < grid_rows i \<Longrightarrow> t_cells (f t) r = (if z \<le> r \<and> r < z + j then (\<lambda>_. Blank BLACK)
      else if m \<le> r \<and> r < m + k then t_cells t (r - m + l) else t_cells t r)"
    and "f t = t\<lparr>t_cells := t_cells (f t)\<rparr>"
  shows "draws i n (\<lambda>t'. t' = t)
    (sthen (if k > 0 then ptr_copy (l * grid_bytes i) (m * grid_bytes i) (k * grid_bytes i) else ret ())
      (ptr_zero (z * grid_bytes i) (j * grid_bytes i))) f"
proof -
  let ?moved = "\<lambda>t. t\<lparr>t_cells := \<lambda>r. if m \<le> r \<and> r < m + k then t_cells t (r - m + l) else t_cells t r\<rparr>"
  have "draws i n (\<lambda>t'. t' = t) (if k > 0 then ptr_copy (l * grid_bytes i) (m * grid_bytes i) (k * grid_bytes i) else ret ()) ?moved"
  proof (cases "k > 0")
    case True
    then show ?thesis using draws_copy_rows [OF assms(1-3)] by simp
  next
    case False
    then show ?thesis by simp (rule draws_cells [OF draws_ret], auto)
  qed
  from draws_seq [OF this draws_zero_rows [OF assms(1,4), of "\<lambda>_. True"]]
  have seq: "draws i n (\<lambda>t'. t' = t)
    (sthen (if k > 0 then ptr_copy (l * grid_bytes i) (m * grid_bytes i) (k * grid_bytes i) else ret ())
      (ptr_zero (z * grid_bytes i) (j * grid_bytes i))) (\<lambda>t. fill (\<lambda>r c. z \<le> r \<and> r < z + j) (Blank BLACK) (?moved t))" by blast
  show ?thesis by (rule draws_cells [OF seq]) (use assms(5,6) in \<open>auto simp: fill_def\<close>)
qed

lemma draws_insert:
  assumes "mode_ok i n"
  shows "draws i n (on_screen (grid_rows i) (grid_cols i)) (insert_lines k) (term_insert (grid_rows i) k)"
  unfolding insert_lines_def Let_def
proof (rule draws_look, goal_cases)
  case (1 v t)
  let ?R = "grid_rows i"
  have r: "t_row t < ?R" using 1 by (simp add: on_screen_def)
  have "draws i n (\<lambda>t'. t' = t)
    (sthen (if ?R - t_row t - min k (?R - t_row t) > 0 then ptr_copy (t_row t * grid_bytes i)
         ((t_row t + min k (?R - t_row t)) * grid_bytes i) ((?R - t_row t - min k (?R - t_row t)) * grid_bytes i) else ret ())
      (ptr_zero (t_row t * grid_bytes i) (min k (?R - t_row t) * grid_bytes i))) (term_insert ?R k)"
    by (rule draws_move [OF assms]) (use r in \<open>auto simp: term_insert_def min_def fun_eq_iff\<close>)
  moreover have "\<not> ?R < t_row t" using r by simp
  ultimately show ?case unfolding displays_fields [OF 1(1)] by (simp only: if_False)
qed

lemma draws_delete:
  assumes "mode_ok i n"
  shows "draws i n (on_screen (grid_rows i) (grid_cols i)) (delete_lines k) (term_delete (grid_rows i) k)"
  unfolding delete_lines_def Let_def
proof (rule draws_look, goal_cases)
  case (1 v t)
  let ?R = "grid_rows i"
  have r: "t_row t < ?R" using 1 by (simp add: on_screen_def)
  have "draws i n (\<lambda>t'. t' = t)
    (sthen (if ?R - t_row t - min k (?R - t_row t) > 0 then ptr_copy ((t_row t + min k (?R - t_row t)) * grid_bytes i)
         (t_row t * grid_bytes i) ((?R - t_row t - min k (?R - t_row t)) * grid_bytes i) else ret ())
      (ptr_zero ((?R - min k (?R - t_row t)) * grid_bytes i) (min k (?R - t_row t) * grid_bytes i))) (term_delete ?R k)"
    by (rule draws_move [OF assms]) (use r in \<open>auto simp: term_delete_def min_def fun_eq_iff add.commute\<close>)
  moreover have "\<not> ?R < t_row t" using r by simp
  ultimately show ?case unfolding displays_fields [OF 1(1)] by (simp only: if_False)
qed

lemma mode_grid: "mode_ok i n \<Longrightarrow> 0 < grid_rows i \<and> 0 < grid_cols i"
  by (simp add: mode_ok_def CHAR_W_def CHAR_H_def div_greater_zero_iff)

lemma draws_scroll:
  assumes "mode_ok i n"
  shows "draws i n P scroll_past_end (term_scroll (grid_rows i))"
  unfolding scroll_past_end_def
proof (rule draws_look, goal_cases)
  case (1 v t)
  let ?R = "grid_rows i"
  let ?up = "\<lambda>t. t\<lparr>t_cells := \<lambda>r. if r + 1 < ?R then t_cells t (r + 1) else (\<lambda>_. Blank BLACK)\<rparr>"
  have R: "0 < ?R" using mode_grid [OF assms] by simp
  have up: "draws i n (\<lambda>t'. t' = t) scroll_up ?up"
    unfolding scroll_up_def Let_def
  proof (rule draws_look, goal_cases)
    case (1 v' t')
    have "draws i n (\<lambda>t'. t' = t) (sthen (if ?R - 1 > 0 then ptr_copy (1 * grid_bytes i) (0 * grid_bytes i) ((?R - 1) * grid_bytes i) else ret ())
        (ptr_zero ((?R - 1) * grid_bytes i) (1 * grid_bytes i))) ?up"
      by (rule draws_move [OF assms]) (use R in \<open>auto simp: fun_eq_iff\<close>)
    moreover have "ptr_copy (grid_bytes i) 0 0 v = (Ok (), v)" if "displays i n v t" for v
    proof -
      have "grid_bytes i \<le> ?R * grid_bytes i" using R by simp
      also have "\<dots> \<le> height i * line_bytes i" by (simp add: grid_bytes_def CHAR_H_def algebra_simps)
      finally show ?thesis using that assms by (auto simp: ptr_copy_def mode_ok_def displays_def line_bytes_def)
    qed
    ultimately show ?case
      using R 1 by (cases "?R = 1") (auto simp: displays_fields [OF 1(1)] draws_def sthen_def sbind_def ret_def)
  qed
  show ?case
  proof (cases "row v \<ge> rows v")
    case True
    have "draws i n (\<lambda>_. True) (modify (\<lambda>v. v\<lparr>row := rows v - 1\<rparr>)) (\<lambda>t. t\<lparr>t_row := ?R - 1\<rparr>)"
      by (rule draws_modify) (simp add: displays_cursor displays_fields)
    from draws_seq [OF up this] show ?thesis
      using True R by (simp add: displays_fields [OF 1(1)]) (erule draws_weaken, auto simp: term_scroll_def)
  next
    case False
    show ?thesis using False by simp (rule draws_weaken [OF draws_ret], simp add: term_scroll_def displays_fields [OF 1(1)])
  qed
qed

lemma draws_glyph:
  assumes "mode_ok i n" "r < grid_rows i" "c0 < grid_cols i" "f t = fill (\<lambda>r' c. r' = r \<and> c = c0) g t"
    and "\<And>x y. x < CHAR_W \<Longrightarrow> y < CHAR_H \<Longrightarrow> h (c0 * CHAR_W + x) y = cell_pixel g x y"
  shows "draws i n (\<lambda>t'. t' = t) (paint (r * CHAR_H) (c0 * CHAR_W) (c0 * CHAR_W + CHAR_W) h) f"
proof -
  have e: "c0 * CHAR_W + CHAR_W = (c0 + 1) * CHAR_W" by simp
  have "draws i n (\<lambda>t'. t' = t) (paint (r * CHAR_H) (c0 * CHAR_W) ((c0 + 1) * CHAR_W) h)
    (\<lambda>t. t\<lparr>t_cells := \<lambda>r' c. if r' = r \<and> c0 \<le> c \<and> c < c0 + 1 then (\<lambda>_. g) c else t_cells t r' c\<rparr>)"
  proof (rule draws_paint [OF assms(1,2)])
    show "h (c * CHAR_W + x) y = cell_pixel g x y" if "c0 \<le> c" "c < c0 + 1" "x < CHAR_W" "y < CHAR_H" for c x y
      using that assms(5) by (cases "c = c0") auto
  qed (use assms(3) in simp)
  then show ?thesis unfolding e by (rule draws_cells) (auto simp: assms(4) fill_def)
qed

lemma draws_backspace:
  assumes "mode_ok i n"
  shows "draws i n (on_screen (grid_rows i) (grid_cols i)) backspace
    (\<lambda>t. fill (at_cursor (term_back (grid_cols i) t)) (Blank BLACK) (term_back (grid_cols i) t))"
proof -
  let ?on = "on_screen (grid_rows i) (grid_cols i)"
  have on: "?on (term_back (grid_cols i) t)" if "?on t" for t
    using that by (auto simp: on_screen_def term_back_def)
  have "draws i n ?on (sbind (gets (\<lambda>v. v)) (\<lambda>v.
        if col v > 0 then modify (\<lambda>v. v\<lparr>col := col v - 1\<rparr>)
        else if row v > 0 then
          (if cols v = 0 then panic else modify (\<lambda>v. v\<lparr>row := row v - 1, col := cols v - 1\<rparr>))
        else ret ())) (term_back (grid_cols i))"
    using mode_grid [OF assms]
    by (intro drawsI) (auto simp: run_gets displays_fields term_back_def modify_def ret_def displays_cursor)
  moreover have "draws i n ?on (sbind (gets (\<lambda>v. v)) (\<lambda>v. paint (row v * CHAR_H) (col v * CHAR_W) (col v * CHAR_W + CHAR_W) (\<lambda>_ _. BLACK)))
      (\<lambda>t. fill (at_cursor t) (Blank BLACK) t)"
    by (rule draws_look, rule draws_glyph [OF assms]) (auto simp: displays_fields on_screen_def at_cursor_def fun_eq_iff fill_def)
  ultimately show ?thesis unfolding backspace_def by (rule draws_seq) (rule on)
qed

lemma draws_draw_char:
  assumes "mode_ok i n"
  shows "draws i n (on_screen (grid_rows i) (grid_cols i)) (draw_char c)
    (\<lambda>t. term_advance (grid_cols i) (fill (at_cursor t) (Glyph c (t_fg t) (t_bg t)) t))"
proof -
  let ?on = "on_screen (grid_rows i) (grid_cols i)"
  have "draws i n ?on (sbind (gets (\<lambda>v. v)) (\<lambda>v. paint (row v * CHAR_H) (col v * CHAR_W) (col v * CHAR_W + CHAR_W)
        (\<lambda>x row_i. glyph_pixel c (fg v) (bg v) (x - col v * CHAR_W) row_i)))
      (\<lambda>t. fill (at_cursor t) (Glyph c (t_fg t) (t_bg t)) t)"
    by (rule draws_look, rule draws_glyph [OF assms]) (auto simp: displays_fields on_screen_def at_cursor_def fun_eq_iff fill_def)
  moreover have "draws i n (\<lambda>_. True)
      (modify (\<lambda>v. if col v + 1 \<ge> cols v then v\<lparr>col := 0, row := row v + 1\<rparr> else v\<lparr>col := col v + 1\<rparr>)) (term_advance (grid_cols i))"
    by (rule draws_modify) (auto simp: term_advance_def displays_fields displays_cursor)
  ultimately show ?thesis unfolding draw_char_def by (rule draws_seq) simp
qed

lemma draws_write_char:
  assumes "mode_ok i n"
  shows "draws i n (on_screen (grid_rows i) (grid_cols i)) (write_char c) (term_char (grid_rows i) (grid_cols i) c)"
proof -
  have "draws i n (on_screen (grid_rows i) (grid_cols i))
     (if c = 0x0A then modify (\<lambda>v. v\<lparr>col := 0, row := row v + 1\<rparr>) else if c = 0x0D then modify (\<lambda>v. v\<lparr>col := 0\<rparr>)
      else if c = 0x08 then backspace else draw_char c)
     (\<lambda>t. if c = 0x0A then t\<lparr>t_col := 0, t_row := t_row t + 1\<rparr> else if c = 0x0D then t\<lparr>t_col := 0\<rparr>
      else if c = 0x08 then fill (at_cursor (term_back (grid_cols i) t)) (Blank BLACK) (term_back (grid_cols i) t)
      else term_advance (grid_cols i) (fill (at_cursor t) (Glyph c (t_fg t) (t_bg t)) t))"
    by (intro draws_cond draws_backspace draws_draw_char draws_modify assms) (simp_all add: displays_cursor displays_fields)
  from draws_seq [OF this draws_scroll [OF assms, of "\<lambda>_. True"]] show ?thesis
    unfolding write_char_def term_char_def by simp
qed

text \<open>
  A sequence that moves the cursor down or right adds its parameter to the cursor; the sum fits if the parameter is at
  most 2^63.
\<close>

definition event_fits :: "ansi_event \<Rightarrow> bool" where
  "event_fits e \<longleftrightarrow> (case e of Csi cmd s \<Rightarrow> csi_param s 0 \<le> 2 ^ 63 | _ \<Rightarrow> True)"

lemma grid_small: "mode_ok i n \<Longrightarrow> grid_rows i < 2 ^ 62 \<and> grid_cols i < 2 ^ 62"
proof -
  assume ok: "mode_ok i n"
  have "height i * 24 \<le> height i * (stride i * bytes_per_pixel i)"
    using mult_le_mono [of 8 "stride i" 3 "bytes_per_pixel i"] ok by (auto simp: mode_ok_def CHAR_W_def)
  then have "height i * 24 \<le> USIZE_MAX" using ok unfolding mode_ok_def by linarith
  moreover have "width i \<le> stride i * bytes_per_pixel i" using ok by (auto simp: mode_ok_def intro: le_trans [of _ "stride i"])
  then have "width i < 2 ^ 32" using ok unfolding mode_ok_def by linarith
  ultimately show ?thesis by (simp add: USIZE_MAX_def CHAR_H_def CHAR_W_def, linarith)
qed

lemma draws_down:
  "mode_ok i n \<Longrightarrow> k \<le> 2 ^ 63 \<Longrightarrow> draws i n (on_screen (grid_rows i) (grid_cols i)) (down k) (\<lambda>t. t\<lparr>t_row := min (t_row t + k) (grid_rows i - 1)\<rparr>)"
  "mode_ok i n \<Longrightarrow> k \<le> 2 ^ 63 \<Longrightarrow> draws i n (on_screen (grid_rows i) (grid_cols i)) (right k) (\<lambda>t. t\<lparr>t_col := min (t_col t + k) (grid_cols i - 1)\<rparr>)"
  using grid_small [of i n]
  by (auto intro!: drawsI simp: down_def right_def run_gets displays_fields USIZE_MAX_def on_screen_def modify_def displays_cursor)

lemma draws_position:
  "mode_ok i n \<Longrightarrow> draws i n P (set_cursor_position a b) (\<lambda>t. t\<lparr>t_row := min a (grid_rows i - 1), t_col := min b (grid_cols i - 1)\<rparr>)"
  using mode_grid [of i n]
  by (auto intro!: drawsI simp: set_cursor_position_def run_gets displays_fields modify_def displays_cursor)

lemma draws_colors:
  "draws i n P (for_in ps (\<lambda>p. modify (set_color (k p)))) (fold (\<lambda>p. term_color (k p)) ps)"
proof (induction ps arbitrary: P)
  case (Cons p ps)
  show ?case
    using draws_seq [OF draws_modify [of i n P "set_color (k p)" "term_color (k p)"] Cons.IH [of "\<lambda>_. True"]] by (simp add: displays_color comp_def)
qed (simp add: draws_def ret_def)

lemma draws_next_line:
  assumes "mode_ok i n" "k \<le> 2 ^ 63"
  shows "draws i n (on_screen (grid_rows i) (grid_cols i)) (sthen (down k) (modify (\<lambda>v. v\<lparr>col := 0\<rparr>)))
      (\<lambda>t. t\<lparr>t_row := min (t_row t + k) (grid_rows i - 1), t_col := 0\<rparr>)"
  using draws_seq [OF draws_down(1) [OF assms] draws_modify [of i n "\<lambda>_. True" _ "\<lambda>t. t\<lparr>t_col := 0\<rparr>"]] by (simp add: displays_cursor)

lemma draws_csi:
  assumes "mode_ok i n" "cmd \<in> {ch CHR ''B'', ch CHR ''C'', ch CHR ''E''} \<Longrightarrow> csi_param s 0 \<le> 2 ^ 63"
  shows "draws i n (on_screen (grid_rows i) (grid_cols i)) (csi_command cmd s) (term_csi (grid_rows i) (grid_cols i) cmd s)"
  unfolding csi_command_def term_csi_def Let_def
  by (intro draws_cond draws_colors draws_ret draws_end_of_screen draws_start_of_screen draws_clear_screen draws_end_of_line
        draws_start_of_line draws_clear_line draws_position draws_next_line draws_down draws_insert draws_delete assms(1) draws_modify)
    (use assms(2) in \<open>simp_all add: displays_color displays_cursor displays_fields\<close>)

lemma draws_event:
  "mode_ok i n \<Longrightarrow> event_fits e \<Longrightarrow> draws i n (on_screen (grid_rows i) (grid_cols i)) (do_event e) (term_event (grid_rows i) (grid_cols i) e)"
  by (cases e) (simp_all add: draws_write_char draws_csi event_fits_def)

lemma draws_events:
  assumes "mode_ok i n" "list_all event_fits es"
  shows "draws i n (on_screen (grid_rows i) (grid_cols i)) (for_in es do_event) (fold (term_event (grid_rows i) (grid_cols i)) es)"
  using assms(2)
proof (induction es)
  case (Cons e es)
  then show ?case
    using draws_seq [OF draws_event [OF assms(1), of e]] by (simp add: on_screen_event comp_def)
qed (simp add: draws_def ret_def)

text \<open>Every frame displays some terminal, if only one of raw pixels.\<close>

definition term_of :: "VgaBuffer \<Rightarrow> terminal" where
  "term_of v = \<lparr>t_cells = \<lambda>r c. Raw (\<lambda>x y. pic (info v) (fb v) (c * CHAR_W + x) (r * CHAR_H + y)), t_row = row v, t_col = col v,
     t_saved_row = saved_row v, t_saved_col = saved_col v, t_fg = fg v, t_bg = bg v\<rparr>"

lemma displays_term_of: "displays (info v) (buf_len v) v (term_of v)"
  by (simp add: displays_def term_of_def shows_grid_def)

definition screen_ok :: "VgaBuffer \<Rightarrow> bool" where
  "screen_ok v \<longleftrightarrow> mode_ok (info v) (buf_len v) \<and> row v < rows v \<and> col v < cols v \<and> saved_row v < rows v \<and> saved_col v < cols v"

lemma screen_ok_displays:
  assumes "displays i n v t" shows "screen_ok v \<longleftrightarrow> mode_ok i n \<and> on_screen (grid_rows i) (grid_cols i) t"
  using assms displays_fields [OF assms] by (auto simp: screen_ok_def on_screen_def displays_def)

text \<open>A step of output: it ends well or, where that is allowed, in a panic, never outside the framebuffer, and leaves the
  same good mode.\<close>

definition confined :: "bool \<Rightarrow> unit vm \<Rightarrow> bool" where
  "confined b m \<longleftrightarrow> (\<forall>v. screen_ok v \<longrightarrow> (fst (m v) = Ok () \<or> b \<and> fst (m v) = Panic) \<and> screen_ok (snd (m v))
     \<and> info (snd (m v)) = info v \<and> buf_len (snd (m v)) = buf_len v)"

lemma confined_draws:
  assumes "\<And>i n. mode_ok i n \<Longrightarrow> draws i n (on_screen (grid_rows i) (grid_cols i)) m (f i)"
    and "\<And>i t. on_screen (grid_rows i) (grid_cols i) t \<Longrightarrow> on_screen (grid_rows i) (grid_cols i) (f i t)"
  shows "confined b m"
  unfolding confined_def
proof (intro allI impI)
  fix v assume "screen_ok v"
  then have ok: "mode_ok (info v) (buf_len v)" "on_screen (grid_rows (info v)) (grid_cols (info v)) (term_of v)"
    using screen_ok_displays [OF displays_term_of] by auto
  obtain v' where v': "m v = (Ok (), v')" "displays (info v) (buf_len v) v' (f (info v) (term_of v))"
    using assms(1) [OF ok(1)] ok(2) displays_term_of [of v] unfolding draws_def by blast
  then have "screen_ok v'" using screen_ok_displays [OF v'(2)] assms(2) [OF ok(2)] ok(1) by simp
  then show "(fst (m v) = Ok () \<or> b \<and> fst (m v) = Panic) \<and> screen_ok (snd (m v)) \<and> info (snd (m v)) = info v \<and> buf_len (snd (m v)) = buf_len v"
    using v' by (simp add: displays_def)
qed

lemma confinedD:
  assumes "confined b m" "screen_ok v" "m v = (r, v')"
  shows "(r = Ok () \<or> b \<and> r = Panic) \<and> screen_ok v' \<and> info v' = info v \<and> buf_len v' = buf_len v"
  using assms(1) [unfolded confined_def, rule_format, OF assms(2)] assms(3) by simp

lemma confinedI:
  "(\<And>v r v'. screen_ok v \<Longrightarrow> m v = (r, v') \<Longrightarrow>
     (r = Ok () \<or> b \<and> r = Panic) \<and> screen_ok v' \<and> info v' = info v \<and> buf_len v' = buf_len v) \<Longrightarrow> confined b m"
  unfolding confined_def by (metis prod.collapse)

lemma confined_seq:
  assumes "confined b m" "confined b k" shows "confined b (sthen m k)"
proof (rule confinedI)
  fix v r v' assume v: "screen_ok v" "sthen m k v = (r, v')"
  obtain q u where u: "m v = (q, u)" by (cases "m v")
  note c = confinedD [OF assms(1) v(1) u]
  show "(r = Ok () \<or> b \<and> r = Panic) \<and> screen_ok v' \<and> info v' = info v \<and> buf_len v' = buf_len v"
  proof (cases "q = Ok ()")
    case True
    then have "k u = (r, v')" using v(2) u by (simp add: sthen_def sbind_def)
    then show ?thesis using confinedD [OF assms(2) conjunct1 [OF conjunct2 [OF c]]] c by simp
  qed (use c v(2) u in \<open>auto simp: sthen_def sbind_def\<close>)
qed

lemma confined_ret: "confined b (ret ())"
  by (simp add: confined_def ret_def)

lemma confined_for: "(\<And>x. x \<in> set xs \<Longrightarrow> confined b (f x)) \<Longrightarrow> confined b (for_in xs f)"
  by (induction xs) (simp_all add: confined_ret confined_seq)

lemma confined_move: "confined True (down k)" "confined True (right k)" "confined True (modify (\<lambda>v. v\<lparr>col := 0\<rparr>))"
  by (auto simp: confined_def down_def right_def run_gets panic_def modify_def screen_ok_def rows_def cols_def)

lemma confined_csi: "confined True (csi_command cmd s)"
proof (cases "cmd \<in> {ch CHR ''B'', ch CHR ''C'', ch CHR ''E''}")
  case True
  then show ?thesis by (auto simp: csi_command_def Let_def confined_seq confined_move)
next
  case False
  show ?thesis
    by (rule confined_draws [where f = "\<lambda>i. term_csi (grid_rows i) (grid_cols i) cmd s"]) (use False draws_csi [of _ _ cmd s] in \<open>auto simp: on_screen_csi\<close>)
qed

lemma confined_event: "confined True (do_event e)"
proof (cases e)
  case (Char c)
  show ?thesis
    by (rule confined_draws [where f = "\<lambda>i. term_char (grid_rows i) (grid_cols i) c"]) (simp_all add: Char draws_write_char on_screen_char)
qed (simp add: confined_csi)

text \<open>A pixel drawn by a program: any coordinates are accepted, those outside of the buffer change nothing.\<close>

lemma put_pixel_anywhere:
  assumes "mode_ok (info v) (buf_len v)" "x < 2 ^ 31" "y < 2 ^ 31"
  shows "\<exists>b. put_pixel x y c v = (Ok (), v\<lparr>fb := b\<rparr>)"
proof -
  let ?s = "stride (info v)" and ?p = "bytes_per_pixel (info v)"
  let ?o = "(y * ?s + x) * ?p"
  have p: "3 \<le> ?p" "8 \<le> ?s" "?s * ?p < 2 ^ 32" using assms(1) by (auto simp: mode_ok_def CHAR_W_def)
  have "8 * ?p \<le> ?s * ?p" using p(2) by (rule mult_le_mono1)
  moreover have "?s * ?p < 4294967296" using p(3) by simp
  ultimately have small: "?p \<le> 536870912" by linarith
  then have "x * ?p \<le> 2 ^ 31 * 2 ^ 29" using assms(2) by (intro mult_le_mono) auto
  moreover note small
  moreover have "y * (?s * ?p) \<le> 2 ^ 31 * 2 ^ 32" using assms(3) p(3) by (intro mult_le_mono) auto
  moreover have "?o = y * (?s * ?p) + x * ?p" by (simp add: algebra_simps)
  ultimately have "?o + ?p \<le> USIZE_MAX" unfolding USIZE_MAX_def by simp
  moreover have "y * ?s + x \<le> ?o" using p(1) by simp
  ultimately have fits: "\<not> y * ?s + x > USIZE_MAX" "\<not> ?o + ?p > USIZE_MAX" by linarith+
  have wr: "\<exists>b. sthen (write_volatile ?o a1) (sthen (write_volatile (?o + 1) a2) (write_volatile (?o + 2) a3)) v = (Ok (), v\<lparr>fb := b\<rparr>)"
    if "\<not> ?o + ?p > buf_len v" for a1 a2 a3
    using that p(1) by (simp add: sthen_def sbind_def write_volatile_def) blast
  show ?thesis
    by (cases c; cases "pixel_format (info v)"; cases "?o + ?p > buf_len v")
      (use fits wr in \<open>simp_all add: put_pixel_def run_gets Let_def ret_def\<close>, (metis VgaBuffer.surjective VgaBuffer.update_convs(1))+)
qed

lemma confined_pixel: "x < 2 ^ 31 \<Longrightarrow> y < 2 ^ 31 \<Longrightarrow> confined False (put_pixel x y c)"
  by (rule confinedI) (use put_pixel_anywhere [of _ x y c] in \<open>fastforce simp: screen_ok_def rows_def cols_def\<close>)

definition screen_of :: "VgaBuffer \<Rightarrow> VgaBuffer option \<Rightarrow> bool" where
  "screen_of v w \<longleftrightarrow> (\<exists>v'. w = Some v' \<and> screen_ok v' \<and> info v' = info v \<and> buf_len v' = buf_len v)"

lemma confined_writer:
  assumes "confined b m" "screen_ok v" "with_writer m (Some v) = (r, w)"
  shows "(r = Ok () \<or> b \<and> r = Panic) \<and> screen_of v w"
  using confinedD [OF assms(1,2)] assms(3) by (auto simp: with_writer_def screen_of_def split: prod.splits)

text \<open>
  A pixel of \<open>blit_rgb32\<close> is inside the picture, so its coordinates are smaller than the number of pixels.
\<close>

lemma confined_blit:
  assumes "length buf = w * h" "length buf < 2 ^ 31"
  shows "confined False (for_in [0..<h] (\<lambda>y. for_in [0..<w] (\<lambda>x.
     sbind (lift (index buf (y * w + x))) (\<lambda>rgb. put_pixel x y (unpack_rgb rgb)))))"
proof (intro confined_for)
  fix y x assume "y \<in> set [0..<h]" "x \<in> set [0..<w]"
  then have yx: "y < h" "x < w" by auto
  have i: "y * w + x < length buf"
    using yx mult_le_mono1 [of "Suc y" h w] by (simp add: assms(1) mult.commute)
  have "x < 2 ^ 31" "y < 2 ^ 31" using i assms(2) yx(2) by (auto simp: less_le_trans intro: le_less_trans [of y "y * w"])
  then show "confined False (sbind (lift (index buf (y * w + x))) (\<lambda>rgb. put_pixel x y (unpack_rgb rgb)))"
    using i confined_pixel [of x y "unpack_rgb (buf ! (y * w + x))"] by (simp add: confined_def run_lift)
qed


text \<open>A screen of two characters, for the examples.\<close>

definition demo_mode :: FrameBufferInfo where
  "demo_mode = \<lparr>width = 16, height = 8, stride = 16, bytes_per_pixel = 4, pixel_format = Bgr\<rparr>"

lemma demo_mode_ok: "mode_ok demo_mode 512"
  by (simp add: mode_ok_def demo_mode_def USIZE_MAX_def CHAR_W_def CHAR_H_def)


section \<open>From boot on\<close>

definition blank_terminal :: terminal where
  "blank_terminal = \<lparr>t_cells = \<lambda>_ _. Blank BLACK, t_row = 0, t_col = 0, t_saved_row = 0, t_saved_col = 0, t_fg = BRIGHT_WHITE, t_bg = BLACK\<rparr>"

definition term_text :: "FrameBufferInfo \<Rightarrow> bytes \<Rightarrow> terminal \<Rightarrow> terminal" where
  "term_text i s = fold (term_event (grid_rows i) (grid_cols i)) (ansi_events (str_chars s))"

definition text_fits :: "bytes \<Rightarrow> bool" where
  "text_fits s \<longleftrightarrow> list_all event_fits (ansi_events (str_chars s))"

lemma on_screen_text: "on_screen (grid_rows i) (grid_cols i) t \<Longrightarrow> on_screen (grid_rows i) (grid_cols i) (term_text i s t)"
proof -
  have "on_screen R C t \<Longrightarrow> on_screen R C (fold (term_event R C) es t)" for R C es t
    by (induction es arbitrary: t) (simp_all add: on_screen_event)
  then show "on_screen (grid_rows i) (grid_cols i) t \<Longrightarrow> on_screen (grid_rows i) (grid_cols i) (term_text i s t)"
    by (simp add: term_text_def)
qed

lemma print_displays:
  assumes "mode_ok i n" "text_fits s" "displays i n v t" "on_screen (grid_rows i) (grid_cols i) t"
  shows "\<exists>v'. vga_print s (Some v) = (Ok (), Some v') \<and> displays i n v' (term_text i s t)"
  using draws_events [OF assms(1,2) [unfolded text_fits_def]] assms(3,4)
  by (fastforce simp: vga_print_def with_writer_def parse_ansi_def ansi_loop_events term_text_def draws_def)

lemma init_displays:
  assumes "mode_ok i n"
  shows "\<exists>v. vga_init b n i w = (Ok (), Some v) \<and> displays i n v blank_terminal"
proof -
  have "displays i n (vga_new b n i) (term_of (vga_new b n i))"
    using displays_term_of [of "vga_new b n i"] by (simp add: vga_new_def)
  then obtain v where v: "clear_screen (vga_new b n i) = (Ok (), v)"
    "displays i n v ((fill (\<lambda>r c. True) (Blank BLACK) (term_of (vga_new b n i)))\<lparr>t_row := 0, t_col := 0\<rparr>)"
    using draws_clear_screen [OF assms, of "\<lambda>_. True"] unfolding draws_def by blast
  moreover have "(fill (\<lambda>r c. True) (Blank BLACK) (term_of (vga_new b n i)))\<lparr>t_row := 0, t_col := 0\<rparr> = blank_terminal"
    by (simp add: fill_def term_of_def vga_new_def blank_terminal_def)
  ultimately show ?thesis by (simp add: vga_init_def run_modify with_writer_def)
qed



text \<open>
  A text that panics the kernel: with the cursor off the left margin, a move to the right by the largest number
  overflows the sum of the two.
\<close>

lemma split_on_none: "d \<notin> set bs \<Longrightarrow> split_on d bs = [bs]"
  by (induction bs) auto

lemma cursor_move_panics: "0 < col v \<Longrightarrow> csi_command (ch CHR ''C'') (dec_str USIZE_MAX) v = (Panic, v)"
proof -
  assume "0 < col v"
  have "0x3B \<notin> set (dec_str USIZE_MAX)" using dec_str_digits [of USIZE_MAX] by (force simp: list_all_iff)
  then have "csi_param (dec_str USIZE_MAX) 0 = USIZE_MAX"
    by (simp add: csi_param_def split_on_none parse_or_0_def dec_checked_str dec_str_nonempty)
  moreover have "USIZE_MAX < col v + max USIZE_MAX 1" using \<open>0 < col v\<close> by (simp add: max_def)
  ultimately show ?thesis by (simp add: csi_command_def Let_def right_def run_gets panic_def)
qed

text \<open>
  On a screen with one byte per pixel the last pixel of the buffer is written past its end: the check allows for one byte
  and three are written.
\<close>

lemma grey_pixel_overruns:
  assumes "bytes_per_pixel (info v) = 1" "y * stride (info v) + x + 1 = buf_len v" "buf_len v \<le> USIZE_MAX"
  shows "fst (put_pixel x y c v) = Err OutOfBounds"
  using assms by (cases c; cases "pixel_format (info v)")
    (simp_all add: put_pixel_def run_gets Let_def sthen_def sbind_def [of "\<lambda>v. if _ v then _ v else _ v"] write_volatile_def)

end
