(* ===== verification/Jit_Emit.thy ===== *)
theory Jit_Emit
  imports Byte_Order
begin

text \<open>
  The machine-code emitter of \<open>jit/emit.rs\<close>, function by function, and the part of the x86-64 instruction set that the
  compiler uses: a decoder of instruction bytes and what each instruction does to registers and memory, after the
  manual of the processor. The encodings are shown to decode to the instructions they are named after.
\<close>

section \<open>Registers and conditions\<close>

datatype Reg = Rax | Rcx | Rdx | Rbx | Rsp | Rbp | Rsi | Rdi | R8 | R9 | R10 | R11 | R12 | R13 | R14 | R15

primrec reg_num :: "Reg \<Rightarrow> u8" where
  "reg_num Rax = 0" | "reg_num Rcx = 1" | "reg_num Rdx = 2" | "reg_num Rbx = 3"
| "reg_num Rsp = 4" | "reg_num Rbp = 5" | "reg_num Rsi = 6" | "reg_num Rdi = 7"
| "reg_num R8 = 8" | "reg_num R9 = 9" | "reg_num R10 = 10" | "reg_num R11 = 11"
| "reg_num R12 = 12" | "reg_num R13 = 13" | "reg_num R14 = 14" | "reg_num R15 = 15"

definition enc :: "Reg \<Rightarrow> u8" where
  "enc r = reg_num r AND 7"

definition needs_rex :: "Reg \<Rightarrow> bool" where
  "needs_rex r \<longleftrightarrow> reg_num r \<ge> 8"

datatype Cond = CE | CNE | CL | CLE | CG | CGE | CB | CBE | CA | CAE

primrec cond_num :: "Cond \<Rightarrow> u8" where
  "cond_num CE = 0x4" | "cond_num CNE = 0x5" | "cond_num CL = 0xC" | "cond_num CLE = 0xE" | "cond_num CG = 0xF"
| "cond_num CGE = 0xD" | "cond_num CB = 0x2" | "cond_num CBE = 0x6" | "cond_num CA = 0x7" | "cond_num CAE = 0x3"

section \<open>The code buffer\<close>

text \<open>A slice and a cursor. Bytes beyond the end of the slice are dropped without notice.\<close>

record CodeBuf =
  cbuf :: bytes
  cursor :: nat

definition code_buf_new :: "bytes \<Rightarrow> CodeBuf" where
  "code_buf_new b = \<lparr>cbuf = b, cursor = 0\<rparr>"

definition code_len :: "CodeBuf \<Rightarrow> nat" where
  "code_len cb = cursor cb"

definition code_pos :: "CodeBuf \<Rightarrow> nat" where
  "code_pos cb = cursor cb"

definition emit_u8 :: "u8 \<Rightarrow> CodeBuf \<Rightarrow> CodeBuf" where
  "emit_u8 b cb = (if cursor cb < length (cbuf cb) then cb\<lparr>cbuf := (cbuf cb)[cursor cb := b], cursor := cursor cb + 1\<rparr> else cb)"

definition emit_u16 :: "u16 \<Rightarrow> CodeBuf \<Rightarrow> CodeBuf" where
  "emit_u16 v cb = emit_u8 (ucast (drop_bit 8 v)) (emit_u8 (ucast v) cb)"

definition emit_u32 :: "u32 \<Rightarrow> CodeBuf \<Rightarrow> CodeBuf" where
  "emit_u32 v cb = emit_u8 (ucast (drop_bit 24 v)) (emit_u8 (ucast (drop_bit 16 v)) (emit_u8 (ucast (drop_bit 8 v)) (emit_u8 (ucast v) cb)))"

definition emit_u64 :: "u64 \<Rightarrow> CodeBuf \<Rightarrow> CodeBuf" where
  "emit_u64 v cb = emit_u32 (ucast (drop_bit 32 v)) (emit_u32 (ucast v) cb)"

definition emit_i32 :: "i32 \<Rightarrow> CodeBuf \<Rightarrow> CodeBuf" where
  "emit_i32 v cb = emit_u32 v cb"

section \<open>Prefixes and operands\<close>

definition emit_rex_w :: "CodeBuf \<Rightarrow> CodeBuf" where "emit_rex_w cb = emit_u8 0x48 cb"
definition emit_rex_wb :: "CodeBuf \<Rightarrow> CodeBuf" where "emit_rex_wb cb = emit_u8 0x49 cb"
definition emit_rex_wr :: "CodeBuf \<Rightarrow> CodeBuf" where "emit_rex_wr cb = emit_u8 0x4C cb"
definition emit_rex_wrb :: "CodeBuf \<Rightarrow> CodeBuf" where "emit_rex_wrb cb = emit_u8 0x4D cb"

definition emit_rex_rr :: "Reg \<Rightarrow> Reg \<Rightarrow> CodeBuf \<Rightarrow> CodeBuf" where
  "emit_rex_rr reg rm cb =
     (let r = (if needs_rex reg then 0x44 else 0x40); b = (if needs_rex rm then 0x41 else 0x40) in
      emit_u8 (0x48 OR (r AND 4) OR (b AND 1)) cb)"

definition emit_modrm_rr :: "Reg \<Rightarrow> Reg \<Rightarrow> CodeBuf \<Rightarrow> CodeBuf" where
  "emit_modrm_rr reg rm cb = emit_u8 (0xC0 OR push_bit 3 (enc reg) OR enc rm) cb"

definition emit_mem_modrm :: "Reg \<Rightarrow> Reg \<Rightarrow> i32 \<Rightarrow> CodeBuf \<Rightarrow> CodeBuf" where
  "emit_mem_modrm reg base offset cb =
     (if offset = 0 \<and> enc base \<noteq> 5 then emit_u8 (0x00 OR push_bit 3 (enc reg) OR enc base) cb
      else if - 128 \<le> sint offset \<and> sint offset \<le> 127 then
        emit_u8 (ucast offset) (emit_u8 (0x40 OR push_bit 3 (enc reg) OR enc base) cb)
      else emit_i32 offset (emit_u8 (0x80 OR push_bit 3 (enc reg) OR enc base) cb))"

section \<open>Instructions\<close>

definition emit_mov_rr :: "Reg \<Rightarrow> Reg \<Rightarrow> CodeBuf \<Rightarrow> CodeBuf" where
  "emit_mov_rr dst src cb = emit_modrm_rr src dst (emit_u8 0x89 (emit_rex_rr src dst cb))"

definition emit_mov_ri64 :: "Reg \<Rightarrow> u64 \<Rightarrow> CodeBuf \<Rightarrow> CodeBuf" where
  "emit_mov_ri64 dst imm cb = emit_u64 imm (emit_u8 (0xB8 OR enc dst) (if needs_rex dst then emit_rex_wb cb else emit_rex_w cb))"

definition emit_mov_ri32 :: "Reg \<Rightarrow> u32 \<Rightarrow> CodeBuf \<Rightarrow> CodeBuf" where
  "emit_mov_ri32 dst imm cb = emit_u32 imm (emit_u8 (0xB8 OR enc dst) (if needs_rex dst then emit_u8 0x41 cb else cb))"

definition emit_push :: "Reg \<Rightarrow> CodeBuf \<Rightarrow> CodeBuf" where
  "emit_push reg cb = emit_u8 (0x50 OR enc reg) (if needs_rex reg then emit_u8 0x41 cb else cb)"

definition emit_pop :: "Reg \<Rightarrow> CodeBuf \<Rightarrow> CodeBuf" where
  "emit_pop reg cb = emit_u8 (0x58 OR enc reg) (if needs_rex reg then emit_u8 0x41 cb else cb)"

definition emit_add_rr :: "Reg \<Rightarrow> Reg \<Rightarrow> CodeBuf \<Rightarrow> CodeBuf" where
  "emit_add_rr dst src cb = emit_modrm_rr dst src (emit_u8 0x03 (emit_rex_rr dst src cb))"

definition emit_sub_rr :: "Reg \<Rightarrow> Reg \<Rightarrow> CodeBuf \<Rightarrow> CodeBuf" where
  "emit_sub_rr dst src cb = emit_modrm_rr dst src (emit_u8 0x2B (emit_rex_rr dst src cb))"

definition emit_and_rr :: "Reg \<Rightarrow> Reg \<Rightarrow> CodeBuf \<Rightarrow> CodeBuf" where
  "emit_and_rr dst src cb = emit_modrm_rr dst src (emit_u8 0x23 (emit_rex_rr dst src cb))"

definition emit_or_rr :: "Reg \<Rightarrow> Reg \<Rightarrow> CodeBuf \<Rightarrow> CodeBuf" where
  "emit_or_rr dst src cb = emit_modrm_rr dst src (emit_u8 0x0B (emit_rex_rr dst src cb))"

definition emit_xor_rr :: "Reg \<Rightarrow> Reg \<Rightarrow> CodeBuf \<Rightarrow> CodeBuf" where
  "emit_xor_rr dst src cb = emit_modrm_rr dst src (emit_u8 0x33 (emit_rex_rr dst src cb))"

definition emit_load_mem :: "Reg \<Rightarrow> Reg \<Rightarrow> i32 \<Rightarrow> CodeBuf \<Rightarrow> CodeBuf" where
  "emit_load_mem dst base off cb = emit_mem_modrm dst base off (emit_u8 0x8B
     (emit_u8 (0x48 OR (if needs_rex dst then 0x04 else 0) OR (if needs_rex base then 0x01 else 0)) cb))"

definition emit_store_mem :: "Reg \<Rightarrow> Reg \<Rightarrow> i32 \<Rightarrow> CodeBuf \<Rightarrow> CodeBuf" where
  "emit_store_mem src base off cb = emit_mem_modrm src base off (emit_u8 0x89
     (emit_u8 (0x48 OR (if needs_rex src then 0x04 else 0) OR (if needs_rex base then 0x01 else 0)) cb))"

definition emit_add_rsp_i8 :: "u8 \<Rightarrow> CodeBuf \<Rightarrow> CodeBuf" where
  "emit_add_rsp_i8 imm cb = emit_u8 imm (emit_u8 0xC4 (emit_u8 0x83 (emit_rex_w cb)))"

definition emit_sub_rsp_i8 :: "u8 \<Rightarrow> CodeBuf \<Rightarrow> CodeBuf" where
  "emit_sub_rsp_i8 imm cb = emit_u8 imm (emit_u8 0xEC (emit_u8 0x83 (emit_rex_w cb)))"

definition emit_imul_rr :: "Reg \<Rightarrow> Reg \<Rightarrow> CodeBuf \<Rightarrow> CodeBuf" where
  "emit_imul_rr dst src cb = emit_modrm_rr dst src (emit_u8 0xAF (emit_u8 0x0F (emit_rex_rr dst src cb)))"

definition emit_sar_rcx :: "Reg \<Rightarrow> CodeBuf \<Rightarrow> CodeBuf" where
  "emit_sar_rcx reg cb = emit_u8 (0xF8 OR enc reg) (emit_u8 0xD3 (emit_rex_rr Rcx reg cb))"

definition emit_shl_rcx :: "Reg \<Rightarrow> CodeBuf \<Rightarrow> CodeBuf" where
  "emit_shl_rcx reg cb = emit_u8 (0xE0 OR enc reg) (emit_u8 0xD3 (emit_rex_rr Rcx reg cb))"

definition emit_shr_rcx :: "Reg \<Rightarrow> CodeBuf \<Rightarrow> CodeBuf" where
  "emit_shr_rcx reg cb = emit_u8 (0xE8 OR enc reg) (emit_u8 0xD3 (emit_rex_rr Rcx reg cb))"

definition emit_neg :: "Reg \<Rightarrow> CodeBuf \<Rightarrow> CodeBuf" where
  "emit_neg reg cb = emit_u8 (0xD8 OR enc reg) (emit_u8 0xF7 (emit_rex_w cb))"

definition emit_setcc :: "Cond \<Rightarrow> Reg \<Rightarrow> CodeBuf \<Rightarrow> CodeBuf" where
  "emit_setcc cond reg cb = emit_modrm_rr reg Rax (emit_u8 (0x90 OR cond_num cond) (emit_u8 0x0F
     (if needs_rex reg then emit_u8 (0x40 OR drop_bit 3 (enc reg)) cb else cb)))"

definition emit_movzx_r32_r8 :: "Reg \<Rightarrow> Reg \<Rightarrow> CodeBuf \<Rightarrow> CodeBuf" where
  "emit_movzx_r32_r8 dst src cb = emit_modrm_rr dst src (emit_u8 0xB6 (emit_u8 0x0F
     (if needs_rex dst \<or> needs_rex src
      then emit_u8 (0x40 OR (if needs_rex dst then 0x4 else 0) OR (if needs_rex src then 0x1 else 0)) cb else cb)))"

definition emit_movsx_r32_mem8 :: "Reg \<Rightarrow> Reg \<Rightarrow> i32 \<Rightarrow> CodeBuf \<Rightarrow> CodeBuf" where
  "emit_movsx_r32_mem8 dst base off cb = emit_mem_modrm dst base off (emit_u8 0xBE (emit_u8 0x0F (emit_rex_rr dst base cb)))"

definition emit_movzx_r32_mem8 :: "Reg \<Rightarrow> Reg \<Rightarrow> i32 \<Rightarrow> CodeBuf \<Rightarrow> CodeBuf" where
  "emit_movzx_r32_mem8 dst base off cb = emit_mem_modrm dst base off (emit_u8 0xB6 (emit_u8 0x0F (emit_rex_rr dst base cb)))"

definition emit_mem_load_u64 :: "Reg \<Rightarrow> Reg \<Rightarrow> Reg \<Rightarrow> CodeBuf \<Rightarrow> CodeBuf" where
  "emit_mem_load_u64 dst base offset_reg cb =
     (let cb = emit_u8 0x8B (emit_rex_rr dst base cb) in
      if offset_reg = Rax then emit_u8 (0x00 OR push_bit 3 (enc dst) OR enc base) cb
      else emit_u8 (push_bit 3 (enc offset_reg) OR enc base) (emit_u8 (0x04 OR push_bit 3 (enc dst)) cb))"

definition emit_mem_store_u64 :: "Reg \<Rightarrow> Reg \<Rightarrow> Reg \<Rightarrow> CodeBuf \<Rightarrow> CodeBuf" where
  "emit_mem_store_u64 src base offset_reg cb =
     (let cb = emit_u8 0x89 (emit_rex_rr src base cb) in
      if offset_reg = Rax then emit_u8 (0x00 OR push_bit 3 (enc src) OR enc base) cb
      else emit_u8 (push_bit 3 (enc offset_reg) OR enc base) (emit_u8 (0x04 OR push_bit 3 (enc src)) cb))"

definition emit_ret :: "CodeBuf \<Rightarrow> CodeBuf" where
  "emit_ret cb = emit_u8 0xC3 cb"

definition emit_jmp_rel32 :: "i32 \<Rightarrow> CodeBuf \<Rightarrow> CodeBuf" where
  "emit_jmp_rel32 rel cb = emit_i32 rel (emit_u8 0xE9 cb)"

definition emit_jz_rel32 :: "i32 \<Rightarrow> CodeBuf \<Rightarrow> CodeBuf" where
  "emit_jz_rel32 rel cb = emit_i32 rel (emit_u8 0x84 (emit_u8 0x0F cb))"

definition emit_jnz_rel32 :: "i32 \<Rightarrow> CodeBuf \<Rightarrow> CodeBuf" where
  "emit_jnz_rel32 rel cb = emit_i32 rel (emit_u8 0x85 (emit_u8 0x0F cb))"

definition emit_rel32_placeholder :: "CodeBuf \<Rightarrow> nat \<times> CodeBuf" where
  "emit_rel32_placeholder cb = (cursor cb, emit_u32 0 cb)"

definition patch_rel32 :: "nat \<Rightarrow> nat \<Rightarrow> nat \<Rightarrow> CodeBuf \<Rightarrow> CodeBuf" where
  "patch_rel32 patch_pos instr_end target_pos cb =
     (let rel = word_of_int (int target_pos - int instr_end) :: i32 in
      if patch_pos + 4 \<le> length (cbuf cb)
      then cb\<lparr>cbuf := take patch_pos (cbuf cb) @ le_bytes32 rel @ drop (patch_pos + 4) (cbuf cb)\<rparr> else cb)"

definition emit_test_rr :: "Reg \<Rightarrow> CodeBuf \<Rightarrow> CodeBuf" where
  "emit_test_rr reg cb = emit_modrm_rr reg reg (emit_u8 0x85 (emit_rex_rr reg reg cb))"

definition emit_cmp_ri32 :: "Reg \<Rightarrow> i32 \<Rightarrow> CodeBuf \<Rightarrow> CodeBuf" where
  "emit_cmp_ri32 reg imm cb = emit_i32 imm (emit_u8 (0xF8 OR enc reg) (emit_u8 0x81 (if needs_rex reg then emit_u8 0x49 cb else emit_rex_w cb)))"

definition emit_call_r :: "Reg \<Rightarrow> CodeBuf \<Rightarrow> CodeBuf" where
  "emit_call_r reg cb = emit_u8 (0xD0 OR enc reg) (emit_u8 0xFF (if needs_rex reg then emit_u8 0x41 cb else cb))"

definition emit_prologue :: "CodeBuf \<Rightarrow> CodeBuf" where
  "emit_prologue cb = emit_sub_rsp_i8 8 (emit_push R15 (emit_push R14 (emit_push R13 (emit_push R12 (emit_push Rbx
     (emit_mov_rr Rbp Rsp (emit_push Rbp cb)))))))"

definition emit_epilogue :: "CodeBuf \<Rightarrow> CodeBuf" where
  "emit_epilogue cb = emit_ret (emit_pop Rbp (emit_pop Rbx (emit_pop R12 (emit_pop R13 (emit_pop R14 (emit_pop R15 (emit_add_rsp_i8 8 cb)))))))"

section \<open>What is emitted\<close>

text \<open>An emitter appends its bytes, as far as the slice has room.\<close>

definition emit_all :: "bytes \<Rightarrow> CodeBuf \<Rightarrow> CodeBuf" where
  "emit_all bs cb = fold emit_u8 bs cb"

definition emitted :: "CodeBuf \<Rightarrow> bytes" where
  "emitted cb = take (cursor cb) (cbuf cb)"

lemma emit_u8_all: "emit_u8 b cb = emit_all [b] cb"
  by (simp add: emit_all_def)

lemma emit_all_all: "emit_all bs (emit_all as cb) = emit_all (as @ bs) cb"
  by (simp add: emit_all_def)

lemma emit_u8_frame:
  "length (cbuf (emit_u8 b cb)) = length (cbuf cb)"
  "cursor cb \<le> length (cbuf cb) \<Longrightarrow> cursor (emit_u8 b cb) \<le> length (cbuf cb)"
  "cursor cb \<le> length (cbuf cb) \<Longrightarrow> emitted (emit_u8 b cb) = take (length (cbuf cb)) (emitted cb @ [b])"
  by (auto simp: emit_u8_def emitted_def take_Suc_conv_app_nth)

lemma emit_all_frame:
  assumes "cursor cb \<le> length (cbuf cb)"
  shows "length (cbuf (emit_all bs cb)) = length (cbuf cb) \<and> cursor (emit_all bs cb) \<le> length (cbuf cb)
    \<and> emitted (emit_all bs cb) = take (length (cbuf cb)) (emitted cb @ bs)"
  using assms
proof (induction bs arbitrary: cb)
  case Nil
  then show ?case by (simp add: emit_all_def emitted_def)
next
  case (Cons b bs)
  have "take n (take n (xs @ [b]) @ bs) = take n (xs @ b # bs)" for n and xs :: bytes
    by (cases "n \<le> length xs") (auto simp: take_append)
  with Cons.IH [of "emit_u8 b cb"] Cons.prems emit_u8_frame(2,3) [of cb b] show ?case
    by (simp add: emit_all_def emit_u8_frame(1))
qed

lemma emit_words:
  "emit_u32 v cb = emit_all (le_bytes32 v) cb" "emit_u64 w cb = emit_all (le_bytes64 w) cb"
proof -
  have u32: "emit_u32 v cb = emit_all (le_bytes32 v) cb" for v cb
    by (simp add: emit_u32_def emit_u8_all emit_all_all le_bytes32_def)
  have "le_bytes32 (ucast w) @ le_bytes32 (ucast (drop_bit 32 w)) = le_bytes64 w"
    by (auto simp: le_bytes32_def le_bytes64_def intro!: bit_word_eqI simp: bit_simps)
  then show "emit_u32 v cb = emit_all (le_bytes32 v) cb" "emit_u64 w cb = emit_all (le_bytes64 w) cb"
    by (simp_all add: u32 emit_u64_def emit_all_all)
qed

section \<open>The processor\<close>

datatype alu_op = AluAdd | AluSub | AluAnd | AluOr | AluXor | AluMul
datatype shift_op = ShiftLeft | ShiftRight | ShiftArith

text \<open>
  The instructions of the compiler's output, with 64-bit operands: moves, loads and stores with a displacement, the stack,
  arithmetic, shifts by the low byte of \<open>Rcx\<close>, and the near return.
\<close>

datatype ins = MovR Reg Reg | MovI Reg u64 | Push Reg | Pop Reg | Alu alu_op Reg Reg | Load Reg Reg u64 | Store Reg Reg u64
  | AddI Reg u64 | SubI Reg u64 | Shift shift_op Reg | Ret

definition reg_at :: "bool \<Rightarrow> u8 \<Rightarrow> Reg" where
  "reg_at x n = [Rax, Rcx, Rdx, Rbx, Rsp, Rbp, Rsi, Rdi, R8, R9, R10, R11, R12, R13, R14, R15] ! (unat n + (if x then 8 else 0))"

definition modrm_mod :: "u8 \<Rightarrow> u8" where "modrm_mod b = drop_bit 6 b"
definition modrm_reg :: "u8 \<Rightarrow> u8" where "modrm_reg b = drop_bit 3 b AND 7"
definition modrm_rm :: "u8 \<Rightarrow> u8" where "modrm_rm b = b AND 7"

text \<open>The displacement of a memory operand without an index register, and the length of its bytes.\<close>

definition dec_disp :: "u8 \<Rightarrow> bytes \<Rightarrow> (u64 \<times> nat) option" where
  "dec_disp m cs =
     (if modrm_rm m = 4 \<or> (modrm_mod m = 0 \<and> modrm_rm m = 5) then None
      else if modrm_mod m = 0 then Some (0, 0)
      else if modrm_mod m = 1 then (case cs of [] \<Rightarrow> None | d # _ \<Rightarrow> Some (scast d, 1))
      else if 4 \<le> length cs then Some (scast (from_le (take 4 cs) :: i32), 4) else None)"

definition alu_opcode :: "u8 \<Rightarrow> alu_op option" where
  "alu_opcode b = (if b = 0x03 then Some AluAdd else if b = 0x2B then Some AluSub else if b = 0x23 then Some AluAnd
     else if b = 0x0B then Some AluOr else if b = 0x33 then Some AluXor else None)"

text \<open>An instruction with a ModRM byte; \<open>r\<close> and \<open>b\<close> are the extension bits of the prefix.\<close>

definition dec_modrm :: "bool \<Rightarrow> bool \<Rightarrow> u8 \<Rightarrow> u8 \<Rightarrow> bytes \<Rightarrow> (ins \<times> nat) option" where
  "dec_modrm r b op m cs =
     (let reg = reg_at r (modrm_reg m); rm = reg_at b (modrm_rm m) in
      if modrm_mod m = 3 then
        (case alu_opcode op of
           Some f \<Rightarrow> Some (Alu f reg rm, 2)
         | None \<Rightarrow>
             if op = 0x89 then Some (MovR rm reg, 2)
             else if op = 0x8B then Some (MovR reg rm, 2)
             else if op = 0xD3 then
               (if modrm_reg m = 4 then Some (Shift ShiftLeft rm, 2) else if modrm_reg m = 5 then Some (Shift ShiftRight rm, 2)
                else if modrm_reg m = 7 then Some (Shift ShiftArith rm, 2) else None)
             else if op = 0x83 then
               (case cs of [] \<Rightarrow> None | i # _ \<Rightarrow>
                  if modrm_reg m = 0 then Some (AddI rm (scast i), 3) else if modrm_reg m = 5 then Some (SubI rm (scast i), 3) else None)
             else None)
      else if op = 0x8B then map_option (\<lambda>(d, n). (Load reg rm d, 2 + n)) (dec_disp m cs)
      else if op = 0x89 then map_option (\<lambda>(d, n). (Store reg rm d, 2 + n)) (dec_disp m cs)
      else None)"

definition dec_op :: "u8 \<Rightarrow> bytes \<Rightarrow> (ins \<times> nat) option" where
  "dec_op rex bs =
     (case bs of
        [] \<Rightarrow> None
      | op # cs \<Rightarrow>
          let w = bit rex 3; r = bit rex 2; b = bit rex 0 in
          if op AND 0xF8 = 0x50 then Some (Push (reg_at b (op AND 7)), 1)
          else if op AND 0xF8 = 0x58 then Some (Pop (reg_at b (op AND 7)), 1)
          else if op = 0xC3 then Some (Ret, 1)
          else if op AND 0xF8 = 0xB8 then
            (if w then if 8 \<le> length cs then Some (MovI (reg_at b (op AND 7)) (from_le (take 8 cs)), 9) else None
             else if 4 \<le> length cs then Some (MovI (reg_at b (op AND 7)) (ucast (from_le (take 4 cs) :: u32)), 5) else None)
          else if \<not> w then None
          else (case cs of
             [] \<Rightarrow> None
           | m # ds \<Rightarrow>
               if op = 0x0F then
                 (case ds of [] \<Rightarrow> None | m' # _ \<Rightarrow>
                    if m = 0xAF \<and> modrm_mod m' = 3 then Some (Alu AluMul (reg_at r (modrm_reg m')) (reg_at b (modrm_rm m')), 3) else None)
               else dec_modrm r b op m ds))"

definition x86_decode :: "bytes \<Rightarrow> (ins \<times> nat) option" where
  "x86_decode bs =
     (case bs of
        [] \<Rightarrow> None
      | p # cs \<Rightarrow> if p AND 0xF0 = 0x40 then map_option (\<lambda>(i, n). (i, n + 1)) (dec_op p cs) else dec_op 0 bs)"

section \<open>The encodings decode\<close>

definition rex_byte :: "Reg \<Rightarrow> Reg \<Rightarrow> u8" where
  "rex_byte reg rm = 0x48 OR (if needs_rex reg then 4 else 0) OR (if needs_rex rm then 1 else 0)"

definition modrm_byte :: "u8 \<Rightarrow> Reg \<Rightarrow> Reg \<Rightarrow> u8" where
  "modrm_byte k reg rm = k OR push_bit 3 (enc reg) OR enc rm"

lemma reg_at_enc [simp]: "reg_at (needs_rex r) (enc r) = r"
  by (cases r) (simp_all add: reg_at_def needs_rex_def enc_def word_le_nat_alt)

lemma reg_at_low: "\<not> needs_rex r \<Longrightarrow> reg_at False (enc r) = r"
  by (cases r) (simp_all add: reg_at_def needs_rex_def enc_def word_le_nat_alt)

lemma rex_byte_bits [simp]:
  "rex_byte reg rm AND 0xF0 = 0x40" "bit (rex_byte reg rm) 3" "bit (rex_byte reg rm) 2 = needs_rex reg" "bit (rex_byte reg rm) 0 = needs_rex rm"
  by (cases "needs_rex reg"; cases "needs_rex rm"; simp add: rex_byte_def bit_simps)+

lemma enc_cases: "enc r \<in> {0, 1, 2, 3, 4, 5, 6, 7}"
  by (cases r) (simp_all add: enc_def)

lemma enc_bits:
  "enc r AND 7 = enc r" "push_bit 3 (enc r) AND 7 = 0" "drop_bit 3 (push_bit 3 (enc r)) AND 7 = enc r" "drop_bit 3 (enc r) = 0"
  "drop_bit 6 (enc r) = 0" "drop_bit 6 (push_bit 3 (enc r)) = 0"
  using enc_cases [of r] by auto

lemma modrm_fields [simp]:
  "modrm_mod (modrm_byte 0xC0 reg rm) = 3" "modrm_mod (modrm_byte 0 reg rm) = 0" "modrm_mod (modrm_byte 0x40 reg rm) = 1"
  "modrm_mod (modrm_byte 0x80 reg rm) = 2"
  by (simp_all add: modrm_mod_def modrm_byte_def drop_bit_or enc_bits)

lemma modrm_regs:
  assumes "k \<in> {0, 0x40, 0x80, 0xC0}"
  shows "modrm_reg (modrm_byte k reg rm) = enc reg" "modrm_rm (modrm_byte k reg rm) = enc rm"
  using assms by (auto simp: modrm_reg_def modrm_rm_def modrm_byte_def drop_bit_or enc_bits bit.conj_disj_distrib2)

lemmas modrm_regs_at [simp] = modrm_regs [of 0, simplified] modrm_regs [of "0x40", simplified] modrm_regs [of "0x80", simplified] modrm_regs [of "0xC0", simplified]

text \<open>The bytes of each emitter.\<close>

lemma emit_rex_all: "emit_rex_rr reg rm cb = emit_all [rex_byte reg rm] cb"
  by (simp add: emit_rex_rr_def rex_byte_def emit_u8_all Let_def)

lemma emit_modrm_all: "emit_modrm_rr reg rm cb = emit_all [modrm_byte 0xC0 reg rm] cb"
  by (simp add: emit_modrm_rr_def modrm_byte_def emit_u8_all)

definition mem_operand :: "Reg \<Rightarrow> Reg \<Rightarrow> i32 \<Rightarrow> bytes" where
  "mem_operand reg base off =
     (if off = 0 \<and> enc base \<noteq> 5 then [modrm_byte 0 reg base]
      else if - 128 \<le> sint off \<and> sint off \<le> 127 then [modrm_byte 0x40 reg base, ucast off]
      else modrm_byte 0x80 reg base # le_bytes32 off)"

lemma emit_mem_all: "emit_mem_modrm reg base off cb = emit_all (mem_operand reg base off) cb"
  by (simp add: emit_mem_modrm_def mem_operand_def emit_u8_all emit_all_all emit_i32_def emit_words modrm_byte_def)

definition reg_prefix :: "Reg \<Rightarrow> bytes" where
  "reg_prefix r = (if needs_rex r then [0x41] else [])"

lemma shift_modrm: "0xE0 OR enc dst = modrm_byte 0xC0 Rsp dst" "0xE8 OR enc dst = modrm_byte 0xC0 Rbp dst" "0xF8 OR enc dst = modrm_byte 0xC0 Rdi dst"
  using enc_cases [of dst] by (auto simp: modrm_byte_def) (simp_all add: enc_def)

lemma emit_instructions:
  "emit_mov_rr dst src cb = emit_all [rex_byte src dst, 0x89, modrm_byte 0xC0 src dst] cb"
  "emit_mov_ri64 dst w cb = emit_all (rex_byte Rax dst # (0xB8 OR enc dst) # le_bytes64 w) cb"
  "emit_mov_ri32 dst v cb = emit_all (reg_prefix dst @ (0xB8 OR enc dst) # le_bytes32 v) cb"
  "emit_push dst cb = emit_all (reg_prefix dst @ [0x50 OR enc dst]) cb"
  "emit_pop dst cb = emit_all (reg_prefix dst @ [0x58 OR enc dst]) cb"
  "emit_add_rr dst src cb = emit_all [rex_byte dst src, 0x03, modrm_byte 0xC0 dst src] cb"
  "emit_sub_rr dst src cb = emit_all [rex_byte dst src, 0x2B, modrm_byte 0xC0 dst src] cb"
  "emit_and_rr dst src cb = emit_all [rex_byte dst src, 0x23, modrm_byte 0xC0 dst src] cb"
  "emit_or_rr dst src cb = emit_all [rex_byte dst src, 0x0B, modrm_byte 0xC0 dst src] cb"
  "emit_xor_rr dst src cb = emit_all [rex_byte dst src, 0x33, modrm_byte 0xC0 dst src] cb"
  "emit_imul_rr dst src cb = emit_all [rex_byte dst src, 0x0F, 0xAF, modrm_byte 0xC0 dst src] cb"
  "emit_load_mem dst base off cb = emit_all (rex_byte dst base # 0x8B # mem_operand dst base off) cb"
  "emit_store_mem src base off cb = emit_all (rex_byte src base # 0x89 # mem_operand src base off) cb"
  "emit_add_rsp_i8 i cb = emit_all [0x48, 0x83, 0xC4, i] cb"
  "emit_sub_rsp_i8 i cb = emit_all [0x48, 0x83, 0xEC, i] cb"
  "emit_shl_rcx dst cb = emit_all [rex_byte Rcx dst, 0xD3, modrm_byte 0xC0 Rsp dst] cb"
  "emit_shr_rcx dst cb = emit_all [rex_byte Rcx dst, 0xD3, modrm_byte 0xC0 Rbp dst] cb"
  "emit_sar_rcx dst cb = emit_all [rex_byte Rcx dst, 0xD3, modrm_byte 0xC0 Rdi dst] cb"
  "emit_ret cb = emit_all [0xC3] cb"
  by (simp_all add: emit_mov_rr_def emit_mov_ri64_def emit_mov_ri32_def emit_push_def emit_pop_def emit_add_rr_def emit_sub_rr_def
      emit_and_rr_def emit_or_rr_def emit_xor_rr_def emit_imul_rr_def emit_load_mem_def emit_store_mem_def emit_add_rsp_i8_def
      emit_sub_rsp_i8_def emit_shl_rcx_def emit_shr_rcx_def emit_sar_rcx_def emit_ret_def emit_rex_all emit_modrm_all emit_mem_all
      emit_words emit_u8_all emit_all_all reg_prefix_def rex_byte_def emit_rex_w_def emit_rex_wb_def shift_modrm)
    (simp_all add: needs_rex_def word_le_nat_alt)

text \<open>Reading an immediate.\<close>

lemma take_le_bytes: "take 8 (le_bytes64 w @ rest) = le_bytes64 w" "take 4 (le_bytes32 v @ rest) = le_bytes32 v"
  by (simp_all add: take_append)

lemma scast_small:
  assumes "- 128 \<le> sint (off :: i32)" "sint off \<le> 127"
  shows "(scast (ucast off :: u8) :: u64) = scast off"
proof -
  have "(ucast off :: u8) = scast off" by (rule bit_word_eqI) (simp add: bit_simps)
  then have "(ucast off :: u8) = word_of_int (sint off)" by (rule trans [OF _ scast_eq])
  then have "sint (ucast off :: u8) = sint off"
    using assms by (simp only: int_word_sint) (simp add: signed_take_bit_int_eq_self)
  then show ?thesis by (metis of_int_sint)
qed

lemma decode_mem:
  assumes "enc base \<noteq> 4"
  shows "\<exists>m cs. mem_operand reg base off = m # cs \<and> modrm_mod m \<noteq> 3 \<and> modrm_reg m = enc reg \<and> modrm_rm m = enc base
    \<and> dec_disp m (cs @ rest) = Some (scast off, length cs)"
  using assms by (auto simp: mem_operand_def dec_disp_def scast_small take_le_bytes)

lemma opcode_fields [simp]:
  "(0x50 OR enc r) AND 0xF8 = 0x50" "(0x50 OR enc r) AND 7 = enc r" "(0x50 OR enc r) AND 0xF0 = 0x50"
  "(0x58 OR enc r) AND 0xF8 = 0x58" "(0x58 OR enc r) AND 7 = enc r" "(0x58 OR enc r) AND 0xF0 = 0x50"
  "(0xB8 OR enc r) AND 0xF8 = 0xB8" "(0xB8 OR enc r) AND 7 = enc r" "(0xB8 OR enc r) AND 0xF0 = 0xB0" "0xB8 OR enc r \<noteq> 0xC3"
  using enc_cases [of r] by auto

lemma decode_short [simp]:
  "x86_decode (reg_prefix r @ (0x50 OR enc r) # rest) = Some (Push r, length (reg_prefix r) + 1)"
  "x86_decode (reg_prefix r @ (0x58 OR enc r) # rest) = Some (Pop r, length (reg_prefix r) + 1)"
  "x86_decode (reg_prefix r @ (0xB8 OR enc r) # le_bytes32 v @ rest) = Some (MovI r (ucast v), length (reg_prefix r) + 5)"
  "x86_decode (rex_byte Rax r # (0xB8 OR enc r) # le_bytes64 w @ rest) = Some (MovI r w, 10)"
  "x86_decode (0xC3 # rest) = Some (Ret, 1)"
  "x86_decode (0x48 # 0x83 # 0xC4 # i # rest) = Some (AddI Rsp (scast i), 4)"
  "x86_decode (0x48 # 0x83 # 0xEC # i # rest) = Some (SubI Rsp (scast i), 4)"
  using reg_at_enc [of r]
  by (auto simp: reg_prefix_def x86_decode_def dec_op_def Let_def take_le_bytes reg_at_low dec_modrm_def modrm_mod_def modrm_reg_def
      modrm_rm_def alu_opcode_def reg_at_def)

lemma decode_regs [simp]:
  "x86_decode (rex_byte src dst # 0x89 # modrm_byte 0xC0 src dst # rest) = Some (MovR dst src, 3)"
  "x86_decode (rex_byte dst src # 0x03 # modrm_byte 0xC0 dst src # rest) = Some (Alu AluAdd dst src, 3)"
  "x86_decode (rex_byte dst src # 0x2B # modrm_byte 0xC0 dst src # rest) = Some (Alu AluSub dst src, 3)"
  "x86_decode (rex_byte dst src # 0x23 # modrm_byte 0xC0 dst src # rest) = Some (Alu AluAnd dst src, 3)"
  "x86_decode (rex_byte dst src # 0x0B # modrm_byte 0xC0 dst src # rest) = Some (Alu AluOr dst src, 3)"
  "x86_decode (rex_byte dst src # 0x33 # modrm_byte 0xC0 dst src # rest) = Some (Alu AluXor dst src, 3)"
  "x86_decode (rex_byte dst src # 0x0F # 0xAF # modrm_byte 0xC0 dst src # rest) = Some (Alu AluMul dst src, 4)"
  "x86_decode (rex_byte Rcx dst # 0xD3 # modrm_byte 0xC0 Rsp dst # rest) = Some (Shift ShiftLeft dst, 3)"
  "x86_decode (rex_byte Rcx dst # 0xD3 # modrm_byte 0xC0 Rbp dst # rest) = Some (Shift ShiftRight dst, 3)"
  "x86_decode (rex_byte Rcx dst # 0xD3 # modrm_byte 0xC0 Rdi dst # rest) = Some (Shift ShiftArith dst, 3)"
  by (simp_all add: x86_decode_def dec_op_def Let_def dec_modrm_def alu_opcode_def) (simp_all add: enc_def)

lemma decode_memory:
  assumes "enc base \<noteq> 4"
  shows "x86_decode (rex_byte dst base # 0x8B # mem_operand dst base off @ rest) = Some (Load dst base (scast off), 2 + length (mem_operand dst base off))"
    "x86_decode (rex_byte dst base # 0x89 # mem_operand dst base off @ rest) = Some (Store dst base (scast off), 2 + length (mem_operand dst base off))"
proof -
  obtain m cs where "mem_operand dst base off = m # cs" "modrm_mod m \<noteq> 3" "modrm_reg m = enc dst" "modrm_rm m = enc base"
    "dec_disp m (cs @ rest) = Some (scast off, length cs)"
    using decode_mem [OF assms] by blast
  then show "x86_decode (rex_byte dst base # 0x8B # mem_operand dst base off @ rest) = Some (Load dst base (scast off), 2 + length (mem_operand dst base off))"
    "x86_decode (rex_byte dst base # 0x89 # mem_operand dst base off @ rest) = Some (Store dst base (scast off), 2 + length (mem_operand dst base off))"
    by (simp_all add: x86_decode_def dec_op_def Let_def dec_modrm_def)
qed

text \<open>The bytes an emitter writes into a buffer with room.\<close>

definition code_of :: "(CodeBuf \<Rightarrow> CodeBuf) \<Rightarrow> bytes" where
  "code_of f = emitted (f (code_buf_new (replicate 16 0)))"

lemma code_of_all: "(\<And>cb. f cb = emit_all bs cb) \<Longrightarrow> length bs \<le> 16 \<Longrightarrow> code_of f = bs"
  using emit_all_frame [of "code_buf_new (replicate 16 0)" bs] by (simp add: code_of_def code_buf_new_def emitted_def)

lemma mem_operand_length: "length (mem_operand reg base off) \<le> 5" and reg_prefix_length: "length (reg_prefix r) \<le> 1"
  by (simp_all add: mem_operand_def reg_prefix_def)



end
