(* ===== verification/Jit_Compile.thy ===== *)
theory Jit_Compile
  imports Jit_Emit Numeric
begin

text \<open>
  The compiler of \<open>jit/compile.rs\<close>, which translates straight-line function bodies to machine code, and its correctness: the
  code, executed by the processor, computes what the body means on 64-bit cells, keeps the calling convention, and
  writes nothing but its stack and the locals. The results agree with those of the interpreter in their low 32 bits,
  except for the shifts, which are shown to differ.
\<close>

section \<open>The compiler\<close>

text \<open>\<open>(idx as usize).wrapping_mul(8) as i32\<close>\<close>

definition local_offset :: "u32 \<Rightarrow> i32" where
  "local_offset idx = ucast (8 * (ucast idx :: u64))"

definition emit_return :: "nat \<Rightarrow> CodeBuf \<Rightarrow> CodeBuf" where
  "emit_return result_count cb =
     (let cb = (if result_count > 0 then emit_pop Rax cb else cb);
          cb = emit_mov_rr Rsp R12 cb;
          cb = (if result_count = 0 then emit_mov_ri32 Rax 0 cb else cb) in
      emit_epilogue cb)"

text \<open>Pop the two operands, combine them, push the result.\<close>

definition emit_binary :: "(CodeBuf \<Rightarrow> CodeBuf) \<Rightarrow> CodeBuf \<Rightarrow> CodeBuf" where
  "emit_binary f cb = emit_push Rax (f (emit_pop Rax (emit_pop Rcx cb)))"

definition jit_binary :: "u8 \<Rightarrow> (CodeBuf \<Rightarrow> CodeBuf) option" where
  "jit_binary op =
     (if op = 0x6A then Some (emit_add_rr Rax Rcx)
      else if op = 0x6B then Some (emit_sub_rr Rax Rcx)
      else if op = 0x6C then Some (emit_imul_rr Rax Rcx)
      else if op = 0x71 then Some (emit_and_rr Rax Rcx)
      else if op = 0x72 then Some (emit_or_rr Rax Rcx)
      else if op = 0x73 then Some (emit_xor_rr Rax Rcx)
      else if op = 0x74 then Some (emit_shl_rcx Rax)
      else if op = 0x76 then Some (emit_shr_rcx Rax)
      else if op = 0x75 then Some (emit_sar_rcx Rax)
      else None)"

text \<open>The loop over the body; the list is what remains of it.\<close>

function compile_loop :: "nat \<Rightarrow> bytes \<Rightarrow> CodeBuf \<Rightarrow> bool \<times> CodeBuf" where
  "compile_loop rc [] cb = (True, emit_return rc cb)"
| "compile_loop rc (op # r) cb =
     (if op = 0x41 then
        (case read_i32_leb128 r of
           None \<Rightarrow> (False, cb)
         | Some (val, sz) \<Rightarrow> compile_loop rc (drop sz r) (emit_push Rax (emit_mov_ri64 Rax (scast val) cb)))
      else if op = 0x42 then
        (case read_i64_leb128 r of
           None \<Rightarrow> (False, cb)
         | Some (val, sz) \<Rightarrow> compile_loop rc (drop sz r) (emit_push Rax (emit_mov_ri64 Rax val cb)))
      else if op = 0x20 then
        (case read_u32_leb128 r of
           None \<Rightarrow> (False, cb)
         | Some (idx, sz) \<Rightarrow> compile_loop rc (drop sz r) (emit_push Rax (emit_load_mem Rax R13 (local_offset idx) cb)))
      else if op = 0x21 then
        (case read_u32_leb128 r of
           None \<Rightarrow> (False, cb)
         | Some (idx, sz) \<Rightarrow> compile_loop rc (drop sz r) (emit_store_mem Rax R13 (local_offset idx) (emit_pop Rax cb)))
      else if op = 0x22 then
        (case read_u32_leb128 r of
           None \<Rightarrow> (False, cb)
         | Some (idx, sz) \<Rightarrow> compile_loop rc (drop sz r) (emit_store_mem Rax R13 (local_offset idx) (emit_push Rax (emit_pop Rax cb))))
      else if op = 0x1A then compile_loop rc r (emit_add_rsp_i8 8 cb)
      else if op = 0x0F then (True, emit_return rc cb)
      else if op = 0x0B then (if r = [] then (True, emit_return rc cb) else (False, cb))
      else if op = 0x01 then compile_loop rc r cb
      else case jit_binary op of
        Some f \<Rightarrow> compile_loop rc r (emit_binary f cb)
      | None \<Rightarrow> (False, cb))"
  by pat_completeness auto
termination by (relation "measure (\<lambda>(rc, r, cb). length r)") auto

definition jit_compile_body :: "bytes \<Rightarrow> nat \<Rightarrow> nat \<Rightarrow> CodeBuf \<Rightarrow> bool \<times> CodeBuf" where
  "jit_compile_body body locals_count result_count cb =
     (if result_count > 1 then (False, cb)
      else compile_loop result_count body
        (emit_mov_rr R12 Rsp (emit_mov_rr R13 Rdx (emit_mov_rr R14 Rsi (emit_mov_rr R15 Rdi (emit_prologue cb))))))"

section \<open>Execution\<close>

text \<open>
  The processor: sixteen registers and a memory of 64-bit cells at addresses divisible by eight. Other addresses have no
  meaning here, and an instruction that uses one does not execute. The flags are left out, as no instruction of the
  subset reads them.
\<close>

record cpu =
  regs :: "Reg \<Rightarrow> u64"
  cells :: "u64 \<Rightarrow> u64"

definition aligned :: "u64 \<Rightarrow> bool" where
  "aligned a \<longleftrightarrow> a AND 7 = 0"

primrec alu :: "alu_op \<Rightarrow> u64 \<Rightarrow> u64 \<Rightarrow> u64" where
  "alu AluAdd a b = a + b" | "alu AluSub a b = a - b" | "alu AluAnd a b = a AND b" | "alu AluOr a b = a OR b"
| "alu AluXor a b = a XOR b" | "alu AluMul a b = a * b"

primrec shift :: "shift_op \<Rightarrow> u64 \<Rightarrow> u64 \<Rightarrow> u64" where
  "shift ShiftLeft a n = push_bit (shamt64 n) a"
| "shift ShiftRight a n = drop_bit (shamt64 n) a"
| "shift ShiftArith a n = signed_drop_bit (shamt64 n) a"

definition set_reg :: "Reg \<Rightarrow> u64 \<Rightarrow> cpu \<Rightarrow> cpu" where
  "set_reg r v c = c\<lparr>regs := (regs c)(r := v)\<rparr>"

primrec exec :: "ins \<Rightarrow> cpu \<Rightarrow> cpu option" where
  "exec (MovR d s) c = Some (set_reg d (regs c s) c)"
| "exec (MovI d v) c = Some (set_reg d v c)"
| "exec (Push r) c = (let a = regs c Rsp - 8 in
     if aligned a then Some (set_reg Rsp a (c\<lparr>cells := (cells c)(a := regs c r)\<rparr>)) else None)"
| "exec (Pop r) c = (let a = regs c Rsp in if aligned a then Some (set_reg r (cells c a) (set_reg Rsp (a + 8) c)) else None)"
| "exec (Alu f d s) c = Some (set_reg d (alu f (regs c d) (regs c s)) c)"
| "exec (Load d b k) c = (let a = regs c b + k in if aligned a then Some (set_reg d (cells c a) c) else None)"
| "exec (Store s b k) c = (let a = regs c b + k in if aligned a then Some (c\<lparr>cells := (cells c)(a := regs c s)\<rparr>) else None)"
| "exec (AddI r k) c = Some (set_reg r (regs c r + k) c)"
| "exec (SubI r k) c = Some (set_reg r (regs c r - k) c)"
| "exec (Shift f d) c = Some (set_reg d (shift f (regs c d) (regs c Rcx AND 0xFF)) c)"
| "exec Ret c = None"

text \<open>
  Execution of code from its first byte to a return: the address returned to, and the state there. Code that runs off its
  end or into bytes that do not decode has no result.
\<close>

lemma decode_length: "x86_decode bs = Some (i, n) \<Longrightarrow> 0 < n \<and> bs \<noteq> []"
  by (auto simp: x86_decode_def dec_op_def dec_modrm_def Let_def split: list.splits if_splits option.splits)

function x86_run :: "bytes \<Rightarrow> cpu \<Rightarrow> (u64 \<times> cpu) option" where
  "x86_run code c =
     (case x86_decode code of
        None \<Rightarrow> None
      | Some (i, n) \<Rightarrow>
          if i = Ret then (if aligned (regs c Rsp) then Some (cells c (regs c Rsp), set_reg Rsp (regs c Rsp + 8) c) else None)
          else (case exec i c of None \<Rightarrow> None | Some c' \<Rightarrow> x86_run (drop n code) c'))"
  by pat_completeness auto
termination
  by (relation "measure (\<lambda>(code, c). length code)") (auto dest: decode_length)

declare x86_run.simps [simp del]

section \<open>What a body means\<close>

text \<open>
  The straight-line bodies on a list of locals and an operand stack, for a given meaning of the binary opcodes. There is
  no result where the stack underflows, a local does not exist, or an opcode is not of the subset.
\<close>

function straight :: "(u8 \<Rightarrow> (i64 \<Rightarrow> i64 \<Rightarrow> i64) option) \<Rightarrow> bytes \<Rightarrow> i64 list \<Rightarrow> i64 list \<Rightarrow> (i64 list \<times> i64 list) option" where
  "straight B [] ls stk = Some (stk, ls)"
| "straight B (op # r) ls stk =
     (if op = 0x41 then (case read_i32_leb128 r of None \<Rightarrow> None | Some (v, n) \<Rightarrow> straight B (drop n r) ls (of_i32 v # stk))
      else if op = 0x42 then (case read_i64_leb128 r of None \<Rightarrow> None | Some (v, n) \<Rightarrow> straight B (drop n r) ls (v # stk))
      else if op = 0x20 then (case read_u32_leb128 r of None \<Rightarrow> None | Some (i, n) \<Rightarrow>
        if unat i < length ls then straight B (drop n r) ls (ls ! unat i # stk) else None)
      else if op = 0x21 then (case read_u32_leb128 r of None \<Rightarrow> None | Some (i, n) \<Rightarrow>
        (case stk of [] \<Rightarrow> None | v # s \<Rightarrow> if unat i < length ls then straight B (drop n r) (ls[unat i := v]) s else None))
      else if op = 0x22 then (case read_u32_leb128 r of None \<Rightarrow> None | Some (i, n) \<Rightarrow>
        (case stk of [] \<Rightarrow> None | v # s \<Rightarrow> if unat i < length ls then straight B (drop n r) (ls[unat i := v]) stk else None))
      else if op = 0x1A then (case stk of [] \<Rightarrow> None | v # s \<Rightarrow> straight B r ls s)
      else if op = 0x0F then Some (stk, ls)
      else if op = 0x0B then (if r = [] then Some (stk, ls) else None)
      else if op = 0x01 then straight B r ls stk
      else case B op of
        Some f \<Rightarrow> (case stk of b # a # s \<Rightarrow> straight B r ls (f a b # s) | _ \<Rightarrow> None)
      | None \<Rightarrow> None)"
  by pat_completeness auto
termination by (relation "measure (\<lambda>(B, r, ls, stk). length r)") auto

text \<open>The meaning the compiler gives to the binary opcodes, and that of the interpreter.\<close>

definition native_op :: "u8 \<Rightarrow> (i64 \<Rightarrow> i64 \<Rightarrow> i64) option" where
  "native_op op =
     (if op = 0x6A then Some (+) else if op = 0x6B then Some (-) else if op = 0x6C then Some (*)
      else if op = 0x71 then Some (AND) else if op = 0x72 then Some (OR) else if op = 0x73 then Some (XOR)
      else if op = 0x74 then Some (\<lambda>a b. push_bit (shamt64 b) a) else if op = 0x76 then Some (\<lambda>a b. drop_bit (shamt64 b) a)
      else if op = 0x75 then Some (\<lambda>a b. signed_drop_bit (shamt64 b) a) else None)"

section \<open>Frames of native code\<close>

definition slot :: "u64 \<Rightarrow> nat \<Rightarrow> u64" where "slot b k = b - 8 * word_of_nat k"
definition loc :: "u64 \<Rightarrow> nat \<Rightarrow> u64" where "loc l i = l + 8 * word_of_nat i"

lemma aligned_iff: "aligned a \<longleftrightarrow> uint a mod 8 = 0"
proof -
  have m: "a AND 7 = take_bit 3 a" by (simp add: take_bit_eq_mask mask_eq_exp_minus_1)
  have t: "take_bit 3 (uint a) = uint a mod 8" by (simp add: take_bit_eq_mod)
  have "uint (a AND 7) = take_bit 3 (uint a)" unfolding m by (rule unsigned_take_bit_eq)
  then have "uint (a AND 7) = uint a mod 8" unfolding t .
  then show ?thesis by (metis aligned_def uint_0_iff)
qed

lemma aligned_shift: "aligned a \<Longrightarrow> aligned (a + 8 * w)"
proof -
  have "uint (a + 8 * w) mod 8 = (uint a + 8 * uint w) mod 2 ^ 64 mod 8" by (simp add: uint_word_ariths mod_simps)
  also have "\<dots> = (uint a + 8 * uint w) mod 8" by (rule mod_mod_cancel) simp
  finally show "aligned a \<Longrightarrow> aligned (a + 8 * w)" by (simp add: aligned_iff)
qed

lemma aligned_slot [simp]: "aligned b \<Longrightarrow> aligned (slot b k)" and aligned_loc [simp]: "aligned l \<Longrightarrow> aligned (loc l i)"
  using aligned_shift [of b "- word_of_nat k"] by (simp_all add: slot_def loc_def aligned_shift)

lemma slot_step: "slot b k - 8 = slot b (Suc k)" "slot b (Suc k) + 8 = slot b k" "slot b 0 = b"
  by (simp_all add: slot_def algebra_simps)

lemma scaled_inj: "k < 2 ^ 61 \<Longrightarrow> k' < 2 ^ 61 \<Longrightarrow> (8 :: u64) * word_of_nat k = 8 * word_of_nat k' \<longleftrightarrow> k = k'"
proof -
  assume k: "k < 2 ^ 61" "k' < 2 ^ 61"
  have "unat ((8 :: u64) * word_of_nat j) = 8 * j" if "j < 2 ^ 61" for j
    using that unat_word_of_nat [of "8 * j", where 'a = 64] by simp
  with k show ?thesis by (metis mult_cancel1 zero_neq_numeral)
qed

lemma slot_inj: "k < 2 ^ 61 \<Longrightarrow> k' < 2 ^ 61 \<Longrightarrow> slot b k = slot b k' \<longleftrightarrow> k = k'"
  and loc_inj: "i < 2 ^ 61 \<Longrightarrow> i' < 2 ^ 61 \<Longrightarrow> loc l i = loc l i' \<longleftrightarrow> i = i'"
  by (simp_all add: slot_def loc_def scaled_inj)

text \<open>The stack cells below \<open>b\<close> and the locals at \<open>l\<close> are in different places.\<close>

definition layout :: "u64 \<Rightarrow> u64 \<Rightarrow> nat \<Rightarrow> nat \<Rightarrow> bool" where
  "layout b l n D \<longleftrightarrow> aligned b \<and> aligned l \<and> n \<le> 2 ^ 28 \<and> D < 2 ^ 60 \<and> (\<forall>i < n. \<forall>k. 1 \<le> k \<and> k \<le> D \<longrightarrow> loc l i \<noteq> slot b k)"

text \<open>The state of the processor in the middle of a body: the operand stack below \<open>b\<close>, the locals, the rest of the memory as it was.\<close>

definition body_state :: "u64 \<Rightarrow> u64 \<Rightarrow> nat \<Rightarrow> (u64 \<Rightarrow> u64) \<Rightarrow> i64 list \<Rightarrow> i64 list \<Rightarrow> cpu \<Rightarrow> bool" where
  "body_state b l D m ls stk c \<longleftrightarrow> regs c R12 = b \<and> regs c R13 = l \<and> regs c Rsp = slot b (length stk) \<and> length stk \<le> D
     \<and> (\<forall>i < length ls. cells c (loc l i) = ls ! i) \<and> (\<forall>i < length stk. cells c (slot b (length stk - i)) = stk ! i)
     \<and> (\<forall>a. a \<notin> loc l ` {..<length ls} \<and> a \<notin> slot b ` {1..D} \<longrightarrow> cells c a = m a)"

lemma exec_push:
  assumes "layout b l (length ls) D" "body_state b l D m ls stk c" "length stk < D" "r \<noteq> Rsp"
  shows "\<exists>c'. exec (Push r) c = Some c' \<and> body_state b l D m ls (regs c r # stk) c' \<and> (\<forall>q. q \<noteq> Rsp \<longrightarrow> regs c' q = regs c q)"
proof -
  have s: "regs c Rsp - 8 = slot b (Suc (length stk))" using assms(2) by (simp add: body_state_def slot_step)
  have ne: "slot b k \<noteq> slot b (Suc (length stk))" if "k \<le> length stk" for k
    using that assms(1,3) slot_inj [of k "Suc (length stk)" b] by (simp add: layout_def)
  have "loc l i \<noteq> slot b (Suc (length stk))" if "i < length ls" for i using that assms(1,3) by (simp add: layout_def)
  with s ne assms show ?thesis
    by (auto simp: layout_def body_state_def Let_def set_reg_def nth_Cons split: nat.splits)
qed

lemma exec_pop:
  assumes "layout b l (length ls) D" "body_state b l D m ls (v # stk) c" "r \<notin> {Rsp, R12, R13}"
  shows "\<exists>c'. exec (Pop r) c = Some c' \<and> body_state b l D m ls stk c' \<and> regs c' r = v \<and> (\<forall>q. q \<notin> {Rsp, r} \<longrightarrow> regs c' q = regs c q)"
proof -
  have "cells c (slot b (Suc (length stk) - 0)) = v" using assms(2) by (fastforce simp: body_state_def)
  moreover have "cells c (slot b (length stk - i)) = stk ! i" if "i < length stk" for i
    using assms(2) that by (auto simp: body_state_def dest!: spec [of _ "Suc i"])
  ultimately show ?thesis
    using assms by (auto simp: layout_def body_state_def Let_def set_reg_def slot_step)
qed

lemma local_offset_loc: "unat idx < 2 ^ 28 \<Longrightarrow> l + scast (local_offset idx) = loc l (unat idx)"
proof -
  assume i: "unat idx < 2 ^ 28"
  let ?n = "unat idx"
  have e: "(8 :: u64) * ucast idx = word_of_nat (8 * ?n)" by simp
  have u: "uint (local_offset idx) = int (8 * ?n)"
    using i unfolding local_offset_def e unsigned_ucast_eq unsigned_of_nat by (simp add: take_bit_nat_eq_self take_bit_int_eq_self)
  have "int ?n < int (2 ^ 28)" using i by (simp only: of_nat_less_iff)
  then have "8 * uint idx < 2 ^ 31" by simp
  moreover have "- (2 ^ 31) \<le> 8 * uint idx" by (rule order_trans [of _ 0]) simp_all
  ultimately have "signed_take_bit 31 (8 * uint idx) = 8 * uint idx" by (intro signed_take_bit_int_eq_self)
  with u have "sint (local_offset idx) = int (8 * ?n)" by (simp add: sint_uint)
  then have "(scast (local_offset idx) :: u64) = word_of_nat (8 * ?n)" by (metis of_int_sint of_int_of_nat_eq)
  then show ?thesis by (simp add: loc_def)
qed

lemma exec_load:
  assumes "layout b l (length ls) D" "body_state b l D m ls stk c" "unat i < length ls"
  shows "\<exists>c'. exec (Load Rax R13 (scast (local_offset i))) c = Some c' \<and> body_state b l D m ls stk c' \<and> regs c' Rax = ls ! unat i"
proof -
  have "l + scast (local_offset i) = loc l (unat i)" using assms(1,3) by (intro local_offset_loc) (simp add: layout_def)
  then show ?thesis using assms by (simp add: layout_def body_state_def Let_def set_reg_def)
qed

lemma exec_store:
  assumes "layout b l (length ls) D" "body_state b l D m ls stk c" "unat i < length ls"
  shows "\<exists>c'. exec (Store Rax R13 (scast (local_offset i))) c = Some c' \<and> body_state b l D m (ls[unat i := regs c Rax]) stk c'"
proof -
  have a: "l + scast (local_offset i) = loc l (unat i)" using assms(1,3) by (intro local_offset_loc) (simp add: layout_def)
  have "slot b k \<noteq> loc l (unat i)" if "1 \<le> k" "k \<le> length stk" for k
  proof -
    have "k \<le> D" using that(2) assms(2) by (simp add: body_state_def)
    with that(1) assms(1,3) show ?thesis unfolding layout_def by metis
  qed
  moreover have "loc l j \<noteq> loc l (unat i)" if "j < length ls" "j \<noteq> unat i" for j
    using that assms(1,3) loc_inj [of j "unat i" l] by (simp add: layout_def)
  ultimately show ?thesis
    using assms a by (auto simp: layout_def body_state_def Let_def nth_list_update)
qed

lemma exec_alu:
  assumes "body_state b l D m ls stk c" "exec i c = Some (set_reg Rax v c)"
  shows "\<exists>c'. exec i c = Some c' \<and> body_state b l D m ls stk c' \<and> regs c' Rax = v"
  using assms by (simp add: body_state_def set_reg_def)

lemma exec_drop:
  assumes "body_state b l D m ls (v # stk) c"
  shows "\<exists>c'. exec (AddI Rsp 8) c = Some c' \<and> body_state b l D m ls stk c'"
proof -
  have "cells c (slot b (length stk - i)) = stk ! i" if "i < length stk" for i
    using assms that by (auto simp: body_state_def dest!: spec [of _ "Suc i"])
  then show ?thesis using assms by (auto simp: body_state_def set_reg_def slot_step)
qed

section \<open>Pieces of code\<close>

text \<open>A piece of code that takes one state to another, whatever follows it.\<close>

definition runs :: "bytes \<Rightarrow> cpu \<Rightarrow> cpu \<Rightarrow> bool" where
  "runs code c c' \<longleftrightarrow> (\<forall>rest. x86_run (code @ rest) c = x86_run rest c')"

lemma runs_seq: "runs x c c' \<Longrightarrow> runs y c' c'' \<Longrightarrow> runs (x @ y) c c''"
  by (simp add: runs_def)

lemma runs_ins:
  assumes "\<And>rest. x86_decode (code @ rest) = Some (i, length code)" "i \<noteq> Ret" "exec i c = Some c'"
  shows "runs code c c'"
  using assms by (auto simp: runs_def x86_run.simps [of "code @ _"])

definition reg_code :: "u8 \<Rightarrow> Reg \<Rightarrow> bytes" where
  "reg_code k r = reg_prefix r @ [k OR enc r]"

lemma runs_basic:
  "exec (Push r) c = Some c' \<Longrightarrow> runs (reg_code 0x50 r) c c'"
  "exec (Pop r) c = Some c' \<Longrightarrow> runs (reg_code 0x58 r) c c'"
  "exec (MovR dst src) c = Some c' \<Longrightarrow> runs [rex_byte src dst, 0x89, modrm_byte 0xC0 src dst] c c'"
  "exec (MovI dst w) c = Some c' \<Longrightarrow> runs (rex_byte Rax dst # (0xB8 OR enc dst) # le_bytes64 w) c c'"
  "exec (MovI dst (ucast v)) c = Some c' \<Longrightarrow> runs (reg_prefix dst @ (0xB8 OR enc dst) # le_bytes32 v) c c'"
  "exec (AddI Rsp (scast k)) c = Some c' \<Longrightarrow> runs [0x48, 0x83, 0xC4, k] c c'"
  "exec (SubI Rsp (scast k)) c = Some c' \<Longrightarrow> runs [0x48, 0x83, 0xEC, k] c c'"
  "exec (Load Rax R13 (scast off)) c = Some c' \<Longrightarrow> runs (rex_byte Rax R13 # 0x8B # mem_operand Rax R13 off) c c'"
  "exec (Store Rax R13 (scast off)) c = Some c' \<Longrightarrow> runs (rex_byte Rax R13 # 0x89 # mem_operand Rax R13 off) c c'"
proof -
  have "enc R13 \<noteq> 4" by (simp add: enc_def)
  note dec = decode_memory [OF this, of Rax off]
  show "exec (Load Rax R13 (scast off)) c = Some c' \<Longrightarrow> runs (rex_byte Rax R13 # 0x8B # mem_operand Rax R13 off) c c'"
    "exec (Store Rax R13 (scast off)) c = Some c' \<Longrightarrow> runs (rex_byte Rax R13 # 0x89 # mem_operand Rax R13 off) c c'"
    by (erule runs_ins [rotated 2]; simp add: dec)+
qed (erule runs_ins [rotated 2]; simp add: reg_code_def)+

section \<open>Correctness of the body\<close>

definition epilogue :: bytes where
  "epilogue = [0x48, 0x83, 0xC4, 8] @ reg_code 0x58 R15 @ reg_code 0x58 R14 @ reg_code 0x58 R13 @ reg_code 0x58 R12
     @ reg_code 0x58 Rbx @ reg_code 0x58 Rbp @ [0xC3]"

lemma emit_epilogue_all: "emit_epilogue cb = emit_all epilogue cb"
  by (simp add: emit_epilogue_def emit_instructions emit_all_all epilogue_def reg_code_def)

text \<open>Where a body ends: the stack unwound, the result in \<open>Rax\<close>, the locals updated.\<close>

definition body_done :: "u64 \<Rightarrow> u64 \<Rightarrow> nat \<Rightarrow> (u64 \<Rightarrow> u64) \<Rightarrow> i64 list \<Rightarrow> i64 \<Rightarrow> cpu \<Rightarrow> bool" where
  "body_done b l D m ls v c \<longleftrightarrow> regs c Rsp = b \<and> regs c Rax = v \<and> (\<forall>i < length ls. cells c (loc l i) = ls ! i)
     \<and> (\<forall>a. a \<notin> loc l ` {..<length ls} \<and> a \<notin> slot b ` {1..D} \<longrightarrow> cells c a = m a)"

text \<open>A piece of code that ends in the epilogue, for every state in which the body has the given meaning.\<close>

definition piece :: "nat \<Rightarrow> bytes \<Rightarrow> bytes \<Rightarrow> bool" where
  "piece rc r code \<longleftrightarrow> (\<forall>b l D m ls stk c stk' ls'.
     layout b l (length ls) D \<and> body_state b l D m ls stk c \<and> length stk + length r \<le> D
     \<and> straight native_op r ls stk = Some (stk', ls') \<and> (rc = 1 \<longrightarrow> stk' \<noteq> [])
     \<longrightarrow> length ls' = length ls \<and> (\<exists>c' pre. code = pre @ epilogue \<and> runs pre c c' \<and> body_done b l D m ls' (if rc = 1 then hd stk' else 0) c'))"

lemma pieceI:
  assumes "\<And>b l D m ls stk c stk' ls'. layout b l (length ls) D \<Longrightarrow> body_state b l D m ls stk c \<Longrightarrow> length stk + length r \<le> D
     \<Longrightarrow> straight native_op r ls stk = Some (stk', ls') \<Longrightarrow> (rc = 1 \<Longrightarrow> stk' \<noteq> [])
     \<Longrightarrow> length ls' = length ls \<and> (\<exists>c' pre. code = pre @ epilogue \<and> runs pre c c' \<and> body_done b l D m ls' (if rc = 1 then hd stk' else 0) c')"
  shows "piece rc r code"
  unfolding piece_def using assms by blast

text \<open>A step of the body before a piece.\<close>

lemma piece_step:
  assumes "piece rc r' code"
    and "\<And>b l D m ls stk c stk' ls'. layout b l (length ls) D \<Longrightarrow> body_state b l D m ls stk c \<Longrightarrow> length stk + length r \<le> D
      \<Longrightarrow> straight native_op r ls stk = Some (stk', ls')
      \<Longrightarrow> \<exists>ls1 stk1 c1. straight native_op r' ls1 stk1 = Some (stk', ls') \<and> length ls1 = length ls \<and> length stk1 + length r' \<le> D
        \<and> body_state b l D m ls1 stk1 c1 \<and> runs chunk c c1"
  shows "piece rc r (chunk @ code)"
proof (rule pieceI)
  fix b l D m ls stk c stk' ls'
  assume a: "layout b l (length ls) D" "body_state b l D m ls stk c" "length stk + length r \<le> D"
    "straight native_op r ls stk = Some (stk', ls')" "rc = 1 \<Longrightarrow> stk' \<noteq> []"
  obtain ls1 stk1 c1 where s: "straight native_op r' ls1 stk1 = Some (stk', ls')" "length ls1 = length ls" "length stk1 + length r' \<le> D"
    "body_state b l D m ls1 stk1 c1" "runs chunk c c1" using assms(2) [OF a(1-4)] by blast
  moreover from this assms(1) a obtain c' pre where "length ls' = length ls1" "code = pre @ epilogue" "runs pre c1 c'"
      "body_done b l D m ls' (if rc = 1 then hd stk' else 0) c'"
    unfolding piece_def by metis
  ultimately show "length ls' = length ls \<and> (\<exists>c' pre. chunk @ code = pre @ epilogue \<and> runs pre c c'
      \<and> body_done b l D m ls' (if rc = 1 then hd stk' else 0) c')"
    using runs_seq by fastforce
qed

definition return_code :: "nat \<Rightarrow> bytes" where
  "return_code rc = (if rc > 0 then reg_code 0x58 Rax else []) @ [rex_byte R12 Rsp, 0x89, modrm_byte 0xC0 R12 Rsp]
     @ (if rc = 0 then reg_prefix Rax @ (0xB8 OR enc Rax) # le_bytes32 0 else []) @ epilogue"

lemma emit_return_all: "emit_return rc cb = emit_all (return_code rc) cb"
  by (simp add: emit_return_def return_code_def emit_instructions emit_epilogue_all emit_all_all Let_def reg_code_def)

lemma piece_return:
  assumes "rc \<le> 1" and "\<And>ls stk stk' ls'. straight native_op r ls stk = Some (stk', ls') \<Longrightarrow> stk' = stk \<and> ls' = ls"
  shows "piece rc r (return_code rc)"
proof (rule pieceI)
  fix b l D m ls stk c stk' ls'
  assume a: "layout b l (length ls) D" "body_state b l D m ls stk c" "straight native_op r ls stk = Some (stk', ls')" "rc = 1 \<Longrightarrow> stk' \<noteq> []"
  have e: "stk' = stk" "ls' = ls" using assms(2) [OF a(3)] by auto
  let ?mov = "[rex_byte R12 Rsp, 0x89, modrm_byte 0xC0 R12 Rsp]"
  have mov: "runs ?mov c1 (set_reg Rsp (regs c1 R12) c1)" for c1 by (rule runs_basic(3)) simp
  show "length ls' = length ls \<and> (\<exists>c' pre. return_code rc = pre @ epilogue \<and> runs pre c c' \<and> body_done b l D m ls' (if rc = 1 then hd stk' else 0) c')"
  proof (cases "rc = 0")
    case True
    have "runs (?mov @ reg_prefix Rax @ (0xB8 OR enc Rax) # le_bytes32 0) c (set_reg Rax 0 (set_reg Rsp (regs c R12) c))"
      by (rule runs_seq [OF mov]) (rule runs_basic(5), simp)
    moreover have "return_code rc = (?mov @ reg_prefix Rax @ (0xB8 OR enc Rax) # le_bytes32 0) @ epilogue" using True by (simp add: return_code_def)
    moreover have "body_done b l D m ls 0 (set_reg Rax 0 (set_reg Rsp (regs c R12) c))"
      using a(2) by (simp add: body_done_def body_state_def set_reg_def)
    ultimately show ?thesis using e True by fastforce
  next
    case False
    then have rc: "rc = 1" using assms(1) by simp
    then obtain v s where stk: "stk = v # s" using a(4) e by (cases stk) auto
    obtain c1 where c1: "exec (Pop Rax) c = Some c1" "body_state b l D m ls s c1" "regs c1 Rax = v"
      using exec_pop [OF a(1) a(2) [unfolded stk], of Rax] by auto
    have "runs (reg_code 0x58 Rax @ ?mov) c (set_reg Rsp (regs c1 R12) c1)"
      by (rule runs_seq [OF runs_basic(2) [OF c1(1)] mov])
    moreover have "return_code rc = (reg_code 0x58 Rax @ ?mov) @ epilogue" using rc by (simp add: return_code_def)
    moreover have "body_done b l D m ls v (set_reg Rsp (regs c1 R12) c1)"
      using c1 by (simp add: body_done_def body_state_def set_reg_def)
    ultimately show ?thesis using e rc stk by fastforce
  qed
qed

text \<open>The chunks for constants, locals and binary operations.\<close>

lemma exec_const:
  assumes "layout b l (length ls) D" "body_state b l D m ls stk c" "length stk < D"
  shows "\<exists>c'. runs (rex_byte Rax Rax # (0xB8 OR enc Rax) # le_bytes64 v @ reg_code 0x50 Rax) c c' \<and> body_state b l D m ls (v # stk) c'"
proof -
  have "body_state b l D m ls stk (set_reg Rax v c)" using assms(2) by (simp add: body_state_def set_reg_def)
  then obtain c' where "exec (Push Rax) (set_reg Rax v c) = Some c'" "body_state b l D m ls (v # stk) c'"
    using exec_push [OF assms(1) _ assms(3), of m "set_reg Rax v c" Rax] by (auto simp: set_reg_def)
  moreover have "runs (rex_byte Rax Rax # (0xB8 OR enc Rax) # le_bytes64 v) c (set_reg Rax v c)" by (rule runs_basic(4)) simp
  ultimately show ?thesis using runs_seq [OF _ runs_basic(1)] by fastforce
qed

lemma exec_get:
  assumes "layout b l (length ls) D" "body_state b l D m ls stk c" "length stk < D" "unat i < length ls"
  shows "\<exists>c'. runs (rex_byte Rax R13 # 0x8B # mem_operand Rax R13 (local_offset i) @ reg_code 0x50 Rax) c c'
    \<and> body_state b l D m ls (ls ! unat i # stk) c'"
proof -
  obtain c1 where c1: "exec (Load Rax R13 (scast (local_offset i))) c = Some c1" "body_state b l D m ls stk c1" "regs c1 Rax = ls ! unat i"
    using exec_load [OF assms(1,2,4)] by blast
  obtain c' where "exec (Push Rax) c1 = Some c'" "body_state b l D m ls (ls ! unat i # stk) c'"
    using exec_push [OF assms(1) c1(2) assms(3), of Rax] c1(3) by auto
  then show ?thesis using runs_seq [OF runs_basic(8) [OF c1(1)] runs_basic(1)] by fastforce
qed

lemma exec_set:
  assumes "layout b l (length ls) D" "body_state b l D m ls (v # stk) c" "unat i < length ls"
  shows "\<exists>c'. runs (reg_code 0x58 Rax @ rex_byte Rax R13 # 0x89 # mem_operand Rax R13 (local_offset i)) c c'
    \<and> body_state b l D m (ls[unat i := v]) stk c'"
proof -
  obtain c1 where c1: "exec (Pop Rax) c = Some c1" "body_state b l D m ls stk c1" "regs c1 Rax = v"
    using exec_pop [OF assms(1,2), of Rax] by auto
  obtain c' where "exec (Store Rax R13 (scast (local_offset i))) c1 = Some c'" "body_state b l D m (ls[unat i := v]) stk c'"
    using exec_store [OF assms(1) c1(2) assms(3)] c1(3) by auto
  then show ?thesis using runs_seq [OF runs_basic(2) [OF c1(1)] runs_basic(9)] by blast
qed

lemma exec_tee:
  assumes "layout b l (length ls) D" "body_state b l D m ls (v # stk) c" "unat i < length ls"
  shows "\<exists>c'. runs (reg_code 0x58 Rax @ reg_code 0x50 Rax @ rex_byte Rax R13 # 0x89 # mem_operand Rax R13 (local_offset i)) c c'
    \<and> body_state b l D m (ls[unat i := v]) (v # stk) c'"
proof -
  obtain c1 where c1: "exec (Pop Rax) c = Some c1" "body_state b l D m ls stk c1" "regs c1 Rax = v"
    using exec_pop [OF assms(1,2), of Rax] by auto
  have "length stk < D" using assms(2) by (simp add: body_state_def)
  then obtain c2 where c2: "exec (Push Rax) c1 = Some c2" "body_state b l D m ls (v # stk) c2" "regs c2 Rax = v"
    using exec_push [OF assms(1) c1(2), of Rax] c1(3) by auto
  obtain c' where "exec (Store Rax R13 (scast (local_offset i))) c2 = Some c'" "body_state b l D m (ls[unat i := v]) (v # stk) c'"
    using exec_store [OF assms(1) c2(2) assms(3)] c2(3) by auto
  then show ?thesis using runs_seq [OF runs_basic(2) [OF c1(1)] runs_seq [OF runs_basic(1) [OF c2(1)] runs_basic(9)]] by blast
qed

text \<open>The code of a binary opcode computes its native meaning.\<close>

lemma low_byte_shamt: "shamt64 (b AND 0xFF) = shamt64 b"
  by (simp add: shamt64_def and.assoc)

definition computes :: "(CodeBuf \<Rightarrow> CodeBuf) \<Rightarrow> (i64 \<Rightarrow> i64 \<Rightarrow> i64) \<Rightarrow> bool" where
  "computes f g \<longleftrightarrow> (\<exists>code i. (\<forall>cb. f cb = emit_all code cb) \<and> (\<forall>rest. x86_decode (code @ rest) = Some (i, length code)) \<and> i \<noteq> Ret
     \<and> (\<forall>c. exec i c = Some (set_reg Rax (g (regs c Rax) (regs c Rcx)) c)))"

lemma computesI:
  "(\<And>cb. f cb = emit_all code cb) \<Longrightarrow> (\<And>rest. x86_decode (code @ rest) = Some (i, length code)) \<Longrightarrow> i \<noteq> Ret
    \<Longrightarrow> (\<And>c. exec i c = Some (set_reg Rax (g (regs c Rax) (regs c Rcx)) c)) \<Longrightarrow> computes f g"
  unfolding computes_def by blast

lemma computes_binary:
  "computes (emit_add_rr Rax Rcx) (+)" "computes (emit_sub_rr Rax Rcx) (-)" "computes (emit_imul_rr Rax Rcx) (*)"
  "computes (emit_and_rr Rax Rcx) (AND)" "computes (emit_or_rr Rax Rcx) (OR)" "computes (emit_xor_rr Rax Rcx) (XOR)"
  "computes (emit_shl_rcx Rax) (\<lambda>a b. push_bit (shamt64 b) a)" "computes (emit_shr_rcx Rax) (\<lambda>a b. drop_bit (shamt64 b) a)"
  "computes (emit_sar_rcx Rax) (\<lambda>a b. signed_drop_bit (shamt64 b) a)"
proof -
  note rule = computesI [OF emit_instructions(6), where i = "Alu AluAdd Rax Rcx"] computesI [OF emit_instructions(7), where i = "Alu AluSub Rax Rcx"]
    computesI [OF emit_instructions(11), where i = "Alu AluMul Rax Rcx"] computesI [OF emit_instructions(8), where i = "Alu AluAnd Rax Rcx"]
    computesI [OF emit_instructions(9), where i = "Alu AluOr Rax Rcx"] computesI [OF emit_instructions(10), where i = "Alu AluXor Rax Rcx"]
    computesI [OF emit_instructions(16), where i = "Shift ShiftLeft Rax"] computesI [OF emit_instructions(17), where i = "Shift ShiftRight Rax"]
    computesI [OF emit_instructions(18), where i = "Shift ShiftArith Rax"]
  show "computes (emit_add_rr Rax Rcx) (+)" "computes (emit_sub_rr Rax Rcx) (-)" "computes (emit_imul_rr Rax Rcx) (*)"
    "computes (emit_and_rr Rax Rcx) (AND)" "computes (emit_or_rr Rax Rcx) (OR)" "computes (emit_xor_rr Rax Rcx) (XOR)"
    "computes (emit_shl_rcx Rax) (\<lambda>a b. push_bit (shamt64 b) a)" "computes (emit_shr_rcx Rax) (\<lambda>a b. drop_bit (shamt64 b) a)"
    "computes (emit_sar_rcx Rax) (\<lambda>a b. signed_drop_bit (shamt64 b) a)"
    by (rule rule; simp add: low_byte_shamt)+
qed

lemma native_binary: "jit_binary op = Some f \<Longrightarrow> \<exists>g. native_op op = Some g \<and> computes f g"
  by (auto simp: jit_binary_def native_op_def computes_binary split: if_splits)

lemma exec_binary:
  assumes "computes f g"
  shows "\<exists>code. (\<forall>cb. emit_binary f cb = emit_all code cb)
    \<and> (\<forall>b l D m ls x y stk c. layout b l (length ls) D \<and> body_state b l D m ls (y # x # stk) c
        \<longrightarrow> (\<exists>c'. runs code c c' \<and> body_state b l D m ls (g x y # stk) c'))"
proof -
  obtain mid i where i: "\<And>cb. f cb = emit_all mid cb" "\<And>rest. x86_decode (mid @ rest) = Some (i, length mid)" "i \<noteq> Ret"
    "\<And>c. exec i c = Some (set_reg Rax (g (regs c Rax) (regs c Rcx)) c)" using assms unfolding computes_def by blast
  let ?code = "reg_code 0x58 Rcx @ reg_code 0x58 Rax @ mid @ reg_code 0x50 Rax"
  have "\<exists>c'. runs ?code c c' \<and> body_state b l D m ls (g x y # stk) c'"
    if lay: "layout b l (length ls) D" and st: "body_state b l D m ls (y # x # stk) c" for b l D m ls x y stk c
  proof -
    obtain c1 where c1: "exec (Pop Rcx) c = Some c1" "body_state b l D m ls (x # stk) c1" "regs c1 Rcx = y"
      using exec_pop [OF lay st, of Rcx] by auto
    obtain c2 where c2: "exec (Pop Rax) c1 = Some c2" "body_state b l D m ls stk c2" "regs c2 Rax = x" "regs c2 Rcx = y"
      using exec_pop [OF lay c1(2), of Rax] c1(3) by auto
    obtain c3 where c3: "exec i c2 = Some c3" "body_state b l D m ls stk c3" "regs c3 Rax = g x y"
      using exec_alu [OF c2(2) i(4)] c2(3,4) by auto
    have "length stk < D" using st by (simp add: body_state_def)
    then obtain c4 where c4: "exec (Push Rax) c3 = Some c4" "body_state b l D m ls (g x y # stk) c4"
      using exec_push [OF lay c3(2), of Rax] c3(3) by auto
    have "runs ?code c c4"
      by (intro runs_seq [OF runs_basic(2) [OF c1(1)]] runs_seq [OF runs_basic(2) [OF c2(1)]] runs_seq [OF runs_ins [OF i(2,3) c3(1)]] runs_basic(1) c4(1))
    with c4(2) show ?thesis by blast
  qed
  moreover have "emit_binary f cb = emit_all ?code cb" for cb
    by (simp add: emit_binary_def i(1) emit_instructions emit_all_all reg_code_def)
  ultimately show ?thesis by blast
qed

text \<open>What the loop emits is a piece for the rest of the body.\<close>

definition const_code :: "i64 \<Rightarrow> bytes" where
  "const_code v = rex_byte Rax Rax # (0xB8 OR enc Rax) # le_bytes64 v @ reg_code 0x50 Rax"

definition store_code :: "u32 \<Rightarrow> bytes" where
  "store_code i = rex_byte Rax R13 # 0x89 # mem_operand Rax R13 (local_offset i)"

definition get_code :: "u32 \<Rightarrow> bytes" where
  "get_code i = rex_byte Rax R13 # 0x8B # mem_operand Rax R13 (local_offset i) @ reg_code 0x50 Rax"

lemma piece_i32:
  assumes "read_i32_leb128 r = Some (v, n)" "piece rc (drop n r) code"
  shows "piece rc (0x41 # r) (const_code (of_i32 v) @ code)"
proof (rule piece_step [OF assms(2)], goal_cases)
  case (1 b l D m ls stk c stk' ls')
  then show ?case using exec_const [OF 1(1,2), of "of_i32 v"] assms(1) read_i32_bounds [OF assms(1)] by (fastforce simp: const_code_def)
qed

lemma piece_i64:
  assumes "read_i64_leb128 r = Some (v, n)" "piece rc (drop n r) code"
  shows "piece rc (0x42 # r) (const_code v @ code)"
proof (rule piece_step [OF assms(2)], goal_cases)
  case (1 b l D m ls stk c stk' ls')
  then show ?case using exec_const [OF 1(1,2), of v] assms(1) read_i64_bounds [OF assms(1)] by (fastforce simp: const_code_def)
qed

lemma piece_get:
  assumes "read_u32_leb128 r = Some (i, n)" "piece rc (drop n r) code"
  shows "piece rc (0x20 # r) (get_code i @ code)"
proof (rule piece_step [OF assms(2)], goal_cases)
  case (1 b l D m ls stk c stk' ls')
  then have "unat i < length ls" using assms(1) by (simp split: if_splits)
  then show ?case using 1 exec_get [OF 1(1,2)] assms(1) read_u32_bounds [OF assms(1)] by (fastforce simp: get_code_def)
qed

lemma piece_set:
  assumes "read_u32_leb128 r = Some (i, n)" "piece rc (drop n r) code"
  shows "piece rc (0x21 # r) ((reg_code 0x58 Rax @ store_code i) @ code)"
proof (rule piece_step [OF assms(2)], goal_cases)
  case (1 b l D m ls stk c stk' ls')
  then obtain v s where s: "stk = v # s" "unat i < length ls" using assms(1) by (auto split: list.splits if_splits)
  then show ?case using 1 exec_set [OF 1(1) 1(2) [unfolded s(1)] s(2)] assms(1) by (fastforce simp: store_code_def)
qed

lemma piece_tee:
  assumes "read_u32_leb128 r = Some (i, n)" "piece rc (drop n r) code"
  shows "piece rc (0x22 # r) ((reg_code 0x58 Rax @ reg_code 0x50 Rax @ store_code i) @ code)"
proof (rule piece_step [OF assms(2)], goal_cases)
  case (1 b l D m ls stk c stk' ls')
  then obtain v s where s: "stk = v # s" "unat i < length ls" using assms(1) by (auto split: list.splits if_splits)
  then show ?case using 1 exec_tee [OF 1(1) 1(2) [unfolded s(1)] s(2)] assms(1) by (fastforce simp: store_code_def)
qed

lemma piece_drop:
  assumes "piece rc r code" shows "piece rc (0x1A # r) ([0x48, 0x83, 0xC4, 8] @ code)"
proof (rule piece_step [OF assms], goal_cases)
  case (1 b l D m ls stk c stk' ls')
  then obtain v s where s: "stk = v # s" by (auto split: list.splits)
  have "(scast (8 :: u8) :: u64) = 8" by simp
  then show ?case using 1 s exec_drop [OF 1(2) [unfolded s]] runs_basic(6) [of 8 c] by fastforce
qed

lemma piece_binary:
  assumes "native_op op = Some g" "op \<notin> {0x41, 0x42, 0x20, 0x21, 0x22, 0x1A, 0x0F, 0x0B, 0x01}" "piece rc r code"
    and "\<And>b l D m ls x y stk c. layout b l (length ls) D \<and> body_state b l D m ls (y # x # stk) c
        \<longrightarrow> (\<exists>c'. runs chunk c c' \<and> body_state b l D m ls (g x y # stk) c')"
  shows "piece rc (op # r) (chunk @ code)"
proof (rule piece_step [OF assms(3)], goal_cases)
  case (1 b l D m ls stk c stk' ls')
  then obtain y x s where s: "stk = y # x # s" "straight native_op r ls (g x y # s) = Some (stk', ls')"
    using assms(1,2) by (auto split: list.splits)
  then show ?case using 1 assms(4) [of b l ls D m y x s c] by fastforce
qed

text \<open>What the loop emits is a piece for the rest of the body.\<close>

lemma compile_loop_piece:
  "rc \<le> 1 \<Longrightarrow> compile_loop rc r cb = (True, cb') \<Longrightarrow> \<exists>code. cb' = emit_all code cb \<and> piece rc r code"
proof (induction rc r cb rule: compile_loop.induct)
  case (1 rc cb)
  then show ?case using emit_return_all piece_return [of rc "[]"] by auto
next
  case (2 rc op r cb)
  note rc = "2.prems"(1) and run = "2.prems"(2)
  have before: "\<exists>code. cb' = emit_all code cb \<and> piece rc (op # r) code"
    if "\<exists>code. cb' = emit_all code (emit_all chunk cb) \<and> piece rc r' code"
      "\<And>code. piece rc r' code \<Longrightarrow> piece rc (op # r) (chunk @ code)" for chunk r'
    using that by (auto simp: emit_all_all)
  consider "op = 0x41" | "op = 0x42" | "op = 0x20" | "op = 0x21" | "op = 0x22" | "op = 0x1A" | "op = 0x0F" | "op = 0x0B" | "op = 0x01"
    | "op \<notin> {0x41, 0x42, 0x20, 0x21, 0x22, 0x1A, 0x0F, 0x0B, 0x01}" by auto
  then show ?case
  proof cases
    case 1
    then obtain v n where v: "read_i32_leb128 r = Some (v, n)" using run by (auto split: option.splits)
    then have a: "\<exists>code. cb' = emit_all code (emit_push Rax (emit_mov_ri64 Rax (scast v) cb)) \<and> piece rc (drop n r) code"
      using "2.IH"(1) 1 rc run by auto
    have e: "emit_push Rax (emit_mov_ri64 Rax (scast v) cb) = emit_all (const_code (of_i32 v)) cb"
      by (simp add: emit_instructions emit_all_all reg_code_def of_i32_def const_code_def)
    show ?thesis by (rule before [OF a [unfolded e]]) (simp only: 1 piece_i32 [OF v])
  next
    case 2
    then obtain v n where v: "read_i64_leb128 r = Some (v, n)" using run by (auto split: option.splits)
    then have a: "\<exists>code. cb' = emit_all code (emit_push Rax (emit_mov_ri64 Rax v cb)) \<and> piece rc (drop n r) code"
      using "2.IH"(2) 2 rc run by auto
    have e: "emit_push Rax (emit_mov_ri64 Rax v cb) = emit_all (const_code v) cb"
      by (simp add: emit_instructions emit_all_all reg_code_def const_code_def get_code_def store_code_def)
    show ?thesis by (rule before [OF a [unfolded e]]) (simp only: 2 piece_i64 [OF v])
  next
    case 3
    then obtain v n where v: "read_u32_leb128 r = Some (v, n)" using run by (auto split: option.splits)
    then have a: "\<exists>code. cb' = emit_all code (emit_push Rax (emit_load_mem Rax R13 (local_offset v) cb)) \<and> piece rc (drop n r) code"
      using "2.IH"(3) 3 rc run by auto
    have e: "emit_push Rax (emit_load_mem Rax R13 (local_offset v) cb) = emit_all (get_code v) cb"
      by (simp add: emit_instructions emit_all_all reg_code_def const_code_def get_code_def store_code_def)
    show ?thesis by (rule before [OF a [unfolded e]]) (simp only: 3 piece_get [OF v])
  next
    case 4
    then obtain v n where v: "read_u32_leb128 r = Some (v, n)" using run by (auto split: option.splits)
    then have a: "\<exists>code. cb' = emit_all code (emit_store_mem Rax R13 (local_offset v) (emit_pop Rax cb)) \<and> piece rc (drop n r) code"
      using "2.IH"(4) 4 rc run by auto
    have e: "emit_store_mem Rax R13 (local_offset v) (emit_pop Rax cb) = emit_all (reg_code 0x58 Rax @ store_code v) cb"
      by (simp add: emit_instructions emit_all_all reg_code_def const_code_def get_code_def store_code_def)
    show ?thesis by (rule before [OF a [unfolded e]]) (simp only: 4 piece_set [OF v])
  next
    case 5
    then obtain v n where v: "read_u32_leb128 r = Some (v, n)" using run by (auto split: option.splits)
    then have a: "\<exists>code. cb' = emit_all code (emit_store_mem Rax R13 (local_offset v) (emit_push Rax (emit_pop Rax cb))) \<and> piece rc (drop n r) code"
      using "2.IH"(5) 5 rc run by auto
    have e: "emit_store_mem Rax R13 (local_offset v) (emit_push Rax (emit_pop Rax cb)) = emit_all (reg_code 0x58 Rax @ reg_code 0x50 Rax @ store_code v) cb"
      by (simp add: emit_instructions emit_all_all reg_code_def const_code_def get_code_def store_code_def)
    show ?thesis by (rule before [OF a [unfolded e]]) (simp only: 5 piece_tee [OF v])
  next
    case 6
    then have "\<exists>code. cb' = emit_all code (emit_add_rsp_i8 8 cb) \<and> piece rc r code" using "2.IH"(6) rc run by auto
    then show ?thesis using before piece_drop 6 by (simp only: emit_instructions(14))
  next
    case 7
    then show ?thesis using run rc piece_return [of rc "op # r"] by (auto simp: emit_return_all)
  next
    case 8
    then show ?thesis using run rc piece_return [of rc "op # r"] by (auto simp: emit_return_all split: if_splits)
  next
    case 9
    then have "\<exists>code. cb' = emit_all code cb \<and> piece rc r code" using "2.IH"(7) rc run by auto
    moreover have "piece rc (op # r) code" if "piece rc r code" for code
      using piece_step [OF that, of "op # r" "[]"] 9 by (fastforce simp: runs_def)
    ultimately show ?thesis by blast
  next
    case 10
    then obtain f where f: "jit_binary op = Some f" using run by (auto split: option.splits)
    obtain g where g: "native_op op = Some g" "computes f g" using native_binary [OF f] by blast
    obtain chunk where chunk: "\<And>cb. emit_binary f cb = emit_all chunk cb"
      "\<And>b l D m ls x y stk c. layout b l (length ls) D \<and> body_state b l D m ls (y # x # stk) c
        \<longrightarrow> (\<exists>c'. runs chunk c c' \<and> body_state b l D m ls (g x y # stk) c')" using exec_binary [OF g(2)] by blast
    have "\<exists>code. cb' = emit_all code (emit_binary f cb) \<and> piece rc r code" using "2.IH"(8) 10 f rc run by auto
    then show ?thesis using before [of chunk r] piece_binary [OF g(1) 10 _ chunk(2)] by (simp add: chunk(1))
  qed
qed

section \<open>Correctness of a function\<close>

definition mov_code :: "Reg \<Rightarrow> Reg \<Rightarrow> bytes" where
  "mov_code dst src = [rex_byte src dst, 0x89, modrm_byte 0xC0 src dst]"

definition prologue :: bytes where
  "prologue = reg_code 0x50 Rbp @ mov_code Rbp Rsp @ reg_code 0x50 Rbx @ reg_code 0x50 R12 @ reg_code 0x50 R13 @ reg_code 0x50 R14
     @ reg_code 0x50 R15 @ [0x48, 0x83, 0xEC, 8] @ mov_code R15 Rdi @ mov_code R14 Rsi @ mov_code R13 Rdx @ mov_code R12 Rsp"

lemma emit_prologue_all:
  "emit_mov_rr R12 Rsp (emit_mov_rr R13 Rdx (emit_mov_rr R14 Rsi (emit_mov_rr R15 Rdi (emit_prologue cb)))) = emit_all prologue cb"
  by (simp add: emit_prologue_def emit_instructions emit_all_all prologue_def reg_code_def mov_code_def)

lemma runs_mov: "runs (mov_code dst src) c (set_reg dst (regs c src) c)"
  unfolding mov_code_def by (rule runs_basic(3)) simp

text \<open>Pushing and popping at a known depth below \<open>b\<close>.\<close>

definition pushed :: "u64 \<Rightarrow> nat \<Rightarrow> Reg \<Rightarrow> cpu \<Rightarrow> cpu" where
  "pushed b k r c = c\<lparr>regs := (regs c)(Rsp := slot b (Suc k)), cells := (cells c)(slot b (Suc k) := regs c r)\<rparr>"

definition popped :: "u64 \<Rightarrow> nat \<Rightarrow> Reg \<Rightarrow> cpu \<Rightarrow> cpu" where
  "popped b k r c = c\<lparr>regs := (regs c)(Rsp := slot b k, r := cells c (slot b (Suc k)))\<rparr>"

lemma runs_pushed: "aligned b \<Longrightarrow> regs c Rsp = slot b k \<Longrightarrow> runs (reg_code 0x50 r) c (pushed b k r c)"
  by (rule runs_basic(1)) (simp add: Let_def set_reg_def pushed_def slot_step)

lemma runs_popped: "aligned b \<Longrightarrow> regs c Rsp = slot b (Suc k) \<Longrightarrow> runs (reg_code 0x58 r) c (popped b k r c)"
  by (rule runs_basic(2)) (simp add: Let_def set_reg_def popped_def slot_step)

lemma runs_add_sub: "runs [0x48, 0x83, 0xC4, 8] c (set_reg Rsp (regs c Rsp + 8) c)" "runs [0x48, 0x83, 0xEC, 8] c (set_reg Rsp (regs c Rsp - 8) c)"
  using runs_basic(6) [of 8 c] runs_basic(7) [of 8 c] by simp_all

lemma prologue_runs:
  assumes "aligned sp" "regs c Rsp = sp"
  shows "\<exists>c0. runs prologue c c0 \<and> regs c0 Rsp = slot sp 7 \<and> regs c0 R12 = slot sp 7 \<and> regs c0 R13 = regs c Rdx
    \<and> cells c0 = (cells c)(slot sp 1 := regs c Rbp, slot sp 2 := regs c Rbx, slot sp 3 := regs c R12, slot sp 4 := regs c R13,
        slot sp 5 := regs c R14, slot sp 6 := regs c R15)"
proof -
  define c1 where "c1 = pushed sp 0 Rbp c"
  define c2 where "c2 = set_reg Rbp (regs c1 Rsp) c1"
  define c3 where "c3 = pushed sp 1 Rbx c2"
  define c4 where "c4 = pushed sp 2 R12 c3"
  define c5 where "c5 = pushed sp 3 R13 c4"
  define c6 where "c6 = pushed sp 4 R14 c5"
  define c7 where "c7 = pushed sp 5 R15 c6"
  define c8 where "c8 = set_reg Rsp (regs c7 Rsp - 8) c7"
  define c9 where "c9 = set_reg R15 (regs c8 Rdi) c8"
  define c10 where "c10 = set_reg R14 (regs c9 Rsi) c9"
  define c11 where "c11 = set_reg R13 (regs c10 Rdx) c10"
  define c12 where "c12 = set_reg R12 (regs c11 Rsp) c11"
  note defs = c12_def c11_def c10_def c9_def c8_def c7_def c6_def c5_def c4_def c3_def c2_def c1_def pushed_def set_reg_def
  have z: "regs c Rsp = slot sp 0" using assms(2) by (simp add: slot_def)
  note push = runs_pushed [OF assms(1)]
  have "runs (reg_code 0x50 Rbp) c c1" unfolding c1_def by (rule push [OF z])
  moreover have "runs (mov_code Rbp Rsp) c1 c2" unfolding c2_def by (rule runs_mov)
  moreover have "runs (reg_code 0x50 Rbx) c2 c3" unfolding c3_def by (rule push) (simp add: c2_def c1_def pushed_def set_reg_def)
  moreover have "runs (reg_code 0x50 R12) c3 c4" unfolding c4_def by (rule push) (simp add: c3_def pushed_def numeral_eq_Suc)
  moreover have "runs (reg_code 0x50 R13) c4 c5" unfolding c5_def by (rule push) (simp add: c4_def pushed_def numeral_eq_Suc)
  moreover have "runs (reg_code 0x50 R14) c5 c6" unfolding c6_def by (rule push) (simp add: c5_def pushed_def numeral_eq_Suc)
  moreover have "runs (reg_code 0x50 R15) c6 c7" unfolding c7_def by (rule push) (simp add: c6_def pushed_def numeral_eq_Suc)
  moreover have "runs [0x48, 0x83, 0xEC, 8] c7 c8" unfolding c8_def by (rule runs_add_sub)
  moreover have "runs (mov_code R15 Rdi) c8 c9" "runs (mov_code R14 Rsi) c9 c10" "runs (mov_code R13 Rdx) c10 c11" "runs (mov_code R12 Rsp) c11 c12"
    unfolding c9_def c10_def c11_def c12_def by (rule runs_mov)+
  ultimately have "runs prologue c c12" unfolding prologue_def by (blast intro: runs_seq)
  moreover have "slot sp 6 - 8 = slot sp 7" using slot_step(1) [of sp 6] by simp
  ultimately show ?thesis
    by (intro exI [of _ c12]) (simp add: defs, simp add: numeral_eq_Suc)
qed

lemma epilogue_runs:
  assumes "aligned sp" "regs c Rsp = slot sp 7"
  shows "\<exists>c'. x86_run (epilogue @ rest) c = Some (cells c sp, c') \<and> regs c' Rsp = sp + 8 \<and> regs c' Rax = regs c Rax \<and> cells c' = cells c
    \<and> regs c' R15 = cells c (slot sp 6) \<and> regs c' R14 = cells c (slot sp 5) \<and> regs c' R13 = cells c (slot sp 4)
    \<and> regs c' R12 = cells c (slot sp 3) \<and> regs c' Rbx = cells c (slot sp 2) \<and> regs c' Rbp = cells c (slot sp 1)"
proof -
  define c1 where "c1 = set_reg Rsp (regs c Rsp + 8) c"
  define c2 where "c2 = popped sp 5 R15 c1"
  define c3 where "c3 = popped sp 4 R14 c2"
  define c4 where "c4 = popped sp 3 R13 c3"
  define c5 where "c5 = popped sp 2 R12 c4"
  define c6 where "c6 = popped sp 1 Rbx c5"
  define c7 where "c7 = popped sp 0 Rbp c6"
  note defs = c7_def c6_def c5_def c4_def c3_def c2_def c1_def popped_def set_reg_def
  note pop = runs_popped [OF assms(1)]
  have s6: "slot sp 7 + 8 = slot sp 6" using slot_step(2) [of sp 6] by simp
  have "runs [0x48, 0x83, 0xC4, 8] c c1" unfolding c1_def by (rule runs_add_sub)
  moreover have "runs (reg_code 0x58 R15) c1 c2" unfolding c2_def by (rule pop) (simp add: c1_def set_reg_def assms(2) s6)
  moreover have "runs (reg_code 0x58 R14) c2 c3" unfolding c3_def by (rule pop) (simp add: c2_def popped_def)
  moreover have "runs (reg_code 0x58 R13) c3 c4" unfolding c4_def by (rule pop) (simp add: c3_def popped_def)
  moreover have "runs (reg_code 0x58 R12) c4 c5" unfolding c5_def by (rule pop) (simp add: c4_def popped_def)
  moreover have "runs (reg_code 0x58 Rbx) c5 c6" unfolding c6_def by (rule pop) (simp add: c5_def popped_def numeral_eq_Suc)
  moreover have "runs (reg_code 0x58 Rbp) c6 c7" unfolding c7_def by (rule pop) (simp add: c6_def popped_def)
  ultimately have "runs ([0x48, 0x83, 0xC4, 8] @ reg_code 0x58 R15 @ reg_code 0x58 R14 @ reg_code 0x58 R13 @ reg_code 0x58 R12
     @ reg_code 0x58 Rbx @ reg_code 0x58 Rbp) c c7" by (blast intro: runs_seq)
  then have "x86_run (epilogue @ rest) c = x86_run ([0xC3] @ rest) c7" by (simp add: runs_def epilogue_def)
  also have "\<dots> = Some (cells c7 sp, set_reg Rsp (sp + 8) c7)"
  proof -
    have sp: "regs c7 Rsp = sp" by (simp add: c7_def popped_def slot_def)
    show ?thesis using assms(1) by (simp add: x86_run.simps [of "0xC3 # rest"] sp)
  qed
  finally show ?thesis
    by (simp add: defs numeral_eq_Suc)
qed

lemma emitted_take: "emitted (emit_all bs (code_buf_new buf)) = take (length buf) bs"
  using emit_all_frame [of "code_buf_new buf" bs] by (simp_all add: code_buf_new_def emitted_def)

lemma emitted_fits:
  assumes "cursor (emit_all bs (code_buf_new buf)) < length buf"
  shows "emitted (emit_all bs (code_buf_new buf)) = bs"
proof -
  note e = emitted_take [of bs buf]
  have len: "length (cbuf (emit_all bs (code_buf_new buf))) = length buf"
    using emit_all_frame [of "code_buf_new buf" bs] by (simp add: code_buf_new_def)
  have "length (emitted (emit_all bs (code_buf_new buf))) = cursor (emit_all bs (code_buf_new buf))"
    using assms len by (simp add: emitted_def)
  with assms e have "min (length bs) (length buf) < length buf" by simp
  then show ?thesis using e by (simp add: min_less_iff_disj)
qed

lemma native_code_runs:
  assumes "jit_compile_body body n rc (code_buf_new buf) = (True, cb)" and "code_len cb < length buf"
    and "straight native_op body ls [] = Some (stk, ls')" and "rc = 1 \<longrightarrow> stk \<noteq> []"
    and "regs c Rsp = sp" and "regs c Rdx = l" and "\<forall>i < length ls. cells c (loc l i) = ls ! i"
    and "aligned sp" and "aligned l" and "length ls \<le> 2 ^ 28" and "length body < 2 ^ 59"
    and "\<forall>i < length ls. \<forall>k \<le> length body + 7. loc l i \<noteq> slot sp k"
  shows "\<exists>c'. x86_run (emitted cb) c = Some (cells c sp, c') \<and> regs c' Rax = (if rc = 1 then hd stk else 0)
    \<and> regs c' Rsp = sp + 8 \<and> (\<forall>r \<in> {Rbx, Rbp, R12, R13, R14, R15}. regs c' r = regs c r)
    \<and> (\<forall>i < length ls. cells c' (loc l i) = ls' ! i)
    \<and> (\<forall>a. a \<notin> loc l ` {..<length ls} \<and> a \<notin> slot sp ` {1..length body + 7} \<longrightarrow> cells c' a = cells c a)"
proof -
  let ?D = "length body" and ?b = "slot sp 7"
  have rc: "rc \<le> 1" using assms(1) by (auto simp: jit_compile_body_def split: if_splits)
  have "compile_loop rc body (emit_all prologue (code_buf_new buf)) = (True, cb)"
    using assms(1) rc by (simp add: jit_compile_body_def emit_prologue_all)
  then obtain code where code: "cb = emit_all code (emit_all prologue (code_buf_new buf))" "piece rc body code"
    using compile_loop_piece [OF rc] by blast
  have em: "emitted cb = prologue @ code"
    using emitted_fits [of "prologue @ code" buf] code(1) assms(2) by (simp add: emit_all_all code_len_def)
  have deeper: "slot ?b k = slot sp (k + 7)" for k by (simp add: slot_def algebra_simps)
  obtain c0 where c0: "runs prologue c c0" "regs c0 Rsp = ?b" "regs c0 R12 = ?b" "regs c0 R13 = l"
    "cells c0 = (cells c)(slot sp 1 := regs c Rbp, slot sp 2 := regs c Rbx, slot sp 3 := regs c R12, slot sp 4 := regs c R13,
        slot sp 5 := regs c R14, slot sp 6 := regs c R15)"
    using prologue_runs [OF assms(8,5)] assms(6) by blast
  have saved: "cells c0 a = cells c a" if "a \<notin> slot sp ` {1..6}" for a using that by (auto simp: c0(5))
  have lay: "layout ?b l (length ls) ?D"
    using assms(8-12) by (auto simp: layout_def deeper)
  have off: "loc l i \<notin> slot sp ` {1..6}" if "i < length ls" for i using assms(12) that by fastforce
  have st: "body_state ?b l ?D (cells c0) ls [] c0"
    using c0(2-4) assms(7) saved [OF off] by (simp add: body_state_def slot_step(3))
  obtain c1 pre where c1: "length ls' = length ls" "code = pre @ epilogue" "runs pre c0 c1"
    "body_done ?b l ?D (cells c0) ls' (if rc = 1 then hd stk else 0) c1"
    using code(2) [unfolded piece_def, rule_format, of ?b l ls ?D "cells c0" "[]" c0 stk ls'] lay st assms(3,4) by auto
  have keep: "cells c1 a = cells c0 a" if "a \<notin> loc l ` {..<length ls}" "a \<notin> slot sp ` {8..?D + 7}" for a
  proof -
    have "a \<notin> slot ?b ` {1..?D}" using that(2) by (force simp: deeper)
    with c1(1,4) that(1) show ?thesis by (simp add: body_done_def)
  qed
  have low: "slot sp k \<notin> loc l ` {..<length ls} \<and> slot sp k \<notin> slot sp ` {8..?D + 7}" if "k \<le> 7" for k
  proof -
    have "k \<noteq> j \<longrightarrow> slot sp k \<noteq> slot sp j" if "j \<le> ?D + 7" for j
      using slot_inj [of k j sp] \<open>k \<le> 7\<close> that assms(11) by simp
    then have "slot sp k \<notin> slot sp ` {8..?D + 7}" using that by fastforce
    moreover have "loc l i \<noteq> slot sp k" if "i < length ls" for i using assms(12) that \<open>k \<le> 7\<close> by simp
    ultimately show ?thesis by (metis imageE lessThan_iff)
  qed
  have dist: "slot sp j \<noteq> slot sp k" if "j \<le> 7" "k \<le> 7" "j \<noteq> k" for j k using slot_inj [of j k sp] that by simp
  have m: "cells c0 sp = cells c sp" "cells c0 (slot sp 1) = regs c Rbp" "cells c0 (slot sp 2) = regs c Rbx" "cells c0 (slot sp 3) = regs c R12"
    "cells c0 (slot sp 4) = regs c R13" "cells c0 (slot sp 5) = regs c R14" "cells c0 (slot sp 6) = regs c R15"
    using dist [of 0] dist by (simp_all add: c0(5) slot_step(3))
  have k: "cells c1 (slot sp k) = cells c0 (slot sp k)" if "k \<le> 7" for k using keep low [OF that] by blast
  obtain c' where c': "x86_run (epilogue @ []) c1 = Some (cells c1 sp, c')" "regs c' Rsp = sp + 8" "regs c' Rax = regs c1 Rax" "cells c' = cells c1"
    "regs c' R15 = cells c1 (slot sp 6)" "regs c' R14 = cells c1 (slot sp 5)" "regs c' R13 = cells c1 (slot sp 4)"
    "regs c' R12 = cells c1 (slot sp 3)" "regs c' Rbx = cells c1 (slot sp 2)" "regs c' Rbp = cells c1 (slot sp 1)"
    using epilogue_runs [OF assms(8), of c1 "[]"] c1(4) by (auto simp: body_done_def)
  have "x86_run (emitted cb) c = Some (cells c sp, c')"
    using c0(1) c1(3) c'(1) k [of 0] m(1) by (simp add: em c1(2) runs_def slot_step(3))
  moreover have "cells c' a = cells c a" if "a \<notin> loc l ` {..<length ls}" "a \<notin> slot sp ` {1..?D + 7}" for a
    using that keep [of a] saved [of a] by (force simp: c'(4))
  moreover have "\<forall>i < length ls. cells c' (loc l i) = ls' ! i" "regs c' Rax = (if rc = 1 then hd stk else 0)"
    using c1(1,4) by (simp_all add: c'(3,4) body_done_def)
  ultimately show ?thesis using c' k m by simp
qed

text \<open>
  C26: The compiler is correct. If it accepts a body and its code fits the buffer, and the body has a meaning on the locals of
  the caller, then calling the code returns to the caller: with the result in \<open>Rax\<close>, the locals updated, the
  registers that a function must keep unchanged, and no memory written but the locals and a stack area of seven cells
  and one for each byte of the body.
\<close>

theorem native_code_correct:
  assumes "jit_compile_body body n rc (code_buf_new buf) = (True, cb)" and "code_len cb < length buf"
    and "straight native_op body ls [] = Some (stk, ls')" and "rc = 1 \<longrightarrow> stk \<noteq> []"
    and "regs c Rsp = sp" and "regs c Rdx = l" and "\<forall>i < length ls. cells c (loc l i) = ls ! i"
    and "aligned sp" and "aligned l" and "length ls \<le> 2 ^ 28" and "length body < 2 ^ 59"
    and "\<forall>i < length ls. \<forall>k \<le> length body + 7. loc l i \<noteq> slot sp k"
  shows "\<exists>c'. x86_run (emitted cb) c = Some (cells c sp, c') \<and> regs c' Rax = (if rc = 1 then hd stk else 0)
    \<and> regs c' Rsp = sp + 8 \<and> (\<forall>r \<in> {Rbx, Rbp, R12, R13, R14, R15}. regs c' r = regs c r)
    \<and> (\<forall>i < length ls. cells c' (loc l i) = ls' ! i)
    \<and> (\<forall>a. a \<notin> loc l ` {..<length ls} \<and> a \<notin> slot sp ` {1..length body + 7} \<longrightarrow> cells c' a = cells c a)"
  using assms by (rule native_code_runs)

text \<open>An example: the sum of two locals.\<close>

lemma cursor_emit_all: "cursor (emit_all bs (code_buf_new buf)) = min (length bs) (length buf)"
proof -
  have "length (emitted (emit_all bs (code_buf_new buf))) = min (length bs) (length buf)"
    "length (cbuf (emit_all bs (code_buf_new buf))) = length buf" "cursor (emit_all bs (code_buf_new buf)) \<le> length buf"
    using emit_all_frame [of "code_buf_new buf" bs] by (simp_all add: code_buf_new_def emitted_def)
  then show ?thesis by (simp add: emitted_def)
qed

definition demo_cpu :: cpu where
  "demo_cpu = \<lparr>regs = (\<lambda>_. 0)(Rsp := 0x10000, Rdx := 0x20000), cells = (\<lambda>_. 0)(0x20000 := 5, 0x20008 := 7, 0x10000 := 0x400000)\<rparr>"

definition demo_body :: bytes where
  "demo_body = [0x20, 0, 0x20, 1, 0x6A, 0x0B]"

lemma demo_compiles: "\<exists>code. (\<forall>cb. jit_compile_body demo_body 2 1 cb = (True, emit_all code cb)) \<and> length code < 100 \<and> 40 < length code"
  using mem_operand_length [of Rax R13 "local_offset 0"] mem_operand_length [of Rax R13 "local_offset 1"]
  by (simp add: jit_compile_body_def demo_body_def emit_prologue_def read_u32_leb128_def jit_binary_def emit_binary_def emit_return_all
      emit_instructions emit_all_all)
    (rule exI, rule conjI, rule allI, rule refl, simp add: prologue_def reg_code_def reg_prefix_def mov_code_def return_code_def epilogue_def
      needs_rex_def word_le_nat_alt)

lemma demo_apart: "i < 2 \<Longrightarrow> k \<le> 13 \<Longrightarrow> loc 0x20000 i \<noteq> slot 0x10000 k"
proof -
  assume "i < 2" "k \<le> 13"
  then have "i = 0 \<or> i = 1" "k = 0 \<or> k = 1 \<or> k = 2 \<or> k = 3 \<or> k = 4 \<or> k = 5 \<or> k = 6 \<or> k = 7 \<or> k = 8 \<or> k = 9 \<or> k = 10
    \<or> k = 11 \<or> k = 12 \<or> k = 13" by arith+
  then show ?thesis by (auto simp: loc_def slot_def)
qed

theorem native_code_correct_witness:
  "\<exists>cb c'. jit_compile_body demo_body 2 1 (code_buf_new (replicate 100 0)) = (True, cb)
    \<and> x86_run (emitted cb) demo_cpu = Some (0x400000, c') \<and> regs c' Rax = 12 \<and> regs c' Rsp = 0x10008"
proof -
  obtain code where c: "\<forall>cb. jit_compile_body demo_body 2 1 cb = (True, emit_all code cb)" "length code < 100" using demo_compiles by blast
  note code = c(1) [rule_format, of "code_buf_new (replicate 100 0)"] c(2)
  have s: "straight native_op demo_body [5, 7] [] = Some ([12], [5, 7])"
    by (simp add: demo_body_def read_u32_leb128_def native_op_def)
  have l: "\<forall>i < length [5 :: i64, 7]. cells demo_cpu (loc 0x20000 i) = [5, 7] ! i"
    by (auto simp: demo_cpu_def loc_def less_Suc_eq)
  have "code_len (emit_all code (code_buf_new (replicate 100 0))) < length (replicate 100 (0 :: u8))"
    using code(2) by (simp add: code_len_def cursor_emit_all)
  from native_code_correct [OF code(1) this s _ _ _ l, of "0x10000"] show ?thesis
    using code(1) demo_apart
    by (fastforce simp: demo_cpu_def demo_body_def aligned_def)
qed

end
