(* ===== verification/Jit_Agreement.thy ===== *)
theory Jit_Agreement
  imports Jit_Compile Execution
begin

text \<open>
  Native code beside the interpreter. On a straight-line body the interpreter does what the meaning of the body says, with
  its own reading of the binary opcodes; the readings of the compiler and of the interpreter agree in the low 32 bits, so
  a call gives the same 32-bit result either way, except for the shifts. Then what the compiler does not check: the
  length of its code and the index of a local.
\<close>

section \<open>Agreement with the interpreter\<close>

text \<open>What the interpreter does for the same opcodes; on these it has no error.\<close>

definition interp_op :: "u8 \<Rightarrow> (i64 \<Rightarrow> i64 \<Rightarrow> i64) option" where
  "interp_op op = (if native_op op = None then None
     else map_option (\<lambda>f a b. case f (low32 a) (low32 b) of Ok v \<Rightarrow> v | _ \<Rightarrow> 0) (i32_binary op))"

definition unshifted :: "(u8 \<Rightarrow> (i64 \<Rightarrow> i64 \<Rightarrow> i64) option) \<Rightarrow> u8 \<Rightarrow> (i64 \<Rightarrow> i64 \<Rightarrow> i64) option" where
  "unshifted B op = (if op \<in> {0x74, 0x75, 0x76} then None else B op)"

text \<open>Two meanings that respect a relation of cells give related results.\<close>

lemma straight_related:
  assumes "\<And>v. R v v"
  shows "\<forall>op f a b a' b'. B op = Some f \<and> R a a' \<and> R b b' \<longrightarrow> (\<exists>g. B' op = Some g \<and> R (f a b) (g a' b'))
    \<Longrightarrow> straight B body ls stk = Some (s1, l1) \<Longrightarrow> list_all2 R ls ls' \<Longrightarrow> list_all2 R stk stk'
    \<Longrightarrow> \<exists>s2 l2. straight B' body ls' stk' = Some (s2, l2) \<and> list_all2 R s1 s2 \<and> list_all2 R l1 l2"
proof (induction B body ls stk arbitrary: ls' stk' rule: straight.induct)
  case (1 B ls stk)
  then show ?case by simp
next
  case (2 B op r ls stk)
  note IH = "2.IH" and resp = "2.prems"(1) and run = "2.prems"(2) and l = "2.prems"(3) and k = "2.prems"(4) and len = list_all2_lengthD [OF "2.prems"(3)]
  have nth: "R (ls ! i) (ls' ! i)" if "i < length ls" for i using l that by (simp add: list_all2_nthD)
  have upd: "list_all2 R (ls[i := v]) (ls'[i := v'])" if "R v v'" for i v v' using l that by (simp add: list_all2_update_cong)
  consider "op = 0x41" | "op = 0x42" | "op = 0x20" | "op = 0x21" | "op = 0x22" | "op = 0x1A" | "op = 0x0F" | "op = 0x0B" | "op = 0x01"
    | "op \<notin> {0x41, 0x42, 0x20, 0x21, 0x22, 0x1A, 0x0F, 0x0B, 0x01}" by auto
  then show ?case
  proof cases
    case 1
    then show ?thesis using resp run l k IH(1) assms by (auto split: option.splits)
  next
    case 2
    then show ?thesis using resp run l k IH(2) assms by (auto split: option.splits)
  next
    case 3
    then show ?thesis using resp run l k IH(3) nth len by (auto split: option.splits if_splits)
  next
    case 4
    then show ?thesis using resp run l k IH(4) upd len by (auto split: option.splits if_splits list.splits simp: list_all2_Cons1)
  next
    case 5
    then show ?thesis using resp run l k IH(5) upd len by (auto split: option.splits if_splits list.splits simp: list_all2_Cons1)
  next
    case 6
    then show ?thesis using resp run l k IH(6) by (auto split: list.splits simp: list_all2_Cons1)
  next
    case 10
    then obtain f b a s where f: "B op = Some f" "stk = b # a # s" "straight B r ls (f a b # s) = Some (s1, l1)"
      using run by (auto split: option.splits list.splits)
    then obtain b' a' s' where k': "stk' = b' # a' # s'" "R b b'" "R a a'" "list_all2 R s s'" using k by (auto simp: list_all2_Cons1)
    then obtain g where g: "B' op = Some g" "R (f a b) (g a' b')" using resp f(1) by blast
    have "list_all2 R (f a b # s) (g a' b' # s')" using g(2) k'(4) by simp
    from IH(8) [OF _ _ _ _ _ _ _ _ _ f(1,2) refl resp f(3) l this] 10 show ?thesis using g(1) k'(1) by simp
  qed (use resp run l k IH(7) in \<open>auto split: if_splits\<close>)
qed

lemma low32_int: "low32 v = word_of_int (uint v)"
  by (simp add: low32_def)

lemma mod_wide: "(word_of_int (x mod 2 ^ LENGTH(64)) :: u32) = word_of_int x"
proof -
  have "x mod 2 ^ LENGTH(64) mod 2 ^ LENGTH(32) = x mod (2 :: int) ^ LENGTH(32)" by (rule mod_mod_cancel) simp
  then show ?thesis by (simp only: word_of_int_eq_iff take_bit_eq_mod)
qed

lemma low32_ops:
  "low32 (a + b) = low32 a + low32 b" "low32 (a - b) = low32 a - low32 b" "low32 (a * b) = low32 a * low32 b"
  "low32 (a AND b) = low32 a AND low32 b" "low32 (a OR b) = low32 a OR low32 b" "low32 (a XOR b) = low32 a XOR low32 b"
proof -
  show "low32 (a + b) = low32 a + low32 b" "low32 (a - b) = low32 a - low32 b" "low32 (a * b) = low32 a * low32 b"
    unfolding low32_int uint_word_ariths mod_wide by (simp_all only: wi_hom_syms)
qed (auto intro!: bit_word_eqI simp: low32_def bit_simps)

lemma interp_agrees:
  assumes "unshifted native_op op = Some f" "low32 a = low32 a'" "low32 b = low32 b'"
  shows "\<exists>g. interp_op op = Some g \<and> low32 (f a b) = low32 (g a' b')"
  using assms
  by (auto simp: unshifted_def native_op_def interp_op_def i32_binary_def low32_ops split: if_splits)

section \<open>The interpreter on a straight-line body\<close>

text \<open>
  The interpreter in the middle of a straight-line body: the bytes ahead are \<open>r\<close>, the locals of the frame are \<open>ls\<close>, the
  operand stack of the frame is \<open>stk\<close>, and there is room for a cell for each byte ahead.
\<close>

definition in_body :: "'k interp \<Rightarrow> bytes \<Rightarrow> i64 list \<Rightarrow> i64 list \<Rightarrow> bool" where
  "in_body s r ls stk \<longleftrightarrow>
     (let f = frames s (fdepth s - 1) in
      \<not> yield_requested s \<and> shadow_stop_fdepth s < fdepth s \<and> fdepth s \<le> CALL_DEPTH \<and> body_idx f < MAX_FUNCS
      \<and> pc f \<le> length (bodies s (body_idx f)) \<and> drop (pc f) (bodies s (body_idx f)) = r
      \<and> local_count f = length ls \<and> length ls \<le> MAX_LOCALS \<and> (\<forall>i < length ls. locals f i = ls ! i) \<and> ctrl_depth s = ctrl_base f
      \<and> vsp s = vsp_base f + length stk \<and> (\<forall>i < length stk. vstack s (vsp s - Suc i) = stk ! i) \<and> vsp s + length r \<le> STACK_DEPTH)"

text \<open>What a body leaves alone: everything but its frame, its part of the stack, and the instruction counter.\<close>

definition in_frame :: "'k interp \<Rightarrow> 'k interp \<Rightarrow> bool" where
  "in_frame s s' \<longleftrightarrow> fdepth s' = fdepth s \<and> mem s' = mem s \<and> globals s' = globals s \<and> current_pages s' = current_pages s
     \<and> (\<forall>i < fdepth s - 1. frames s' i = frames s i) \<and> (\<forall>i < vsp_base (frames s (fdepth s - 1)). vstack s' i = vstack s i)
     \<and> vsp_base (frames s' (fdepth s - 1)) = vsp_base (frames s (fdepth s - 1))
     \<and> ctrl_base (frames s' (fdepth s - 1)) = ctrl_base (frames s (fdepth s - 1))
     \<and> result_count (frames s' (fdepth s - 1)) = result_count (frames s (fdepth s - 1))"

lemma in_frame_trans: "in_frame s t \<Longrightarrow> in_frame t u \<Longrightarrow> in_frame s u"
  by (auto simp: in_frame_def)

lemma ahead: "drop p body = op # r \<Longrightarrow> p < length body \<and> body ! p = op \<and> drop (Suc p) body = r"
  using Cons_nth_drop_Suc [of p body] by (cases "p < length body") simp_all

text \<open>A handler that succeeds and moves on takes a step.\<close>

lemma in_body_step:
  assumes "in_body s (op # r) ls stk" and "fi = fdepth s - 1" and "b = bodies s (body_idx (frames s fi))" and "p = Suc (pc (frames s fi))"
    and "dispatch fe op fi b p (count_opcode s) = (Ok (Some p'), s')"
  shows "step fe s = (Ok (), s'\<lparr>frames := (frames s')(fi := (frames s' fi)\<lparr>pc := p'\<rparr>)\<rparr>)"
proof -
  have a: "body_idx (frames s fi) < MAX_FUNCS" "fdepth s = Suc fi" "Suc fi \<le> CALL_DEPTH" "\<not> yield_requested s"
    "drop (pc (frames s fi)) b = op # r" using assms(1-3) by (auto simp: in_body_def Let_def)
  have o: "pc (frames s fi) < length b" "b ! pc (frames s fi) = op" using ahead [OF a(5)] by simp_all
  have "step fe s = sbind (dispatch fe op fi b p) (\<lambda>next. case next of Some p' \<Rightarrow> set_pc fi p' | None \<Rightarrow> ret ()) (count_opcode s)"
    using step_running [OF a(4,2,3,1), of fe] o by (simp add: assms(3,4))
  then show ?thesis using assms(5) by (simp add: sbind_def set_pc_def modify_def)
qed

lemma imm_read:
  assumes "in_body s (op # r) ls stk" and "b = bodies s (body_idx (frames s (fdepth s - 1)))" and "p = Suc (pc (frames s (fdepth s - 1)))"
  shows "read_u32_leb128 r = Some (i, n) \<Longrightarrow> imm_u32 b p t = (Ok (i, p + n), t) \<and> p + n \<le> length b \<and> drop (p + n) b = drop n r"
    and "read_i32_leb128 r = Some (v, n) \<Longrightarrow> read_i32_at b p e = Ok (v, n) \<and> p + n \<le> length b \<and> drop (p + n) b = drop n r"
    and "read_i64_leb128 r = Some (w, n) \<Longrightarrow> read_i64_at b p e = Ok (w, n) \<and> p + n \<le> length b \<and> drop (p + n) b = drop n r"
proof -
  have "drop (pc (frames s (fdepth s - 1))) b = op # r" using assms(1,2) by (auto simp: in_body_def Let_def)
  from ahead [OF this] have p: "p \<le> length b" "drop p b = r" using assms(3) by simp_all
  then have l: "length b = p + length r" "drop (p + n) b = drop n r" by (auto simp: add.commute)
  show "read_u32_leb128 r = Some (i, n) \<Longrightarrow> imm_u32 b p t = (Ok (i, p + n), t) \<and> p + n \<le> length b \<and> drop (p + n) b = drop n r"
    "read_i32_leb128 r = Some (v, n) \<Longrightarrow> read_i32_at b p e = Ok (v, n) \<and> p + n \<le> length b \<and> drop (p + n) b = drop n r"
    "read_i64_leb128 r = Some (w, n) \<Longrightarrow> read_i64_at b p e = Ok (w, n) \<and> p + n \<le> length b \<and> drop (p + n) b = drop n r"
    using p l read_u32_bounds [of r i n] read_i32_bounds [of r v n] read_i64_bounds [of r w n]
    by (auto simp: imm_u32_def read_u32_at_def read_i32_at_def read_i64_at_def slice_from_def sm_defs)
qed

lemma in_body_moves:
  assumes "in_body s (op # r) ls stk" and "fi = fdepth s - 1" and "b = bodies s (body_idx (frames s fi))" and "p = Suc (pc (frames s fi))"
    and "dispatch fe op fi b p (count_opcode s) = (Ok (Some p'),
      (count_opcode s)\<lparr>vstack := vs, vsp := k, frames := (frames s)(fi := (frames s fi)\<lparr>locals := L\<rparr>)\<rparr>)"
    and "p' \<le> length b" "drop p' b = r'" and "length ls' = length ls" "\<forall>i < length ls. L i = ls' ! i"
    and "k = vsp_base (frames s fi) + length stk'" "\<forall>i < length stk'. vs (k - Suc i) = stk' ! i"
    and "\<forall>i < vsp_base (frames s fi). vs i = vstack s i" and "k + length r' \<le> STACK_DEPTH"
  shows "\<exists>t. step fe s = (Ok (), t) \<and> in_body t r' ls' stk' \<and> in_frame s t"
  using in_body_step [OF assms(1-5)] assms
  by (auto simp: in_body_def in_frame_def Let_def count_opcode_def)

lemma in_bodyD:
  assumes "in_body s (op # r) ls stk" and "fi = fdepth s - 1"
  shows "vsp s = vsp_base (frames s fi) + length stk" "vsp s + Suc (length r) \<le> STACK_DEPTH" "local_count (frames s fi) = length ls"
    "length ls \<le> MAX_LOCALS" "\<And>i. i < length ls \<Longrightarrow> locals (frames s fi) i = ls ! i" "\<And>i. i < length stk \<Longrightarrow> vstack s (vsp s - Suc i) = stk ! i"
  using assms(1) unfolding in_body_def Let_def assms(2) [symmetric] by (elim conjE; blast | simp)+

lemma stack_push:
  assumes "n = (base :: nat) + length stk" "\<And>i. i < length stk \<Longrightarrow> vs (n - Suc i) = stk ! i"
  shows "\<forall>i < length (v # stk). (vs(n := v)) (Suc n - Suc i) = (v # stk) ! i"
proof (intro allI impI)
  fix i assume "i < length (v # stk)"
  then show "(vs(n := v)) (Suc n - Suc i) = (v # stk) ! i" using assms by (cases i) auto
qed

lemma stack_pop:
  assumes "n = (base :: nat) + length (v # stk)" "\<And>i. i < length (v # stk) \<Longrightarrow> vs (n - Suc i) = (v # stk) ! i"
  shows "vs (n - 1) = v" "n - 1 = base + length stk" "i < length stk \<Longrightarrow> vs (n - 1 - Suc i) = stk ! i"
proof -
  show "i < length stk \<Longrightarrow> vs (n - 1 - Suc i) = stk ! i"
    using assms(2) [of "Suc i"] by simp
qed (use assms(1) assms(2) [of 0] in simp_all)

text \<open>Each instruction of the subset takes the interpreter to the next one.\<close>

lemma step_push:
  assumes "in_body s (op # r) ls stk" and "fi = fdepth s - 1" and "b = bodies s (body_idx (frames s fi))" and "p = Suc (pc (frames s fi))"
    and "dispatch fe op fi b p (count_opcode s) = sthen (v_push v) (next_pc (p + n)) (count_opcode s)"
    and "p + n \<le> length b" "drop (p + n) b = drop n r"
  shows "\<exists>t. step fe s = (Ok (), t) \<and> in_body t (drop n r) ls (v # stk) \<and> in_frame s t"
proof -
  note d = in_bodyD [OF assms(1,2)]
  show ?thesis
    by (rule in_body_moves [OF assms(1-4), where vs = "(vstack s)(vsp s := v)" and k = "Suc (vsp s)" and L = "locals (frames s fi)" and p' = "p + n"])
      (use d assms stack_push [OF d(1), where vs = "vstack s", OF d(6)] in \<open>auto simp: v_push_def next_pc_def sm_defs count_opcode_def\<close>)
qed

lemma step_pop:
  assumes "in_body s (op # r) ls (v # stk)" and "fi = fdepth s - 1" and "b = bodies s (body_idx (frames s fi))" and "p = Suc (pc (frames s fi))"
    and "dispatch fe op fi b p (count_opcode s) = (Ok (Some (p + n)),
      (count_opcode s)\<lparr>vsp := vsp s - 1, frames := (frames s)(fi := (frames s fi)\<lparr>locals := L\<rparr>)\<rparr>)"
    and "length ls' = length ls" "\<forall>i < length ls. L i = ls' ! i"
    and "p + n \<le> length b" "drop (p + n) b = drop n r"
  shows "\<exists>t. step fe s = (Ok (), t) \<and> in_body t (drop n r) ls' stk \<and> in_frame s t"
proof -
  note d = in_bodyD [OF assms(1,2)]
  show ?thesis
    by (rule in_body_moves [OF assms(1-4), where vs = "vstack s" and k = "vsp s - 1" and L = L and p' = "p + n"])
      (use d assms stack_pop [OF d(1), where vs = "vstack s", OF d(6)] in \<open>auto simp: count_opcode_def\<close>)
qed

lemma step_quiet:
  assumes "in_body s (op # r) ls stk" and "fi = fdepth s - 1" and "b = bodies s (body_idx (frames s fi))" and "p = Suc (pc (frames s fi))"
    and "dispatch fe op fi b p (count_opcode s) = (Ok (Some (p + n)), (count_opcode s)\<lparr>frames := (frames s)(fi := (frames s fi)\<lparr>locals := L\<rparr>)\<rparr>)"
    and "length ls' = length ls" "\<forall>i < length ls. L i = ls' ! i"
    and "p + n \<le> length b" "drop (p + n) b = drop n r"
  shows "\<exists>t. step fe s = (Ok (), t) \<and> in_body t (drop n r) ls' stk \<and> in_frame s t"
proof -
  note d = in_bodyD [OF assms(1,2)]
  show ?thesis
    by (rule in_body_moves [OF assms(1-4), where vs = "vstack s" and k = "vsp s" and L = L and p' = "p + n"])
      (use d assms in \<open>auto simp: count_opcode_def\<close>)
qed

lemma dispatch_bits:
  "dispatch fe 0x71 = op_binary (\<lambda>a b. Ok (of_i32 (low32 a AND low32 b)))"
  "dispatch fe 0x72 = op_binary (\<lambda>a b. Ok (of_i32 (low32 a OR low32 b)))"
  "dispatch fe 0x73 = op_binary (\<lambda>a b. Ok (of_i32 (low32 a XOR low32 b)))"
  "dispatch fe 0x74 = op_binary (\<lambda>a b. Ok (of_i32 (push_bit (shamt32 (low32 b)) (low32 a))))"
  "dispatch fe 0x75 = op_binary (\<lambda>a b. Ok (of_i32 (signed_drop_bit (shamt32 (low32 b)) (low32 a))))"
  "dispatch fe 0x76 = op_binary (\<lambda>a b. Ok (of_u32 (drop_bit (shamt32 (low32 b)) (low32 a))))"
  by (simp_all add: dispatch_tables)

lemma dispatch_interp_op:
  assumes "interp_op op = Some g"
  shows "dispatch fe op = op_binary (\<lambda>a b. Ok (g a b))"
proof -
  have "native_op op \<noteq> None" using assms by (auto simp: interp_op_def split: if_splits)
  then consider "op = 0x6A" | "op = 0x6B" | "op = 0x6C" | "op = 0x71" | "op = 0x72" | "op = 0x73" | "op = 0x74" | "op = 0x75" | "op = 0x76"
    by (auto simp: native_op_def split: if_splits)
  then show ?thesis
    by cases (use assms in \<open>auto simp: interp_op_def native_op_def i32_binary_def dispatch_bits\<close>)
qed

lemma step_binary:
  assumes "in_body s (op # r) ls (y # x # stk)" and "interp_op op = Some g"
  shows "\<exists>t. step fe s = (Ok (), t) \<and> in_body t r ls (g x y # stk) \<and> in_frame s t"
proof -
  define fi where "fi = fdepth s - 1"
  define b where "b = bodies s (body_idx (frames s fi))"
  define p where "p = Suc (pc (frames s fi))"
  note d = in_bodyD [OF assms(1) fi_def]
  have k: "2 \<le> vsp s" "vsp s - 2 = vsp_base (frames s fi) + length stk" "\<not> STACK_DEPTH \<le> vsp s - Suc 0" "\<not> STACK_DEPTH \<le> vsp s - Suc (Suc 0)" using d(1,2) by auto
  have v: "vstack s (vsp s - 1) = y" "vstack s (vsp s - 2) = x" using d(6) [of 0] d(6) [of 1] by (simp_all add: numeral_2_eq_2)
  have st: "vstack s (vsp s - 2 - Suc i) = stk ! i" if "i < length stk" for i
    using d(6) [of "Suc (Suc i)"] that by (simp add: numeral_2_eq_2)
  have run: "dispatch fe op fi b p (count_opcode s) = (Ok (Some p), (count_opcode s)\<lparr>vstack := (vstack s)(vsp s - 2 := g x y), vsp := Suc (vsp s - 2),
      frames := (frames s)(fi := (frames s fi)\<lparr>locals := locals (frames s fi)\<rparr>)\<rparr>)"
    using k(1,3,4) v by (simp add: dispatch_interp_op [OF assms(2)] op_binary_def v_pop_def v_push_def next_pc_def sm_defs count_opcode_def numeral_2_eq_2)
  have "drop (pc (frames s fi)) b = op # r" using assms(1) by (simp add: in_body_def Let_def b_def fi_def)
  from ahead [OF this] have p: "p \<le> length b" "drop p b = r" by (simp_all add: p_def)
  show ?thesis
    by (rule in_body_moves [OF assms(1) fi_def b_def p_def run p refl])
      (use d(2,5) k stack_push [OF k(2) st, of "g x y"] in \<open>auto\<close>)
qed

lemma straight_step:
  assumes "in_body s (op # r) ls stk" and "straight interp_op (op # r) ls stk = Some (stk', ls')" and "op \<noteq> 0x0F" "op \<noteq> 0x0B"
  shows "\<exists>r1 ls1 stk1 t. straight interp_op r1 ls1 stk1 = Some (stk', ls') \<and> length r1 \<le> length r
    \<and> step fe s = (Ok (), t) \<and> in_body t r1 ls1 stk1 \<and> in_frame s t"
proof -
  define fi where "fi = fdepth s - 1"
  define b where "b = bodies s (body_idx (frames s fi))"
  define p where "p = Suc (pc (frames s fi))"
  note at = assms(1) fi_def b_def p_def
  note d = in_bodyD [OF assms(1) fi_def]
  note imm = imm_read [OF assms(1) b_def [unfolded fi_def] p_def [unfolded fi_def]]
  have "drop (pc (frames s fi)) b = op # r" using assms(1) by (simp add: in_body_def Let_def b_def fi_def)
  from ahead [OF this] have p0: "p + 0 \<le> length b" "drop (p + 0) b = drop 0 r" by (simp_all add: p_def)
  have keep: "(count_opcode s) = (count_opcode s)\<lparr>frames := (frames s)(fi := (frames s fi)\<lparr>locals := locals (frames s fi)\<rparr>)\<rparr>"
    by (simp add: count_opcode_def)
  have same: "frames (count_opcode s) = frames s" "vsp (count_opcode s) = vsp s" "vstack (count_opcode s) = vstack s"
    by (simp_all add: count_opcode_def)
  consider "op = 0x41" | "op = 0x42" | "op = 0x20" | "op = 0x21" | "op = 0x22" | "op = 0x1A" | "op = 0x01"
    | "op \<notin> {0x41, 0x42, 0x20, 0x21, 0x22, 0x1A, 0x0F, 0x0B, 0x01}" using assms(3,4) by auto
  then show ?thesis
  proof cases
    case 1
    then obtain v n where v: "read_i32_leb128 r = Some (v, n)" "straight interp_op (drop n r) ls (of_i32 v # stk) = Some (stk', ls')"
      using assms(2) by (auto split: option.splits)
    note i = imm(2) [OF v(1), of MalformedCode]
    have "dispatch fe op fi b p (count_opcode s) = sthen (v_push (of_i32 v)) (next_pc (p + n)) (count_opcode s)"
      using i 1 by (simp add: op_i32_const_def sbind_def lift_def)
    from step_push [OF at this] i v(2) show ?thesis by (metis diff_le_self length_drop)
  next
    case 2
    then obtain v n where v: "read_i64_leb128 r = Some (v, n)" "straight interp_op (drop n r) ls (v # stk) = Some (stk', ls')"
      using assms(2) by (auto split: option.splits)
    note i = imm(3) [OF v(1), of MalformedCode]
    have "dispatch fe op fi b p (count_opcode s) = sthen (v_push v) (next_pc (p + n)) (count_opcode s)"
      using i 2 by (simp add: op_i64_const_def sbind_def lift_def)
    from step_push [OF at this] i v(2) show ?thesis by (metis diff_le_self length_drop)
  next
    case 3
    then obtain j n where v: "read_u32_leb128 r = Some (j, n)" "unat j < length ls" "straight interp_op (drop n r) ls (ls ! unat j # stk) = Some (stk', ls')"
      using assms(2) by (auto split: option.splits if_splits)
    note i = imm(1) [OF v(1), of "count_opcode s"]
    have "dispatch fe op fi b p (count_opcode s) = sthen (v_push (ls ! unat j)) (next_pc (p + n)) (count_opcode s)"
      using i 3 v(2) d(3-5) by (simp add: op_local_get_def sbind_def gets_def same)
    from step_push [OF at this] i v(3) show ?thesis by (metis diff_le_self length_drop)
  next
    case 4
    then obtain j n v st where v: "read_u32_leb128 r = Some (j, n)" "unat j < length ls" "stk = v # st"
        "straight interp_op (drop n r) (ls[unat j := v]) st = Some (stk', ls')"
      using assms(2) by (auto split: option.splits if_splits list.splits)
    have upd: "length (ls[unat j := v]) = length ls" "\<forall>k < length ls. ((locals (frames s fi))(unat j := v)) k = ls[unat j := v] ! k"
      using d(5) by (simp_all add: nth_list_update)
    note i = imm(1) [OF v(1), of "count_opcode s"]
    have top: "vstack s (vsp s - Suc 0) = v" "0 < vsp s" "\<not> STACK_DEPTH \<le> vsp s - Suc 0" using d(1,2) d(6) [of 0] v(3) by auto
    have "dispatch fe op fi b p (count_opcode s) = (Ok (Some (p + n)), (count_opcode s)\<lparr>vsp := vsp s - 1,
        frames := (frames s)(fi := (frames s fi)\<lparr>locals := (locals (frames s fi))(unat j := v)\<rparr>)\<rparr>)"
      using i 4 v(2) d(3,4) top by (simp add: op_local_set_def v_pop_def set_local_def next_pc_def sm_defs count_opcode_def)
    from step_pop [OF assms(1) [unfolded v(3)] fi_def b_def p_def this, of "ls[unat j := v]"] i upd show ?thesis using v(4)
      by (metis diff_le_self length_drop)
  next
    case 5
    then obtain j n v st where v: "read_u32_leb128 r = Some (j, n)" "unat j < length ls" "stk = v # st"
        "straight interp_op (drop n r) (ls[unat j := v]) stk = Some (stk', ls')"
      using assms(2) by (auto split: option.splits if_splits list.splits)
    have upd: "length (ls[unat j := v]) = length ls" "\<forall>k < length ls. ((locals (frames s fi))(unat j := v)) k = ls[unat j := v] ! k"
      using d(5) by (simp_all add: nth_list_update)
    note i = imm(1) [OF v(1), of "count_opcode s"]
    have top: "vstack s (vsp s - Suc 0) = v" "0 < vsp s" "\<not> STACK_DEPTH \<le> vsp s - Suc 0" using d(1,2) d(6) [of 0] v(3) by auto
    have "dispatch fe op fi b p (count_opcode s) = (Ok (Some (p + n)), (count_opcode s)\<lparr>
        frames := (frames s)(fi := (frames s fi)\<lparr>locals := (locals (frames s fi))(unat j := v)\<rparr>)\<rparr>)"
      using i 5 v(2) d(3,4) top by (simp add: op_local_tee_def set_local_def next_pc_def sm_defs count_opcode_def)
    from step_quiet [OF at this, of "ls[unat j := v]"] i upd show ?thesis using v(4)
      by (metis diff_le_self length_drop)
  next
    case 6
    then obtain v st where v: "stk = v # st" "straight interp_op r ls st = Some (stk', ls')"
      using assms(2) by (auto split: list.splits)
    have top: "0 < vsp s" "\<not> STACK_DEPTH \<le> vsp s - Suc 0" using d(1,2) v(1) by auto
    have "dispatch fe op fi b p (count_opcode s) = (Ok (Some (p + 0)), (count_opcode s)\<lparr>vsp := vsp s - 1,
        frames := (frames s)(fi := (frames s fi)\<lparr>locals := locals (frames s fi)\<rparr>)\<rparr>)"
      using 6 top by (simp add: op_drop_def v_pop_def next_pc_def sm_defs count_opcode_def)
    from step_pop [OF assms(1) [unfolded v(1)] fi_def b_def p_def this refl _ p0] d(5) v(2) show ?thesis by fastforce
  next
    case 7
    then have "dispatch fe op fi b p (count_opcode s) = (Ok (Some (p + 0)), (count_opcode s)\<lparr>frames := (frames s)(fi := (frames s fi)\<lparr>locals := locals (frames s fi)\<rparr>)\<rparr>)"
      using keep by (simp add: next_pc_def ret_def)
    from step_quiet [OF at this refl _ p0] d(5) 7 assms(2) show ?thesis by fastforce
  next
    case 8
    then obtain g y x st where g: "interp_op op = Some g" "stk = y # x # st" "straight interp_op r ls (g x y # st) = Some (stk', ls')"
      using assms(2) by (auto split: option.splits list.splits)
    from step_binary [OF assms(1) [unfolded g(2)] g(1), of fe] g(3) show ?thesis by fast
  qed
qed

text \<open>The state after the body has returned, seen from the state \<open>s\<close> inside it.\<close>

definition returned :: "'k interp \<Rightarrow> 'k interp \<Rightarrow> i64 \<Rightarrow> bool" where
  "returned s t v \<longleftrightarrow>
     (let f = frames s (fdepth s - 1) in
      fdepth t = fdepth s - 1 \<and> mem t = mem s \<and> globals t = globals s \<and> current_pages t = current_pages s \<and> ctrl_depth t = ctrl_base f
      \<and> (\<forall>i < fdepth s - 1. frames t i = frames s i) \<and> (\<forall>i < vsp_base f. vstack t i = vstack s i)
      \<and> vsp t = vsp_base f + result_count f \<and> (result_count f = 1 \<longrightarrow> vstack t (vsp_base f) = v))"

lemma in_frame_returned: "in_frame s s' \<Longrightarrow> returned s' t v \<Longrightarrow> returned s t v"
  by (auto simp: in_frame_def returned_def Let_def)

lemma do_return_body:
  assumes "in_body s r ls stk" and "result_count (frames s (fdepth s - 1)) \<le> 1" "result_count (frames s (fdepth s - 1)) \<le> length stk"
    and "c = s \<or> c = count_opcode s"
  shows "\<exists>t. do_return c = (Ok (), t) \<and> returned s t (hd stk)"
proof -
  define f where "f = frames s (fdepth s - 1)"
  have c: "fdepth c = fdepth s" "frames c = frames s" "vsp c = vsp s" "vstack c = vstack s" "mem c = mem s" "globals c = globals s"
    "current_pages c = current_pages s" using assms(4) by (auto simp: count_opcode_def)
  have d: "0 < fdepth s" "fdepth s \<le> CALL_DEPTH" "vsp s = vsp_base f + length stk" "vsp s \<le> STACK_DEPTH"
    "\<And>i. i < length stk \<Longrightarrow> vstack s (vsp s - Suc i) = stk ! i"
    using assms(1) unfolding in_body_def Let_def f_def [symmetric] by (elim conjE; blast | simp)+
  consider "result_count f = 0" | "result_count f = 1" "stk \<noteq> []" using assms(2,3) unfolding f_def [symmetric] by (cases "result_count f"; cases stk) auto
  then show ?thesis
  proof cases
    case 1
    then show ?thesis using d(1,2) by (simp add: do_return_def c Let_def f_def returned_def)
  next
    case 2
    then have v: "vstack s (vsp s - Suc 0) = hd stk" "\<not> STACK_DEPTH \<le> vsp s - Suc 0" "\<not> STACK_DEPTH \<le> vsp_base f"
      using d(3,4) d(5) [of 0] by (auto simp: hd_conv_nth Suc_le_eq neq_Nil_conv)
    have "copy_results (Suc 0) 0 (vsp s - Suc 0) (vsp_base f) (vstack s) = Ok ((vstack s)(vsp_base f := hd stk))"
      using v by simp
    then show ?thesis using d(1,2) 2(1) by (simp add: do_return_def c Let_def f_def returned_def)
  qed
qed

lemma return_step:
  assumes "in_body s r ls stk" and "result_count (frames s (fdepth s - 1)) \<le> 1" "result_count (frames s (fdepth s - 1)) \<le> length stk"
    and "r = [] \<or> r = 0x0F # r' \<or> r = [0x0B]"
  shows "\<exists>t. step fe s = (Ok (), t) \<and> returned s t (hd stk)"
proof (cases "r = []")
  case True
  have a: "\<not> yield_requested s" "fdepth s \<noteq> 0" "\<not> fdepth s > CALL_DEPTH" "\<not> body_idx (frames s (fdepth s - 1)) \<ge> MAX_FUNCS"
    "pc (frames s (fdepth s - 1)) \<ge> length (bodies s (body_idx (frames s (fdepth s - 1))))"
    using assms(1) True by (auto simp: in_body_def Let_def)
  then have "step fe s = do_return s" by (simp add: step_def sbind_def gets_def Let_def)
  then show ?thesis using do_return_body [OF assms(1-3), of s] by simp
next
  case False
  then obtain op q where r: "r = op # q" "op = 0x0F \<or> op = 0x0B" using assms(4) by auto
  define fi where "fi = fdepth s - 1"
  define b where "b = bodies s (body_idx (frames s fi))"
  have a: "body_idx (frames s fi) < MAX_FUNCS" "fdepth s = Suc fi" "Suc fi \<le> CALL_DEPTH" "\<not> yield_requested s"
    "drop (pc (frames s fi)) b = op # q" "ctrl_depth s = ctrl_base (frames s fi)"
    using assms(1) r(1) by (auto simp: in_body_def Let_def fi_def b_def)
  have o: "pc (frames s fi) < length b" "b ! pc (frames s fi) = op" using ahead [OF a(5)] by simp_all
  obtain t where t: "do_return (count_opcode s) = (Ok (), t)" "returned s t (hd stk)" using do_return_body [OF assms(1-3)] by blast
  have "dispatch fe op fi b (pc (frames s fi) + 1) (count_opcode s) = (Ok None, t)"
    using r(2) a(6) t(1) by (auto simp: op_return_def op_end_def continue_outer_def sbind_def sthen_def gets_def ret_def count_opcode_def)
  then have "step fe s = (Ok (), t)"
    using step_running [OF a(4,2,3,1), of fe] o by (simp add: b_def [symmetric] sbind_def ret_def)
  with t(2) show ?thesis by blast
qed

lemma run_step': "shadow_stop_fdepth s < fdepth s \<Longrightarrow> step fe s = (Ok (), t) \<Longrightarrow> run (Suc k) fe s = run k fe t"
  by (simp add: sthen_def sbind_def)

text \<open>The interpreter computes the meaning of a straight-line body, and returns.\<close>

lemma interpreter_runs_straight:
  assumes "in_body s r ls stk" and "straight interp_op r ls stk = Some (stk', ls')"
    and "result_count (frames s (fdepth s - 1)) \<le> 1" "result_count (frames s (fdepth s - 1)) \<le> length stk'"
  shows "\<exists>n t. (\<forall>k. run (n + k) fe s = run k fe t) \<and> returned s t (hd stk')"
  using assms
proof (induction "length r" arbitrary: s r ls stk rule: less_induct)
  case less
  have up: "shadow_stop_fdepth s < fdepth s" using less.prems(1) by (simp add: in_body_def Let_def)
  show ?case
  proof (cases "r = [] \<or> (\<exists>q. r = 0x0F # q) \<or> r = [0x0B]")
    case True
    then have "stk' = stk" using less.prems(2) by auto
    then obtain t where "step fe s = (Ok (), t)" "returned s t (hd stk')"
      using return_step [OF less.prems(1,3)] less.prems(4) True by blast
    then show ?thesis using run_step' [OF up] by (intro exI [of _ 1] exI [of _ t]) simp
  next
    case False
    then obtain op q where r: "r = op # q" "op \<noteq> 0x0F" "op = 0x0B \<longrightarrow> q \<noteq> []" by (cases r) auto
    with less.prems(2) have "op \<noteq> 0x0B" by auto
    from straight_step [OF less.prems(1,2) [unfolded r(1)] r(2) this, of fe]
    obtain r1 ls1 stk1 s1 where s1: "straight interp_op r1 ls1 stk1 = Some (stk', ls')" "length r1 \<le> length q" "step fe s = (Ok (), s1)"
      "in_body s1 r1 ls1 stk1" "in_frame s s1" by blast
    have rc: "result_count (frames s1 (fdepth s1 - 1)) = result_count (frames s (fdepth s - 1))" using s1(5) by (simp add: in_frame_def)
    from less.hyps [OF _ s1(4,1)] r(1) s1(2) less.prems(3,4) rc
    obtain n t where n: "\<forall>k. run (n + k) fe s1 = run k fe t" "returned s1 t (hd stk')" by fastforce
    have "run (Suc n + k) fe s = run k fe t" for k using run_step' [OF up s1(3)] n(1) by simp
    then show ?thesis using in_frame_returned [OF s1(5) n(2)] by blast
  qed
qed

section \<open>Native code against the interpreter\<close>

lemma straight_native:
  assumes "straight (unshifted native_op) body ls stk = Some (s1, l1)"
  shows "straight native_op body ls stk = Some (s1, l1)"
proof -
  have "\<exists>s2 l2. straight native_op body ls stk = Some (s2, l2) \<and> list_all2 (=) s1 s2 \<and> list_all2 (=) l1 l2"
    by (rule straight_related [OF _ _ assms]) (auto simp: unshifted_def list_all2_same split: if_splits)
  then show ?thesis by (simp add: list.rel_eq)
qed

lemma straight_interp:
  assumes "straight (unshifted native_op) body ls stk = Some (s1, l1)"
  shows "\<exists>s2 l2. straight interp_op body ls stk = Some (s2, l2) \<and> list_all2 (\<lambda>a b. low32 a = low32 b) s1 s2 \<and> list_all2 (\<lambda>a b. low32 a = low32 b) l1 l2"
  by (rule straight_related [OF _ _ assms]) (use interp_agrees in \<open>auto simp: list_all2_same\<close>)

text \<open>
  C27: A call gives the same 32-bit result either way. For a body without shifts that has a meaning on its locals, the
  native code on the processor returns to its caller, the interpreter entered at the start of the same body with
  the same locals returns to its caller, and the values they deliver have the same low 32 bits.
\<close>

theorem native_matches_interpreter:
  assumes "jit_compile_body body n rc (code_buf_new buf) = (True, cb)" and "code_len cb < length buf"
    and "straight (unshifted native_op) body ls [] = Some (stk, ls')" and "rc \<le> length stk"
    and "regs c Rsp = sp" and "regs c Rdx = l" and "\<forall>i < length ls. cells c (loc l i) = ls ! i"
    and "aligned sp" and "aligned l" and "\<forall>i < length ls. \<forall>k \<le> length body + 7. loc l i \<noteq> slot sp k"
    and "in_body s body ls []" and "result_count (frames s (fdepth s - 1)) = rc"
  shows "\<exists>c' k t v. x86_run (emitted cb) c = Some (cells c sp, c') \<and> (\<forall>j. run (k + j) fe s = run j fe t) \<and> returned s t v
    \<and> (rc = 1 \<longrightarrow> low32 (regs c' Rax) = low32 v)"
proof -
  have rc: "rc \<le> 1" using assms(1) by (auto simp: jit_compile_body_def split: if_splits)
  have len: "length ls \<le> 2 ^ 28" "length body < 2 ^ 59"
    using assms(11) by (auto simp: in_body_def Let_def limits)
  obtain c' where c': "x86_run (emitted cb) c = Some (cells c sp, c')" "regs c' Rax = (if rc = 1 then hd stk else 0)"
    using native_code_runs [OF assms(1,2) straight_native [OF assms(3)] _ assms(5-9) len assms(10)] assms(4) by fastforce
  obtain stk2 l2 where i: "straight interp_op body ls [] = Some (stk2, l2)" "list_all2 (\<lambda>a b. low32 a = low32 b) stk stk2"
    using straight_interp [OF assms(3)] by blast
  have l: "length stk2 = length stk" using i(2) by (simp add: list_all2_lengthD)
  then have "rc \<le> length stk2" using assms(4) by simp
  then obtain k t where "\<forall>j. run (k + j) fe s = run j fe t" "returned s t (hd stk2)"
    using interpreter_runs_straight [OF assms(11) i(1), of fe] rc assms(12) by metis
  moreover have "low32 (hd stk) = low32 (hd stk2)" if "rc = 1"
    using i(2) assms(4) that by (cases stk; cases stk2) auto
  ultimately show ?thesis using c' by fastforce
qed

definition demo_interp :: "unit interp" where
  "demo_interp = (entered demo_body)\<lparr>frames := (\<lambda>_. BLANK_FRAME\<lparr>result_count := 1, local_count := 2, locals := (\<lambda>_. 0)(0 := 5, 1 := 7)\<rparr>)\<rparr>"

lemma demo_in_body: "in_body demo_interp demo_body [5, 7] []"
  by (auto simp: in_body_def Let_def demo_interp_def entered_def sample_def BLANK_FRAME_def limits demo_body_def less_Suc_eq)

theorem native_matches_interpreter_witness:
  "\<exists>cb c' k t v. jit_compile_body demo_body 2 1 (code_buf_new (replicate 100 0)) = (True, cb)
    \<and> x86_run (emitted cb) demo_cpu = Some (0x400000, c') \<and> run k no_floats demo_interp = run 0 no_floats t
    \<and> returned demo_interp t v \<and> low32 (regs c' Rax) = low32 v"
proof -
  obtain code where c: "\<forall>cb. jit_compile_body demo_body 2 1 cb = (True, emit_all code cb)" "length code < 100" using demo_compiles by blast
  note code = c(1) [rule_format, of "code_buf_new (replicate 100 0)"] c(2)
  have fits: "code_len (emit_all code (code_buf_new (replicate 100 0))) < length (replicate 100 (0 :: u8))"
    using code(2) by (simp add: code_len_def cursor_emit_all)
  have s: "straight (unshifted native_op) demo_body [5, 7] [] = Some ([12], [5, 7])"
    by (simp add: demo_body_def read_u32_leb128_def native_op_def unshifted_def)
  have l: "\<forall>i < length [5 :: i64, 7]. cells demo_cpu (loc 0x20000 i) = [5, 7] ! i"
    by (auto simp: demo_cpu_def loc_def less_Suc_eq)
  have far: "\<forall>i < length [5 :: i64, 7]. \<forall>k \<le> length demo_body + 7. loc 0x20000 i \<noteq> slot 0x10000 k"
    using demo_apart by (simp add: demo_body_def)
  have "\<exists>c' k t v. x86_run (emitted (emit_all code (code_buf_new (replicate 100 0)))) demo_cpu = Some (cells demo_cpu 0x10000, c')
      \<and> (\<forall>j. run (k + j) no_floats demo_interp = run j no_floats t) \<and> returned demo_interp t v \<and> (1 = (1 :: nat) \<longrightarrow> low32 (regs c' Rax) = low32 v)"
    by (rule native_matches_interpreter [OF code(1) fits s _ _ _ l _ _ far demo_in_body])
      (simp_all add: demo_cpu_def aligned_def demo_interp_def entered_def sample_def)
  then obtain c' k t v where r: "x86_run (emitted (emit_all code (code_buf_new (replicate 100 0)))) demo_cpu = Some (cells demo_cpu 0x10000, c')"
    "\<forall>j. run (k + j) no_floats demo_interp = run j no_floats t" "returned demo_interp t v" "low32 (regs c' Rax) = low32 v" by auto
  from r(2) have "run (k + 0) no_floats demo_interp = run 0 no_floats t" by blast
  with code(1) r(1,3,4) show ?thesis by (fastforce simp: demo_cpu_def)
qed

section \<open>What the compiler does not check\<close>

text \<open>
  Shifts are done on the 64-bit cell, so the value that native code delivers for an unsigned shift of a negative number
  differs from the one of the interpreter, and so does a shift to the left by 32.
\<close>

theorem native_shifts_differ:
  "straight native_op [0x41, 0x7F, 0x41, 1, 0x76, 0x0B] [] [] = Some ([0x7FFFFFFFFFFFFFFF], [])
   \<and> straight interp_op [0x41, 0x7F, 0x41, 1, 0x76, 0x0B] [] [] = Some ([0x7FFFFFFF], [])
   \<and> straight native_op [0x41, 1, 0x41, 0x20, 0x74, 0x0B] [] [] = Some ([0x100000000], [])
   \<and> straight interp_op [0x41, 1, 0x41, 0x20, 0x74, 0x0B] [] [] = Some ([1], [])
   \<and> low32 0x7FFFFFFFFFFFFFFF \<noteq> low32 0x7FFFFFFF \<and> low32 0x100000000 \<noteq> low32 1"
proof -
  have m: "read_i32_leb128 (0x7F # r) = Some (- 1, 1)" "read_i32_leb128 (1 # r) = Some (1, 1)" "read_i32_leb128 (0x20 # r) = Some (0x20, 1)" for r
    by (simp_all add: read_i32_leb128_def mask_eq_exp_minus_1)
  have d: "(ucast (- 1 :: u64) :: u32) = - 1" by code_simp
  show ?thesis
    by (simp add: m d mask_eq_exp_minus_1 native_op_def interp_op_def i32_binary_def of_i32_def of_u32_def low32_def shamt64_def shamt32_def)
qed

text \<open>
  The compiler reports success whatever the size of the buffer, and cuts the code where the buffer ends. A function longer
  than the 4096 bytes that \<open>compile_jit\<close> provides is installed without its end.
\<close>

theorem long_code_is_cut:
  "\<exists>code. 40 < length code \<and> (\<forall>buf. \<exists>cb. jit_compile_body demo_body 2 1 (code_buf_new buf) = (True, cb) \<and> emitted cb = take (length buf) code)"
  using demo_compiles emitted_take by fastforce

text \<open>
  The index of a local is not checked. The code of a body that sets local 64 writes behind the array of 64 locals that the
  caller provides.
\<close>

definition escape_body :: bytes where
  "escape_body = [0x41, 7, 0x21, 0xC0, 0, 0x0B]"

lemma escape_compiles: "\<exists>code. (\<forall>cb. jit_compile_body escape_body 0 0 cb = (True, emit_all code cb)) \<and> length code < 100"
  using mem_operand_length [of Rax R13 "local_offset 64"]
  by (simp add: jit_compile_body_def escape_body_def emit_prologue_def read_u32_leb128_def read_i32_leb128_def emit_return_all
      emit_instructions emit_all_all)
    (rule exI, rule conjI, rule allI, rule refl, simp add: prologue_def reg_code_def reg_prefix_def mov_code_def return_code_def epilogue_def
      needs_rex_def word_le_nat_alt)

lemma escape_apart: "i < 65 \<Longrightarrow> k \<le> 13 \<Longrightarrow> loc 0x20000 i \<noteq> slot 0x10000 k"
proof -
  assume ik: "i < 65" "k \<le> 13"
  have l: "unat (loc 0x20000 i) = 0x20000 + 8 * i"
    using ik(1) unat_word_of_nat [of "0x20000 + 8 * i", where 'a = 64] by (simp add: loc_def)
  have s: "unat (slot 0x10000 k) = 0x10000 - 8 * k"
  proof -
    have "slot 0x10000 k = word_of_nat (0x10000 - 8 * k)" using ik(2) by (simp add: slot_def of_nat_diff)
    then show ?thesis using unat_word_of_nat [of "0x10000 - 8 * k", where 'a = 64] by simp
  qed
  have "unat (loc 0x20000 i) \<noteq> unat (slot 0x10000 k)" using l s ik by linarith
  then show ?thesis by auto
qed

theorem unchecked_local_escapes:
  "\<exists>cb c'. jit_compile_body escape_body 0 0 (code_buf_new (replicate 100 0)) = (True, cb)
    \<and> x86_run (emitted cb) demo_cpu = Some (0x400000, c') \<and> cells demo_cpu (loc 0x20000 MAX_LOCALS) = 0 \<and> cells c' (loc 0x20000 MAX_LOCALS) = 7"
proof -
  obtain code where c: "\<forall>cb. jit_compile_body escape_body 0 0 cb = (True, emit_all code cb)" "length code < 100" using escape_compiles by blast
  note code = c(1) [rule_format, of "code_buf_new (replicate 100 0)"]
  have fits: "code_len (emit_all code (code_buf_new (replicate 100 0))) < length (replicate 100 (0 :: u8))"
    using c(2) by (simp add: code_len_def cursor_emit_all)
  define ls where "ls = map (\<lambda>i. cells demo_cpu (loc 0x20000 i)) [0..<65]"
  have len: "length ls = 65" by (simp add: ls_def)
  have s: "straight native_op escape_body ls [] = Some ([], ls[64 := 7])"
    by (simp add: escape_body_def read_u32_leb128_def read_i32_leb128_def of_i32_def len)
  have l: "\<forall>i < length ls. cells demo_cpu (loc 0x20000 i) = ls ! i" by (simp add: ls_def del: upt_Suc)
  have far: "\<forall>i < length ls. \<forall>k \<le> length escape_body + 7. loc 0x20000 i \<noteq> slot 0x10000 k"
    using escape_apart by (simp add: escape_body_def len)
  have c0: "regs demo_cpu Rsp = 0x10000" "regs demo_cpu Rdx = 0x20000" "aligned 0x10000" "aligned 0x20000" "length ls \<le> 2 ^ 28"
    "length escape_body < 2 ^ 59" by (simp_all add: demo_cpu_def aligned_def len escape_body_def)
  obtain c' where c': "x86_run (emitted (emit_all code (code_buf_new (replicate 100 0)))) demo_cpu = Some (cells demo_cpu 0x10000, c')"
    "\<forall>i < length ls. cells c' (loc 0x20000 i) = ls[64 := 7] ! i"
    using native_code_runs [OF code fits s _ c0(1,2) l c0(3-6) far] by auto
  have "cells c' (loc 0x20000 64) = 7" using c'(2) [rule_format, of 64] len by simp
  moreover have "cells demo_cpu (loc 0x20000 64) = 0" "cells demo_cpu 0x10000 = 0x400000" by (simp_all add: demo_cpu_def loc_def)
  ultimately show ?thesis using code c'(1) unfolding MAX_LOCALS_def by auto
qed

text \<open>
  Only the low 32 bits agree, and the conditions of the interpreter test all of a cell: the sum of the least number with
  itself is zero, but not the cell that native code leaves.
\<close>

theorem native_zero_is_true:
  "straight native_op [0x20, 0, 0x20, 0, 0x6A, 0x0B] [of_i32 0x80000000] [] = Some ([0xFFFFFFFF00000000], [of_i32 0x80000000])
   \<and> straight interp_op [0x20, 0, 0x20, 0, 0x6A, 0x0B] [of_i32 0x80000000] [] = Some ([0], [of_i32 0x80000000])"
proof -
  have "of_i32 0x80000000 = 0xFFFFFFFF80000000" by code_simp
  then show ?thesis by (simp add: read_u32_leb128_def native_op_def interp_op_def i32_binary_def low32_def) (simp add: of_i32_def)
qed

end
