(* ===== verification/Spec2Isabelle.thy ===== *)
theory Spec2Isabelle
  imports Suspension Imports Tasks Connections Wasmfs Fat Line_Editor Shell_Words Wat_Printer Display Jit_Agreement
begin

text \<open>
  WASM-First OS: a verification development of the kernel under \<open>src/kernel/src\<close>.

  \<^bold>\<open>The program.\<close> A single-core kernel in Rust without an address-space boundary between programs: every
  program is a WebAssembly module that the kernel loads, interprets and serves through host functions.
  \<^item> A file of the in-memory table (\<open>fs/mod.rs\<close>) is parsed into sections (\<open>wasm/loader.rs\<close>), instantiated in one of
    a few slots (\<open>wasm/engine.rs\<close>), and executed by a stack machine (\<open>wasm/interp.rs\<close>).
  \<^item> A program calls the kernel through the host functions of \<open>wasm/engine.rs\<close>: console, keyboard, files,
    framebuffer, timer and network (\<open>drivers/netstack\<close>). A host function may suspend its program.
  \<^item> Suspended programs are tasks (\<open>wasm/task.rs\<close>); the scheduler (\<open>scheduler.rs\<close>) resumes one per turn.

  Whatever a module does, what stands between it and the kernel is the bounds checks of this code.

  \<^bold>\<open>The model.\<close> Functions are translated one by one, under their names in the source. A computation ends in
  \<open>Ok\<close>, \<open>Err\<close>, \<open>Panic\<close> (an index or slice out of range, an arithmetic overflow of the debug profile, an \<open>unwrap\<close> of
  \<open>None\<close>) or \<open>Hang\<close> (a loop that does not end); stateful code is a function in the monad \<open>sm\<close> of \<open>Prelude\<close>, which
  keeps the state also when the computation fails. Machine integers are words; \<open>usize\<close> offsets are
  natural numbers with the checks of 64-bit arithmetic written where they can matter. A fixed array is a
  function on indices next to its bound; a slice or string is a list.

  \<^item> \<open>Prelude\<close>, \<open>Byte_Order\<close>: results, slices, the monad with its rules for invariants (\<open>keeps\<close>), for absence of panics
    (\<open>safe\<close>, \<open>good\<close>), and byte orders with their round trips.
  \<^item> \<open>Leb128\<close>, \<open>Loader\<close>, \<open>Sections\<close>, \<open>Imports\<close>: \<open>loader.rs\<close> and the section parsers of \<open>interp.rs\<close>. The loader never panics,
    its sections are slices of the file, export lookup is first match, the three independent parsers of
    the import section agree.
  \<^item> \<open>Jump_Table\<close>: the precomputed targets of blocks. They agree with the linear reference scan; a lookup in a
    full table never returns.
  \<^item> \<open>Floats\<close>, \<open>Machine\<close>, \<open>Numeric\<close>, \<open>Dispatch\<close>: the interpreter: state, frames, every opcode, host calls, native calls.
    \<open>Execution\<close> proves the machine invariant, that a balanced step cannot panic, and that immutable globals
    are constant; \<open>Isolation\<close> that a run changes nothing beyond the active memory and nothing of its callers;
    \<open>Suspension\<close> that a program that is suspended and resumed ends as if it never had been.
  \<^item> \<open>File_Table\<close>: the table of files as a finite map, and where it loses one.
  \<^item> \<open>Block_Device\<close>, \<open>Wasmfs\<close>: block devices (\<open>fs/block.rs\<close>), the byte-wise cache under the FAT library (\<open>fs/fat.rs\<close>) and the
    WasmFS volume (\<open>fs/wasmfs.rs\<close>). The cache cannot be observed; a well-formed volume is a finite map from
    names to contents; the two ways to mount it agree.
  \<^item> \<open>Packets\<close>, \<open>Sockets\<close>, \<open>Dhcp\<close>, \<open>Network\<close>, \<open>Connections\<close>: the network stack. Formats round-trip and checksums verify;
    no frame that arrives panics the kernel; two stacks on a wire connect and deliver in order.
  \<^item> \<open>Host_Functions\<close>: the registry. Every host function stays inside the guest's memory and keeps the network
    invariant; which ones can panic the kernel, and on which arguments.
  \<^item> \<open>Engine\<close>: spawn, run, resume, destroy. Slots are isolated and their invariant holds in every reachable state.
  \<^item> \<open>Tasks\<close>: tasks and slots correspond one to one; the scheduler is fair; sleeps are long enough.
  \<^item> \<open>Fat\<close>: the functions of \<open>fs/fat.rs\<close> over the third-party crate. A write that reports success has stored the data although
    the crate may write less than asked; boot loads the volume into the table and save writes it back.
  \<^item> \<open>Keyboard\<close>, \<open>Rust_Strings\<close>, \<open>Line_Editor\<close>, \<open>Shell_Words\<close>: what is typed arrives (\<open>drivers/keyboard.rs\<close>, \<open>serial.rs\<close>); the line
    editor (\<open>shell/command_line_editor.rs\<close>) implements a text with a gap; words, numbers and paths are read as
    they are written (\<open>shell/mod.rs\<close>).
  \<^item> \<open>Wat_Lexer\<close>, \<open>Wat_Parser\<close>, \<open>Wat_Printer\<close>, \<open>Wasm_Emitter\<close>: the assembler (\<open>shell/commands/asm.rs\<close>). Parsing ends on every source; the
    printed text of a module parses to that module; the emitted binary loads, and an interpreter built from
    it has the parts of the module; a malformed source panics the kernel.
  \<^item> \<open>Font\<close>, \<open>Display\<close>: \<open>vga.rs\<close>. Every pixel of the screen is that of a terminal that receives the same characters and escape
    sequences, and nothing is written outside of the framebuffer.
  \<^item> \<open>Jit_Emit\<close>, \<open>Jit_Compile\<close>, \<open>Jit_Agreement\<close>: \<open>jit/emit.rs\<close> and \<open>jit/compile.rs\<close>, with a decoder and a semantics of the instructions
    used. The bytes decode to the instructions meant; native code of a straight-line body computes what the body
    means and keeps the calling convention; it agrees with the interpreter in the low 32 bits unless the
    body shifts. Shifts, long code and indices of locals are shown to go wrong.

  \<^bold>\<open>Interfaces.\<close> \<open>packet_format\<close> (what a builder and a parser promise each other) is interpreted for ARP, UDP and
  IPv4; \<open>leb_codec\<close> for the LEB128 writers and readers; \<open>file_store\<close> for the table of files; \<open>block_device\<close> (what a read returns after a write, and errors exactly beyond the end) for both RAM
  disks. The invariant proofs over the handlers of the interpreter are done once for the contract of an
  invariant of its primitives and interpreted for the machine invariant, the sandbox and the callers'
  frames.

  \<^bold>\<open>Fuel.\<close> \<open>run\<close> executes at most as many iterations as its fuel and reports \<open>Hang\<close> when it is used up; more fuel never
  changes an outcome. The same holds for \<open>drain\<close>, which runs a module to its end. The parser of the assembler gets
  \<open>wat_fuel\<close>, six units for each byte of the source and one more, and \<open>parse_wat_returns\<close> proves that this is enough. All
  other loops are
  total functions with their termination proved, or report \<open>Hang\<close> exactly when the code loops.

  \<^bold>\<open>Parameters.\<close> Floating-point arithmetic that Rust leaves to the hardware and the clock are arguments of the
  definitions that use them. The FAT crate is a record \<open>fatfs\<close> of its operations, with what the code relies on as
  hypotheses. The host functions take the operations of the drivers as a record, and the engine takes the compiler
  to native code and its functions as arguments with the hypothesis that they stay in their memory; \<open>Display\<close> and
  \<open>Jit_Compile\<close> show what the code behind these arguments does.

  \<^bold>\<open>Not modelled.\<close> Device registers and DMA rings (\<open>virtio_net.rs\<close>, \<open>virtio_blk.rs\<close>), page tables, the heap and interrupts, which are
  hardware accesses and inline assembly; the shell's commands and their dispatch and the file handling
  of \<open>asm\<close>, which print the results of the components above; start-up and build glue; guest programs.
\<close>

end
